(* ===== verification/Prelude.thy ===== *)
theory Prelude
  imports Main "HOL-Library.Word"
begin

text \<open>
  The shared prelude: names for the machine integers of the C code, the arithmetic of
  32-bit words widened to 64 bits, and the lemmas on bytes and lists that the component
  theories use.  \<open>unsigned int\<close> is \<open>32 word\<close>; \<open>unsigned long\<close> is \<open>64 word\<close>,
  because the code that uses it is built as a 64-bit host executable and shifts
  it by 32.
\<close>

unbundle bit_operations_syntax

type_synonym u8 = "8 word"
type_synonym u16 = "16 word"
type_synonym u32 = "32 word"
type_synonym u64 = "64 word"

named_theorems widen "reading widened and truncated words as natural numbers"

section \<open>Widening, truncation and shifts, read as natural numbers\<close>

lemma unat_lt_32 [simp]: "unat (x :: u32) < 4294967296"
  by (rule order_less_le_trans [OF unsigned_less]) simp

lemma unat_lt_8 [simp]: "unat (b :: u8) < 256"
  by (rule order_less_le_trans [OF unsigned_less]) simp

lemma unat_lt_64 [simp]: "unat (x :: u64) < 18446744073709551616"
  by (rule order_less_le_trans [OF unsigned_less]) simp

lemma unat_le_32 [simp]: "unat (x :: u32) \<le> 4294967295"
  using unat_lt_32 [of x] by linarith

lemma unat_ucast_32_64 [widen]: "unat (ucast (x :: u32) :: u64) = unat x"
  by (simp add: unsigned_ucast_eq take_bit_nat_eq_self_iff order_less_trans [OF unat_lt_32])

lemma unat_ucast_64_32 [widen]: "unat (ucast (x :: u64) :: u32) = unat x mod 2 ^ 32"
  by (simp add: unsigned_ucast_eq take_bit_eq_mod)

lemma unat_drop_32 [widen]: "unat (drop_bit 32 (x :: u64)) = unat x div 2 ^ 32"
  unfolding drop_bit_eq_div by (simp add: unat_div_distrib)

lemma unat_add_64 [widen]:
  "unat a + unat b < 18446744073709551616 \<Longrightarrow> unat (a + b :: u64) = unat a + unat b"
  using unat_add_lem [of a b] by simp

lemma unat_mult_64 [widen]:
  "unat a * unat b < 18446744073709551616 \<Longrightarrow> unat (a * b :: u64) = unat a * unat b"
  using unat_mult_lem [of a b] by simp

lemma unat_sub_64 [widen]: "unat b \<le> unat a \<Longrightarrow> unat (a - b :: u64) = unat a - unat b"
  by (simp add: unat_sub word_le_nat_alt)

lemma unat_sub_32 [widen]: "unat b \<le> unat a \<Longrightarrow> unat (a - b :: u32) = unat a - unat b"
  by (simp add: unat_sub word_le_nat_alt)

lemma mult_32_bound: "unat (x :: u32) * unat (y :: u32) \<le> 18446744065119617025"
proof -
  have "unat x * unat y \<le> 4294967295 * 4294967295"
    by (rule mult_le_mono) simp_all
  then show ?thesis by simp
qed

lemma unat_mult_widened [widen]:
  "unat (ucast (x :: u32) * ucast (y :: u32) :: u64) = unat x * unat y"
  using mult_32_bound [of x y] by (subst unat_mult_64) (simp_all add: widen)

text \<open>The masks of the C code, as the library's \<open>mask\<close>.\<close>

lemma mask_8: "(255 :: 'a :: len word) = mask 8"
  by (simp add: mask_eq_exp_minus_1)

lemma mask_32: "(4294967295 :: 'a :: len word) = mask 32"
  by (simp add: mask_eq_exp_minus_1)

section \<open>Lists\<close>

lemma nth_take_append: "i < n \<Longrightarrow> n \<le> length xs \<Longrightarrow> (take n xs @ ys) ! i = xs ! i"
  by (simp add: nth_append)

lemma take_Suc_update:
  "i < length xs \<Longrightarrow> take (Suc i) (xs[i := v]) = take i xs @ [v]"
  by (simp add: take_Suc_conv_app_nth)

section \<open>Buffers\<close>

text \<open>A C buffer is the list of its bytes.  Copying into it at an offset is undefined beyond its
  end, and so is reading from it.\<close>

definition mem_write :: "'a list \<Rightarrow> nat \<Rightarrow> 'a list \<Rightarrow> 'a list option" where
  "mem_write buf off xs =
     (if off + length xs \<le> length buf then Some (take off buf @ xs @ drop (off + length xs) buf) else None)"

definition mem_read :: "'a list \<Rightarrow> nat \<Rightarrow> nat \<Rightarrow> 'a list option" where
  "mem_read buf off n = (if off + n \<le> length buf then Some (take n (drop off buf)) else None)"

lemma mem_write_Some_iff:
  "mem_write buf off xs = Some buf' \<longleftrightarrow>
     off + length xs \<le> length buf \<and> take off buf @ xs @ drop (off + length xs) buf = buf'"
  by (simp add: mem_write_def)

lemma mem_write_length: "mem_write buf off xs = Some buf' \<Longrightarrow> length buf' = length buf"
  unfolding mem_write_Some_iff by (elim conjE, hypsubst) simp

lemma mem_read_Some_iff:
  "mem_read buf off n = Some xs \<longleftrightarrow> off + n \<le> length buf \<and> take n (drop off buf) = xs"
  by (simp add: mem_read_def)

lemma mem_read_write:
  "mem_write buf off xs = Some buf' \<Longrightarrow> mem_read buf' off (length xs) = Some xs"
  unfolding mem_write_Some_iff mem_read_Some_iff by (elim conjE, hypsubst) simp

lemma mem_write_whole: "length xs = length buf \<Longrightarrow> mem_write buf 0 xs = Some xs"
  by (simp add: mem_write_def)

lemma mem_read_whole: "length xs = n \<Longrightarrow> mem_read xs 0 n = Some xs"
  by (simp add: mem_read_def)

lemma bind_SomeE: "Option.bind x f = Some y \<Longrightarrow> (\<And>z. x = Some z \<Longrightarrow> f z = Some y \<Longrightarrow> P) \<Longrightarrow> P"
  by (cases x) simp_all

section \<open>Words in memory\<close>

text \<open>The little-endian bytes of a 32-bit word, and the \<open>i\<close>th word of a byte buffer.\<close>

definition word_of_bytes :: "u8 list \<Rightarrow> nat \<Rightarrow> u32" where
  "word_of_bytes bs i =
     of_nat (unat (bs ! (4 * i)) + unat (bs ! (4 * i + 1)) * 2 ^ 8 + unat (bs ! (4 * i + 2)) * 2 ^ 16
       + unat (bs ! (4 * i + 3)) * 2 ^ 24)"

definition bytes_of_word :: "u32 \<Rightarrow> u8 list" where
  "bytes_of_word w = map (\<lambda>n. ucast (drop_bit n w)) [0, 8, 16, 24]"

lemma length_bytes_of_word [simp]: "length (bytes_of_word w) = 4"
  by (simp add: bytes_of_word_def)

lemma unat_byte: "unat (ucast (drop_bit n w :: u32) :: u8) = unat w div 2 ^ n mod 256"
proof -
  have "unat (ucast (drop_bit n w) :: u8) = unat (drop_bit n w) mod 2 ^ 8"
    by (simp add: unsigned_ucast_eq take_bit_eq_mod)
  also have "unat (drop_bit n w) = unat w div 2 ^ n"
    unfolding drop_bit_eq_div [symmetric]
    by (rule bit_eqI) (auto simp: bit_simps bit_unsigned_iff dest: bit_imp_le_length)
  finally show ?thesis by simp
qed

lemma base256_word: "v < 2 ^ 32 \<Longrightarrow>
   v div 2 ^ 0 mod 256 + 256 * (v div 2 ^ 8 mod 256 + 256 * (v div 2 ^ 16 mod 256 + 256 * (v div 2 ^ 24 mod 256))) = (v :: nat)"
proof -
  assume v: "v < 2 ^ 32"
  have "v div 2 ^ 16 = v div 2 ^ 8 div 256" "v div 2 ^ 24 = v div 2 ^ 8 div 256 div 256"
    by (simp_all add: div_mult2_eq [symmetric])
  moreover have "v div 2 ^ 8 = v div 256" by simp
  moreover have "v div 256 div 256 div 256 < 256" using v by (simp add: div_mult2_eq [symmetric] less_mult_imp_div_less)
  moreover have "x mod 256 + 256 * (x div 256) = x" for x :: nat by simp
  ultimately show ?thesis by (simp only: power_0 div_by_1 mod_less)
qed

lemma unat_less_32: "unat (w :: u32) < 2 ^ 32"
  by simp

end
