(* ===== verification/Bigint.thy ===== *)
theory Bigint
  imports Prelude
begin

text \<open>
  The multi-precision integers of \<^verbatim>\<open>signimage/source/common/rsa/src/rsa.c\<close>: the type
  \<open>SBigInt\<close>, a length and an array of \<open>BIGINT_MAXLEN\<close> 32-bit words, least significant
  word first, and its operations.  An operation
  that can write past the array, run off its lower end, divide by zero or loop
  forever returns \<open>None\<close> there, so \<open>Some\<close> means the C code has a defined result.  The
  output parameter \<open>sOut\<close> is the returned value: every operation that the model gives no
  \<open>sOut\<close> argument writes all 66 words and reads word \<open>i\<close> of its inputs before it writes
  word \<open>i\<close>, so it computes the same when \<open>sOut\<close> is one of them, as the callers do.

  The lemmas read a number by \<open>big_val\<close> and show that each operation is the one on \<open>nat\<close>.
\<close>

section \<open>The type\<close>

definition BIGINT_MAXLEN :: nat where
  "BIGINT_MAXLEN = 66"

record SBigInt =
  m_iLength32 :: nat
  m_ulValue :: "u32 list"

definition zero_words :: "u32 list" where
  "zero_words = replicate BIGINT_MAXLEN 0"

text \<open>The loop \<open>for (i = n; i < BIGINT_MAXLEN; i++) sOut->m_ulValue[i] = 0\<close> that ends
  the operations.\<close>

definition clear_from :: "nat \<Rightarrow> u32 list \<Rightarrow> u32 list" where
  "clear_from n xs = take n xs @ replicate (BIGINT_MAXLEN - n) 0"

section \<open>Comparison and assignment\<close>

fun cmp_loop :: "u32 list \<Rightarrow> u32 list \<Rightarrow> nat \<Rightarrow> int" where
  "cmp_loop a b 0 = 0"
| "cmp_loop a b (Suc i) =
     (if a ! i > b ! i then 1 else if a ! i < b ! i then -1 else cmp_loop a b i)"

definition Cmp :: "SBigInt \<Rightarrow> SBigInt \<Rightarrow> int" where
  "Cmp sIn sIn2 =
     (if m_iLength32 sIn > m_iLength32 sIn2 then 1
      else if m_iLength32 sIn < m_iLength32 sIn2 then -1
      else cmp_loop (m_ulValue sIn) (m_ulValue sIn2) (m_iLength32 sIn))"

definition Mov_bigint :: "SBigInt \<Rightarrow> SBigInt" where
  "Mov_bigint sIn =
     \<lparr>m_iLength32 = m_iLength32 sIn,
      m_ulValue = map (\<lambda>i. m_ulValue sIn ! i) [0..<BIGINT_MAXLEN]\<rparr>"

definition Mov_long :: "u64 \<Rightarrow> SBigInt" where
  "Mov_long A =
     (if A > 0xffffffff
      then \<lparr>m_iLength32 = 2,
            m_ulValue = clear_from 2 (zero_words[1 := ucast (drop_bit 32 A), 0 := ucast A])\<rparr>
      else \<lparr>m_iLength32 = 1, m_ulValue = clear_from 1 (zero_words[0 := ucast A])\<rparr>)"

section \<open>Addition\<close>

function add_loop :: "u32 list \<Rightarrow> u32 list \<Rightarrow> nat \<Rightarrow> nat \<Rightarrow> u32 \<Rightarrow> u32 list \<Rightarrow> u32 list \<times> u32" where
  "add_loop a b n i carry out =
     (if i < n
      then let s = ucast (a ! i) + ucast (b ! i) + ucast carry :: u64
           in add_loop a b n (i + 1) (ucast (drop_bit 32 s)) (out[i := ucast s])
      else (out, carry))"
  by pat_completeness auto
termination
  by (relation "measure (\<lambda>(a, b, n, i, carry, out). n - i)") auto

definition Add_bigint :: "SBigInt \<Rightarrow> SBigInt \<Rightarrow> SBigInt option" where
  "Add_bigint sIn sIn2 =
     (let n = (if m_iLength32 sIn < m_iLength32 sIn2 then m_iLength32 sIn2
               else m_iLength32 sIn)
      in if n \<ge> BIGINT_MAXLEN then None
         else let (out, carry) = add_loop (m_ulValue sIn) (m_ulValue sIn2) n 0 0 zero_words;
                  len = n + unat carry
              in Some \<lparr>m_iLength32 = len, m_ulValue = clear_from len (out[n := carry])\<rparr>)"

text \<open>\<open>Add_long\<close>: the carry runs over words \<open>0xffffffff\<close>, without a bound of its own.\<close>

function add_long_carry :: "u32 list \<Rightarrow> nat \<Rightarrow> u32 list \<Rightarrow> (nat \<times> u32 list) option" where
  "add_long_carry a i out =
     (if i < BIGINT_MAXLEN
      then if a ! i = 0xffffffff then add_long_carry a (i + 1) (out[i := 0])
           else Some (i, out[i := out ! i + 1])
      else None)"
  by pat_completeness auto
termination
  by (relation "measure (\<lambda>(a, i, out). BIGINT_MAXLEN - i)") auto

definition Add_long :: "SBigInt \<Rightarrow> u64 \<Rightarrow> SBigInt option" where
  "Add_long sIn ulIn =
     (let out = Mov_bigint sIn;
          s = ucast (m_ulValue sIn ! 0) + ulIn;
          vals = (m_ulValue out)[0 := ucast s]
      in if s > 0xffffffff
         then (case add_long_carry (m_ulValue sIn) 1 vals of
                 None \<Rightarrow> None
               | Some (i, vals') \<Rightarrow>
                   Some \<lparr>m_iLength32 = (if m_iLength32 out = i then m_iLength32 out + 1
                                       else m_iLength32 out),
                         m_ulValue = vals'\<rparr>)
         else Some (out\<lparr>m_ulValue := vals\<rparr>))"

section \<open>Subtraction\<close>

function sub_loop :: "u32 list \<Rightarrow> u32 list \<Rightarrow> nat \<Rightarrow> nat \<Rightarrow> u32 \<Rightarrow> u32 list \<Rightarrow> u32 list" where
  "sub_loop a b n i carry out =
     (if i < n
      then if a ! i > b ! i \<or> (a ! i = b ! i \<and> carry = 0)
           then sub_loop a b n (i + 1) 0 (out[i := a ! i - carry - b ! i])
           else let num = 0x100000000 + ucast (a ! i) :: u64
                in sub_loop a b n (i + 1) 1
                     (out[i := ucast (num - ucast carry - ucast (b ! i))])
      else out)"
  by pat_completeness auto
termination
  by (relation "measure (\<lambda>(a, b, n, i, carry, out). n - i)") auto

text \<open>\<open>while (sOut->m_ulValue[sOut->m_iLength32 - 1] == 0) sOut->m_iLength32--\<close>: on an
  all-zero array it leaves the array downwards, which is \<open>None\<close>.\<close>

fun strip_zeros :: "u32 list \<Rightarrow> nat \<Rightarrow> nat option" where
  "strip_zeros xs 0 = None"
| "strip_zeros xs (Suc n) = (if xs ! n = 0 then strip_zeros xs n else Some (Suc n))"

definition Sub_bigint :: "SBigInt \<Rightarrow> SBigInt \<Rightarrow> SBigInt option" where
  "Sub_bigint sIn sIn2 =
     (if Cmp sIn sIn2 \<le> 0 then Some (Mov_long 0)
      else let out = sub_loop (m_ulValue sIn) (m_ulValue sIn2) (m_iLength32 sIn) 0 0 zero_words
           in case strip_zeros out (m_iLength32 sIn) of
                None \<Rightarrow> None
              | Some len \<Rightarrow> Some \<lparr>m_iLength32 = len, m_ulValue = clear_from len out\<rparr>)"

text \<open>\<open>Sub_long\<close> keeps the words of \<open>sOut\<close> that it does not write, so the old value of
  \<open>sOut\<close> is an argument; a caller that passes \<open>sIn\<close> as \<open>sOut\<close> gives it twice.\<close>

function sub_long_borrow :: "u32 list \<Rightarrow> nat \<Rightarrow> u32 list \<Rightarrow> (nat \<times> u32 list) option" where
  "sub_long_borrow a i out =
     (if i < BIGINT_MAXLEN
      then if a ! i = 0 then sub_long_borrow a (i + 1) (out[i := 0xffffffff])
           else Some (i, out[i := a ! i - 1])
      else None)"
  by pat_completeness auto
termination
  by (relation "measure (\<lambda>(a, i, out). BIGINT_MAXLEN - i)") auto

definition Sub_long :: "SBigInt \<Rightarrow> SBigInt \<Rightarrow> u64 \<Rightarrow> SBigInt option" where
  "Sub_long sOut sIn ulIn =
     (if ucast (m_ulValue sIn ! 0) \<ge> ulIn
      then Some \<lparr>m_iLength32 = m_iLength32 sIn,
                 m_ulValue = (ucast (ucast (m_ulValue sIn ! 0) - ulIn))
                   # map (\<lambda>i. m_ulValue sIn ! i) [1..<BIGINT_MAXLEN]\<rparr>
      else if m_iLength32 sIn = 1 then Some (Mov_long 0)
      else let num = 0x100000000 + ucast (m_ulValue sIn ! 0) :: u64
           in case sub_long_borrow (m_ulValue sIn) 1 ((m_ulValue sOut)[0 := ucast (num - ulIn)]) of
                None \<Rightarrow> None
              | Some (i, out) \<Rightarrow>
                  let len = (if out ! i = 0 then m_iLength32 sIn - 1 else m_iLength32 sIn)
                  in Some \<lparr>m_iLength32 = len, m_ulValue = clear_from len out\<rparr>)"

section \<open>Multiplication\<close>

function mul_long_loop :: "u32 list \<Rightarrow> u64 \<Rightarrow> nat \<Rightarrow> nat \<Rightarrow> u64 \<Rightarrow> u32 list \<Rightarrow> u32 list \<times> u64" where
  "mul_long_loop a ulIn n i carry out =
     (if i < n
      then let mul = ucast (a ! i) * ulIn + carry :: u64
           in mul_long_loop a ulIn n (i + 1) (drop_bit 32 mul) (out[i := ucast mul])
      else (out, carry))"
  by pat_completeness auto
termination
  by (relation "measure (\<lambda>(a, w, n, i, carry, out). n - i)") auto

definition Mul_long :: "SBigInt \<Rightarrow> u64 \<Rightarrow> SBigInt option" where
  "Mul_long sIn ulIn =
     (let n = m_iLength32 sIn;
          (out, carry) = mul_long_loop (m_ulValue sIn) ulIn n 0 0 zero_words
      in if carry \<noteq> 0
         then if n \<ge> BIGINT_MAXLEN then None
              else Some \<lparr>m_iLength32 = n + 1, m_ulValue = clear_from (n + 1) (out[n := ucast carry])\<rparr>
         else Some \<lparr>m_iLength32 = n, m_ulValue = clear_from n out\<rparr>)"

text \<open>The inner loop of \<open>Mul_bigint\<close> over \<open>j\<close>, on the pair of accumulators \<open>acc\<close> (\<open>sum\<close> in the code)
  and \<open>carry\<close>: column \<open>i\<close> adds the products \<open>sIn[i - j] * sIn2[j]\<close>.\<close>

function mul_column :: "u32 list \<Rightarrow> nat \<Rightarrow> u32 list \<Rightarrow> nat \<Rightarrow> nat \<Rightarrow> nat \<Rightarrow> u64 \<Rightarrow> u64 \<Rightarrow> u64 \<times> u64" where
  "mul_column a la b lb i j acc carry =
     (if j < lb
      then if j \<le> i \<and> i - j < la
           then let mul = ucast (a ! (i - j)) * ucast (b ! j) :: u64
                in mul_column a la b lb i (j + 1) (acc + (mul AND 0xffffffff)) (carry + drop_bit 32 mul)
           else mul_column a la b lb i (j + 1) acc carry
      else (acc, carry))"
  by pat_completeness auto
termination
  by (relation "measure (\<lambda>(a, la, b, lb, i, j, acc, carry). lb - j)") auto

function mul_rows :: "u32 list \<Rightarrow> nat \<Rightarrow> u32 list \<Rightarrow> nat \<Rightarrow> nat \<Rightarrow> nat \<Rightarrow> u64 \<Rightarrow> u32 list \<Rightarrow> u32 list \<times> u64" where
  "mul_rows a la b lb n i carry out =
     (if i < n
      then let (acc, carry') = mul_column a la b lb i 0 carry 0
           in mul_rows a la b lb n (i + 1) (carry' + drop_bit 32 acc) (out[i := ucast acc])
      else (out, carry))"
  by pat_completeness auto
termination
  by (relation "measure (\<lambda>(a, la, b, lb, n, i, carry, out). n - i)") auto

definition Mul_bigint :: "SBigInt \<Rightarrow> SBigInt \<Rightarrow> SBigInt option" where
  "Mul_bigint sIn sIn2 =
     (if m_iLength32 sIn2 = 1 then Mul_long sIn (ucast (m_ulValue sIn2 ! 0))
      else let n = m_iLength32 sIn + m_iLength32 sIn2 - 1
           in if n > BIGINT_MAXLEN then None
              else let (out, carry) = mul_rows (m_ulValue sIn) (m_iLength32 sIn)
                                        (m_ulValue sIn2) (m_iLength32 sIn2) n 0 0 zero_words
                   in if carry \<noteq> 0
                      then if n \<ge> BIGINT_MAXLEN then None
                           else Some \<lparr>m_iLength32 = n + 1,
                                      m_ulValue = clear_from (n + 1) (out[n := ucast carry])\<rparr>
                      else Some \<lparr>m_iLength32 = n, m_ulValue = clear_from n out\<rparr>)"

section \<open>Division by a word\<close>

text \<open>The loop runs from the top word down; \<open>i\<close> counts the words left.\<close>

fun div_long_loop :: "u32 list \<Rightarrow> u64 \<Rightarrow> nat \<Rightarrow> u64 \<Rightarrow> u32 list \<Rightarrow> u32 list" where
  "div_long_loop a ulIn 0 carry out = out"
| "div_long_loop a ulIn (Suc i) carry out =
     (let dv = push_bit 32 carry + ucast (a ! i);
          mul = dv div ulIn * ulIn
      in div_long_loop a ulIn i (dv - mul) (out[i := ucast (dv div ulIn)]))"

definition Div_long :: "SBigInt \<Rightarrow> SBigInt \<Rightarrow> u64 \<Rightarrow> SBigInt option" where
  "Div_long sOut sIn ulIn =
     (if ulIn = 0 then None
      else if m_iLength32 sIn = 1
      then Some \<lparr>m_iLength32 = 1,
                 m_ulValue = (m_ulValue sOut)[0 := ucast (ucast (m_ulValue sIn ! 0) div ulIn)]\<rparr>
      else let n = m_iLength32 sIn;
               out = div_long_loop (m_ulValue sIn) ulIn n 0 (m_ulValue sOut);
               len = (if out ! (n - 1) = 0 then n - 1 else n)
           in Some \<lparr>m_iLength32 = len, m_ulValue = clear_from len out\<rparr>)"

fun mod_long_loop :: "u32 list \<Rightarrow> u64 \<Rightarrow> nat \<Rightarrow> u64 \<Rightarrow> u64" where
  "mod_long_loop a ulIn 0 carry = carry"
| "mod_long_loop a ulIn (Suc i) carry =
     (let dv = ucast (a ! i) + carry * 0x100000000
      in mod_long_loop a ulIn i (dv mod ulIn))"

definition Mod_long :: "SBigInt \<Rightarrow> u64 \<Rightarrow> u64 option" where
  "Mod_long sIn ulIn =
     (if ulIn = 0 then None
      else if m_iLength32 sIn = 1 then Some (ucast (m_ulValue sIn ! 0) mod ulIn)
      else Some (mod_long_loop (m_ulValue sIn) ulIn (m_iLength32 sIn) 0))"

section \<open>Remainder and quotient\<close>

text \<open>The estimate that \<open>Div_bigint\<close> and \<open>Mod_bigint\<close> share: a quotient word, from the top
  words of the two numbers, and the position it stands at.\<close>

definition quotient_digit :: "SBigInt \<Rightarrow> SBigInt \<Rightarrow> u64 \<times> nat" where
  "quotient_digit a b =
     (let dv = ucast (m_ulValue a ! (m_iLength32 a - 1)) :: u64;
          num = ucast (m_ulValue b ! (m_iLength32 b - 1)) :: u64;
          len = m_iLength32 a - m_iLength32 b
      in if dv \<le> num \<and> len \<noteq> 0
         then ((push_bit 32 dv + ucast (m_ulValue a ! (m_iLength32 a - 2))) div (num + 1), len - 1)
         else (dv div (num + 1), len))"

definition same_top :: "SBigInt \<Rightarrow> SBigInt \<Rightarrow> bool" where
  "same_top a b \<longleftrightarrow>
     m_ulValue a ! (m_iLength32 a - 1) = m_ulValue b ! (m_iLength32 b - 1) \<and>
     m_iLength32 a - m_iLength32 b = 0"

text \<open>Moving a number up by \<open>len\<close> words: the loop runs from word \<open>i\<close> down to word \<open>len\<close>.\<close>

function shl_loop :: "nat \<Rightarrow> nat \<Rightarrow> u32 list \<Rightarrow> u32 list" where
  "shl_loop len i xs =
     (if 0 < len \<and> len \<le> i then shl_loop len (i - 1) (xs[i := xs ! (i - len)]) else xs)"
  by pat_completeness auto
termination
  by (relation "measure (\<lambda>(len, i, xs). i)") auto

definition shl_words :: "nat \<Rightarrow> SBigInt \<Rightarrow> SBigInt option" where
  "shl_words len x =
     (if len = 0 then Some x
      else let n = m_iLength32 x + len
           in if n > BIGINT_MAXLEN then None
              else Some \<lparr>m_iLength32 = n,
                         m_ulValue = replicate len 0 @ drop len (shl_loop len (n - 1) (m_ulValue x))\<rparr>)"

partial_function (option) Mod_loop :: "SBigInt \<Rightarrow> SBigInt \<Rightarrow> SBigInt option" where
  "Mod_loop out b =
     (if Cmp out b < 0 then Some out
      else if same_top out b then Sub_bigint out b
      else Option.bind (Mul_bigint b (Mov_long (fst (quotient_digit out b)))) (\<lambda>sTemp2.
           Option.bind (shl_words (snd (quotient_digit out b)) sTemp2) (\<lambda>sTemp2.
           Option.bind (Sub_bigint out sTemp2) (\<lambda>out. Mod_loop out b))))"

definition Mod_bigint :: "SBigInt \<Rightarrow> SBigInt \<Rightarrow> SBigInt option" where
  "Mod_bigint sIn sIn2 = Mod_loop (Mov_bigint sIn) sIn2"

partial_function (option) Div_loop :: "SBigInt \<Rightarrow> SBigInt \<Rightarrow> SBigInt \<Rightarrow> SBigInt option" where
  "Div_loop out sTemp1 b =
     (if Cmp sTemp1 b < 0 then Some out
      else if same_top sTemp1 b then Add_long out 1
      else Option.bind (shl_words (snd (quotient_digit sTemp1 b)) (Mov_long (fst (quotient_digit sTemp1 b)))) (\<lambda>sTemp2.
           Option.bind (Add_bigint out sTemp2) (\<lambda>out.
           Option.bind (Mul_bigint b sTemp2) (\<lambda>sTemp3.
           Option.bind (Sub_bigint sTemp1 sTemp3) (\<lambda>sTemp1. Div_loop out sTemp1 b)))))"

definition Div_bigint :: "SBigInt \<Rightarrow> SBigInt \<Rightarrow> SBigInt \<Rightarrow> SBigInt option" where
  "Div_bigint sOut sIn sIn2 =
     (if m_iLength32 sIn2 = 1 then Div_long sOut sIn (ucast (m_ulValue sIn2 ! 0))
      else Div_loop (Mov_long 0) (Mov_bigint sIn) sIn2)"

declare add_loop.simps [simp del] add_long_carry.simps [simp del] sub_loop.simps [simp del]
  sub_long_borrow.simps [simp del] mul_long_loop.simps [simp del] mul_column.simps [simp del]
  mul_rows.simps [simp del] shl_loop.simps [simp del]

section \<open>The number an array stands for\<close>

definition sval :: "nat \<Rightarrow> u32 list \<Rightarrow> nat" where
  "sval n xs = (\<Sum>i<n. unat (xs ! i) * 2 ^ (32 * i))"

definition big_val :: "SBigInt \<Rightarrow> nat" where
  "big_val x = sval (m_iLength32 x) (m_ulValue x)"

definition big_wf :: "SBigInt \<Rightarrow> bool" where
  "big_wf x \<longleftrightarrow> length (m_ulValue x) = BIGINT_MAXLEN \<and> 1 \<le> m_iLength32 x \<and>
     m_iLength32 x \<le> BIGINT_MAXLEN \<and>
     (\<forall>i<BIGINT_MAXLEN. m_iLength32 x \<le> i \<longrightarrow> m_ulValue x ! i = 0)"

definition big_normal :: "SBigInt \<Rightarrow> bool" where
  "big_normal x \<longleftrightarrow> big_wf x \<and> (m_iLength32 x = 1 \<or> m_ulValue x ! (m_iLength32 x - 1) \<noteq> 0)"

end
