(* ===== verification/BigintBase.thy ===== *)
theory BigintBase
  imports Bigint
begin

text \<open>
  Facts about the value of a word array and, from them, the correctness of comparison,
  assignment, addition, subtraction and the word multiplication of \<^verbatim>\<open>rsa.c\<close>:
  on well-formed numbers each is the operation on \<open>nat\<close>, and the result is again
  well-formed (and normal, without leading zero words, where the inputs are).
\<close>

section \<open>Values of arrays\<close>

lemma BIGINT_MAXLEN_eq [simp]: "BIGINT_MAXLEN = 66"
  by (simp add: BIGINT_MAXLEN_def)

lemma sval_0 [simp]: "sval 0 xs = 0"
  by (simp add: sval_def)

lemma sval_Suc: "sval (Suc n) xs = sval n xs + unat (xs ! n) * 2 ^ (32 * n)"
  by (simp add: sval_def)

lemma sval_Suc_0 [simp]: "sval (Suc 0) xs = unat (xs ! 0)"
  using sval_Suc [of 0 xs] by simp

lemma sval_cong: "(\<And>i. i < n \<Longrightarrow> xs ! i = ys ! i) \<Longrightarrow> sval n xs = sval n ys"
  by (simp add: sval_def)

lemma sval_update [simp]: "n \<le> i \<Longrightarrow> sval n (xs[i := v]) = sval n xs"
  by (rule sval_cong) simp

lemma sval_update_top:
  "n < length xs \<Longrightarrow> sval (Suc n) (xs[n := v]) = sval n xs + unat v * 2 ^ (32 * n)"
  by (simp add: sval_Suc)

lemma digit_less: "(x :: nat) < y \<Longrightarrow> u < p \<Longrightarrow> u + x * p < v + y * p"
proof -
  assume "x < y" "u < p"
  then have "(x + 1) * p \<le> y * p" by (intro mult_le_mono1) simp
  with \<open>u < p\<close> show ?thesis by (simp add: algebra_simps)
qed

lemma sval_less: "sval n xs < 2 ^ (32 * n)"
proof (induction n)
  case 0
  show ?case by simp
next
  case (Suc n)
  have "sval n xs + unat (xs ! n) * 2 ^ (32 * n) < 0 + 4294967296 * 2 ^ (32 * n)"
    by (rule digit_less) (simp_all add: Suc)
  then show ?case by (simp add: sval_Suc power_add)
qed

lemma sval_extend:
  "n \<le> m \<Longrightarrow> (\<And>i. n \<le> i \<Longrightarrow> i < m \<Longrightarrow> xs ! i = 0) \<Longrightarrow> sval m xs = sval n xs"
proof (induction m)
  case (Suc m)
  then show ?case by (cases "n = Suc m") (simp_all add: sval_Suc)
qed simp

lemma sval_top_ge: "xs ! n \<noteq> 0 \<Longrightarrow> 2 ^ (32 * n) \<le> sval (Suc n) xs"
proof -
  assume "xs ! n \<noteq> 0"
  then have "1 \<le> unat (xs ! n)" by (simp add: Suc_le_eq unat_gt_0)
  then have "1 * 2 ^ (32 * n) \<le> unat (xs ! n) * 2 ^ (32 * n)" by (rule mult_le_mono1)
  then show ?thesis unfolding sval_Suc by linarith
qed

lemma sval_zeros: "(\<And>i. i < n \<Longrightarrow> xs ! i = 0) \<Longrightarrow> sval n xs = 0"
  using sval_extend [of 0 n xs] by simp

lemma length_clear_from [simp]:
  "n \<le> 66 \<Longrightarrow> length xs = 66 \<Longrightarrow> length (clear_from n xs) = 66"
  by (simp add: clear_from_def)

lemma nth_clear_from [simp]:
  "i < 66 \<Longrightarrow> n \<le> 66 \<Longrightarrow> length xs = 66 \<Longrightarrow> clear_from n xs ! i = (if i < n then xs ! i else 0)"
  by (auto simp: clear_from_def nth_append)

lemma sval_clear_from [simp]:
  "m \<le> n \<Longrightarrow> n \<le> 66 \<Longrightarrow> length xs = 66 \<Longrightarrow> sval m (clear_from n xs) = sval m xs"
  by (rule sval_cong) simp

lemma length_zero_words [simp]: "length zero_words = 66"
  by (simp add: zero_words_def)

lemma nth_zero_words [simp]: "i < 66 \<Longrightarrow> zero_words ! i = 0"
  by (simp add: zero_words_def)

section \<open>Well-formed and normal numbers\<close>

lemma big_wfI:
  "length xs = 66 \<Longrightarrow> 1 \<le> n \<Longrightarrow> n \<le> 66 \<Longrightarrow> big_wf \<lparr>m_iLength32 = n, m_ulValue = clear_from n xs\<rparr>"
  by (simp add: big_wf_def)

lemma big_normal_wf [simp, intro]: "big_normal x \<Longrightarrow> big_wf x"
  by (simp add: big_normal_def)

lemma big_wf_length [simp]: "big_wf x \<Longrightarrow> length (m_ulValue x) = 66"
  by (simp add: big_wf_def)

lemma big_wf_len: "big_wf x \<Longrightarrow> 1 \<le> m_iLength32 x \<and> m_iLength32 x \<le> 66"
  by (simp add: big_wf_def)

lemma big_wf_tail: "big_wf x \<Longrightarrow> m_iLength32 x \<le> i \<Longrightarrow> i < 66 \<Longrightarrow> m_ulValue x ! i = 0"
  by (simp add: big_wf_def)

lemma big_val_less: "big_val x < 2 ^ (32 * m_iLength32 x)"
  by (simp add: big_val_def sval_less)

lemma big_val_ext: "big_wf x \<Longrightarrow> m_iLength32 x \<le> n \<Longrightarrow> n \<le> 66 \<Longrightarrow> sval n (m_ulValue x) = big_val x"
  unfolding big_val_def by (rule sval_extend) (auto simp: big_wf_tail)

lemma top_nonzero_ge:
  assumes "1 \<le> m_iLength32 x" "m_ulValue x ! (m_iLength32 x - 1) \<noteq> 0"
  shows "2 ^ (32 * (m_iLength32 x - 1)) \<le> big_val x"
  using sval_top_ge [OF assms(2)] assms(1) by (simp add: big_val_def)

lemma big_normal_ge:
  "big_normal x \<Longrightarrow> m_iLength32 x \<noteq> 1 \<Longrightarrow> 2 ^ (32 * (m_iLength32 x - 1)) \<le> big_val x"
  by (rule top_nonzero_ge) (auto simp: big_normal_def big_wf_def)

lemma big_normal_len_le:
  assumes "big_normal x" "big_val x \<le> big_val y"
  shows "m_iLength32 x = 1 \<or> m_iLength32 x \<le> m_iLength32 y"
proof (rule disjCI)
  assume "\<not> m_iLength32 x \<le> m_iLength32 y"
  show "m_iLength32 x = 1"
  proof (rule ccontr)
    assume "m_iLength32 x \<noteq> 1"
    with assms(1) have "2 ^ (32 * (m_iLength32 x - 1)) \<le> big_val x" by (rule big_normal_ge)
    also have "big_val x < 2 ^ (32 * m_iLength32 y)"
      using assms(2) big_val_less [of y] by simp
    finally have "m_iLength32 x - 1 < m_iLength32 y" by simp
    with \<open>\<not> m_iLength32 x \<le> m_iLength32 y\<close> show False by simp
  qed
qed

lemma big_normal_len_mono:
  "big_normal x \<Longrightarrow> big_wf y \<Longrightarrow> big_val x \<le> big_val y \<Longrightarrow> m_iLength32 x \<le> m_iLength32 y"
  using big_normal_len_le [of x y] big_wf_len [of y] by auto

section \<open>Comparison and assignment\<close>

lemma cmp_loop_sval:
  "cmp_loop a b n = (if sval n a < sval n b then -1 else if sval n b < sval n a then 1 else 0)"
proof (induction n)
  case (Suc n)
  consider "a ! n > b ! n" | "a ! n < b ! n" | "a ! n = b ! n" by (meson linorder_neqE)
  then show ?case
  proof cases
    case 1
    then have "sval (Suc n) b < sval (Suc n) a"
      unfolding sval_Suc by (intro digit_less sval_less) (simp add: word_less_nat_alt)
    with 1 show ?thesis by simp
  next
    case 2
    then have "sval (Suc n) a < sval (Suc n) b"
      unfolding sval_Suc by (intro digit_less sval_less) (simp add: word_less_nat_alt)
    with 2 show ?thesis by auto
  next
    case 3
    then show ?thesis by (simp add: Suc sval_Suc)
  qed
qed simp

lemma Cmp_same_length:
  "m_iLength32 x = m_iLength32 y \<Longrightarrow>
   Cmp x y = (if big_val x < big_val y then -1 else if big_val y < big_val x then 1 else 0)"
  by (simp add: Cmp_def cmp_loop_sval big_val_def)

lemma normal_longer_greater:
  "big_normal x \<Longrightarrow> big_wf y \<Longrightarrow> m_iLength32 y < m_iLength32 x \<Longrightarrow> big_val y < big_val x"
  using big_normal_len_mono [of x y] by linarith

lemma Cmp_normal:
  assumes "big_normal x" "big_normal y"
  shows "Cmp x y = (if big_val x < big_val y then -1 else if big_val y < big_val x then 1 else 0)"
proof -
  consider "m_iLength32 x > m_iLength32 y" | "m_iLength32 x < m_iLength32 y"
    | "m_iLength32 x = m_iLength32 y" by linarith
  then show ?thesis
  proof cases
    case 1
    with normal_longer_greater [of x y] assms have "big_val y < big_val x" by auto
    with 1 show ?thesis by (simp add: Cmp_def)
  next
    case 2
    with normal_longer_greater [of y x] assms have "big_val x < big_val y" by auto
    with 2 show ?thesis by (simp add: Cmp_def)
  qed (rule Cmp_same_length)
qed

lemma Mov_bigint_id [simp]: "big_wf x \<Longrightarrow> Mov_bigint x = x"
proof -
  assume w: "big_wf x"
  have "map (\<lambda>i. m_ulValue x ! i) [0..<66] = m_ulValue x"
    using w by (intro nth_equalityI) simp_all
  then show ?thesis by (simp add: Mov_bigint_def)
qed

lemma high_word: "unat (ucast (drop_bit 32 (A :: u64)) :: u32) = unat A div 2 ^ 32"
proof -
  have "unat A div 2 ^ 32 mod 2 ^ 32 = unat A div 2 ^ 32"
    by (rule mod_less) (simp add: less_mult_imp_div_less)
  then show ?thesis by (simp only: widen)
qed

lemma word_pair: "unat (ucast s :: u32) + unat (ucast (drop_bit 32 (s :: u64)) :: u32) * 2 ^ 32 = unat s"
  unfolding high_word unfolding unat_ucast_64_32 by (rule mod_div_mult_eq)

lemma Mov_long_small:
  "unat A < 2 ^ 32 \<Longrightarrow> Mov_long A = \<lparr>m_iLength32 = 1, m_ulValue = clear_from 1 (zero_words[0 := ucast A])\<rparr>"
  by (simp add: Mov_long_def word_less_nat_alt)

lemma Mov_long_large:
  "\<not> unat A < 2 ^ 32 \<Longrightarrow> Mov_long A =
     \<lparr>m_iLength32 = 2,
      m_ulValue = clear_from 2 (zero_words[1 := ucast (drop_bit 32 A), 0 := ucast A])\<rparr>"
  unfolding Mov_long_def by (subst if_P) (simp_all add: word_less_nat_alt)

lemma Mov_long_val: "big_val (Mov_long A) = unat A"
proof (cases "unat A < 2 ^ 32")
  case True
  then have "unat (ucast A :: u32) = unat A" by (simp add: widen)
  with True show ?thesis by (simp add: Mov_long_small big_val_def)
next
  case False
  define hi lo :: u32 where "hi = ucast (drop_bit 32 A)" and "lo = ucast A"
  have v: "unat lo + unat hi * 2 ^ 32 = unat A"
    unfolding hi_def lo_def by (rule word_pair)
  have "big_val (Mov_long A) = unat lo + unat hi * 2 ^ 32"
    using False by (simp add: Mov_long_large big_val_def sval_Suc numeral_2_eq_2
      flip: hi_def lo_def)
  then show ?thesis by (simp only: v)
qed

lemma Mov_long_normal [simp]: "big_normal (Mov_long A)"
proof (cases "unat A < 2 ^ 32")
  case True
  then show ?thesis by (simp add: Mov_long_small big_normal_def big_wfI)
next
  case False
  define hi lo :: u32 where "hi = ucast (drop_bit 32 A)" and "lo = ucast A"
  have "unat hi = unat A div 2 ^ 32" by (simp only: hi_def high_word)
  with False have "hi \<noteq> 0" by (auto simp: div_eq_0_iff)
  with False show ?thesis
    by (simp add: Mov_long_large big_normal_def big_wfI flip: hi_def lo_def)
qed

lemma Mov_long_len: "unat A < 2 ^ 32 \<Longrightarrow> m_iLength32 (Mov_long A) = 1"
  by (simp only: Mov_long_small SBigInt.simps)

lemma Mov_long_len_le: "m_iLength32 (Mov_long A) \<le> 2"
  by (simp add: Mov_long_def)

lemma Mov_long_0 [simp]: "big_val (Mov_long 0) = 0"
  by (simp add: Mov_long_val)

section \<open>Addition\<close>

lemma add_step_word:
  fixes x y carry :: u32
  assumes "unat carry \<le> 1"
  defines "s \<equiv> ucast x + ucast y + ucast carry :: u64"
  shows "unat (ucast s :: u32) + unat (ucast (drop_bit 32 s) :: u32) * 2 ^ 32 = unat x + unat y + unat carry"
    and "unat (ucast (drop_bit 32 s) :: u32) \<le> 1"
proof -
  have b: "unat x + unat y + unat carry \<le> 4294967295 + 4294967295 + 1"
    using assms(1) by (intro add_mono) simp_all
  have "unat (ucast x + ucast y :: u64) = unat x + unat y"
    using b by (subst unat_add_64) (simp_all add: widen)
  then have s: "unat s = unat x + unat y + unat carry"
    unfolding s_def using b by (subst unat_add_64) (simp_all add: widen)
  have "unat (ucast s :: u32) + unat (ucast (drop_bit 32 s) :: u32) * 2 ^ 32 = unat s"
    by (rule word_pair)
  then show "unat (ucast s :: u32) + unat (ucast (drop_bit 32 s) :: u32) * 2 ^ 32 = unat x + unat y + unat carry"
    by (simp only: s)
  have "unat s div 2 ^ 32 < 2"
    by (rule less_mult_imp_div_less) (use b in \<open>simp add: s\<close>)
  then show "unat (ucast (drop_bit 32 s) :: u32) \<le> 1"
    by (simp only: high_word)
qed

lemma add_loop_correct:
  assumes "add_loop a b n i carry out = (out', carry')" "i \<le> n" "n \<le> length out" "unat carry \<le> 1"
  shows "length out' = length out \<and> unat carry' \<le> 1 \<and>
    sval n out' + unat carry' * 2 ^ (32 * n) + (sval i a + sval i b) =
    sval i out + unat carry * 2 ^ (32 * i) + (sval n a + sval n b)"
  using assms
proof (induction a b n i carry out rule: add_loop.induct)
  case (1 a b n i carry out)
  show ?case
  proof (cases "i < n")
    case True
    define s where "s = (ucast (a ! i) + ucast (b ! i) + ucast carry :: u64)"
    define c r :: u32 where "c = ucast (drop_bit 32 s)" and "r = ucast s"
    have st: "unat r + unat c * 2 ^ 32 = unat (a ! i) + unat (b ! i) + unat carry" and c: "unat c \<le> 1"
      unfolding c_def r_def s_def using add_step_word [OF "1.prems"(4), of "a ! i" "b ! i"] by auto
    from "1.prems"(1) True have rec: "add_loop a b n (i + 1) c (out[i := r]) = (out', carry')"
      by (subst (asm) add_loop.simps) (simp add: Let_def flip: s_def c_def r_def)
    have IH: "length out' = length out \<and> unat carry' \<le> 1 \<and>
      sval n out' + unat carry' * 2 ^ (32 * n) + (sval (i + 1) a + sval (i + 1) b) =
      sval (i + 1) (out[i := r]) + unat c * 2 ^ (32 * (i + 1)) + (sval n a + sval n b)"
      using "1.IH" [OF True s_def] rec True "1.prems"(3) c
      by (auto simp flip: c_def r_def)
    have "(unat r + unat c * 2 ^ 32) * 2 ^ (32 * i) = (unat (a ! i) + unat (b ! i) + unat carry) * 2 ^ (32 * i)"
      by (simp only: st)
    with IH True "1.prems"(3) show ?thesis
      by (simp add: sval_update_top sval_Suc algebra_simps power_add)
  next
    case False
    with "1.prems" show ?thesis by (subst (asm) add_loop.simps) auto
  qed
qed

lemma sval_add_tail:
  "unat c \<le> 1 \<Longrightarrow> n < 66 \<Longrightarrow> length out = 66 \<Longrightarrow>
   sval (n + unat c) (out[n := c]) = sval n out + unat c * 2 ^ (32 * n)"
  by (cases "unat c") (auto simp: sval_update_top)

lemma Add_bigint_correct:
  assumes "big_wf x" "big_wf y" "m_iLength32 x < 66" "m_iLength32 y < 66"
  obtains z where "Add_bigint x y = Some z" "big_wf z" "big_val z = big_val x + big_val y"
    "max (m_iLength32 x) (m_iLength32 y) \<le> m_iLength32 z"
    "m_iLength32 z \<le> max (m_iLength32 x) (m_iLength32 y) + 1"
    "m_iLength32 z = max (m_iLength32 x) (m_iLength32 y) \<or> m_ulValue z ! (m_iLength32 z - 1) \<noteq> 0"
proof -
  define n where "n = max (m_iLength32 x) (m_iLength32 y)"
  obtain out c where l: "add_loop (m_ulValue x) (m_ulValue y) n 0 0 zero_words = (out, c)"
    by fastforce
  have n: "(if m_iLength32 x < m_iLength32 y then m_iLength32 y else m_iLength32 x) = n"
    by (simp add: n_def)
  have nb: "1 \<le> n" "n < 66" using assms big_wf_len [of x] by (auto simp: n_def)
  have r: "length out = 66" "unat c \<le> 1"
    "sval n out + unat c * 2 ^ (32 * n) = sval n (m_ulValue x) + sval n (m_ulValue y)"
    using add_loop_correct [OF l] nb by auto
  have v: "sval n (m_ulValue x) = big_val x" "sval n (m_ulValue y) = big_val y"
    using assms nb by (auto intro!: big_val_ext simp: n_def)
  define z where "z = \<lparr>m_iLength32 = n + unat c, m_ulValue = clear_from (n + unat c) (out[n := c])\<rparr>"
  have "Add_bigint x y = Some z"
    using nb by (simp add: Add_bigint_def n l Let_def z_def)
  moreover have "big_wf z" using nb r by (simp add: z_def big_wfI)
  moreover have "big_val z = big_val x + big_val y"
    using r v nb by (simp add: z_def big_val_def sval_add_tail)
  moreover have "max (m_iLength32 x) (m_iLength32 y) \<le> m_iLength32 z"
    "m_iLength32 z \<le> max (m_iLength32 x) (m_iLength32 y) + 1"
    using r by (simp_all add: z_def flip: n_def)
  moreover have "m_iLength32 z = max (m_iLength32 x) (m_iLength32 y) \<or> m_ulValue z ! (m_iLength32 z - 1) \<noteq> 0"
  proof (cases "unat c = 0")
    case False
    with r(2) have "unat c = 1" by simp
    with r nb show ?thesis by (auto simp: z_def)
  qed (simp add: z_def n_def)
  ultimately show ?thesis by (rule that)
qed

lemma normal_by_value:
  "big_wf z \<Longrightarrow> m_iLength32 z = 1 \<or> 2 ^ (32 * (m_iLength32 z - 1)) \<le> big_val z \<Longrightarrow> big_normal z"
proof -
  assume w: "big_wf z" and d: "m_iLength32 z = 1 \<or> 2 ^ (32 * (m_iLength32 z - 1)) \<le> big_val z"
  have "m_ulValue z ! (m_iLength32 z - 1) \<noteq> 0" if ge: "2 ^ (32 * (m_iLength32 z - 1)) \<le> big_val z"
  proof
    assume "m_ulValue z ! (m_iLength32 z - 1) = 0"
    then have "big_val z = sval (m_iLength32 z - 1) (m_ulValue z)"
      using big_wf_len [OF w] sval_Suc [of "m_iLength32 z - 1" "m_ulValue z"]
      by (simp add: big_val_def)
    with ge sval_less [of "m_iLength32 z - 1" "m_ulValue z"] show False by simp
  qed
  with w d show "big_normal z" by (auto simp: big_normal_def)
qed

lemma Add_bigint_normal:
  assumes "big_normal x" "big_normal y" "m_iLength32 x < 66" "m_iLength32 y < 66"
  obtains z where "Add_bigint x y = Some z" "big_normal z" "big_val z = big_val x + big_val y"
proof -
  obtain z where z: "Add_bigint x y = Some z" "big_wf z" "big_val z = big_val x + big_val y"
    "m_iLength32 z = max (m_iLength32 x) (m_iLength32 y) \<or> m_ulValue z ! (m_iLength32 z - 1) \<noteq> 0"
    by (rule Add_bigint_correct [of x y]) (use assms in auto)
  have "big_normal z"
  proof (cases "m_ulValue z ! (m_iLength32 z - 1) \<noteq> 0")
    case False
    then consider "m_iLength32 z = m_iLength32 x" | "m_iLength32 z = m_iLength32 y"
      using z(4) by linarith
    then have "m_iLength32 z = 1 \<or> 2 ^ (32 * (m_iLength32 z - 1)) \<le> big_val z"
    proof cases
      case 1
      then show ?thesis using big_normal_ge [OF assms(1)] z(3) by (auto intro: le_trans)
    next
      case 2
      then show ?thesis using big_normal_ge [OF assms(2)] z(3) by (auto intro: le_trans)
    qed
    with z(2) show ?thesis by (rule normal_by_value)
  qed (use z(2) in \<open>simp add: big_normal_def\<close>)
  with z that show ?thesis by simp
qed

end
