(* ===== verification/BigintArith.thy ===== *)
theory BigintArith
  imports BigintBase
begin

text \<open>
  Subtraction, multiplication and division by a word of \<^verbatim>\<open>rsa.c\<close> are the operations
  on \<open>nat\<close>, with the conditions under which the C code has a defined result.
\<close>

section \<open>Subtraction\<close>

lemma sub_step_word:
  fixes x y carry :: u32
  assumes "unat carry \<le> 1"
  defines "s \<equiv> 0x100000000 + ucast x - ucast carry - ucast y :: u64"
  shows "x > y \<or> (x = y \<and> carry = 0) \<Longrightarrow> unat (x - carry - y) + unat y + unat carry = unat x"
    and "\<not> (x > y \<or> (x = y \<and> carry = 0)) \<Longrightarrow>
      unat (ucast s :: u32) + unat y + unat carry = unat x + 2 ^ 32"
proof -
  assume "x > y \<or> (x = y \<and> carry = 0)"
  then have le: "unat y + unat carry \<le> unat x"
    using assms(1) by (auto simp: word_less_nat_alt)
  then have "unat (x - carry) = unat x - unat carry" by (simp add: widen)
  then have "unat (x - carry - y) = unat x - unat carry - unat y"
    using le by (subst unat_sub_32) simp_all
  with le show "unat (x - carry - y) + unat y + unat carry = unat x" by simp
next
  assume n: "\<not> (x > y \<or> (x = y \<and> carry = 0))"
  then have lt: "unat x < unat y + unat carry"
  proof -
    have "unat x \<le> unat y" using n by (simp add: word_less_nat_alt)
    moreover have "unat x = unat y \<Longrightarrow> 0 < unat carry"
      using n by (auto simp: unat_gt_0 dest: unsigned_word_eqI)
    ultimately show ?thesis by linarith
  qed
  have b: "unat y + unat carry \<le> 4294967296"
    using assms(1) unat_le_32 [of y] by linarith
  have "unat (0x100000000 + ucast x :: u64) = 4294967296 + unat x"
    by (subst unat_add_64) (simp_all add: widen less_trans [OF unat_lt_32])
  moreover have "unat (ucast carry :: u64) = unat carry" "unat (ucast y :: u64) = unat y"
    by (simp_all only: widen)
  ultimately have "unat s = 4294967296 + unat x - unat carry - unat y"
    unfolding s_def using b assms(1) by (simp add: unat_sub_64)
  then have "unat (ucast s :: u32) = 4294967296 + unat x - unat carry - unat y"
    using lt by (simp add: unat_ucast_64_32)
  with b show "unat (ucast s :: u32) + unat y + unat carry = unat x + 2 ^ 32" by simp
qed

lemma sub_loop_correct:
  assumes "i \<le> n" "n \<le> length out" "unat carry \<le> 1"
  shows "length (sub_loop a b n i carry out) = length out \<and>
    (\<exists>c. c \<le> 1 \<and> sval n (sub_loop a b n i carry out) + sval n b + sval i a + unat carry * 2 ^ (32 * i)
         = sval i out + sval i b + sval n a + c * 2 ^ (32 * n))"
  using assms
proof (induction a b n i carry out rule: sub_loop.induct)
  case (1 a b n i carry out)
  show ?case
  proof (cases "i < n")
    case True
    define g where "g \<longleftrightarrow> a ! i > b ! i \<or> (a ! i = b ! i \<and> carry = 0)"
    define r where "r = (if g then a ! i - carry - b ! i
      else ucast (0x100000000 + ucast (a ! i) - ucast carry - ucast (b ! i) :: u64))"
    define c :: u32 where "c = (if g then 0 else 1)"
    have st: "unat r + unat (b ! i) + unat carry = unat (a ! i) + unat c * 2 ^ 32"
      using sub_step_word [OF "1.prems"(3), where x = "a ! i" and y = "b ! i"]
      by (cases g) (simp_all only: r_def c_def g_def if_True if_False simp_thms unat_0 unat_1 mult_0 mult_1 add_0_right)
    have rec: "sub_loop a b n i carry out = sub_loop a b n (i + 1) c (out[i := r])"
      using True by (subst sub_loop.simps) (simp add: r_def c_def g_def Let_def)
    have "unat c \<le> 1" by (simp add: c_def)
    then have IH: "length (sub_loop a b n (i + 1) c (out[i := r])) = length out \<and>
      (\<exists>d. d \<le> 1 \<and> sval n (sub_loop a b n (i + 1) c (out[i := r])) + sval n b + sval (i + 1) a + unat c * 2 ^ (32 * (i + 1))
         = sval (i + 1) (out[i := r]) + sval (i + 1) b + sval n a + d * 2 ^ (32 * n))"
      using "1.IH"(1) [OF True] "1.IH"(2) [OF True] True "1.prems"(2)
      by (cases g) (auto simp: c_def r_def g_def)
    have "(unat r + unat (b ! i) + unat carry) * 2 ^ (32 * i) = (unat (a ! i) + unat c * 2 ^ 32) * 2 ^ (32 * i)"
      by (simp only: st)
    then have step: "unat r * 2 ^ (32 * i) + unat (b ! i) * 2 ^ (32 * i) + unat carry * 2 ^ (32 * i)
      = unat (a ! i) * 2 ^ (32 * i) + unat c * 2 ^ (32 * (i + 1))"
      by (simp add: algebra_simps power_add)
    from IH obtain d where d: "d \<le> 1"
      "sval n (sub_loop a b n (i + 1) c (out[i := r])) + sval n b + sval (i + 1) a + unat c * 2 ^ (32 * (i + 1))
         = sval (i + 1) (out[i := r]) + sval (i + 1) b + sval n a + d * 2 ^ (32 * n)" by blast
    have "sval n (sub_loop a b n (i + 1) c (out[i := r])) + sval n b + sval i a + unat carry * 2 ^ (32 * i)
       = sval i out + sval i b + sval n a + d * 2 ^ (32 * n)"
      using d(2) step True "1.prems"(2) by (simp add: sval_update_top sval_Suc)
    with d(1) IH show ?thesis by (auto simp: rec)
  next
    case False
    then show ?thesis using "1.prems" by (subst (1 2) sub_loop.simps) auto
  qed
qed

lemma sub_loop_value:
  assumes "n \<le> length out" "sval n b \<le> sval n a"
  shows "length (sub_loop a b n 0 0 out) = length out"
    and "sval n (sub_loop a b n 0 0 out) = sval n a - sval n b"
proof -
  obtain c where c: "c \<le> 1" "sval n (sub_loop a b n 0 0 out) + sval n b = sval n a + c * 2 ^ (32 * n)"
    and l: "length (sub_loop a b n 0 0 out) = length out"
    using sub_loop_correct [of 0 n out 0 a b] assms by auto
  have "c = 0"
  proof (rule ccontr)
    assume "c \<noteq> 0"
    with c(1) have "c = 1" by simp
    with c(2) assms(2) sval_less [of n "sub_loop a b n 0 0 out"] show False by simp
  qed
  with c l show "sval n (sub_loop a b n 0 0 out) = sval n a - sval n b"
    and "length (sub_loop a b n 0 0 out) = length out" by auto
qed

lemma strip_zeros_Some:
  assumes "0 < sval n xs"
  obtains l where "strip_zeros xs n = Some l" "1 \<le> l" "l \<le> n" "xs ! (l - 1) \<noteq> 0" "sval l xs = sval n xs"
  using assms
proof (induction n arbitrary: thesis)
  case (Suc n)
  show ?case
  proof (cases "xs ! n = 0")
    case True
    then have "sval (Suc n) xs = sval n xs" by (simp add: sval_Suc)
    with Suc True show ?thesis by fastforce
  next
    case False
    then show ?thesis by (intro Suc.prems(1) [of "Suc n"]) auto
  qed
qed simp

lemma strip_zeros_None: "sval n xs = 0 \<Longrightarrow> strip_zeros xs n = None"
proof (induction n)
  case (Suc n)
  then have "xs ! n = 0" "sval n xs = 0" by (auto simp: sval_Suc unsigned_eq_0_iff)
  with Suc show ?case by simp
qed simp

text \<open>The subtraction as the callers use it: where \<open>Cmp\<close> reports the first
  operand as greater and it is, the result is the normalised difference; where the two
  are equal but the first has a leading zero word, the code leaves the array.\<close>

lemma Sub_bigint_diff:
  assumes "big_wf x" "big_wf y" "Cmp x y > 0" "m_iLength32 y \<le> m_iLength32 x" "big_val y < big_val x"
  obtains z where "Sub_bigint x y = Some z" "big_normal z" "big_val z = big_val x - big_val y"
    "m_iLength32 z \<le> m_iLength32 x" "m_ulValue z ! (m_iLength32 z - 1) \<noteq> 0"
proof -
  let ?n = "m_iLength32 x"
  define out where "out = sub_loop (m_ulValue x) (m_ulValue y) ?n 0 0 zero_words"
  have n: "1 \<le> ?n" "?n \<le> 66" using big_wf_len [OF assms(1)] by auto
  have vy: "sval ?n (m_ulValue y) = big_val y" using assms n by (intro big_val_ext) auto
  then have le: "sval ?n (m_ulValue y) \<le> sval ?n (m_ulValue x)"
    using assms(5) by (simp add: big_val_def)
  have o: "length out = 66" "sval ?n out = big_val x - big_val y"
    using sub_loop_value [OF _ le, of zero_words] n vy by (auto simp: out_def big_val_def)
  then have "0 < sval ?n out" using assms(5) by simp
  then obtain l where l: "strip_zeros out ?n = Some l" "1 \<le> l" "l \<le> ?n" "out ! (l - 1) \<noteq> 0"
    "sval l out = sval ?n out"
    by (rule strip_zeros_Some)
  define z where "z = \<lparr>m_iLength32 = l, m_ulValue = clear_from l out\<rparr>"
  have "Sub_bigint x y = Some z"
    using assms(3) l(1) by (simp add: Sub_bigint_def Let_def z_def flip: out_def)
  moreover have "m_ulValue z ! (m_iLength32 z - 1) \<noteq> 0" using l n o by (simp add: z_def)
  moreover have "big_wf z" using l n o by (simp add: z_def big_wfI)
  moreover have "big_val z = big_val x - big_val y" using l n o by (simp add: z_def big_val_def)
  moreover have "m_iLength32 z \<le> ?n" using l by (simp add: z_def)
  ultimately show ?thesis using that by (simp add: big_normal_def)
qed

lemma Sub_bigint_equal_undefined:
  assumes "big_wf x" "big_wf y" "Cmp x y > 0" "m_iLength32 y \<le> m_iLength32 x" "big_val y = big_val x"
  shows "Sub_bigint x y = None"
proof -
  let ?n = "m_iLength32 x"
  have n: "?n \<le> 66" using big_wf_len [OF assms(1)] by auto
  have vy: "sval ?n (m_ulValue y) = sval ?n (m_ulValue x)"
    using assms n by (subst big_val_ext) (auto simp: big_val_def)
  then have "sval ?n (sub_loop (m_ulValue x) (m_ulValue y) ?n 0 0 zero_words) = 0"
    using n sub_loop_value(2) [of ?n zero_words "m_ulValue y" "m_ulValue x"] by simp
  then show ?thesis using assms(3) by (simp add: Sub_bigint_def Let_def strip_zeros_None)
qed

lemma Sub_bigint_normal:
  assumes "big_normal x" "big_normal y"
  obtains z where "Sub_bigint x y = Some z" "big_normal z" "big_val z = big_val x - big_val y"
    "m_iLength32 z \<le> m_iLength32 x"
proof (cases "big_val y < big_val x")
  case True
  with assms have "Cmp x y > 0" by (simp add: Cmp_normal)
  moreover have "m_iLength32 y \<le> m_iLength32 x"
    using assms True by (intro big_normal_len_mono) auto
  ultimately show ?thesis
    using Sub_bigint_diff [of x y] assms True that by (metis big_normal_wf)
next
  case False
  with assms have "Cmp x y \<le> 0" by (simp add: Cmp_normal)
  then have "Sub_bigint x y = Some (Mov_long 0)" by (simp add: Sub_bigint_def)
  moreover have "m_iLength32 (Mov_long 0) \<le> m_iLength32 x"
    using big_wf_len [of x] assms by (simp add: Mov_long_def)
  ultimately show ?thesis using that False by simp
qed

section \<open>Multiplication by a word\<close>

lemma mul_step_word:
  fixes x :: u32 and w carry :: u64
  assumes "unat w < 2 ^ 32" "unat carry < 2 ^ 32"
  defines "s \<equiv> ucast x * w + carry"
  shows "unat (ucast s :: u32) + unat (drop_bit 32 s) * 2 ^ 32 = unat x * unat w + unat carry"
    and "unat (drop_bit 32 s) < 2 ^ 32"
proof -
  have "unat x * unat w \<le> 4294967295 * 4294967295"
    using assms(1) by (intro mult_le_mono) simp_all
  then have b: "unat x * unat w + unat carry < 18446744073709551616"
    using assms(2) by simp
  then have "unat (ucast x * w) = unat x * unat w"
    by (subst unat_mult_64) (simp_all add: widen)
  then have s: "unat s = unat x * unat w + unat carry"
    unfolding s_def using b by (subst unat_add_64) simp_all
  have "unat (ucast s :: u32) + unat (drop_bit 32 s) * 2 ^ 32 = unat s"
    unfolding unat_drop_32 unat_ucast_64_32 by (rule mod_div_mult_eq)
  then show "unat (ucast s :: u32) + unat (drop_bit 32 s) * 2 ^ 32 = unat x * unat w + unat carry"
    by (simp only: s)
  show "unat (drop_bit 32 s) < 2 ^ 32"
    unfolding unat_drop_32 by (rule less_mult_imp_div_less) simp
qed

lemma mul_long_loop_correct:
  assumes "mul_long_loop a w n i carry out = (out', carry')" "i \<le> n" "n \<le> length out"
    "unat w < 2 ^ 32" "unat carry < 2 ^ 32"
  shows "length out' = length out \<and> unat carry' < 2 ^ 32 \<and>
    sval n out' + unat carry' * 2 ^ (32 * n) + sval i a * unat w =
    sval i out + unat carry * 2 ^ (32 * i) + sval n a * unat w"
  using assms
proof (induction a w n i carry out rule: mul_long_loop.induct)
  case (1 a w n i carry out)
  show ?case
  proof (cases "i < n")
    case True
    define s where "s = ucast (a ! i) * w + carry"
    define c where "c = drop_bit 32 s"
    define r :: u32 where "r = ucast s"
    have st: "unat r + unat c * 2 ^ 32 = unat (a ! i) * unat w + unat carry" and c: "unat c < 2 ^ 32"
      unfolding c_def r_def s_def using mul_step_word [OF "1.prems"(4,5), of "a ! i"] by auto
    from "1.prems"(1) True have rec: "mul_long_loop a w n (i + 1) c (out[i := r]) = (out', carry')"
      by (subst (asm) mul_long_loop.simps) (simp add: Let_def flip: s_def c_def r_def)
    have IH: "length out' = length out \<and> unat carry' < 2 ^ 32 \<and>
      sval n out' + unat carry' * 2 ^ (32 * n) + sval (i + 1) a * unat w =
      sval (i + 1) (out[i := r]) + unat c * 2 ^ (32 * (i + 1)) + sval n a * unat w"
      using "1.IH" [OF True s_def] rec True "1.prems"(3,4) c
      by (auto simp flip: c_def r_def)
    have "(unat r + unat c * 2 ^ 32) * 2 ^ (32 * i) = (unat (a ! i) * unat w + unat carry) * 2 ^ (32 * i)"
      by (simp only: st)
    with IH True "1.prems"(3) show ?thesis
      by (simp add: sval_update_top sval_Suc algebra_simps power_add)
  next
    case False
    with "1.prems" show ?thesis by (subst (asm) mul_long_loop.simps) auto
  qed
qed

lemma ucast_nonzero: "unat (c :: u64) < 2 ^ 32 \<Longrightarrow> c \<noteq> 0 \<Longrightarrow> (ucast c :: u32) \<noteq> 0"
proof
  assume c: "unat c < 2 ^ 32" "c \<noteq> 0" and "(ucast c :: u32) = 0"
  then have "unat (ucast c :: u32) = 0" by simp
  then have "unat c mod 2 ^ 32 = 0" unfolding unat_ucast_64_32 .
  with c show False by (auto simp: unsigned_eq_0_iff)
qed

lemma unat_ucast_small: "unat (c :: u64) < 2 ^ 32 \<Longrightarrow> unat (ucast c :: u32) = unat c"
  unfolding unat_ucast_64_32 by (rule mod_less)

text \<open>The tail shared by the two multiplications: the last carry becomes a word of its own.\<close>

definition store_carry :: "nat \<Rightarrow> u64 \<Rightarrow> u32 list \<Rightarrow> SBigInt" where
  "store_carry n carry out =
     (if carry \<noteq> 0 then \<lparr>m_iLength32 = n + 1, m_ulValue = clear_from (n + 1) (out[n := ucast carry])\<rparr>
      else \<lparr>m_iLength32 = n, m_ulValue = clear_from n out\<rparr>)"

lemma store_carry_correct:
  assumes "length out = 66" "1 \<le> n" "n \<le> 66" "n = 66 \<longrightarrow> carry = 0" "unat carry < 2 ^ 32"
  shows "big_wf (store_carry n carry out)"
    and "big_val (store_carry n carry out) = sval n out + unat carry * 2 ^ (32 * n)"
    and "m_iLength32 (store_carry n carry out) = (if carry = 0 then n else n + 1)"
proof -
  have "n < 66" if "carry \<noteq> 0" using that assms by auto
  then show "big_wf (store_carry n carry out)"
    using assms by (cases "carry = 0") (simp_all add: store_carry_def big_wfI)
  show "big_val (store_carry n carry out) = sval n out + unat carry * 2 ^ (32 * n)"
    using assms \<open>carry \<noteq> 0 \<Longrightarrow> n < 66\<close>
    by (cases "carry = 0") (simp_all add: store_carry_def big_val_def sval_update_top unat_ucast_small)
qed (simp add: store_carry_def)

lemma Mul_long_correct:
  assumes "big_wf x" "unat w < 2 ^ 32" "m_iLength32 x < 66"
  obtains z where "Mul_long x w = Some z" "big_wf z" "big_val z = big_val x * unat w"
    "m_iLength32 x \<le> m_iLength32 z" "m_iLength32 z \<le> m_iLength32 x + 1"
    "m_iLength32 z = m_iLength32 x + 1 \<longrightarrow> 2 ^ (32 * m_iLength32 x) \<le> big_val z"
proof -
  let ?n = "m_iLength32 x"
  obtain out c where l: "mul_long_loop (m_ulValue x) w ?n 0 0 zero_words = (out, c)" by fastforce
  have n: "1 \<le> ?n" "?n < 66" using big_wf_len [OF assms(1)] assms(3) by auto
  have r: "length out = 66" "unat c < 2 ^ 32" "sval ?n out + unat c * 2 ^ (32 * ?n) = big_val x * unat w"
    using mul_long_loop_correct [OF l] n assms(2) by (auto simp: big_val_def)
  define z where "z = store_carry ?n c out"
  have "Mul_long x w = Some z" using n by (auto simp: Mul_long_def l Let_def z_def store_carry_def)
  moreover have w: "big_wf z" "big_val z = big_val x * unat w"
    using store_carry_correct [of out ?n c] n r by (auto simp: z_def)
  moreover have len: "m_iLength32 z = (if c = 0 then ?n else ?n + 1)"
    by (simp add: z_def store_carry_def)
  then have "?n \<le> m_iLength32 z" "m_iLength32 z \<le> ?n + 1" by (simp_all split: if_splits)
  moreover have "m_iLength32 z = ?n + 1 \<longrightarrow> 2 ^ (32 * ?n) \<le> big_val z"
  proof
    assume a: "m_iLength32 z = ?n + 1"
    have "c \<noteq> 0"
    proof
      assume "c = 0"
      with len have "m_iLength32 z = ?n" by simp
      with a show False by simp
    qed
    then have "1 \<le> unat c" by (simp add: Suc_le_eq unat_gt_0)
    then have "1 * 2 ^ (32 * ?n) \<le> unat c * 2 ^ (32 * ?n)" by (rule mult_le_mono1)
    with r(3) w(2) show "2 ^ (32 * ?n) \<le> big_val z" by linarith
  qed
  ultimately show ?thesis by (rule that)
qed

lemma Mul_long_normal:
  assumes "big_normal x" "0 < unat w" "unat w < 2 ^ 32" "m_iLength32 x < 66"
  obtains z where "Mul_long x w = Some z" "big_normal z" "big_val z = big_val x * unat w"
    "m_iLength32 x \<le> m_iLength32 z" "m_iLength32 z \<le> m_iLength32 x + 1"
proof -
  obtain z where z: "Mul_long x w = Some z" "big_wf z" "big_val z = big_val x * unat w"
    "m_iLength32 x \<le> m_iLength32 z" "m_iLength32 z \<le> m_iLength32 x + 1"
    "m_iLength32 z = m_iLength32 x + 1 \<longrightarrow> 2 ^ (32 * m_iLength32 x) \<le> big_val z"
    by (rule Mul_long_correct [of x w]) (use assms in auto)
  have "big_normal z"
  proof (rule normal_by_value [OF z(2)])
    have "2 ^ (32 * (m_iLength32 x - 1)) \<le> big_val z" if "m_iLength32 x \<noteq> 1"
    proof -
      have "2 ^ (32 * (m_iLength32 x - 1)) * 1 \<le> big_val x * unat w"
        using assms that by (intro mult_le_mono big_normal_ge) auto
      then show ?thesis by (simp add: z(3))
    qed
    moreover have "m_iLength32 z = m_iLength32 x \<or> m_iLength32 z - 1 = m_iLength32 x"
      using z(4,5) by auto
    ultimately show "m_iLength32 z = 1 \<or> 2 ^ (32 * (m_iLength32 z - 1)) \<le> big_val z"
      using z(5,6) big_wf_len [OF z(2)] by (cases "m_iLength32 z = m_iLength32 x") auto
  qed
  with z that show ?thesis by auto
qed

end
