(* ===== verification/BigintMul.thy ===== *)
theory BigintMul
  imports BigintArith
begin

text \<open>
  The schoolbook multiplication \<open>Mul_bigint\<close>, whose two 64-bit accumulators never
  overflow, and the division and remainder by a word.
\<close>

section \<open>Columns of the product\<close>

definition col :: "u32 list \<Rightarrow> nat \<Rightarrow> u32 list \<Rightarrow> nat \<Rightarrow> nat \<Rightarrow> nat" where
  "col a la b i j = (if j \<le> i \<and> i - j < la then unat (a ! (i - j)) * unat (b ! j) else 0)"

lemma and_low_word: "unat (m AND 0xffffffff :: u64) = unat m mod 2 ^ 32"
proof -
  have "(0xffffffff :: u64) = mask 32" by (simp add: mask_eq_exp_minus_1)
  then have "m AND 0xffffffff = take_bit 32 m" by (simp add: take_bit_eq_mask)
  then have "unat (m AND 0xffffffff) = take_bit 32 (unat m)" by (simp add: unsigned_take_bit_eq)
  then show ?thesis by (simp only: take_bit_eq_mod)
qed

lemma mul_column_correct:
  assumes "mul_column a la b lb i j acc carry = (acc', carry')" "j \<le> lb"
    "unat acc + (lb - j) * 2 ^ 32 < 2 ^ 64" "unat carry + (lb - j) * 2 ^ 32 < 2 ^ 64"
  shows "unat acc' + unat carry' * 2 ^ 32 + (\<Sum>k<j. col a la b i k) =
      unat acc + unat carry * 2 ^ 32 + (\<Sum>k<lb. col a la b i k) \<and>
    unat acc' \<le> unat acc + (lb - j) * 2 ^ 32 \<and> unat carry' \<le> unat carry + (lb - j) * 2 ^ 32"
  using assms
proof (induction a la b lb i j acc carry rule: mul_column.induct)
  case (1 a la b lb i j acc carry)
  show ?case
  proof (cases "j < lb")
    case False
    with "1.prems" show ?thesis by (subst (asm) mul_column.simps) auto
  next
    case j: True
    then have rem: "lb - j = Suc (lb - (j + 1))" by simp
    show ?thesis
    proof (cases "j \<le> i \<and> i - j < la")
      case True
      define m where "m = (ucast (a ! (i - j)) * ucast (b ! j) :: u64)"
      define lo hi where "lo = m AND 0xffffffff" and "hi = drop_bit 32 m"
      have m: "unat m = col a la b i j"
        unfolding m_def col_def using True by (simp add: unat_mult_widened)
      have lohi: "unat lo + unat hi * 2 ^ 32 = unat m"
        unfolding lo_def hi_def and_low_word unat_drop_32 by (rule mod_div_mult_eq)
      have lo: "unat lo < 2 ^ 32" unfolding lo_def and_low_word by simp
      have hi: "unat hi < 2 ^ 32"
        unfolding hi_def unat_drop_32 by (rule less_mult_imp_div_less) simp
      have s: "unat (acc + lo) = unat acc + unat lo" "unat (carry + hi) = unat carry + unat hi"
        using lo hi "1.prems"(3,4) rem by (auto intro!: unat_add_64)
      have rec: "mul_column a la b lb i (j + 1) (acc + lo) (carry + hi) = (acc', carry')"
        using "1.prems"(1) j True
        by (subst (asm) mul_column.simps) (simp add: Let_def flip: m_def lo_def hi_def)
      have IH: "unat acc' + unat carry' * 2 ^ 32 + (\<Sum>k<j + 1. col a la b i k) =
          unat (acc + lo) + unat (carry + hi) * 2 ^ 32 + (\<Sum>k<lb. col a la b i k)"
        "unat acc' \<le> unat (acc + lo) + (lb - (j + 1)) * 2 ^ 32"
        "unat carry' \<le> unat (carry + hi) + (lb - (j + 1)) * 2 ^ 32"
        using "1.IH"(1) [OF j True m_def] rec lo hi j "1.prems"(3,4) s rem
        by (auto simp flip: lo_def hi_def)
      have r: "(lb - j) * 2 ^ 32 = (lb - (j + 1)) * 2 ^ 32 + 2 ^ 32" by (simp add: rem)
      have "unat acc' + unat carry' * 2 ^ 32 + (\<Sum>k<j. col a la b i k) =
          unat acc + unat carry * 2 ^ 32 + (\<Sum>k<lb. col a la b i k)"
        using IH(1) s lohi m by (simp add: add_mult_distrib)
      moreover have "unat acc' \<le> unat acc + (lb - j) * 2 ^ 32"
        using IH(2) s(1) lo unfolding r by linarith
      moreover have "unat carry' \<le> unat carry + (lb - j) * 2 ^ 32"
        using IH(3) s(2) hi unfolding r by linarith
      ultimately show ?thesis by blast
    next
      case False
      then have z: "col a la b i j = 0" by (auto simp: col_def)
      have rec: "mul_column a la b lb i (j + 1) acc carry = (acc', carry')"
        using "1.prems"(1) j False by (subst (asm) mul_column.simps) auto
      show ?thesis
        using "1.IH"(2) [OF j False] rec j "1.prems"(3,4) rem z by auto
    qed
  qed
qed

section \<open>All columns\<close>

lemma mul_rows_correct:
  assumes "mul_rows a la b lb n i carry out = (out', carry')" "i \<le> n" "n \<le> length out" "lb \<le> 66"
    "unat carry \<le> 2 ^ 40"
  shows "length out' = length out \<and>
    sval n out' + unat carry' * 2 ^ (32 * n) + (\<Sum>r<i. (\<Sum>k<lb. col a la b r k) * 2 ^ (32 * r)) =
    sval i out + unat carry * 2 ^ (32 * i) + (\<Sum>r<n. (\<Sum>k<lb. col a la b r k) * 2 ^ (32 * r))"
  using assms
proof (induction a la b lb n i carry out rule: mul_rows.induct)
  case (1 a la b lb n i carry out)
  show ?case
  proof (cases "i < n")
    case False
    with "1.prems" show ?thesis by (subst (asm) mul_rows.simps) auto
  next
    case True
    obtain acc c where cc: "mul_column a la b lb i 0 carry 0 = (acc, c)" by fastforce
    define c' where "c' = c + drop_bit 32 acc"
    define r :: u32 where "r = ucast acc"
    have lb: "lb * 2 ^ 32 \<le> 66 * 2 ^ 32" using "1.prems"(4) by (rule mult_le_mono1)
    have col: "unat acc + unat c * 2 ^ 32 = unat carry + (\<Sum>k<lb. col a la b i k)"
      "unat acc \<le> unat carry + lb * 2 ^ 32" "unat c \<le> lb * 2 ^ 32"
      using mul_column_correct [OF cc] "1.prems"(5) lb by auto
    have "unat acc \<le> 2 ^ 40 + 66 * 2 ^ 32" using col(2) lb "1.prems"(5) by linarith
    then have hb: "unat acc div 2 ^ 32 \<le> (2 ^ 40 + 66 * 2 ^ 32) div 2 ^ 32" by (rule div_le_mono)
    have c': "unat c' = unat c + unat acc div 2 ^ 32"
      unfolding c'_def by (subst unat_add_64) (use hb col(3) lb in \<open>simp_all add: unat_drop_32\<close>)
    have cb: "unat c' \<le> 2 ^ 40" using c' hb col(3) lb by simp
    have rc: "unat r + unat c' * 2 ^ 32 = unat acc + unat c * 2 ^ 32"
      unfolding r_def unat_ucast_64_32 c' using mod_div_mult_eq [of "unat acc" "2 ^ 32"]
      by (simp add: algebra_simps)
    have rec: "mul_rows a la b lb n (i + 1) c' (out[i := r]) = (out', carry')"
      using "1.prems"(1) True by (subst (asm) mul_rows.simps) (simp add: cc flip: c'_def r_def)
    have IH: "length out' = length out \<and>
      sval n out' + unat carry' * 2 ^ (32 * n) + (\<Sum>r<i + 1. (\<Sum>k<lb. col a la b r k) * 2 ^ (32 * r)) =
      sval (i + 1) (out[i := r]) + unat c' * 2 ^ (32 * (i + 1)) +
        (\<Sum>r<n. (\<Sum>k<lb. col a la b r k) * 2 ^ (32 * r))"
      using "1.IH" [OF True cc [symmetric] refl] rec True "1.prems"(3,4) cb
      by (auto simp flip: c'_def r_def)
    have "(unat r + unat c' * 2 ^ 32) * 2 ^ (32 * i) = (unat carry + (\<Sum>k<lb. col a la b i k)) * 2 ^ (32 * i)"
      by (simp only: rc col(1))
    then have "unat r * 2 ^ (32 * i) + unat c' * 2 ^ (32 * (i + 1)) =
      unat carry * 2 ^ (32 * i) + (\<Sum>k<lb. col a la b i k) * 2 ^ (32 * i)"
      by (simp add: add_mult_distrib power_add)
    with IH True "1.prems"(3) show ?thesis by (simp add: sval_update_top)
  qed
qed

lemma shifted_row:
  assumes "j < lb" "la + lb \<le> n + 1"
  shows "(\<Sum>i<n. col a la b i j * 2 ^ (32 * i)) = sval la a * (unat (b ! j) * 2 ^ (32 * j))"
proof -
  have "(\<Sum>i<n. col a la b i j * 2 ^ (32 * i)) = (\<Sum>i\<in>{0 + j..<la + j}. col a la b i j * 2 ^ (32 * i))"
    by (rule sum.mono_neutral_right) (use assms in \<open>auto simp: col_def\<close>)
  also have "\<dots> = (\<Sum>k\<in>{0..<la}. col a la b (k + j) j * 2 ^ (32 * (k + j)))"
    by (rule sum.shift_bounds_nat_ivl)
  also have "\<dots> = (\<Sum>k<la. (unat (a ! k) * 2 ^ (32 * k)) * (unat (b ! j) * 2 ^ (32 * j)))"
    by (rule sum.cong) (auto simp: col_def power_add algebra_simps)
  finally show ?thesis by (simp add: sval_def sum_distrib_right)
qed

lemma columns_product:
  assumes "la + lb \<le> n + 1"
  shows "(\<Sum>r<n. (\<Sum>k<lb. col a la b r k) * 2 ^ (32 * r)) = sval la a * sval lb b"
proof -
  have "(\<Sum>r<n. (\<Sum>k<lb. col a la b r k) * 2 ^ (32 * r)) = (\<Sum>k<lb. \<Sum>r<n. col a la b r k * 2 ^ (32 * r))"
    unfolding sum_distrib_right by (rule sum.swap)
  also have "\<dots> = (\<Sum>k<lb. sval la a * (unat (b ! k) * 2 ^ (32 * k)))"
    by (rule sum.cong) (use assms shifted_row in auto)
  finally show ?thesis by (simp add: sval_def sum_distrib_left)
qed

lemma Mul_bigint_correct:
  assumes "big_wf x" "big_wf y" "m_iLength32 x + m_iLength32 y \<le> 66"
  obtains z where "Mul_bigint x y = Some z" "big_wf z" "big_val z = big_val x * big_val y"
    "m_iLength32 z \<le> m_iLength32 x + m_iLength32 y"
    "m_iLength32 z = m_iLength32 x + m_iLength32 y - 1 \<or>
     2 ^ (32 * (m_iLength32 z - 1)) \<le> big_val z"
proof (cases "m_iLength32 y = 1")
  case True
  define w where "w = (ucast (m_ulValue y ! 0) :: u64)"
  have w: "unat w = big_val y" using True by (simp add: w_def big_val_def unat_ucast_32_64)
  have wb: "unat w < 2 ^ 32" by (simp add: w_def unat_ucast_32_64)
  obtain z where z: "Mul_long x w = Some z" "big_wf z" "big_val z = big_val x * unat w"
    "m_iLength32 x \<le> m_iLength32 z" "m_iLength32 z \<le> m_iLength32 x + 1"
    "m_iLength32 z = m_iLength32 x + 1 \<longrightarrow> 2 ^ (32 * m_iLength32 x) \<le> big_val z"
    by (rule Mul_long_correct [OF assms(1) wb]) (use assms True in auto)
  show ?thesis
  proof (rule that)
    show "Mul_bigint x y = Some z" using True z(1) by (simp add: Mul_bigint_def w_def)
    show "big_val z = big_val x * big_val y" using z(3) w by simp
    show "m_iLength32 z = m_iLength32 x + m_iLength32 y - 1 \<or> 2 ^ (32 * (m_iLength32 z - 1)) \<le> big_val z"
      using z True by (cases "m_iLength32 z = m_iLength32 x + 1") auto
  qed (use z True in auto)
next
  case False
  define n where "n = m_iLength32 x + m_iLength32 y - 1"
  obtain out c where l: "mul_rows (m_ulValue x) (m_iLength32 x) (m_ulValue y) (m_iLength32 y) n 0 0 zero_words = (out, c)"
    by fastforce
  have n: "1 \<le> n" "n < 66" "m_iLength32 x + m_iLength32 y = n + 1"
    using big_wf_len [OF assms(1)] big_wf_len [OF assms(2)] assms(3) by (auto simp: n_def)
  have o: "length out = 66" "sval n out + unat c * 2 ^ (32 * n) = big_val x * big_val y"
    using mul_rows_correct [OF l] n columns_product [of "m_iLength32 x" "m_iLength32 y" n]
      big_wf_len [OF assms(2)] by (auto simp: big_val_def)
  have "big_val x * big_val y < 2 ^ (32 * m_iLength32 x) * 2 ^ (32 * m_iLength32 y)"
    by (intro mult_strict_mono big_val_less) auto
  also have "\<dots> = 2 ^ (32 * (n + 1))" by (simp only: n(3) [symmetric] distrib_left power_add)
  finally have lt: "big_val x * big_val y < 2 ^ (32 * (n + 1))" .
  have "unat c * 2 ^ (32 * n) \<le> big_val x * big_val y" using o(2) by linarith
  also note lt
  also have "(2 :: nat) ^ (32 * (n + 1)) = 2 ^ 32 * 2 ^ (32 * n)"
    by (simp add: power_add)
  finally have cb: "unat c < 2 ^ 32" by (simp only: mult_less_cancel2)
  define z where "z = store_carry n c out"
  have zp: "big_wf z" "big_val z = big_val x * big_val y" "m_iLength32 z = (if c = 0 then n else n + 1)"
    using store_carry_correct [of out n c] n o cb by (auto simp: z_def)
  show ?thesis
  proof (rule that)
    show "Mul_bigint x y = Some z"
      using False n by (auto simp: Mul_bigint_def l Let_def z_def store_carry_def simp flip: n_def)
    show "m_iLength32 z \<le> m_iLength32 x + m_iLength32 y" using zp(3) n by simp
    show "m_iLength32 z = m_iLength32 x + m_iLength32 y - 1 \<or> 2 ^ (32 * (m_iLength32 z - 1)) \<le> big_val z"
    proof (cases "c = 0")
      case False
      then have "1 \<le> unat c" by (simp add: Suc_le_eq unat_gt_0)
      then have "1 * 2 ^ (32 * n) \<le> unat c * 2 ^ (32 * n)" by (rule mult_le_mono1)
      then have "2 ^ (32 * n) \<le> big_val z" using o(2) zp(2) by linarith
      with zp(3) False show ?thesis by simp
    qed (use zp n in simp)
  qed (use zp in auto)
qed

lemma Mul_bigint_normal:
  assumes "big_normal x" "big_normal y" "0 < big_val x" "0 < big_val y" "m_iLength32 x + m_iLength32 y \<le> 66"
  obtains z where "Mul_bigint x y = Some z" "big_normal z" "big_val z = big_val x * big_val y"
    "m_iLength32 z \<le> m_iLength32 x + m_iLength32 y"
proof -
  obtain z where z: "Mul_bigint x y = Some z" "big_wf z" "big_val z = big_val x * big_val y"
    "m_iLength32 z \<le> m_iLength32 x + m_iLength32 y"
    "m_iLength32 z = m_iLength32 x + m_iLength32 y - 1 \<or> 2 ^ (32 * (m_iLength32 z - 1)) \<le> big_val z"
    by (rule Mul_bigint_correct) (use assms in auto)
  have low: "2 ^ (32 * (m_iLength32 u - 1)) \<le> big_val u" if "big_normal u" "0 < big_val u" for u
    using that big_normal_ge [of u] by (cases "m_iLength32 u = 1") auto
  have "2 ^ (32 * (m_iLength32 x - 1)) * 2 ^ (32 * (m_iLength32 y - 1)) \<le> big_val x * big_val y"
    using assms by (intro mult_le_mono low)
  moreover have "1 \<le> m_iLength32 x" "1 \<le> m_iLength32 y" using assms big_wf_len by auto
  then have "32 * (m_iLength32 x - 1) + 32 * (m_iLength32 y - 1) = 32 * (m_iLength32 x + m_iLength32 y - 1 - 1)"
    by simp
  ultimately have "2 ^ (32 * (m_iLength32 x + m_iLength32 y - 1 - 1)) \<le> big_val z"
    unfolding z(3) by (simp only: power_add [symmetric])
  with z(5) have "2 ^ (32 * (m_iLength32 z - 1)) \<le> big_val z" by fastforce
  then have "big_normal z" using z(2) by (intro normal_by_value) auto
  with z that show ?thesis by blast
qed

section \<open>Properties\<close>

text \<open>
  \<open>Mul_bigint\<close>, which adds up columns of 64-bit products in two accumulators, computes the product
  of the two numbers exactly; no accumulator overflows and the result has no leading zero word.
\<close>

theorem Mul_bigint_product:
  assumes "big_normal x" "big_normal y" "0 < big_val x" "0 < big_val y"
    "m_iLength32 x + m_iLength32 y \<le> BIGINT_MAXLEN"
  shows "\<exists>z. Mul_bigint x y = Some z \<and> big_normal z \<and> big_val z = big_val x * big_val y"
  by (rule Mul_bigint_normal [of x y]) (use assms in auto)

theorem Mul_bigint_product_witness:
  "\<exists>z. Mul_bigint (Mov_long 0xffffffffffff) (Mov_long 0xfffffffff) = Some z \<and> big_normal z \<and>
    big_val z = big_val (Mov_long 0xffffffffffff) * big_val (Mov_long 0xfffffffff)"
  by (rule Mul_bigint_product)
    (use Mov_long_len_le [of "0xffffffffffff"] Mov_long_len_le [of "0xfffffffff"] in \<open>simp_all add: Mov_long_val\<close>)

end
