(* ===== verification/BigintMod.thy ===== *)
theory BigintMod
  imports BigintMul
begin

text \<open>
  \<open>Mod_bigint\<close> returns the remainder.  On numbers without a leading zero word it always
  returns; with leading zero words it can leave the array, exactly when its first
  step subtracts the number down to zero.
\<close>

section \<open>Shifting by words\<close>

lemma length_shl_loop [simp]: "length (shl_loop len i xs) = length xs"
proof (induction len i xs rule: shl_loop.induct)
  case (1 len i xs)
  show ?case
  proof (cases "0 < len \<and> len \<le> i")
    case True
    then have "shl_loop len i xs = shl_loop len (i - 1) (xs[i := xs ! (i - len)])"
      by (subst shl_loop.simps) simp
    with "1.IH" [OF True] show ?thesis by simp
  next
    case False
    then have "shl_loop len i xs = xs" by (subst shl_loop.simps, subst if_not_P) auto
    then show ?thesis by simp
  qed
qed

lemma nth_shl_loop:
  "0 < len \<Longrightarrow> i < length xs \<Longrightarrow> k < length xs \<Longrightarrow>
   shl_loop len i xs ! k = (if len \<le> k \<and> k \<le> i then xs ! (k - len) else xs ! k)"
proof (induction len i xs rule: shl_loop.induct)
  case (1 len i xs)
  show ?case
  proof (cases "len \<le> i")
    case True
    then have "shl_loop len i xs ! k = shl_loop len (i - 1) (xs[i := xs ! (i - len)]) ! k"
      using "1.prems"(1) by (subst shl_loop.simps) simp
    also have "\<dots> = (if len \<le> k \<and> k \<le> i - 1 then xs[i := xs ! (i - len)] ! (k - len)
        else xs[i := xs ! (i - len)] ! k)"
      using "1.IH" "1.prems" True by (intro "1.IH") auto
    also have "\<dots> = (if len \<le> k \<and> k \<le> i then xs ! (k - len) else xs ! k)"
      using "1.prems" True by (cases "k = i") (auto simp: nth_list_update)
    finally show ?thesis .
  qed (subst shl_loop.simps, auto)
qed

lemma sval_shifted:
  "(\<And>k. k < len \<Longrightarrow> ys ! k = 0) \<Longrightarrow> (\<And>k. k < n \<Longrightarrow> ys ! (k + len) = xs ! k) \<Longrightarrow>
   sval (n + len) ys = sval n xs * 2 ^ (32 * len)"
proof (induction n)
  case 0
  then show ?case by (simp add: sval_zeros)
next
  case (Suc n)
  then have "sval (n + len) ys = sval n xs * 2 ^ (32 * len)" "ys ! (n + len) = xs ! n" by auto
  then show ?case
    by (simp add: sval_Suc add_mult_distrib power_add algebra_simps)
qed

lemma shl_words_correct:
  assumes "big_wf x" "m_iLength32 x + len \<le> 66"
  obtains z where "shl_words len x = Some z" "big_wf z" "big_val z = big_val x * 2 ^ (32 * len)"
    "m_iLength32 z = m_iLength32 x + len" "m_ulValue z ! (m_iLength32 z - 1) = m_ulValue x ! (m_iLength32 x - 1)"
proof (cases "len = 0")
  case True
  with assms that show ?thesis by (simp add: shl_words_def)
next
  case False
  let ?n = "m_iLength32 x + len"
  define ys where "ys = replicate len 0 @ drop len (shl_loop len (?n - 1) (m_ulValue x))"
  have n: "1 \<le> m_iLength32 x" using big_wf_len [OF assms(1)] by simp
  have l: "length ys = 66" using assms by (simp add: ys_def)
  have lo: "ys ! k = 0" if "k < len" for k using that by (simp add: ys_def nth_append)
  have up: "ys ! (k + len) = m_ulValue x ! k" if k: "k < m_iLength32 x" for k
  proof -
    have "ys ! (k + len) = shl_loop len (?n - 1) (m_ulValue x) ! (k + len)"
      using k assms False by (simp add: ys_def nth_append add.commute)
    also have "\<dots> = m_ulValue x ! k"
      using k assms False by (subst nth_shl_loop) auto
    finally show ?thesis .
  qed
  have tail: "ys ! k = 0" if "?n \<le> k" "k < 66" for k
    using that assms False by (simp add: ys_def nth_append nth_shl_loop big_wf_tail)
  define z where "z = \<lparr>m_iLength32 = ?n, m_ulValue = ys\<rparr>"
  have "shl_words len x = Some z"
    using assms False by (simp add: shl_words_def Let_def z_def ys_def)
  moreover have "big_wf z" using l tail n assms by (auto simp: z_def big_wf_def)
  moreover have "big_val z = big_val x * 2 ^ (32 * len)"
    unfolding big_val_def z_def SBigInt.simps by (rule sval_shifted) (use lo up in auto)
  moreover have "m_ulValue z ! (m_iLength32 z - 1) = m_ulValue x ! (m_iLength32 x - 1)"
    using up [of "m_iLength32 x - 1"] n by (simp add: z_def)
  ultimately show ?thesis using that by (simp add: z_def)
qed

section \<open>The quotient digit\<close>

lemma top_bounds:
  assumes "1 \<le> m_iLength32 x"
  shows "unat (m_ulValue x ! (m_iLength32 x - 1)) * 2 ^ (32 * (m_iLength32 x - 1)) \<le> big_val x"
    and "big_val x < (unat (m_ulValue x ! (m_iLength32 x - 1)) + 1) * 2 ^ (32 * (m_iLength32 x - 1))"
proof -
  have e: "big_val x = sval (m_iLength32 x - 1) (m_ulValue x) +
      unat (m_ulValue x ! (m_iLength32 x - 1)) * 2 ^ (32 * (m_iLength32 x - 1))"
    using assms sval_Suc [of "m_iLength32 x - 1" "m_ulValue x"] by (simp add: big_val_def)
  show "unat (m_ulValue x ! (m_iLength32 x - 1)) * 2 ^ (32 * (m_iLength32 x - 1)) \<le> big_val x"
    by (simp only: e le_add2)
  show "big_val x < (unat (m_ulValue x ! (m_iLength32 x - 1)) + 1) * 2 ^ (32 * (m_iLength32 x - 1))"
    using sval_less [of "m_iLength32 x - 1" "m_ulValue x"] by (simp add: e)
qed

lemma normal_top: "big_normal b \<Longrightarrow> 0 < big_val b \<Longrightarrow> m_ulValue b ! (m_iLength32 b - 1) \<noteq> 0"
  by (cases "m_iLength32 b = 1") (auto simp: big_normal_def big_val_def)

lemma two_words_le: "v = s + u * p + t * q \<Longrightarrow> q = h * p \<Longrightarrow> (t * h + u) * p \<le> (v :: nat)"
  by (simp add: add_mult_distrib)

lemma big_val_two_top:
  assumes "2 \<le> m_iLength32 x"
  shows "(unat (m_ulValue x ! (m_iLength32 x - 1)) * 2 ^ 32 + unat (m_ulValue x ! (m_iLength32 x - 2)))
      * 2 ^ (32 * (m_iLength32 x - 2)) \<le> big_val x"
proof -
  obtain m where m: "m_iLength32 x = Suc (Suc m)" by (rule that [of "m_iLength32 x - 2"]) (use assms in linarith)
  then have v: "big_val x = sval m (m_ulValue x) + unat (m_ulValue x ! m) * 2 ^ (32 * m) +
      unat (m_ulValue x ! Suc m) * 2 ^ (32 * Suc m)"
    by (simp only: big_val_def sval_Suc)
  have h: "(2 :: nat) ^ (32 * Suc m) = 2 ^ 32 * 2 ^ (32 * m)" by (simp only: mult_Suc_right power_add)
  have "m_iLength32 x - 1 = Suc m" "m_iLength32 x - 2 = m" using m by simp_all
  with two_words_le [OF v h] show ?thesis by (simp only:)
qed

lemma digit_fits:
  assumes "q * (n + 1) \<le> d" "B < (n + 1) * 2 ^ (32 * k)" "d * 2 ^ (32 * (k + l)) \<le> A"
  shows "q * B * 2 ^ (32 * l) \<le> (A :: nat)"
proof -
  have "q * B * 2 ^ (32 * l) \<le> q * ((n + 1) * 2 ^ (32 * k)) * 2 ^ (32 * l)"
    using assms(2) by (intro mult_le_mono) auto
  also have "\<dots> = (q * (n + 1)) * 2 ^ (32 * (k + l))"
    by (simp add: add_mult_distrib2 power_add algebra_simps)
  also have "\<dots> \<le> d * 2 ^ (32 * (k + l))" using assms(1) by (rule mult_le_mono1)
  finally show ?thesis using assms(3) by simp
qed

lemma unat_num_Suc: "unat (ucast (x :: u32) + 1 :: u64) = unat x + 1"
  by (subst unat_add_64) (simp_all add: widen less_trans [OF unat_lt_32])

lemma quotient_digit_correct:
  assumes a: "big_wf a" and b: "big_normal b" "0 < big_val b"
    and c: "\<not> Cmp a b < 0" "\<not> same_top a b" and q: "quotient_digit a b = (q, l)"
  shows "unat q < 2 ^ 32" "unat q * big_val b * 2 ^ (32 * l) \<le> big_val a"
    "m_iLength32 b + l \<le> m_iLength32 a"
    "m_ulValue a ! (m_iLength32 a - 1) \<noteq> 0 \<Longrightarrow> 0 < unat q"
    "m_ulValue a ! (m_iLength32 a - 1) = 0 \<Longrightarrow> m_iLength32 b + l < m_iLength32 a"
proof -
  define x y where "x = m_ulValue a ! (m_iLength32 a - 1)" and "y = m_ulValue b ! (m_iLength32 b - 1)"
  have y: "y \<noteq> 0" using normal_top [OF b] by (simp add: y_def)
  have lens: "1 \<le> m_iLength32 a" "1 \<le> m_iLength32 b" "m_iLength32 b \<le> m_iLength32 a"
    using big_wf_len [OF a] big_wf_len [of b] b c(1) by (auto simp: Cmp_def split: if_splits)
  define d where "d = m_iLength32 a - m_iLength32 b"
  have bb: "big_val b < (unat y + 1) * 2 ^ (32 * (m_iLength32 b - 1))"
    unfolding y_def by (rule top_bounds) (rule lens)
  have n: "unat (ucast y + 1 :: u64) = unat y + 1" by (rule unat_num_Suc)
  consider (shift) "x \<le> y" "d \<noteq> 0" | (top) "\<not> (x \<le> y \<and> d \<noteq> 0)" by blast
  then have "unat q < 2 ^ 32 \<and> unat q * big_val b * 2 ^ (32 * l) \<le> big_val a \<and>
    m_iLength32 b + l \<le> m_iLength32 a \<and> (x \<noteq> 0 \<longrightarrow> 0 < unat q) \<and> (x = 0 \<longrightarrow> m_iLength32 b + l < m_iLength32 a)"
  proof cases
    case shift
    define z where "z = m_ulValue a ! (m_iLength32 a - 2)"
    have xs: "unat (push_bit 32 (ucast x) :: u64) = unat x * 2 ^ 32"
    proof -
      have "unat x * 2 ^ 32 < 4294967296 * 2 ^ 32" by (rule mult_strict_right_mono) simp_all
      then show ?thesis by (simp add: push_bit_eq_mult unat_mult_64 unat_ucast_32_64)
    qed
    have xz: "unat x * 2 ^ 32 + unat z < (unat x + 1) * 2 ^ 32" by simp
    also have "\<dots> \<le> (unat y + 1) * 2 ^ 32"
      using shift(1) by (intro mult_le_mono1) (simp add: word_le_nat_alt)
    finally have xy: "unat x * 2 ^ 32 + unat z < (unat y + 1) * 2 ^ 32" .
    also have "\<dots> \<le> 4294967296 * 2 ^ 32" by (intro mult_le_mono1) (simp add: Suc_le_eq)
    finally have sum: "unat (push_bit 32 (ucast x) + ucast z :: u64) = unat x * 2 ^ 32 + unat z"
      by (subst unat_add_64) (simp_all add: xs unat_ucast_32_64)
    have ql: "q = (push_bit 32 (ucast x) + ucast z) div (ucast y + 1)" "l = d - 1"
      using q shift
      by (auto simp: quotient_digit_def Let_def x_def y_def z_def d_def word_le_nat_alt unat_ucast_32_64)
    have uq: "unat q = (unat x * 2 ^ 32 + unat z) div (unat y + 1)"
      unfolding ql(1) unat_div_distrib n sum ..
    have ge: "2 \<le> m_iLength32 a" and ll: "m_iLength32 b - 1 + l = m_iLength32 a - 2"
      using shift(2) lens ql(2) by (auto simp: d_def)
    have "unat q < 2 ^ 32" unfolding uq by (rule less_mult_imp_div_less) (use xy in \<open>simp add: algebra_simps\<close>)
    moreover have "unat q * big_val b * 2 ^ (32 * l) \<le> big_val a"
    proof (rule digit_fits)
      show "unat q * (unat y + 1) \<le> unat x * 2 ^ 32 + unat z" unfolding uq by (rule div_times_less_eq_dividend)
      show "(unat x * 2 ^ 32 + unat z) * 2 ^ (32 * (m_iLength32 b - 1 + l)) \<le> big_val a"
        unfolding ll using big_val_two_top [OF ge] by (simp only: x_def z_def)
    qed (rule bb)
    moreover have "m_iLength32 b + l < m_iLength32 a" using shift(2) lens ql(2) by (auto simp: d_def)
    moreover have "x \<noteq> 0 \<longrightarrow> 0 < unat q"
    proof
      assume "x \<noteq> 0"
      then have "1 \<le> unat x" by (simp add: Suc_le_eq unat_gt_0)
      then have "1 * 2 ^ 32 \<le> unat x * 2 ^ 32" by (rule mult_le_mono1)
      moreover have "unat y + 1 \<le> 1 * 2 ^ 32" using unat_lt_32 [of y] by simp
      ultimately have "unat y + 1 \<le> unat x * 2 ^ 32 + unat z" by (meson le_trans trans_le_add1)
      then show "0 < unat q" unfolding uq by (simp add: div_greater_zero_iff)
    qed
    ultimately show ?thesis by simp
  next
    case top
    have ql: "q = ucast x div (ucast y + 1)" "l = d"
      using q top
      by (auto simp: quotient_digit_def Let_def x_def y_def d_def word_le_nat_alt unat_ucast_32_64)
    have uq: "unat q = unat x div (unat y + 1)"
      unfolding ql(1) unat_div_distrib n unat_ucast_32_64 ..
    have xy: "unat y < unat x"
    proof (rule ccontr)
      assume ny: "\<not> unat y < unat x"
      with top have d0: "d = 0" by (simp add: word_le_nat_alt)
      with c(2) have "x \<noteq> y" by (simp add: same_top_def x_def y_def d_def)
      then have "unat x \<noteq> unat y" by (metis unsigned_word_eqI)
      with ny have "unat x + 1 \<le> unat y" by linarith
      then have "(unat x + 1) * 2 ^ (32 * (m_iLength32 a - 1)) \<le> unat y * 2 ^ (32 * (m_iLength32 a - 1))"
        by (rule mult_le_mono1)
      moreover have "m_iLength32 b = m_iLength32 a" using d0 lens by (simp add: d_def)
      ultimately have "big_val a < big_val b"
        using top_bounds(2) [OF lens(1)] top_bounds(1) [OF lens(2)] by (simp add: x_def y_def)
      with c(1) \<open>m_iLength32 b = m_iLength32 a\<close> show False by (simp add: Cmp_same_length)
    qed
    have "unat q \<le> unat x" unfolding uq by simp
    then have "unat q < 2 ^ 32" by (rule le_less_trans) simp
    moreover have "unat q * big_val b * 2 ^ (32 * l) \<le> big_val a"
    proof (rule digit_fits)
      show "unat q * (unat y + 1) \<le> unat x" unfolding uq by (rule div_times_less_eq_dividend)
      have "m_iLength32 b - 1 + l = m_iLength32 a - 1" using lens ql(2) by (simp add: d_def)
      then show "unat x * 2 ^ (32 * (m_iLength32 b - 1 + l)) \<le> big_val a"
        using top_bounds(1) [OF lens(1)] by (simp only: x_def)
    qed (rule bb)
    moreover have "0 < unat q" unfolding uq using xy by (simp add: div_greater_zero_iff)
    moreover have "x \<noteq> 0" using xy by auto
    ultimately show ?thesis using lens ql(2) by (simp add: d_def)
  qed
  then show "unat q < 2 ^ 32" "unat q * big_val b * 2 ^ (32 * l) \<le> big_val a"
    "m_iLength32 b + l \<le> m_iLength32 a"
    "m_ulValue a ! (m_iLength32 a - 1) \<noteq> 0 \<Longrightarrow> 0 < unat q"
    "m_ulValue a ! (m_iLength32 a - 1) = 0 \<Longrightarrow> m_iLength32 b + l < m_iLength32 a"
    by (auto simp: x_def)
qed

section \<open>One step\<close>

lemma Sub_bigint_cases:
  assumes "big_wf a" "big_wf t" "m_iLength32 t \<le> m_iLength32 a" "big_val t \<le> big_val a"
  obtains (undefined) "Sub_bigint a t = None" "big_val t = big_val a" "m_iLength32 t < m_iLength32 a"
  | (difference) z where "Sub_bigint a t = Some z" "big_normal z" "big_val z = big_val a - big_val t"
      "m_iLength32 z \<le> m_iLength32 a"
proof -
  consider (less) "big_val t < big_val a" | (shorter) "big_val t = big_val a" "m_iLength32 t < m_iLength32 a"
    | (same) "big_val t = big_val a" "m_iLength32 t = m_iLength32 a"
    using assms by linarith
  then show ?thesis
  proof cases
    case less
    then have "Cmp a t > 0"
      using assms(3) Cmp_same_length [of a t] by (cases "m_iLength32 a = m_iLength32 t") (simp_all add: Cmp_def)
    with Sub_bigint_diff [of a t] less assms show ?thesis by (metis difference)
  next
    case shorter
    then have "Cmp a t > 0" by (simp add: Cmp_def)
    with shorter assms show ?thesis by (intro undefined Sub_bigint_equal_undefined) simp_all
  next
    case same
    then have "Sub_bigint a t = Some (Mov_long 0)" by (simp add: Sub_bigint_def Cmp_same_length)
    moreover have "m_iLength32 (Mov_long 0) = 1" by (simp add: Mov_long_def)
    ultimately show ?thesis using same big_wf_len [OF assms(1)] by (intro difference [of "Mov_long 0"]) simp_all
  qed
qed

lemma subtrahend_correct:
  assumes a: "big_wf a" and b: "big_normal b" "0 < big_val b" "m_iLength32 b < 66"
    and c: "\<not> Cmp a b < 0" "\<not> same_top a b" and q: "quotient_digit a b = (q, l)"
  obtains s t where "Mul_bigint b (Mov_long q) = Some s" "shl_words l s = Some t" "big_wf t"
    "big_val t = unat q * big_val b * 2 ^ (32 * l)" "big_val t \<le> big_val a"
    "m_iLength32 t \<le> m_iLength32 a" "0 < unat q \<longrightarrow> big_normal t"
proof -
  note qd = quotient_digit_correct [OF a b(1,2) c q]
  have lq: "m_iLength32 (Mov_long q) = 1" using qd(1) by (simp add: Mov_long_small)
  obtain s where s: "Mul_bigint b (Mov_long q) = Some s" "big_wf s" "big_val s = big_val b * unat q"
    "m_iLength32 s = m_iLength32 b + m_iLength32 (Mov_long q) - 1 \<or> 2 ^ (32 * (m_iLength32 s - 1)) \<le> big_val s"
    by (rule Mul_bigint_correct [of b "Mov_long q"]) (use b lq in \<open>auto simp: Mov_long_val\<close>)
  have la: "m_iLength32 s + l \<le> m_iLength32 a"
  proof (cases "2 ^ (32 * (m_iLength32 s - 1)) \<le> big_val s")
    case True
    then have "2 ^ (32 * (m_iLength32 s - 1)) * 2 ^ (32 * l) \<le> big_val s * 2 ^ (32 * l)"
      by (rule mult_le_mono1)
    also have "\<dots> \<le> big_val a" using qd(2) by (simp only: s(3) mult.commute)
    also have "\<dots> < 2 ^ (32 * m_iLength32 a)" by (rule big_val_less)
    finally have "32 * (m_iLength32 s - 1) + 32 * l < 32 * m_iLength32 a"
      by (simp only: power_add [symmetric]) (erule power_less_imp_less_exp [rotated], simp)
    then show ?thesis by linarith
  next
    case False
    with s(4) lq have "m_iLength32 s = m_iLength32 b" by simp
    with qd(3) show ?thesis by simp
  qed
  then obtain t where t: "shl_words l s = Some t" "big_wf t" "big_val t = big_val s * 2 ^ (32 * l)"
    "m_iLength32 t = m_iLength32 s + l" "m_ulValue t ! (m_iLength32 t - 1) = m_ulValue s ! (m_iLength32 s - 1)"
    using shl_words_correct [OF s(2), of l] big_wf_len [OF a] by (metis le_trans)
  have "big_normal t" if "0 < unat q"
  proof -
    have "big_normal s"
      by (rule Mul_bigint_normal [of b "Mov_long q"]) (use b lq that s(1) in \<open>auto simp: Mov_long_val\<close>)
    moreover have "0 < big_val s" using that b s(3) by simp
    ultimately have "m_ulValue s ! (m_iLength32 s - 1) \<noteq> 0" by (rule normal_top)
    with t show ?thesis by (simp add: big_normal_def)
  qed
  then show ?thesis
    using that [OF s(1) t(1,2)] t(3,4) la qd(2) s(3) by (simp add: mult.commute)
qed

lemma same_top_diff:
  assumes a: "big_wf a" and b: "big_normal b" "0 < big_val b" and c: "\<not> Cmp a b < 0" "same_top a b"
  obtains z where "Sub_bigint a b = Some z" "big_normal z" "big_val z = big_val a mod big_val b"
    "m_iLength32 z \<le> m_iLength32 b"
proof -
  have lens: "1 \<le> m_iLength32 b" "m_iLength32 a = m_iLength32 b"
    using big_wf_len [of b] b c by (auto simp: Cmp_def same_top_def split: if_splits)
  define y where "y = m_ulValue b ! (m_iLength32 b - 1)"
  define p where "p = (2 :: nat) ^ (32 * (m_iLength32 b - 1))"
  have y: "1 \<le> unat y" using normal_top [OF b] by (simp add: y_def Suc_le_eq unat_gt_0)
  have "big_val a < (unat y + 1) * p"
    using top_bounds(2) [of a] c(2) lens by (simp add: same_top_def y_def p_def)
  also have "\<dots> \<le> (unat y + unat y) * p" using y by (intro mult_le_mono1) simp
  also have "\<dots> \<le> 2 * big_val b"
    using top_bounds(1) [OF lens(1)] by (simp add: y_def p_def add_mult_distrib)
  finally have lt: "big_val a < 2 * big_val b" .
  have ge: "big_val b \<le> big_val a" using c(1) lens by (simp add: Cmp_same_length split: if_splits)
  then have m: "big_val a mod big_val b = big_val a - big_val b"
    using lt b by (simp add: le_mod_geq)
  show ?thesis
    by (rule Sub_bigint_cases [of a b]) (use a b lens ge m that in auto)
qed

section \<open>The remainder\<close>

lemma Mod_loop_normal:
  assumes "big_normal a" "big_normal b" "0 < big_val b" "m_iLength32 b < 66"
  shows "\<exists>z. Mod_loop a b = Some z \<and> big_normal z \<and> big_val z = big_val a mod big_val b \<and>
    m_iLength32 z \<le> m_iLength32 b"
  using assms
proof (induction "big_val a" arbitrary: a rule: less_induct)
  case less
  note b = less.prems(2-4)
  have aw: "big_wf a" and bw: "big_wf b" using less.prems by auto
  consider (small) "Cmp a b < 0" | (top) "\<not> Cmp a b < 0" "same_top a b"
    | (step) "\<not> Cmp a b < 0" "\<not> same_top a b" by blast
  then show ?case
  proof cases
    case small
    then have "big_val a < big_val b" using less.prems by (simp add: Cmp_normal split: if_splits)
    with small less.prems show ?thesis
      by (subst Mod_loop.simps) (simp add: big_normal_len_mono)
  next
    case top
    then show ?thesis using same_top_diff [OF aw b(1,2)] by (subst Mod_loop.simps) (metis (full_types))
  next
    case step
    obtain q l where q: "quotient_digit a b = (q, l)" by fastforce
    obtain s t where t: "Mul_bigint b (Mov_long q) = Some s" "shl_words l s = Some t" "big_wf t"
      "big_val t = unat q * big_val b * 2 ^ (32 * l)" "big_val t \<le> big_val a"
      "m_iLength32 t \<le> m_iLength32 a" "0 < unat q \<longrightarrow> big_normal t"
      by (rule subtrahend_correct [OF aw b step q])
    have "0 < big_val a" using step(1) less.prems by (simp add: Cmp_normal split: if_splits)
    then have qp: "0 < unat q"
      using quotient_digit_correct(4) [OF aw b(1,2) step q] normal_top less.prems(1) by blast
    with t obtain z where z: "Sub_bigint a t = Some z" "big_normal z" "big_val z = big_val a - big_val t"
      using Sub_bigint_normal less.prems(1) by metis
    have tp: "0 < big_val t" using qp b t(4) by simp
    then have "big_val z < big_val a" using z(3) t(5) by linarith
    moreover have "big_val z mod big_val b = big_val a mod big_val b"
    proof -
      have "big_val a = big_val z + big_val b * (unat q * 2 ^ (32 * l))"
        using z(3) t(4,5) by (simp add: algebra_simps)
      then show ?thesis by (simp only: mod_mult_self2)
    qed
    moreover have "Mod_loop a b = Mod_loop z b"
      using step q t(1,2) z(1) by (subst Mod_loop.simps) simp
    ultimately show ?thesis using less.hyps [of z] z(2) b by simp
  qed
qed

lemma Mod_bigint_normal:
  assumes "big_normal a" "big_normal b" "0 < big_val b" "m_iLength32 b < 66"
  obtains z where "Mod_bigint a b = Some z" "big_normal z" "big_val z = big_val a mod big_val b"
    "m_iLength32 z \<le> m_iLength32 b"
  using Mod_loop_normal [OF assms] assms(1) by (auto simp: Mod_bigint_def)

lemma Mod_bigint_cases:
  assumes a: "big_wf a" and b: "big_normal b" "0 < big_val b" "m_iLength32 b < 66"
  obtains (undefined) "Mod_bigint a b = None" "big_val b dvd big_val a"
  | (remainder) z where "Mod_bigint a b = Some z" "big_wf z" "big_val z = big_val a mod big_val b"
      "m_iLength32 z \<le> m_iLength32 b"
proof -
  consider (small) "Cmp a b < 0" | (top) "\<not> Cmp a b < 0" "same_top a b"
    | (step) "\<not> Cmp a b < 0" "\<not> same_top a b" by blast
  then show ?thesis
  proof cases
    case small
    then have l: "m_iLength32 a \<le> m_iLength32 b" by (simp add: Cmp_def split: if_splits)
    have "big_val a < big_val b"
    proof (cases "m_iLength32 a = m_iLength32 b")
      case True
      with small show ?thesis by (simp add: Cmp_same_length split: if_splits)
    next
      case False
      with l a b show ?thesis by (intro normal_longer_greater) auto
    qed
    moreover have "Mod_bigint a b = Some a"
      unfolding Mod_bigint_def by (subst Mod_loop.simps) (simp add: small a)
    ultimately show ?thesis using a l by (intro remainder) simp_all
  next
    case top
    obtain z where "Sub_bigint a b = Some z" "big_normal z" "big_val z = big_val a mod big_val b"
      "m_iLength32 z \<le> m_iLength32 b"
      using same_top_diff [OF a b(1,2) top] .
    moreover have "Mod_bigint a b = Sub_bigint a b"
      unfolding Mod_bigint_def by (subst Mod_loop.simps) (simp add: top a)
    ultimately show ?thesis by (intro remainder) simp_all
  next
    case step
    obtain q l where q: "quotient_digit a b = (q, l)" by fastforce
    obtain s t where t: "Mul_bigint b (Mov_long q) = Some s" "shl_words l s = Some t" "big_wf t"
      "big_val t = unat q * big_val b * 2 ^ (32 * l)" "big_val t \<le> big_val a"
      "m_iLength32 t \<le> m_iLength32 a"
      by (rule subtrahend_correct [OF a b step q])
    have e: "Mod_bigint a b = Option.bind (Sub_bigint a t) (\<lambda>out. Mod_loop out b)"
      unfolding Mod_bigint_def using step q t(1,2) by (subst Mod_loop.simps) (simp add: a)
    consider "Sub_bigint a t = None" "big_val t = big_val a"
      | z where "Sub_bigint a t = Some z" "big_normal z" "big_val z = big_val a - big_val t"
      by (rule Sub_bigint_cases [OF a t(3,6,5)])
    then show ?thesis
    proof cases
      case 1
      show ?thesis
      proof (rule undefined)
        show "Mod_bigint a b = None" by (simp add: e 1(1))
        have "big_val a = unat q * big_val b * 2 ^ (32 * l)" using 1(2) t(4) by simp
        then show "big_val b dvd big_val a" by simp
      qed
    next
      case (2 z)
      have "big_val a = big_val z + big_val b * (unat q * 2 ^ (32 * l))"
        using 2(3) t(4,5) by (simp add: algebra_simps)
      then have "big_val z mod big_val b = big_val a mod big_val b" by (simp only: mod_mult_self2)
      moreover have "Mod_bigint a b = Mod_loop z b" by (simp add: e 2(1))
      ultimately show ?thesis
        using Mod_loop_normal [OF 2(2) b] by (auto intro: remainder)
    qed
  qed
qed

section \<open>Properties\<close>

text \<open>
  C12: \<open>Mod_bigint\<close> terminates and computes the remainder: on numbers without a leading zero word
  and a nonzero modulus it returns a number without one, equal to the remainder.
\<close>

theorem Mod_bigint_remainder:
  assumes "big_normal a" "big_normal b" "0 < big_val b" "m_iLength32 b < BIGINT_MAXLEN"
  shows "\<exists>z. Mod_bigint a b = Some z \<and> big_normal z \<and> big_val z = big_val a mod big_val b \<and>
    m_iLength32 z \<le> m_iLength32 b"
  by (rule Mod_bigint_normal [of a b]) (use assms in auto)

theorem Mod_bigint_remainder_witness:
  "\<exists>z. Mod_bigint (Mov_long 0x123456789ab) (Mov_long 1000) = Some z \<and> big_normal z \<and>
    big_val z = big_val (Mov_long 0x123456789ab) mod big_val (Mov_long 1000) \<and>
    m_iLength32 z \<le> m_iLength32 (Mov_long 1000)"
  by (rule Mod_bigint_remainder) (simp_all add: Mov_long_val Mov_long_len)

text \<open>
  With a leading zero word the same routine can leave its array: it is undefined only if the modulus
  divides the number, and otherwise it returns the remainder.
\<close>

theorem Mod_bigint_leading_zeros:
  assumes "big_wf a" "big_normal b" "0 < big_val b" "m_iLength32 b < BIGINT_MAXLEN"
  shows "case Mod_bigint a b of None \<Rightarrow> big_val b dvd big_val a
    | Some z \<Rightarrow> big_wf z \<and> big_val z = big_val a mod big_val b"
  by (rule Mod_bigint_cases [of a b]) (use assms in auto)

definition two_zero_words :: SBigInt where
  "two_zero_words = \<lparr>m_iLength32 = 2, m_ulValue = replicate 66 0\<rparr>"

theorem Mod_bigint_leading_zeros_witness:
  "case Mod_bigint two_zero_words (Mov_long 5) of None \<Rightarrow> big_val (Mov_long 5) dvd big_val two_zero_words
    | Some z \<Rightarrow> big_wf z \<and> big_val z = big_val two_zero_words mod big_val (Mov_long 5)"
  by (rule Mod_bigint_leading_zeros)
    (simp_all add: two_zero_words_def big_wf_def Mov_long_val Mov_long_len)

end
