(* ===== verification/RsaTrans.thy ===== *)
theory RsaTrans
  imports BigintMod
begin

text \<open>
  \<open>RsaTrans\<close> of \<^verbatim>\<open>signimage/source/common/rsa/src/rsa.c\<close>: modular exponentiation by square and
  multiply, every product formed word by word and reduced by \<open>Mod_bigint\<close> as it
  grows.  The argument about square and multiply is made once, in a locale over any
  modular product; the product of the code is then an instance of it.
\<close>

section \<open>The code\<close>

text \<open>\<open>for (j = len; j > 0; j--) v[j] = v[j - 1]; v[0] = 0; len++\<close>.\<close>

definition shift_up :: "SBigInt \<Rightarrow> SBigInt option" where
  "shift_up t =
     (let n = m_iLength32 t
      in if n \<ge> BIGINT_MAXLEN then None
         else Some \<lparr>m_iLength32 = n + 1, m_ulValue = 0 # take n (m_ulValue t) @ drop (n + 1) (m_ulValue t)\<rparr>)"

function mulmod_loop :: "SBigInt \<Rightarrow> SBigInt \<Rightarrow> SBigInt \<Rightarrow> nat \<Rightarrow> SBigInt \<Rightarrow> SBigInt option" where
  "mulmod_loop x y sN n sTemp1 =
     (if n < m_iLength32 y
      then Option.bind (shift_up sTemp1) (\<lambda>sTemp1.
           Option.bind (Mul_long x (ucast (m_ulValue y ! (m_iLength32 y - n - 1)))) (\<lambda>sTemp2.
           Option.bind (Add_bigint sTemp1 sTemp2) (\<lambda>sTemp1.
           Option.bind (Mod_bigint sTemp1 sN) (\<lambda>sTemp1. mulmod_loop x y sN (n + 1) sTemp1))))
      else Some sTemp1)"
  by pat_completeness auto
termination
  by (relation "measure (\<lambda>(x, y, sN, n, t). m_iLength32 y - n)") auto

definition mulmod :: "SBigInt \<Rightarrow> SBigInt \<Rightarrow> SBigInt \<Rightarrow> SBigInt option" where
  "mulmod sN x y =
     Option.bind (Mul_long x (ucast (m_ulValue y ! (m_iLength32 y - 1)))) (\<lambda>sTemp1.
     Option.bind (Mod_bigint sTemp1 sN) (\<lambda>sTemp1. mulmod_loop x y sN 1 sTemp1))"

function num_bits :: "u64 \<Rightarrow> nat" where
  "num_bits num = (if num = 0 then 0 else 1 + num_bits (drop_bit 1 num))"
  by pat_completeness auto
termination
proof (relation "measure unat")
  fix num :: u64
  assume "num \<noteq> 0"
  then have "unat num div 2 < unat num" by (simp add: unat_gt_0)
  then show "(drop_bit 1 num, num) \<in> measure unat"
    by (simp add: drop_bit_eq_div unat_div_distrib)
qed simp

fun rsa_loop :: "SBigInt \<Rightarrow> SBigInt \<Rightarrow> SBigInt \<Rightarrow> nat \<Rightarrow> SBigInt \<Rightarrow> SBigInt option" where
  "rsa_loop sIn sE sN 0 sOut = Some sOut"
| "rsa_loop sIn sE sN (Suc i) sOut =
     Option.bind (mulmod sN sOut sOut) (\<lambda>sOut.
     Option.bind (if drop_bit (i mod 32) (m_ulValue sE ! (i div 32)) AND 1 \<noteq> 0
                  then mulmod sN sIn sOut else Some sOut) (\<lambda>sOut.
     rsa_loop sIn sE sN i sOut))"

definition RsaTrans :: "SBigInt \<Rightarrow> SBigInt \<Rightarrow> SBigInt \<Rightarrow> SBigInt option" where
  "RsaTrans sIn sE sN =
     (let k = m_iLength32 sE * 32 - 32 + num_bits (ucast (m_ulValue sE ! (m_iLength32 sE - 1)))
      in rsa_loop sIn sE sN (k - 1) (Mov_bigint sIn))"

declare mulmod_loop.simps [simp del] num_bits.simps [simp del]

section \<open>Square and multiply over any modular product\<close>

lemma square_mod: "(a :: nat) mod m = b mod m \<Longrightarrow> a * a mod m = b * b mod m"
  by (rule mod_mult_cong)

lemma power_twice: "(a :: nat) ^ (2 * p) = a ^ p * a ^ p"
  by (simp only: mult_2 power_add)

fun sqm_loop :: "('a \<Rightarrow> 'a \<Rightarrow> 'a option) \<Rightarrow> 'a \<Rightarrow> nat \<Rightarrow> nat \<Rightarrow> 'a \<Rightarrow> 'a option" where
  "sqm_loop mul x e 0 out = Some out"
| "sqm_loop mul x e (Suc i) out =
     Option.bind (mul out out) (\<lambda>out.
     Option.bind (if bit e i then mul x out else Some out) (\<lambda>out. sqm_loop mul x e i out))"

lemma exponent_step: "e div 2 ^ i = 2 * (e div 2 ^ Suc i) + of_bool (bit (e :: nat) i)"
proof -
  have "e div 2 ^ Suc i = e div 2 ^ i div 2" by (simp add: div_mult2_eq [symmetric] mult.commute)
  moreover have "e div 2 ^ i = 2 * (e div 2 ^ i div 2) + of_bool (odd (e div 2 ^ i))"
    by (cases "odd (e div 2 ^ i)") auto
  ultimately show ?thesis by (simp add: bit_iff_odd)
qed

locale modular_product =
  fixes mul :: "'a \<Rightarrow> 'a \<Rightarrow> 'a option" and val :: "'a \<Rightarrow> nat" and ok :: "'a \<Rightarrow> bool" and m :: nat
  assumes mul_sound: "ok a \<Longrightarrow> ok b \<Longrightarrow> mul a b = Some c \<Longrightarrow> ok c \<and> val c = val a * val b mod m"
begin

lemma square_step:
  assumes "ok x" "ok out" "val out mod m = val x ^ (e div 2 ^ Suc i) mod m" "mul out out = Some s"
    "(if bit e i then mul x s else Some s) = Some r"
  shows "ok r \<and> val r = val x ^ (e div 2 ^ i) mod m"
proof -
  define p where "p = e div 2 ^ Suc i"
  have e: "e div 2 ^ i = 2 * p + of_bool (bit e i)" unfolding p_def by (rule exponent_step)
  have "ok s" "val s = val out * val out mod m" using mul_sound [OF assms(2,2,4)] by blast+
  moreover have "val out * val out mod m = val x ^ (2 * p) mod m"
    unfolding power_twice p_def by (rule square_mod) (rule assms(3))
  ultimately have s: "ok s" "val s = val x ^ (2 * p) mod m" by (simp_all only:)
  show ?thesis
  proof (cases "bit e i")
    case True
    with assms(5) have xs: "mul x s = Some r" by simp
    have "ok r" "val r = val x * val s mod m" using mul_sound [OF assms(1) s(1) xs] by blast+
    with True s(2) show ?thesis by (simp add: e mod_mult_right_eq)
  next
    case False
    with s assms(5) show ?thesis by (simp add: e)
  qed
qed

lemma sqm_loop_sound:
  assumes "ok x" "ok out" "val out mod m = val x ^ (e div 2 ^ i) mod m" "sqm_loop mul x e i out = Some r"
  shows "ok r \<and> val r mod m = val x ^ e mod m \<and> (r = out \<or> val r < m \<or> m = 0)"
  using assms(2-)
proof (induction i arbitrary: out)
  case (Suc i)
  from Suc.prems(3) obtain s q where s: "mul out out = Some s"
    "(if bit e i then mul x s else Some s) = Some q" "sqm_loop mul x e i q = Some r"
    by (auto simp: bind_eq_Some_conv)
  have q: "ok q" "val q = val x ^ (e div 2 ^ i) mod m"
    using square_step [OF assms(1) Suc.prems(1,2) s(1,2)] by auto
  then have "val q < m \<or> m = 0" by (cases "m = 0") simp_all
  with Suc.IH [of q] q s(3) show ?case by auto
qed simp

end

locale total_modular_product = modular_product +
  fixes good :: "'a \<Rightarrow> bool" and fit :: "nat \<Rightarrow> bool"
  assumes good_ok: "good a \<Longrightarrow> ok a"
    and mul_total: "good a \<Longrightarrow> good b \<Longrightarrow> coprime (val a) m \<Longrightarrow> coprime (val b) m \<Longrightarrow> val b < m \<Longrightarrow>
      fit (val b) \<Longrightarrow> \<exists>c. mul a b = Some c \<and> good c"
begin

lemma sqm_loop_total:
  assumes "good x" "coprime (val x) m" "good out" "val out = val x ^ (e div 2 ^ i) mod m" "0 < m"
    "\<And>j. j < i \<Longrightarrow> fit (val x ^ (e div 2 ^ Suc j) mod m) \<and> fit (val x ^ (2 * (e div 2 ^ Suc j)) mod m)"
  shows "\<exists>r. sqm_loop mul x e i out = Some r \<and> good r"
  using assms(3,4,6)
proof (induction i arbitrary: out)
  case (Suc i)
  let ?p = "e div 2 ^ Suc i"
  note okx = good_ok [OF assms(1)] and oko = good_ok [OF Suc.prems(1)]
  have power_coprime: "coprime (val x ^ k mod m) m" for k
    using assms(2,5) by (simp add: coprime_mod_left_iff)
  have lt: "val out < m" and cop: "coprime (val out) m"
    unfolding Suc.prems(2) using assms(5) power_coprime by simp_all
  have fits: "fit (val out)" "fit (val x ^ (2 * ?p) mod m)"
    using Suc.prems(3) [of i] Suc.prems(2) by simp_all
  obtain s where s: "mul out out = Some s" "good s"
    using mul_total [OF Suc.prems(1,1) cop cop lt fits(1)] by blast
  have "val s = val out * val out mod m" using mul_sound [OF oko oko s(1)] by blast
  moreover have "val out * val out mod m = val x ^ (2 * ?p) mod m"
    unfolding power_twice by (rule square_mod) (simp add: Suc.prems(2))
  ultimately have vs: "val s = val x ^ (2 * ?p) mod m" by (simp only:)
  have vl: "val s < m" "coprime (val s) m" "fit (val s)"
    unfolding vs using assms(5) power_coprime fits(2) by simp_all
  obtain q where q: "(if bit e i then mul x s else Some s) = Some q" "good q"
  proof (cases "bit e i")
    case True
    with that show ?thesis using mul_total [OF assms(1) s(2) assms(2) vl(2,1,3)] by auto
  next
    case False
    with that s(2) show ?thesis by simp
  qed
  have "val out mod m = val x ^ (e div 2 ^ Suc i) mod m" by (simp only: Suc.prems(2) mod_mod_trivial)
  then have "val q = val x ^ (e div 2 ^ i) mod m"
    using square_step [OF okx oko _ s(1) q(1)] by simp
  then have "\<exists>r. sqm_loop mul x e i q = Some r \<and> good r" using Suc.IH [OF q(2)] Suc.prems(3) by simp
  with s q show ?case by simp
qed auto

end

section \<open>The product of the code\<close>

text \<open>The number that the top \<open>n\<close> of the \<open>l\<close> words stand for.\<close>

fun top_words :: "u32 list \<Rightarrow> nat \<Rightarrow> nat \<Rightarrow> nat" where
  "top_words ys l 0 = 0"
| "top_words ys l (Suc n) = top_words ys l n * 2 ^ 32 + unat (ys ! (l - Suc n))"

lemma sval_top_words: "n \<le> l \<Longrightarrow> sval l ys = sval (l - n) ys + top_words ys l n * 2 ^ (32 * (l - n))"
proof (induction n)
  case (Suc n)
  obtain k where k: "l - n = Suc k" "l - Suc n = k" using Suc.prems by (intro that [of "l - Suc n"]) simp_all
  have "sval l ys = sval k ys + unat (ys ! k) * 2 ^ (32 * k) + top_words ys l n * 2 ^ (32 * Suc k)"
    using Suc k by (simp only: sval_Suc)
  moreover have "top_words ys l n * 2 ^ (32 * Suc k) = top_words ys l n * 2 ^ 32 * 2 ^ (32 * k)"
    by (simp only: mult_Suc_right power_add mult.assoc)
  ultimately show ?case unfolding top_words.simps k add_mult_distrib by linarith
qed simp

lemma top_words_all: "top_words ys l l = sval l ys"
  using sval_top_words [of l l ys] by simp

lemma top_words_le: "n \<le> l \<Longrightarrow> top_words ys l n \<le> sval l ys"
proof -
  assume "n \<le> l"
  then have "top_words ys l n * 1 \<le> top_words ys l n * 2 ^ (32 * (l - n))" by (intro mult_le_mono2) simp
  then show ?thesis using sval_top_words [OF \<open>n \<le> l\<close>, of ys] by linarith
qed

lemma top_words_div: "n \<le> l \<Longrightarrow> top_words ys l n = sval l ys div 2 ^ (32 * (l - n))"
  using sval_top_words [of n l ys] sval_less [of "l - n" ys] by simp

lemma shift_up_correct:
  assumes "big_wf t" "m_iLength32 t < 66"
  obtains z where "shift_up t = Some z" "big_wf z" "big_val z = big_val t * 2 ^ 32"
    "m_iLength32 z = m_iLength32 t + 1" "m_ulValue z ! (m_iLength32 z - 1) = m_ulValue t ! (m_iLength32 t - 1)"
proof -
  let ?n = "m_iLength32 t"
  define ys where "ys = 0 # take ?n (m_ulValue t) @ drop (?n + 1) (m_ulValue t)"
  define z where "z = \<lparr>m_iLength32 = ?n + 1, m_ulValue = ys\<rparr>"
  have n: "1 \<le> ?n" using big_wf_len [OF assms(1)] by simp
  have ys: "length ys = 66" using assms by (simp add: ys_def)
  have lo: "ys ! (k + 1) = m_ulValue t ! k" if "k < ?n" for k
    using that assms by (simp add: ys_def nth_append)
  have hi: "ys ! k = 0" if k: "?n + 1 \<le> k" "k < 66" for k
  proof -
    obtain j where "k = Suc j" using k(1) by (cases k) auto
    with k assms show ?thesis by (simp add: ys_def nth_append big_wf_tail)
  qed
  have "shift_up t = Some z" using assms by (simp add: shift_up_def Let_def z_def ys_def)
  moreover have "big_wf z" using ys hi assms by (auto simp: z_def big_wf_def)
  moreover have "big_val z = big_val t * 2 ^ (32 * 1)"
    unfolding big_val_def z_def SBigInt.simps
    by (rule sval_shifted) (use lo in \<open>auto simp: ys_def\<close>)
  moreover have "m_ulValue z ! (m_iLength32 z - 1) = m_ulValue t ! (?n - 1)"
    using lo [of "?n - 1"] n by (simp add: z_def)
  ultimately show ?thesis using that [of z] by (simp add: z_def)
qed

text \<open>A product reduced word by word.  \<open>small\<close> is what every number of the loop keeps: no longer than the
  modulus, so that the sums and the shifted numbers fit the array.\<close>

definition small :: "SBigInt \<Rightarrow> SBigInt \<Rightarrow> bool" where
  "small sN x \<longleftrightarrow> big_wf x \<and> m_iLength32 x \<le> m_iLength32 sN \<and> m_iLength32 sN \<le> 64"

definition modulus :: "SBigInt \<Rightarrow> bool" where
  "modulus sN \<longleftrightarrow> big_normal sN \<and> m_iLength32 sN \<le> 64 \<and> 1 < big_val sN"

lemma horner_mod: "t = (x * a) mod m \<Longrightarrow> (t * b + x * w) mod m = x * (a * b + w) mod (m :: nat)"
  unfolding add_mult_distrib2
  by (rule mod_add_cong) (simp_all add: mod_mult_left_eq mult.assoc)

lemma mulmod_loop_sound:
  assumes "small sN x" "small sN y" "modulus sN" "n \<le> m_iLength32 y" "small sN t"
    "big_val t = big_val x * top_words (m_ulValue y) (m_iLength32 y) n mod big_val sN"
    "mulmod_loop x y sN n t = Some r"
  shows "small sN r \<and> big_val r = big_val x * big_val y mod big_val sN"
  using assms
proof (induction x y sN n t rule: mulmod_loop.induct)
  case (1 x y sN n t)
  let ?l = "m_iLength32 y" and ?w = "ucast (m_ulValue y ! (m_iLength32 y - n - 1)) :: u64"
  show ?case
  proof (cases "n < ?l")
    case True
    obtain t1 where t1: "shift_up t = Some t1" "big_wf t1" "big_val t1 = big_val t * 2 ^ 32"
      "m_iLength32 t1 = m_iLength32 t + 1"
      by (rule shift_up_correct [of t]) (use "1.prems"(5) in \<open>auto simp: small_def\<close>)
    have w: "unat ?w = unat (m_ulValue y ! (?l - Suc n))" by (simp add: unat_ucast_32_64)
    obtain t2 where t2: "Mul_long x ?w = Some t2" "big_wf t2" "big_val t2 = big_val x * unat ?w"
      "m_iLength32 t2 \<le> m_iLength32 x + 1"
      by (rule Mul_long_correct [of x ?w]) (use "1.prems"(1) in \<open>auto simp: small_def unat_ucast_32_64\<close>)
    obtain t3 where t3: "Add_bigint t1 t2 = Some t3" "big_wf t3" "big_val t3 = big_val t1 + big_val t2"
      by (rule Add_bigint_correct [of t1 t2]) (use t1 t2 "1.prems" in \<open>auto simp: small_def\<close>)
    obtain t4 where t4: "Mod_bigint t3 sN = Some t4" "mulmod_loop x y sN (n + 1) t4 = Some r"
      using "1.prems"(7) True t1(1) t2(1) t3(1)
      by (subst (asm) mulmod_loop.simps) (auto simp: bind_eq_Some_conv)
    have "small sN t4 \<and> big_val t4 = big_val t3 mod big_val sN"
      by (rule Mod_bigint_cases [of t3 sN]) (use t3 t4 "1.prems"(3) in \<open>auto simp: modulus_def small_def\<close>)
    moreover have "big_val t3 mod big_val sN =
        big_val x * top_words (m_ulValue y) ?l (n + 1) mod big_val sN"
      using horner_mod [OF "1.prems"(6), of "2 ^ 32" "unat ?w"]
      by (simp only: t3(3) t1(3) t2(3) w top_words.simps Suc_eq_plus1 [symmetric])
    ultimately have t4': "small sN t4"
      "big_val t4 = big_val x * top_words (m_ulValue y) ?l (n + 1) mod big_val sN" by simp_all
    have "n + 1 \<le> ?l" using True by simp
    then show ?thesis
      by (rule "1.IH" [OF True t1(1) t2(1) t3(1) t4(1) "1.prems"(1-3) _ t4' t4(2)])
  next
    case False
    then have "n = ?l" "r = t" using "1.prems"(4,7) by (simp_all add: mulmod_loop.simps)
    with "1.prems" show ?thesis by (simp add: top_words_all big_val_def)
  qed
qed

lemma mulmod_sound:
  assumes "modulus sN" "small sN x" "small sN y" "mulmod sN x y = Some r"
  shows "small sN r \<and> big_val r = big_val x * big_val y mod big_val sN"
proof -
  let ?w = "ucast (m_ulValue y ! (m_iLength32 y - 1)) :: u64"
  have w: "unat ?w = top_words (m_ulValue y) (m_iLength32 y) 1" by (simp add: unat_ucast_32_64)
  obtain t1 where t1: "Mul_long x ?w = Some t1" "big_wf t1" "big_val t1 = big_val x * unat ?w"
    by (rule Mul_long_correct [of x ?w]) (use assms(2) in \<open>auto simp: small_def unat_ucast_32_64\<close>)
  obtain t where t: "Mod_bigint t1 sN = Some t" "mulmod_loop x y sN 1 t = Some r"
    using assms(4) t1(1) by (auto simp: mulmod_def bind_eq_Some_conv)
  have "small sN t \<and> big_val t = big_val t1 mod big_val sN"
    by (rule Mod_bigint_cases [of t1 sN]) (use t1 t assms(1) in \<open>auto simp: modulus_def small_def\<close>)
  moreover have "1 \<le> m_iLength32 y" using assms(3) by (simp add: small_def big_wf_def)
  ultimately show ?thesis
    using mulmod_loop_sound [OF assms(2,3,1) _ _ _ t(2)] t1(3) w by simp
qed

text \<open>The modulus is one of the operands the code passes, so its well-formedness is part of what
  the instance asks of a number.\<close>

interpretation mm: modular_product "mulmod sN" big_val "\<lambda>x. modulus sN \<and> small sN x" "big_val sN"
  for sN
  by unfold_locales (use mulmod_sound in blast)

section \<open>When the product is defined\<close>

fun full_digits :: "nat \<Rightarrow> nat \<Rightarrow> bool" where
  "full_digits 0 v = True"
| "full_digits (Suc n) v = (v = 0 \<or> v mod 2 ^ 32 \<noteq> 0 \<and> full_digits n (v div 2 ^ 32))"

definition full_words :: "nat \<Rightarrow> bool" where
  "full_words v = full_digits 64 v"

lemma full_digits_nth:
  "full_digits n v \<Longrightarrow> i < n \<Longrightarrow> 2 ^ (32 * i) \<le> v \<Longrightarrow> v div 2 ^ (32 * i) mod 2 ^ 32 \<noteq> 0"
proof (induction n arbitrary: v i)
  case (Suc n)
  have "v \<noteq> 0" using Suc.prems(3) by (metis le_zero_eq power_not_zero zero_neq_numeral)
  show ?case
  proof (cases i)
    case 0
    with Suc.prems(1) \<open>v \<noteq> 0\<close> show ?thesis by simp
  next
    case (Suc j)
    have p: "(2 :: nat) ^ (32 * i) = 2 ^ 32 * 2 ^ (32 * j)" by (simp only: Suc mult_Suc_right power_add)
    have "2 ^ (32 * j) = 2 ^ 32 * 2 ^ (32 * j) div (2 ^ 32 :: nat)" by simp
    also have "\<dots> \<le> v div 2 ^ 32" using Suc.prems(3) unfolding p by (rule div_le_mono)
    finally have "v div 2 ^ 32 div 2 ^ (32 * j) mod 2 ^ 32 \<noteq> 0"
      by (intro Suc.IH) (use Suc.prems(1,2) Suc \<open>v \<noteq> 0\<close> in simp_all)
    then show ?thesis unfolding p div_mult2_eq .
  qed
qed simp

text \<open>The residues that the exponentiation squares and multiplies, from the top bit of the
  exponent down: each of them has no zero word.\<close>

fun residues_full :: "nat \<Rightarrow> nat \<Rightarrow> nat \<Rightarrow> nat \<Rightarrow> nat \<Rightarrow> bool" where
  "residues_full x e m 0 r = True"
| "residues_full x e m (Suc i) r =
     (let s = r * r mod m
      in full_words r \<and> full_words s \<and>
         residues_full x e m i (if odd (e div 2 ^ i) then x * s mod m else s))"

lemma residues_full_powers:
  "residues_full x e m i (x ^ (e div 2 ^ i) mod m) \<Longrightarrow> j < i \<Longrightarrow>
   full_words (x ^ (e div 2 ^ Suc j) mod m) \<and> full_words (x ^ (2 * (e div 2 ^ Suc j)) mod m)"
proof (induction i arbitrary: j)
  case (Suc i)
  let ?r = "x ^ (e div 2 ^ Suc i) mod m"
  have s: "?r * ?r mod m = x ^ (2 * (e div 2 ^ Suc i)) mod m"
    unfolding power_twice by (rule mod_mult_eq)
  have n: "(if odd (e div 2 ^ i) then x * (?r * ?r mod m) mod m else ?r * ?r mod m) = x ^ (e div 2 ^ i) mod m"
  proof -
    have "x ^ (e div 2 ^ i) = x ^ (2 * (e div 2 ^ Suc i)) * (if odd (e div 2 ^ i) then x else 1)"
      by (subst exponent_step [of e i]) (simp add: power_add bit_iff_odd)
    then show ?thesis unfolding s by (simp add: mod_mult_right_eq mult.commute)
  qed
  show ?case
  proof (cases "j = i")
    case True
    with Suc.prems(1) s show ?thesis by (simp only: residues_full.simps Let_def)
  next
    case False
    have "residues_full x e m i (x ^ (e div 2 ^ i) mod m)"
      using Suc.prems(1) n by (simp only: residues_full.simps Let_def)
    with Suc.IH Suc.prems(2) False show ?thesis by simp
  qed
qed simp

lemma word_of_value:
  "i < l \<Longrightarrow> sval l xs div 2 ^ (32 * i) mod 2 ^ 32 = unat (xs ! i)"
proof -
  assume "i < l"
  then have "sval l xs div 2 ^ (32 * i) = top_words xs l (Suc (l - Suc i))"
    by (subst top_words_div) simp_all
  also have "\<dots> mod 2 ^ 32 = unat (xs ! (l - Suc (l - Suc i)))"
    unfolding top_words.simps by (subst mod_mult_self3) simp
  finally show ?thesis using \<open>i < l\<close> by simp
qed

lemma full_words_nth:
  assumes "big_normal y" "m_iLength32 y \<le> 64" "0 < big_val y" "full_words (big_val y)" "i < m_iLength32 y"
  shows "m_ulValue y ! i \<noteq> 0"
proof -
  have "2 ^ (32 * i) \<le> big_val y"
  proof (cases "m_iLength32 y = 1")
    case True
    with assms show ?thesis by simp
  next
    case False
    have "(2 :: nat) ^ (32 * i) \<le> 2 ^ (32 * (m_iLength32 y - 1))"
      using assms(5) by (intro power_increasing) auto
    then show ?thesis using big_normal_ge [OF assms(1) False] by linarith
  qed
  then have "big_val y div 2 ^ (32 * i) mod 2 ^ 32 \<noteq> 0"
    using assms by (intro full_digits_nth [of 64]) (simp_all add: full_words_def)
  then show ?thesis using word_of_value [OF assms(5), of "m_ulValue y"] by (auto simp: big_val_def)
qed

definition good_num :: "SBigInt \<Rightarrow> SBigInt \<Rightarrow> bool" where
  "good_num sN x \<longleftrightarrow> big_normal x \<and> m_iLength32 x \<le> m_iLength32 sN \<and> m_iLength32 sN \<le> 64"

lemma good_num_small: "good_num sN x \<Longrightarrow> small sN x"
  by (simp add: good_num_def small_def)

text \<open>A product of a unit with less than the modulus is never zero, so every partial product
  has a nonzero top word, and no reduction meets a leading zero word.\<close>

lemma unit_product_nonzero:
  assumes "coprime (x :: nat) m" "0 < p" "p < m"
  shows "x * p mod m \<noteq> 0"
proof
  assume "x * p mod m = 0"
  then have "m dvd x * p" by (simp add: mod_eq_0_iff_dvd)
  then have "m dvd p" using assms(1) by (simp add: coprime_commute coprime_dvd_mult_right_iff)
  with assms(2,3) show False by (simp add: nat_dvd_not_less)
qed

lemma top_words_pos: "unat (ys ! (l - 1)) \<noteq> 0 \<Longrightarrow> 0 < top_words ys l (Suc n)"
  by (induction n) simp_all

lemma partial_product_nonzero:
  assumes "coprime (big_val x) m" "big_val y < m" "m_ulValue y ! (m_iLength32 y - 1) \<noteq> 0"
    "1 \<le> n" "n \<le> m_iLength32 y"
  shows "big_val x * top_words (m_ulValue y) (m_iLength32 y) n mod m \<noteq> 0"
proof (rule unit_product_nonzero [OF assms(1)])
  obtain k where "n = Suc k" using assms(4) by (cases n) auto
  then show "0 < top_words (m_ulValue y) (m_iLength32 y) n"
    using assms(3) top_words_pos [of "m_ulValue y" "m_iLength32 y" k] by (simp add: unsigned_eq_0_iff)
  show "top_words (m_ulValue y) (m_iLength32 y) n < m"
    using top_words_le [OF assms(5), of "m_ulValue y"] assms(2) by (simp add: big_val_def)
qed

lemma mulmod_loop_total:
  assumes "good_num sN x" "0 < big_val x" "coprime (big_val x) (big_val sN)" "big_val y < big_val sN"
    "\<And>i. i < m_iLength32 y \<Longrightarrow> m_ulValue y ! i \<noteq> 0" "modulus sN" "1 \<le> n" "n \<le> m_iLength32 y" "good_num sN t"
    "big_val t = big_val x * top_words (m_ulValue y) (m_iLength32 y) n mod big_val sN"
  shows "\<exists>r. mulmod_loop x y sN n t = Some r \<and> good_num sN r"
  using assms
proof (induction x y sN n t rule: mulmod_loop.induct)
  case (1 x y sN n t)
  let ?l = "m_iLength32 y" and ?w = "ucast (m_ulValue y ! (m_iLength32 y - n - 1)) :: u64"
  show ?case
  proof (cases "n < ?l")
    case True
    have top: "m_ulValue y ! (?l - 1) \<noteq> 0" using "1.prems"(5) [of "?l - 1"] True by simp
    have tp: "0 < big_val t"
      unfolding "1.prems"(10) using partial_product_nonzero [OF "1.prems"(3,4) top "1.prems"(7,8)] by simp
    have tt: "m_ulValue t ! (m_iLength32 t - 1) \<noteq> 0"
      using normal_top [OF _ tp] "1.prems"(9) by (simp add: good_num_def)
    obtain t1 where t1: "shift_up t = Some t1" "big_wf t1" "big_val t1 = big_val t * 2 ^ 32"
      "m_iLength32 t1 = m_iLength32 t + 1" "m_ulValue t1 ! (m_iLength32 t1 - 1) = m_ulValue t ! (m_iLength32 t - 1)"
      by (rule shift_up_correct [of t]) (use "1.prems"(9) in \<open>auto simp: good_num_def\<close>)
    have n1: "big_normal t1" using t1 tt by (simp add: big_normal_def)
    have w: "unat ?w = unat (m_ulValue y ! (?l - Suc n))" by (simp add: unat_ucast_32_64)
    have "m_ulValue y ! (?l - Suc n) \<noteq> 0" using "1.prems"(5) True by simp
    then have w0: "0 < unat ?w" by (simp only: w unat_gt_0) simp
    obtain t2 where t2: "Mul_long x ?w = Some t2" "big_normal t2" "big_val t2 = big_val x * unat ?w"
      "m_iLength32 t2 \<le> m_iLength32 x + 1"
      by (rule Mul_long_normal [of x ?w]) (use "1.prems"(1) w0 in \<open>auto simp: good_num_def unat_ucast_32_64\<close>)
    obtain t3 where t3: "Add_bigint t1 t2 = Some t3" "big_normal t3" "big_val t3 = big_val t1 + big_val t2"
      by (rule Add_bigint_normal [of t1 t2]) (use t1 n1 t2 "1.prems" in \<open>auto simp: good_num_def\<close>)
    obtain t4 where t4: "Mod_bigint t3 sN = Some t4" "good_num sN t4" "big_val t4 = big_val t3 mod big_val sN"
      by (rule Mod_bigint_normal [of t3 sN]) (use t3 "1.prems"(6) in \<open>auto simp: modulus_def good_num_def\<close>)
    have "big_val t3 mod big_val sN = big_val x * top_words (m_ulValue y) ?l (n + 1) mod big_val sN"
      using horner_mod [OF "1.prems"(10), of "2 ^ 32" "unat ?w"]
      by (simp only: t3(3) t1(3) t2(3) w top_words.simps Suc_eq_plus1 [symmetric])
    with t4(3) have t4': "big_val t4 = big_val x * top_words (m_ulValue y) ?l (n + 1) mod big_val sN" by simp
    have "\<exists>r. mulmod_loop x y sN (n + 1) t4 = Some r \<and> good_num sN r"
      by (rule "1.IH" [OF True t1(1) t2(1) t3(1) t4(1) "1.prems"(1-4) _ "1.prems"(6) _ _ t4(2) t4'])
        (use "1.prems"(5) True in simp_all)
    moreover have "mulmod_loop x y sN n t = mulmod_loop x y sN (n + 1) t4"
      using True t1(1) t2(1) t3(1) t4(1) by (subst mulmod_loop.simps) simp
    ultimately show ?thesis by simp
  next
    case False
    then show ?thesis using "1.prems"(9) by (simp add: mulmod_loop.simps)
  qed
qed

lemma mulmod_total:
  assumes "modulus sN" "good_num sN x" "good_num sN y" "coprime (big_val x) (big_val sN)"
    "coprime (big_val y) (big_val sN)" "big_val y < big_val sN" "full_words (big_val y)"
  shows "\<exists>r. mulmod sN x y = Some r \<and> good_num sN r"
proof -
  let ?w = "ucast (m_ulValue y ! (m_iLength32 y - 1)) :: u64"
  have N: "1 < big_val sN" using assms(1) by (simp add: modulus_def)
  have p: "0 < big_val x" "0 < big_val y"
    using assms(4,5) N by (auto intro!: Nat.gr0I simp del: unsigned_less)
  have nz: "m_ulValue y ! i \<noteq> 0" if "i < m_iLength32 y" for i
    using full_words_nth [OF _ _ p(2) assms(7) that] assms(3) by (simp add: good_num_def)
  have l: "1 \<le> m_iLength32 y" using assms(3) by (simp add: good_num_def big_normal_def big_wf_def)
  have w: "unat ?w = top_words (m_ulValue y) (m_iLength32 y) 1" by (simp add: unat_ucast_32_64)
  have "m_ulValue y ! (m_iLength32 y - 1) \<noteq> 0" using nz l by simp
  then have w0: "0 < unat ?w" by (simp only: unat_ucast_32_64 unat_gt_0) simp
  obtain t1 where t1: "Mul_long x ?w = Some t1" "big_normal t1" "big_val t1 = big_val x * unat ?w"
    by (rule Mul_long_normal [of x ?w]) (use assms(2) w0 in \<open>auto simp: good_num_def unat_ucast_32_64\<close>)
  obtain t where t: "Mod_bigint t1 sN = Some t" "good_num sN t" "big_val t = big_val t1 mod big_val sN"
    by (rule Mod_bigint_normal [of t1 sN]) (use t1 assms(1) in \<open>auto simp: modulus_def good_num_def\<close>)
  have v: "big_val t = big_val x * top_words (m_ulValue y) (m_iLength32 y) 1 mod big_val sN"
    by (simp only: t(3) t1(3) w)
  have "\<exists>r. mulmod_loop x y sN 1 t = Some r \<and> good_num sN r"
    by (rule mulmod_loop_total [OF assms(2) p(1) assms(4,6) nz assms(1) _ l t(2) v]) simp_all
  then show ?thesis using t1(1) t(1) by (simp add: mulmod_def)
qed

interpretation mmt: total_modular_product "mulmod sN" big_val "\<lambda>x. modulus sN \<and> small sN x" "big_val sN"
  "\<lambda>x. modulus sN \<and> good_num sN x" full_words for sN
  by unfold_locales (use mulmod_total good_num_small in blast)+

section \<open>The exponent\<close>

lemma bit_of_value:
  assumes "i div 32 < l"
  shows "bit (sval l xs) i \<longleftrightarrow> drop_bit (i mod 32) (xs ! (i div 32)) AND 1 \<noteq> 0"
proof -
  define q r where "q = i div 32" and "r = i mod 32"
  have i: "i = 32 * q + r" and r: "r < 32" by (simp_all add: q_def r_def)
  have "bit (sval l xs) i = bit (drop_bit (32 * q) (sval l xs)) r"
    by (simp only: i bit_drop_bit_eq comp_apply)
  also have "\<dots> = bit (take_bit 32 (drop_bit (32 * q) (sval l xs))) r"
    by (simp only: bit_take_bit_iff r simp_thms)
  also have "take_bit 32 (drop_bit (32 * q) (sval l xs)) = unat (xs ! q)"
    using word_of_value [of q l xs] assms by (simp only: take_bit_eq_mod drop_bit_eq_div q_def)
  also have "bit (unat (xs ! q)) r = bit (xs ! q) r"
    using r by (auto simp: bit_unsigned_iff dest: bit_imp_le_length)
  also have "\<dots> \<longleftrightarrow> drop_bit r (xs ! q) AND 1 \<noteq> 0"
    by (simp add: and_one_eq bit_iff_odd_drop_bit odd_iff_mod_2_eq_one)
  finally show ?thesis by (simp only: q_def r_def)
qed

lemma rsa_loop_sqm:
  "i \<le> 32 * m_iLength32 sE \<Longrightarrow> rsa_loop x sE sN i out = sqm_loop (mulmod sN) x (big_val sE) i out"
proof (induction i arbitrary: out)
  case (Suc i)
  then have "bit (big_val sE) i \<longleftrightarrow> drop_bit (i mod 32) (m_ulValue sE ! (i div 32)) AND 1 \<noteq> 0"
    unfolding big_val_def by (intro bit_of_value) auto
  moreover have "rsa_loop x sE sN i = sqm_loop (mulmod sN) x (big_val sE) i"
    by (rule ext, rule Suc.IH) (use Suc.prems in simp)
  ultimately show ?case by simp
qed simp

lemma num_bits_correct:
  "n \<noteq> 0 \<Longrightarrow> 1 \<le> num_bits n \<and> unat n div 2 ^ (num_bits n - 1) = 1"
proof (induction n rule: num_bits.induct)
  case (1 n)
  have d: "unat (drop_bit 1 n) = unat n div 2" by (simp add: drop_bit_eq_div unat_div_distrib)
  have b: "num_bits n = Suc (num_bits (drop_bit 1 n))" using "1.prems" by (subst num_bits.simps) simp
  show ?case
  proof (cases "drop_bit 1 n = 0")
    case True
    then have "unat n div 2 = 0" using d by (simp only: unsigned_0)
    moreover have "unat n \<noteq> 0" using "1.prems" by (simp add: unsigned_eq_0_iff)
    moreover have "num_bits (drop_bit 1 n) = 0" using True by (simp add: num_bits.simps)
    ultimately show ?thesis using b by simp
  next
    case False
    define k where "k = num_bits (drop_bit 1 n)"
    have k: "1 \<le> k" "unat n div 2 div 2 ^ (k - 1) = 1"
      using "1.IH" [OF "1.prems" False] by (simp_all only: k_def d)
    have "num_bits n - 1 = Suc (k - 1)" using b k(1) by (simp add: k_def)
    then have "unat n div 2 ^ (num_bits n - 1) = unat n div 2 div 2 ^ (k - 1)"
      by (simp only: power_Suc div_mult2_eq)
    with k(2) b show ?thesis by simp
  qed
qed

lemma exponent_top:
  assumes "big_normal sE" "0 < big_val sE"
  defines "k \<equiv> m_iLength32 sE * 32 - 32 + num_bits (ucast (m_ulValue sE ! (m_iLength32 sE - 1)))"
  shows "big_val sE div 2 ^ (k - 1) = 1" and "k - 1 \<le> 32 * m_iLength32 sE"
proof -
  define w :: u64 where "w = ucast (m_ulValue sE ! (m_iLength32 sE - 1))"
  define L where "L = m_iLength32 sE - 1"
  have L: "m_iLength32 sE = Suc L" using big_wf_len [of sE] assms(1) by (simp add: L_def)
  have u: "unat w = unat (m_ulValue sE ! L)" by (simp add: w_def L_def unat_ucast_32_64)
  have "unat w \<noteq> 0" using normal_top [OF assms(1,2)] by (simp add: u L_def unsigned_eq_0_iff)
  then have w0: "w \<noteq> 0" by auto
  note nb = num_bits_correct [OF w0]
  have k: "k - 1 = 32 * L + (num_bits w - 1)" 
    unfolding k_def w_def [symmetric] unfolding L using nb by simp
  have "big_val sE div 2 ^ (32 * L) = unat w"
    using top_words_div [of 1 "Suc L" "m_ulValue sE"] by (simp add: big_val_def L u)
  then show "big_val sE div 2 ^ (k - 1) = 1" using nb by (simp only: k power_add div_mult2_eq)
  have "num_bits w - 1 < 32"
  proof (rule ccontr)
    assume "\<not> num_bits w - 1 < 32"
    then have "(2 :: nat) ^ 32 \<le> 2 ^ (num_bits w - 1)" by (intro power_increasing) auto
    moreover have "unat w < 2 ^ 32" by (simp add: u)
    ultimately have "unat w div 2 ^ (num_bits w - 1) = 0" by (intro div_less) linarith
    with nb show False by simp
  qed
  then show "k - 1 \<le> 32 * m_iLength32 sE" unfolding k L by simp
qed

text \<open>The result, when there is one, is the power; and there is one when the base is a unit
  and no residue of the computation has a zero word.\<close>

lemma RsaTrans_sound_aux:
  assumes "modulus sN" "small sN x" "big_normal sE" "0 < big_val sE" "RsaTrans x sE sN = Some r"
  shows "small sN r \<and> big_val r mod big_val sN = big_val x ^ big_val sE mod big_val sN \<and>
    (r = x \<or> big_val r < big_val sN)"
proof -
  define k where "k = m_iLength32 sE * 32 - 32 + num_bits (ucast (m_ulValue sE ! (m_iLength32 sE - 1)))"
  note top = exponent_top [OF assms(3,4), folded k_def]
  have w: "big_wf x" using assms(2) by (simp add: small_def)
  have "sqm_loop (mulmod sN) x (big_val sE) (k - 1) x = Some r"
    using assms(5) rsa_loop_sqm [OF top(2)] by (simp add: RsaTrans_def Let_def w k_def)
  then have "(modulus sN \<and> small sN r) \<and> big_val r mod big_val sN = big_val x ^ big_val sE mod big_val sN \<and>
    (r = x \<or> big_val r < big_val sN \<or> big_val sN = 0)"
    by (rule mm.sqm_loop_sound [rotated 3]) (use assms(1,2) top(1) in simp_all)
  with assms(1) show ?thesis by (auto simp: modulus_def)
qed

lemma RsaTrans_total_aux:
  assumes "modulus sN" "good_num sN x" "big_normal sE" "0 < big_val sE" "big_val x < big_val sN"
    "coprime (big_val x) (big_val sN)"
    "residues_full (big_val x) (big_val sE) (big_val sN)
       (m_iLength32 sE * 32 - 32 + num_bits (ucast (m_ulValue sE ! (m_iLength32 sE - 1))) - 1) (big_val x)"
  shows "\<exists>r. RsaTrans x sE sN = Some r"
proof -
  define k where "k = m_iLength32 sE * 32 - 32 + num_bits (ucast (m_ulValue sE ! (m_iLength32 sE - 1)))"
  note top = exponent_top [OF assms(3,4), folded k_def]
  have w: "big_wf x" using assms(2) by (simp add: good_num_def)
  have "residues_full (big_val x) (big_val sE) (big_val sN) (k - 1)
      (big_val x ^ (big_val sE div 2 ^ (k - 1)) mod big_val sN)"
    using assms(5,7) top(1) by (simp only: k_def power_one_right mod_less)
  note full = residues_full_powers [OF this]
  have "\<exists>r. sqm_loop (mulmod sN) x (big_val sE) (k - 1) x = Some r \<and> modulus sN \<and> good_num sN r"
    by (rule mmt.sqm_loop_total) (use assms(1-6) top(1) full in \<open>simp_all add: modulus_def\<close>)
  then show ?thesis
    using rsa_loop_sqm [OF top(2)] by (auto simp: RsaTrans_def Let_def w k_def)
qed

text \<open>The bit position the loop starts below is the one of the exponent's top bit.\<close>

lemma top_bit_unique: "n div 2 ^ i = 1 \<Longrightarrow> n div 2 ^ j = 1 \<Longrightarrow> i = (j :: nat)" for n :: nat
proof (induction i j rule: linorder_wlog)
  case (le i j)
  show ?case
  proof (rule ccontr)
    assume "i \<noteq> j"
    then obtain d where "j = i + Suc d" using le(1) by (metis le_Suc_ex le_neq_implies_less less_iff_Suc_add add_Suc_right)
    then have "n div 2 ^ j = n div 2 ^ i div 2 ^ Suc d" by (simp only: power_add div_mult2_eq)
    with le(2,3) have "1 div (2 :: nat) ^ Suc d = 1" by simp
    moreover have "1 div (2 :: nat) ^ Suc d = 0" by (intro div_less one_less_power) simp_all
    ultimately show False by simp
  qed
qed simp

text \<open>The residues of concrete numbers, evaluated.\<close>

definition after_square :: "nat \<Rightarrow> nat \<Rightarrow> nat \<Rightarrow> nat \<Rightarrow> nat \<Rightarrow> bool" where
  "after_square x e m i s =
     (if full_words s then residues_full x e m i (if odd (e div 2 ^ i) then x * s mod m else s) else False)"

lemma residues_numeral:
  "residues_full x e m (numeral n) r =
     (if full_words r then after_square x e m (pred_numeral n) (r * r mod m) else False)"
  "full_digits (numeral n) v =
     (if v = 0 then True else if v mod 2 ^ 32 = 0 then False else full_digits (pred_numeral n) (v div 2 ^ 32))"
  by (simp_all only: numeral_eq_Suc residues_full.simps full_digits.simps Let_def after_square_def) auto

section \<open>Properties\<close>

text \<open>
  C4: on a base that is a unit below the modulus, \<open>RsaTrans\<close> returns, and what it returns is the
  power of the base modulo \<open>sN\<close>.  The hypothesis on the residues, that none of them has a
  zero word, is what keeps the reductions inside their arrays; \<open>i\<close> is the position of the
  exponent's top bit.
\<close>

theorem RsaTrans_total:
  assumes "modulus sN" "good_num sN x" "big_normal sE" "big_val x < big_val sN"
    "coprime (big_val x) (big_val sN)" "big_val sE div 2 ^ i = 1"
    "residues_full (big_val x) (big_val sE) (big_val sN) i (big_val x)"
  shows "\<exists>r. RsaTrans x sE sN = Some r \<and> big_val r = big_val x ^ big_val sE mod big_val sN"
proof -
  have e: "0 < big_val sE" using assms(6) by (cases "big_val sE = 0") auto
  have "i = m_iLength32 sE * 32 - 32 + num_bits (ucast (m_ulValue sE ! (m_iLength32 sE - 1))) - 1"
    by (rule top_bit_unique [OF assms(6)]) (use exponent_top(1) [OF assms(3) e] in simp)
  then obtain r where r: "RsaTrans x sE sN = Some r"
    using RsaTrans_total_aux [OF assms(1-3) e assms(4,5)] assms(7) by blast
  with RsaTrans_sound_aux [OF assms(1) good_num_small [OF assms(2)] assms(3) e r] assms(4)
  show ?thesis by auto
qed

theorem RsaTrans_total_witness:
  "\<exists>r. RsaTrans (Mov_long 3) (Mov_long 5) (Mov_long 7) = Some r \<and>
    big_val r = big_val (Mov_long 3) ^ big_val (Mov_long 5) mod big_val (Mov_long 7)"
proof (rule RsaTrans_total [where i = 2])
  have "coprime 3 (7 :: nat)" by (simp add: coprime_iff_gcd_eq_1 gcd_non_0_nat)
  then show "coprime (big_val (Mov_long 3)) (big_val (Mov_long 7))" by (simp add: Mov_long_val)
  have "residues_full 3 5 7 2 3" by (simp add: residues_numeral after_square_def full_words_def)
  then show "residues_full (big_val (Mov_long 3)) (big_val (Mov_long 5)) (big_val (Mov_long 7)) 2 (big_val (Mov_long 3))"
    by (simp add: Mov_long_val)
qed (simp_all add: modulus_def good_num_def Mov_long_val Mov_long_len)

text \<open>
  Whenever \<open>RsaTrans\<close> returns a number, for any base of the modulus's length and any
  nonzero exponent, that number is the power modulo \<open>sN\<close>: the code never returns a
  wrong power.
\<close>

theorem RsaTrans_sound:
  assumes "modulus sN" "small sN x" "big_val x < big_val sN" "big_normal sE" "0 < big_val sE"
    "RsaTrans x sE sN = Some r"
  shows "big_val r = big_val x ^ big_val sE mod big_val sN"
  using RsaTrans_sound_aux [OF assms(1,2,4,5,6)] assms(3) by auto

theorem RsaTrans_sound_witness:
  "big_val (Mov_long 3) = big_val (Mov_long 3) ^ big_val (Mov_long 1) mod big_val (Mov_long 7)"
proof (rule RsaTrans_sound)
  have "num_bits 1 = 1" by (simp add: num_bits.simps)
  then have "num_bits (ucast (m_ulValue (Mov_long 1) ! (m_iLength32 (Mov_long 1) - 1))) = 1"
    by (simp add: Mov_long_def)
  then show "RsaTrans (Mov_long 3) (Mov_long 1) (Mov_long 7) = Some (Mov_long 3)"
    by (simp add: RsaTrans_def Let_def Mov_long_len)
qed (simp_all add: modulus_def small_def Mov_long_val Mov_long_len)

end
