(* ===== verification/Pk1.thy ===== *)
theory Pk1
  imports Prelude
begin

text \<open>
  The block formats of \<^verbatim>\<open>signimage/source/common/pk1/src/pk1.c\<close>: adding and checking the PKCS#1
  padding of types 1 and 2, and the byte reversal the big integers are read with.
  \<open>None\<close> is an access outside a buffer; the \<open>int\<close> is the function's return value and
  comes with the new contents of \<open>to\<close>.  The lemmas give the exact set of blocks
  the checks accept.
\<close>

definition RSA_PKCS1_PADDING_SIZE :: int where
  "RSA_PKCS1_PADDING_SIZE = 11"

function invert_loop :: "nat \<Rightarrow> nat \<Rightarrow> u8 list \<Rightarrow> u8 list" where
  "invert_loop i j src =
     (if i < j then invert_loop (i + 1) (j - 1) (src[i := src ! j, j := src ! i]) else src)"
  by pat_completeness auto
termination
  by (relation "measure (\<lambda>(i, j, src). j - i)") auto

definition invert_char :: "u8 list \<Rightarrow> nat \<Rightarrow> u8 list" where
  "invert_char src len = invert_loop 0 (len - 1) src"

definition get_rand_bytes :: "nat \<Rightarrow> int \<times> u8 list" where
  "get_rand_bytes num = (1, replicate num 0xAA)"

definition padding_add_PKCS1_type_1 ::
  "u8 list \<Rightarrow> nat \<Rightarrow> u8 list \<Rightarrow> nat \<Rightarrow> (int \<times> u8 list) option" where
  "padding_add_PKCS1_type_1 to tlen src flen =
     (if int flen > int tlen - RSA_PKCS1_PADDING_SIZE then Some (0, to)
      else let j = tlen - 3 - flen
           in Option.bind (mem_read src 0 flen) (\<lambda>msg.
              Option.bind (mem_write to 0 ([0, 1] @ replicate j 0xff @ [0] @ msg)) (\<lambda>to.
              Some (1, to))))"

text \<open>The scan over the padding, at counter \<open>i\<close> and pointer \<open>p\<close>: \<open>None\<close> is the return of -1
  on a byte that is neither \<open>0xff\<close> nor zero, otherwise the values of \<open>i\<close> and \<open>p\<close> after
  the loop.\<close>

function check_1_scan :: "u8 list \<Rightarrow> nat \<Rightarrow> nat \<Rightarrow> nat \<Rightarrow> (nat \<times> nat) option" where
  "check_1_scan src j i p =
     (if i < j
      then if src ! p \<noteq> 0xff
           then if src ! p = 0 then Some (i, p + 1) else None
           else check_1_scan src j (i + 1) (p + 1)
      else Some (i, p))"
  by pat_completeness auto
termination
  by (relation "measure (\<lambda>(from, j, i, p). j - i)") auto

definition padding_check_PKCS1_type_1 ::
  "u8 list \<Rightarrow> nat \<Rightarrow> u8 list \<Rightarrow> nat \<Rightarrow> nat \<Rightarrow> (int \<times> u8 list) option" where
  "padding_check_PKCS1_type_1 to tlen src flen num =
     (if num \<noteq> flen + 1 then Some (-1, to)
      else if flen = 0 \<or> length src < flen then None
      else if src ! 0 \<noteq> 1 then Some (-1, to)
      else let j = flen - 1
           in case check_1_scan src j 0 1 of
                None \<Rightarrow> Some (-1, to)
              | Some (i, p) \<Rightarrow>
                  if i = j \<or> i < 8 then Some (-1, to)
                  else let n = j - (i + 1)
                       in if n > tlen then Some (-1, to)
                          else Option.bind (mem_read src p n) (\<lambda>msg.
                               Option.bind (mem_write to 0 msg) (\<lambda>to. Some (int n, to))))"

text \<open>The \<open>do ... while (*p == 0)\<close> of the type 2 padding.\<close>

partial_function (option) retry_byte :: "unit \<Rightarrow> (u8 option) option" where
  "retry_byte u =
     (let (r, bs) = get_rand_bytes 1
      in if r \<le> 0 then Some None
         else if bs ! 0 = 0 then retry_byte u else Some (Some (bs ! 0)))"

fun fill_nonzero :: "u8 list \<Rightarrow> (u8 list option) option" where
  "fill_nonzero [] = Some (Some [])"
| "fill_nonzero (b # bs) =
     Option.bind (if b = 0 then retry_byte () else Some (Some b)) (\<lambda>c. case c of
       None \<Rightarrow> Some None
     | Some c \<Rightarrow> Option.bind (fill_nonzero bs) (\<lambda>cs. Some (map_option (\<lambda>cs. c # cs) cs)))"

text \<open>The two early returns of 0 leave the bytes written so far in \<open>to\<close>; \<open>get_rand_bytes\<close> never
  fails, so neither is taken and \<open>to\<close> is given back as it was.\<close>

definition padding_add_PKCS1_type_2 ::
  "u8 list \<Rightarrow> nat \<Rightarrow> u8 list \<Rightarrow> nat \<Rightarrow> (int \<times> u8 list) option" where
  "padding_add_PKCS1_type_2 to tlen src flen =
     (if int flen > int tlen - 11 then Some (0, to)
      else let j = tlen - 3 - flen; (r, pad) = get_rand_bytes j
           in if r \<le> 0 then Some (0, to)
              else Option.bind (fill_nonzero pad) (\<lambda>pad'. case pad' of
                     None \<Rightarrow> Some (0, to)
                   | Some ps \<Rightarrow>
                       Option.bind (mem_read src 0 flen) (\<lambda>msg.
                       Option.bind (mem_write to 0 ([0, 2] @ ps @ [0] @ msg)) (\<lambda>to.
                       Some (1, to)))))"

function check_2_scan :: "u8 list \<Rightarrow> nat \<Rightarrow> nat \<Rightarrow> nat \<Rightarrow> nat \<times> nat" where
  "check_2_scan src j i p =
     (if i < j
      then if src ! p = 0 then (i, p + 1) else check_2_scan src j (i + 1) (p + 1)
      else (i, p))"
  by pat_completeness auto
termination
  by (relation "measure (\<lambda>(from, j, i, p). j - i)") auto

definition padding_check_PKCS1_type_2 ::
  "u8 list \<Rightarrow> nat \<Rightarrow> u8 list \<Rightarrow> nat \<Rightarrow> nat \<Rightarrow> (int \<times> u8 list) option" where
  "padding_check_PKCS1_type_2 to tlen src flen num =
     (if num \<noteq> flen + 1 then Some (-1, to)
      else if flen = 0 \<or> length src < flen then None
      else if src ! 0 \<noteq> 2 then Some (-1, to)
      else let j = flen - 1; (i, p) = check_2_scan src j 0 1
           in if i = j \<or> i < 8 then Some (-1, to)
              else let n = j - (i + 1)
                   in if n > tlen then Some (-1, to)
                      else Option.bind (mem_read src p n) (\<lambda>msg.
                           Option.bind (mem_write to 0 msg) (\<lambda>to. Some (int n, to))))"

declare invert_loop.simps [simp del] check_1_scan.simps [simp del] check_2_scan.simps [simp del]

section \<open>Reversal\<close>

lemma invert_loop_correct:
  "j < length xs \<Longrightarrow> length (invert_loop i j xs) = length xs \<and>
   (\<forall>k<length xs. invert_loop i j xs ! k = (if i \<le> k \<and> k \<le> j then xs ! (i + j - k) else xs ! k))"
proof (induction i j xs rule: invert_loop.induct)
  case (1 i j xs)
  show ?case
  proof (cases "i < j")
    case True
    define ys where "ys = xs[i := xs ! j, j := xs ! i]"
    have IH: "length (invert_loop (i + 1) (j - 1) ys) = length xs"
      "k < length xs \<Longrightarrow> invert_loop (i + 1) (j - 1) ys ! k =
         (if i + 1 \<le> k \<and> k \<le> j - 1 then ys ! (i + 1 + (j - 1) - k) else ys ! k)" for k
      using "1.IH" [OF True] "1.prems" by (simp_all add: ys_def)
    have e: "invert_loop i j xs = invert_loop (i + 1) (j - 1) ys"
      using True by (subst invert_loop.simps) (simp add: ys_def)
    have "invert_loop i j xs ! k = (if i \<le> k \<and> k \<le> j then xs ! (i + j - k) else xs ! k)"
      if k: "k < length xs" for k
    proof -
      consider "k = i" | "k = j" "k \<noteq> i" | "i < k" "k < j" | "k < i \<or> j < k" by linarith
      then show ?thesis
        unfolding e IH(2) [OF k] using True k "1.prems" by cases (auto simp: ys_def nth_list_update)
    qed
    then show ?thesis using IH(1) e by simp
  next
    case False
    then have "invert_loop i j xs = xs" by (subst invert_loop.simps) simp
    moreover have "i + j - k = k" if "i \<le> k" "k \<le> j" for k using that False by linarith
    ultimately show ?thesis by simp
  qed
qed

lemma invert_char_rev: "len \<le> length xs \<Longrightarrow> invert_char xs len = rev (take len xs) @ drop len xs"
proof (cases "len = 0")
  case True
  then show ?thesis by (simp add: invert_char_def invert_loop.simps)
next
  case False
  assume "len \<le> length xs"
  with False show ?thesis
    using invert_loop_correct [of "len - 1" xs 0]
    by (intro nth_equalityI) (auto simp: invert_char_def nth_append rev_nth)
qed

section \<open>Which blocks the checks accept\<close>

text \<open>A block of type \<open>b\<close>: the type byte, padding bytes that satisfy \<open>P\<close>, a zero byte
  and the message.\<close>

definition pkcs_block :: "u8 \<Rightarrow> (u8 \<Rightarrow> bool) \<Rightarrow> u8 list \<Rightarrow> u8 list \<Rightarrow> u8 list \<Rightarrow> bool" where
  "pkcs_block b P pad msg xs \<longleftrightarrow> xs = b # pad @ 0 # msg \<and> (\<forall>x\<in>set pad. P x)"

lemma pkcs_block_nth:
  assumes "flen \<le> length src" "k + 2 \<le> flen"
  shows "(\<exists>pad. pkcs_block b P pad (take (flen - k - 2) (drop (k + 2) src)) (take flen src) \<and> length pad = k)
    \<longleftrightarrow> src ! 0 = b \<and> (\<forall>m<k. P (src ! (1 + m))) \<and> src ! (1 + k) = 0" (is "?L \<longleftrightarrow> ?R")
proof -
  define xs where "xs = take flen src"
  have l: "length xs = flen" and n: "\<And>i. i < flen \<Longrightarrow> xs ! i = src ! i" using assms by (simp_all add: xs_def)
  have m: "take (flen - k - 2) (drop (k + 2) src) = drop (k + 2) xs"
    using assms by (simp add: xs_def drop_take)
  have split: "xs = xs ! 0 # take k (drop 1 xs) @ xs ! (1 + k) # drop (k + 2) xs"
  proof -
    have "xs = xs ! 0 # drop 1 xs" using l assms by (cases xs) auto
    moreover have "drop 1 xs = take k (drop 1 xs) @ drop (1 + k) xs"
      by (metis append_take_drop_id drop_drop add.commute)
    moreover have "drop (1 + k) xs = xs ! (1 + k) # drop (k + 2) xs"
      using l assms by (simp add: Cons_nth_drop_Suc)
    ultimately show ?thesis by metis
  qed
  have "?L \<longleftrightarrow> (\<exists>pad. xs = b # pad @ 0 # drop (k + 2) xs \<and> (\<forall>x\<in>set pad. P x) \<and> length pad = k)"
    by (simp only: pkcs_block_def m flip: xs_def) blast
  also have "\<dots> \<longleftrightarrow> xs ! 0 = b \<and> (\<forall>x\<in>set (take k (drop 1 xs)). P x) \<and> xs ! (1 + k) = 0"
  proof
    assume "\<exists>pad. xs = b # pad @ 0 # drop (k + 2) xs \<and> (\<forall>x\<in>set pad. P x) \<and> length pad = k"
    then obtain pad where p: "xs = b # pad @ 0 # drop (k + 2) xs" "\<forall>x\<in>set pad. P x" "length pad = k" by blast
    have "xs ! 0 = b" by (subst p(1)) simp
    moreover have "take k (drop 1 xs) = pad" by (subst p(1)) (simp add: p(3))
    moreover have "xs ! (1 + k) = 0" by (subst p(1)) (simp add: nth_append p(3))
    ultimately show "xs ! 0 = b \<and> (\<forall>x\<in>set (take k (drop 1 xs)). P x) \<and> xs ! (1 + k) = 0" using p(2) by simp
  next
    assume "xs ! 0 = b \<and> (\<forall>x\<in>set (take k (drop 1 xs)). P x) \<and> xs ! (1 + k) = 0"
    then show "\<exists>pad. xs = b # pad @ 0 # drop (k + 2) xs \<and> (\<forall>x\<in>set pad. P x) \<and> length pad = k"
      using split l assms by (intro exI [of _ "take k (drop 1 xs)"]) auto
  qed
  also have "(\<forall>x\<in>set (take k (drop 1 xs)). P x) \<longleftrightarrow> (\<forall>m<k. P (src ! (1 + m)))"
    using l assms n by (auto simp: all_set_conv_all_nth)
  finally show ?thesis using n assms by simp
qed

text \<open>Both scans, started at counter \<open>i\<close> and pointer \<open>i + 1\<close> with padding behind them, stop before
  the end exactly at the zero byte that ends the padding.\<close>

lemma check_1_scan_iff:
  assumes "i \<le> j" "\<forall>m<i. src ! (1 + m) = 0xff"
  shows "check_1_scan src j i (i + 1) = Some (k, p) \<and> k < j \<longleftrightarrow>
    k < j \<and> p = k + 2 \<and> (\<forall>m<k. src ! (1 + m) = 0xff) \<and> src ! (1 + k) = 0"
  using assms
proof (induction "j - i" arbitrary: i)
  case 0
  then have "check_1_scan src j i (i + 1) = Some (i, i + 1)" by (subst check_1_scan.simps) simp
  moreover have "src ! (1 + k) \<noteq> 0" if "k < j" using that 0 by auto
  ultimately show ?case using 0 by auto
next
  case (Suc d)
  then have ij: "i < j" by simp
  consider (pad) "src ! (i + 1) = 0xff" | (zero) "src ! (i + 1) = 0"
    | (bad) "src ! (i + 1) \<noteq> 0xff" "src ! (i + 1) \<noteq> 0" by blast
  then show ?case
  proof cases
    case pad
    then have "check_1_scan src j i (i + 1) = check_1_scan src j (Suc i) (Suc i + 1)"
      using ij by (subst check_1_scan.simps) simp
    with Suc.hyps(1) [of "Suc i"] Suc.hyps(2) Suc.prems pad ij show ?thesis by (simp add: less_Suc_eq all_conj_distrib)
  next
    case zero
    then have "check_1_scan src j i (i + 1) = Some (i, i + 2)" using ij by (subst check_1_scan.simps) simp
    moreover have "k = i" if "\<forall>m<k. src ! (1 + m) = 0xff" "src ! (1 + k) = 0"
      using that zero Suc.prems(2) by (cases k i rule: linorder_cases) auto
    ultimately show ?thesis using ij zero Suc.prems(2) by auto
  next
    case bad
    then have "check_1_scan src j i (i + 1) = None" using ij by (subst check_1_scan.simps) simp
    moreover have False if "\<forall>m<k. src ! (1 + m) = 0xff" "src ! (1 + k) = 0"
      using that bad Suc.prems(2) by (cases k i rule: linorder_cases) auto
    ultimately show ?thesis by auto
  qed
qed

lemma check_2_scan_iff:
  assumes "i \<le> j" "\<forall>m<i. src ! (1 + m) \<noteq> 0"
  shows "check_2_scan src j i (i + 1) = (k, p) \<and> k < j \<longleftrightarrow>
    k < j \<and> p = k + 2 \<and> (\<forall>m<k. src ! (1 + m) \<noteq> 0) \<and> src ! (1 + k) = 0"
  using assms
proof (induction "j - i" arbitrary: i)
  case 0
  then have "check_2_scan src j i (i + 1) = (i, i + 1)" by (subst check_2_scan.simps) simp
  moreover have "src ! (1 + k) \<noteq> 0" if "k < j" using that 0 by auto
  ultimately show ?case using 0 by auto
next
  case (Suc d)
  then have ij: "i < j" by simp
  show ?case
  proof (cases "src ! (i + 1) = 0")
    case False
    then have "check_2_scan src j i (i + 1) = check_2_scan src j (Suc i) (Suc i + 1)"
      using ij by (subst check_2_scan.simps) simp
    with Suc.hyps(1) [of "Suc i"] Suc.hyps(2) Suc.prems False ij show ?thesis by (simp add: less_Suc_eq all_conj_distrib)
  next
    case True
    then have "check_2_scan src j i (i + 1) = (i, i + 2)" using ij by (subst check_2_scan.simps) simp
    moreover have "k = i" if "\<forall>m<k. src ! (1 + m) \<noteq> 0" "src ! (1 + k) = 0"
      using that True Suc.prems(2) by (cases k i rule: linorder_cases) auto
    ultimately show ?thesis using ij True Suc.prems(2) by auto
  qed
qed

lemma check_1_scan_le: "i \<le> j \<Longrightarrow> check_1_scan src j i p = Some (k, q) \<Longrightarrow> k \<le> j"
proof (induction src j i p rule: check_1_scan.induct)
  case (1 src j i p)
  then show ?case by (subst (asm) (2) check_1_scan.simps) (auto split: if_splits)
qed

lemma check_2_scan_le: "i \<le> j \<Longrightarrow> check_2_scan src j i p = (k, q) \<Longrightarrow> k \<le> j"
proof (induction src j i p rule: check_2_scan.induct)
  case (1 src j i p)
  then show ?case by (subst (asm) (2) check_2_scan.simps) (auto split: if_splits)
qed

text \<open>What the two checks do once the scan has stopped.\<close>

definition check_accepts :: "u8 \<Rightarrow> (u8 \<Rightarrow> bool) \<Rightarrow> u8 list \<Rightarrow> nat \<Rightarrow> u8 list \<Rightarrow> nat \<Rightarrow> int \<Rightarrow> u8 list \<Rightarrow> bool" where
  "check_accepts b P to tlen src flen n to' \<longleftrightarrow>
     (\<exists>pad msg. pkcs_block b P pad msg (take flen src) \<and> 8 \<le> length pad \<and> length msg \<le> tlen \<and>
        n = int (length msg) \<and> to' = msg @ drop (length msg) to)"

lemma ex_unique_iff: "(\<And>k'. Q k' \<Longrightarrow> k' = k) \<Longrightarrow> (\<exists>k'. Q k') \<longleftrightarrow> Q k"
  by blast

lemma check_accepts_nth:
  assumes "flen \<le> length src" "1 \<le> flen"
  shows "check_accepts b P to tlen src flen n to' \<longleftrightarrow>
    (\<exists>k. 8 \<le> k \<and> k < flen - 1 \<and> src ! 0 = b \<and> (\<forall>m<k. P (src ! (1 + m))) \<and> src ! (1 + k) = 0 \<and>
       flen - k - 2 \<le> tlen \<and> n = int (flen - k - 2) \<and>
       to' = take (flen - k - 2) (drop (k + 2) src) @ drop (flen - k - 2) to)" (is "_ \<longleftrightarrow> (\<exists>k. ?R k)")
proof
  assume "check_accepts b P to tlen src flen n to'"
  then obtain pad msg where pm: "pkcs_block b P pad msg (take flen src)" "8 \<le> length pad"
    "length msg \<le> tlen" "n = int (length msg)" "to' = msg @ drop (length msg) to"
    by (auto simp: check_accepts_def)
  have "length (take flen src) = length (b # pad @ 0 # msg)" using pm(1) by (simp only: pkcs_block_def)
  then have l: "flen = length pad + 2 + length msg" using assms by simp
  have "drop (length pad + 2) (take flen src) = msg" using pm(1) by (simp add: pkcs_block_def)
  then have m: "take (flen - length pad - 2) (drop (length pad + 2) src) = msg" by (simp add: drop_take)
  have "src ! 0 = b \<and> (\<forall>m<length pad. P (src ! (1 + m))) \<and> src ! (1 + length pad) = 0"
    by (rule pkcs_block_nth [OF assms(1), THEN iffD1]) (use l pm(1) m in auto)
  then show "\<exists>k. ?R k" using pm l m by (intro exI [of _ "length pad"]) simp
next
  assume "\<exists>k. ?R k"
  then obtain k where k: "?R k" by blast
  then have "\<exists>pad. pkcs_block b P pad (take (flen - k - 2) (drop (k + 2) src)) (take flen src) \<and> length pad = k"
    by (subst pkcs_block_nth [OF assms(1)]) auto
  then obtain pad where pad: "pkcs_block b P pad (take (flen - k - 2) (drop (k + 2) src)) (take flen src)"
    "length pad = k" by blast
  moreover have "length (take (flen - k - 2) (drop (k + 2) src)) = flen - k - 2" using k assms by simp
  ultimately show "check_accepts b P to tlen src flen n to'"
    unfolding check_accepts_def using k
    by (intro exI [of _ pad] exI [of _ "take (flen - k - 2) (drop (k + 2) src)"]) simp
qed

lemma check_tail:
  assumes "flen \<le> length src" "k < flen - 1" "tlen \<le> length to"
  shows "(if flen - 1 - (k + 1) > tlen then Some (-1, to)
      else Option.bind (mem_read src (k + 2) (flen - 1 - (k + 1))) (\<lambda>msg.
           Option.bind (mem_write to 0 msg) (\<lambda>to. Some (int (flen - 1 - (k + 1)), to)))) = Some (n, to') \<and> 0 \<le> n
    \<longleftrightarrow> flen - k - 2 \<le> tlen \<and> n = int (flen - k - 2) \<and>
       to' = take (flen - k - 2) (drop (k + 2) src) @ drop (flen - k - 2) to"
proof -
  define d where "d = flen - k - 2"
  have d: "flen - 1 - (k + 1) = d" "d \<le> length src - (k + 2)" "k + 2 + d \<le> length src"
    using assms by (simp_all add: d_def)
  show ?thesis
    unfolding d(1) d_def [symmetric]
    using d(2,3) assms(3) by (auto simp: mem_read_def mem_write_def add.commute)
qed

lemma padding_check_1_iff:
  assumes "flen \<le> length src" "1 \<le> flen" "tlen \<le> length to"
  shows "padding_check_PKCS1_type_1 to tlen src flen num = Some (n, to') \<and> 0 \<le> n \<longleftrightarrow>
    num = flen + 1 \<and> check_accepts 1 (\<lambda>x. x = 0xff) to tlen src flen n to'"
proof (cases "num = flen + 1 \<and> src ! 0 = 1")
  case False
  then show ?thesis using assms by (auto simp: padding_check_PKCS1_type_1_def check_accepts_nth)
next
  case True
  let ?j = "flen - 1"
  have scan: "check_1_scan src ?j 0 1 = Some (k, p) \<and> k < ?j \<longleftrightarrow>
      k < ?j \<and> p = k + 2 \<and> (\<forall>m<k. src ! (1 + m) = 0xff) \<and> src ! (1 + k) = 0" for k p
    using check_1_scan_iff [of 0 ?j src k p] by simp
  show ?thesis
  proof (cases "\<exists>k p. check_1_scan src ?j 0 1 = Some (k, p) \<and> k < ?j")
    case stop: True
    then obtain k p where kp: "check_1_scan src ?j 0 1 = Some (k, p)" "k < ?j" by blast
    then have k: "p = k + 2" "\<forall>m<k. src ! (1 + m) = 0xff" "src ! (1 + k) = 0" using scan by blast+
    have u: "k' = k" if "k' < ?j" "\<forall>m<k'. src ! (1 + m) = 0xff" "src ! (1 + k') = 0" for k'
      using scan [of k' "k' + 2"] that kp(1) by simp
    have "padding_check_PKCS1_type_1 to tlen src flen num = Some (n, to') \<and> 0 \<le> n \<longleftrightarrow>
      8 \<le> k \<and> flen - k - 2 \<le> tlen \<and> n = int (flen - k - 2) \<and>
        to' = take (flen - k - 2) (drop (k + 2) src) @ drop (flen - k - 2) to"
      using check_tail [OF assms(1) kp(2) assms(3), of n to'] assms True kp k(1)
      by (auto simp: padding_check_PKCS1_type_1_def Let_def)
    moreover have "check_accepts 1 (\<lambda>x. x = 0xff) to tlen src flen n to' \<longleftrightarrow>
      8 \<le> k \<and> flen - k - 2 \<le> tlen \<and> n = int (flen - k - 2) \<and>
        to' = take (flen - k - 2) (drop (k + 2) src) @ drop (flen - k - 2) to"
      unfolding check_accepts_nth [OF assms(1,2)]
      by (subst ex_unique_iff [where k = k]) (use u k True kp(2) in blast)+
    ultimately show ?thesis using True by blast
  next
    case none: False
    have "\<not> check_accepts 1 (\<lambda>x. x = 0xff) to tlen src flen n to'"
      using none scan unfolding check_accepts_nth [OF assms(1,2)] by blast
    moreover have "k = ?j" if "check_1_scan src ?j 0 1 = Some (k, p)" for k p
      using that none check_1_scan_le [OF _ that] by fastforce
    ultimately show ?thesis
      using True assms by (auto simp: padding_check_PKCS1_type_1_def Let_def split: option.split)
  qed
qed

lemma padding_check_2_iff:
  assumes "flen \<le> length src" "1 \<le> flen" "tlen \<le> length to"
  shows "padding_check_PKCS1_type_2 to tlen src flen num = Some (n, to') \<and> 0 \<le> n \<longleftrightarrow>
    num = flen + 1 \<and> check_accepts 2 (\<lambda>x. x \<noteq> 0) to tlen src flen n to'"
proof (cases "num = flen + 1 \<and> src ! 0 = 2")
  case False
  then show ?thesis using assms by (auto simp: padding_check_PKCS1_type_2_def check_accepts_nth)
next
  case True
  let ?j = "flen - 1"
  have scan: "check_2_scan src ?j 0 1 = (k, p) \<and> k < ?j \<longleftrightarrow>
      k < ?j \<and> p = k + 2 \<and> (\<forall>m<k. src ! (1 + m) \<noteq> 0) \<and> src ! (1 + k) = 0" for k p
    using check_2_scan_iff [of 0 ?j src k p] by simp
  obtain k p where kp: "check_2_scan src ?j 0 1 = (k, p)" by fastforce
  show ?thesis
  proof (cases "k < ?j")
    case stop: True
    then have k: "p = k + 2" "\<forall>m<k. src ! (1 + m) \<noteq> 0" "src ! (1 + k) = 0" using scan kp by blast+
    have u: "k' = k" if "k' < ?j" "\<forall>m<k'. src ! (1 + m) \<noteq> 0" "src ! (1 + k') = 0" for k'
      using scan [of k' "k' + 2"] that kp by simp
    have "padding_check_PKCS1_type_2 to tlen src flen num = Some (n, to') \<and> 0 \<le> n \<longleftrightarrow>
      8 \<le> k \<and> flen - k - 2 \<le> tlen \<and> n = int (flen - k - 2) \<and>
        to' = take (flen - k - 2) (drop (k + 2) src) @ drop (flen - k - 2) to"
      using check_tail [OF assms(1) stop assms(3), of n to'] assms True kp k(1) stop
      by (auto simp: padding_check_PKCS1_type_2_def Let_def)
    moreover have "check_accepts 2 (\<lambda>x. x \<noteq> 0) to tlen src flen n to' \<longleftrightarrow>
      8 \<le> k \<and> flen - k - 2 \<le> tlen \<and> n = int (flen - k - 2) \<and>
        to' = take (flen - k - 2) (drop (k + 2) src) @ drop (flen - k - 2) to"
      unfolding check_accepts_nth [OF assms(1,2)]
      by (subst ex_unique_iff [where k = k]) (use u k True stop in blast)+
    ultimately show ?thesis using True by blast
  next
    case none: False
    have "\<not> check_accepts 2 (\<lambda>x. x \<noteq> 0) to tlen src flen n to'"
      using none scan kp unfolding check_accepts_nth [OF assms(1,2)] by (metis prod.inject)
    moreover have "k = ?j" using none check_2_scan_le [OF _ kp] by simp
    ultimately show ?thesis
      using True assms kp by (auto simp: padding_check_PKCS1_type_2_def Let_def)
  qed
qed

section \<open>Adding the padding\<close>

lemma retry_byte_eq: "retry_byte () = Some (Some 0xAA)"
  by (subst retry_byte.simps) (simp add: get_rand_bytes_def)

lemma fill_nonzero_id: "0 \<notin> set bs \<Longrightarrow> fill_nonzero bs = Some (Some bs)"
  by (induction bs) auto

lemma padding_add_1_eq:
  assumes "flen + 11 \<le> tlen" "flen \<le> length src" "tlen \<le> length to"
  shows "padding_add_PKCS1_type_1 to tlen src flen =
    Some (1, ([0, 1] @ replicate (tlen - 3 - flen) 0xff @ [0] @ take flen src) @ drop tlen to)"
proof -
  obtain k where "tlen = flen + 3 + k" by (rule that [of "tlen - flen - 3"]) (use assms in simp)
  then show ?thesis
    using assms by (simp add: padding_add_PKCS1_type_1_def RSA_PKCS1_PADDING_SIZE_def mem_read_def mem_write_def Let_def
      add.commute add.left_commute numeral_3_eq_3)
qed

lemma padding_add_2_eq:
  assumes "flen + 11 \<le> tlen" "flen \<le> length src" "tlen \<le> length to"
  shows "padding_add_PKCS1_type_2 to tlen src flen =
    Some (1, ([0, 2] @ replicate (tlen - 3 - flen) 0xAA @ [0] @ take flen src) @ drop tlen to)"
proof -
  obtain k where k: "tlen = flen + 3 + k" by (rule that [of "tlen - flen - 3"]) (use assms in simp)
  moreover have "fill_nonzero (replicate n 0xAA) = Some (Some (replicate n 0xAA))" for n
    by (rule fill_nonzero_id) (simp add: set_replicate_conv_if)
  ultimately show ?thesis
    using assms by (simp add: padding_add_PKCS1_type_2_def get_rand_bytes_def mem_read_def mem_write_def Let_def
      add.commute add.left_commute numeral_3_eq_3)
qed

lemma padded_block:
  assumes "flen + 11 \<le> tlen" "flen \<le> length src" "P x" "tlen \<le> length out"
    and em: "em = ([0, b] @ replicate (tlen - 3 - flen) x @ [0] @ take flen src) @ rest"
  shows "check_accepts b P out tlen (drop 1 em) (tlen - 1) (int flen) (take flen src @ drop flen out)"
    and "tlen - 1 \<le> length (drop 1 em)"
proof -
  obtain k where "tlen = flen + 3 + k" by (rule that [of "tlen - flen - 3"]) (use assms in simp)
  then have "take (tlen - 1) (drop 1 em) = b # replicate (tlen - 3 - flen) x @ 0 # take flen src"
    using assms(1,2) by (simp add: em)
  then have "pkcs_block b P (replicate (tlen - 3 - flen) x) (take flen src) (take (tlen - 1) (drop 1 em))"
    using assms(3) by (simp add: pkcs_block_def)
  then show "check_accepts b P out tlen (drop 1 em) (tlen - 1) (int flen) (take flen src @ drop flen out)"
    unfolding check_accepts_def using assms(1,2)
    by (intro exI [of _ "replicate (tlen - 3 - flen) x"] exI [of _ "take flen src"]) simp
  show "tlen - 1 \<le> length (drop 1 em)" using assms(1,2) by (simp add: em)
qed

section \<open>Properties\<close>

text \<open>
  C13: the type 1 check accepts exactly the blocks \<open>01 ff..ff 00 message\<close> with at least eight \<open>ff\<close> bytes and
  a message that fits \<open>tlen\<close>, and for those it returns the length of the message and copies it to \<open>to\<close>.
\<close>

theorem padding_check_1_exact:
  assumes "flen \<le> length src" "1 \<le> flen" "tlen \<le> length to"
  shows "padding_check_PKCS1_type_1 to tlen src flen num = Some (n, to') \<and> 0 \<le> n \<longleftrightarrow>
    num = flen + 1 \<and> (\<exists>pad msg. pkcs_block 1 (\<lambda>x. x = 0xff) pad msg (take flen src) \<and> 8 \<le> length pad \<and>
      length msg \<le> tlen \<and> n = int (length msg) \<and> to' = msg @ drop (length msg) to)"
  using padding_check_1_iff [OF assms] by (simp add: check_accepts_def)

theorem padding_check_1_exact_witness:
  "padding_check_PKCS1_type_1 [0, 0] 2 [1, 0] 2 3 = Some (1, [0, 0]) \<and> 0 \<le> (1 :: int) \<longleftrightarrow>
    (3 :: nat) = 2 + 1 \<and> (\<exists>pad msg. pkcs_block 1 (\<lambda>x. x = 0xff) pad msg (take 2 [1, 0]) \<and> 8 \<le> length pad \<and>
      length msg \<le> 2 \<and> 1 = int (length msg) \<and> [0, 0] = msg @ drop (length msg) [0, 0])"
  by (rule padding_check_1_exact) simp_all

text \<open>
  The type 2 check accepts exactly the blocks \<open>02 nonzero..nonzero 00 message\<close> with at least eight
  padding bytes and a message that fits \<open>tlen\<close>.
\<close>

theorem padding_check_2_exact:
  assumes "flen \<le> length src" "1 \<le> flen" "tlen \<le> length to"
  shows "padding_check_PKCS1_type_2 to tlen src flen num = Some (n, to') \<and> 0 \<le> n \<longleftrightarrow>
    num = flen + 1 \<and> (\<exists>pad msg. pkcs_block 2 (\<lambda>x. x \<noteq> 0) pad msg (take flen src) \<and> 8 \<le> length pad \<and>
      length msg \<le> tlen \<and> n = int (length msg) \<and> to' = msg @ drop (length msg) to)"
  using padding_check_2_iff [OF assms] by (simp add: check_accepts_def)

theorem padding_check_2_exact_witness:
  "padding_check_PKCS1_type_2 [0, 0] 2 [2, 0] 2 3 = Some (1, [0, 0]) \<and> 0 \<le> (1 :: int) \<longleftrightarrow>
    (3 :: nat) = 2 + 1 \<and> (\<exists>pad msg. pkcs_block 2 (\<lambda>x. x \<noteq> 0) pad msg (take 2 [2, 0]) \<and> 8 \<le> length pad \<and>
      length msg \<le> 2 \<and> 1 = int (length msg) \<and> [0, 0] = msg @ drop (length msg) [0, 0])"
  by (rule padding_check_2_exact) simp_all

text \<open>
  A message padded for encryption, type 2, is given back by the type 2 check, with its length.
\<close>

theorem padding_2_roundtrip:
  assumes "length msg + 11 \<le> tlen" "tlen \<le> length to" "tlen \<le> length out"
  shows "\<exists>em. padding_add_PKCS1_type_2 to tlen msg (length msg) = Some (1, em) \<and>
    padding_check_PKCS1_type_2 out tlen (drop 1 em) (tlen - 1) tlen = Some (int (length msg), msg @ drop (length msg) out)"
proof (intro exI conjI)
  let ?em = "([0, 2] @ replicate (tlen - 3 - length msg) 0xAA @ [0] @ take (length msg) msg) @ drop tlen to"
  show "padding_add_PKCS1_type_2 to tlen msg (length msg) = Some (1, ?em)"
    by (rule padding_add_2_eq) (use assms in auto)
  have block: "check_accepts 2 (\<lambda>x. x \<noteq> 0) out tlen (drop 1 ?em) (tlen - 1) (int (length msg)) (take (length msg) msg @ drop (length msg) out)"
    "tlen - 1 \<le> length (drop 1 ?em)"
    by (rule padded_block [OF assms(1) order_refl _ assms(3) refl], simp)+
  show "padding_check_PKCS1_type_2 out tlen (drop 1 ?em) (tlen - 1) tlen = Some (int (length msg), msg @ drop (length msg) out)"
    by (rule padding_check_2_iff [OF block(2) _ assms(3), THEN iffD2, THEN conjunct1])
      (use block(1) assms(1) in simp_all)
qed

theorem padding_2_roundtrip_witness:
  "\<exists>em. padding_add_PKCS1_type_2 (replicate 16 0) 16 [7, 0, 9] (length [7, 0, 9 :: u8]) = Some (1, em) \<and>
    padding_check_PKCS1_type_2 (replicate 16 0) 16 (drop 1 em) (16 - 1) 16 =
      Some (int (length [7, 0, 9 :: u8]), [7, 0, 9] @ drop (length [7, 0, 9 :: u8]) (replicate 16 0))"
  by (rule padding_2_roundtrip) simp_all

end
