(* ===== verification/LeBytes.thy ===== *)
theory LeBytes
  imports Prelude
begin

text \<open>
  Little-endian bytes: the number a list of bytes stands for, and the two ways between a
  32-bit word and its four bytes in memory.
\<close>

section \<open>Bytes as numbers\<close>

fun le_val :: "u8 list \<Rightarrow> nat" where
  "le_val [] = 0"
| "le_val (b # bs) = unat b + 256 * le_val bs"

lemma le_val_append: "le_val (xs @ ys) = le_val xs + 256 ^ length xs * le_val ys"
  by (induction xs) (simp_all add: algebra_simps)

lemma le_val_less: "le_val bs < 256 ^ length bs"
proof (induction bs)
  case (Cons b bs)
  then have "le_val bs + 1 \<le> 256 ^ length bs" by simp
  then have "256 * (le_val bs + 1) \<le> 256 * 256 ^ length bs" by (rule mult_le_mono2)
  then show ?case using unat_lt_8 [of b] by (simp del: unat_lt_8)
qed simp

lemma le_val_inj: "length xs = length ys \<Longrightarrow> le_val xs = le_val ys \<Longrightarrow> xs = ys"
proof (induction xs ys rule: list_induct2)
  case (Cons x xs y ys)
  have "unat x = (unat x + 256 * le_val xs) mod 256" by simp
  also have "\<dots> = (unat y + 256 * le_val ys) mod 256" using Cons.prems by simp
  also have "\<dots> = unat y" by simp
  finally have "unat x = unat y" .
  with Cons show ?case by (auto simp: unsigned_word_eqI)
qed simp

lemma le_val_digits: "v < 256 ^ n \<Longrightarrow> le_val (map (\<lambda>i. of_nat (v div 256 ^ i)) [0..<n]) = v"
proof (induction n arbitrary: v)
  case (Suc n)
  have "map (\<lambda>i. of_nat (v div 256 ^ i) :: u8) [0..<Suc n] =
      of_nat v # map (\<lambda>i. of_nat (v div 256 div 256 ^ i)) [0..<n]"
    by (simp only: upt_conv_Cons zero_less_Suc map_Suc_upt [symmetric] list.map power_0 div_by_1)
      (simp add: div_mult2_eq comp_def)
  moreover have "le_val (map (\<lambda>i. of_nat (v div 256 div 256 ^ i)) [0..<n]) = v div 256"
    using Suc.prems by (intro Suc.IH) (simp add: less_mult_imp_div_less mult.commute)
  moreover have "unat (of_nat v :: u8) = v mod 256" by (simp add: unsigned_of_nat take_bit_eq_mod)
  ultimately show ?case by simp
qed simp

lemma le_val_bytes_of_word: "le_val (bytes_of_word w) = unat w"
  by (simp only: bytes_of_word_def list.map le_val.simps unat_byte mult_0_right add_0_right base256_word
    unat_less_32)

lemma bytes_of_word_of_bytes:
  assumes "4 * i + 4 \<le> length bs"
  shows "bytes_of_word (word_of_bytes bs i) = take 4 (drop (4 * i) bs)"
proof (rule le_val_inj)
  have t: "take 4 (drop (4 * i) bs) = [bs ! (4 * i), bs ! (4 * i + 1), bs ! (4 * i + 2), bs ! (4 * i + 3)]"
    using assms by (intro nth_equalityI) (auto simp: less_Suc_eq numeral_eq_Suc)
  define v where "v = unat (bs ! (4 * i)) + unat (bs ! (4 * i + 1)) * 2 ^ 8 + unat (bs ! (4 * i + 2)) * 2 ^ 16
       + unat (bs ! (4 * i + 3)) * 2 ^ 24"
  have "v < 2 ^ 32"
    using unat_lt_8 [of "bs ! (4 * i)"] unat_lt_8 [of "bs ! (4 * i + 1)"] unat_lt_8 [of "bs ! (4 * i + 2)"]
      unat_lt_8 [of "bs ! (4 * i + 3)"] unfolding v_def by (simp del: unat_lt_8)
  then have "unat (of_nat v :: u32) = v" by (simp add: unsigned_of_nat take_bit_nat_eq_self_iff)
  then show "le_val (bytes_of_word (word_of_bytes bs i)) = le_val (take 4 (drop (4 * i) bs))"
    unfolding le_val_bytes_of_word t word_of_bytes_def v_def [symmetric] by (simp add: v_def)
  show "length (bytes_of_word (word_of_bytes bs i)) = length (take 4 (drop (4 * i) bs))"
    using assms by simp
qed

lemma base256_flat: "d + 256 * (c + 256 * (b + 256 * a)) = d + c * 2 ^ 8 + b * 2 ^ 16 + a * 2 ^ 24" for a :: nat
  by simp

lemma word_of_bytes_of_word: "word_of_bytes (bytes_of_word v) 0 = v"
proof -
  have "unat v div 2 ^ 0 mod 256 + unat v div 2 ^ 8 mod 256 * 2 ^ 8 + unat v div 2 ^ 16 mod 256 * 2 ^ 16 +
      unat v div 2 ^ 24 mod 256 * 2 ^ 24 = unat v"
    using base256_word [OF unat_less_32 [of v]] by (simp only: base256_flat)
  then have "of_nat (unat v div 2 ^ 0 mod 256 + unat v div 2 ^ 8 mod 256 * 2 ^ 8 + unat v div 2 ^ 16 mod 256 * 2 ^ 16 +
      unat v div 2 ^ 24 mod 256 * 2 ^ 24) = v"
    by (simp only: of_nat_unat ucast_id)
  then show ?thesis
    by (simp only: word_of_bytes_def bytes_of_word_def list.map nth_Cons_0 nth_Cons_Suc mult_0_right add_0 unat_byte
        One_nat_def numeral_2_eq_2 numeral_3_eq_3)
qed

end
