(* ===== verification/Rsa.thy ===== *)
theory Rsa
  imports RsaTrans Pk1 LeBytes
begin

text \<open>
  The entry points of \<^verbatim>\<open>signimage/source/common/rsa/src/rsa.c\<close>: loading key and data into the
  global big integers, the four operations and their padding.  Bytes are in network
  order outside and the words of \<open>SBigInt\<close> are copied with \<open>memcpy\<close>, so the
  host's little-endian layout is part of the model.

  The globals are a record; every entry point resets them first, so a call depends on
  its arguments alone, except for \<open>text\<close>: \<open>RSA_PubDec\<close> and \<open>RSA_PrvDec\<close> copy only as
  many words as the result has into an uninitialised local array.  Its old contents are
  the argument \<open>stack\<close>.
\<close>

section \<open>The globals\<close>

record rsa_state =
  RSA_C :: SBigInt
  RSA_M :: SBigInt
  RSA_N :: SBigInt
  RSA_D :: SBigInt
  RSA_E :: SBigInt
  RSA_P :: SBigInt
  RSA_Q :: SBigInt

definition big_zero :: SBigInt where
  "big_zero = \<lparr>m_iLength32 = 1, m_ulValue = zero_words\<rparr>"

definition RSA_initialize :: rsa_state where
  "RSA_initialize =
     \<lparr>RSA_C = big_zero, RSA_M = big_zero, RSA_N = big_zero, RSA_D = big_zero, RSA_E = big_zero,
      RSA_P = big_zero, RSA_Q = big_zero\<rparr>"

section \<open>Bytes and words\<close>

definition bytes_of_words :: "u32 list \<Rightarrow> u8 list" where
  "bytes_of_words ws = concat (map bytes_of_word ws)"

definition SetParameter_int :: "u8 list \<Rightarrow> nat \<Rightarrow> SBigInt option" where
  "SetParameter_int ulIn iLength32 =
     (if iLength32 > BIGINT_MAXLEN \<or> length ulIn < iLength32 * 4 then None
      else Some \<lparr>m_iLength32 = iLength32,
                 m_ulValue = map (word_of_bytes ulIn) [0..<iLength32] @ replicate (BIGINT_MAXLEN - iLength32) 0\<rparr>)"

text \<open>The result and the contents of \<open>str\<close>, which is reversed for the copy and back.\<close>

definition SetParameter_char_openssl :: "u8 list \<Rightarrow> nat \<Rightarrow> (SBigInt \<times> u8 list) option" where
  "SetParameter_char_openssl str strLen =
     (let str = invert_char str strLen
      in map_option (\<lambda>x. (x, invert_char str strLen)) (SetParameter_int str (strLen div 4)))"

definition load :: "u8 list option \<Rightarrow> nat \<Rightarrow> SBigInt \<Rightarrow> SBigInt option" where
  "load str n old = (case str of None \<Rightarrow> Some old | Some s \<Rightarrow> map_option fst (SetParameter_char_openssl s n))"

section \<open>The four operations\<close>

definition prv_Encrypt :: "rsa_state \<Rightarrow> (int \<times> rsa_state) option" where
  "prv_Encrypt st =
     (if Cmp (RSA_M st) (RSA_N st) \<ge> 0 then Some (-1, st)
      else map_option (\<lambda>r. (1, st\<lparr>RSA_C := r\<rparr>)) (RsaTrans (RSA_M st) (RSA_E st) (RSA_N st)))"

definition pub_Decrypt :: "rsa_state \<Rightarrow> (int \<times> rsa_state) option" where
  "pub_Decrypt st =
     (if Cmp (RSA_C st) (RSA_N st) \<ge> 0 then Some (-1, st)
      else map_option (\<lambda>r. (1, st\<lparr>RSA_M := r\<rparr>)) (RsaTrans (RSA_C st) (RSA_D st) (RSA_N st)))"

definition pub_Encrypt :: "rsa_state \<Rightarrow> (int \<times> rsa_state) option" where
  "pub_Encrypt st =
     (if Cmp (RSA_M st) (RSA_N st) \<ge> 0 then Some (-1, st)
      else map_option (\<lambda>r. (1, st\<lparr>RSA_C := r\<rparr>)) (RsaTrans (RSA_M st) (RSA_D st) (RSA_N st)))"

definition prv_Decrypt :: "rsa_state \<Rightarrow> (int \<times> rsa_state) option" where
  "prv_Decrypt st =
     (if Cmp (RSA_C st) (RSA_N st) \<ge> 0 then Some (-1, st)
      else map_option (\<lambda>r. (1, st\<lparr>RSA_M := r\<rparr>)) (RsaTrans (RSA_C st) (RSA_E st) (RSA_N st)))"

text \<open>The copy of a result's words into a buffer, and the reversal of the buffer.\<close>

definition store_words :: "u8 list \<Rightarrow> SBigInt \<Rightarrow> nat \<Rightarrow> u8 list option" where
  "store_words dst x n =
     map_option (\<lambda>dst. invert_char dst n) (mem_write dst 0 (bytes_of_words (take (m_iLength32 x) (m_ulValue x))))"

text \<open>\<open>padded0\<close> is the uninitialised \<open>textpadded\<close>; the padding writes all of it.\<close>

definition RSA_PrvEnc ::
  "u8 list option \<Rightarrow> u8 list option \<Rightarrow> nat \<Rightarrow> u8 list \<Rightarrow> nat \<Rightarrow> u8 list \<Rightarrow> u8 list \<Rightarrow> (bool \<times> u8 list) option" where
  "RSA_PrvEnc prv_E mod_N bitLen_N src flen to padded0 =
     (let byteLen_N = bitLen_N div 8; st = RSA_initialize
      in Option.bind (load prv_E byteLen_N (RSA_E st)) (\<lambda>E.
         Option.bind (load mod_N byteLen_N (RSA_N st)) (\<lambda>N.
         Option.bind (padding_add_PKCS1_type_1 padded0 byteLen_N src flen) (\<lambda>(r, textpadded).
         if r \<le> 0 then Some (False, to)
         else Option.bind (SetParameter_char_openssl textpadded byteLen_N) (\<lambda>(M, _).
         Option.bind (prv_Encrypt (st\<lparr>RSA_E := E, RSA_N := N, RSA_M := M\<rparr>)) (\<lambda>(r, st).
         if r < 0 then Some (False, to)
         else map_option (\<lambda>to. (True, to)) (store_words to (RSA_C st) byteLen_N)))))))"

definition RSA_PubDec ::
  "u8 list option \<Rightarrow> u8 list option \<Rightarrow> nat \<Rightarrow> u8 list \<Rightarrow> u8 list \<Rightarrow> u8 list \<Rightarrow> (int \<times> u8 list) option" where
  "RSA_PubDec pub_D mod_N bitLen_N src to stack =
     (let byteLen_N = bitLen_N div 8; st = RSA_initialize
      in Option.bind (load pub_D 4 (RSA_D st)) (\<lambda>D.
         Option.bind (load mod_N byteLen_N (RSA_N st)) (\<lambda>N.
         Option.bind (SetParameter_char_openssl src byteLen_N) (\<lambda>(C, _).
         Option.bind (pub_Decrypt (st\<lparr>RSA_D := D, RSA_N := N, RSA_C := C\<rparr>)) (\<lambda>(_, st).
         Option.bind (store_words stack (RSA_M st) byteLen_N) (\<lambda>text.
         padding_check_PKCS1_type_1 to byteLen_N (drop 1 text) (byteLen_N - 1) byteLen_N))))))"

definition RSA_PubEnc ::
  "u8 list option \<Rightarrow> u8 list option \<Rightarrow> nat \<Rightarrow> u8 list \<Rightarrow> nat \<Rightarrow> u8 list \<Rightarrow> u8 list \<Rightarrow> (bool \<times> u8 list) option" where
  "RSA_PubEnc pub_D mod_N bitLen_N src flen to padded0 =
     (let byteLen_N = bitLen_N div 8; st = RSA_initialize
      in Option.bind (load pub_D 4 (RSA_D st)) (\<lambda>D.
         Option.bind (load mod_N byteLen_N (RSA_N st)) (\<lambda>N.
         Option.bind (padding_add_PKCS1_type_2 padded0 byteLen_N src flen) (\<lambda>(r, textpadded).
         if r \<le> 0 then Some (False, to)
         else Option.bind (SetParameter_char_openssl textpadded byteLen_N) (\<lambda>(M, _).
         Option.bind (pub_Encrypt (st\<lparr>RSA_D := D, RSA_N := N, RSA_M := M\<rparr>)) (\<lambda>(r, st).
         if r < 0 then Some (False, to)
         else map_option (\<lambda>to. (True, to)) (store_words to (RSA_C st) byteLen_N)))))))"

definition RSA_PrvDec ::
  "u8 list option \<Rightarrow> u8 list option \<Rightarrow> nat \<Rightarrow> u8 list \<Rightarrow> u8 list \<Rightarrow> u8 list \<Rightarrow> (int \<times> u8 list) option" where
  "RSA_PrvDec prv_E mod_N bitLen_N src to stack =
     (let byteLen_N = bitLen_N div 8; st = RSA_initialize
      in Option.bind (load prv_E byteLen_N (RSA_E st)) (\<lambda>E.
         Option.bind (load mod_N byteLen_N (RSA_N st)) (\<lambda>N.
         Option.bind (SetParameter_char_openssl src byteLen_N) (\<lambda>(C, _).
         Option.bind (prv_Decrypt (st\<lparr>RSA_E := E, RSA_N := N, RSA_C := C\<rparr>)) (\<lambda>(_, st).
         Option.bind (store_words stack (RSA_M st) byteLen_N) (\<lambda>text.
         padding_check_PKCS1_type_2 to byteLen_N (drop 1 text) (byteLen_N - 1) byteLen_N))))))"

section \<open>Bytes as numbers\<close>

text \<open>The number a string of bytes stands for outside, most significant byte first.\<close>

definition os2ip :: "u8 list \<Rightarrow> nat" where
  "os2ip bs = le_val (rev bs)"

definition i2osp :: "nat \<Rightarrow> nat \<Rightarrow> u8 list" where
  "i2osp n v = rev (map (\<lambda>i. of_nat (v div 256 ^ i)) [0..<n])"

lemma length_i2osp [simp]: "length (i2osp n v) = n"
  by (simp add: i2osp_def)

lemma os2ip_i2osp: "v < 256 ^ n \<Longrightarrow> os2ip (i2osp n v) = v"
  by (simp add: os2ip_def i2osp_def le_val_digits)

lemma os2ip_inj: "length xs = length ys \<Longrightarrow> os2ip xs = os2ip ys \<Longrightarrow> xs = ys"
  using le_val_inj [of "rev xs" "rev ys"] by (simp add: os2ip_def)

lemma os2ip_less: "os2ip bs < 256 ^ length bs"
  using le_val_less [of "rev bs"] by (simp add: os2ip_def)

lemma i2osp_os2ip: "i2osp (length bs) (os2ip bs) = bs"
  by (rule os2ip_inj) (simp_all add: os2ip_i2osp os2ip_less)

section \<open>Words as bytes\<close>

lemma length_bytes_of_words [simp]: "length (bytes_of_words ws) = 4 * length ws"
  by (induction ws) (simp_all add: bytes_of_words_def)

lemma sval_Cons: "sval (Suc n) (w # ws) = unat w + 2 ^ 32 * sval n ws"
  by (induction n) (simp_all add: sval_Suc power_add algebra_simps)

lemma le_val_bytes_of_words: "le_val (bytes_of_words ws) = sval (length ws) ws"
proof (induction ws)
  case (Cons w ws)
  have "bytes_of_words (w # ws) = bytes_of_word w @ bytes_of_words ws" by (simp add: bytes_of_words_def)
  then show ?case by (simp only: le_val_append le_val_bytes_of_word Cons length_Cons sval_Cons) simp
qed (simp add: bytes_of_words_def)

lemma bytes_of_words_of_bytes:
  "4 * k \<le> length bs \<Longrightarrow> bytes_of_words (map (word_of_bytes bs) [0..<k]) = take (4 * k) bs"
proof (induction k)
  case (Suc k)
  have "bytes_of_words (map (word_of_bytes bs) [0..<Suc k]) = take (4 * k) bs @ take 4 (drop (4 * k) bs)"
    using Suc bytes_of_word_of_bytes [of k bs] by (simp add: bytes_of_words_def)
  also have "\<dots> = take (4 * k + 4) bs" by (simp add: take_add)
  finally show ?case by (simp add: add.commute)
qed (simp add: bytes_of_words_def)

section \<open>Loading and storing\<close>

lemma SetParameter_int_correct:
  assumes "4 * k \<le> length bs" "1 \<le> k" "k \<le> 66"
  obtains x where "SetParameter_int bs k = Some x" "big_wf x" "m_iLength32 x = k"
    "big_val x = le_val (take (4 * k) bs)"
proof -
  define x where "x = \<lparr>m_iLength32 = k, m_ulValue = map (word_of_bytes bs) [0..<k] @ replicate (66 - k) 0\<rparr>"
  have "SetParameter_int bs k = Some x" using assms by (simp add: SetParameter_int_def x_def mult.commute)
  moreover have "big_wf x" using assms by (auto simp: big_wf_def x_def nth_append)
  moreover have "big_val x = sval k (map (word_of_bytes bs) [0..<k])"
    unfolding big_val_def x_def SBigInt.simps by (rule sval_cong) (simp add: nth_append)
  moreover have "sval k (map (word_of_bytes bs) [0..<k]) = le_val (take (4 * k) bs)"
    using le_val_bytes_of_words [of "map (word_of_bytes bs) [0..<k]"] bytes_of_words_of_bytes [OF assms(1)] by simp
  ultimately show ?thesis using that [of x] by (simp add: x_def)
qed

lemma SetParameter_char_correct:
  assumes "4 * k \<le> length bs" "1 \<le> k" "k \<le> 66"
  obtains x where "SetParameter_char_openssl bs (4 * k) = Some (x, bs)" "big_wf x" "m_iLength32 x = k"
    "big_val x = os2ip (take (4 * k) bs)"
proof -
  have r: "invert_char bs (4 * k) = rev (take (4 * k) bs) @ drop (4 * k) bs"
    by (rule invert_char_rev) (rule assms(1))
  have rr: "invert_char (rev (take (4 * k) bs) @ drop (4 * k) bs) (4 * k) = bs"
    using assms(1) by (subst invert_char_rev) simp_all
  obtain x where x: "SetParameter_int (rev (take (4 * k) bs) @ drop (4 * k) bs) k = Some x" "big_wf x"
    "m_iLength32 x = k" "big_val x = le_val (take (4 * k) (rev (take (4 * k) bs) @ drop (4 * k) bs))"
    by (rule SetParameter_int_correct [of k "rev (take (4 * k) bs) @ drop (4 * k) bs"]) (use assms in auto)
  have v: "big_val x = os2ip (take (4 * k) bs)" using x(4) assms(1) by (simp add: os2ip_def)
  show ?thesis
    by (rule that [OF _ x(2,3) v]) (simp add: SetParameter_char_openssl_def r rr x(1))
qed

text \<open>A number with as many words as the buffer overwrites all of it.\<close>

lemma store_words_full:
  assumes "big_wf x" "m_iLength32 x = k" "length dst = 4 * k"
  shows "store_words dst x (4 * k) = Some (i2osp (4 * k) (big_val x))"
proof -
  let ?ws = "take k (m_ulValue x)"
  have k: "k \<le> 66" "length ?ws = k" using assms by (auto simp: big_wf_def)
  have "mem_write dst 0 (bytes_of_words ?ws) = Some (bytes_of_words ?ws)"
    by (rule mem_write_whole) (simp only: length_bytes_of_words k(2) assms(3))
  then have s: "store_words dst x (4 * k) = Some (rev (bytes_of_words ?ws))"
    by (simp add: store_words_def assms(2) invert_char_rev [of "4 * k" "bytes_of_words ?ws"]
      length_bytes_of_words [of ?ws, unfolded k(2)] del: length_bytes_of_words)
  have "sval k ?ws = big_val x" unfolding big_val_def assms(2) by (rule sval_cong) simp
  then have "os2ip (rev (bytes_of_words ?ws)) = big_val x"
    unfolding os2ip_def rev_rev_ident le_val_bytes_of_words k(2) .
  moreover have "big_val x < 256 ^ (4 * k)"
    using big_val_less [of x] assms(2) by (simp add: power_mult)
  ultimately have "rev (bytes_of_words ?ws) = i2osp (4 * k) (big_val x)"
    by (intro os2ip_inj) (simp_all only: length_rev length_bytes_of_words k(2) length_i2osp os2ip_i2osp)
  with s show ?thesis by simp
qed

section \<open>The exponentiation of loaded numbers\<close>

lemma power_result:
  assumes "big_wf N" "m_iLength32 N = k" "k \<le> 64" "2 ^ (32 * (k - 1)) \<le> big_val N" "1 < big_val N"
    and "big_wf x" "m_iLength32 x = k" "big_val x < big_val N"
    and "big_normal e" "0 < big_val e" "RsaTrans x e N = Some r"
  shows "big_wf r \<and> m_iLength32 r \<le> k \<and> big_val r = big_val x ^ big_val e mod big_val N"
proof -
  have "big_normal N" using assms(1,2,4) by (intro normal_by_value) auto
  then have m: "modulus N" using assms by (simp add: modulus_def)
  have "small N x" using assms by (simp add: small_def)
  from RsaTrans_sound_aux [OF m this assms(9-11)] assms(8) show ?thesis
    by (auto simp: small_def assms(2))
qed

lemma full_length: "big_wf r \<Longrightarrow> m_iLength32 r \<le> k \<Longrightarrow> 2 ^ (32 * (k - 1)) \<le> big_val r \<Longrightarrow> m_iLength32 r = k"
proof (rule ccontr)
  assume r: "big_wf r" "m_iLength32 r \<le> k" "2 ^ (32 * (k - 1)) \<le> big_val r" "m_iLength32 r \<noteq> k"
  then have "(2 :: nat) ^ (32 * m_iLength32 r) \<le> 2 ^ (32 * (k - 1))" by (intro power_increasing) auto
  with r(3) big_val_less [of r] show False by linarith
qed

lemma power_defined:
  assumes "big_wf N" "m_iLength32 N = k" "k \<le> 64" "2 ^ (32 * (k - 1)) \<le> big_val N" "1 < big_val N"
    and "big_wf x" "m_iLength32 x = k" "2 ^ (32 * (k - 1)) \<le> big_val x" "big_val x < big_val N"
    and "coprime (big_val x) (big_val N)"
    and "big_normal e" "big_val e div 2 ^ i = 1" "residues_full (big_val x) (big_val e) (big_val N) i (big_val x)"
  obtains r where "RsaTrans x e N = Some r"
proof -
  have "big_normal N" using assms(1,2,4) by (intro normal_by_value) auto
  then have m: "modulus N" using assms by (simp add: modulus_def)
  have "big_normal x" using assms(6-8) by (intro normal_by_value) auto
  then have g: "good_num N x" using assms by (simp add: good_num_def)
  have e: "0 < big_val e" using assms(12) by (cases "big_val e = 0") auto
  define j where "j = m_iLength32 e * 32 - 32 + num_bits (ucast (m_ulValue e ! (m_iLength32 e - 1))) - 1"
  have "i = j" by (rule top_bit_unique [OF assms(12)]) (use exponent_top(1) [OF assms(11) e] in \<open>simp add: j_def\<close>)
  then show ?thesis
    using RsaTrans_total_aux [OF m g assms(11) e assms(9,10)] assms(13) that unfolding j_def by blast
qed

section \<open>Verification and signing\<close>

text \<open>What the public operation computes on a signature of \<open>4 * k\<close> bytes.\<close>

definition key_bytes :: "u8 list \<Rightarrow> nat \<Rightarrow> bool" where
  "key_bytes Nb k \<longleftrightarrow> 1 \<le> k \<and> k \<le> 64 \<and> length Nb = 4 * k \<and> 2 ^ (32 * (k - 1)) \<le> os2ip Nb \<and> 1 < os2ip Nb"

lemma key_bytes_load:
  assumes "key_bytes Nb k"
  obtains N where "SetParameter_char_openssl Nb (4 * k) = Some (N, Nb)" "big_wf N" "m_iLength32 N = k"
    "big_val N = os2ip Nb"
  by (rule SetParameter_char_correct [of k Nb]) (use assms in \<open>auto simp: key_bytes_def\<close>)

lemma exponent4_load:
  assumes "length Db = 4"
  obtains D where "SetParameter_char_openssl Db 4 = Some (D, Db)" "big_normal D" "big_val D = os2ip Db"
proof -
  obtain D where D: "SetParameter_char_openssl Db 4 = Some (D, Db)" "big_wf D" "m_iLength32 D = 1"
    "big_val D = os2ip (take 4 Db)"
    using SetParameter_char_correct [of 1 Db] assms by auto
  then show ?thesis using that [OF D(1)] assms by (simp add: big_normal_def)
qed

lemma Cmp_same: "m_iLength32 x = m_iLength32 y \<Longrightarrow> Cmp x y \<ge> 0 \<longleftrightarrow> big_val y \<le> big_val x"
  using Cmp_same_length [of x y] by (auto split: if_splits)

lemma RSA_PubDec_trans:
  assumes "key_bytes Nb k" "length Db = 4" "0 < os2ip Db" "length src = 4 * k" "os2ip src < os2ip Nb"
    "length stack = 4 * k" "2 ^ (32 * (k - 1)) \<le> os2ip src ^ os2ip Db mod os2ip Nb"
  obtains N D C where "big_wf N" "m_iLength32 N = k" "big_val N = os2ip Nb" "big_normal D" "big_val D = os2ip Db"
    "big_wf C" "m_iLength32 C = k" "big_val C = os2ip src"
    "RSA_PubDec (Some Db) (Some Nb) (32 * k) src to stack = Option.bind (RsaTrans C D N) (\<lambda>_.
      padding_check_PKCS1_type_1 to (4 * k) (drop 1 (i2osp (4 * k) (os2ip src ^ os2ip Db mod os2ip Nb)))
        (4 * k - 1) (4 * k))"
proof -
  have k: "1 \<le> k" "k \<le> 64" using assms(1) by (simp_all add: key_bytes_def)
  obtain N where N: "SetParameter_char_openssl Nb (4 * k) = Some (N, Nb)" "big_wf N" "m_iLength32 N = k"
    "big_val N = os2ip Nb" by (rule key_bytes_load [OF assms(1)])
  obtain D where D: "SetParameter_char_openssl Db 4 = Some (D, Db)" "big_normal D" "big_val D = os2ip Db"
    by (rule exponent4_load [OF assms(2)])
  obtain C where C: "SetParameter_char_openssl src (4 * k) = Some (C, src)" "big_wf C" "m_iLength32 C = k"
    "big_val C = os2ip src"
    using SetParameter_char_correct [of k src] assms(4) k by auto
  have cmp: "\<not> Cmp C N \<ge> 0" using Cmp_same [of C N] N(3,4) C(3,4) assms(5) by simp
  have "RSA_PubDec (Some Db) (Some Nb) (32 * k) src to stack = Option.bind (RsaTrans C D N) (\<lambda>_.
      padding_check_PKCS1_type_1 to (4 * k) (drop 1 (i2osp (4 * k) (os2ip src ^ os2ip Db mod os2ip Nb)))
        (4 * k - 1) (4 * k))"
  proof (cases "RsaTrans C D N")
    case None
    with cmp N(1) C(1) D(1) show ?thesis by (simp add: RSA_PubDec_def load_def pub_Decrypt_def Let_def)
  next
    case (Some r)
    have r: "big_wf r" "m_iLength32 r \<le> k" "big_val r = os2ip src ^ os2ip Db mod os2ip Nb"
      using power_result [OF N(2,3) k(2) _ _ C(2,3) _ D(2) _ Some] assms N(4) C(4) D(3)
      by (simp_all add: key_bytes_def)
    then have "m_iLength32 r = k" using full_length assms(7) by simp
    with r assms(6) have "store_words stack r (4 * k) =
        Some (i2osp (4 * k) (os2ip src ^ os2ip Db mod os2ip Nb))"
      by (simp add: store_words_full)
    with cmp N(1) C(1) D(1) Some show ?thesis
      by (simp add: RSA_PubDec_def load_def pub_Decrypt_def Let_def)
  qed
  with N D C that show ?thesis by blast
qed

lemma RSA_PubDec_defined:
  assumes "key_bytes Nb k" "length Db = 4" "length src = 4 * k" "os2ip src < os2ip Nb"
    "length stack = 4 * k" "2 ^ (32 * (k - 1)) \<le> os2ip src ^ os2ip Db mod os2ip Nb"
    and "2 ^ (32 * (k - 1)) \<le> os2ip src" "coprime (os2ip src) (os2ip Nb)"
    and "os2ip Db div 2 ^ j = 1" "residues_full (os2ip src) (os2ip Db) (os2ip Nb) j (os2ip src)"
  shows "RSA_PubDec (Some Db) (Some Nb) (32 * k) src to stack =
      padding_check_PKCS1_type_1 to (4 * k) (drop 1 (i2osp (4 * k) (os2ip src ^ os2ip Db mod os2ip Nb)))
        (4 * k - 1) (4 * k)"
proof -
  have D0: "0 < os2ip Db" using assms(9) by (cases "os2ip Db = 0") auto
  obtain N D C where x: "big_wf N" "m_iLength32 N = k" "big_val N = os2ip Nb" "big_normal D" "big_val D = os2ip Db"
    "big_wf C" "m_iLength32 C = k" "big_val C = os2ip src"
    "RSA_PubDec (Some Db) (Some Nb) (32 * k) src to stack = Option.bind (RsaTrans C D N) (\<lambda>_.
      padding_check_PKCS1_type_1 to (4 * k) (drop 1 (i2osp (4 * k) (os2ip src ^ os2ip Db mod os2ip Nb)))
        (4 * k - 1) (4 * k))"
    by (rule RSA_PubDec_trans [OF assms(1,2) D0 assms(3-6)])
  have "k \<le> 64" "2 ^ (32 * (k - 1)) \<le> big_val N" "1 < big_val N"
    using assms(1) x(3) by (simp_all add: key_bytes_def)
  then obtain r where "RsaTrans C D N = Some r"
    by (rule power_defined [OF x(1,2) _ _ _ x(6,7) _ _ _ x(4), of j]) (use assms x in simp_all)
  with x(9) show ?thesis by simp
qed

lemma os2ip_Cons: "os2ip (x # xs) = unat x * 256 ^ length xs + os2ip xs"
  by (simp add: os2ip_def le_val_append)

definition signed_block :: "nat \<Rightarrow> u8 list \<Rightarrow> u8 list" where
  "signed_block n msg = [0, 1] @ replicate (n - 3 - length msg) 0xff @ [0] @ msg"

lemma length_signed_block: "length msg + 11 \<le> n \<Longrightarrow> length (signed_block n msg) = n"
  by (simp add: signed_block_def)

lemma signed_block_ge:
  assumes "length msg + 11 \<le> 4 * k" "1 \<le> k"
  shows "2 ^ (32 * (k - 1)) \<le> os2ip (signed_block (4 * k) msg)"
proof -
  define rest where "rest = replicate (4 * k - 3 - length msg) 0xff @ [0] @ msg"
  have l: "length rest = 4 * k - 2" using assms by (simp add: rest_def)
  have "(2 :: nat) ^ (32 * (k - 1)) = 256 ^ (4 * (k - 1))" by (simp only: power_mult) simp
  also have "\<dots> \<le> 256 ^ length rest" unfolding l by (intro power_increasing) (use assms in auto)
  also have "\<dots> \<le> os2ip (signed_block (4 * k) msg)"
    unfolding signed_block_def rest_def [symmetric] by (simp add: os2ip_Cons)
  finally show ?thesis .
qed

text \<open>Signing a message and verifying the signature gives the message back.\<close>

lemma sign_verify_aux:
  assumes key: "key_bytes Nb k" "length Eb = 4 * k" "2 ^ (32 * (k - 1)) \<le> os2ip Eb" "length Db = 4"
    and msg: "length msg + 11 \<le> 4 * k" "os2ip (signed_block (4 * k) msg) < os2ip Nb"
      "coprime (os2ip (signed_block (4 * k) msg)) (os2ip Nb)"
    and pair: "os2ip (signed_block (4 * k) msg) ^ (os2ip Eb * os2ip Db) mod os2ip Nb = os2ip (signed_block (4 * k) msg)"
    and c: "c = os2ip (signed_block (4 * k) msg) ^ os2ip Eb mod os2ip Nb" "2 ^ (32 * (k - 1)) \<le> c"
    and full: "os2ip Eb div 2 ^ i = 1"
      "residues_full (os2ip (signed_block (4 * k) msg)) (os2ip Eb) (os2ip Nb) i (os2ip (signed_block (4 * k) msg))"
      "os2ip Db div 2 ^ j = 1" "residues_full c (os2ip Db) (os2ip Nb) j c"
    and buffers: "length to = 4 * k" "length padded = 4 * k" "length stack = 4 * k" "4 * k \<le> length out"
  shows "RSA_PrvEnc (Some Eb) (Some Nb) (32 * k) msg (length msg) to padded = Some (True, i2osp (4 * k) c)"
    and "RSA_PubDec (Some Db) (Some Nb) (32 * k) (i2osp (4 * k) c) out stack =
      Some (int (length msg), msg @ drop (length msg) out)"
proof -
  define em where "em = signed_block (4 * k) msg"
  define m where "m = os2ip em"
  note msg' = msg [folded em_def, folded m_def] and pair' = pair [folded em_def, folded m_def]
  note c' = c [folded em_def, folded m_def] and full' = full [folded em_def, folded m_def]
  have k: "1 \<le> k" "k \<le> 64" "k \<le> 66" using key(1) by (simp_all add: key_bytes_def)
  have Nn: "2 ^ (32 * (k - 1)) \<le> os2ip Nb" "1 < os2ip Nb" using key(1) by (simp_all add: key_bytes_def)
  have lem: "length em = 4 * k" unfolding em_def by (rule length_signed_block [OF msg(1)])
  obtain N where N: "SetParameter_char_openssl Nb (4 * k) = Some (N, Nb)" "big_wf N" "m_iLength32 N = k"
    "big_val N = os2ip Nb" by (rule key_bytes_load [OF key(1)])
  obtain E where E: "SetParameter_char_openssl Eb (4 * k) = Some (E, Eb)" "big_wf E" "m_iLength32 E = k"
    "big_val E = os2ip Eb" using SetParameter_char_correct [of k Eb] key(2) k by auto
  have En: "big_normal E" using E key(3) by (intro normal_by_value) auto
  obtain M where M: "SetParameter_char_openssl em (4 * k) = Some (M, em)" "big_wf M" "m_iLength32 M = k"
    "big_val M = m" using SetParameter_char_correct [of k em] lem k by (auto simp: m_def)
  have mge: "2 ^ (32 * (k - 1)) \<le> m" unfolding m_def em_def by (rule signed_block_ge [OF msg(1) k(1)])
  have Epos: "0 < big_val E" using full(1) E(4) by (cases "os2ip Eb = 0") auto
  obtain r where tr: "RsaTrans M E N = Some r"
    by (rule power_defined [OF N(2,3) k(2) _ _ M(2,3) _ _ _ En, of i])
      (use Nn N(4) M(4) E(4) mge msg'(2,3) full'(1,2) in simp_all)
  have r: "big_wf r" "m_iLength32 r \<le> k" "big_val r = c"
    using power_result [OF N(2,3) k(2) _ _ M(2,3) _ En Epos tr] Nn N(4) M(4) E(4) msg'(2) c'(1) by simp_all
  then have "m_iLength32 r = k" using full_length c(2) by simp
  then have st: "store_words to r (4 * k) = Some (i2osp (4 * k) c)"
    using r buffers(1) by (simp add: store_words_full)
  have pad: "padding_add_PKCS1_type_1 padded (4 * k) msg (length msg) = Some (1, em)"
    using padding_add_1_eq [of "length msg" "4 * k" msg padded] msg(1) buffers(2) by (simp add: em_def signed_block_def)
  have cmp: "\<not> Cmp M N \<ge> 0" using Cmp_same [of M N] N(3,4) M(3,4) msg'(2) by simp
  show "RSA_PrvEnc (Some Eb) (Some Nb) (32 * k) msg (length msg) to padded = Some (True, i2osp (4 * k) c)"
    using N(1) E(1) M(1) pad cmp tr st by (simp add: RSA_PrvEnc_def load_def prv_Encrypt_def Let_def)

  obtain D where D: "SetParameter_char_openssl Db 4 = Some (D, Db)" "big_normal D" "big_val D = os2ip Db"
    by (rule exponent4_load [OF key(4)])
  have clt: "c < os2ip Nb" unfolding c'(1) using Nn by simp
  have ccop: "coprime c (os2ip Nb)" unfolding c'(1) using msg'(3) Nn by (simp add: coprime_mod_left_iff)
  have cb: "c < 256 ^ (4 * k)"
    using clt os2ip_less [of Nb] key(1) by (simp add: key_bytes_def)
  define src where "src = i2osp (4 * k) c"
  have src: "length src = 4 * k" "os2ip src = c" by (simp_all add: src_def os2ip_i2osp cb)
  have again: "os2ip src ^ os2ip Db mod os2ip Nb = m"
    using pair' by (simp add: src(2) c'(1) power_mod power_mult [symmetric])
  have "RSA_PubDec (Some Db) (Some Nb) (32 * k) src out stack =
      padding_check_PKCS1_type_1 out (4 * k) (drop 1 (i2osp (4 * k) m)) (4 * k - 1) (4 * k)"
    using RSA_PubDec_defined [OF key(1,4) src(1) _ buffers(3), of j out] again clt ccop c(2) full(3,4) mge
    by (simp add: src(2))
  moreover have "i2osp (4 * k) m = em" using i2osp_os2ip [of em] by (simp add: lem m_def)
  moreover have "padding_check_PKCS1_type_1 out (4 * k) (drop 1 em) (4 * k - 1) (4 * k) =
      Some (int (length msg), msg @ drop (length msg) out)"
  proof -
    have e: "em = ([0, 1] @ replicate (4 * k - 3 - length msg) 0xff @ [0] @ take (length msg) msg) @ []"
      by (simp add: em_def signed_block_def)
    note block = padded_block [where P = "\<lambda>x. x = 0xff", OF msg(1) order_refl refl buffers(4) e]
    have "1 \<le> 4 * k - 1" using k(1) by simp
    with padding_check_1_iff [OF block(2) _ buffers(4), of "4 * k" "int (length msg)"] block(1) k(1)
    show ?thesis by simp
  qed
  ultimately show "RSA_PubDec (Some Db) (Some Nb) (32 * k) (i2osp (4 * k) c) out stack =
      Some (int (length msg), msg @ drop (length msg) out)" by (simp add: src_def)
qed

section \<open>A concrete key\<close>

text \<open>A message whose square is 1 modulo the modulus, for the concrete instances below.\<close>

lemma odd_power_involution: "m * m mod n = 1 \<Longrightarrow> m < n \<Longrightarrow> odd e \<Longrightarrow> m ^ e mod n = (m :: nat)"
proof -
  assume m: "m * m mod n = 1" "m < n" and "odd e"
  then obtain t where "e = 2 * t + 1" by (auto elim: oddE)
  then have "m ^ e mod n = (m * m) ^ t * m mod n" by (simp only: power_add power_mult power2_eq_square power_one_right)
  also have "\<dots> = (m * m mod n) ^ t mod n * m mod n" by (simp add: power_mod mod_mult_left_eq)
  also have "\<dots> = m" using m by simp
  finally show ?thesis .
qed

lemma toy_square: "(2417851639229258349346898 * 2417851639229258349346898) mod 7253554917687775048040691 = (1 :: nat)"
  by simp

lemma toy_full: "full_words 2417851639229258349346898" "full_words (Suc 0)"
  by (simp_all add: full_words_def residues_numeral)

lemma toy_residues:
  "residues_full 2417851639229258349346898 18446744073709551617 7253554917687775048040691 64 2417851639229258349346898" "residues_full 2417851639229258349346898 3 7253554917687775048040691 1 2417851639229258349346898"
  by (simp_all add: residues_numeral after_square_def toy_square toy_full Let_def)

lemma toy_coprime: "coprime (2417851639229258349346898 :: nat) 7253554917687775048040691"
  by (simp add: coprime_iff_gcd_eq_1 gcd_non_0_nat)

lemma le_val_ff: "le_val (replicate n 0xff) + 1 = 256 ^ n"
  by (induction n) simp_all

lemma toy_bytes:
  "os2ip [0, 0x05, 0xff, 0xff, 0xff, 0xff, 0xff, 0xff, 0xff, 0xfd, 0, 0xf3] = 7253554917687775048040691"
  "os2ip [0, 0, 0, 0x01, 0, 0, 0, 0, 0, 0, 0, 0x01] = 18446744073709551617"
  "os2ip [0, 0, 0, 3] = 3"
  "os2ip (signed_block 12 [0x52]) = 2417851639229258349346898"
     apply (simp add: os2ip_Cons, simp add: os2ip_def)
    apply (simp add: os2ip_Cons, simp add: os2ip_def)
   apply (simp add: os2ip_Cons, simp add: os2ip_def)
  using le_val_ff [of 8] by (simp add: os2ip_Cons signed_block_def, simp add: os2ip_def le_val_append)

section \<open>Properties\<close>

text \<open>
  C1: signing a message with the private key and checking the result with the public key
  gives the message back: \<open>RSA_PrvEnc\<close> succeeds, and \<open>RSA_PubDec\<close> on its output returns the
  length and the bytes of the message.  The keys are a modulus of \<open>k\<close> full words, a private
  exponent with a nonzero top word and a public exponent of four bytes that invert each other on the
  padded message; no residue of the two exponentiations has a zero word (with one,
  \<open>Mod_bigint\<close> can leave its array, which is why the hypothesis is there).
\<close>

theorem sign_then_verify:
  assumes "key_bytes Nb k" "length Eb = 4 * k" "2 ^ (32 * (k - 1)) \<le> os2ip Eb" "length Db = 4"
    and "length msg + 11 \<le> 4 * k" "m = os2ip (signed_block (4 * k) msg)" "m < os2ip Nb" "coprime m (os2ip Nb)"
    and "m ^ (os2ip Eb * os2ip Db) mod os2ip Nb = m"
    and "c = m ^ os2ip Eb mod os2ip Nb" "2 ^ (32 * (k - 1)) \<le> c"
    and "os2ip Eb div 2 ^ i = 1" "residues_full m (os2ip Eb) (os2ip Nb) i m"
    and "os2ip Db div 2 ^ j = 1" "residues_full c (os2ip Db) (os2ip Nb) j c"
    and "length to = 4 * k" "length padded = 4 * k" "length stack = 4 * k" "4 * k \<le> length out"
  shows "\<exists>sg. RSA_PrvEnc (Some Eb) (Some Nb) (32 * k) msg (length msg) to padded = Some (True, sg) \<and>
    RSA_PubDec (Some Db) (Some Nb) (32 * k) sg out stack = Some (int (length msg), msg @ drop (length msg) out)"
proof -
  note m = assms(6)
  note a = sign_verify_aux [OF assms(1-5) assms(7-10,11) [unfolded m] assms(12,13) [unfolded m] assms(14)
    assms(15) [unfolded m] assms(16-19)]
  show ?thesis by (rule exI, rule conjI, rule a(1), rule a(2))
qed

theorem sign_then_verify_witness:
  "\<exists>sg. RSA_PrvEnc (Some [0, 0, 0, 0x01, 0, 0, 0, 0, 0, 0, 0, 0x01])
      (Some [0, 0x05, 0xff, 0xff, 0xff, 0xff, 0xff, 0xff, 0xff, 0xfd, 0, 0xf3]) (32 * 3) [0x52] (length [0x52 :: u8])
      (replicate 12 0) (replicate 12 0) = Some (True, sg) \<and>
    RSA_PubDec (Some [0, 0, 0, 3]) (Some [0, 0x05, 0xff, 0xff, 0xff, 0xff, 0xff, 0xff, 0xff, 0xfd, 0, 0xf3]) (32 * 3)
      sg (replicate 12 0) (replicate 12 0) = Some (int (length [0x52 :: u8]), [0x52] @ drop (length [0x52 :: u8]) (replicate 12 0))"
proof (rule sign_then_verify [where m = 2417851639229258349346898 and c = 2417851639229258349346898 and i = 64 and j = 1 and k = 3])
  show "key_bytes [0, 0x05, 0xff, 0xff, 0xff, 0xff, 0xff, 0xff, 0xff, 0xfd, 0, 0xf3] 3" "2 ^ (32 * (3 - 1)) \<le> os2ip [0, 0, 0, 0x01, 0, 0, 0, 0, 0, 0, 0, 0x01]"
    unfolding key_bytes_def toy_bytes by simp_all
  show "2417851639229258349346898 = os2ip (signed_block (4 * 3) [0x52])" using toy_bytes(4) by simp
  show "2417851639229258349346898 ^ (os2ip [0, 0, 0, 0x01, 0, 0, 0, 0, 0, 0, 0, 0x01] * os2ip [0, 0, 0, 3]) mod
      os2ip [0, 0x05, 0xff, 0xff, 0xff, 0xff, 0xff, 0xff, 0xff, 0xfd, 0, 0xf3] = 2417851639229258349346898"
    unfolding toy_bytes by (rule odd_power_involution [OF toy_square]) simp_all
  show "2417851639229258349346898 = 2417851639229258349346898 ^ os2ip [0, 0, 0, 0x01, 0, 0, 0, 0, 0, 0, 0, 0x01] mod
      os2ip [0, 0x05, 0xff, 0xff, 0xff, 0xff, 0xff, 0xff, 0xff, 0xfd, 0, 0xf3]"
    unfolding toy_bytes by (rule odd_power_involution [OF toy_square, symmetric]) simp_all
qed (unfold toy_bytes, simp_all add: toy_coprime toy_residues toy_full)

end
