(* ===== verification/SecHeader.thy ===== *)
theory SecHeader
  imports Rsa
begin

text \<open>
  The packed structures of \<^verbatim>\<open>signimage/source/common/verify/inc/sprdsec_header.h\<close> as records,
  and their bytes.  The code overlays them on image buffers, so for each there is the encoding that
  \<open>write\<close> puts in a file and the decoding of a pointer into a buffer, \<open>None\<close> where the
  structure does not lie inside it.  \<open>SoC_ID\<close> is not defined in the build.  The field \<open>e\<close> of
  a public key is only ever used as four bytes and is kept as those.
\<close>

section \<open>Integers in memory\<close>

definition bytes_of_u64 :: "u64 \<Rightarrow> u8 list" where
  "bytes_of_u64 w = map (\<lambda>n. ucast (drop_bit n w)) [0, 8, 16, 24, 32, 40, 48, 56]"

definition read32 :: "u8 list \<Rightarrow> nat \<Rightarrow> u32 option" where
  "read32 buf off = map_option (\<lambda>bs. of_nat (le_val bs)) (mem_read buf off 4)"

definition read64 :: "u8 list \<Rightarrow> nat \<Rightarrow> u64 option" where
  "read64 buf off = map_option (\<lambda>bs. of_nat (le_val bs)) (mem_read buf off 8)"

section \<open>The structures\<close>

record sys_img_header =
  mMagicNum :: u32
  mVersion :: u32
  mPayloadHash :: "u8 list"
  mImgAddr :: u64
  mImgSize :: u32
  reserved :: "u8 list"

record sprdsignedimageheader =
  magic :: "u8 list"
  header_version_major :: u32
  header_version_minor :: u32
  payload_size :: u64
  payload_offset :: u64
  cert_size :: u64
  cert_offset :: u64
  priv_size :: u64
  priv_offset :: u64
  cert_dbg_prim_size :: u64
  cert_dbg_prim_offset :: u64
  cert_dbg_developer_size :: u64
  cert_dbg_developer_offset :: u64

record sprd_rsapubkey =
  keybit_len :: u32
  key_e :: "u8 list"
  key_mod :: "u8 list"

record sprd_keycert =
  kc_certtype :: u32
  kc_pubkey :: sprd_rsapubkey
  kc_hash_data :: "u8 list"
  kc_hash_key :: "u8 list"
  kc_type :: u32
  kc_version :: u32
  kc_signature :: "u8 list"

record sprd_contentcert =
  cc_certtype :: u32
  cc_pubkey :: sprd_rsapubkey
  cc_hash_data :: "u8 list"
  cc_type :: u32
  cc_version :: u32
  cc_signature :: "u8 list"

record primary_debugcert =
  pd_cert_type :: u32
  pd_pubkey :: sprd_rsapubkey
  pd_devkey_debug_hash_data :: "u8 list"
  pd_debug_mask :: u32
  pd_reserved :: u32
  pd_devkey_debug_signature :: "u8 list"

record developer_debugcert =
  dd_cert_type :: u32
  dd_dev_pubkey :: sprd_rsapubkey
  dd_debug_mask :: u32
  dd_uid0 :: u32
  dd_uid1 :: u32
  dd_dev_signature :: "u8 list"

definition HASH_BYTE_LEN :: nat where "HASH_BYTE_LEN = 32"
definition KEYCERT_HASH_LEN :: nat where "KEYCERT_HASH_LEN = 72"
definition CNTCERT_HASH_LEN :: nat where "CNTCERT_HASH_LEN = 40"
definition PRIMDBG_HASH_LEN :: nat where "PRIMDBG_HASH_LEN = 40"
definition DEVEDBG_HASH_LEN :: nat where "DEVEDBG_HASH_LEN = 12"
definition SPRD_RSAPUBKLEN :: nat where "SPRD_RSAPUBKLEN = 264"
definition sizeof_sys_img_header :: nat where "sizeof_sys_img_header = 512"
definition sizeof_sign_header :: nat where "sizeof_sign_header = 96"
definition sizeof_keycert :: nat where "sizeof_keycert = 596"
definition sizeof_contentcert :: nat where "sizeof_contentcert = 564"

lemmas struct_sizes = HASH_BYTE_LEN_def KEYCERT_HASH_LEN_def CNTCERT_HASH_LEN_def PRIMDBG_HASH_LEN_def
  DEVEDBG_HASH_LEN_def SPRD_RSAPUBKLEN_def sizeof_sys_img_header_def sizeof_sign_header_def
  sizeof_keycert_def sizeof_contentcert_def

section \<open>Encoding\<close>

definition sys_img_header_bytes :: "sys_img_header \<Rightarrow> u8 list" where
  "sys_img_header_bytes h =
     bytes_of_word (mMagicNum h) @ bytes_of_word (mVersion h) @ mPayloadHash h @ bytes_of_u64 (mImgAddr h)
       @ bytes_of_word (mImgSize h) @ reserved h"

definition sign_header_bytes :: "sprdsignedimageheader \<Rightarrow> u8 list" where
  "sign_header_bytes h =
     magic h @ bytes_of_word (header_version_major h) @ bytes_of_word (header_version_minor h)
       @ bytes_of_u64 (payload_size h) @ bytes_of_u64 (payload_offset h)
       @ bytes_of_u64 (cert_size h) @ bytes_of_u64 (cert_offset h)
       @ bytes_of_u64 (priv_size h) @ bytes_of_u64 (priv_offset h)
       @ bytes_of_u64 (cert_dbg_prim_size h) @ bytes_of_u64 (cert_dbg_prim_offset h)
       @ bytes_of_u64 (cert_dbg_developer_size h) @ bytes_of_u64 (cert_dbg_developer_offset h)"

definition pubkey_bytes :: "sprd_rsapubkey \<Rightarrow> u8 list" where
  "pubkey_bytes k = bytes_of_word (keybit_len k) @ key_e k @ key_mod k"

definition keycert_bytes :: "sprd_keycert \<Rightarrow> u8 list" where
  "keycert_bytes c =
     bytes_of_word (kc_certtype c) @ pubkey_bytes (kc_pubkey c) @ kc_hash_data c @ kc_hash_key c
       @ bytes_of_word (kc_type c) @ bytes_of_word (kc_version c) @ kc_signature c"

definition contentcert_bytes :: "sprd_contentcert \<Rightarrow> u8 list" where
  "contentcert_bytes c =
     bytes_of_word (cc_certtype c) @ pubkey_bytes (cc_pubkey c) @ cc_hash_data c
       @ bytes_of_word (cc_type c) @ bytes_of_word (cc_version c) @ cc_signature c"

section \<open>Decoding at an offset\<close>

definition sys_img_header_at :: "u8 list \<Rightarrow> nat \<Rightarrow> sys_img_header option" where
  "sys_img_header_at b p =
     Option.bind (read32 b p) (\<lambda>mg. Option.bind (read32 b (p + 4)) (\<lambda>v.
     Option.bind (mem_read b (p + 8) 32) (\<lambda>h. Option.bind (read64 b (p + 40)) (\<lambda>a.
     Option.bind (read32 b (p + 48)) (\<lambda>s. Option.bind (mem_read b (p + 52) 460) (\<lambda>r.
     Some \<lparr>mMagicNum = mg, mVersion = v, mPayloadHash = h, mImgAddr = a, mImgSize = s, reserved = r\<rparr>))))))"

definition sign_header_at :: "u8 list \<Rightarrow> nat \<Rightarrow> sprdsignedimageheader option" where
  "sign_header_at b p =
     Option.bind (mem_read b p 8) (\<lambda>mg. Option.bind (read32 b (p + 8)) (\<lambda>vj. Option.bind (read32 b (p + 12)) (\<lambda>vn.
     Option.bind (read64 b (p + 16)) (\<lambda>ps. Option.bind (read64 b (p + 24)) (\<lambda>po.
     Option.bind (read64 b (p + 32)) (\<lambda>cs. Option.bind (read64 b (p + 40)) (\<lambda>co.
     Option.bind (read64 b (p + 48)) (\<lambda>vs. Option.bind (read64 b (p + 56)) (\<lambda>vo.
     Option.bind (read64 b (p + 64)) (\<lambda>ds. Option.bind (read64 b (p + 72)) (\<lambda>dof.
     Option.bind (read64 b (p + 80)) (\<lambda>es. Option.bind (read64 b (p + 88)) (\<lambda>eo.
     Some \<lparr>magic = mg, header_version_major = vj, header_version_minor = vn, payload_size = ps,
           payload_offset = po, cert_size = cs, cert_offset = co, priv_size = vs, priv_offset = vo,
           cert_dbg_prim_size = ds, cert_dbg_prim_offset = dof, cert_dbg_developer_size = es,
           cert_dbg_developer_offset = eo\<rparr>)))))))))))))"

definition pubkey_at :: "u8 list \<Rightarrow> nat \<Rightarrow> sprd_rsapubkey option" where
  "pubkey_at b p =
     Option.bind (read32 b p) (\<lambda>l. Option.bind (mem_read b (p + 4) 4) (\<lambda>e.
     Option.bind (mem_read b (p + 8) 256) (\<lambda>m. Some \<lparr>keybit_len = l, key_e = e, key_mod = m\<rparr>)))"

definition keycert_at :: "u8 list \<Rightarrow> nat \<Rightarrow> sprd_keycert option" where
  "keycert_at b p =
     Option.bind (read32 b p) (\<lambda>t. Option.bind (pubkey_at b (p + 4)) (\<lambda>k.
     Option.bind (mem_read b (p + 268) 32) (\<lambda>hd. Option.bind (mem_read b (p + 300) 32) (\<lambda>hk.
     Option.bind (read32 b (p + 332)) (\<lambda>ty. Option.bind (read32 b (p + 336)) (\<lambda>v.
     Option.bind (mem_read b (p + 340) 256) (\<lambda>s.
     Some \<lparr>kc_certtype = t, kc_pubkey = k, kc_hash_data = hd, kc_hash_key = hk, kc_type = ty, kc_version = v,
           kc_signature = s\<rparr>)))))))"

definition contentcert_at :: "u8 list \<Rightarrow> nat \<Rightarrow> sprd_contentcert option" where
  "contentcert_at b p =
     Option.bind (read32 b p) (\<lambda>t. Option.bind (pubkey_at b (p + 4)) (\<lambda>k.
     Option.bind (mem_read b (p + 268) 32) (\<lambda>hd.
     Option.bind (read32 b (p + 300)) (\<lambda>ty. Option.bind (read32 b (p + 304)) (\<lambda>v.
     Option.bind (mem_read b (p + 308) 256) (\<lambda>s.
     Some \<lparr>cc_certtype = t, cc_pubkey = k, cc_hash_data = hd, cc_type = ty, cc_version = v, cc_signature = s\<rparr>))))))"

definition primary_debugcert_at :: "u8 list \<Rightarrow> nat \<Rightarrow> primary_debugcert option" where
  "primary_debugcert_at b p =
     Option.bind (read32 b p) (\<lambda>t. Option.bind (pubkey_at b (p + 4)) (\<lambda>k.
     Option.bind (mem_read b (p + 268) 32) (\<lambda>hd.
     Option.bind (read32 b (p + 300)) (\<lambda>m. Option.bind (read32 b (p + 304)) (\<lambda>r.
     Option.bind (mem_read b (p + 308) 256) (\<lambda>s.
     Some \<lparr>pd_cert_type = t, pd_pubkey = k, pd_devkey_debug_hash_data = hd, pd_debug_mask = m, pd_reserved = r,
           pd_devkey_debug_signature = s\<rparr>))))))"

definition developer_debugcert_at :: "u8 list \<Rightarrow> nat \<Rightarrow> developer_debugcert option" where
  "developer_debugcert_at b p =
     Option.bind (read32 b p) (\<lambda>t. Option.bind (pubkey_at b (p + 4)) (\<lambda>k.
     Option.bind (read32 b (p + 268)) (\<lambda>m. Option.bind (read32 b (p + 272)) (\<lambda>u0.
     Option.bind (read32 b (p + 276)) (\<lambda>u1. Option.bind (mem_read b (p + 280) 256) (\<lambda>s.
     Some \<lparr>dd_cert_type = t, dd_dev_pubkey = k, dd_debug_mask = m, dd_uid0 = u0, dd_uid1 = u1,
           dd_dev_signature = s\<rparr>))))))"

section \<open>Decoding an encoding\<close>

definition pubkey_wf :: "sprd_rsapubkey \<Rightarrow> bool" where
  "pubkey_wf k \<longleftrightarrow> length (key_e k) = 4 \<and> length (key_mod k) = 256"

definition keycert_wf :: "sprd_keycert \<Rightarrow> bool" where
  "keycert_wf c \<longleftrightarrow> pubkey_wf (kc_pubkey c) \<and> length (kc_hash_data c) = 32 \<and> length (kc_hash_key c) = 32 \<and>
     length (kc_signature c) = 256"

definition contentcert_wf :: "sprd_contentcert \<Rightarrow> bool" where
  "contentcert_wf c \<longleftrightarrow> pubkey_wf (cc_pubkey c) \<and> length (cc_hash_data c) = 32 \<and> length (cc_signature c) = 256"

definition sign_header_wf :: "sprdsignedimageheader \<Rightarrow> bool" where
  "sign_header_wf h \<longleftrightarrow> length (magic h) = 8"

definition sys_img_header_wf :: "sys_img_header \<Rightarrow> bool" where
  "sys_img_header_wf h \<longleftrightarrow> length (mPayloadHash h) = 32 \<and> length (reserved h) = 460"

named_theorems fields "reading a field of an encoded structure"

lemma mem_read_skip [fields]: "length xs \<le> k \<Longrightarrow> mem_read (xs @ ys) k n = mem_read ys (k - length xs) n"
  by (auto simp: mem_read_def)

lemma mem_read_here [fields]: "length xs = n \<Longrightarrow> mem_read (xs @ ys) 0 n = Some xs"
  by (simp add: mem_read_def)

lemma read32_skip [fields]: "length xs \<le> k \<Longrightarrow> read32 (xs @ ys) k = read32 ys (k - length xs)"
  by (simp add: read32_def mem_read_skip)

lemma read64_skip [fields]: "length xs \<le> k \<Longrightarrow> read64 (xs @ ys) k = read64 ys (k - length xs)"
  by (simp add: read64_def mem_read_skip)

lemma read32_here [fields]: "read32 (bytes_of_word w @ ys) 0 = Some w"
  by (simp add: read32_def mem_read_here le_val_bytes_of_word)

lemma length_bytes_of_u64 [simp]: "length (bytes_of_u64 w) = 8"
  by (simp add: bytes_of_u64_def)

lemma le_val_bytes_of_u64: "le_val (bytes_of_u64 w) = unat w"
proof -
  have "(ucast (drop_bit (8 * i) w) :: u8) = of_nat (unat w div 256 ^ i)" for i
  proof (rule word_unat_eq_iff [THEN iffD2])
    have "unat (drop_bit (8 * i) w) = drop_bit (8 * i) (unat w)"
      by (rule bit_eqI) (auto simp: bit_simps bit_unsigned_iff dest: bit_imp_le_length)
    also have "\<dots> = unat w div 256 ^ i" by (simp add: drop_bit_eq_div power_mult)
    finally have "unat (drop_bit (8 * i) w) = unat w div 256 ^ i" .
    then show "unat (ucast (drop_bit (8 * i) w) :: u8) = unat (of_nat (unat w div 256 ^ i) :: u8)"
      by (simp add: unsigned_ucast_eq unsigned_of_nat)
  qed
  from this [of 0] this [of 1] this [of 2] this [of 3] this [of 4] this [of 5] this [of 6] this [of 7]
  have "bytes_of_u64 w = map (\<lambda>i. of_nat (unat w div 256 ^ i)) [0..<8]"
    by (simp add: bytes_of_u64_def upt_rec)
  then show ?thesis using le_val_digits [of "unat w" 8] by simp
qed

lemma read64_here [fields]: "read64 (bytes_of_u64 w @ ys) 0 = Some w"
  by (simp add: read64_def mem_read_here le_val_bytes_of_u64)

lemma at_skip [fields]: "length xs \<le> k \<Longrightarrow> pubkey_at (xs @ ys) k = pubkey_at ys (k - length xs)"
  by (simp add: pubkey_at_def fields)

lemma pubkey_here [fields]: "pubkey_wf k \<Longrightarrow> pubkey_at (pubkey_bytes k @ ys) 0 = Some k"
  by (simp add: pubkey_at_def pubkey_bytes_def pubkey_wf_def fields)

lemma length_pubkey_bytes [simp]: "pubkey_wf k \<Longrightarrow> length (pubkey_bytes k) = 264"
  by (simp add: pubkey_bytes_def pubkey_wf_def)

lemma sys_img_header_at_bytes:
  "sys_img_header_wf h \<Longrightarrow> length pre = p \<Longrightarrow> sys_img_header_at (pre @ sys_img_header_bytes h @ post) p = Some h"
  by (simp add: sys_img_header_at_def sys_img_header_bytes_def sys_img_header_wf_def fields)

lemma sign_header_at_bytes:
  "sign_header_wf h \<Longrightarrow> length pre = p \<Longrightarrow> sign_header_at (pre @ sign_header_bytes h @ post) p = Some h"
  by (simp add: sign_header_at_def sign_header_bytes_def sign_header_wf_def fields)

lemma keycert_at_bytes:
  "keycert_wf c \<Longrightarrow> length pre = p \<Longrightarrow> keycert_at (pre @ keycert_bytes c @ post) p = Some c"
  by (simp add: keycert_at_def keycert_bytes_def keycert_wf_def fields)

lemma contentcert_at_bytes:
  "contentcert_wf c \<Longrightarrow> length pre = p \<Longrightarrow> contentcert_at (pre @ contentcert_bytes c @ post) p = Some c"
  by (simp add: contentcert_at_def contentcert_bytes_def contentcert_wf_def fields)

lemma struct_lengths:
  "sys_img_header_wf h \<Longrightarrow> length (sys_img_header_bytes h) = sizeof_sys_img_header"
  "sign_header_wf g \<Longrightarrow> length (sign_header_bytes g) = sizeof_sign_header"
  "keycert_wf c \<Longrightarrow> length (keycert_bytes c) = sizeof_keycert"
  "contentcert_wf d \<Longrightarrow> length (contentcert_bytes d) = sizeof_contentcert"
  by (simp_all add: struct_sizes sys_img_header_bytes_def sys_img_header_wf_def sign_header_bytes_def sign_header_wf_def
    keycert_bytes_def keycert_wf_def contentcert_bytes_def contentcert_wf_def)

end
