(* ===== verification/Sha256.thy ===== *)
theory Sha256
  imports Prelude
begin

text \<open>
  The hash of \<^verbatim>\<open>signimage/source/common/sha256/src/sprdsha256.c\<close> and of the macros of
  \<^verbatim>\<open>sha256/inc/sprdsha.h\<close>: the compression with its 64 unrolled rounds, the buffered
  \<open>sha256_process\<close> and the padding of \<open>sha256_done\<close>, against a specification that pads
  the whole message and folds a round function over its blocks.
  \<open>LTC_SMALL_CODE\<close> and \<open>LTC_CLEAN_STACK\<close> are not defined in the build, so the
  unrolled rounds are the ones compiled.
\<close>

section \<open>The code\<close>

definition LOAD32H :: "u8 list \<Rightarrow> nat \<Rightarrow> u32" where
  "LOAD32H y off =
     ucast (push_bit 24 (ucast (y ! off AND 255) :: u64) OR push_bit 16 (ucast (y ! (off + 1) AND 255))
       OR push_bit 8 (ucast (y ! (off + 2) AND 255)) OR ucast (y ! (off + 3) AND 255))"

definition STORE32H :: "u32 \<Rightarrow> u8 list" where
  "STORE32H x = map (\<lambda>n. ucast (drop_bit n x AND 255)) [24, 16, 8, 0]"

definition STORE64H :: "u64 \<Rightarrow> u8 list" where
  "STORE64H x = map (\<lambda>n. ucast (drop_bit n x AND 255)) [56, 48, 40, 32, 24, 16, 8, 0]"

definition ROR :: "u32 \<Rightarrow> nat \<Rightarrow> u32" where
  "ROR x y =
     (let xx = ucast x :: u64
      in ucast ((drop_bit (y mod 32) (xx AND 0xFFFFFFFF) OR push_bit (32 - y mod 32) xx) AND 0xFFFFFFFF))"

definition Ch :: "u32 \<Rightarrow> u32 \<Rightarrow> u32 \<Rightarrow> u32" where
  "Ch x y z = z XOR (x AND (y XOR z))"

definition Maj :: "u32 \<Rightarrow> u32 \<Rightarrow> u32 \<Rightarrow> u32" where
  "Maj x y z = ((x OR y) AND z) OR (x AND y)"

definition R_shift :: "u32 \<Rightarrow> nat \<Rightarrow> u32" where
  "R_shift x n = drop_bit n (x AND 0xFFFFFFFF)"

definition Sigma0 :: "u32 \<Rightarrow> u32" where
  "Sigma0 x = ROR x 2 XOR ROR x 13 XOR ROR x 22"

definition Sigma1 :: "u32 \<Rightarrow> u32" where
  "Sigma1 x = ROR x 6 XOR ROR x 11 XOR ROR x 25"

definition Gamma0 :: "u32 \<Rightarrow> u32" where
  "Gamma0 x = ROR x 7 XOR ROR x 18 XOR R_shift x 3"

definition Gamma1 :: "u32 \<Rightarrow> u32" where
  "Gamma1 x = ROR x 17 XOR ROR x 19 XOR R_shift x 10"

text \<open>\<open>RND\<close> takes the positions of the eight working variables in the array \<open>S\<close>.\<close>

definition RND :: "u32 list \<Rightarrow> nat list \<Rightarrow> nat \<Rightarrow> u32 \<Rightarrow> u32 list \<Rightarrow> u32 list" where
  "RND W p i ki S =
     (let t0 = S ! (p ! 7) + Sigma1 (S ! (p ! 4)) + Ch (S ! (p ! 4)) (S ! (p ! 5)) (S ! (p ! 6)) + ki + W ! i;
          t1 = Sigma0 (S ! (p ! 0)) + Maj (S ! (p ! 0)) (S ! (p ! 1)) (S ! (p ! 2));
          S = S[p ! 3 := S ! (p ! 3) + t0]
      in S[p ! 7 := t0 + t1])"

definition unrolled_rounds :: "(nat list \<times> nat \<times> u32) list" where
  "unrolled_rounds = [
    ([0, 1, 2, 3, 4, 5, 6, 7], 0, 0x428a2f98),
    ([7, 0, 1, 2, 3, 4, 5, 6], 1, 0x71374491),
    ([6, 7, 0, 1, 2, 3, 4, 5], 2, 0xb5c0fbcf),
    ([5, 6, 7, 0, 1, 2, 3, 4], 3, 0xe9b5dba5),
    ([4, 5, 6, 7, 0, 1, 2, 3], 4, 0x3956c25b),
    ([3, 4, 5, 6, 7, 0, 1, 2], 5, 0x59f111f1),
    ([2, 3, 4, 5, 6, 7, 0, 1], 6, 0x923f82a4),
    ([1, 2, 3, 4, 5, 6, 7, 0], 7, 0xab1c5ed5),
    ([0, 1, 2, 3, 4, 5, 6, 7], 8, 0xd807aa98),
    ([7, 0, 1, 2, 3, 4, 5, 6], 9, 0x12835b01),
    ([6, 7, 0, 1, 2, 3, 4, 5], 10, 0x243185be),
    ([5, 6, 7, 0, 1, 2, 3, 4], 11, 0x550c7dc3),
    ([4, 5, 6, 7, 0, 1, 2, 3], 12, 0x72be5d74),
    ([3, 4, 5, 6, 7, 0, 1, 2], 13, 0x80deb1fe),
    ([2, 3, 4, 5, 6, 7, 0, 1], 14, 0x9bdc06a7),
    ([1, 2, 3, 4, 5, 6, 7, 0], 15, 0xc19bf174),
    ([0, 1, 2, 3, 4, 5, 6, 7], 16, 0xe49b69c1),
    ([7, 0, 1, 2, 3, 4, 5, 6], 17, 0xefbe4786),
    ([6, 7, 0, 1, 2, 3, 4, 5], 18, 0x0fc19dc6),
    ([5, 6, 7, 0, 1, 2, 3, 4], 19, 0x240ca1cc),
    ([4, 5, 6, 7, 0, 1, 2, 3], 20, 0x2de92c6f),
    ([3, 4, 5, 6, 7, 0, 1, 2], 21, 0x4a7484aa),
    ([2, 3, 4, 5, 6, 7, 0, 1], 22, 0x5cb0a9dc),
    ([1, 2, 3, 4, 5, 6, 7, 0], 23, 0x76f988da),
    ([0, 1, 2, 3, 4, 5, 6, 7], 24, 0x983e5152),
    ([7, 0, 1, 2, 3, 4, 5, 6], 25, 0xa831c66d),
    ([6, 7, 0, 1, 2, 3, 4, 5], 26, 0xb00327c8),
    ([5, 6, 7, 0, 1, 2, 3, 4], 27, 0xbf597fc7),
    ([4, 5, 6, 7, 0, 1, 2, 3], 28, 0xc6e00bf3),
    ([3, 4, 5, 6, 7, 0, 1, 2], 29, 0xd5a79147),
    ([2, 3, 4, 5, 6, 7, 0, 1], 30, 0x06ca6351),
    ([1, 2, 3, 4, 5, 6, 7, 0], 31, 0x14292967),
    ([0, 1, 2, 3, 4, 5, 6, 7], 32, 0x27b70a85),
    ([7, 0, 1, 2, 3, 4, 5, 6], 33, 0x2e1b2138),
    ([6, 7, 0, 1, 2, 3, 4, 5], 34, 0x4d2c6dfc),
    ([5, 6, 7, 0, 1, 2, 3, 4], 35, 0x53380d13),
    ([4, 5, 6, 7, 0, 1, 2, 3], 36, 0x650a7354),
    ([3, 4, 5, 6, 7, 0, 1, 2], 37, 0x766a0abb),
    ([2, 3, 4, 5, 6, 7, 0, 1], 38, 0x81c2c92e),
    ([1, 2, 3, 4, 5, 6, 7, 0], 39, 0x92722c85),
    ([0, 1, 2, 3, 4, 5, 6, 7], 40, 0xa2bfe8a1),
    ([7, 0, 1, 2, 3, 4, 5, 6], 41, 0xa81a664b),
    ([6, 7, 0, 1, 2, 3, 4, 5], 42, 0xc24b8b70),
    ([5, 6, 7, 0, 1, 2, 3, 4], 43, 0xc76c51a3),
    ([4, 5, 6, 7, 0, 1, 2, 3], 44, 0xd192e819),
    ([3, 4, 5, 6, 7, 0, 1, 2], 45, 0xd6990624),
    ([2, 3, 4, 5, 6, 7, 0, 1], 46, 0xf40e3585),
    ([1, 2, 3, 4, 5, 6, 7, 0], 47, 0x106aa070),
    ([0, 1, 2, 3, 4, 5, 6, 7], 48, 0x19a4c116),
    ([7, 0, 1, 2, 3, 4, 5, 6], 49, 0x1e376c08),
    ([6, 7, 0, 1, 2, 3, 4, 5], 50, 0x2748774c),
    ([5, 6, 7, 0, 1, 2, 3, 4], 51, 0x34b0bcb5),
    ([4, 5, 6, 7, 0, 1, 2, 3], 52, 0x391c0cb3),
    ([3, 4, 5, 6, 7, 0, 1, 2], 53, 0x4ed8aa4a),
    ([2, 3, 4, 5, 6, 7, 0, 1], 54, 0x5b9cca4f),
    ([1, 2, 3, 4, 5, 6, 7, 0], 55, 0x682e6ff3),
    ([0, 1, 2, 3, 4, 5, 6, 7], 56, 0x748f82ee),
    ([7, 0, 1, 2, 3, 4, 5, 6], 57, 0x78a5636f),
    ([6, 7, 0, 1, 2, 3, 4, 5], 58, 0x84c87814),
    ([5, 6, 7, 0, 1, 2, 3, 4], 59, 0x8cc70208),
    ([4, 5, 6, 7, 0, 1, 2, 3], 60, 0x90befffa),
    ([3, 4, 5, 6, 7, 0, 1, 2], 61, 0xa4506ceb),
    ([2, 3, 4, 5, 6, 7, 0, 1], 62, 0xbef9a3f7),
    ([1, 2, 3, 4, 5, 6, 7, 0], 63, 0xc67178f2)]"

fun fill_W :: "nat \<Rightarrow> u32 list \<Rightarrow> u32 list" where
  "fill_W 0 W = W"
| "fill_W (Suc n) W =
     (let i = length W
      in fill_W n (W @ [Gamma1 (W ! (i - 2)) + W ! (i - 7) + Gamma0 (W ! (i - 15)) + W ! (i - 16)]))"

record sha256_state =
  msg_length :: u64
  sha_state :: "u32 list"
  curlen :: nat
  sha_buf :: "u8 list"

definition sha256_compress :: "sha256_state \<Rightarrow> u8 list \<Rightarrow> sha256_state" where
  "sha256_compress md bs =
     (let W = fill_W 48 (map (\<lambda>i. LOAD32H bs (4 * i)) [0..<16]);
          S = fold (\<lambda>(p, i, ki). RND W p i ki) unrolled_rounds (map (\<lambda>i. sha_state md ! i) [0..<8])
      in md\<lparr>sha_state := map (\<lambda>i. sha_state md ! i + S ! i) [0..<8]\<rparr>)"

definition sha256_init :: "u8 list \<Rightarrow> sha256_state" where
  "sha256_init b = \<lparr>msg_length = 0,
     sha_state = [0x6A09E667, 0xBB67AE85, 0x3C6EF372, 0xA54FF53A, 0x510E527F, 0x9B05688C, 0x1F83D9AB, 0x5BE0CD19],
     curlen = 0, sha_buf = b\<rparr>"

definition CRYPT_OK :: int where
  "CRYPT_OK = 0"

definition CRYPT_INVALID_ARG :: int where
  "CRYPT_INVALID_ARG = 1"

text \<open>The loop of \<open>HASH_PROCESS\<close>, on the bytes still to read.  \<open>curlen\<close> is a \<open>nat\<close>: the code
  keeps it at most 64, which the entry check and the loop itself see to.\<close>

function process_loop :: "sha256_state \<Rightarrow> u8 list \<Rightarrow> sha256_state" where
  "process_loop md inp =
     (if inp = [] \<or> curlen md > 64 then md
      else if curlen md = 0 \<and> length inp \<ge> 64
      then let md = sha256_compress md (take 64 inp)
           in process_loop (md\<lparr>msg_length := msg_length md + 512\<rparr>) (drop 64 inp)
      else let n = min (length inp) (64 - curlen md);
               md = md\<lparr>sha_buf := take (curlen md) (sha_buf md) @ take n inp @ drop (curlen md + n) (sha_buf md),
                       curlen := curlen md + n\<rparr>
           in if curlen md = 64
              then let md = sha256_compress md (sha_buf md)
                   in process_loop (md\<lparr>msg_length := msg_length md + 512, curlen := 0\<rparr>) (drop n inp)
              else process_loop md (drop n inp))"
  by pat_completeness auto
termination
  by (relation "measure (\<lambda>(md, inp). 2 * length inp + (if curlen md = 64 then 1 else 0))")
    (auto simp: sha256_compress_def Let_def)

definition sha256_process :: "sha256_state \<Rightarrow> u8 list \<Rightarrow> int \<times> sha256_state" where
  "sha256_process md inp =
     (if curlen md > 64 then (CRYPT_INVALID_ARG, md) else (CRYPT_OK, process_loop md inp))"

text \<open>\<open>while (curlen < n) buf[curlen++] = 0\<close>.\<close>

definition zero_upto :: "nat \<Rightarrow> sha256_state \<Rightarrow> sha256_state" where
  "zero_upto n md =
     (if curlen md < n
      then md\<lparr>sha_buf := take (curlen md) (sha_buf md) @ replicate (n - curlen md) 0 @ drop n (sha_buf md), curlen := n\<rparr>
      else md)"

definition sha256_done :: "sha256_state \<Rightarrow> u8 list \<Rightarrow> int \<times> u8 list" where
  "sha256_done md out =
     (if curlen md \<ge> 64 then (CRYPT_INVALID_ARG, out)
      else let md = md\<lparr>msg_length := msg_length md + of_nat (curlen md) * 8\<rparr>;
               md = md\<lparr>sha_buf := (sha_buf md)[curlen md := 0x80], curlen := curlen md + 1\<rparr>;
               md = (if curlen md > 56
                     then (let md = zero_upto 64 md in (sha256_compress md (sha_buf md))\<lparr>curlen := 0\<rparr>)
                     else md);
               md = zero_upto 56 md;
               md = md\<lparr>sha_buf := take 56 (sha_buf md) @ STORE64H (msg_length md)\<rparr>;
               md = sha256_compress md (sha_buf md)
           in (CRYPT_OK, concat (map (\<lambda>i. STORE32H (sha_state md ! i)) [0..<8]) @ drop 32 out))"

text \<open>\<open>junk\<close> is the uninitialised buffer of the local \<open>hash_state\<close>.\<close>

definition sha256_csum_wd :: "u8 list \<Rightarrow> u8 list \<Rightarrow> u8 list \<Rightarrow> u8 list" where
  "sha256_csum_wd junk input output =
     snd (sha256_done (snd (sha256_process (sha256_init junk) input)) output)"

declare process_loop.simps [simp del]

end
