(* ===== verification/Sha256Spec.thy ===== *)
theory Sha256Spec
  imports Sha256
begin

text \<open>
  The specification of the hash (FIPS 180-4): rotations, the two mixing functions, the
  message schedule, one round on eight shifting variables, the block function and the
  padding of a whole message; and the proof that the unrolled rounds of
  \<open>sha256_compress\<close>, which move the roles instead of the values, compute the block
  function.
\<close>

section \<open>Specification\<close>

definition ch_spec :: "u32 \<Rightarrow> u32 \<Rightarrow> u32 \<Rightarrow> u32" where
  "ch_spec x y z = (x AND y) XOR (NOT x AND z)"

definition maj_spec :: "u32 \<Rightarrow> u32 \<Rightarrow> u32 \<Rightarrow> u32" where
  "maj_spec x y z = (x AND y) XOR (x AND z) XOR (y AND z)"

definition big_sigma0 :: "u32 \<Rightarrow> u32" where
  "big_sigma0 x = word_rotr 2 x XOR word_rotr 13 x XOR word_rotr 22 x"

definition big_sigma1 :: "u32 \<Rightarrow> u32" where
  "big_sigma1 x = word_rotr 6 x XOR word_rotr 11 x XOR word_rotr 25 x"

definition small_sigma0 :: "u32 \<Rightarrow> u32" where
  "small_sigma0 x = word_rotr 7 x XOR word_rotr 18 x XOR drop_bit 3 x"

definition small_sigma1 :: "u32 \<Rightarrow> u32" where
  "small_sigma1 x = word_rotr 17 x XOR word_rotr 19 x XOR drop_bit 10 x"

definition K256 :: "u32 list" where
  "K256 = [
    0x428a2f98, 0x71374491, 0xb5c0fbcf, 0xe9b5dba5, 0x3956c25b, 0x59f111f1,
    0x923f82a4, 0xab1c5ed5, 0xd807aa98, 0x12835b01, 0x243185be, 0x550c7dc3,
    0x72be5d74, 0x80deb1fe, 0x9bdc06a7, 0xc19bf174, 0xe49b69c1, 0xefbe4786,
    0x0fc19dc6, 0x240ca1cc, 0x2de92c6f, 0x4a7484aa, 0x5cb0a9dc, 0x76f988da,
    0x983e5152, 0xa831c66d, 0xb00327c8, 0xbf597fc7, 0xc6e00bf3, 0xd5a79147,
    0x06ca6351, 0x14292967, 0x27b70a85, 0x2e1b2138, 0x4d2c6dfc, 0x53380d13,
    0x650a7354, 0x766a0abb, 0x81c2c92e, 0x92722c85, 0xa2bfe8a1, 0xa81a664b,
    0xc24b8b70, 0xc76c51a3, 0xd192e819, 0xd6990624, 0xf40e3585, 0x106aa070,
    0x19a4c116, 0x1e376c08, 0x2748774c, 0x34b0bcb5, 0x391c0cb3, 0x4ed8aa4a,
    0x5b9cca4f, 0x682e6ff3, 0x748f82ee, 0x78a5636f, 0x84c87814, 0x8cc70208,
    0x90befffa, 0xa4506ceb, 0xbef9a3f7, 0xc67178f2]"

definition be32 :: "u8 list \<Rightarrow> nat \<Rightarrow> u32" where
  "be32 bs off =
     push_bit 24 (ucast (bs ! off)) OR push_bit 16 (ucast (bs ! (off + 1)))
       OR push_bit 8 (ucast (bs ! (off + 2))) OR ucast (bs ! (off + 3))"

definition bytes32 :: "u32 \<Rightarrow> u8 list" where
  "bytes32 x = [ucast (drop_bit 24 x), ucast (drop_bit 16 x), ucast (drop_bit 8 x), ucast x]"

definition bytes64 :: "u64 \<Rightarrow> u8 list" where
  "bytes64 x = [ucast (drop_bit 56 x), ucast (drop_bit 48 x), ucast (drop_bit 40 x), ucast (drop_bit 32 x),
     ucast (drop_bit 24 x), ucast (drop_bit 16 x), ucast (drop_bit 8 x), ucast x]"

fun schedule :: "u8 list \<Rightarrow> nat \<Rightarrow> u32" where
  "schedule bs t =
     (if t < 16 then be32 bs (4 * t)
      else small_sigma1 (schedule bs (t - 2)) + schedule bs (t - 7) + small_sigma0 (schedule bs (t - 15))
        + schedule bs (t - 16))"

declare schedule.simps [simp del]

definition round_spec :: "u32 \<Rightarrow> u32 \<Rightarrow> u32 list \<Rightarrow> u32 list" where
  "round_spec k w v =
     (let a = v ! 0; b = v ! 1; c = v ! 2; d = v ! 3; e = v ! 4; f = v ! 5; g = v ! 6; h = v ! 7;
          t1 = h + big_sigma1 e + ch_spec e f g + k + w;
          t2 = big_sigma0 a + maj_spec a b c
      in [t1 + t2, a, b, c, d + t1, e, f, g])"

definition block_spec :: "u8 list \<Rightarrow> u32 list \<Rightarrow> u32 list" where
  "block_spec bs H = map2 (+) H (fold (\<lambda>t. round_spec (K256 ! t) (schedule bs t)) [0..<64] H)"

fun blocks_spec :: "u8 list \<Rightarrow> nat \<Rightarrow> u32 list \<Rightarrow> u32 list" where
  "blocks_spec bs 0 H = H"
| "blocks_spec bs (Suc n) H = block_spec (take 64 (drop (64 * n) bs)) (blocks_spec bs n H)"

definition H256 :: "u32 list" where
  "H256 = [0x6A09E667, 0xBB67AE85, 0x3C6EF372, 0xA54FF53A, 0x510E527F, 0x9B05688C, 0x1F83D9AB, 0x5BE0CD19]"

definition pad_spec :: "u8 list \<Rightarrow> u8 list" where
  "pad_spec m =
     m @ [0x80] @ replicate ((119 - length m mod 64) mod 64) 0 @ bytes64 (of_nat (8 * length m))"

definition sha256_spec :: "u8 list \<Rightarrow> u8 list" where
  "sha256_spec m = concat (map bytes32 (blocks_spec (pad_spec m) (length (pad_spec m) div 64) H256))"

section \<open>The functions on words\<close>

lemma bit_ROR:
  assumes "0 < n" "n < 32" "k < 32"
  shows "bit (ROR x n) k = bit x (if k + n < 32 then k + n else k + n - 32)"
proof -
  have "bit (ROR x n) k \<longleftrightarrow> k + n < 32 \<and> bit x (k + n) \<or> 32 - n \<le> k \<and> bit x (k - (32 - n))"
    unfolding ROR_def Let_def mask_32 using assms
    by (auto simp: bit_simps add.commute dest: bit_imp_le_length)
  moreover have "32 - n \<le> k \<longleftrightarrow> \<not> k + n < 32" "k - (32 - n) = k + n - 32" using assms by linarith+
  ultimately show ?thesis by (simp only:) (simp add: disj_commute)
qed

lemma ROR_rotr:
  assumes "0 < n" "n < 32"
  shows "ROR x n = word_rotr n x"
proof (rule bit_word_eqI)
  fix k assume "k < LENGTH(32)"
  then have k: "k < 32" by simp
  have "(k + n) mod 32 = (if k + n < 32 then k + n else k + n - 32)"
    using assms k by (simp add: mod_if)
  then show "bit (ROR x n) k = bit (word_rotr n x) k"
    using k bit_ROR [OF assms k, of x] by (simp only: bit_word_rotr_iff len_num0 len_num1 len_bit0 len_bit1 len_of_numeral_defs) simp
qed

lemma R_shift_drop: "R_shift x n = drop_bit n x"
  unfolding R_shift_def mask_32 by (rule bit_word_eqI) (auto simp: bit_simps dest: bit_imp_le_length)

lemma Ch_spec: "Ch = ch_spec"
  unfolding Ch_def ch_spec_def by (intro ext bit_word_eqI) (auto simp: bit_simps)

lemma Maj_spec: "Maj = maj_spec"
  unfolding Maj_def maj_spec_def by (intro ext bit_word_eqI) (auto simp: bit_simps)

lemma Sigma_spec: "Sigma0 = big_sigma0" "Sigma1 = big_sigma1" "Gamma0 = small_sigma0" "Gamma1 = small_sigma1"
  by (auto simp: Sigma0_def big_sigma0_def Sigma1_def big_sigma1_def Gamma0_def small_sigma0_def
    Gamma1_def small_sigma1_def ROR_rotr R_shift_drop)

lemma LOAD32H_be32: "LOAD32H bs off = be32 bs off"
  unfolding LOAD32H_def be32_def mask_8
  by (rule bit_word_eqI) (auto simp: bit_simps dest: bit_imp_le_length)

lemma STORE32H_bytes: "STORE32H x = bytes32 x"
  unfolding STORE32H_def bytes32_def mask_8 by (simp, intro conjI; rule bit_word_eqI) (auto simp: bit_simps)

lemma STORE64H_bytes: "STORE64H x = bytes64 x"
  unfolding STORE64H_def bytes64_def mask_8 by (simp, intro conjI; rule bit_word_eqI) (auto simp: bit_simps)

section \<open>The message schedule\<close>

lemma fill_W_schedule:
  "16 \<le> m \<Longrightarrow> fill_W n (map (schedule bs) [0..<m]) = map (schedule bs) [0..<m + n]"
proof (induction n arbitrary: m)
  case (Suc n)
  let ?W = "map (schedule bs) [0..<m]"
  have "Gamma1 (?W ! (m - 2)) + ?W ! (m - 7) + Gamma0 (?W ! (m - 15)) + ?W ! (m - 16) = schedule bs m"
    using Suc.prems schedule.simps [of bs m] by (simp add: Sigma_spec)
  then have "fill_W (Suc n) ?W = fill_W n (map (schedule bs) [0..<Suc m])" by (simp add: Let_def)
  then show ?case using Suc.IH [of "Suc m"] Suc.prems by (simp del: upt_Suc)
qed simp

lemma first_words: "map (\<lambda>i. LOAD32H bs (4 * i)) [0..<16] = map (schedule bs) [0..<16]"
  by (rule map_cong) (simp_all add: LOAD32H_be32 schedule.simps)

section \<open>The rounds\<close>

text \<open>At rotation \<open>r\<close> the array holds the eight variables from position \<open>r\<close> on, around the end.\<close>

definition roles :: "nat \<Rightarrow> nat list" where
  "roles r = map (\<lambda>j. (j + r) mod 8) [0..<8]"

definition variables :: "nat \<Rightarrow> u32 list \<Rightarrow> u32 list" where
  "variables r S = map (\<lambda>p. S ! p) (roles r)"

lemma unrolled_rounds_eq:
  "unrolled_rounds = map (\<lambda>i. (roles ((64 - i) mod 8), i, K256 ! i)) [0..<64]"
  by code_simp

lemma list8: "length S = 8 \<Longrightarrow> S = [S ! 0, S ! 1, S ! 2, S ! 3, S ! 4, S ! 5, S ! 6, S ! 7]"
  by (rule nth_equalityI) (auto simp: less_Suc_eq numeral_eq_Suc)

lemma RND_round_lists:
  "r < 8 \<Longrightarrow> variables ((r + 7) mod 8) (RND W (roles r) i k [a, b, c, d, e, f, g, h]) =
    round_spec k (W ! i) (variables r [a, b, c, d, e, f, g, h])"
proof -
  assume "r < 8"
  then consider "r = 0" | "r = 1" | "r = 2" | "r = 3" | "r = 4" | "r = 5" | "r = 6" | "r = 7" by linarith
  then show ?thesis
    by cases (simp_all add: RND_def round_spec_def variables_def roles_def Let_def upt_rec
      Ch_spec Maj_spec Sigma_spec)
qed

lemma RND_round:
  assumes "length S = 8" "r < 8"
  shows "variables ((r + 7) mod 8) (RND W (roles r) i k S) = round_spec k (W ! i) (variables r S)"
  using RND_round_lists [OF assms(2)] list8 [OF assms(1)] by metis

lemma RND_length [simp]: "length (RND W p i k S) = length S"
  by (simp add: RND_def Let_def)

definition run_rounds :: "u32 list \<Rightarrow> nat \<Rightarrow> u32 list \<Rightarrow> u32 list" where
  "run_rounds W n S = fold (\<lambda>(p, i, ki). RND W p i ki) (take n unrolled_rounds) S"

lemma rounds_correct:
  "length S = 8 \<Longrightarrow> n \<le> 64 \<Longrightarrow> length (run_rounds W n S) = 8 \<and>
   variables ((64 - n) mod 8) (run_rounds W n S) = fold (\<lambda>t. round_spec (K256 ! t) (W ! t)) [0..<n] S"
proof (induction n)
  case 0
  then have "variables 0 S = S" by (intro nth_equalityI) (simp_all add: variables_def roles_def)
  then show ?case using 0 by (simp add: run_rounds_def)
next
  case (Suc n)
  let ?S = "run_rounds W n S"
  let ?r = "(64 - n) mod 8"
  have t: "take (Suc n) unrolled_rounds = take n unrolled_rounds @ [(roles ?r, n, K256 ! n)]"
    using Suc.prems by (simp add: unrolled_rounds_eq take_Suc_conv_app_nth)
  have "(?r + 7) mod 8 = (64 - Suc n) mod 8"
  proof -
    have "(?r + 7) mod 8 = (64 - n + 7) mod 8" by (rule mod_add_left_eq)
    also have "64 - n + 7 = 64 - Suc n + 8" using Suc.prems by simp
    finally show ?thesis by simp
  qed
  then show ?case
    using Suc RND_round [of ?S ?r W n "K256 ! n"] by (simp add: run_rounds_def t)
qed

text \<open>The compression of a block is the specified block function.\<close>

lemma sha256_compress_block:
  assumes "length (sha_state md) = 8"
  shows "sha256_compress md bs = md\<lparr>sha_state := block_spec bs (sha_state md)\<rparr>"
proof -
  define W where "W = map (schedule bs) [0..<64]"
  define S' where "S' = run_rounds W 64 (sha_state md)"
  have W: "fill_W 48 (map (\<lambda>i. LOAD32H bs (4 * i)) [0..<16]) = W"
    unfolding first_words W_def using fill_W_schedule [of 16 48 bs] by simp
  have copy: "map (\<lambda>i. sha_state md ! i) [0..<8] = sha_state md"
    using assms by (intro nth_equalityI) simp_all
  have "length unrolled_rounds = 64" by (simp add: unrolled_rounds_eq)
  then have r: "length S' = 8" "variables 0 S' = fold (\<lambda>t. round_spec (K256 ! t) (W ! t)) [0..<64] (sha_state md)"
    using rounds_correct [of "sha_state md" 64 W] assms by (simp_all add: S'_def)
  have all: "fold (\<lambda>(p, i, ki). RND W p i ki) unrolled_rounds (sha_state md) = S'"
    using \<open>length unrolled_rounds = 64\<close> by (simp add: S'_def run_rounds_def)
  have "variables 0 S' = S'" using r(1) by (intro nth_equalityI) (simp_all add: variables_def roles_def)
  moreover have "fold (\<lambda>t. round_spec (K256 ! t) (W ! t)) [0..<64] (sha_state md) =
      fold (\<lambda>t. round_spec (K256 ! t) (schedule bs t)) [0..<64] (sha_state md)"
    by (rule fold_cong) (simp_all add: W_def)
  ultimately have "map (\<lambda>i. sha_state md ! i + S' ! i) [0..<8] = block_spec bs (sha_state md)"
    unfolding block_spec_def using r assms by (intro nth_equalityI) simp_all
  then show ?thesis
    by (simp add: sha256_compress_def W copy all Let_def)
qed

end
