(* ===== verification/Sha256Stream.thy ===== *)
theory Sha256Stream
  imports Sha256Spec
begin

text \<open>
  The streaming interface of the hash: a locale for what a client may expect of an
  init/process/done triple, its consequences for clients that feed a message in pieces,
  and the proof that \<open>sha256_init\<close>, \<open>sha256_process\<close> and \<open>sha256_done\<close> keep it for the
  specified hash.
\<close>

section \<open>The interface\<close>

locale hash_stream =
  fixes start :: "'s" and feed :: "'s \<Rightarrow> 'b list \<Rightarrow> 's" and finish :: "'s \<Rightarrow> 'd"
    and holds :: "'s \<Rightarrow> 'b list \<Rightarrow> bool" and hash_of :: "'b list \<Rightarrow> 'd"
  assumes holds_start: "holds start []"
    and holds_feed: "holds s m \<Longrightarrow> holds (feed s d) (m @ d)"
    and finish_hash: "holds s m \<Longrightarrow> finish s = hash_of m"
begin

lemma holds_chunks: "holds s m \<Longrightarrow> holds (foldl feed s ds) (m @ concat ds)"
proof (induction ds arbitrary: s m)
  case (Cons d ds)
  from Cons.IH [OF holds_feed [OF Cons.prems, of d]] show ?case by simp
qed simp

lemma chunked_hash: "finish (foldl feed start ds) = hash_of (concat ds)"
  using finish_hash [OF holds_chunks [OF holds_start]] by simp

lemma split_irrelevant: "concat ds = concat es \<Longrightarrow> finish (foldl feed start ds) = finish (foldl feed start es)"
  by (simp add: chunked_hash)

end

section \<open>Blocks\<close>

lemma length_block_spec [simp]: "length H = 8 \<Longrightarrow> length (block_spec bs H) = 8"
proof -
  assume H: "length H = 8"
  have "length (fold (\<lambda>t. round_spec (K256 ! t) (schedule bs t)) ts H) = 8" for ts
    using H by (induction ts arbitrary: H) (simp_all add: round_spec_def Let_def)
  with H show ?thesis by (simp add: block_spec_def)
qed

lemma length_blocks_spec [simp]: "length H = 8 \<Longrightarrow> length (blocks_spec bs n H) = 8"
  by (induction n) simp_all

lemma length_H256 [simp]: "length H256 = 8"
  by (simp add: H256_def)

lemma blocks_spec_append: "64 * n \<le> length bs \<Longrightarrow> blocks_spec (bs @ cs) n H = blocks_spec bs n H"
  by (induction n) simp_all

lemma blocks_spec_next:
  "length bs = 64 * n \<Longrightarrow> length b = 64 \<Longrightarrow>
   blocks_spec (bs @ b @ cs) (Suc n) H = block_spec b (blocks_spec bs n H)"
  by (simp add: blocks_spec_append)

section \<open>What the state stands for\<close>

definition absorbed :: "sha256_state \<Rightarrow> u8 list \<Rightarrow> bool" where
  "absorbed md m \<longleftrightarrow>
     (let k = length m div 64
      in sha_state md = blocks_spec m k H256 \<and> curlen md = length m mod 64 \<and> length (sha_buf md) = 64 \<and>
         take (curlen md) (sha_buf md) = drop (64 * k) m \<and> msg_length md = of_nat (512 * k))"

lemma absorbed_init: "length b = 64 \<Longrightarrow> absorbed (sha256_init b) []"
  by (simp add: absorbed_def sha256_init_def H256_def)

lemma absorbed_state: "absorbed md m \<Longrightarrow> length (sha_state md) = 8"
  by (simp add: absorbed_def Let_def)

text \<open>One step of the absorption: bytes that complete a block, or bytes that fit the buffer.\<close>

lemma absorb_full:
  assumes "absorbed md m" "curlen md + length d = 64"
  shows "absorbed (md\<lparr>sha_state := block_spec (take (curlen md) (sha_buf md) @ d) (sha_state md), sha_buf := nb,
      msg_length := msg_length md + 512, curlen := 0\<rparr>) (m @ d) \<longleftrightarrow> length nb = 64"
proof -
  define k where "k = length m div 64"
  define m0 r where "m0 = take (64 * k) m" and "r = drop (64 * k) m"
  have m: "m = m0 @ r" "length m0 = 64 * k" "length r = curlen md"
    using assms(1) by (simp_all add: m0_def r_def k_def absorbed_def Let_def minus_mult_div_eq_mod)
  have r: "take (curlen md) (sha_buf md) = r" "sha_state md = blocks_spec m k H256" "msg_length md = of_nat (512 * k)"
    using assms(1) by (auto simp: absorbed_def Let_def r_def k_def)
  have l: "length (m @ d) = 64 * Suc k" using m assms(2) by simp
  have "blocks_spec (m0 @ (r @ d) @ []) (Suc k) H256 = block_spec (r @ d) (blocks_spec m0 k H256)"
    by (rule blocks_spec_next [OF m(2)]) (use m assms(2) in simp)
  moreover have "blocks_spec m k H256 = blocks_spec m0 k H256"
    unfolding m(1) by (rule blocks_spec_append) (simp add: m(2))
  ultimately have "blocks_spec (m @ d) (Suc k) H256 = block_spec (r @ d) (sha_state md)"
    using r(2) m(1) by simp
  moreover have "length (m @ d) div 64 = Suc k" "length (m @ d) mod 64 = 0"
    "drop (64 * Suc k) (m @ d) = []" using l by simp_all
  ultimately show ?thesis using r(1,3) by (simp only: absorbed_def Let_def) simp
qed

lemma absorb_partial:
  assumes "absorbed md m" "curlen md + length d < 64"
  shows "absorbed (md\<lparr>sha_buf := take (curlen md) (sha_buf md) @ d @ drop (curlen md + length d) (sha_buf md),
      curlen := curlen md + length d\<rparr>) (m @ d)"
proof -
  define k where "k = length m div 64"
  have c: "length m = 64 * k + curlen md" using assms(1) by (simp add: absorbed_def Let_def k_def)
  then have k: "length (m @ d) div 64 = k" "length (m @ d) mod 64 = curlen md + length d"
    using assms(2) by (auto simp: div_nat_eqI mod_nat_eqI)
  have "64 * k \<le> length m" using c by simp
  with assms c k show ?thesis
    by (auto simp: absorbed_def Let_def blocks_spec_append simp flip: k_def)
qed

lemma sha256_compress_frame [simp]:
  "msg_length (sha256_compress md b) = msg_length md" "curlen (sha256_compress md b) = curlen md"
  "sha_buf (sha256_compress md b) = sha_buf md"
  by (simp_all add: sha256_compress_def Let_def)

lemma process_loop_absorbs: "absorbed md m \<Longrightarrow> absorbed (process_loop md inp) (m @ inp)"
proof (induction md inp arbitrary: m rule: process_loop.induct)
  case (1 md inp)
  have c: "curlen md < 64" using "1.prems" by (simp add: absorbed_def Let_def)
  consider (empty) "inp = []" | (block) "inp \<noteq> []" "curlen md = 0 \<and> length inp \<ge> 64"
    | (rest) "inp \<noteq> []" "\<not> (curlen md = 0 \<and> length inp \<ge> 64)" by blast
  then show ?case
  proof cases
    case empty
    then show ?thesis using "1.prems" by (simp add: process_loop.simps)
  next
    case block
    let ?b = "take 64 inp"
    define md' where "md' = (sha256_compress md ?b)\<lparr>msg_length := msg_length (sha256_compress md ?b) + 512\<rparr>"
    have "md' = md\<lparr>sha_state := block_spec ?b (sha_state md), sha_buf := sha_buf md,
        msg_length := msg_length md + 512, curlen := 0\<rparr>"
      using block(2) by (simp add: md'_def sha256_compress_block [OF absorbed_state [OF "1.prems"]])
    then have a: "absorbed md' (m @ ?b)"
      using absorb_full [OF "1.prems", of ?b "sha_buf md"] block(2) "1.prems" by (simp add: absorbed_def Let_def)
    have "process_loop md inp = process_loop md' (drop 64 inp)"
      using block c by (subst process_loop.simps) (simp add: Let_def md'_def)
    moreover have "absorbed (process_loop md' (drop 64 inp)) ((m @ ?b) @ drop 64 inp)"
      unfolding md'_def by (rule "1.IH"(1) [OF _ block(2) refl]) (use block(1) c a in \<open>simp_all add: md'_def\<close>)
    ultimately show ?thesis by simp
  next
    case rest
    define n where "n = min (length inp) (64 - curlen md)"
    define md1 where "md1 = md\<lparr>sha_buf := take (curlen md) (sha_buf md) @ take n inp @ drop (curlen md + n) (sha_buf md),
      curlen := curlen md + n\<rparr>"
    have n: "length (take n inp) = n" "curlen md + n \<le> 64" using c by (simp_all add: n_def)
    have b: "length (sha_buf md) = 64" using "1.prems" by (simp add: absorbed_def Let_def)
    show ?thesis
    proof (cases "curlen md1 = 64")
      case True
      define md2 where "md2 = (sha256_compress md1 (sha_buf md1))\<lparr>msg_length := msg_length md1 + 512, curlen := 0\<rparr>"
      have s1: "length (sha_state md1) = 8" using absorbed_state [OF "1.prems"] by (simp add: md1_def)
      have full: "curlen md + length (take n inp) = 64" using True n by (simp add: md1_def)
      then have nb: "sha_buf md1 = take (curlen md) (sha_buf md) @ take n inp" using b n by (simp add: md1_def)
      have "md2 = md\<lparr>sha_state := block_spec (take (curlen md) (sha_buf md) @ take n inp) (sha_state md), sha_buf := sha_buf md1,
          msg_length := msg_length md + 512, curlen := 0\<rparr>"
        using full b n absorbed_state [OF "1.prems"] by (simp add: md2_def sha256_compress_block md1_def)
      then have a: "absorbed md2 (m @ take n inp)"
        using absorb_full [OF "1.prems" full, of "sha_buf md1"] b n by (simp add: md1_def)
      have e: "process_loop md inp = process_loop md2 (drop n inp)"
        using c True by (subst process_loop.simps) (simp add: rest Let_def md2_def md1_def n_def)
      have "absorbed (process_loop md2 (drop n inp)) ((m @ take n inp) @ drop n inp)"
        unfolding md2_def
        using "1.IH"(2) [OF _ rest(2) n_def md1_def True refl, of "m @ take n inp"] rest(1) c a
          sha256_compress_block [OF s1] by (simp add: md2_def)
      then show ?thesis by (simp add: e)
    next
      case False
      then have "curlen md + length (take n inp) < 64" using n by (simp add: md1_def)
      then have a: "absorbed md1 (m @ take n inp)"
        using absorb_partial [OF "1.prems", of "take n inp"] n by (simp add: md1_def)
      have e: "process_loop md inp = process_loop md1 (drop n inp)"
        using c False by (subst process_loop.simps) (simp add: rest Let_def md1_def n_def)
      have "absorbed (process_loop md1 (drop n inp)) ((m @ take n inp) @ drop n inp)"
        using "1.IH"(3) [OF _ rest(2) n_def md1_def False a] rest(1) c by simp
      then show ?thesis by (simp add: e)
    qed
  qed
qed

section \<open>The padding\<close>

lemma length_bytes64 [simp]: "length (bytes64 x) = 8"
  by (simp add: bytes64_def)

lemma bytes_eq_hash: "map (\<lambda>i. STORE32H (xs ! i)) [0..<8] = map bytes32 xs" if "length xs = 8"
  using that by (intro nth_equalityI) (simp_all add: STORE32H_bytes)

lemma zero_upto_le:
  "curlen md \<le> n \<Longrightarrow> zero_upto n md =
     md\<lparr>curlen := n, sha_buf := take (curlen md) (sha_buf md) @ replicate (n - curlen md) 0 @ drop n (sha_buf md)\<rparr>"
  by (cases md) (auto simp: zero_upto_def)

lemma sha256_done_absorbed:
  assumes "absorbed md m" "length out = 32"
  shows "sha256_done md out = (CRYPT_OK, sha256_spec m)"
proof -
  define k c where "k = length m div 64" and "c = length m mod 64"
  define m0 r where "m0 = take (64 * k) m" and "r = drop (64 * k) m"
  have lm: "length m = 64 * k + c" and c64: "c < 64" by (simp_all add: k_def c_def)
  have m: "m = m0 @ r" "length m0 = 64 * k" "length r = c" using lm by (simp_all add: m0_def r_def)
  have md: "sha_state md = blocks_spec m k H256" "curlen md = c" "length (sha_buf md) = 64"
    "take c (sha_buf md) = r" "msg_length md = of_nat (512 * k)"
    using assms(1) by (auto simp: absorbed_def Let_def k_def c_def r_def)
  have s8: "length (blocks_spec m k H256) = 8" by simp
  have st: "blocks_spec m k H256 = blocks_spec m0 k H256"
    unfolding m(1) by (rule blocks_spec_append) (simp add: m(2))
  define lb :: "u8 list" where "lb = bytes64 (of_nat (8 * length m))"
  have ln: "msg_length md + of_nat c * 8 = of_nat (8 * length m)" by (simp add: md(5) lm)
  have upd: "take (Suc c) ((sha_buf md)[c := 0x80]) = r @ [0x80]"
    using md(3,4) c64 by (simp add: take_Suc_conv_app_nth)
  obtain L' S B where rec: "md = \<lparr>msg_length = L', sha_state = S, curlen = c, sha_buf = B\<rparr>"
    using md(2) by (cases md) simp
  have split: "m @ x = m0 @ r @ x" for x using m(1) by (metis append.assoc)
  show ?thesis
  proof (cases "c < 56")
    case True
    define b where "b = r @ [0x80] @ replicate (55 - c) 0 @ lb"
    have lb: "length b = 64" using True m(3) by (simp add: b_def lb_def)
    have z: "(119 - c) mod 64 = 55 - c" using True by (simp add: mod_if)
    have p: "pad_spec m = m0 @ b @ []"
      unfolding pad_spec_def c_def [symmetric] z split by (simp add: b_def lb_def)
    have pl: "length (pad_spec m) div 64 = Suc k" using m(2) lb by (simp add: p)
    have "blocks_spec (pad_spec m) (Suc k) H256 = block_spec b (blocks_spec m k H256)"
      unfolding p st by (rule blocks_spec_next [OF m(2) lb])
    then have spec: "sha256_spec m = concat (map bytes32 (block_spec b (blocks_spec m k H256)))"
      by (simp add: sha256_spec_def pl)
    have fill: "take 56 (take (Suc c) (B[c := 0x80]) @ replicate (56 - Suc c) 0 @ drop 56 (B[c := 0x80])) @ lb = b"
    proof -
      obtain d where "55 - c = d" "56 - c = Suc d" "56 - Suc c = d" by (rule that [of "55 - c"]) (use True in simp_all)
      then show ?thesis using True m(3) upd by (simp add: rec b_def)
    qed
    have "sha256_done md out = (CRYPT_OK, concat (map (\<lambda>i. STORE32H
        (sha_state (sha256_compress \<lparr>msg_length = of_nat (8 * length m), sha_state = sha_state md, curlen = 56, sha_buf = b\<rparr> b) ! i)) [0..<8]) @ drop 32 out)"
      using True ln fill by (simp add: sha256_done_def rec zero_upto_le Let_def STORE64H_bytes lb_def)
    then show ?thesis
      using md(1) s8 assms(2) bytes_eq_hash [of "block_spec b (blocks_spec m k H256)"]
      by (simp add: sha256_compress_block spec)
  next
    case False
    define b1 where "b1 = r @ [0x80] @ replicate (63 - c) 0"
    define b2 where "b2 = replicate 56 0 @ lb"
    have l1: "length b1 = 64" using False c64 m(3) by (simp add: b1_def)
    have l2: "length b2 = 64" by (simp add: b2_def lb_def)
    have z: "(119 - c) mod 64 = (63 - c) + 56" using False c64 by (simp add: mod_if)
    have p: "pad_spec m = (m0 @ b1) @ b2 @ []"
      unfolding pad_spec_def c_def [symmetric] z split by (simp add: b1_def b2_def lb_def replicate_add)
    have pl: "length (pad_spec m) div 64 = Suc (Suc k)" using m(2) l1 l2 by (simp add: p)
    have "blocks_spec (pad_spec m) (Suc (Suc k)) H256 = block_spec b2 (blocks_spec (m0 @ b1) (Suc k) H256)"
      unfolding p by (rule blocks_spec_next [OF _ l2]) (simp add: m(2) l1)
    also have "blocks_spec (m0 @ b1) (Suc k) H256 = block_spec b1 (blocks_spec m k H256)"
      using blocks_spec_next [OF m(2) l1, of "[]" H256] by (simp add: st)
    finally have spec: "sha256_spec m = concat (map bytes32 (block_spec b2 (block_spec b1 (blocks_spec m k H256))))"
      by (simp add: sha256_spec_def pl)
    define L where "L = (of_nat (8 * length m) :: u64)"
    define md2 where "md2 = sha256_compress \<lparr>msg_length = L, sha_state = sha_state md, curlen = 64, sha_buf = b1\<rparr> b1"
    have fill: "take (Suc c) (B[c := 0x80]) @ replicate (64 - Suc c) 0 @ drop 64 (B[c := 0x80]) = b1"
      using md(3) upd by (simp add: rec b1_def)
    have s2: "sha_state md2 = block_spec b1 (blocks_spec m k H256)"
      using md(1) s8 by (simp add: md2_def sha256_compress_block)
    define S2 where "S2 = sha_state md2"
    have md2: "md2 = \<lparr>msg_length = L, sha_state = S2, curlen = 64, sha_buf = b1\<rparr>"
      by (simp add: S2_def md2_def sha256_compress_def Let_def)
    have "sha256_done md out = (CRYPT_OK, concat (map (\<lambda>i. STORE32H
        (sha_state (sha256_compress \<lparr>msg_length = L, sha_state = S2, curlen = 56, sha_buf = b2\<rparr> b2) ! i)) [0..<8]) @ drop 32 out)"
    proof -
      have "sha256_done md out = (let md = md2\<lparr>curlen := 0\<rparr>; md = zero_upto 56 md;
          md = md\<lparr>sha_buf := take 56 (sha_buf md) @ STORE64H (msg_length md)\<rparr>; md = sha256_compress md (sha_buf md)
          in (CRYPT_OK, concat (map (\<lambda>i. STORE32H (sha_state md ! i)) [0..<8]) @ drop 32 out))"
        using False c64 ln fill by (simp add: sha256_done_def rec zero_upto_le Let_def md2_def L_def)
      then show ?thesis
        by (simp add: md2 Let_def zero_upto_le STORE64H_bytes b2_def lb_def L_def)
    qed
    then show ?thesis
      using s2 [folded S2_def] s8 assms(2) bytes_eq_hash [of "block_spec b2 (block_spec b1 (blocks_spec m k H256))"]
      by (simp add: sha256_compress_block spec)
  qed
qed

section \<open>The code keeps the interface\<close>

interpretation sha: hash_stream "sha256_init (replicate 64 0)" "\<lambda>md d. snd (sha256_process md d)"
  "\<lambda>md. snd (sha256_done md (replicate 32 0))" absorbed sha256_spec
proof unfold_locales
  show "absorbed (sha256_init (replicate 64 0)) []" by (rule absorbed_init) simp
next
  fix s m d
  assume a: "absorbed s m"
  then have "curlen s < 64" by (simp add: absorbed_def Let_def)
  with process_loop_absorbs [OF a, of d] show "absorbed (snd (sha256_process s d)) (m @ d)"
    by (simp add: sha256_process_def)
next
  fix s m
  assume "absorbed s m"
  then show "snd (sha256_done s (replicate 32 0)) = sha256_spec m" by (simp add: sha256_done_absorbed)
qed

lemma sha256_csum_aux:
  assumes "length junk = 64" "length output = 32"
  shows "sha256_csum_wd junk input output = sha256_spec input"
proof -
  have "absorbed (sha256_init junk) []" using assms(1) by (rule absorbed_init)
  from process_loop_absorbs [OF this, of input]
  have "absorbed (process_loop (sha256_init junk) input) input" by simp
  from sha256_done_absorbed [OF this assms(2)] show ?thesis
    by (simp add: sha256_csum_wd_def sha256_process_def sha256_init_def)
qed

section \<open>Properties\<close>

text \<open>
  C9: \<open>sha256_csum_wd\<close> computes the hash of FIPS 180-4: the code's unrolled rounds, its buffering
  and its padding give the same 32 bytes as padding the whole message and folding the specified block
  function over it, whatever the uninitialised local buffer held.
\<close>

theorem sha256_csum_correct:
  assumes "length junk = 64" "length output = 32"
  shows "sha256_csum_wd junk input output = sha256_spec input"
  using assms by (rule sha256_csum_aux)

theorem sha256_csum_correct_witness:
  "sha256_csum_wd (replicate 64 7) [0x61, 0x62, 0x63] (replicate 32 0) = sha256_spec [0x61, 0x62, 0x63]"
  by (rule sha256_csum_correct) simp_all

text \<open>
  A message may be fed to \<open>sha256_process\<close> in any pieces: the digest of \<open>sha256_done\<close> is the hash of
  their concatenation.
\<close>

theorem sha256_chunks:
  "snd (sha256_done (foldl (\<lambda>md d. snd (sha256_process md d)) (sha256_init (replicate 64 0)) ds) (replicate 32 0)) =
    sha256_spec (concat ds)"
  by (rule sha.chunked_hash)

end
