(* ===== verification/Verify.thy ===== *)
theory Verify
  imports SecHeader Sha256Stream
begin

text \<open>
  The verification of signed images, \<^verbatim>\<open>signimage/source/common/verify/src/sprd_verify.c\<close> and
  \<open>sec_string.c\<close>.  An image is the list of its bytes and a pointer into it an offset; the
  result is \<open>None\<close> where the code reads outside a buffer or through a null pointer.
  \<open>junk n\<close> is what an uninitialised array of \<open>n\<close> bytes holds.  OpenSSL's view of a key file
  is a parameter of \<open>getpubkeyfrmPEM\<close> and \<open>calcSignature\<close>.
\<close>

section \<open>sec_string.c\<close>

definition sec_memset :: "u8 list \<Rightarrow> u8 \<Rightarrow> nat \<Rightarrow> u8 list option" where
  "sec_memset s c cnt = mem_write s 0 (replicate cnt c)"

definition sec_memcpy :: "u8 list \<Rightarrow> u8 list \<Rightarrow> nat \<Rightarrow> u8 list option" where
  "sec_memcpy dest src count = Option.bind (mem_read src 0 count) (mem_write dest 0)"

text \<open>The comparison reads no further than the first difference.\<close>

fun sec_memcmp :: "u8 list \<Rightarrow> u8 list \<Rightarrow> nat \<Rightarrow> int option" where
  "sec_memcmp cs st 0 = Some 0"
| "sec_memcmp (a # cs) (b # st) (Suc count) =
     (if a \<noteq> b then Some (uint a - uint b) else sec_memcmp cs st count)"
| "sec_memcmp _ _ (Suc count) = None"

section \<open>Helpers\<close>

definition HexChar2Dec :: "u8 \<Rightarrow> int" where
  "HexChar2Dec c =
     (if 0x30 \<le> c \<and> c \<le> 0x39 then uint (c - 0x30)
      else if 0x61 \<le> c \<and> c \<le> 0x66 then uint (c - 0x61) + 10
      else if 0x41 \<le> c \<and> c \<le> 0x46 then uint (c - 0x41) + 10
      else -1)"

definition str2Num16 :: "u8 list \<Rightarrow> int" where
  "str2Num16 str =
     (if str ! 1 = 0 then HexChar2Dec (str ! 0) else HexChar2Dec (str ! 0) * 16 + HexChar2Dec (str ! 1))"

definition cal_sha256 :: "(nat \<Rightarrow> u8 list) \<Rightarrow> u8 list \<Rightarrow> nat \<Rightarrow> nat \<Rightarrow> u8 list option" where
  "cal_sha256 junk buf off bytes_num =
     map_option (\<lambda>input. sha256_csum_wd (junk 64) input (junk 32)) (mem_read buf off bytes_num)"

definition CERTTYPE_CONTENT :: u32 where "CERTTYPE_CONTENT = 0"
definition CERTTYPE_KEY :: u32 where "CERTTYPE_KEY = 1"
definition CERTTYPE_PRIMDBG :: u32 where "CERTTYPE_PRIMDBG = 2"
definition CERTTYPE_DEVELOPDBG :: u32 where "CERTTYPE_DEVELOPDBG = 3"

text \<open>\<open>RSA_PubDec\<close> on the fields of a key, into a fresh \<open>malloc\<close>ed buffer of \<open>cap\<close> bytes.\<close>

definition pub_dec :: "(nat \<Rightarrow> u8 list) \<Rightarrow> sprd_rsapubkey \<Rightarrow> u8 list \<Rightarrow> nat \<Rightarrow> (int \<times> u8 list) option" where
  "pub_dec junk k signature cap =
     RSA_PubDec (Some (key_e k)) (Some (key_mod k)) (unat (keybit_len k)) signature (junk cap)
       (junk (unat (keybit_len k) div 8))"

section \<open>Certificates\<close>

definition sprd_verify_cert ::
  "(nat \<Rightarrow> u8 list) \<Rightarrow> u8 list option \<Rightarrow> u8 list \<Rightarrow> u8 list \<Rightarrow> nat \<Rightarrow> bool option" where
  "sprd_verify_cert junk hash_key_precert hash_data buf certptr =
     Option.bind (mem_read buf certptr 1) (\<lambda>certtype.
     if ucast (certtype ! 0) = CERTTYPE_KEY
     then Option.bind (keycert_at buf certptr) (\<lambda>cur.
          Option.bind (cal_sha256 junk buf (certptr + 4) SPRD_RSAPUBKLEN) (\<lambda>temphash_data.
          Option.bind (sec_memcmp hash_data (kc_hash_data cur) HASH_BYTE_LEN) (\<lambda>d.
          if d \<noteq> 0 then Some False
          else Option.bind (pub_dec junk (kc_pubkey cur) (kc_signature cur) (unat (keybit_len (kc_pubkey cur)) div 8)) (\<lambda>(ret, to).
               Option.bind (sec_memcmp (drop (certptr + 268) buf) to KEYCERT_HASH_LEN) (\<lambda>d. Some (d = 0))))))
     else if ucast (certtype ! 0) = CERTTYPE_CONTENT
     then Option.bind (contentcert_at buf certptr) (\<lambda>cur.
          Option.bind (cal_sha256 junk buf (certptr + 4) SPRD_RSAPUBKLEN) (\<lambda>temphash_data.
          Option.bind (sec_memcmp hash_data (cc_hash_data cur) HASH_BYTE_LEN) (\<lambda>d.
          if d \<noteq> 0 then Some False
          else Option.bind hash_key_precert (\<lambda>precert.
               Option.bind (sec_memcmp precert temphash_data HASH_BYTE_LEN) (\<lambda>d.
               if d \<noteq> 0 then Some False
               else Option.bind (pub_dec junk (cc_pubkey cur) (cc_signature cur) (unat (keybit_len (cc_pubkey cur)) div 8)) (\<lambda>(ret, to).
                    Option.bind (sec_memcmp (drop (certptr + 268) buf) to (unat (of_int ret :: u32))) (\<lambda>d. Some (d = 0))))))))
     else Some False)"

section \<open>Images\<close>

definition sprd_get_sechdr_addr :: "u8 list \<Rightarrow> nat option" where
  "sprd_get_sechdr_addr buf =
     map_option (\<lambda>imghdr. unat (mImgSize imghdr) + sizeof_sys_img_header) (sys_img_header_at buf 0)"

definition sechdr :: "u8 list \<Rightarrow> sprdsignedimageheader option" where
  "sechdr buf = Option.bind (sprd_get_sechdr_addr buf) (sign_header_at buf)"

definition sprd_get_code_addr :: "u8 list \<Rightarrow> nat option" where
  "sprd_get_code_addr buf = map_option (\<lambda>h. unat (payload_offset h)) (sechdr buf)"

definition sprd_get_cert_addr :: "u8 list \<Rightarrow> nat option" where
  "sprd_get_cert_addr buf = map_option (\<lambda>h. unat (cert_offset h)) (sechdr buf)"

text \<open>\<open>payload_size\<close> has 64 bits and is passed as the \<open>uint32_t\<close> \<open>bytes_num\<close>.\<close>

definition sprd_verify_img :: "(nat \<Rightarrow> u8 list) \<Rightarrow> u8 list option \<Rightarrow> u8 list \<Rightarrow> bool option" where
  "sprd_verify_img junk hash_key_precert imgbuf =
     Option.bind (sechdr imgbuf) (\<lambda>imghdr.
     Option.bind (sprd_get_code_addr imgbuf) (\<lambda>code_addr.
     Option.bind (cal_sha256 junk imgbuf code_addr (unat (ucast (payload_size imghdr) :: u32))) (\<lambda>soft_hash_data.
     Option.bind (sprd_get_cert_addr imgbuf) (\<lambda>curcertptr.
     sprd_verify_cert junk hash_key_precert soft_hash_data imgbuf curcertptr))))"

text \<open>\<open>True\<close> is the return of \<open>sprd_secure_check\<close>, \<open>False\<close> its endless loop.\<close>

definition sprd_secure_check :: "(nat \<Rightarrow> u8 list) \<Rightarrow> u8 list \<Rightarrow> bool option" where
  "sprd_secure_check junk data_header =
     Option.bind (sprd_get_cert_addr data_header) (\<lambda>cert.
     Option.bind (read32 data_header cert) (\<lambda>certtype.
     if certtype = CERTTYPE_KEY
     then Option.bind (mem_read data_header (cert + 300) HASH_BYTE_LEN) (\<lambda>hash_key_next.
          sprd_verify_img junk (Some hash_key_next) data_header)
     else sprd_verify_img junk None data_header))"

section \<open>Debug certificates\<close>

text \<open>The three certificates lie in one buffer at the offsets \<open>dev\<close>, \<open>prim\<close> and \<open>cur\<close>.\<close>

definition sprd_sbdebug_verify_cert ::
  "(nat \<Rightarrow> u8 list) \<Rightarrow> u8 list \<Rightarrow> nat \<Rightarrow> nat \<Rightarrow> nat \<Rightarrow> u32 \<Rightarrow> bool option" where
  "sprd_sbdebug_verify_cert junk buf dev prim cur dbgcert_type =
     (if dbgcert_type = CERTTYPE_PRIMDBG
      then Option.bind (cal_sha256 junk buf (prim + 4) SPRD_RSAPUBKLEN) (\<lambda>temphash_data.
           Option.bind (keycert_at buf cur) (\<lambda>cur_keycert.
           Option.bind (sec_memcmp (kc_hash_key cur_keycert) temphash_data HASH_BYTE_LEN) (\<lambda>d.
           if d \<noteq> 0 then Some False
           else Option.bind (primary_debugcert_at buf prim) (\<lambda>prim_dbgcert.
                Option.bind (pub_dec junk (pd_pubkey prim_dbgcert) (pd_devkey_debug_signature prim_dbgcert)
                  (unat (keybit_len (kc_pubkey cur_keycert)) div 8)) (\<lambda>(ret, to).
                Option.bind (sec_memcmp (drop (prim + 268) buf) to PRIMDBG_HASH_LEN) (\<lambda>d. Some (d = 0)))))))
      else if dbgcert_type = CERTTYPE_DEVELOPDBG
      then Option.bind (cal_sha256 junk buf (dev + 4) SPRD_RSAPUBKLEN) (\<lambda>temphash_data.
           Option.bind (primary_debugcert_at buf prim) (\<lambda>prim_dbgcert.
           Option.bind (sec_memcmp (pd_devkey_debug_hash_data prim_dbgcert) temphash_data HASH_BYTE_LEN) (\<lambda>d.
           if d \<noteq> 0 then Some False
           else Option.bind (keycert_at buf cur) (\<lambda>cur_keycert.
                Option.bind (developer_debugcert_at buf dev) (\<lambda>dev_dbgcert.
                Option.bind (pub_dec junk (dd_dev_pubkey dev_dbgcert) (dd_dev_signature dev_dbgcert)
                  (unat (keybit_len (kc_pubkey cur_keycert)) div 8)) (\<lambda>(ret, to).
                Option.bind (sec_memcmp (drop (dev + 268) buf) to DEVEDBG_HASH_LEN) (\<lambda>d. Some (d = 0))))))))
      else Some False)"

definition sprd_sbdebug_enable :: "(nat \<Rightarrow> u8 list) \<Rightarrow> u8 list \<Rightarrow> bool option" where
  "sprd_sbdebug_enable junk imgbuf =
     Option.bind (sechdr imgbuf) (\<lambda>imghdr.
     let dev = unat (cert_dbg_developer_offset imghdr); prim = unat (cert_dbg_prim_offset imghdr);
         keycert = unat (cert_offset imghdr)
     in if cert_dbg_prim_size imghdr = 0 then Some False
        else Option.bind (sprd_sbdebug_verify_cert junk imgbuf dev prim keycert CERTTYPE_PRIMDBG) (\<lambda>flag.
             if flag then sprd_sbdebug_verify_cert junk imgbuf dev prim keycert CERTTYPE_DEVELOPDBG
             else Some False))"

section \<open>Keys and signatures from PEM files\<close>

text \<open>What OpenSSL reads from a public key file: the modulus size in bytes, and the big-endian bytes
  of the exponent and of the modulus.\<close>

record pem_public =
  pem_size :: nat
  pem_e :: "u8 list"
  pem_n :: "u8 list"

text \<open>\<open>file\<close> is \<open>None\<close> when the file does not open, \<open>Some None\<close> when it holds no key.\<close>

definition getpubkeyfrmPEM ::
  "pem_public option option \<Rightarrow> sprd_rsapubkey \<Rightarrow> (bool \<times> sprd_rsapubkey) option" where
  "getpubkeyfrmPEM file sprdPubk =
     (case file of
        None \<Rightarrow> Some (False, sprdPubk)
      | Some None \<Rightarrow> Some (False, sprdPubk)
      | Some (Some rsa) \<Rightarrow>
          let e_size = length (pem_e rsa)
          in if e_size > 4 then None
             else map_option (\<lambda>md. (True, \<lparr>keybit_len = of_nat (pem_size rsa * 8),
                                          key_e = replicate (4 - e_size) 0 @ pem_e rsa, key_mod = md\<rparr>))
                    (mem_write (key_mod sprdPubk) 0 (pem_n rsa)))"

text \<open>\<open>file\<close> is OpenSSL's private key operation of the file.  Its result is not looked at, so
  a signature that was not made still counts as one.\<close>

definition calcSignature ::
  "(u8 list \<Rightarrow> u8 list) option option \<Rightarrow> u8 list \<Rightarrow> u8 list \<Rightarrow> (bool \<times> u8 list) option" where
  "calcSignature file hash_data signature =
     (case file of
        None \<Rightarrow> Some (False, signature)
      | Some None \<Rightarrow> Some (False, signature)
      | Some (Some private_encrypt) \<Rightarrow>
          map_option (\<lambda>s. (True, s)) (mem_write signature 0 (private_encrypt hash_data)))"

section \<open>Comparison\<close>

lemma sec_memcmp_eq: "n \<le> length cs \<Longrightarrow> n \<le> length st \<Longrightarrow> take n cs = take n st \<Longrightarrow> sec_memcmp cs st n = Some 0"
  by (induction cs st n rule: sec_memcmp.induct) auto

lemma sec_memcmp_zero: "sec_memcmp cs st n = Some 0 \<Longrightarrow> n \<le> length cs \<and> n \<le> length st \<and> take n cs = take n st"
proof (induction cs st n rule: sec_memcmp.induct)
  case (2 a cs b st count)
  then have "a = b" by (auto split: if_splits simp: word_uint_eq_iff)
  with 2 show ?case by simp
qed simp_all

lemma sec_memcmp_zero_iff:
  "sec_memcmp cs st n = Some 0 \<longleftrightarrow> n \<le> length cs \<and> n \<le> length st \<and> take n cs = take n st"
  using sec_memcmp_eq sec_memcmp_zero by blast

definition junk_ok :: "(nat \<Rightarrow> u8 list) \<Rightarrow> bool" where
  "junk_ok junk \<longleftrightarrow> (\<forall>n. length (junk n) = n)"

lemma cal_sha256_spec:
  "length (junk 64) = 64 \<Longrightarrow> length (junk 32) = 32 \<Longrightarrow>
   cal_sha256 junk b off n = map_option sha256_spec (mem_read b off n)"
  by (simp add: cal_sha256_def sha256_csum_aux cong: option.map_cong)

lemma length_sha256_spec [simp]: "length (sha256_spec m) = 32"
proof -
  have "\<And>H. length H = 8 \<Longrightarrow> length (concat (map bytes32 H)) = 32"
    by (simp add: length_concat bytes32_def comp_def sum_list_triv)
  then show ?thesis by (simp add: sha256_spec_def)
qed

section \<open>What an accepted certificate shows\<close>

lemma keycert_decision:
  assumes "mem_read b p 1 = Some [1]" "keycert_at b p = Some c" "mem_read b (p + 4) SPRD_RSAPUBKLEN = Some kb"
  shows "sprd_verify_cert junk precert h b p =
    Option.bind (sec_memcmp h (kc_hash_data c) HASH_BYTE_LEN) (\<lambda>d.
      if d \<noteq> 0 then Some False
      else Option.bind (pub_dec junk (kc_pubkey c) (kc_signature c) (unat (keybit_len (kc_pubkey c)) div 8)) (\<lambda>(ret, to).
           Option.bind (sec_memcmp (drop (p + 268) b) to KEYCERT_HASH_LEN) (\<lambda>d. Some (d = 0))))"
  using assms by (simp add: sprd_verify_cert_def CERTTYPE_KEY_def cal_sha256_def)

lemma contentcert_decision:
  assumes "mem_read b p 1 = Some [0]" "contentcert_at b p = Some c" "mem_read b (p + 4) SPRD_RSAPUBKLEN = Some kb"
    "junk_ok junk"
  shows "sprd_verify_cert junk precert h b p =
    Option.bind (sec_memcmp h (cc_hash_data c) HASH_BYTE_LEN) (\<lambda>d.
      if d \<noteq> 0 then Some False
      else Option.bind precert (\<lambda>pre.
           Option.bind (sec_memcmp pre (sha256_spec kb) HASH_BYTE_LEN) (\<lambda>d.
           if d \<noteq> 0 then Some False
           else Option.bind (pub_dec junk (cc_pubkey c) (cc_signature c) (unat (keybit_len (cc_pubkey c)) div 8)) (\<lambda>(ret, to).
                Option.bind (sec_memcmp (drop (p + 268) b) to (unat (of_int ret :: u32))) (\<lambda>d. Some (d = 0))))))"
  using assms by (simp add: sprd_verify_cert_def CERTTYPE_KEY_def CERTTYPE_CONTENT_def cal_sha256_spec junk_ok_def)

end
