(* ===== verification/Sign.thy ===== *)
theory Sign
  imports Verify
begin

text \<open>
  The signing tool, \<^verbatim>\<open>signimage/source/sign/main/start.c\<close>, and the tool that puts the image
  header in front, \<^verbatim>\<open>insertheader/source/imgheaderinsert.c\<close>.  Files are lists of bytes.  Whether
  each \<open>open\<close> and \<open>write\<close> succeeds, the key files and mincrypt's hash are parameters.
\<close>

section \<open>Packed modem images\<close>

definition MODEM_MAGIC :: "u8 list" where
  "MODEM_MAGIC = [0x53, 0x43, 0x49, 0x31, 0]"

definition MODEM_HDR_SIZE :: nat where "MODEM_HDR_SIZE = 12"
definition MODEM_IMG_HDR :: u32 where "MODEM_IMG_HDR = 0x1"
definition MODEM_LAST_HDR :: u32 where "MODEM_LAST_HDR = 0x100"
definition MODEM_SHA1_HDR :: u32 where "MODEM_SHA1_HDR = 0x400"
definition MODEM_SHA1_SIZE :: u32 where "MODEM_SHA1_SIZE = 20"

text \<open>\<open>sizeof(MODEM_MAGIC)\<close> counts the string's final zero byte.\<close>

definition is_packed_modem_image :: "u8 list \<Rightarrow> nat \<Rightarrow> bool option" where
  "is_packed_modem_image data off =
     map_option (\<lambda>bs. bs = MODEM_MAGIC) (mem_read data off 5)"

record data_block_header =
  type_flags :: u32
  hdr_data_offset :: u32
  hdr_length :: u32

definition block_header :: "u8 list \<Rightarrow> nat \<Rightarrow> data_block_header" where
  "block_header hdr_buf i =
     \<lparr>type_flags = word_of_bytes hdr_buf (3 * i), hdr_data_offset = word_of_bytes hdr_buf (3 * i + 1),
      hdr_length = word_of_bytes hdr_buf (3 * i + 2)\<rparr>"

text \<open>The inner \<open>while\<close> from header \<open>i\<close> with the value \<open>result\<close> has so far: the header it stops at and
  the new \<open>result\<close>.\<close>

function header_scan :: "u8 list \<Rightarrow> nat \<Rightarrow> nat \<Rightarrow> nat \<times> nat" where
  "header_scan hdr_buf result i =
     (if i \<ge> 8 \<or> type_flags (block_header hdr_buf i) AND MODEM_IMG_HDR \<noteq> 0 then (i, result)
      else if i + 1 = 8 then (i + 1, 1)
      else if type_flags (block_header hdr_buf (i + 1)) AND MODEM_LAST_HDR \<noteq> 0 then (i + 1, 2)
      else header_scan hdr_buf result (i + 1))"
  by pat_completeness auto
termination
  by (relation "measure (\<lambda>(h, r, i). 8 - i)") auto

text \<open>The \<open>do ... while (1)\<close>: \<open>None\<close> when it does not end.\<close>

partial_function (option) header_rounds :: "u8 list \<Rightarrow> nat \<Rightarrow> nat \<Rightarrow> (nat \<times> nat) option" where
  "header_rounds hdr_buf result start =
     (let (i, result) = header_scan hdr_buf result start
      in if result \<noteq> 1 then Some (i, result) else header_rounds hdr_buf result 0)"

definition get_modem_info :: "u8 list \<Rightarrow> nat \<Rightarrow> (u32 \<times> u32) option" where
  "get_modem_info data off =
     Option.bind (mem_read data off (MODEM_HDR_SIZE * 8)) (\<lambda>hdr_buf.
     Option.bind (header_rounds hdr_buf 0 1) (\<lambda>(i, result).
     if result = 0
     then let h = block_header hdr_buf i
          in Some (if type_flags h AND MODEM_SHA1_HDR \<noteq> 0 then hdr_data_offset h + MODEM_SHA1_SIZE
                   else hdr_data_offset h, hdr_length h)
     else Some (0, 0)))"

text \<open>\<open>padding\<close> has 512 bytes; the result is what reaches the file.\<close>

definition write_padding :: "u32 \<Rightarrow> u32 \<Rightarrow> u8 list option" where
  "write_padding pagesize itemsize =
     (let pagemask = pagesize - 1
      in if itemsize AND pagemask = 0 then Some []
         else mem_read (replicate 512 0xff) 0 (unat (pagesize - (itemsize AND pagemask))))"

section \<open>Signing\<close>

definition key_file :: "string \<Rightarrow> string \<Rightarrow> string" where
  "key_file key_path name = (if last key_path \<noteq> CHR ''/'' then key_path @ ''/'' else key_path) @ name"

definition key_names :: "string list" where
  "key_names = [''rsa2048_0_pub.pem'', ''rsa2048_1_pub.pem'', ''rsa2048_2_pub.pem'',
     ''rsa2048_0.pem'', ''rsa2048_1.pem'', ''rsa2048_2.pem'']"

text \<open>The library's \<open>basename\<close>.\<close>

definition base_name :: "string \<Rightarrow> string" where
  "base_name path =
     (let p = rev (dropWhile (\<lambda>c. c = CHR ''/'') (rev path))
      in if path = [] then ''.'' else if p = [] then ''/''
         else rev (takeWhile (\<lambda>c. c \<noteq> CHR ''/'') (rev p)))"

definition named :: "string \<Rightarrow> string \<Rightarrow> bool" where
  "named name img_name \<longleftrightarrow> take (length name) img_name = name"

datatype image_kind = First_loader | Boot_loader | Trusted_os | Boot_modem

definition image_kind :: "string \<Rightarrow> image_kind" where
  "image_kind n =
     (if named ''fdl1-sign.bin'' n \<or> named ''u-boot-spl-16k-sign.bin'' n then First_loader
      else if named ''fdl2-sign.bin'' n \<or> named ''u-boot-sign.bin'' n \<or> named ''u-boot-dtb-sign.bin'' n
      then Boot_loader
      else if named ''tos-sign.bin'' n \<or> named ''sml-sign.bin'' n \<or> named ''mobilevisor-sign.bin'' n
        \<or> named ''secvm-sign.bin'' n \<or> named ''mvconfig-sign.bin'' n
      then Trusted_os else Boot_modem)"

definition zero_pubkey :: sprd_rsapubkey where
  "zero_pubkey = \<lparr>keybit_len = 0, key_e = replicate 4 0, key_mod = replicate 256 0\<rparr>"

text \<open>The key files: OpenSSL's reading of the public and of the private ones, by path.\<close>

record key_files =
  pub_file :: "string \<Rightarrow> pem_public option option"
  priv_file :: "string \<Rightarrow> (u8 list \<Rightarrow> u8 list) option option"

text \<open>A key certificate for the payload, with the key files numbered as in the array \<open>key\<close>;
  \<open>nextpubk\<close> starts uninitialised.\<close>

definition make_keycert ::
  "(nat \<Rightarrow> u8 list) \<Rightarrow> key_files \<Rightarrow> (nat \<Rightarrow> string) \<Rightarrow> u32 \<Rightarrow> nat \<Rightarrow> nat \<Rightarrow> nat \<Rightarrow> u8 list \<Rightarrow> u8 list option" where
  "make_keycert junk files key ty pub next priv payload_hash =
     Option.bind (getpubkeyfrmPEM (pub_file files (key pub)) zero_pubkey) (\<lambda>(_, pubkey).
     Option.bind (getpubkeyfrmPEM (pub_file files (key next))
       \<lparr>keybit_len = word_of_bytes (junk 4) 0, key_e = junk 4, key_mod = junk 256\<rparr>) (\<lambda>(_, nextpubk).
     let hash_key = sha256_csum_wd (junk 64) (pubkey_bytes nextpubk) (replicate 32 0);
         data = payload_hash @ hash_key @ bytes_of_word ty @ bytes_of_word 1
     in Option.bind (calcSignature (priv_file files (key priv)) data (replicate 256 0)) (\<lambda>(_, signature).
        Some (keycert_bytes \<lparr>kc_certtype = CERTTYPE_KEY, kc_pubkey = pubkey, kc_hash_data = payload_hash,
          kc_hash_key = hash_key, kc_type = ty, kc_version = 1, kc_signature = signature\<rparr>))))"

definition make_contentcert ::
  "key_files \<Rightarrow> (nat \<Rightarrow> string) \<Rightarrow> u32 \<Rightarrow> nat \<Rightarrow> nat \<Rightarrow> u8 list \<Rightarrow> u8 list option" where
  "make_contentcert files key version pub priv payload_hash =
     Option.bind (getpubkeyfrmPEM (pub_file files (key pub)) zero_pubkey) (\<lambda>(_, pubkey).
     let data = payload_hash @ bytes_of_word 0 @ bytes_of_word version
     in Option.bind (calcSignature (priv_file files (key priv)) data (replicate 256 0)) (\<lambda>(_, signature).
        Some (contentcert_bytes \<lparr>cc_certtype = CERTTYPE_CONTENT, cc_pubkey = pubkey, cc_hash_data = payload_hash,
          cc_type = 0, cc_version = version, cc_signature = signature\<rparr>)))"

definition make_cert ::
  "(nat \<Rightarrow> u8 list) \<Rightarrow> key_files \<Rightarrow> (nat \<Rightarrow> string) \<Rightarrow> image_kind \<Rightarrow> u8 list \<Rightarrow> u8 list option" where
  "make_cert junk files key kind payload_hash =
     (case kind of
        First_loader \<Rightarrow> make_keycert junk files key 1 0 1 3 payload_hash
      | Boot_loader \<Rightarrow> make_keycert junk files key 0 1 2 4 payload_hash
      | Trusted_os \<Rightarrow> make_contentcert files key 0 1 4 payload_hash
      | Boot_modem \<Rightarrow> make_contentcert files key 1 2 5 payload_hash)"

definition kind_cert_size :: "image_kind \<Rightarrow> nat" where
  "kind_cert_size kind =
     (case kind of First_loader \<Rightarrow> sizeof_keycert | Boot_loader \<Rightarrow> sizeof_keycert
      | Trusted_os \<Rightarrow> sizeof_contentcert | Boot_modem \<Rightarrow> sizeof_contentcert)"

definition make_sign_header :: "nat \<Rightarrow> u64 \<Rightarrow> nat \<Rightarrow> sprdsignedimageheader" where
  "make_sign_header img_len psize csize =
     \<lparr>magic = replicate 8 0, header_version_major = 0, header_version_minor = 0, payload_size = psize,
      payload_offset = of_nat sizeof_sys_img_header, cert_size = of_nat csize,
      cert_offset = of_nat (img_len + sizeof_sign_header), priv_size = 0, priv_offset = 0,
      cert_dbg_prim_size = 0, cert_dbg_prim_offset = 0, cert_dbg_developer_size = 0,
      cert_dbg_developer_offset = 0\<rparr>"

text \<open>Where the payload starts and the length that goes into the header.\<close>

definition payload_region :: "u8 list \<Rightarrow> (nat \<times> u64) option" where
  "payload_region input_data =
     Option.bind (is_packed_modem_image input_data sizeof_sys_img_header) (\<lambda>packed.
     if packed
     then map_option (\<lambda>(off, len). (sizeof_sys_img_header + unat off, ucast len))
            (get_modem_info input_data sizeof_sys_img_header)
     else Some (sizeof_sys_img_header, of_nat (length input_data) - of_nat sizeof_sys_img_header))"

text \<open>The return value and the file afterwards, \<open>None\<close> when it has been removed.  \<open>img_file\<close> is
  \<open>None\<close> when it does not load; \<open>fd\<close> is what \<open>open\<close> returns for the output and \<open>wr n\<close> whether the
  \<open>n\<close>th write succeeds.\<close>

definition sprd_signimg ::
  "(nat \<Rightarrow> u8 list) \<Rightarrow> key_files \<Rightarrow> int \<Rightarrow> (nat \<Rightarrow> bool) \<Rightarrow> string \<Rightarrow> string \<Rightarrow> u8 list option \<Rightarrow>
   (int \<times> u8 list option) option" where
  "sprd_signimg junk files fd wr img key_path img_file =
     (let key = (\<lambda>i. key_file key_path (key_names ! i)); kind = image_kind (base_name img)
      in if key_path = [] then None
         else case img_file of
           None \<Rightarrow> Some (0, None)
         | Some input_data \<Rightarrow>
             Option.bind (payload_region input_data) (\<lambda>(payload, psize).
             if fd = 0 then Some (0, Some [])
             else if fd < 0 \<or> \<not> wr 0 then Some (0, None)
             else Option.bind (cal_sha256 (\<lambda>n. if n = 32 then replicate 32 0 else junk n) input_data payload
                      (unat (ucast psize :: u32))) (\<lambda>payload_hash.
                  Option.bind (make_cert junk files key kind payload_hash) (\<lambda>cert.
                  if \<not> wr 1 \<or> \<not> wr 2 then Some (0, None)
                  else Some (1, Some (input_data
                    @ sign_header_bytes (make_sign_header (length input_data) psize (kind_cert_size kind)) @ cert))))))"

section \<open>Inserting the image header\<close>

text \<open>\<open>load_file\<close> of \<open>imgheaderinsert.c\<close> rounds the size up to a multiple of 16, with zeros.\<close>

definition pad16 :: "u8 list \<Rightarrow> u8 list" where
  "pad16 data = data @ replicate ((length data + 15) div 16 * 16 - length data) 0"

definition FILE_NAME_SIZE :: nat where "FILE_NAME_SIZE = 2048"
definition SUFFIX_SIZE :: nat where "SUFFIX_SIZE = 10"

text \<open>The output name: \<open>-sign\<close> before the last suffix; \<open>None\<close> without a suffix.\<close>

definition sign_name :: "string \<Rightarrow> string option" where
  "sign_name filename =
     (if CHR ''.'' \<notin> set filename then None
      else let suffix_rev = takeWhile (\<lambda>c. c \<noteq> CHR ''.'') (rev filename);
               base = take (length filename - length suffix_rev - 1) filename
           in Some (base @ ''-sign'' @ ''.'' @ rev suffix_rev))"

definition image_header :: "(u8 list \<Rightarrow> u8 list) \<Rightarrow> bool \<Rightarrow> u8 list \<Rightarrow> sys_img_header" where
  "image_header sha256 addPayloadHash payload =
     \<lparr>mMagicNum = 0x42544844, mVersion = 1,
      mPayloadHash = (if addPayloadHash then sha256 payload else replicate 32 0),
      mImgAddr = 0, mImgSize = of_nat (length payload), reserved = replicate 460 0\<rparr>"

text \<open>\<open>main\<close>: the exit status and the files it leaves, the padded original and the image, as updates in the
  order they happen; \<open>raw\<close> is \<open>None\<close> when the file does not load, \<open>opens\<close> and \<open>wr\<close> say which \<open>open\<close>
  and \<open>write\<close> succeeds, and a failed write leaves an empty file.  Names that do not fit their
  buffers are undefined.\<close>

definition imgheaderinsert ::
  "(u8 list \<Rightarrow> u8 list) \<Rightarrow> (nat \<Rightarrow> bool) \<Rightarrow> (nat \<Rightarrow> bool) \<Rightarrow> bool \<Rightarrow> string \<Rightarrow> u8 list option \<Rightarrow>
   (int \<times> (string \<times> u8 list option) list) option" where
  "imgheaderinsert sha256 opens wr addPayloadHash filename raw =
     (if length filename \<ge> FILE_NAME_SIZE then None
      else case sign_name filename of
        None \<Rightarrow> Some (1, [])
      | Some imagename \<Rightarrow>
          if length (takeWhile (\<lambda>c. c \<noteq> CHR ''.'') (rev filename)) + 1 \<ge> SUFFIX_SIZE \<or> length imagename \<ge> FILE_NAME_SIZE
          then None
          else case raw of
            None \<Rightarrow> Some (1, [])
          | Some data \<Rightarrow>
              let payload = pad16 data
              in Some (
                if \<not> opens 0 then (1, [(imagename, None)])
                else if \<not> opens 1 then (1, [(imagename, None)])
                else if \<not> wr 0 then (1, [(filename, Some []), (imagename, None)])
                else if \<not> wr 1 \<or> \<not> wr 2 then (1, [(filename, Some payload), (imagename, None)])
                else (0, [(filename, Some payload),
                  (imagename, Some (sys_img_header_bytes (image_header sha256 addPayloadHash payload) @ payload))])))"

declare header_scan.simps [simp del]

end
