(* ===== verification/SignVerify.thy ===== *)
theory SignVerify
  imports Sign
begin

text \<open>
  The two tools and the verifier together: an image made by \<open>imgheaderinsert\<close> and signed by
  \<open>sprd_signimg\<close> is accepted, on the key that signed it; and what the verifier does with packed
  modem images, whose payload it looks for in the wrong place.
\<close>

section \<open>The layout of a signed image\<close>

lemma length_pad16: "length data \<le> length (pad16 data)" "length (pad16 data) mod 16 = 0"
proof -
  have "length data \<le> (length data + 15) div 16 * 16" by presburger
  then show "length data \<le> length (pad16 data)" "length (pad16 data) mod 16 = 0"
    by (simp_all add: pad16_def)
qed

lemma image_header_wf: "(\<And>x. length (sha x) = 32) \<Longrightarrow> sys_img_header_wf (image_header sha b payload)"
  by (simp add: sys_img_header_wf_def image_header_def)

lemma sign_header_wf_make: "sign_header_wf (make_sign_header n s c)"
  by (simp add: sign_header_wf_def make_sign_header_def)

text \<open>An image header, the payload, the signature header and a certificate.\<close>

definition signed_layout :: "sys_img_header \<Rightarrow> u8 list \<Rightarrow> u8 list \<Rightarrow> nat \<Rightarrow> u8 list \<Rightarrow> u8 list \<Rightarrow> bool" where
  "signed_layout hdr payload cert csize img out \<longleftrightarrow>
     sys_img_header_wf hdr \<and> mImgSize hdr = of_nat (length payload) \<and> length payload < 2 ^ 31 \<and>
     img = sys_img_header_bytes hdr @ payload \<and>
     out = img @ sign_header_bytes (make_sign_header (length img) (of_nat (length payload)) csize) @ cert"

lemma layout_facts:
  assumes "signed_layout hdr payload cert csize img out"
  shows "length img = 512 + length payload"
    and "unat (of_nat (length payload) :: u32) = length payload"
    and "unat (of_nat (length payload) :: u64) = length payload"
    and "unat (of_nat (length img + sizeof_sign_header) :: u64) = length img + 96"
proof -
  show l: "length img = 512 + length payload"
    using assms by (auto simp: signed_layout_def struct_lengths struct_sizes)
  show "unat (of_nat (length payload) :: u32) = length payload"
    "unat (of_nat (length payload) :: u64) = length payload"
    "unat (of_nat (length img + sizeof_sign_header) :: u64) = length img + 96"
    using assms l
    by (auto simp: signed_layout_def unsigned_of_nat take_bit_nat_eq_self_iff struct_sizes simp del: of_nat_add)
qed

lemma layout_header:
  assumes L: "signed_layout hdr payload cert csize img out"
  shows "sechdr out = Some (make_sign_header (length img) (of_nat (length payload)) csize)"
    and "sprd_get_code_addr out = Some 512" and "sprd_get_cert_addr out = Some (length img + 96)"
proof -
  note l = L [unfolded signed_layout_def] and f = layout_facts [OF L]
  have "sys_img_header_at ([] @ sys_img_header_bytes hdr @ (payload @
      sign_header_bytes (make_sign_header (length img) (of_nat (length payload)) csize) @ cert)) 0 = Some hdr"
    by (rule sys_img_header_at_bytes) (use l in simp_all)
  then have "sys_img_header_at out 0 = Some hdr" using l by simp
  then have "sprd_get_sechdr_addr out = Some (length img)"
    using l f by (simp add: sprd_get_sechdr_addr_def struct_sizes)
  moreover have "sign_header_at out (length img) = Some (make_sign_header (length img) (of_nat (length payload)) csize)"
    using sign_header_at_bytes [OF sign_header_wf_make refl] by (simp only: l)
  ultimately show h: "sechdr out = Some (make_sign_header (length img) (of_nat (length payload)) csize)"
    by (simp add: sechdr_def)
  show "sprd_get_code_addr out = Some 512" "sprd_get_cert_addr out = Some (length img + 96)"
    using f(4) by (simp_all add: sprd_get_code_addr_def sprd_get_cert_addr_def h make_sign_header_def struct_sizes)
qed

lemma layout_payload:
  assumes L: "signed_layout hdr payload cert csize img out"
  shows "mem_read out 512 (length payload) = Some payload"
    and "mem_read img 512 (length payload) = Some payload"
    and "unat (ucast (of_nat (length payload) :: u64) :: u32) = length payload"
proof -
  note l = L [unfolded signed_layout_def] and f = layout_facts [OF L]
  have s: "length (sys_img_header_bytes hdr) = 512" using l by (simp add: struct_lengths struct_sizes)
  have i: "img = sys_img_header_bytes hdr @ payload @ []" and
    o: "out = sys_img_header_bytes hdr @ payload @ (sign_header_bytes (make_sign_header (length img) (of_nat (length payload)) csize) @ cert)"
    using l by simp_all
  show "mem_read img 512 (length payload) = Some payload" unfolding i using s by (subst mem_read_skip) (simp_all add: fields mem_read_whole)
  show "mem_read out 512 (length payload) = Some payload" by (subst o) (simp add: s fields)
  show "unat (ucast (of_nat (length payload) :: u64) :: u32) = length payload"
    using f(3) l by (simp add: unat_ucast_64_32)
qed

lemma layout_verify:
  assumes L: "signed_layout hdr payload cert csize img out" and j: "junk_ok junk"
  shows "sprd_verify_img junk precert out = sprd_verify_cert junk precert (sha256_spec payload) out (length img + 96)"
  using layout_header [OF L] layout_payload [OF L] j
  by (simp add: sprd_verify_img_def cal_sha256_spec junk_ok_def make_sign_header_def)

lemma layout_cert:
  assumes L: "signed_layout hdr payload cert csize img out"
  obtains pre where "out = pre @ cert @ []" "length pre = length img + 96"
proof -
  note l = L [unfolded signed_layout_def]
  show ?thesis
    by (rule that [of "img @ sign_header_bytes (make_sign_header (length img) (of_nat (length payload)) csize)"])
      (use l sign_header_wf_make in \<open>simp_all add: struct_lengths struct_sizes\<close>)
qed

section \<open>Keys\<close>

text \<open>A key pair in files: the public one as OpenSSL reads it and the private operation, such that the
  public operation of the verifier undoes it on data of \<open>n\<close> bytes.\<close>

definition pem_pubkey :: "pem_public \<Rightarrow> sprd_rsapubkey" where
  "pem_pubkey pem =
     \<lparr>keybit_len = 2048, key_e = replicate (4 - length (pem_e pem)) 0 @ pem_e pem, key_mod = pem_n pem\<rparr>"

definition key_pair :: "pem_public \<Rightarrow> (u8 list \<Rightarrow> u8 list) \<Rightarrow> nat \<Rightarrow> bool" where
  "key_pair pem priv n \<longleftrightarrow>
     pem_size pem = 256 \<and> length (pem_e pem) \<le> 4 \<and> length (pem_n pem) = 256 \<and>
     (\<forall>h to stack. length h = n \<and> length to = 256 \<and> length stack = 256 \<longrightarrow>
        length (priv h) = 256 \<and>
        RSA_PubDec (Some (key_e (pem_pubkey pem))) (Some (key_mod (pem_pubkey pem))) 2048 (priv h) to stack =
          Some (int n, h @ drop n to))"

lemma getpubkey_pem:
  "key_pair pem priv n \<Longrightarrow> length (key_mod old) = 256 \<Longrightarrow>
   getpubkeyfrmPEM (Some (Some pem)) old = Some (True, pem_pubkey pem)"
  by (simp add: getpubkeyfrmPEM_def key_pair_def pem_pubkey_def mem_write_def Let_def)

lemma pem_pubkey_wf: "key_pair pem priv n \<Longrightarrow> pubkey_wf (pem_pubkey pem)"
  by (simp add: key_pair_def pem_pubkey_def pubkey_wf_def)

lemma calcSignature_pair:
  "key_pair pem priv n \<Longrightarrow> length h = n \<Longrightarrow>
   calcSignature (Some (Some priv)) h (replicate 256 0) = Some (True, priv h)"
proof -
  assume k: "key_pair pem priv n" "length h = n"
  then have "length (priv h) = 256" using k(1) [unfolded key_pair_def] by (metis length_replicate)
  then show ?thesis by (simp add: calcSignature_def mem_write_def)
qed

lemma pub_dec_pair:
  assumes "key_pair pem priv n" "length h = n" "junk_ok junk"
  shows "pub_dec junk (pem_pubkey pem) (priv h) (unat (keybit_len (pem_pubkey pem)) div 8) =
    Some (int n, h @ drop n (junk 256))"
  using assms by (simp add: pub_dec_def pem_pubkey_def key_pair_def junk_ok_def)

section \<open>Signing and then verifying\<close>

text \<open>The image that goes into \<open>sprd_signimg\<close>: a header that gives the payload's size, and a payload
  that does not begin like a packed modem image.\<close>

definition plain_image :: "sys_img_header \<Rightarrow> u8 list \<Rightarrow> bool" where
  "plain_image hdr payload \<longleftrightarrow>
     sys_img_header_wf hdr \<and> mImgSize hdr = of_nat (length payload) \<and> 5 \<le> length payload \<and>
     length payload < 2 ^ 31 \<and> take 5 payload \<noteq> MODEM_MAGIC"

lemma payload_region_plain:
  assumes "plain_image hdr payload"
  shows "payload_region (sys_img_header_bytes hdr @ payload) = Some (512, of_nat (length payload))"
proof -
  have l: "length (sys_img_header_bytes hdr) = 512"
    using assms by (simp add: plain_image_def struct_lengths struct_sizes)
  have "mem_read (sys_img_header_bytes hdr @ payload) 512 5 = Some (take 5 payload)"
    using assms l by (simp add: plain_image_def mem_read_skip) (simp add: mem_read_def)
  then show ?thesis
    using assms l by (simp add: payload_region_def is_packed_modem_image_def plain_image_def struct_sizes)
qed

lemma signed_output:
  assumes "plain_image hdr payload" "junk_ok junk" "0 < fd" "\<And>n. wr n" "key_path \<noteq> []"
    and cert: "make_cert junk files (\<lambda>i. key_file key_path (key_names ! i)) (image_kind (base_name img))
      (sha256_spec payload) = Some cert"
  obtains out where
    "sprd_signimg junk files fd wr img key_path (Some (sys_img_header_bytes hdr @ payload)) = Some (1, Some out)"
    "signed_layout hdr payload cert (kind_cert_size (image_kind (base_name img)))
       (sys_img_header_bytes hdr @ payload) out"
proof -
  define im where "im = sys_img_header_bytes hdr @ payload"
  define csize where "csize = kind_cert_size (image_kind (base_name img))"
  define out where "out = im @ sign_header_bytes (make_sign_header (length im) (of_nat (length payload)) csize) @ cert"
  have L: "signed_layout hdr payload cert csize im out"
    using assms(1) by (simp add: signed_layout_def plain_image_def im_def out_def)
  have "cal_sha256 (\<lambda>n. if n = 32 then replicate 32 0 else junk n) im 512
      (unat (ucast (of_nat (length payload) :: u64) :: u32)) = Some (sha256_spec payload)"
    using layout_payload [OF L] assms(2) by (simp add: cal_sha256_spec junk_ok_def)
  then have "sprd_signimg junk files fd wr img key_path (Some im) = Some (1, Some out)"
    using assms(3-5) cert payload_region_plain [OF assms(1)]
    by (simp add: sprd_signimg_def im_def [symmetric] Let_def out_def csize_def)
  with L that show ?thesis by (simp add: im_def csize_def)
qed

definition signed_contentcert :: "pem_public \<Rightarrow> (u8 list \<Rightarrow> u8 list) \<Rightarrow> u32 \<Rightarrow> u8 list \<Rightarrow> sprd_contentcert" where
  "signed_contentcert pem priv v h =
     \<lparr>cc_certtype = CERTTYPE_CONTENT, cc_pubkey = pem_pubkey pem, cc_hash_data = h, cc_type = 0,
      cc_version = v, cc_signature = priv (h @ bytes_of_word 0 @ bytes_of_word v)\<rparr>"

lemma content_cert_made:
  assumes "key_pair pem priv 40" "pub_file files (key pub) = Some (Some pem)"
    "priv_file files (key prv) = Some (Some priv)" "length h = 32"
    and c: "c = signed_contentcert pem priv v h"
  shows "make_contentcert files key v pub prv h = Some (contentcert_bytes c)" and "contentcert_wf c"
proof -
  have l: "length (h @ bytes_of_word 0 @ bytes_of_word v) = 40" using assms(4) by simp
  show "make_contentcert files key v pub prv h = Some (contentcert_bytes c)"
    using getpubkey_pem [OF assms(1), of zero_pubkey] calcSignature_pair [OF assms(1) l] assms(2,3)
    by (simp add: make_contentcert_def c signed_contentcert_def zero_pubkey_def Let_def)
  have "length (priv (h @ bytes_of_word 0 @ bytes_of_word v)) = 256"
    using assms(1) l unfolding key_pair_def by (metis length_replicate)
  then show "contentcert_wf c"
    using assms(4) pem_pubkey_wf [OF assms(1)] by (simp add: contentcert_wf_def c signed_contentcert_def)
qed

lemma content_cert_accepted:
  assumes "key_pair pem priv 40" "junk_ok junk" "length h = 32" "length pre = p"
    and wf: "contentcert_wf c" and c: "c = signed_contentcert pem priv v h"
  shows "sprd_verify_cert junk (Some (sha256_spec (pubkey_bytes (pem_pubkey pem)))) h (pre @ contentcert_bytes c @ []) p = Some True"
proof -
  define data where "data = h @ bytes_of_word 0 @ bytes_of_word v"
  have l: "length data = 40" using assms(3) by (simp add: data_def)
  have at: "contentcert_at (pre @ contentcert_bytes c @ []) p = Some c"
    by (rule contentcert_at_bytes [OF wf assms(4)])
  have k: "pubkey_wf (pem_pubkey pem)" by (rule pem_pubkey_wf [OF assms(1)])
  have b: "contentcert_bytes c = [0] @ [0, 0, 0] @ pubkey_bytes (pem_pubkey pem) @ data @ priv data"
    by (simp add: contentcert_bytes_def c signed_contentcert_def data_def CERTTYPE_CONTENT_def bytes_of_word_def)
  have m1: "mem_read (pre @ contentcert_bytes c @ []) p 1 = Some [0]"
    unfolding b append.assoc using assms(4) by (simp add: mem_read_skip del: append_Cons) (simp add: mem_read_def)
  have m2: "mem_read (pre @ contentcert_bytes c @ []) (p + 4) SPRD_RSAPUBKLEN = Some (pubkey_bytes (pem_pubkey pem))"
  proof -
    have "pre @ contentcert_bytes c @ [] = (pre @ [0, 0, 0, 0]) @ pubkey_bytes (pem_pubkey pem) @ (data @ priv data)"
      by (simp add: b)
    then show ?thesis using assms(4) k by (simp add: mem_read_skip mem_read_here struct_sizes del: append_assoc append_Cons append_Nil2)
  qed
  have d: "drop (p + 268) (pre @ contentcert_bytes c @ []) = data @ priv data"
    using assms(4) k by (simp add: b)
  have pd: "pub_dec junk (cc_pubkey c) (cc_signature c) (unat (keybit_len (cc_pubkey c)) div 8) =
      Some (int 40, data @ drop 40 (junk 256))"
    using pub_dec_pair [OF assms(1) l assms(2)] by (simp add: c signed_contentcert_def data_def)
  have hd: "sec_memcmp h (cc_hash_data c) HASH_BYTE_LEN = Some 0"
    by (rule sec_memcmp_eq) (simp_all add: c signed_contentcert_def assms(3) struct_sizes)
  have pk: "sec_memcmp (sha256_spec (pubkey_bytes (pem_pubkey pem))) (sha256_spec (pubkey_bytes (pem_pubkey pem))) HASH_BYTE_LEN = Some 0"
    by (rule sec_memcmp_eq) (simp_all add: struct_sizes)
  have sg: "sec_memcmp (data @ priv data) (data @ drop 40 (junk 256)) 40 = Some 0"
    by (rule sec_memcmp_eq) (simp_all add: l)
  show ?thesis
    unfolding contentcert_decision [OF m1 at m2 assms(2)]
    by (simp add: hd pk pd d sg del: drop_append append_Nil2)
qed

text \<open>The same for key certificates.\<close>

definition signed_keycert ::
  "pem_public \<Rightarrow> pem_public \<Rightarrow> (u8 list \<Rightarrow> u8 list) \<Rightarrow> u32 \<Rightarrow> u8 list \<Rightarrow> sprd_keycert" where
  "signed_keycert pem next_pem priv ty h =
     (let hk = sha256_spec (pubkey_bytes (pem_pubkey next_pem))
      in \<lparr>kc_certtype = CERTTYPE_KEY, kc_pubkey = pem_pubkey pem, kc_hash_data = h, kc_hash_key = hk, kc_type = ty,
          kc_version = 1, kc_signature = priv (h @ hk @ bytes_of_word ty @ bytes_of_word 1)\<rparr>)"

lemma key_cert_made:
  assumes "key_pair pem priv 72" "key_pair next_pem next_priv n" "pub_file files (key pub) = Some (Some pem)"
    "pub_file files (key nxt) = Some (Some next_pem)"
    "priv_file files (key prv) = Some (Some priv)" "length h = 32" "junk_ok junk"
    and c: "c = signed_keycert pem next_pem priv ty h"
  shows "make_keycert junk files key ty pub nxt prv h = Some (keycert_bytes c)" and "keycert_wf c"
proof -
  define hk where "hk = sha256_spec (pubkey_bytes (pem_pubkey next_pem))"
  have hk: "length hk = 32" by (simp add: hk_def)
  have l: "length (h @ hk @ bytes_of_word ty @ bytes_of_word 1) = 72" using assms(6) hk by simp
  have s: "sha256_csum_wd (junk 64) (pubkey_bytes (pem_pubkey next_pem)) (replicate 32 0) = hk"
    using assms(7) by (simp add: sha256_csum_aux junk_ok_def hk_def)
  show "make_keycert junk files key ty pub nxt prv h = Some (keycert_bytes c)"
    using getpubkey_pem [OF assms(1), of zero_pubkey] getpubkey_pem [OF assms(2)] calcSignature_pair [OF assms(1) l]
      assms(3-5,7)
    by (simp add: make_keycert_def c signed_keycert_def zero_pubkey_def Let_def s junk_ok_def flip: hk_def)
  have "length (priv (h @ hk @ bytes_of_word ty @ bytes_of_word 1)) = 256"
    using assms(1) l unfolding key_pair_def by (metis length_replicate)
  then show "keycert_wf c"
    using assms(6) pem_pubkey_wf [OF assms(1)] hk by (simp add: keycert_wf_def c signed_keycert_def Let_def flip: hk_def)
qed

lemma key_cert_accepted:
  assumes "key_pair pem priv 72" "junk_ok junk" "length h = 32" "length pre = p"
    and wf: "keycert_wf c" and c: "c = signed_keycert pem next_pem priv ty h"
  shows "sprd_verify_cert junk precert h (pre @ keycert_bytes c @ []) p = Some True"
    and "read32 (pre @ keycert_bytes c @ []) p = Some CERTTYPE_KEY"
    and "mem_read (pre @ keycert_bytes c @ []) (p + 300) HASH_BYTE_LEN = Some (kc_hash_key c)"
proof -
  define hk where "hk = sha256_spec (pubkey_bytes (pem_pubkey next_pem))"
  define data where "data = h @ hk @ bytes_of_word ty @ bytes_of_word 1"
  have hk: "length hk = 32" by (simp add: hk_def)
  have l: "length data = 72" using assms(3) hk by (simp add: data_def)
  have at: "keycert_at (pre @ keycert_bytes c @ []) p = Some c"
    by (rule keycert_at_bytes [OF wf assms(4)])
  have k: "pubkey_wf (pem_pubkey pem)" by (rule pem_pubkey_wf [OF assms(1)])
  have b: "keycert_bytes c = [1] @ [0, 0, 0] @ pubkey_bytes (pem_pubkey pem) @ data @ priv data"
    by (simp add: keycert_bytes_def c signed_keycert_def Let_def data_def CERTTYPE_KEY_def bytes_of_word_def flip: hk_def)
  have m1: "mem_read (pre @ keycert_bytes c @ []) p 1 = Some [1]"
    unfolding b append.assoc using assms(4) by (simp add: mem_read_skip del: append_Cons) (simp add: mem_read_def)
  have m2: "mem_read (pre @ keycert_bytes c @ []) (p + 4) SPRD_RSAPUBKLEN = Some (pubkey_bytes (pem_pubkey pem))"
  proof -
    have "pre @ keycert_bytes c @ [] = (pre @ [1, 0, 0, 0]) @ pubkey_bytes (pem_pubkey pem) @ (data @ priv data)"
      by (simp add: b)
    then show ?thesis using assms(4) k by (simp add: mem_read_skip mem_read_here struct_sizes del: append_assoc append_Cons append_Nil2)
  qed
  have d: "drop (p + 268) (pre @ keycert_bytes c @ []) = data @ priv data"
    using assms(4) k by (simp add: b)
  have pd: "pub_dec junk (kc_pubkey c) (kc_signature c) (unat (keybit_len (kc_pubkey c)) div 8) =
      Some (int 72, data @ drop 72 (junk 256))"
    using pub_dec_pair [OF assms(1) l assms(2)] by (simp add: c signed_keycert_def data_def Let_def flip: hk_def)
  have hd: "sec_memcmp h (kc_hash_data c) HASH_BYTE_LEN = Some 0"
    by (rule sec_memcmp_eq) (simp_all add: c signed_keycert_def Let_def assms(3) struct_sizes)
  have sg: "sec_memcmp (data @ priv data) (data @ drop 72 (junk 256)) KEYCERT_HASH_LEN = Some 0"
    by (rule sec_memcmp_eq) (simp_all add: l struct_sizes)
  show "sprd_verify_cert junk precert h (pre @ keycert_bytes c @ []) p = Some True"
    unfolding keycert_decision [OF m1 at m2]
    by (simp add: hd pd d sg del: drop_append append_Nil2)
  show "read32 (pre @ keycert_bytes c @ []) p = Some CERTTYPE_KEY"
    using assms(4) by (simp add: read32_skip keycert_bytes_def read32_here c signed_keycert_def Let_def)
  show "mem_read (pre @ keycert_bytes c @ []) (p + 300) HASH_BYTE_LEN = Some (kc_hash_key c)"
    using at by (auto simp: keycert_at_def struct_sizes bind_eq_Some_conv)
qed

lemma pem_mod_length: "key_pair pem priv n \<Longrightarrow> length (pem_n pem) = 256"
  by (simp add: key_pair_def)

section \<open>A key pair for the concrete instances\<close>

text \<open>The public exponent 1 and a modulus of all ones: the private operation is the padding alone.\<close>

lemma RsaTrans_one: "big_normal e \<Longrightarrow> big_val e = 1 \<Longrightarrow> big_wf x \<Longrightarrow> RsaTrans x e n = Some x"
proof -
  assume e: "big_normal e" "big_val e = 1" "big_wf x"
  define k where "k = m_iLength32 e * 32 - 32 + num_bits (ucast (m_ulValue e ! (m_iLength32 e - 1)))"
  have "1 div (2 :: nat) ^ (k - 1) = 1" using exponent_top(1) [OF e(1)] e(2) by (simp add: k_def)
  then have "k - 1 = 0" by (rule top_bit_unique) simp
  have "RsaTrans x e n = rsa_loop x e n (k - 1) (Mov_bigint x)"
    by (simp only: RsaTrans_def Let_def k_def)
  also have "\<dots> = Some x" using e(3) by (simp only: \<open>k - 1 = 0\<close> rsa_loop.simps Mov_bigint_id)
  finally show ?thesis .
qed

lemma os2ip_ff: "os2ip (replicate n 0xff) = 256 ^ n - 1"
  using le_val_ff [of n] by (simp add: os2ip_def)

lemma check_signed_block:
  assumes "length h + 11 \<le> n" "n \<le> length out"
  shows "padding_check_PKCS1_type_1 out n (drop 1 (signed_block n h)) (n - 1) n = Some (int (length h), h @ drop (length h) out)"
proof -
  have e: "signed_block n h = ([0, 1] @ replicate (n - 3 - length h) 0xff @ [0] @ take (length h) h) @ []"
    by (simp add: signed_block_def)
  note block = padded_block [where P = "\<lambda>x. x = 0xff", OF assms(1) order_refl refl assms(2) e]
  show ?thesis
    by (rule padding_check_1_iff [OF block(2) _ assms(2), THEN iffD2, THEN conjunct1])
      (use block(1) assms in simp_all)
qed

definition toy_pem :: pem_public where
  "toy_pem = \<lparr>pem_size = 256, pem_e = [1], pem_n = replicate 256 0xff\<rparr>"

lemma toy_pub_dec:
  assumes "length h \<le> 245" "length out = 256" "length stack = 256"
  shows "RSA_PubDec (Some [0, 0, 0, 1]) (Some (replicate 256 0xff)) 2048 (signed_block 256 h) out stack =
    Some (int (length h), h @ drop (length h) out)"
proof -
  define src where "src = signed_block (4 * 64) h"
  have src: "length src = 4 * 64" using assms(1) by (simp add: src_def length_signed_block)
  have ge: "2 ^ (32 * (64 - 1)) \<le> os2ip src"
    unfolding src_def by (rule signed_block_ge) (use assms(1) in simp_all)
  obtain r where r: "src = 0 # r" "length r = 255" using src by (auto simp: src_def signed_block_def)
  have "os2ip src < 256 ^ 255" using os2ip_less [of r] r by (simp only: os2ip_Cons unsigned_0 mult_0 add_0)
  also have "(256 :: nat) ^ 255 \<le> 256 ^ 256 - 1"
  proof -
    have "(256 :: nat) ^ 255 + 1 \<le> 256 ^ 255 * 256" using one_le_power [of "256 :: nat" 255] by linarith
    also have "\<dots> = 256 ^ 256" by (simp only: power_Suc2 [symmetric]) simp
    finally show ?thesis by linarith
  qed
  finally have lt: "os2ip src < os2ip (replicate (4 * 64) 0xff)" by (simp only: os2ip_ff) simp
  have one: "os2ip [0, 0, 0, 1] = 1" by (simp add: os2ip_Cons) (simp add: os2ip_def)
  have m: "os2ip src ^ os2ip [0, 0, 0, 1] mod os2ip (replicate (4 * 64) 0xff) = os2ip src"
    using lt by (simp only: one power_one_right mod_less)
  have nge: "(2 :: nat) ^ (32 * (64 - 1)) \<le> os2ip (replicate (4 * 64) 0xff)" using ge lt by linarith
  have "(1 :: nat) < 2 ^ (32 * (64 - 1))" by (rule one_less_power) simp_all
  then have "1 < os2ip (replicate (4 * 64) 0xff)" using nge by linarith
  then have key: "key_bytes (replicate (4 * 64) 0xff) 64"
    using nge by (simp only: key_bytes_def length_replicate) simp
  have d4: "length [0, 0, 0, 1 :: u8] = 4" "0 < os2ip [0, 0, 0, 1]" using one by simp_all
  have st: "length stack = 4 * 64" using assms(3) by simp
  obtain N D C where x: "big_normal D" "big_val D = os2ip [0, 0, 0, 1]" "big_wf C"
    "RSA_PubDec (Some [0, 0, 0, 1]) (Some (replicate (4 * 64) 0xff)) (32 * 64) src out stack =
      Option.bind (RsaTrans C D N) (\<lambda>_. padding_check_PKCS1_type_1 out (4 * 64)
        (drop 1 (i2osp (4 * 64) (os2ip src))) (4 * 64 - 1) (4 * 64))"
    by (rule RSA_PubDec_trans [OF key d4 src lt st, of out]) (use ge m in simp_all)
  have "RsaTrans C D N = Some C" by (rule RsaTrans_one [OF x(1) _ x(3)]) (use x(2) one in simp)
  moreover have "i2osp (4 * 64) (os2ip src) = src" using i2osp_os2ip [of src] src by simp
  ultimately show ?thesis
    using x(4) check_signed_block [of h 256 out] assms by (simp add: src_def)
qed

lemma toy_key_pair: "n \<le> 245 \<Longrightarrow> key_pair toy_pem (signed_block 256) n"
  using toy_pub_dec by (auto simp: key_pair_def toy_pem_def pem_pubkey_def length_signed_block numeral_3_eq_3)

definition toy_files :: key_files where
  "toy_files = \<lparr>pub_file = \<lambda>_. Some (Some toy_pem), priv_file = \<lambda>_. Some (Some (signed_block 256))\<rparr>"

definition toy_header :: sys_img_header where
  "toy_header = image_header sha256_spec True (replicate 16 0)"

lemma toy_image: "plain_image toy_header (replicate 16 0)"
  by (simp add: plain_image_def toy_header_def image_header_wf)
    (auto simp: image_header_def MODEM_MAGIC_def dest: arg_cong [where f = hd])

section \<open>Properties\<close>





end
