(* ===== verification/Image.thy ===== *)
theory Image
  imports SignVerify
begin

text \<open>
  Properties of the tools and of the verifier that do not need a key pair: what an accepted image
  shows, which packed modem images \<open>get_modem_info\<close> returns on, and the file \<open>imgheaderinsert\<close> writes.
\<close>

section \<open>What an accepted image shows\<close>

lemma pub_dec_bind:
  "Option.bind (pub_dec junk k s n) (\<lambda>(ret, to). Option.bind (sec_memcmp b to (f ret)) (\<lambda>d. Some (d = 0))) = Some True \<longleftrightarrow>
   (\<exists>ret to. pub_dec junk k s n = Some (ret, to) \<and> f ret \<le> length b \<and> f ret \<le> length to \<and> take (f ret) b = take (f ret) to)"
  by (auto simp: bind_eq_Some_conv sec_memcmp_zero_iff)

lemma keycert_accepted:
  assumes "sprd_verify_cert junk precert h b p = Some True" "mem_read b p 1 = Some [1]"
  shows "\<exists>c ret to. keycert_at b p = Some c \<and> take 32 h = take 32 (kc_hash_data c) \<and>
    pub_dec junk (kc_pubkey c) (kc_signature c) (unat (keybit_len (kc_pubkey c)) div 8) = Some (ret, to) \<and>
    take 72 (drop (p + 268) b) = take 72 to"
proof -
  obtain c kb where c: "keycert_at b p = Some c" "mem_read b (p + 4) SPRD_RSAPUBKLEN = Some kb"
    using assms by (auto simp: sprd_verify_cert_def CERTTYPE_KEY_def bind_eq_Some_conv cal_sha256_def)
  show ?thesis
    using assms(1) unfolding keycert_decision [OF assms(2) c]
    by (auto simp: bind_eq_Some_conv sec_memcmp_zero_iff c(1) struct_sizes split: if_splits)
qed

lemma contentcert_accepted:
  assumes "sprd_verify_cert junk precert h b p = Some True" "mem_read b p 1 = Some [0]" "junk_ok junk"
  shows "\<exists>c ret to pre. contentcert_at b p = Some c \<and> take 32 h = take 32 (cc_hash_data c) \<and>
    precert = Some pre \<and> (\<exists>kb. mem_read b (p + 4) SPRD_RSAPUBKLEN = Some kb \<and> sha256_spec kb = take 32 pre) \<and>
    pub_dec junk (cc_pubkey c) (cc_signature c) (unat (keybit_len (cc_pubkey c)) div 8) = Some (ret, to) \<and>
    take (unat (of_int ret :: u32)) (drop (p + 268) b) = take (unat (of_int ret :: u32)) to"
proof -
  obtain c kb where c: "contentcert_at b p = Some c" "mem_read b (p + 4) SPRD_RSAPUBKLEN = Some kb"
    using assms by (auto simp: sprd_verify_cert_def CERTTYPE_KEY_def CERTTYPE_CONTENT_def bind_eq_Some_conv cal_sha256_def)
  show ?thesis
    using assms(1) unfolding contentcert_decision [OF assms(2) c assms(3)]
    by (auto simp: bind_eq_Some_conv sec_memcmp_zero_iff c(1) c(2) [unfolded struct_sizes] struct_sizes split: if_splits)
qed

lemma verify_img_True:
  assumes "sprd_verify_img junk precert buf = Some True" "junk_ok junk"
  shows "\<exists>hdr payload. sechdr buf = Some hdr \<and>
    mem_read buf (unat (payload_offset hdr)) (unat (ucast (payload_size hdr) :: u32)) = Some payload \<and>
    sprd_verify_cert junk precert (sha256_spec payload) buf (unat (cert_offset hdr)) = Some True"
  using assms
  by (auto simp: sprd_verify_img_def bind_eq_Some_conv sprd_get_code_addr_def sprd_get_cert_addr_def cal_sha256_spec junk_ok_def)

section \<open>Packed modem images\<close>

text \<open>Header \<open>i\<close> ends the scan: an image header, or, after the first step, a last header.\<close>

definition stops_scan :: "u8 list \<Rightarrow> nat \<Rightarrow> nat \<Rightarrow> bool" where
  "stops_scan h start i \<longleftrightarrow> type_flags (block_header h i) AND MODEM_IMG_HDR \<noteq> 0 \<or>
     start < i \<and> type_flags (block_header h i) AND MODEM_LAST_HDR \<noteq> 0"

lemma header_scan_1:
  "i < 8 \<Longrightarrow> snd (header_scan h 0 i) = 1 \<longleftrightarrow> (\<forall>j. i \<le> j \<and> j < 8 \<longrightarrow> \<not> stops_scan h i j)"
proof (induction "7 - i" arbitrary: i)
  case 0
  then have "i = 7" by simp
  then show ?case
    by (subst header_scan.simps) (auto simp: stops_scan_def le_less_Suc_eq eval_nat_numeral)
next
  case (Suc k)
  have split: "(\<forall>j. i \<le> j \<and> j < 8 \<longrightarrow> \<not> stops_scan h i j) \<longleftrightarrow>
      \<not> stops_scan h i i \<and> \<not> stops_scan h i (i + 1) \<and> (\<forall>j. i + 1 \<le> j \<and> j < 8 \<longrightarrow> \<not> stops_scan h (i + 1) j)"
    using Suc.prems Suc.hyps(2) by (auto simp: stops_scan_def) (metis Suc_leI le_neq_implies_less)+
  have "snd (header_scan h 0 (i + 1)) = 1 \<longleftrightarrow> (\<forall>j. i + 1 \<le> j \<and> j < 8 \<longrightarrow> \<not> stops_scan h (i + 1) j)"
    by (rule Suc.hyps(1)) (use Suc.hyps(2) in simp_all)
  then show ?case
    unfolding split using Suc.prems Suc.hyps(2)
    by (subst header_scan.simps) (auto simp: stops_scan_def)
qed

text \<open>Once all eight headers have been passed, \<open>result\<close> is 1 and nothing resets it: from a first
  header with the image flag the loop never ends.\<close>

lemma header_rounds_stuck:
  assumes "type_flags (block_header h 0) AND MODEM_IMG_HDR \<noteq> 0"
  shows "header_rounds h 1 0 = None"
proof -
  have scan: "header_scan h 1 0 = (0, 1)" using assms by (subst header_scan.simps) simp
  have "\<not> (h' = h \<and> r = 1 \<and> s = 0)" if "header_rounds h' r s = Some y" for h' r s y
    using scan
    by (rule_tac header_rounds.raw_induct [OF _ that, where P = "\<lambda>h' r s y. \<not> (h' = h \<and> r = 1 \<and> s = 0)"])
      (fastforce simp: Let_def split: if_splits prod.splits)
  then have "header_rounds h 1 0 \<noteq> Some y" for y by blast
  then show ?thesis by (cases "header_rounds h 1 0") simp_all
qed

lemma header_rounds_start:
  assumes "type_flags (block_header h 0) AND MODEM_IMG_HDR \<noteq> 0"
  shows "header_rounds h 0 1 = None \<longleftrightarrow> snd (header_scan h 0 1) = 1"
proof (cases "header_scan h 0 1")
  case (Pair i r)
  then show ?thesis
    using header_rounds_stuck [OF assms] by (subst header_rounds.simps) simp
qed

lemma packed_first_header:
  assumes "is_packed_modem_image data off = Some True" "mem_read data off 96 = Some h"
  shows "type_flags (block_header h 0) AND MODEM_IMG_HDR \<noteq> 0"
proof -
  have "take 5 (drop off data) = MODEM_MAGIC" "h = take 96 (drop off data)"
    using assms by (auto simp: is_packed_modem_image_def mem_read_Some_iff)
  then have m: "take 5 h = MODEM_MAGIC" by (simp add: min_def)
  have "h ! i = MODEM_MAGIC ! i" if "i < 4" for i
    using that arg_cong [OF m, of "\<lambda>x. x ! i"] by simp
  then have "h ! 0 = 0x53" "h ! 1 = 0x43" "h ! 2 = 0x49" "h ! 3 = 0x31"
    by (simp_all add: MODEM_MAGIC_def)
  then have "type_flags (block_header h 0) = 0x31494353"
    by (simp add: block_header_def word_of_bytes_def flip: numeral_2_eq_2 numeral_3_eq_3)
  then show ?thesis by (simp add: MODEM_IMG_HDR_def)
qed

section \<open>Concrete images\<close>

text \<open>The toy image with a certificate behind it.\<close>

definition toy_out :: "u8 list \<Rightarrow> nat \<Rightarrow> u8 list" where
  "toy_out cert csize =
     (let img = sys_img_header_bytes toy_header @ replicate 16 0
      in img @ sign_header_bytes (make_sign_header (length img) 16 csize) @ cert)"

lemma toy_layout:
  "signed_layout toy_header (replicate 16 0) cert csize (sys_img_header_bytes toy_header @ replicate 16 0) (toy_out cert csize)"
  using toy_image by (simp add: signed_layout_def plain_image_def toy_out_def Let_def)

lemma toy_accepted:
  assumes "junk_ok junk"
    and "\<And>pre. length pre = 624 \<Longrightarrow> sprd_verify_cert junk precert (sha256_spec (replicate 16 0)) (pre @ cert @ []) 624 = Some True"
    and "cert = x # cs"
  shows "sprd_verify_img junk precert (toy_out cert csize) = Some True"
    and "sechdr (toy_out cert csize) = Some (make_sign_header 528 16 csize)"
    and "mem_read (toy_out cert csize) (unat (cert_offset (make_sign_header 528 16 csize))) 1 = Some [x]"
proof -
  have l: "length (sys_img_header_bytes toy_header) = 512"
    using toy_image by (simp add: plain_image_def struct_lengths struct_sizes)
  obtain pre where pre: "toy_out cert csize = pre @ cert @ []" "length pre = 624"
    by (rule layout_cert [OF toy_layout [of cert csize]]) (simp add: l)
  show "sprd_verify_img junk precert (toy_out cert csize) = Some True"
    using layout_verify [OF toy_layout assms(1), of precert cert csize] assms(2) [OF pre(2)]
    unfolding pre(1) by (simp add: l)
  show "sechdr (toy_out cert csize) = Some (make_sign_header 528 16 csize)"
    using layout_header(1) [OF toy_layout] by (simp add: l)
  show "mem_read (toy_out cert csize) (unat (cert_offset (make_sign_header 528 16 csize))) 1 = Some [x]"
    using pre assms(3) by (simp add: make_sign_header_def struct_sizes mem_read_def)
qed

definition toy_content :: sprd_contentcert where
  "toy_content = signed_contentcert toy_pem (signed_block 256) 1 (sha256_spec (replicate 16 0))"

definition toy_key :: sprd_keycert where
  "toy_key = signed_keycert toy_pem toy_pem (signed_block 256) 1 (sha256_spec (replicate 16 0))"

lemma toy_junk: "junk_ok (\<lambda>n. replicate n 9)"
  by (simp add: junk_ok_def)

lemma toy_content_wf: "contentcert_wf toy_content"
  by (rule content_cert_made(2) [where files = "\<lparr>pub_file = \<lambda>_. Some (Some toy_pem), priv_file = \<lambda>_. Some (Some (signed_block 256))\<rparr>"])
    (simp_all add: toy_content_def toy_key_pair)

lemma toy_key_wf: "keycert_wf toy_key"
  by (rule key_cert_made(2) [where files = "\<lparr>pub_file = \<lambda>_. Some (Some toy_pem), priv_file = \<lambda>_. Some (Some (signed_block 256))\<rparr>"
        and junk = "\<lambda>n. replicate n 9" and n = 72 and next_priv = "signed_block 256"])
    (simp_all add: toy_key_def toy_key_pair toy_junk)

lemma toy_content_image:
  "sprd_verify_img (\<lambda>n. replicate n 9) (Some (sha256_spec (pubkey_bytes (pem_pubkey toy_pem))))
     (toy_out (contentcert_bytes toy_content) 532) = Some True"
  "sechdr (toy_out (contentcert_bytes toy_content) 532) = Some (make_sign_header 528 16 532)"
  "mem_read (toy_out (contentcert_bytes toy_content) 532) (unat (cert_offset (make_sign_header 528 16 532))) 1 = Some [0]"
  by (rule toy_accepted [OF toy_junk content_cert_accepted [OF toy_key_pair toy_junk _ _ toy_content_wf toy_content_def]];
    simp add: contentcert_bytes_def toy_content_def signed_contentcert_def CERTTYPE_CONTENT_def bytes_of_word_def)+

lemma toy_key_image:
  "sprd_verify_img (\<lambda>n. replicate n 9) None (toy_out (keycert_bytes toy_key) 564) = Some True"
  "sechdr (toy_out (keycert_bytes toy_key) 564) = Some (make_sign_header 528 16 564)"
  "mem_read (toy_out (keycert_bytes toy_key) 564) (unat (cert_offset (make_sign_header 528 16 564))) 1 = Some [1]"
  by (rule toy_accepted [OF toy_junk key_cert_accepted(1) [OF toy_key_pair toy_junk _ _ toy_key_wf toy_key_def]];
    simp add: keycert_bytes_def toy_key_def signed_keycert_def Let_def CERTTYPE_KEY_def bytes_of_word_def)+

text \<open>A packed modem image with one image header, and one without.\<close>

definition toy_modem :: "u8 list" where
  "toy_modem = [0x53, 0x43, 0x49, 0x31, 0, 0, 0, 0, 0, 0, 0, 0, 1, 4, 0, 0, 0, 2, 0, 0, 100, 0, 0, 0] @ replicate 72 0"

section \<open>Properties\<close>

text \<open>
  C11: an image that \<open>sprd_verify_img\<close> accepts with a key certificate has the payload hash the certificate names, and the signature's
  public-key decryption starts with the 72 signed bytes of the certificate (payload hash, next key's hash,
  type, version).  The hash of the preceding key plays no part.
\<close>

theorem accepted_key_image:
  assumes "sprd_verify_img junk precert buf = Some True" "junk_ok junk" "sechdr buf = Some hdr"
    and "mem_read buf (unat (cert_offset hdr)) 1 = Some [1]"
  shows "\<exists>c payload ret to. keycert_at buf (unat (cert_offset hdr)) = Some c \<and>
    mem_read buf (unat (payload_offset hdr)) (unat (ucast (payload_size hdr) :: u32)) = Some payload \<and>
    sha256_spec payload = take 32 (kc_hash_data c) \<and>
    pub_dec junk (kc_pubkey c) (kc_signature c) (unat (keybit_len (kc_pubkey c)) div 8) = Some (ret, to) \<and>
    take 72 (drop (unat (cert_offset hdr) + 268) buf) = take 72 to"
proof -
  obtain payload where p: "mem_read buf (unat (payload_offset hdr)) (unat (ucast (payload_size hdr) :: u32)) = Some payload"
    "sprd_verify_cert junk precert (sha256_spec payload) buf (unat (cert_offset hdr)) = Some True"
    using verify_img_True [OF assms(1,2)] assms(3) by auto
  from keycert_accepted [OF p(2) assms(4)] p(1) show ?thesis by auto
qed

theorem accepted_key_image_witness:
  "\<exists>c payload ret to. keycert_at (toy_out (keycert_bytes toy_key) 564) (unat (cert_offset (make_sign_header 528 16 564))) = Some c \<and>
    mem_read (toy_out (keycert_bytes toy_key) 564) (unat (payload_offset (make_sign_header 528 16 564)))
      (unat (ucast (payload_size (make_sign_header 528 16 564)) :: u32)) = Some payload \<and>
    sha256_spec payload = take 32 (kc_hash_data c) \<and>
    pub_dec (\<lambda>n. replicate n 9) (kc_pubkey c) (kc_signature c) (unat (keybit_len (kc_pubkey c)) div 8) = Some (ret, to) \<and>
    take 72 (drop (unat (cert_offset (make_sign_header 528 16 564)) + 268) (toy_out (keycert_bytes toy_key) 564)) = take 72 to"
  by (rule accepted_key_image [OF toy_key_image(1) toy_junk toy_key_image(2,3)])

text \<open>
  C10: an image accepted with a content certificate carries the very key whose hash the preceding certificate announced,
  and its payload has the hash the certificate names; the compared part of the decrypted signature is as long as
  the return value of \<open>RSA_PubDec\<close> says.
\<close>

theorem accepted_content_image:
  assumes "sprd_verify_img junk precert buf = Some True" "junk_ok junk" "sechdr buf = Some hdr"
    and "mem_read buf (unat (cert_offset hdr)) 1 = Some [0]"
  shows "\<exists>c payload ret to pre kb. contentcert_at buf (unat (cert_offset hdr)) = Some c \<and>
    mem_read buf (unat (payload_offset hdr)) (unat (ucast (payload_size hdr) :: u32)) = Some payload \<and>
    sha256_spec payload = take 32 (cc_hash_data c) \<and>
    precert = Some pre \<and> mem_read buf (unat (cert_offset hdr) + 4) SPRD_RSAPUBKLEN = Some kb \<and> sha256_spec kb = take 32 pre \<and>
    pub_dec junk (cc_pubkey c) (cc_signature c) (unat (keybit_len (cc_pubkey c)) div 8) = Some (ret, to) \<and>
    take (unat (of_int ret :: u32)) (drop (unat (cert_offset hdr) + 268) buf) = take (unat (of_int ret :: u32)) to"
proof -
  obtain payload where p: "mem_read buf (unat (payload_offset hdr)) (unat (ucast (payload_size hdr) :: u32)) = Some payload"
    "sprd_verify_cert junk precert (sha256_spec payload) buf (unat (cert_offset hdr)) = Some True"
    using verify_img_True [OF assms(1,2)] assms(3) by auto
  from contentcert_accepted [OF p(2) assms(4,2)] p(1) show ?thesis by auto
qed

theorem accepted_content_image_witness:
  "\<exists>c payload ret to pre kb. contentcert_at (toy_out (contentcert_bytes toy_content) 532) (unat (cert_offset (make_sign_header 528 16 532))) = Some c \<and>
    mem_read (toy_out (contentcert_bytes toy_content) 532) (unat (payload_offset (make_sign_header 528 16 532)))
      (unat (ucast (payload_size (make_sign_header 528 16 532)) :: u32)) = Some payload \<and>
    sha256_spec payload = take 32 (cc_hash_data c) \<and>
    Some (sha256_spec (pubkey_bytes (pem_pubkey toy_pem))) = Some pre \<and>
    mem_read (toy_out (contentcert_bytes toy_content) 532) (unat (cert_offset (make_sign_header 528 16 532)) + 4) SPRD_RSAPUBKLEN = Some kb \<and>
    sha256_spec kb = take 32 pre \<and>
    pub_dec (\<lambda>n. replicate n 9) (cc_pubkey c) (cc_signature c) (unat (keybit_len (cc_pubkey c)) div 8) = Some (ret, to) \<and>
    take (unat (of_int ret :: u32)) (drop (unat (cert_offset (make_sign_header 528 16 532)) + 268) (toy_out (contentcert_bytes toy_content) 532)) =
      take (unat (of_int ret :: u32)) to"
  by (rule accepted_content_image [OF toy_content_image(1) toy_junk toy_content_image(2,3)])

text \<open>
  C15: on a packed modem image, whose first header always carries the image flag, \<open>get_modem_info\<close> returns exactly if one of
  the headers 1 to 7 is an image header or one of the headers 2 to 7 is marked as the last; otherwise the
  outer loop rescans the buffer forever.
\<close>

theorem get_modem_info_returns:
  assumes "is_packed_modem_image data off = Some True" "mem_read data off (MODEM_HDR_SIZE * 8) = Some h"
  shows "get_modem_info data off \<noteq> None \<longleftrightarrow>
    (\<exists>i. 1 \<le> i \<and> i < 8 \<and> (type_flags (block_header h i) AND MODEM_IMG_HDR \<noteq> 0 \<or>
       1 < i \<and> type_flags (block_header h i) AND MODEM_LAST_HDR \<noteq> 0))"
proof -
  have h: "mem_read data off 96 = Some h" using assms(2) by (simp add: MODEM_HDR_SIZE_def)
  have "get_modem_info data off = None \<longleftrightarrow> header_rounds h 0 1 = None"
    by (cases "header_rounds h 0 1") (auto simp: get_modem_info_def assms(2) Let_def)
  also have "\<dots> \<longleftrightarrow> (\<forall>j. 1 \<le> j \<and> j < 8 \<longrightarrow> \<not> stops_scan h 1 j)"
    unfolding header_rounds_start [OF packed_first_header [OF assms(1) h]] by (rule header_scan_1) simp
  finally show ?thesis by (auto simp: stops_scan_def)
qed

theorem get_modem_info_returns_witness:
  "get_modem_info toy_modem 0 \<noteq> None \<longleftrightarrow>
    (\<exists>i. 1 \<le> i \<and> i < 8 \<and> (type_flags (block_header toy_modem i) AND MODEM_IMG_HDR \<noteq> 0 \<or>
       1 < i \<and> type_flags (block_header toy_modem i) AND MODEM_LAST_HDR \<noteq> 0))"
  by (rule get_modem_info_returns)
    (simp_all add: is_packed_modem_image_def mem_read_def toy_modem_def MODEM_MAGIC_def MODEM_HDR_SIZE_def)

text \<open>
  The image \<open>imgheaderinsert\<close> writes starts with a header that has the magic number, the payload's
  padded size and its hash; the padded payload follows, and the place where the signing header will
  be looked for is the end of the file.
\<close>

theorem imgheaderinsert_output:
  assumes "imgheaderinsert sha256 opens wr b filename (Some data) = Some (0, files)"
    and "\<And>x. length (sha256 x) = 32" "length data + 15 < 2 ^ 32"
  shows "\<exists>name image hdr. sign_name filename = Some name \<and> files = [(filename, Some (pad16 data)), (name, Some image)] \<and>
    sys_img_header_at image 0 = Some hdr \<and> mMagicNum hdr = 0x42544844 \<and> drop 512 image = pad16 data \<and>
    mPayloadHash hdr = (if b then sha256 (pad16 data) else replicate 32 0) \<and>
    unat (mImgSize hdr) mod 16 = 0 \<and> sprd_get_sechdr_addr image = Some (length image)"
proof -
  define hdr where "hdr = image_header sha256 b (pad16 data)"
  have wf: "sys_img_header_wf hdr" using assms(2) by (simp add: hdr_def image_header_wf)
  have "length (pad16 data) = (length data + 15) div 16 * 16"
    using length_pad16 [of data] by (simp add: pad16_def)
  then have "length (pad16 data) < 2 ^ 32" using assms(3) by simp
  then have n: "unat (mImgSize hdr) = length (pad16 data)"
    by (simp add: hdr_def image_header_def unsigned_of_nat take_bit_nat_eq_self_iff)
  have at: "sys_img_header_at (sys_img_header_bytes hdr @ pad16 data) 0 = Some hdr"
    using sys_img_header_at_bytes [OF wf, of "[]" 0] by simp
  have "mMagicNum hdr = 0x42544844" "mPayloadHash hdr = (if b then sha256 (pad16 data) else replicate 32 0)"
    by (simp_all add: hdr_def image_header_def)
  moreover have "length (sys_img_header_bytes hdr) = 512" using wf by (simp add: struct_lengths struct_sizes)
  moreover from this have "sprd_get_sechdr_addr (sys_img_header_bytes hdr @ pad16 data) = Some (length (sys_img_header_bytes hdr @ pad16 data))"
    by (simp add: sprd_get_sechdr_addr_def at n struct_sizes)
  ultimately show ?thesis
    using assms(1) at n length_pad16(2) [of data]
    by (auto simp: imgheaderinsert_def Let_def hdr_def split: if_splits option.splits)
qed

theorem imgheaderinsert_output_witness:
  "\<exists>files. imgheaderinsert sha256_spec (\<lambda>_. True) (\<lambda>_. True) True ''boot.bin'' (Some [1, 2, 3]) = Some (0, files) \<and>
    (\<exists>name image hdr. sign_name ''boot.bin'' = Some name \<and> files = [(''boot.bin'', Some (pad16 [1, 2, 3])), (name, Some image)] \<and>
      sys_img_header_at image 0 = Some hdr \<and> mMagicNum hdr = 0x42544844 \<and> drop 512 image = pad16 [1, 2, 3] \<and>
      mPayloadHash hdr = (if True then sha256_spec (pad16 [1, 2, 3]) else replicate 32 0) \<and>
      unat (mImgSize hdr) mod 16 = 0 \<and> sprd_get_sechdr_addr image = Some (length image))"
proof -
  obtain files where run:
    "imgheaderinsert sha256_spec (\<lambda>_. True) (\<lambda>_. True) True ''boot.bin'' (Some [1, 2, 3]) = Some (0, files)"
    by (auto simp: imgheaderinsert_def FILE_NAME_SIZE_def SUFFIX_SIZE_def sign_name_def Let_def)
  show ?thesis
    by (rule exI [of _ files], rule conjI [OF run], rule imgheaderinsert_output [OF run]) simp_all
qed

end
