(* ===== verification/RsaKeygen.thy ===== *)
theory RsaKeygen
  imports Rsa
begin

text \<open>
  The rest of \<^verbatim>\<open>signimage/source/common/rsa/src/rsa.c\<close>: printing a number (\<open>Put\<close>), the
  pseudo random numbers, the primality test \<open>Rab\<close>, \<open>GetPrime\<close>, the extended Euclidean algorithm
  \<open>Euc\<close> and \<open>RSA_Create\<close>.  The two static variables of the generator are the record
  \<open>rand_state\<close>, passed through every function that draws a number.  Loops that may not end
  are partial functions: not returning is \<open>None\<close>, as is every read or write outside an array.

  \<open>int\<close> products of the generator wrap at 32 bits, as the compilers used for the tool
  compute them; the left operand of \<open>+\<close> in \<open>Rand\<close> is drawn first.
\<close>

section \<open>Printing\<close>

definition hex_digits :: "u8 list" where
  "hex_digits = [0x30, 0x31, 0x32, 0x33, 0x34, 0x35, 0x36, 0x37, 0x38, 0x39,
     0x41, 0x42, 0x43, 0x44, 0x45, 0x46]"

partial_function (option) Put_loop ::
  "u32 \<Rightarrow> nat \<Rightarrow> u8 list \<Rightarrow> SBigInt \<Rightarrow> SBigInt \<Rightarrow> (nat \<times> u8 list) option" where
  "Put_loop system index str sTemp sTemp2 =
     (if m_iLength32 sTemp = 0 then None
      else if m_ulValue sTemp ! (m_iLength32 sTemp - 1) = 0 then Some (index, str)
      else Option.bind (Mod_long sTemp (ucast system)) (\<lambda>a.
           if 16 \<le> unat a \<or> index = 0 then None
           else Option.bind (Div_long sTemp2 sTemp (ucast system)) (\<lambda>sTemp2.
                Put_loop system (index - 1) (str[index - 1 := hex_digits ! unat a]) (Mov_bigint sTemp2) sTemp2)))"

text \<open>The final loop moves the digits and the terminator to the start of the buffer.\<close>

function put_shift :: "nat \<Rightarrow> nat \<Rightarrow> nat \<Rightarrow> u8 list \<Rightarrow> u8 list" where
  "put_shift i index n str =
     (if index < n then put_shift (i + 1) (index + 1) n (str[i := str ! index]) else str)"
  by pat_completeness auto
termination
  by (relation "measure (\<lambda>(i, index, n, str). n - index)") auto

declare put_shift.simps [simp del]

text \<open>\<open>junk\<close> is the uninitialised local \<open>sTemp2\<close>.\<close>

definition Put :: "u8 list \<Rightarrow> nat \<Rightarrow> SBigInt \<Rightarrow> u32 \<Rightarrow> SBigInt \<Rightarrow> u8 list option" where
  "Put str str_buflen sOut system junk =
     (if m_iLength32 sOut = 1 \<and> m_ulValue sOut ! 0 = 0
      then (if length str < 2 then None else Some (str[0 := 0x30, 1 := 0]))
      else if str_buflen = 0 \<or> length str < str_buflen then None
      else map_option (\<lambda>(index, str). if index > 0 then put_shift 0 index str_buflen str else str)
             (Put_loop system (str_buflen - 1) (str[str_buflen - 1 := 0]) (Mov_bigint sOut) junk))"

section \<open>Pseudo random numbers\<close>

record rand_state =
  g_seed :: u32
  read_reg :: u32

definition rand_init :: rand_state where
  "rand_init = \<lparr>g_seed = 0, read_reg = 1\<rparr>"

definition myrand :: "rand_state \<Rightarrow> u32 \<times> rand_state" where
  "myrand st =
     (let st = (if read_reg st \<noteq> 0
                then (let st = st\<lparr>g_seed := 504723\<rparr>
                      in if 0 <s g_seed st then st\<lparr>read_reg := 0\<rparr> else st)
                else st);
          v = (g_seed st * 1103515245 + 12345) AND 0x7fffffff
      in (v, st\<lparr>g_seed := v\<rparr>))"

definition Rand :: "rand_state \<Rightarrow> u64 \<times> rand_state" where
  "Rand st =
     (let (a, st) = myrand st;
          (b, st) = myrand st;
          ulNum = a * 0x10000 + b :: u32
      in (scast ulNum, st))"

section \<open>The primality test\<close>

definition PrimeTable :: "u64 list" where
  "PrimeTable =
    [3, 5, 7, 11, 13, 17, 19, 23, 29, 31, 37, 41, 43, 47, 53, 59, 61, 67, 71, 73, 79, 83, 89, 97,
     101, 103, 107, 109, 113, 127, 131, 137, 139, 149, 151, 157, 163, 167, 173, 179, 181, 191, 193,
     197, 199, 211, 223, 227, 229, 233, 239, 241, 251, 257, 263, 269, 271, 277, 281, 283, 293, 307,
     311, 313, 317, 331, 337, 347, 349, 353, 359, 367, 373, 379, 383, 389, 397, 401, 409, 419, 421,
     431, 433, 439, 443, 449, 457, 461, 463, 467, 479, 487, 491, 499, 503, 509, 521, 523, 541, 547,
     557, 563, 569, 571, 577, 587, 593, 599, 601, 607, 613, 617, 619, 631, 641, 643, 647, 653, 659,
     661, 673, 677, 683, 691, 701, 709, 719, 727, 733, 739, 743, 751, 757, 761, 769, 773, 787, 797,
     809, 811, 821, 823, 827, 829, 839, 853, 857, 859, 863, 877, 881, 883, 887, 907, 911, 919, 929,
     937, 941, 947, 953, 967, 971, 977, 983, 991, 997, 1009, 1013, 1019, 1021, 1031, 1033, 1039,
     1049, 1051, 1061, 1063, 1069, 1087, 1091, 1093, 1097, 1103, 1109, 1117, 1123, 1129, 1151,
     1153, 1163, 1171, 1181, 1187, 1193, 1201, 1213, 1217, 1223, 1229, 1231, 1237, 1249, 1259,
     1277, 1279, 1283, 1289, 1291, 1297, 1301, 1303, 1307, 1319, 1321, 1327, 1361, 1367, 1373,
     1381, 1399, 1409, 1423, 1427, 1429, 1433, 1439, 1447, 1451, 1453, 1459, 1471, 1481, 1483,
     1487, 1489, 1493, 1499, 1511, 1523, 1531, 1543, 1549, 1553, 1559, 1567, 1571, 1579, 1583,
     1597, 1601, 1607, 1609, 1613, 1619, 1621, 1627, 1637, 1657, 1663, 1667, 1669, 1693, 1697,
     1699, 1709, 1721, 1723, 1733, 1741, 1747, 1753, 1759, 1777, 1783, 1787, 1789, 1801, 1811,
     1823, 1831, 1847, 1861, 1867, 1871, 1873, 1877, 1879, 1889, 1901, 1907, 1913, 1931, 1933,
     1949, 1951, 1973, 1979, 1987, 1993, 1997, 1999, 2003, 2011, 2017, 2027, 2029, 2039, 2053,
     2063, 2069, 2081, 2083, 2087, 2089, 2099, 2111, 2113, 2129, 2131, 2137, 2141, 2143, 2153,
     2161, 2179, 2203, 2207, 2213, 2221, 2237, 2239, 2243, 2251, 2267, 2269, 2273, 2281, 2287,
     2293, 2297, 2309, 2311, 2333, 2339, 2341, 2347, 2351, 2357, 2371, 2377, 2381, 2383, 2389,
     2393, 2399, 2411, 2417, 2423, 2437, 2441, 2447, 2459, 2467, 2473, 2477, 2503, 2521, 2531,
     2539, 2543, 2549, 2551, 2557, 2579, 2591, 2593, 2609, 2617, 2621, 2633, 2647, 2657, 2659,
     2663, 2671, 2677, 2683, 2687, 2689, 2693, 2699, 2707, 2711, 2713, 2719, 2729, 2731, 2741,
     2749, 2753, 2767, 2777, 2789, 2791, 2797, 2801, 2803, 2819, 2833, 2837, 2843, 2851, 2857,
     2861, 2879, 2887, 2897, 2903, 2909, 2917, 2927, 2939, 2953, 2957, 2963, 2969, 2971, 2999,
     3001, 3011, 3019, 3023, 3037, 3041, 3049, 3061, 3067, 3079, 3083, 3089, 3109, 3119, 3121,
     3137, 3163, 3167, 3169, 3181, 3187, 3191, 3203, 3209, 3217, 3221, 3229, 3251, 3253, 3257,
     3259, 3271, 3299, 3301, 3307, 3313, 3319, 3323, 3329, 3331, 3343, 3347, 3359, 3361, 3371,
     3373, 3389, 3391, 3407, 3413, 3433, 3449, 3457, 3461, 3463, 3467, 3469, 3491, 3499, 3511,
     3517, 3527, 3529, 3533, 3539, 3541, 3547, 3557, 3559, 3571, 3581, 3583, 3593, 3607, 3613,
     3617, 3623, 3631, 3637, 3643, 3659, 3671, 3673, 3677, 3691, 3697, 3701, 3709, 3719, 3727,
     3733, 3739, 3761, 3767, 3769, 3779, 3793, 3797, 3803, 3821, 3823, 3833, 3847, 3851, 3853,
     3863, 3877, 3881, 3889, 3907, 3911, 3917, 3919, 3923, 3929, 3931, 3943, 3947, 3967, 3989, 4001]"

fun rab_trial :: "SBigInt \<Rightarrow> u64 list \<Rightarrow> bool option" where
  "rab_trial sIn [] = Some True"
| "rab_trial sIn (p # ps) =
     Option.bind (Mod_long sIn p) (\<lambda>r. if r = 0 then Some False else rab_trial sIn ps)"

text \<open>Halving in place, word \<open>j\<close> taking the low bit of word \<open>j + 1\<close>.  The last step reads
  word \<open>m_iLength32\<close>.\<close>

fun halve_loop :: "nat \<Rightarrow> nat \<Rightarrow> u32 list \<Rightarrow> u32 list" where
  "halve_loop j 0 xs = xs"
| "halve_loop j (Suc n) xs =
     (let xs = xs[j := drop_bit 1 (xs ! j)];
          xs = (if xs ! (j + 1) AND 1 \<noteq> 0 then xs[j := xs ! j OR 0x80000000] else xs)
      in halve_loop (j + 1) n xs)"

definition halve :: "SBigInt \<Rightarrow> SBigInt option" where
  "halve x =
     (if m_iLength32 x = 0 \<or> BIGINT_MAXLEN \<le> m_iLength32 x then None
      else let xs = halve_loop 0 (m_iLength32 x) (m_ulValue x)
           in Some \<lparr>m_iLength32 = (if xs ! (m_iLength32 x - 1) = 0 then m_iLength32 x - 1 else m_iLength32 x),
                    m_ulValue = xs\<rparr>)"

partial_function (option) rab_halvings ::
  "SBigInt \<Rightarrow> SBigInt \<Rightarrow> SBigInt \<Rightarrow> SBigInt \<Rightarrow> SBigInt \<Rightarrow> (bool \<times> SBigInt) option" where
  "rab_halvings sIn sN_1 sTempA sTempDiv sTemp1 =
     (if m_ulValue sTempDiv ! 0 AND 1 \<noteq> 0 then Some (False, sTemp1)
      else Option.bind (halve sTempDiv) (\<lambda>sTempDiv.
           Option.bind (RsaTrans sTempA sTempDiv sIn) (\<lambda>sTemp1.
           if Cmp sTemp1 sN_1 = 0 then Some (True, sTemp1)
           else rab_halvings sIn sN_1 sTempA sTempDiv sTemp1)))"

definition rab_base :: "rand_state \<Rightarrow> u64 \<times> rand_state" where
  "rab_base st = (let (a, st) = myrand st; (b, st) = myrand st in (scast (a * b), st))"

fun rab_rounds :: "nat \<Rightarrow> SBigInt \<Rightarrow> SBigInt \<Rightarrow> SBigInt \<Rightarrow> rand_state \<Rightarrow> (bool \<times> rand_state) option" where
  "rab_rounds 0 sIn sN_1 sTemp1 st = Some (True, st)"
| "rab_rounds (Suc i) sIn sN_1 sTemp1 st =
     (let (a, st) = rab_base st
      in Option.bind (rab_halvings sIn sN_1 (Mov_long a) (Mov_bigint sN_1) sTemp1) (\<lambda>(iPassMark, sTemp1).
         if iPassMark \<or> m_iLength32 sTemp1 = 1 \<and> m_ulValue sTemp1 ! 0 = 1
         then rab_rounds i sIn sN_1 sTemp1 st
         else Some (False, st)))"

text \<open>\<open>sTemp1\<close> has length 0 at first, and its words are not read then; \<open>junk\<close> is the uninitialised
  \<open>sN_1\<close>.\<close>

definition Rab :: "SBigInt \<Rightarrow> SBigInt \<Rightarrow> rand_state \<Rightarrow> (bool \<times> rand_state) option" where
  "Rab junk sIn st =
     Option.bind (rab_trial sIn PrimeTable) (\<lambda>r.
     if \<not> r then Some (False, st)
     else Option.bind (Sub_long junk sIn 1) (\<lambda>sN_1.
          rab_rounds 8 sIn sN_1 \<lparr>m_iLength32 = 0, m_ulValue = zero_words\<rparr> st))"

section \<open>Prime numbers of a given length\<close>

fun rand_words :: "nat \<Rightarrow> rand_state \<Rightarrow> u32 list \<times> rand_state" where
  "rand_words 0 st = ([], st)"
| "rand_words (Suc n) st =
     (let (r, st) = Rand st; (ws, st) = rand_words n st in (ucast r # ws, st))"

definition candidate :: "nat \<Rightarrow> u32 list \<Rightarrow> SBigInt" where
  "candidate n ws =
     (let ws = ws[0 := ws ! 0 OR 0x11];
          ws = ws[n - 1 := ws ! (n - 1) OR 0x80000000]
      in \<lparr>m_iLength32 = n, m_ulValue = ws @ replicate (BIGINT_MAXLEN - n) 0\<rparr>)"

partial_function (option) prime_loop :: "SBigInt \<Rightarrow> nat \<Rightarrow> rand_state \<Rightarrow> (SBigInt \<times> rand_state) option" where
  "prime_loop junk n st =
     (let (ws, st) = rand_words n st
      in Option.bind (Rab junk (candidate n ws) st) (\<lambda>(r, st).
         if r then Some (candidate n ws, st) else prime_loop junk n st))"

definition GetPrime :: "SBigInt \<Rightarrow> nat \<Rightarrow> rand_state \<Rightarrow> (SBigInt \<times> rand_state) option" where
  "GetPrime junk iLength32 st =
     (if iLength32 = 0 \<or> BIGINT_MAXLEN < iLength32 then None else prime_loop junk iLength32 st)"

section \<open>The extended Euclidean algorithm\<close>

text \<open>\<open>x\<close> and \<open>y\<close> are the signs of \<open>sTemp3\<close> and \<open>sTemp4\<close>, 1 for positive.  The branch on them
  computes the next coefficient from the old \<open>sTemp3\<close> and the product in \<open>sTemp4\<close>.\<close>

definition euc_combine :: "SBigInt \<Rightarrow> SBigInt \<Rightarrow> int \<Rightarrow> int \<Rightarrow> (SBigInt \<times> int \<times> int) option" where
  "euc_combine sTemp3 sTemp4 x y =
     (if x = y
      then if Cmp sTemp3 sTemp4 \<ge> 0
           then map_option (\<lambda>sOut. (Mov_bigint sOut, x, y)) (Sub_bigint sTemp3 sTemp4)
           else map_option (\<lambda>sTemp4. (sTemp4, x, 0)) (Sub_bigint sTemp4 sTemp3)
      else map_option (\<lambda>sTemp4. (sTemp4, 1 - x, 1 - y)) (Add_bigint sTemp4 sTemp3))"

partial_function (option) Euc_loop ::
  "SBigInt \<Rightarrow> SBigInt \<Rightarrow> SBigInt \<Rightarrow> SBigInt \<Rightarrow> SBigInt \<Rightarrow> int \<Rightarrow> int \<Rightarrow> (SBigInt \<times> int) option" where
  "Euc_loop sTemp1 sTemp2 sTemp3 sTemp4 sTemp5 x y =
     (if m_iLength32 sTemp2 \<noteq> 1 \<or> m_ulValue sTemp2 ! 0 \<noteq> 0
      then Option.bind (Div_bigint sTemp5 sTemp1 sTemp2) (\<lambda>sTemp5.
           Option.bind (Mod_bigint sTemp1 sTemp2) (\<lambda>sTemp6.
           Option.bind (Mul_bigint sTemp4 sTemp5) (\<lambda>sOut.
           Option.bind (euc_combine sTemp3 (Mov_bigint sOut) x y) (\<lambda>(sTemp4', x, y).
           Euc_loop (Mov_bigint sTemp2) (Mov_bigint sTemp6) (Mov_bigint sTemp4) sTemp4' sTemp5 x y))))
      else Some (sTemp3, x))"

text \<open>\<open>junk\<close> is the uninitialised local \<open>sTemp5\<close>.\<close>

definition Euc :: "SBigInt \<Rightarrow> SBigInt \<Rightarrow> SBigInt \<Rightarrow> SBigInt option" where
  "Euc sIn sN junk =
     Option.bind (Euc_loop (Mov_bigint sN) (Mov_bigint sIn) (Mov_long 0) (Mov_long 1) junk 1 1) (\<lambda>(sTemp3, x).
     if x = 0 then Sub_bigint sN sTemp3 else Some (Mov_bigint sTemp3))"

section \<open>Key generation\<close>

text \<open>The middle of \<open>RSA_Create\<close>: the modulus and the private exponent from the two primes.\<close>

definition create_key :: "SBigInt \<Rightarrow> SBigInt \<Rightarrow> SBigInt \<Rightarrow> SBigInt \<Rightarrow> (SBigInt \<times> SBigInt) option" where
  "create_key D P Q junk =
     Option.bind (Mul_bigint P Q) (\<lambda>N.
     Option.bind (Sub_long P P 1) (\<lambda>P.
     Option.bind (Sub_long Q Q 1) (\<lambda>Q.
     Option.bind (Mul_bigint P Q) (\<lambda>C.
     Option.bind (Euc D C junk) (\<lambda>E. Some (N, E))))))"

text \<open>From the label \<open>start\<close> on, \<open>junk\<close> standing for the uninitialised locals of the callees; \<open>goto start\<close> is the recursive call.  The globals are reset at the
  start and nothing reads them after the return, so they are local here.\<close>

partial_function (option) create_loop ::
  "SBigInt \<Rightarrow> nat \<Rightarrow> u8 list \<Rightarrow> rand_state \<Rightarrow> (SBigInt \<times> SBigInt \<times> rand_state) option" where
  "create_loop junk iLength32 pubExp st =
     Option.bind (SetParameter_char_openssl pubExp 4) (\<lambda>(D, pubExp).
     Option.bind (GetPrime junk iLength32 st) (\<lambda>(P, st).
     Option.bind (GetPrime junk iLength32 st) (\<lambda>(Q, st).
     Option.bind (create_key D P Q junk) (\<lambda>(N, E).
     if m_iLength32 E < 2 * iLength32 then create_loop junk iLength32 pubExp st
     else Some (N, E, st)))))"

definition copy_words :: "u8 list \<Rightarrow> SBigInt \<Rightarrow> nat \<Rightarrow> nat \<Rightarrow> u8 list option" where
  "copy_words dst x len n =
     map_option (\<lambda>dst. invert_char dst n) (mem_write dst 0 (bytes_of_words (take len (m_ulValue x))))"

definition RSA_Create ::
  "SBigInt \<Rightarrow> rand_state \<Rightarrow> u8 list \<Rightarrow> nat \<Rightarrow> u8 list option \<Rightarrow> u8 list option \<Rightarrow>
     (bool \<times> u8 list option \<times> u8 list option \<times> rand_state) option" where
  "RSA_Create junk st pubExp bitLen_N mod_N prvExp =
     (case (mod_N, prvExp) of
        (Some mod_N, Some prvExp) \<Rightarrow>
          Option.bind (create_loop junk (bitLen_N div 64) pubExp st) (\<lambda>(N, E, st).
          Option.bind (copy_words prvExp E (m_iLength32 E) (bitLen_N div 8)) (\<lambda>prvExp.
          Option.bind (copy_words mod_N N (m_iLength32 E) (bitLen_N div 8)) (\<lambda>mod_N.
          Some (True, Some mod_N, Some prvExp, st))))
      | _ \<Rightarrow> Some (False, mod_N, prvExp, st))"

end
