(* ===== verification/BigintDiv.thy ===== *)
theory BigintDiv
  imports BigintMod
begin

text \<open>
  Division: \<open>Mod_long\<close> and \<open>Div_long\<close> divide by one word, \<open>Div_bigint\<close> by a number of any
  length.  On numbers without a leading zero word \<open>Div_bigint\<close> returns the quotient, and
  \<open>Add_long\<close>, which it uses for its last unit, carries correctly.  \<open>Div_long\<close> of a one-word
  number leaves the upper words of its output as they were, so its result is characterised
  by what the callers do with it: it multiplies as the quotient does.
\<close>

section \<open>Division by a word\<close>

lemma two_digits_bound: "c < w \<Longrightarrow> w < 2 ^ 32 \<Longrightarrow> x < 2 ^ 32 \<Longrightarrow> c * 2 ^ 32 + x < w * (2 ^ 32 :: nat)"
  using digit_less [of c w x "2 ^ 32" 0] by simp

lemma push_add_word:
  fixes c :: u64 and x :: u32
  assumes "unat c < 2 ^ 32"
  shows "unat (push_bit 32 c + ucast x) = unat c * 2 ^ 32 + unat x"
    and "unat (ucast x + c * 0x100000000) = unat c * 2 ^ 32 + unat x"
proof -
  have b: "unat c * 2 ^ 32 + unat x < 2 ^ 32 * 2 ^ 32"
    using assms unat_lt_32 [of x] by (simp del: unat_lt_32)
  then have m: "unat (c * 0x100000000) = unat c * 2 ^ 32"
    by (subst unat_mult_64) simp_all
  have p: "push_bit 32 c = c * 0x100000000" by (simp add: push_bit_eq_mult)
  show "unat (push_bit 32 c + ucast x) = unat c * 2 ^ 32 + unat x"
    unfolding p by (subst unat_add_64) (use b in \<open>simp_all add: m widen\<close>)
  show "unat (ucast x + c * 0x100000000) = unat c * 2 ^ 32 + unat x"
    by (subst unat_add_64) (use b in \<open>simp_all add: m widen\<close>)
qed

lemma mod_long_loop_correct:
  assumes "0 < unat w" "unat w < 2 ^ 32" "unat c < unat w"
  shows "unat (mod_long_loop a w n c) = (unat c * 2 ^ (32 * n) + sval n a) mod unat w"
  using assms(3)
proof (induction n arbitrary: c)
  case (Suc n)
  define d where "d = ucast (a ! n) + c * 0x100000000"
  have "unat c < 2 ^ 32" using Suc.prems assms by simp
  then have d: "unat d = unat c * 2 ^ 32 + unat (a ! n)" unfolding d_def by (rule push_add_word)
  have m: "unat (d mod w) = unat d mod unat w" by (simp add: unat_mod_distrib)
  have "unat (mod_long_loop a w (Suc n) c) = (unat d mod unat w * 2 ^ (32 * n) + sval n a) mod unat w"
    using Suc.IH [of "d mod w"] assms by (simp add: m d_def [symmetric] Let_def)
  also have "\<dots> = (unat d * 2 ^ (32 * n) + sval n a) mod unat w"
    by (rule mod_add_cong) (simp_all add: mod_mult_left_eq)
  also have "unat d * 2 ^ (32 * n) + sval n a = unat c * 2 ^ (32 * Suc n) + sval (Suc n) a"
    by (simp add: d sval_Suc power_add algebra_simps)
  finally show ?case .
qed simp

lemma Mod_long_correct:
  assumes "big_wf x" "0 < unat w" "unat w < 2 ^ 32"
  obtains r where "Mod_long x w = Some r" "unat r = big_val x mod unat w"
proof (cases "m_iLength32 x = 1")
  case True
  have "w \<noteq> 0" using assms(2) by auto
  with True show ?thesis
    by (intro that [of "ucast (m_ulValue x ! 0) mod w"])
      (simp_all add: Mod_long_def big_val_def unat_mod_distrib widen)
next
  case False
  have "w \<noteq> 0" using assms(2) by auto
  with False show ?thesis
    using mod_long_loop_correct [OF assms(2,3), of 0 "m_ulValue x" "m_iLength32 x"] assms(2)
    by (intro that [of "mod_long_loop (m_ulValue x) w (m_iLength32 x) 0"]) (simp_all add: Mod_long_def big_val_def)
qed

lemma quotient_split: "w * q + r = d \<Longrightarrow> 0 < w \<Longrightarrow> (d * p + s) div w = q * p + (r * p + s) div (w :: nat)"
proof -
  assume "w * q + r = d" "0 < w"
  then have "d * p + s = r * p + s + q * p * w" by (auto simp: algebra_simps)
  also have "\<dots> div w = q * p + (r * p + s) div w" using \<open>0 < w\<close> by (intro div_mult_self1) simp
  finally show ?thesis .
qed

lemma div_long_loop_keeps:
  "length (div_long_loop a w n c out) = length out \<and>
   (\<forall>k. n \<le> k \<longrightarrow> div_long_loop a w n c out ! k = out ! k)"
  by (induction n arbitrary: c out) (auto simp: Let_def)

declare div_long_loop.simps(2) [simp del]

lemma div_long_loop_correct:
  assumes "0 < unat w" "unat w < 2 ^ 32" "unat c < unat w" "n \<le> length out"
  shows "sval n (div_long_loop a w n c out) = (unat c * 2 ^ (32 * n) + sval n a) div unat w"
  using assms(3,4)
proof (induction n arbitrary: c out)
  case (Suc n)
  define d where "d = push_bit 32 c + ucast (a ! n)"
  have c: "unat c < 2 ^ 32" using Suc.prems(1) assms by simp
  then have d: "unat d = unat c * 2 ^ 32 + unat (a ! n)" unfolding d_def by (rule push_add_word)
  have "unat d < unat w * 2 ^ 32"
    unfolding d by (rule two_digits_bound) (use Suc.prems(1) assms(2) in simp_all)
  then have "unat d div unat w < 2 ^ 32" by (simp add: less_mult_imp_div_less mult.commute)
  then have q: "unat (ucast (d div w) :: u32) = unat d div unat w"
    by (simp add: unat_ucast_64_32 unat_div_distrib)
  have r: "d - d div w * w = d mod w" by (rule minus_div_mult_eq_mod)
  have ur: "unat (d mod w) = unat d mod unat w" by (simp add: unat_mod_distrib)
  let ?out = "out[n := ucast (d div w)]"
  have e: "div_long_loop a w (Suc n) c out = div_long_loop a w n (d mod w) ?out"
    by (simp add: div_long_loop.simps(2) d_def [symmetric] Let_def r)
  have "sval (Suc n) (div_long_loop a w (Suc n) c out) =
      (unat d mod unat w * 2 ^ (32 * n) + sval n a) div unat w + unat d div unat w * 2 ^ (32 * n)"
    using Suc.IH [of "d mod w" ?out] Suc.prems assms div_long_loop_keeps [of a w n "d mod w" ?out] q
    by (simp add: e sval_Suc ur)
  also have "\<dots> = (unat d * 2 ^ (32 * n) + sval n a) div unat w"
    using quotient_split [of "unat w" "unat d div unat w" "unat d mod unat w" "unat d"] assms(1) by simp
  also have "unat d * 2 ^ (32 * n) + sval n a = unat c * 2 ^ (32 * Suc n) + sval (Suc n) a"
    by (simp add: d sval_Suc power_add algebra_simps)
  finally show ?case .
qed simp

text \<open>The quotient of a longer number: only its top word can be zero, and that one is dropped.\<close>

lemma Div_long_correct:
  assumes x: "big_normal x" "m_iLength32 x \<noteq> 1" and w: "0 < unat w" "unat w < 2 ^ 32"
    and o: "length (m_ulValue old) = 66"
  obtains z where "Div_long old x w = Some z" "big_normal z" "big_val z = big_val x div unat w"
proof -
  obtain m where m: "m_iLength32 x = Suc (Suc m)" "Suc (Suc m) \<le> 66"
    using big_wf_len [of x] x by (intro that [of "m_iLength32 x - 2"]) auto
  define out where "out = div_long_loop (m_ulValue x) w (Suc (Suc m)) 0 (m_ulValue old)"
  define len where "len = (if out ! Suc m = 0 then Suc m else Suc (Suc m))"
  have l: "length out = 66" using o div_long_loop_keeps by (simp add: out_def)
  have v: "sval (Suc (Suc m)) out = big_val x div unat w"
    using div_long_loop_correct [OF w, of 0 "Suc (Suc m)" "m_ulValue old" "m_ulValue x"] w(1) o m
    by (simp add: out_def big_val_def)
  define z where "z = \<lparr>m_iLength32 = len, m_ulValue = clear_from len out\<rparr>"
  have "w \<noteq> 0" using w(1) by auto
  then have "Div_long old x w = Some z"
    using x(2) m by (simp add: Div_long_def z_def len_def out_def Let_def)
  moreover have z: "big_wf z" unfolding z_def by (rule big_wfI) (use l m in \<open>auto simp: len_def\<close>)
  moreover have vz: "big_val z = big_val x div unat w"
    using l m(2) unfolding v [symmetric] by (simp add: big_val_def z_def len_def sval_Suc [of "Suc m"])
  moreover have "big_normal z"
  proof (cases "out ! Suc m = 0")
    case True
    have "2 ^ (32 * Suc m) \<le> big_val x" using big_normal_ge [OF x] m by simp
    then have "2 ^ (32 * m) * 2 ^ 32 \<le> big_val x" by (simp add: power_add)
    moreover have "2 ^ (32 * m) * unat w \<le> 2 ^ (32 * m) * 2 ^ 32" using w(2) by (intro mult_le_mono2) simp
    ultimately have "2 ^ (32 * m) * unat w \<le> big_val x" by linarith
    then have "2 ^ (32 * m) \<le> big_val z" unfolding vz using w(1) by (simp add: less_eq_div_iff_mult_less_eq)
    with True z show ?thesis by (intro normal_by_value) (simp_all add: z_def len_def)
  next
    case False
    with z l m show ?thesis by (simp add: big_normal_def z_def len_def)
  qed
  ultimately show ?thesis using that by blast
qed

lemma Div_long_one_word:
  "m_iLength32 x = 1 \<Longrightarrow> w \<noteq> 0 \<Longrightarrow> Div_long old x w =
     Some \<lparr>m_iLength32 = 1, m_ulValue = (m_ulValue old)[0 := ucast (ucast (m_ulValue x ! 0) div w)]\<rparr>"
  by (simp add: Div_long_def)

section \<open>Adding one\<close>

lemma sval_update_mid:
  "i < n \<Longrightarrow> i < length xs \<Longrightarrow>
   sval n (xs[i := v]) + unat (xs ! i) * 2 ^ (32 * i) = sval n xs + unat v * 2 ^ (32 * i)"
proof (induction n)
  case (Suc n)
  then show ?case by (cases "i = n") (auto simp: sval_Suc)
qed simp

lemma unat_all_ones: "unat (0xffffffff :: u32) + 1 = 2 ^ 32"
  by simp

lemma unat_Suc_word: "w \<noteq> 0xffffffff \<Longrightarrow> unat (w + 1 :: u32) = unat w + 1"
proof -
  assume "w \<noteq> 0xffffffff"
  moreover have "unat w = unat (0xffffffff :: u32) \<Longrightarrow> w = 0xffffffff" by (rule unsigned_word_eqI)
  ultimately have "unat w \<noteq> 4294967295" by auto
  with unat_le_32 [of w] have "unat w < 4294967295" by (rule le_neq_implies_less)
  then have "unat w + unat (1 :: u32) < 2 ^ 32" by simp
  then show ?thesis using unat_add_lem [of w "1 :: u32"] by simp
qed

lemma add_long_carry_correct:
  assumes "length out = 66" "\<And>k. i \<le> k \<Longrightarrow> k < 66 \<Longrightarrow> out ! k = a ! k" "i \<le> m" "m < 66" "a ! m \<noteq> 0xffffffff"
  obtains j out' where "add_long_carry a i out = Some (j, out')" "i \<le> j" "j \<le> m" "length out' = 66"
    "out' ! j \<noteq> 0" "\<And>k. k < 66 \<Longrightarrow> j < k \<Longrightarrow> out' ! k = out ! k"
    "\<And>n. j < n \<Longrightarrow> sval n out' = sval n out + 2 ^ (32 * i)"
proof -
  have "\<exists>j out'. add_long_carry a i out = Some (j, out') \<and> i \<le> j \<and> j \<le> m \<and> length out' = 66 \<and>
    out' ! j \<noteq> 0 \<and> (\<forall>k<66. j < k \<longrightarrow> out' ! k = out ! k) \<and>
    (\<forall>n. j < n \<longrightarrow> sval n out' = sval n out + 2 ^ (32 * i))"
    using assms
  proof (induction a i out rule: add_long_carry.induct)
    case (1 a i out)
    show ?case
    proof (cases "a ! i = 0xffffffff")
      case True
      then have im: "Suc i \<le> m" using "1.prems"(3,5) by (metis Suc_leI le_neq_implies_less)
      have o: "out ! i = 0xffffffff" using "1.prems" True by simp
      have "\<exists>j out'. add_long_carry a (i + 1) (out[i := 0]) = Some (j, out') \<and> i + 1 \<le> j \<and> j \<le> m \<and> length out' = 66 \<and>
        out' ! j \<noteq> 0 \<and> (\<forall>k<66. j < k \<longrightarrow> out' ! k = out[i := 0] ! k) \<and>
        (\<forall>n. j < n \<longrightarrow> sval n out' = sval n (out[i := 0]) + 2 ^ (32 * (i + 1)))"
        by (rule "1.IH") (use "1.prems" True im in auto)
      then obtain j out' where j: "add_long_carry a (i + 1) (out[i := 0]) = Some (j, out')" "i + 1 \<le> j" "j \<le> m"
        "length out' = 66" "out' ! j \<noteq> 0" "\<forall>k<66. j < k \<longrightarrow> out' ! k = out[i := 0] ! k"
        "\<forall>n. j < n \<longrightarrow> sval n out' = sval n (out[i := 0]) + 2 ^ (32 * (i + 1))" by blast
      have "sval n out' = sval n out + 2 ^ (32 * i)" if "j < n" for n
      proof -
        have "sval n out' = sval n (out[i := 0]) + (unat (0xffffffff :: u32) + 1) * 2 ^ (32 * i)"
          using j(7) that unfolding unat_all_ones by (simp only: mult_Suc_right power_add Suc_eq_plus1 [symmetric])
        then show ?thesis
          using sval_update_mid [of i n out 0] that j(2,3) "1.prems"(1,4) o by (simp add: add_mult_distrib)
      qed
      moreover have "add_long_carry a i out = Some (j, out')"
        using True "1.prems"(3,4) j(1) by (subst add_long_carry.simps) simp
      ultimately show ?thesis using j by auto
    next
      case False
      have o: "out ! i = a ! i" using "1.prems" by simp
      have u: "unat (out ! i + 1) = unat (out ! i) + 1" using False o by (simp add: unat_Suc_word)
      have "sval n (out[i := out ! i + 1]) = sval n out + 2 ^ (32 * i)" if "i < n" for n
        using sval_update_mid [of i n out "out ! i + 1"] that "1.prems"(1,3,4) u by (simp add: add_mult_distrib)
      moreover have "out ! i + 1 \<noteq> 0" using u by (metis add_is_0 one_neq_zero unsigned_0)
      moreover have "add_long_carry a i out = Some (i, out[i := out ! i + 1])"
        using False "1.prems"(3,4) by (subst add_long_carry.simps) simp
      ultimately show ?thesis using "1.prems"(1,3,4) by auto
    qed
  qed
  then show ?thesis using that by blast
qed

lemma Add_long_one:
  assumes "big_normal x" "m_iLength32 x < 66"
  obtains z where "Add_long x 1 = Some z" "big_normal z" "big_val z = big_val x + 1"
proof (cases "m_ulValue x ! 0 = 0xffffffff")
  case False
  let ?w = "m_ulValue x ! 0"
  have w: "unat (ucast ?w + 1 :: u64) = unat ?w + 1" by (rule unat_num_Suc)
  have u: "unat (ucast (ucast ?w + 1 :: u64) :: u32) = unat ?w + 1"
    using False unat_Suc_word [of ?w] unat_lt_32 [of "?w + 1"] unfolding unat_ucast_64_32 w by simp
  have s: "\<not> ucast ?w + 1 > (0xffffffff :: u64)"
    using u unat_le_32 [of "ucast (ucast ?w + 1 :: u64)"] by (simp add: word_less_nat_alt w)
  define z where "z = x\<lparr>m_ulValue := (m_ulValue x)[0 := ucast (ucast ?w + 1 :: u64)]\<rparr>"
  have l: "length (m_ulValue x) = 66" "1 \<le> m_iLength32 x" using assms big_wf_len [of x] by auto
  have "Add_long x 1 = Some z" using s assms by (simp add: Add_long_def Let_def z_def)
  moreover have "big_normal z"
    using assms u by (auto simp: big_normal_def big_wf_def z_def nth_list_update intro!: unsigned_word_eqI)
  moreover have "big_val z = big_val x + 1"
    using sval_update_mid [of 0 "m_iLength32 x" "m_ulValue x" "ucast (ucast ?w + 1 :: u64)"] l u
    by (simp add: big_val_def z_def)
  ultimately show ?thesis using that by blast
next
  case True
  let ?vals = "(m_ulValue x)[0 := 0 :: u32]"
  have w: "big_wf x" and n: "1 \<le> m_iLength32 x" using assms big_wf_len [of x] by auto
  have z0: "ucast (ucast (0xffffffff :: u32) + 1 :: u64) = (0 :: u32)" "ucast (0xffffffff :: u32) + 1 > (0xffffffff :: u64)"
    by simp_all
  have overflow: "(4294967296 :: u32) = 0" by simp
  obtain j out where j: "add_long_carry (m_ulValue x) 1 ?vals = Some (j, out)" "1 \<le> j" "j \<le> m_iLength32 x"
    "length out = 66" "out ! j \<noteq> 0" "\<And>k. k < 66 \<Longrightarrow> j < k \<Longrightarrow> out ! k = ?vals ! k"
    "\<And>n. j < n \<Longrightarrow> sval n out = sval n ?vals + 2 ^ (32 * 1)"
    by (rule add_long_carry_correct [of ?vals 1 "m_ulValue x" "m_iLength32 x"])
      (use assms w n in \<open>auto simp: big_wf_tail\<close>)
  define len where "len = (if m_iLength32 x = j then m_iLength32 x + 1 else m_iLength32 x)"
  define z where "z = \<lparr>m_iLength32 = len, m_ulValue = out\<rparr>"
  have len: "j < len" "m_iLength32 x \<le> len" "len \<le> 66" using j(3) assms(2) by (auto simp: len_def)
  have "Add_long x 1 = Some z"
    using j(1) z0 w True by (simp add: Add_long_def Let_def z_def len_def overflow)
  moreover have tail: "out ! k = 0" if "len \<le> k" "k < 66" for k
    using j(6) [of k] that len w by (simp add: big_wf_tail)
  then have zw: "big_wf z" using len j(4) n by (simp add: big_wf_def z_def)
  moreover have v: "big_val z = big_val x + 1"
  proof -
    have "sval len ?vals + unat (m_ulValue x ! 0) = sval len (m_ulValue x)"
      using sval_update_mid [of 0 len "m_ulValue x" 0] len w by simp
    moreover have "sval len (m_ulValue x) = big_val x" using len w by (intro big_val_ext) auto
    moreover have "big_val z = sval len ?vals + 2 ^ 32" using j(7) [OF len(1)] by (simp add: big_val_def z_def)
    ultimately show ?thesis using True by simp
  qed
  moreover have "big_normal z"
  proof (rule normal_by_value [OF zw])
    show "m_iLength32 z = 1 \<or> 2 ^ (32 * (m_iLength32 z - 1)) \<le> big_val z"
    proof (cases "m_iLength32 x = j")
      case True
      then show ?thesis using sval_top_ge [OF j(5)] by (simp add: z_def len_def big_val_def)
    next
      case False
      then have "m_iLength32 z = m_iLength32 x" by (simp add: z_def len_def)
      with big_normal_ge [OF assms(1)] v show ?thesis by (cases "m_iLength32 x = 1") auto
    qed
  qed
  ultimately show ?thesis using that by blast
qed

section \<open>The quotient\<close>

lemma normal_len_bound: "big_normal x \<Longrightarrow> big_val x < 2 ^ (32 * n) \<Longrightarrow> 1 \<le> n \<Longrightarrow> m_iLength32 x \<le> n"
proof (rule ccontr)
  assume x: "big_normal x" "big_val x < 2 ^ (32 * n)" "1 \<le> n" "\<not> m_iLength32 x \<le> n"
  then have "2 ^ (32 * n) \<le> (2 :: nat) ^ (32 * (m_iLength32 x - 1))" by (intro power_increasing) auto
  also have "\<dots> \<le> big_val x" using x by (intro big_normal_ge) auto
  finally show False using x(2) by simp
qed

lemma same_top_quotient:
  assumes "big_wf a" "big_normal b" "0 < big_val b" "\<not> Cmp a b < 0" "same_top a b"
  shows "big_val a div big_val b = 1"
proof -
  obtain z where "Sub_bigint a b = Some z" "big_val z = big_val a mod big_val b"
    using same_top_diff [OF assms] by blast
  have lens: "m_iLength32 a = m_iLength32 b" using assms(4,5) by (auto simp: Cmp_def same_top_def split: if_splits)
  have l1: "1 \<le> m_iLength32 b" using big_wf_len [of b] assms by auto
  have ge: "big_val b \<le> big_val a" using assms(4) lens by (simp add: Cmp_same_length split: if_splits)
  define p y where "p = (2 :: nat) ^ (32 * (m_iLength32 b - 1))" and "y = m_ulValue b ! (m_iLength32 b - 1)"
  have "1 \<le> unat y" using normal_top [OF assms(2,3)] by (simp add: y_def Suc_le_eq unat_gt_0)
  then have "(unat y + 1) * p \<le> (2 * unat y) * p" by (intro mult_le_mono1) simp
  moreover have "big_val a < (unat y + 1) * p"
    using top_bounds(2) [of a] assms(5) lens l1 by (simp add: same_top_def y_def p_def)
  moreover have "unat y * p \<le> big_val b" using top_bounds(1) [OF l1] by (simp only: y_def p_def)
  ultimately have "big_val a < 2 * big_val b" by linarith
  with ge assms(3) show ?thesis by (intro div_nat_eqI) simp_all
qed

text \<open>One round of the loop: the subtrahend is the divisor times a quotient digit in its place.\<close>

lemma Div_round:
  assumes a: "big_normal a" "m_iLength32 a < 66" and b: "big_normal b" "0 < big_val b"
    and c: "\<not> Cmp a b < 0" "\<not> same_top a b" and q: "quotient_digit a b = (q, l)"
  obtains t s z where "shl_words l (Mov_long q) = Some t" "big_normal t" "0 < big_val t" "m_iLength32 t < 66"
    "Mul_bigint b t = Some s" "Sub_bigint a s = Some z" "big_normal z" "m_iLength32 z \<le> m_iLength32 a"
    "big_val z + big_val b * big_val t = big_val a"
proof -
  have aw: "big_wf a" using a by simp
  have "0 < big_val a" using c(1) a b by (simp add: Cmp_normal split: if_splits)
  note qd = quotient_digit_correct [OF aw b c q]
  have qp: "0 < unat q" using qd(4) normal_top [OF a(1) \<open>0 < big_val a\<close>] by blast
  have lq: "m_iLength32 (Mov_long q) = 1" by (rule Mov_long_len) (rule qd(1))
  have lb: "1 \<le> m_iLength32 b" using b(1) big_wf_len [of b] by simp
  obtain t where t: "shl_words l (Mov_long q) = Some t" "big_wf t" "big_val t = big_val (Mov_long q) * 2 ^ (32 * l)"
    "m_iLength32 t = m_iLength32 (Mov_long q) + l"
    "m_ulValue t ! (m_iLength32 t - 1) = m_ulValue (Mov_long q) ! (m_iLength32 (Mov_long q) - 1)"
    by (rule shl_words_correct [of "Mov_long q" l]) (use qd(3) a(2) lb lq in auto)
  have tv: "big_val t = unat q * 2 ^ (32 * l)" using t(3) by (simp add: Mov_long_val)
  have "m_ulValue (Mov_long q) ! (m_iLength32 (Mov_long q) - 1) \<noteq> 0"
    by (rule normal_top) (use qp in \<open>simp_all add: Mov_long_val\<close>)
  with t(2,5) have tn: "big_normal t" by (simp add: big_normal_def)
  have tl: "m_iLength32 b + m_iLength32 t \<le> 66" using qd(3) a(2) t(4) lq by simp
  have tp: "0 < big_val t" using qp tv by simp
  obtain s where s: "Mul_bigint b t = Some s" "big_normal s" "big_val s = big_val b * big_val t"
    by (rule Mul_bigint_normal [OF b(1) tn b(2) tp tl])
  have sa: "big_val s \<le> big_val a" using qd(2) by (simp add: s(3) tv algebra_simps)
  obtain z where z: "Sub_bigint a s = Some z" "big_normal z" "big_val z = big_val a - big_val s"
    "m_iLength32 z \<le> m_iLength32 a"
    by (rule Sub_bigint_normal [OF a(1) s(2)])
  show ?thesis
    by (rule that [OF t(1) tn tp _ s(1) z(1,2,4)]) (use tl lb z(3) sa s(3) in simp_all)
qed

lemma Div_loop_normal:
  assumes "big_normal out" "big_normal a" "m_iLength32 a < 66" "big_normal b" "0 < big_val b"
    "big_val out + big_val a div big_val b < 2 ^ (32 * 65)"
  shows "\<exists>z. Div_loop out a b = Some z \<and> big_normal z \<and> big_val z = big_val out + big_val a div big_val b"
  using assms
proof (induction "big_val a" arbitrary: a out rule: less_induct)
  case less
  note out = less.prems(1) and a = less.prems(2,3) and b = less.prems(4,5)
  have ol: "m_iLength32 out < 66" using normal_len_bound [OF out, of 65] less.prems(6) by simp
  have aw: "big_wf a" using a by simp
  consider (small) "Cmp a b < 0" | (top) "\<not> Cmp a b < 0" "same_top a b"
    | (step) "\<not> Cmp a b < 0" "\<not> same_top a b" by blast
  then show ?case
  proof cases
    case small
    then have "big_val a < big_val b" using a b by (simp add: Cmp_normal split: if_splits)
    with small out show ?thesis by (subst Div_loop.simps) simp
  next
    case top
    obtain z where "Add_long out 1 = Some z" "big_normal z" "big_val z = big_val out + 1"
      by (rule Add_long_one [OF out ol])
    with top same_top_quotient [OF aw b top] show ?thesis by (subst Div_loop.simps) simp
  next
    case step
    obtain q l where q: "quotient_digit a b = (q, l)" by fastforce
    obtain t s z where t: "shl_words l (Mov_long q) = Some t" "big_normal t" "0 < big_val t" "m_iLength32 t < 66"
      "Mul_bigint b t = Some s" "Sub_bigint a s = Some z" "big_normal z" "m_iLength32 z \<le> m_iLength32 a"
      "big_val z + big_val b * big_val t = big_val a"
      by (rule Div_round [OF a b step q])
    obtain out' where o: "Add_bigint out t = Some out'" "big_normal out'" "big_val out' = big_val out + big_val t"
      by (rule Add_bigint_normal [OF out t(2) ol t(4)])
    have d: "big_val a div big_val b = big_val t + big_val z div big_val b"
      unfolding t(9) [symmetric] using b(2) by (simp add: add.commute)
    have lt: "big_val z < big_val a" unfolding t(9) [symmetric] using b(2) t(3) by simp
    have "Div_loop out a b = Div_loop out' z b"
      using step q t(1,5,6) o(1) by (subst Div_loop.simps) simp
    with less.hyps [OF lt o(2) t(7)] t(8) a b o(3) d less.prems(6) show ?thesis by (simp add: add.assoc)
  qed
qed

text \<open>\<open>Div_bigint\<close> returns, and its result multiplies as the quotient does.\<close>

definition acts_as :: "SBigInt \<Rightarrow> SBigInt \<Rightarrow> bool" where
  "acts_as z z' \<longleftrightarrow> (\<forall>x. Mul_bigint x z = Mul_bigint x z')"

lemma acts_as_refl [simp]: "acts_as z z"
  by (simp add: acts_as_def)

lemma Div_bigint_normal:
  assumes a: "big_normal a" "m_iLength32 a < 66" and b: "big_normal b" "0 < big_val b"
    and o: "length (m_ulValue old) = 66"
  obtains z z' where "Div_bigint old a b = Some z" "length (m_ulValue z) = 66" "acts_as z z'" "big_normal z'"
    "big_val z' = big_val a div big_val b" "m_iLength32 a \<noteq> 1 \<or> m_iLength32 b \<noteq> 1 \<longrightarrow> z = z'"
proof (cases "m_iLength32 b = 1")
  case False
  have aw: "big_wf a" using a by simp
  have "big_val a div big_val b \<le> big_val a" by (rule div_le_dividend)
  also have "\<dots> < 2 ^ (32 * m_iLength32 a)" by (rule big_val_less)
  also have "\<dots> \<le> 2 ^ (32 * 65)" using a(2) by (intro power_increasing) auto
  finally obtain z where "Div_loop (Mov_long 0) a b = Some z" "big_normal z" "big_val z = big_val a div big_val b"
    using Div_loop_normal [of "Mov_long 0" a b] a b by auto
  with False aw show ?thesis by (intro that [of z z]) (simp_all add: Div_bigint_def)
next
  case True
  define w where "w = (ucast (m_ulValue b ! 0) :: u64)"
  have w: "unat w = big_val b" "unat w < 2 ^ 32" using True by (simp_all add: w_def widen big_val_def)
  have w0: "0 < unat w" "w \<noteq> 0" using w(1) b(2) by auto
  have e: "Div_bigint old a b = Div_long old a w" using True by (simp add: Div_bigint_def w_def)
  show ?thesis
  proof (cases "m_iLength32 a = 1")
    case False
    then show ?thesis
      using Div_long_correct [OF a(1) False w0(1) w(2) o] that [of z z for z] w(1) e by (metis acts_as_refl big_normal_wf big_wf_length)
  next
    case a1: True
    define q where "q = ucast (m_ulValue a ! 0) div w"
    have q: "unat q = big_val a div big_val b" using a1 by (simp add: q_def unat_div_distrib w(1) widen big_val_def)
    have ql: "unat q < 2 ^ 32"
      unfolding q by (rule le_less_trans [OF div_le_dividend]) (use big_val_less [of a] a1 in simp)
    define z where "z = \<lparr>m_iLength32 = 1, m_ulValue = (m_ulValue old)[0 := ucast q]\<rparr>"
    have "acts_as z (Mov_long q)"
      using o by (simp add: acts_as_def Mul_bigint_def z_def Mov_long_small [OF ql])
    moreover have "Div_bigint old a b = Some z" using a1 w0 by (simp add: e Div_long_one_word z_def q_def)
    ultimately show ?thesis
      using that [of z "Mov_long q"] q a1 o True by (simp add: Mov_long_val z_def)
  qed
qed

end
