(* ===== verification/PrimeNumbers.thy ===== *)
theory PrimeNumbers
  imports Main
begin

text \<open>
  The number theory that key generation rests on: prime numbers, Euclid's lemma, Fermat's
  little theorem, the square roots of one, and the equation of an RSA key pair.
\<close>

definition prime_number :: "nat \<Rightarrow> bool" where
  "prime_number p \<longleftrightarrow> 1 < p \<and> (\<forall>d. d dvd p \<longrightarrow> d = 1 \<or> d = p)"

lemma prime_coprime: "prime_number p \<Longrightarrow> \<not> p dvd a \<Longrightarrow> coprime a p"
proof (rule coprimeI)
  fix c
  assume p: "prime_number p" and a: "\<not> p dvd a" and c: "c dvd a" "c dvd p"
  from p c(2) have "c = 1 \<or> c = p" by (simp add: prime_number_def)
  with a c(1) show "is_unit c" by auto
qed

lemma prime_dvd_product: "prime_number p \<Longrightarrow> p dvd a * b \<Longrightarrow> p dvd a \<or> p dvd b"
  using prime_coprime [of p a] coprime_dvd_mult_right_iff [of p a b] by (auto simp: coprime_commute)

lemma prime_dvd_binomial:
  assumes p: "prime_number p" and k: "0 < k" "k < p"
  shows "p dvd (p choose k)"
proof -
  obtain m j where m: "p = Suc m" "k = Suc j" using p k by (cases p; cases k) (auto simp: prime_number_def)
  have "Suc j * (p choose Suc j) = p * (m choose j)" unfolding m(1) by (rule Suc_times_binomial)
  then have "p dvd k * (p choose k)" by (simp add: m(2))
  moreover have "\<not> p dvd k" using k by (simp add: nat_dvd_not_less)
  ultimately show ?thesis using prime_dvd_product [OF p] by blast
qed

lemma power_successor: 
  assumes "prime_number p"
  shows "(a + 1) ^ p mod p = (a ^ p + 1) mod p"
proof -
  have p0: "0 < p" using assms by (simp add: prime_number_def)
  have "(a + 1) ^ p = (\<Sum>k\<le>p. of_nat (p choose k) * a ^ k * 1 ^ (p - k))" by (rule binomial)
  also have "\<dots> = (\<Sum>k\<in>{0<..<p}. (p choose k) * a ^ k) + (a ^ p + 1)"
  proof -
    have "{..p} = insert 0 (insert p {0<..<p})" using p0 by auto
    then show ?thesis using p0 by simp
  qed
  finally have e: "(a + 1) ^ p = (\<Sum>k\<in>{0<..<p}. (p choose k) * a ^ k) + (a ^ p + 1)" .
  have "p dvd (\<Sum>k\<in>{0<..<p}. (p choose k) * a ^ k)"
    by (rule dvd_sum) (use assms in \<open>simp add: prime_dvd_binomial\<close>)
  then show ?thesis unfolding e by (auto simp: mod_add_left_eq [symmetric])
qed

lemma fermat_power: "prime_number p \<Longrightarrow> a ^ p mod p = a mod p"
proof (induction a)
  case 0
  then have "0 < p" by (simp add: prime_number_def)
  then have "(0 :: nat) ^ p = 0" by (rule zero_power)
  then show ?case by (simp only:)
next
  case (Suc a)
  then have "(a ^ p + 1) mod p = (a + 1) mod p" by (metis mod_add_left_eq)
  then show ?case using power_successor [OF Suc.prems, of a] by simp
qed

lemma dvd_of_same_mod: "(a :: nat) mod m = b mod m \<Longrightarrow> b \<le> a \<Longrightarrow> m dvd a - b"
  by (simp add: mod_eq_dvd_iff_nat)

lemma fermat_little:
  assumes p: "prime_number p" and a: "\<not> p dvd a"
  shows "a ^ (p - 1) mod p = 1"
proof -
  obtain m where m: "p = Suc m" using p by (cases p) (auto simp: prime_number_def)
  have a0: "0 < a" using a by (metis dvd_0_right gr0I)
  then have g: "1 \<le> a ^ m" by simp
  have "p dvd a ^ p - a"
    using fermat_power [OF p, of a] a0 by (intro dvd_of_same_mod) (simp_all add: m)
  also have "a ^ p - a = a * (a ^ m - 1)" by (simp add: m diff_mult_distrib2)
  finally have "p dvd a ^ m - 1" using prime_dvd_product [OF p] a by blast
  then have "a ^ m mod p = 1 mod p" by (rule mod_eq_dvd_iff_nat [OF g, THEN iffD2])
  then show ?thesis using p m by (simp add: prime_number_def)
qed

text \<open>A square that is one modulo a prime is the square of one or of minus one.\<close>

lemma square_root_of_one:
  assumes p: "prime_number p" and a: "a * a mod p = 1"
  shows "a mod p = 1 \<or> a mod p = p - 1"
proof -
  have p1: "1 < p" using p by (simp add: prime_number_def)
  define r where "r = a mod p"
  have r: "r * r mod p = 1" "r < p" using a p1 by (simp_all add: r_def mod_mult_eq)
  then have r0: "1 \<le> r" by (cases r) simp_all
  then have "1 \<le> r * r" by simp
  then have "p dvd r * r - 1" using r p1 by (intro dvd_of_same_mod) simp_all
  also have "r * r - 1 = (r - 1) * (r + 1)" using r0 by (cases r) simp_all
  finally have "p dvd r - 1 \<or> p dvd r + 1" using prime_dvd_product [OF p] by blast
  then show ?thesis
  proof
    assume "p dvd r - 1"
    then have "r - 1 = 0" using r(2) by (meson dvd_imp_le gr0I less_imp_diff_less not_less)
    then show ?thesis using r0 by (simp add: r_def)
  next
    assume "p dvd r + 1"
    then have "p \<le> r + 1" by (intro dvd_imp_le) simp_all
    then have "r = p - 1" using r(2) by simp
    then show ?thesis by (simp add: r_def)
  qed
qed

text \<open>The equation of a key pair.\<close>

lemma power_one_mod: "(a :: nat) ^ m mod p = 1 \<Longrightarrow> 1 < p \<Longrightarrow> a ^ (1 + m * k) mod p = a mod p"
proof -
  assume a: "a ^ m mod p = 1" and p: "1 < p"
  have "(a ^ m) ^ k mod p = (a ^ m mod p) ^ k mod p" by (simp add: power_mod)
  then have o: "(a ^ m) ^ k mod p = 1" using a p by simp
  have "a ^ (1 + m * k) mod p = a * ((a ^ m) ^ k mod p) mod p"
    by (simp add: power_mult mod_mult_right_eq)
  then show ?thesis using o by simp
qed

lemma key_power_prime:
  assumes p: "prime_number p" and e: "n = 1 + (p - 1) * k"
  shows "a ^ n mod p = a mod p"
proof (cases "p dvd a")
  case True
  have "0 < n" using e by simp
  then have "p dvd a ^ n" using True by (meson dvd_power dvd_trans)
  with True show ?thesis by (simp add: dvd_eq_mod_eq_0)
next
  case False
  then show ?thesis
    using power_one_mod [OF fermat_little [OF p False], of k] p e by (simp add: prime_number_def)
qed

lemma dvd_diff_both:
  assumes "coprime p (q :: nat)" "a mod p = b mod p" "a mod q = b mod q"
  shows "a mod (p * q) = b mod (p * q)"
  using assms
proof (induction a b rule: linorder_wlog)
  case (le a b)
  then have "p dvd b - a" "q dvd b - a" by (simp_all add: dvd_of_same_mod)
  then have "p * q dvd b - a" using le(2) by (rule divides_mult)
  then show ?case using le(1) by (metis mod_eq_dvd_iff_nat)
qed simp

lemma key_power:
  assumes "prime_number p" "prime_number q" "p \<noteq> q" "n = 1 + (p - 1) * (q - 1) * k" "a < p * q"
  shows "a ^ n mod (p * q) = a"
proof -
  have "\<not> q dvd p" using assms(1-3) by (auto simp: prime_number_def)
  then have c: "coprime p q" by (rule prime_coprime [OF assms(2)])
  have "a ^ n mod p = a mod p" by (rule key_power_prime [OF assms(1), of _ "(q - 1) * k"]) (simp add: assms(4))
  moreover have "a ^ n mod q = a mod q" by (rule key_power_prime [OF assms(2), of _ "(p - 1) * k"]) (simp add: assms(4))
  ultimately show ?thesis using dvd_diff_both [OF c] assms(5) by simp
qed

text \<open>Trial division up to the square root.\<close>

lemma prime_by_trial:
  assumes "1 < n" "n < (m + 1) * (m + 1)" "\<And>d. 2 \<le> d \<Longrightarrow> d \<le> m \<Longrightarrow> \<not> d dvd n"
  shows "prime_number n"
  unfolding prime_number_def
proof (intro conjI allI impI)
  fix d
  assume "d dvd n"
  then obtain e where e: "n = d * e" by (rule dvdE)
  have pos: "0 < d" "0 < e" using e assms(1) by (auto intro!: gr0I)
  have "d \<le> 1 \<or> m < d" "e \<le> 1 \<or> m < e" using assms(3) [of d] assms(3) [of e] e by (force simp: not_le)+
  moreover have "\<not> (m < d \<and> m < e)"
  proof
    assume "m < d \<and> m < e"
    then have "(m + 1) * (m + 1) \<le> d * e" by (intro mult_le_mono) simp_all
    with assms(2) e show False by simp
  qed
  ultimately have "d = 1 \<or> e = 1" using pos by linarith
  then show "d = 1 \<or> d = n" using e by auto
qed (rule assms(1))

end
