(* ===== verification/RsaKeygenProps.thy ===== *)
theory RsaKeygenProps
  imports RsaKeygen BigintDiv PrimeNumbers
begin

text \<open>
  Key generation is correct.  \<open>Euc\<close> always returns and computes a modular inverse, up to the
  greatest common divisor; the exponent and modulus that \<open>RSA_Create\<close> stores satisfy the key
  equation for the two numbers \<open>GetPrime\<close> drew.
\<close>

section \<open>The extended Euclidean algorithm\<close>

text \<open>The coefficient with its sign.\<close>

definition signed :: "SBigInt \<Rightarrow> int \<Rightarrow> int" where
  "signed t x = (if x = 1 then int (big_val t) else - int (big_val t))"

lemma normal_zero_iff: "big_normal z \<Longrightarrow> (m_iLength32 z \<noteq> 1 \<or> m_ulValue z ! 0 \<noteq> 0) \<longleftrightarrow> big_val z \<noteq> 0"
proof (cases "m_iLength32 z = 1")
  case True
  then show ?thesis by (simp add: big_val_def unsigned_eq_0_iff)
next
  case False
  assume "big_normal z"
  from big_normal_ge [OF this False] have "big_val z \<noteq> 0" by (metis le_zero_eq power_not_zero zero_neq_numeral)
  with False show ?thesis by simp
qed

text \<open>What the loop keeps, for the inverse of \<open>d\<close> modulo \<open>n\<close>: the coefficients solve the two
  congruences, their cross sum with the remainders is \<open>n\<close>, and while the two signs agree the
  coefficients are those of the start.\<close>

definition euc_inv ::
  "nat \<Rightarrow> nat \<Rightarrow> SBigInt \<Rightarrow> SBigInt \<Rightarrow> SBigInt \<Rightarrow> SBigInt \<Rightarrow> int \<Rightarrow> int \<Rightarrow> bool" where
  "euc_inv d n t1 t2 t3 t4 x y \<longleftrightarrow>
     big_normal t1 \<and> big_normal t2 \<and> big_normal t3 \<and> big_normal t4 \<and>
     big_val t2 < big_val t1 \<and> big_val t1 \<le> n \<and> 0 < big_val t4 \<and>
     big_val t4 * big_val t1 + big_val t3 * big_val t2 = n \<and> big_val t3 \<le> n \<and>
     gcd (big_val t1) (big_val t2) = gcd d n \<and>
     int n dvd signed t3 x * int d - int (big_val t1) \<and>
     int n dvd signed t4 y * int d - int (big_val t2) \<and>
     (x = 1 \<and> y = 0 \<or> x = 0 \<and> y = 1 \<or> x = 1 \<and> y = 1 \<and> big_val t3 = 0)"

lemma dvd_combination:
  "(n :: int) dvd a * d - r \<Longrightarrow> n dvd b * d - s \<Longrightarrow> n dvd (a - q * b) * d - (r - q * s)"
proof -
  assume "n dvd a * d - r" "n dvd b * d - s"
  then have "n dvd (a * d - r) - q * (b * d - s)" by (metis dvd_diff dvd_mult)
  then show ?thesis by (simp add: algebra_simps)
qed

text \<open>The product of a coefficient and a quotient fits, since it is at most \<open>n\<close>.\<close>

lemma coefficient_product:
  assumes "big_normal t" "big_normal q" "0 < big_val t" "0 < big_val q" "big_val t * big_val q < 2 ^ (32 * 64)"
  obtains z where "Mul_bigint t q = Some z" "big_normal z" "big_val z = big_val t * big_val q"
proof -
  have g: "2 ^ (32 * (m_iLength32 x - 1)) \<le> big_val x" if "big_normal x" "0 < big_val x" for x
    using that big_normal_ge [of x] by (cases "m_iLength32 x = 1") auto
  have "(2 :: nat) ^ (32 * (m_iLength32 t - 1) + 32 * (m_iLength32 q - 1)) \<le> big_val t * big_val q"
    unfolding power_add by (intro mult_le_mono g assms)
  then have "(2 :: nat) ^ (32 * (m_iLength32 t - 1) + 32 * (m_iLength32 q - 1)) < 2 ^ (32 * 64)"
    using assms(5) by (rule le_less_trans)
  then have "32 * (m_iLength32 t - 1) + 32 * (m_iLength32 q - 1) < 32 * 64"
    by (rule power_less_imp_less_exp [rotated]) simp
  then have "m_iLength32 t + m_iLength32 q \<le> 66" by linarith
  then show ?thesis using Mul_bigint_normal [OF assms(1-4)] that by metis
qed

text \<open>One round: the next coefficient is \<open>sTemp3 - q * sTemp4\<close>, sign included.\<close>

lemma euc_combine_correct:
  assumes "big_normal t3" "big_normal p" "big_val t3 + big_val p < 2 ^ (32 * 65)" "0 < big_val p"
    "x = 1 \<and> y = 0 \<or> x = 0 \<and> y = 1 \<or> x = 1 \<and> y = 1 \<and> big_val t3 = 0"
    "big_val p = big_val q * big_val t4"
  obtains z x' y' where "euc_combine t3 p x y = Some (z, x', y')" "big_normal z"
    "big_val z = big_val t3 + big_val p" "signed z y' = signed t3 x - int (big_val q) * signed t4 y"
    "x' = y" "x' = 1 \<and> y' = 0 \<or> x' = 0 \<and> y' = 1"
proof (cases "x = y")
  case True
  then have t3: "big_val t3 = 0" "x = 1" "y = 1" using assms(5) by auto
  have "Cmp t3 p < 0" using assms t3 by (simp add: Cmp_normal)
  moreover obtain z where "Sub_bigint p t3 = Some z" "big_normal z" "big_val z = big_val p - big_val t3"
    by (rule Sub_bigint_normal [OF assms(2,1)])
  ultimately show ?thesis
    using t3 assms(6) by (intro that [of z 1 0]) (simp_all add: euc_combine_def signed_def)
next
  case False
  have "m_iLength32 t3 < 66" "m_iLength32 p < 66"
    using normal_len_bound [OF assms(1), of 65] normal_len_bound [OF assms(2), of 65] assms(3) by simp_all
  then obtain z where z: "Add_bigint p t3 = Some z" "big_normal z" "big_val z = big_val p + big_val t3"
    using Add_bigint_normal [OF assms(2,1)] by metis
  have xy: "x = 1 \<and> y = 0 \<or> x = 0 \<and> y = 1" using False assms(5) by blast
  then show ?thesis
    using False z assms(6)
    by (intro that [of z "1 - x" "1 - y"]) (auto simp: euc_combine_def signed_def)
qed

lemma Euc_loop_correct:
  assumes "euc_inv d n t1 t2 t3 t4 x y" "length (m_ulValue t5) = 66" "n < 2 ^ (32 * 64)"
  shows "\<exists>z x'. Euc_loop t1 t2 t3 t4 t5 x y = Some (z, x') \<and> big_normal z \<and> big_val z \<le> n \<and> (x' = 0 \<or> x' = 1) \<and>
    int n dvd signed z x' * int d - int (gcd d n)"
  using assms(1,2)
proof (induction "big_val t2" arbitrary: t1 t2 t3 t4 t5 x y rule: less_induct)
  case less
  note i = less.prems(1) [unfolded euc_inv_def]
  have n: "big_normal t1" "big_normal t2" "big_normal t3" "big_normal t4" using i by blast+
  have lens: "m_iLength32 t1 < 66" "m_iLength32 t2 < 66"
    using normal_len_bound [OF n(1), of 64] normal_len_bound [OF n(2), of 64] i assms(3) by simp_all
  show ?case
  proof (cases "big_val t2 = 0")
    case True
    have "Euc_loop t1 t2 t3 t4 t5 x y = Some (t3, x)"
      using normal_zero_iff [OF n(2)] True by (subst Euc_loop.simps) auto
    moreover have "big_val t1 = gcd d n" using i True by simp
    ultimately show ?thesis using i by auto
  next
    case False
    define q where "q = big_val t1 div big_val t2"
    have q: "0 < q" unfolding q_def using i False by (simp add: div_greater_zero_iff)
    obtain d5 d5' where dv: "Div_bigint t5 t1 t2 = Some d5" "length (m_ulValue d5) = 66" "acts_as d5 d5'"
      "big_normal d5'" "big_val d5' = q"
      using Div_bigint_normal [OF n(1) lens(1) n(2) _ less.prems(2)] False q_def by (metis gr0I)
    obtain r where r: "Mod_bigint t1 t2 = Some r" "big_normal r" "big_val r = big_val t1 mod big_val t2"
      by (rule Mod_bigint_normal [OF n(1,2) _ lens(2)]) (use False in auto)
    have qr: "q * big_val t2 + big_val r = big_val t1" unfolding q_def r(3) by simp
    have cross: "(big_val t3 + big_val t4 * q) * big_val t2 + big_val t4 * big_val r = n"
      using i unfolding qr [symmetric] by (simp add: algebra_simps)
    have "big_val t3 + big_val t4 * q \<le> (big_val t3 + big_val t4 * q) * big_val t2" using False by simp
    then have le: "big_val t3 + big_val t4 * q \<le> n" using cross by linarith
    obtain p where p: "Mul_bigint t4 d5' = Some p" "big_normal p" "big_val p = big_val t4 * q"
      by (rule coefficient_product [OF n(4) dv(4)]) (use i q dv(5) le assms(3) in auto)
    obtain z x' y' where z: "euc_combine t3 p x y = Some (z, x', y')" "big_normal z"
      "big_val z = big_val t3 + big_val p" "signed z y' = signed t3 x - int (big_val d5') * signed t4 y"
      "x' = y" "x' = 1 \<and> y' = 0 \<or> x' = 0 \<and> y' = 1"
      by (rule euc_combine_correct [OF n(3) p(2), of x y d5' t4])
        (use i q dv(5) le assms(3) p(3) in \<open>auto simp: mult.commute\<close>)
    have t4n: "big_val t4 \<le> n"
    proof -
      have "big_val t4 * 1 \<le> big_val t4 * big_val t1" using i by (intro mult_le_mono2) simp
      then show ?thesis using i by linarith
    qed
    have "euc_inv d n t2 r t4 z x' y'"
      unfolding euc_inv_def
    proof (intro conjI)
      show "big_val z * big_val t2 + big_val t4 * big_val r = n" using cross by (simp add: z(3) p(3))
      show "gcd (big_val t2) (big_val r) = gcd d n" using i r(3) by (metis gcd_red_nat gcd.commute)
      show "int n dvd signed z y' * int d - int (big_val r)"
      proof -
        have "int (big_val r) = int (big_val t1) - int (big_val d5') * int (big_val t2)"
          using qr dv(5) by (simp flip: of_nat_mult of_nat_add)
        then show ?thesis unfolding z(4) using i by (simp only:) (rule dvd_combination, blast+)
      qed
      show "big_val r < big_val t2" using r(3) False by simp
      show "int n dvd signed t4 x' * int d - int (big_val t2)" using i z(5) by simp
      show "0 < big_val z" using z(3) p(3) i q by simp
      show "big_val t2 \<le> n" using i by simp
      show "x' = 1 \<and> y' = 0 \<or> x' = 0 \<and> y' = 1 \<or> x' = 1 \<and> y' = 1 \<and> big_val t4 = 0" using z(6) by blast
    qed (use n r(2) z(2) t4n in auto)
    moreover have "Euc_loop t1 t2 t3 t4 t5 x y = Euc_loop t2 r t4 z d5 x' y'"
    proof -
      have "Mul_bigint t4 d5 = Some p" using dv(3) p(1) by (simp add: acts_as_def)
      then show ?thesis
        using normal_zero_iff [OF n(2)] False dv(1) r(1,2) z(1) p(2) n by (subst Euc_loop.simps) simp
    qed
    moreover have "big_val r < big_val t2" using r(3) False by simp
    ultimately show ?thesis using less.hyps [of r t2 t4 z x' y' d5] dv(2) by simp
  qed
qed

lemma Euc_correct:
  assumes "big_normal D" "big_normal N" "big_val D < big_val N" "big_val N < 2 ^ (32 * 64)"
    "length (m_ulValue junk) = 66"
  obtains z where "Euc D N junk = Some z" "big_normal z" "big_val z \<le> big_val N"
    "int (big_val N) dvd int (big_val z) * int (big_val D) - int (gcd (big_val D) (big_val N))"
proof -
  have "euc_inv (big_val D) (big_val N) N D (Mov_long 0) (Mov_long 1) 1 1"
    using assms by (simp add: euc_inv_def signed_def Mov_long_val gcd.commute)
  then obtain z x where z: "Euc_loop N D (Mov_long 0) (Mov_long 1) junk 1 1 = Some (z, x)" "big_normal z"
    "big_val z \<le> big_val N" "x = 0 \<or> x = 1"
    "int (big_val N) dvd signed z x * int (big_val D) - int (gcd (big_val D) (big_val N))"
    using Euc_loop_correct assms(4,5) by blast
  show ?thesis
  proof (cases "x = 0")
    case False
    then show ?thesis using that [of z] z assms by (simp add: Euc_def signed_def)
  next
    case True
    obtain w where w: "Sub_bigint N z = Some w" "big_normal w" "big_val w = big_val N - big_val z"
      by (rule Sub_bigint_normal [OF assms(2) z(2)])
    have "int (big_val N) dvd int (big_val N) * int (big_val D) +
        (signed z x * int (big_val D) - int (gcd (big_val D) (big_val N)))"
      using z(5) by (intro dvd_add) simp_all
    then show ?thesis
      using that [of w] w z(1,3) assms True by (simp add: Euc_def signed_def of_nat_diff algebra_simps)
  qed
qed

section \<open>The key of two numbers\<close>

text \<open>What \<open>GetPrime\<close> guarantees by construction: \<open>k\<close> words, odd, with the top bit set.\<close>

definition prime_shape :: "nat \<Rightarrow> SBigInt \<Rightarrow> bool" where
  "prime_shape k x \<longleftrightarrow> big_normal x \<and> m_iLength32 x = k \<and> 2 ^ (32 * k - 1) \<le> big_val x \<and> m_ulValue x ! 0 AND 1 \<noteq> 0"

lemma low_bit: "(w :: u32) AND 1 \<noteq> 0 \<longleftrightarrow> bit w 0"
  by (simp add: and_one_eq bit_0 even_iff_mod_2_eq_zero)

lemma odd_low_word: "(w :: u32) AND 1 \<noteq> 0 \<longleftrightarrow> odd (unat w)"
proof -
  have "w AND 1 \<noteq> 0 \<longleftrightarrow> bit w 0" by (rule low_bit)
  also have "\<dots> \<longleftrightarrow> bit (unat w) 0" by (auto simp: bit_unsigned_iff)
  finally show ?thesis by (simp add: bit_0)
qed

lemma odd_val_low:
  assumes "big_normal x" "odd (big_val x)"
  shows "m_ulValue x ! 0 \<noteq> 0"
proof
  assume z: "m_ulValue x ! 0 = 0"
  obtain m where m: "m_iLength32 x = Suc m" using big_wf_len [of x] assms by (cases "m_iLength32 x") auto
  have "2 dvd sval (Suc n) (m_ulValue x)" for n
    by (induction n) (simp_all add: z sval_Suc [of "Suc _"])
  with assms(2) show False by (simp add: big_val_def m)
qed

lemma low_odd_val: "big_wf x \<Longrightarrow> m_ulValue x ! 0 AND 1 \<noteq> 0 \<Longrightarrow> odd (big_val x)"
proof -
  assume x: "big_wf x" "m_ulValue x ! 0 AND 1 \<noteq> 0"
  obtain m where m: "m_iLength32 x = Suc m" using big_wf_len [OF x(1)] by (cases "m_iLength32 x") auto
  have "odd (sval (Suc n) (m_ulValue x))" for n
    by (induction n) (use x(2) in \<open>simp_all add: odd_low_word sval_Suc [of "Suc _"]\<close>)
  then show ?thesis by (simp add: big_val_def m)
qed

lemma Sub_long_one:
  assumes "big_normal x" "m_ulValue x ! 0 \<noteq> 0"
  obtains z where "Sub_long old x 1 = Some z" "big_normal z" "big_val z = big_val x - 1" "m_iLength32 z = m_iLength32 x"
proof -
  let ?w = "m_ulValue x ! 0"
  have w1: "1 \<le> unat ?w" using assms(2) by (simp add: Suc_le_eq unat_gt_0)
  have l: "length (m_ulValue x) = 66" "1 \<le> m_iLength32 x" using assms big_wf_len [of x] by auto
  have u64: "unat (ucast ?w - 1 :: u64) = unat ?w - 1"
    by (subst unat_sub_64) (use w1 in \<open>simp_all add: widen\<close>)
  have u: "unat (ucast (ucast ?w - 1 :: u64) :: u32) = unat ?w - 1"
    unfolding unat_ucast_64_32 u64 by (rule mod_less) (rule le_less_trans [OF diff_le_self], simp)
  have c: "(1 :: u64) \<le> ucast ?w" using w1 by (simp add: word_le_nat_alt widen)
  define z where "z = \<lparr>m_iLength32 = m_iLength32 x,
    m_ulValue = ucast (ucast ?w - 1 :: u64) # map (\<lambda>i. m_ulValue x ! i) [1..<66]\<rparr>"
  have words: "m_ulValue z = (m_ulValue x)[0 := ucast (ucast ?w - 1 :: u64)]"
    by (rule nth_equalityI) (auto simp: z_def l nth_Cons' nth_list_update)
  have "Sub_long old x 1 = Some z" using c by (simp add: Sub_long_def z_def)
  moreover have "big_val z = big_val x - 1"
  proof -
    have "sval (m_iLength32 x) (m_ulValue z) + unat ?w = big_val x + (unat ?w - 1)"
      using sval_update_mid [of 0 "m_iLength32 x" "m_ulValue x" "ucast (ucast ?w - 1 :: u64)"] l u
      by (simp add: words big_val_def)
    then show ?thesis using w1 by (simp add: big_val_def z_def)
  qed
  moreover have "big_normal z"
  proof -
    have "m_iLength32 z = m_iLength32 x" by (simp add: z_def)
    then show ?thesis using assms(1) by (auto simp: big_normal_def big_wf_def words nth_list_update)
  qed
  ultimately show ?thesis using that by (simp add: z_def)
qed

lemma prime_shape_pos: "prime_shape k x \<Longrightarrow> 1 \<le> k \<Longrightarrow> 2 ^ 31 \<le> big_val x"
proof -
  assume a: "prime_shape k x" "1 \<le> k"
  then have "(2 :: nat) ^ 31 \<le> 2 ^ (32 * k - 1)" by (intro power_increasing) auto
  with a show ?thesis by (simp add: prime_shape_def)
qed

lemma create_key_correct:
  assumes P: "big_normal P" "odd (big_val P)" "1 < big_val P" and Q: "big_normal Q" "odd (big_val Q)" "1 < big_val Q"
    and len: "m_iLength32 P + m_iLength32 Q \<le> 64"
    and D: "big_normal D" "big_val D < (big_val P - 1) * (big_val Q - 1)" and j: "length (m_ulValue junk) = 66"
  obtains N E where "create_key D P Q junk = Some (N, E)" "big_normal N" "big_normal E"
    "big_val N = big_val P * big_val Q" "big_val E \<le> (big_val P - 1) * (big_val Q - 1)"
    "int ((big_val P - 1) * (big_val Q - 1)) dvd
       int (big_val E) * int (big_val D) - int (gcd (big_val D) ((big_val P - 1) * (big_val Q - 1)))"
proof -
  have low: "m_ulValue P ! 0 \<noteq> 0" "m_ulValue Q ! 0 \<noteq> 0" using odd_val_low P(1,2) Q(1,2) by blast+
  obtain N where N: "Mul_bigint P Q = Some N" "big_normal N" "big_val N = big_val P * big_val Q"
    by (rule Mul_bigint_normal [OF P(1) Q(1)]) (use P Q len in auto)
  obtain P' where P': "Sub_long P P 1 = Some P'" "big_normal P'" "big_val P' = big_val P - 1" "m_iLength32 P' = m_iLength32 P"
    using Sub_long_one [OF P(1) low(1)] by metis
  obtain Q' where Q': "Sub_long Q Q 1 = Some Q'" "big_normal Q'" "big_val Q' = big_val Q - 1" "m_iLength32 Q' = m_iLength32 Q"
    using Sub_long_one [OF Q(1) low(2)] by metis
  obtain C where C: "Mul_bigint P' Q' = Some C" "big_normal C" "big_val C = big_val P' * big_val Q'"
    "m_iLength32 C \<le> m_iLength32 P' + m_iLength32 Q'"
    by (rule Mul_bigint_normal [OF P'(2) Q'(2)]) (use P Q P'(3,4) Q'(3,4) len in auto)
  have d: "big_val D < big_val C" using D(2) by (simp add: C(3) P'(3) Q'(3))
  have "(2 :: nat) ^ (32 * m_iLength32 C) \<le> 2 ^ (32 * 64)" using C(4) P'(4) Q'(4) len by (intro power_increasing) auto
  then have "big_val C < 2 ^ (32 * 64)" using big_val_less [of C] by simp
  then obtain E where E: "Euc D C junk = Some E" "big_normal E" "big_val E \<le> big_val C"
    "int (big_val C) dvd int (big_val E) * int (big_val D) - int (gcd (big_val D) (big_val C))"
    using Euc_correct [OF D(1) C(2) d _ j] by metis
  show ?thesis
    by (rule that [of N E]) (use N P' Q' C E in \<open>simp_all add: create_key_def\<close>)
qed

lemma create_key_shapes:
  assumes P: "prime_shape k P" and Q: "prime_shape k Q" and k: "1 \<le> k" "k \<le> 32"
    and D: "big_normal D" "big_val D < 2 ^ 32" and j: "length (m_ulValue junk) = 66"
  obtains N E where "create_key D P Q junk = Some (N, E)" "big_normal N" "big_normal E"
    "big_val N = big_val P * big_val Q" "big_val E \<le> (big_val P - 1) * (big_val Q - 1)"
    "int ((big_val P - 1) * (big_val Q - 1)) dvd
       int (big_val E) * int (big_val D) - int (gcd (big_val D) ((big_val P - 1) * (big_val Q - 1)))"
proof (rule create_key_correct [of P Q D junk])
  have big: "2 ^ 31 \<le> big_val P" "2 ^ 31 \<le> big_val Q" using prime_shape_pos P Q k by blast+
  then show "1 < big_val P" "1 < big_val Q" by simp_all
  have "(2 ^ 31 - 1) * (2 ^ 31 - 1) \<le> (big_val P - 1) * (big_val Q - 1)"
    by (intro mult_le_mono diff_le_mono big)
  with D(2) show "big_val D < (big_val P - 1) * (big_val Q - 1)" by simp
  show "odd (big_val P)" "odd (big_val Q)" using P Q low_odd_val [of P] low_odd_val [of Q] by (simp_all add: prime_shape_def)
qed (use assms in \<open>auto simp: prime_shape_def\<close>)

section \<open>What \<open>GetPrime\<close> returns\<close>

lemma length_rand_words: "rand_words n st = (ws, st') \<Longrightarrow> length ws = n"
  by (induction n arbitrary: st ws) (auto simp: Let_def split: prod.splits)

lemma top_bit_set: "2 ^ 31 \<le> unat (w OR 0x80000000 :: u32)"
proof -
  have "0x80000000 \<le> w OR 0x80000000" using le_word_or2 [of "0x80000000" w] by (simp add: or.commute)
  then show ?thesis by (simp add: word_le_nat_alt)
qed

lemma candidate_shape:
  assumes "length ws = n" "1 \<le> n" "n \<le> 66"
  shows "prime_shape n (candidate n ws)"
proof -
  let ?x = "candidate n ws"
  have c: "m_iLength32 ?x = n" "length (m_ulValue ?x) = 66" using assms by (simp_all add: candidate_def Let_def)
  have top: "2 ^ 31 \<le> unat (m_ulValue ?x ! (n - 1))"
    using assms top_bit_set by (simp add: candidate_def Let_def nth_append)
  have "m_ulValue ?x ! 0 AND 1 \<noteq> 0"
  proof -
    have "bit (0x11 :: u32) 0" by simp
    then show ?thesis
      using assms unfolding low_bit
      by (auto simp: candidate_def Let_def nth_append nth_list_update bit_or_iff simp del: bit_0)
  qed
  moreover have "big_normal ?x"
    using c top assms by (auto simp: big_normal_def big_wf_def candidate_def Let_def nth_append)
  moreover have "2 ^ (32 * n - 1) \<le> big_val ?x"
  proof -
    have "2 ^ 31 * 2 ^ (32 * (n - 1)) \<le> unat (m_ulValue ?x ! (n - 1)) * 2 ^ (32 * (n - 1))"
      using top by (rule mult_le_mono1)
    also have "\<dots> \<le> big_val ?x" using top_bounds(1) [of ?x] c(1) assms(2) by simp
    also have "(2 :: nat) ^ 31 * 2 ^ (32 * (n - 1)) = 2 ^ (31 + 32 * (n - 1))" by (simp only: power_add)
    also have "31 + 32 * (n - 1) = 32 * n - 1" using assms(2) by simp
    finally show ?thesis .
  qed
  ultimately show ?thesis by (simp add: prime_shape_def c(1))
qed

text \<open>A number that \<open>GetPrime\<close> returns: of the shape above, and accepted by \<open>Rab\<close>.\<close>

definition accepted :: "SBigInt \<Rightarrow> nat \<Rightarrow> SBigInt \<Rightarrow> bool" where
  "accepted junk k x \<longleftrightarrow> prime_shape k x \<and> (\<exists>st st'. Rab junk x st = Some (True, st'))"

lemma prime_loop_accepted:
  assumes "prime_loop junk n st = Some (x, st')" "1 \<le> n" "n \<le> 66"
  shows "accepted junk n x"
proof -
  have "1 \<le> n \<longrightarrow> n \<le> 66 \<longrightarrow> accepted junk n (fst (x, st'))"
  proof (rule prime_loop.raw_induct [OF _ assms(1)])
    fix f junk n st y
    assume IH: "\<And>junk n st y. f junk n st = Some y \<Longrightarrow> 1 \<le> n \<longrightarrow> n \<le> 66 \<longrightarrow> accepted junk n (fst y)"
      and e: "(let (ws, st) = rand_words n st
        in Option.bind (Rab junk (candidate n ws) st) (\<lambda>(r, st).
           if r then Some (candidate n ws, st) else f junk n st)) = Some y"
    obtain ws st1 where ws: "rand_words n st = (ws, st1)" by fastforce
    obtain r st2 where r: "Rab junk (candidate n ws) st1 = Some (r, st2)"
      using e ws by (auto elim!: bind_SomeE)
    show "1 \<le> n \<longrightarrow> n \<le> 66 \<longrightarrow> accepted junk n (fst y)"
    proof (cases r)
      case True
      then have "y = (candidate n ws, st2)" using e ws r by simp
      with r True candidate_shape [OF length_rand_words [OF ws]] show ?thesis
        unfolding accepted_def by (metis One_nat_def fst_conv)
    next
      case False
      with e ws r have "f junk n st2 = Some y" by simp
      then show ?thesis by (rule IH)
    qed
  qed
  with assms show ?thesis by simp
qed

lemma GetPrime_accepted: "GetPrime junk k st = Some (x, st') \<Longrightarrow> accepted junk k x \<and> 1 \<le> k \<and> k \<le> 66"
  by (auto simp: GetPrime_def split: if_splits intro: prime_loop_accepted)

section \<open>What \<open>RSA_Create\<close> returns\<close>

text \<open>The equation between the exponents and the modulus of a key, for the two factors \<open>p\<close> and
  \<open>q\<close>.\<close>

definition key_equation :: "nat \<Rightarrow> nat \<Rightarrow> nat \<Rightarrow> nat \<Rightarrow> nat \<Rightarrow> bool" where
  "key_equation p q n e d \<longleftrightarrow>
     n = p * q \<and> e \<le> (p - 1) * (q - 1) \<and>
     e * d mod ((p - 1) * (q - 1)) = gcd d ((p - 1) * (q - 1)) mod ((p - 1) * (q - 1))"

lemma dvd_int_diff_mod: "int m dvd int a - int b \<Longrightarrow> a mod m = b mod m"
  by (metis mod_eq_dvd_iff of_nat_eq_iff of_nat_mod)

definition key_result :: "SBigInt \<Rightarrow> nat \<Rightarrow> nat \<Rightarrow> SBigInt \<Rightarrow> SBigInt \<Rightarrow> bool" where
  "key_result junk k d N E \<longleftrightarrow>
     (\<exists>P Q. accepted junk k P \<and> accepted junk k Q \<and> key_equation (big_val P) (big_val Q) (big_val N) (big_val E) d) \<and>
     big_normal N \<and> big_normal E \<and> m_iLength32 N = 2 * k \<and> m_iLength32 E = 2 * k"

lemma product_length:
  assumes "prime_shape k P" "prime_shape k Q" "1 \<le> k" "big_normal N" "big_val N = big_val P * big_val Q"
  shows "m_iLength32 N = 2 * k"
proof (rule antisym)
  have "big_val N < 2 ^ (32 * k) * 2 ^ (32 * k)"
    unfolding assms(5) using assms(1,2) big_val_less [of P] big_val_less [of Q]
    by (intro mult_strict_mono) (auto simp: prime_shape_def)
  then have "big_val N < 2 ^ (32 * (2 * k))" by (simp only: power_add [symmetric] mult_2 add_mult_distrib2)
  then show "m_iLength32 N \<le> 2 * k" using assms(3,4) by (intro normal_len_bound) simp_all
  show "2 * k \<le> m_iLength32 N"
  proof (rule ccontr)
    assume "\<not> 2 * k \<le> m_iLength32 N"
    then have "(2 :: nat) ^ (32 * m_iLength32 N) \<le> 2 ^ ((32 * k - 1) + (32 * k - 1))" using assms(3)
      by (intro power_increasing) auto
    also have "\<dots> \<le> big_val N"
      unfolding assms(5) power_add using assms(1,2) by (intro mult_le_mono) (simp_all add: prime_shape_def)
    finally show False using big_val_less [of N] by simp
  qed
qed

lemma create_loop_key:
  assumes "create_loop junk k pubExp st = Some (N, E, st')" "k \<le> 32" "length (m_ulValue junk) = 66" "length pubExp = 4"
  shows "1 \<le> k \<and> key_result junk k (os2ip pubExp) N E"
proof -
  have "k \<le> 32 \<longrightarrow> length (m_ulValue junk) = 66 \<longrightarrow> length pubExp = 4 \<longrightarrow>
    1 \<le> k \<and> key_result junk k (os2ip pubExp) (fst (N, E, st')) (fst (snd (N, E, st')))"
  proof (rule create_loop.raw_induct [OF _ assms(1)], intro impI)
    fix f junk k pubExp st y
    assume IH: "\<And>junk k pubExp st y. f junk k pubExp st = Some y \<Longrightarrow> k \<le> 32 \<longrightarrow> length (m_ulValue junk) = 66 \<longrightarrow>
        length pubExp = 4 \<longrightarrow> 1 \<le> k \<and> key_result junk k (os2ip pubExp) (fst y) (fst (snd y))"
      and k: "k \<le> 32" "length (m_ulValue junk) = 66" "length pubExp = 4"
      and e: "Option.bind (SetParameter_char_openssl pubExp 4) (\<lambda>(D, pubExp).
        Option.bind (GetPrime junk k st) (\<lambda>(P, st).
        Option.bind (GetPrime junk k st) (\<lambda>(Q, st).
        Option.bind (create_key D P Q junk) (\<lambda>(N, E).
        if m_iLength32 E < 2 * k then f junk k pubExp st else Some (N, E, st))))) = Some y"
    obtain D where D: "SetParameter_char_openssl pubExp 4 = Some (D, pubExp)" "big_normal D" "big_val D = os2ip pubExp"
      by (rule exponent4_load [OF k(3)])
    obtain P st1 where P: "GetPrime junk k st = Some (P, st1)" using e D by (auto elim!: bind_SomeE)
    obtain Q st2 where Q: "GetPrime junk k st1 = Some (Q, st2)" using e D P by (auto elim!: bind_SomeE)
    have a: "accepted junk k P" "accepted junk k Q" and k1: "1 \<le> k" using GetPrime_accepted P Q by blast+
    then have shapes: "prime_shape k P" "prime_shape k Q" by (simp_all add: accepted_def)
    have "big_val D < 2 ^ 32" using os2ip_less [of pubExp] k(3) D(3) by simp
    then obtain N E where r: "create_key D P Q junk = Some (N, E)" "big_normal N" "big_normal E"
      "big_val N = big_val P * big_val Q" "big_val E \<le> (big_val P - 1) * (big_val Q - 1)"
      "int ((big_val P - 1) * (big_val Q - 1)) dvd
         int (big_val E) * int (big_val D) - int (gcd (big_val D) ((big_val P - 1) * (big_val Q - 1)))"
      by (rule create_key_shapes [OF shapes k1 k(1) D(2) _ k(2)])
    show "1 \<le> k \<and> key_result junk k (os2ip pubExp) (fst y) (fst (snd y))"
    proof (cases "m_iLength32 E < 2 * k")
      case True
      then have "f junk k pubExp st2 = Some y" using e D P Q r(1) by simp
      then show ?thesis using IH k by blast
    next
      case False
      have len: "m_iLength32 N = 2 * k" by (rule product_length [OF shapes k1 r(2,4)])
      have "big_val E \<le> big_val N" unfolding r(4) by (rule le_trans [OF r(5)]) (intro mult_le_mono diff_le_self)
      then have "m_iLength32 E = 2 * k" using False big_normal_len_mono [OF r(3), of N] r(2) len by simp
      moreover have "key_equation (big_val P) (big_val Q) (big_val N) (big_val E) (os2ip pubExp)"
        unfolding key_equation_def D(3) [symmetric]
        by (intro conjI r(4,5) dvd_int_diff_mod) (use r(6) in simp)
      moreover have "y = (N, E, st2)" using e D P Q r(1) False by simp
      ultimately show ?thesis using a k1 r(2,3) len by (auto simp: key_result_def)
    qed
  qed
  with assms show ?thesis by simp
qed

lemma copy_words_full:
  assumes "big_wf x" "m_iLength32 x = k" "length dst = 4 * k"
  shows "copy_words dst x k (4 * k) = Some (i2osp (4 * k) (big_val x))"
  using store_words_full [OF assms] assms(2) by (simp add: copy_words_def store_words_def)

lemma RSA_Create_key_aux:
  assumes "k \<le> 32" "length (m_ulValue junk) = 66" "length pubExp = 4" "length mod_N = 8 * k" "length prvExp = 8 * k"
    and "RSA_Create junk st pubExp (64 * k) (Some mod_N) (Some prvExp) = Some (ok, m, e, st')"
  obtains Nb Eb P Q where "ok" "m = Some Nb" "e = Some Eb" "length Nb = 8 * k" "length Eb = 8 * k"
    "accepted junk k P" "accepted junk k Q"
    "key_equation (big_val P) (big_val Q) (os2ip Nb) (os2ip Eb) (os2ip pubExp)"
    "2 ^ (32 * (2 * k - 1)) \<le> os2ip Nb" "2 ^ (32 * (2 * k - 1)) \<le> os2ip Eb"
proof -
  obtain N E st1 where l: "create_loop junk k pubExp st = Some (N, E, st1)"
    using assms(6) by (auto simp: RSA_Create_def elim!: bind_SomeE)
  have r: "1 \<le> k" "key_result junk k (os2ip pubExp) N E" using create_loop_key [OF l assms(1-3)] by blast+
  then have n: "big_wf N" "big_wf E" "m_iLength32 N = 2 * k" "m_iLength32 E = 2 * k" "big_normal N" "big_normal E"
    by (simp_all add: key_result_def)
  obtain P Q where PQ: "accepted junk k P" "accepted junk k Q"
    "key_equation (big_val P) (big_val Q) (big_val N) (big_val E) (os2ip pubExp)"
    using r(2) by (auto simp: key_result_def)
  have fits: "big_val N < 256 ^ (8 * k)" "big_val E < 256 ^ (8 * k)"
    using big_val_less [of N] big_val_less [of E] n by (simp_all add: power_mult [symmetric] power_mult)
  have four: "4 * (2 * k) = 8 * k" by simp
  have "copy_words prvExp E (2 * k) (8 * k) = Some (i2osp (8 * k) (big_val E))"
    "copy_words mod_N N (2 * k) (8 * k) = Some (i2osp (8 * k) (big_val N))"
    using copy_words_full [OF n(2,4), of prvExp] copy_words_full [OF n(1,3), of mod_N] assms(4,5) four by simp_all
  then have e: "ok" "m = Some (i2osp (8 * k) (big_val N))" "e = Some (i2osp (8 * k) (big_val E))"
    using assms(6) l n by (auto simp: RSA_Create_def)
  have "2 ^ (32 * (2 * k - 1)) \<le> big_val N" "2 ^ (32 * (2 * k - 1)) \<le> big_val E"
    using big_normal_ge [OF n(5)] big_normal_ge [OF n(6)] n(3,4) by simp_all
  then show ?thesis
    by (intro that [OF e _ _ PQ(1,2)]) (simp_all add: PQ(3) os2ip_i2osp fits)
qed

section \<open>Properties\<close>

text \<open>
  C8: the extended Euclidean algorithm of key generation always returns, and its result is the inverse of
  the exponent modulo the second argument, up to their greatest common divisor.
\<close>

theorem Euc_inverse:
  assumes "big_normal D" "big_normal N" "big_val D < big_val N" "m_iLength32 N \<le> 64" "length (m_ulValue junk) = BIGINT_MAXLEN"
  shows "\<exists>E. Euc D N junk = Some E \<and> big_normal E \<and> big_val E \<le> big_val N \<and>
    big_val E * big_val D mod big_val N = gcd (big_val D) (big_val N) mod big_val N"
proof -
  have "big_val N < 2 ^ (32 * m_iLength32 N)" by (rule big_val_less)
  also have "\<dots> \<le> 2 ^ (32 * 64)" using assms(4) by (intro power_increasing) auto
  finally obtain E where E: "Euc D N junk = Some E" "big_normal E" "big_val E \<le> big_val N"
    "int (big_val N) dvd int (big_val E) * int (big_val D) - int (gcd (big_val D) (big_val N))"
    using Euc_correct [OF assms(1-3)] assms(5) by auto
  then have "int (big_val N) dvd int (big_val E * big_val D) - int (gcd (big_val D) (big_val N))" by simp
  then have "big_val E * big_val D mod big_val N = gcd (big_val D) (big_val N) mod big_val N"
    by (rule dvd_int_diff_mod)
  with E show ?thesis by blast
qed

theorem Euc_inverse_witness:
  "\<exists>E. Euc (Mov_long 17) (Mov_long 3120) big_zero = Some E \<and> big_normal E \<and> big_val E \<le> big_val (Mov_long 3120) \<and>
    big_val E * big_val (Mov_long 17) mod big_val (Mov_long 3120) =
      gcd (big_val (Mov_long 17)) (big_val (Mov_long 3120)) mod big_val (Mov_long 3120)"
  by (rule Euc_inverse) (simp_all add: Mov_long_val Mov_long_len big_zero_def)

text \<open>
  C5: for two different odd primes and an exponent prime to their totient, the key derived by \<open>RSA_Create\<close>
  exists and inverts: raising to the public and the private exponent gives back every number below the modulus.
\<close>

theorem create_key_inverts:
  assumes "big_normal P" "big_normal Q" "m_iLength32 P + m_iLength32 Q \<le> 64"
    and "prime_number (big_val P)" "prime_number (big_val Q)" "big_val P \<noteq> big_val Q" "odd (big_val P)" "odd (big_val Q)"
    and "big_normal D" "big_val D < (big_val P - 1) * (big_val Q - 1)" "coprime (big_val D) ((big_val P - 1) * (big_val Q - 1))"
    and "length (m_ulValue junk) = BIGINT_MAXLEN"
  shows "\<exists>N E. create_key D P Q junk = Some (N, E) \<and> big_val N = big_val P * big_val Q \<and>
    (\<forall>m<big_val N. m ^ (big_val E * big_val D) mod big_val N = m)"
proof -
  let ?t = "(big_val P - 1) * (big_val Q - 1)"
  have one: "1 < big_val P" "1 < big_val Q" using assms(4,5) by (simp_all add: prime_number_def)
  obtain N E where r: "create_key D P Q junk = Some (N, E)" "big_val N = big_val P * big_val Q"
    "int ?t dvd int (big_val E) * int (big_val D) - int (gcd (big_val D) ?t)"
    by (rule create_key_correct [OF assms(1,7) one(1) assms(2,8) one(2) assms(3,9,10)]) (use assms(12) in auto)
  have three: "3 \<le> big_val P" "3 \<le> big_val Q" using one assms(7,8) by presburger+
  then have t: "2 * 2 \<le> ?t" by (intro mult_le_mono) simp_all
  have g: "gcd (big_val D) ?t = 1" using assms(11) by simp
  have "int ?t dvd int (big_val E * big_val D) - int 1" using r(3) unfolding g by simp
  then have ed: "big_val E * big_val D mod ?t = 1" using dvd_int_diff_mod t by fastforce
  obtain n where "big_val E * big_val D = 1 + ?t * n"
    using ed by (metis add.commute mult_div_mod_eq)
  then have "\<forall>m<big_val N. m ^ (big_val E * big_val D) mod big_val N = m"
    unfolding r(2) using key_power [OF assms(4-6)] by blast
  with r show ?thesis by blast
qed

lemma prime_61_53: "prime_number 61" "prime_number 53"
proof -
  have "\<not> d dvd 61" "\<not> d dvd 53" if "2 \<le> d" "d \<le> 7" for d :: nat
  proof -
    have "d \<in> {2, 3, 4, 5, 6, 7}" using that by auto
    then show "\<not> d dvd 61" "\<not> d dvd 53" by auto
  qed
  then show "prime_number 61" "prime_number 53" by (auto intro!: prime_by_trial [where m = 7])
qed

theorem create_key_inverts_witness:
  "\<exists>N E. create_key (Mov_long 17) (Mov_long 61) (Mov_long 53) big_zero = Some (N, E) \<and>
    big_val N = big_val (Mov_long 61) * big_val (Mov_long 53) \<and>
    (\<forall>m<big_val N. m ^ (big_val E * big_val (Mov_long 17)) mod big_val N = m)"
proof (rule create_key_inverts)
  have "coprime 17 (3120 :: nat)" by (simp add: coprime_iff_gcd_eq_1 gcd_non_0_nat)
  then show "coprime (big_val (Mov_long 17)) ((big_val (Mov_long 61) - 1) * (big_val (Mov_long 53) - 1))"
    by (simp add: Mov_long_val)
qed (simp_all add: Mov_long_val Mov_long_len big_zero_def prime_61_53)

text \<open>
  C6: whatever \<open>RSA_Create\<close> stores as modulus and private exponent satisfies the key equation for two numbers
  that \<open>Rab\<close> accepted, and has the full length, so that the other entry points accept it as a key.
\<close>

theorem RSA_Create_key:
  assumes "k \<le> 32" "length (m_ulValue junk) = BIGINT_MAXLEN" "length pubExp = 4" "length mod_N = 8 * k" "length prvExp = 8 * k"
  shows "case RSA_Create junk st pubExp (64 * k) (Some mod_N) (Some prvExp) of None \<Rightarrow> True
    | Some (ok, m, e, st') \<Rightarrow> ok \<and> (\<exists>Nb Eb P Q. m = Some Nb \<and> e = Some Eb \<and> key_bytes Nb (2 * k) \<and> length Eb = 8 * k \<and>
        2 ^ (32 * (2 * k - 1)) \<le> os2ip Eb \<and> accepted junk k P \<and> accepted junk k Q \<and>
        key_equation (big_val P) (big_val Q) (os2ip Nb) (os2ip Eb) (os2ip pubExp))"
proof (cases "RSA_Create junk st pubExp (64 * k) (Some mod_N) (Some prvExp)")
  case (Some r)
  obtain ok m e st' where r: "r = (ok, m, e, st')" by (cases r)
  obtain Nb Eb P Q where a: "ok" "m = Some Nb" "e = Some Eb" "length Nb = 8 * k" "length Eb = 8 * k"
    "accepted junk k P" "accepted junk k Q"
    "key_equation (big_val P) (big_val Q) (os2ip Nb) (os2ip Eb) (os2ip pubExp)"
    "2 ^ (32 * (2 * k - 1)) \<le> os2ip Nb" "2 ^ (32 * (2 * k - 1)) \<le> os2ip Eb"
    by (rule RSA_Create_key_aux [OF assms(1) _ assms(3-5), of junk st ok m e st']) (use assms(2) Some r in auto)
  have "1 \<le> k" using create_loop_key [of junk k pubExp st] assms Some by (auto simp: RSA_Create_def elim!: bind_SomeE)
  then have "(2 :: nat) ^ 1 \<le> 2 ^ (32 * (2 * k - 1))" by (intro power_increasing) auto
  then have "1 < os2ip Nb" using a(9) by simp
  then have "key_bytes Nb (2 * k)" using a(4,9) \<open>1 \<le> k\<close> assms(1) by (simp add: key_bytes_def)
  then show ?thesis using a Some r by auto
qed simp

theorem RSA_Create_key_witness:
  "case RSA_Create big_zero rand_init [0, 1, 0, 1] (64 * 2) (Some (replicate 16 0)) (Some (replicate 16 0)) of None \<Rightarrow> True
    | Some (ok, m, e, st') \<Rightarrow> ok \<and> (\<exists>Nb Eb P Q. m = Some Nb \<and> e = Some Eb \<and> key_bytes Nb (2 * 2) \<and> length Eb = 8 * 2 \<and>
        2 ^ (32 * (2 * 2 - 1)) \<le> os2ip Eb \<and> accepted big_zero 2 P \<and> accepted big_zero 2 Q \<and>
        key_equation (big_val P) (big_val Q) (os2ip Nb) (os2ip Eb) (os2ip [0, 1, 0, 1]))"
  by (rule RSA_Create_key) (simp_all add: big_zero_def)

end
