(* ===== verification/RabProps.thy ===== *)
theory RabProps
  imports RsaKeygenProps
begin

text \<open>
  The primality test \<open>Rab\<close>.  Its trial division is division by every odd prime up to 4001 and
  its rounds are strong pseudo-prime tests, so it accepts every larger prime, whatever numbers
  the generator gives as bases.  The test compares a result with one word by word: that a
  power equal to one never carries a leading zero word is part of the proof.
\<close>

section \<open>A result equal to one has one word\<close>

definition tidy :: "SBigInt \<Rightarrow> bool" where
  "tidy z \<longleftrightarrow> (big_val z = 1 \<longrightarrow> m_iLength32 z = 1)"

lemma normal_tidy: "big_normal z \<Longrightarrow> tidy z"
  unfolding tidy_def using normal_len_bound [of z 1] big_wf_len [of z] by force

lemma Mod_bigint_tidy:
  assumes "big_wf a" "big_normal b" "0 < big_val b" "m_iLength32 b < 66" "Mod_bigint a b = Some z"
  shows "z = a \<or> big_normal z"
proof -
  consider (small) "Cmp a b < 0" | (top) "\<not> Cmp a b < 0" "same_top a b"
    | (step) "\<not> Cmp a b < 0" "\<not> same_top a b" by blast
  then show ?thesis
  proof cases
    case small
    then show ?thesis using assms(1,5) unfolding Mod_bigint_def by (subst (asm) Mod_loop.simps) simp
  next
    case top
    then show ?thesis
      using assms(1,5) same_top_diff [OF assms(1-3) top] unfolding Mod_bigint_def
      by (subst (asm) Mod_loop.simps) (auto simp del: same_top_def)
  next
    case step
    obtain q l where q: "quotient_digit a b = (q, l)" by fastforce
    obtain s t where t: "Mul_bigint b (Mov_long q) = Some s" "shl_words l s = Some t" "big_wf t"
      "big_val t = unat q * big_val b * 2 ^ (32 * l)" "big_val t \<le> big_val a" "m_iLength32 t \<le> m_iLength32 a"
      by (rule subtrahend_correct [OF assms(1-4) step q])
    have e: "Option.bind (Sub_bigint a t) (\<lambda>out. Mod_loop out b) = Some z"
      using assms(1,5) step q t(1,2) unfolding Mod_bigint_def by (subst (asm) Mod_loop.simps) simp
    then obtain y where y: "Sub_bigint a t = Some y" "Mod_loop y b = Some z" by (auto elim!: bind_SomeE)
    have "big_normal y" by (rule Sub_bigint_cases [OF assms(1) t(3,6,5)]) (use y in auto)
    with Mod_loop_normal [OF this assms(2-4)] y show ?thesis by auto
  qed
qed

lemma product_one: "a * b = 1 \<Longrightarrow> a = 1 \<and> b = (1 :: nat)"
  by simp

lemma mulmod_loop_tidy:
  assumes "small sN x" "small sN y" "modulus sN" "1 \<le> n" "n \<le> m_iLength32 y" "small sN t"
    "big_val t = big_val x * top_words (m_ulValue y) (m_iLength32 y) n mod big_val sN"
    "mulmod_loop x y sN n t = Some r" "tidy x" "tidy y" "n = m_iLength32 y \<longrightarrow> tidy t"
  shows "tidy r"
  using assms
proof (induction x y sN n t rule: mulmod_loop.induct)
  case (1 x y sN n t)
  let ?l = "m_iLength32 y" and ?w = "ucast (m_ulValue y ! (m_iLength32 y - n - 1)) :: u64"
  show ?case
  proof (cases "n < ?l")
    case True
    obtain t1 where t1: "shift_up t = Some t1" "big_wf t1" "big_val t1 = big_val t * 2 ^ 32"
      "m_iLength32 t1 = m_iLength32 t + 1"
      by (rule shift_up_correct [of t]) (use "1.prems"(6) in \<open>auto simp: small_def\<close>)
    have w: "unat ?w = unat (m_ulValue y ! (?l - Suc n))" by (simp add: unat_ucast_32_64)
    obtain t2 where t2: "Mul_long x ?w = Some t2" "big_wf t2" "big_val t2 = big_val x * unat ?w"
      "m_iLength32 t2 \<le> m_iLength32 x + 1"
      by (rule Mul_long_correct [of x ?w]) (use "1.prems"(1) in \<open>auto simp: small_def unat_ucast_32_64\<close>)
    obtain t3 where t3: "Add_bigint t1 t2 = Some t3" "big_wf t3" "big_val t3 = big_val t1 + big_val t2"
      by (rule Add_bigint_correct [of t1 t2]) (use t1 t2 "1.prems" in \<open>auto simp: small_def\<close>)
    obtain t4 where t4: "Mod_bigint t3 sN = Some t4" "mulmod_loop x y sN (n + 1) t4 = Some r"
      using "1.prems"(8) True t1(1) t2(1) t3(1)
      by (subst (asm) mulmod_loop.simps) (auto simp: bind_eq_Some_conv)
    have N: "big_normal sN" "0 < big_val sN" "m_iLength32 sN < 66" using "1.prems"(3) by (simp_all add: modulus_def)
    have "small sN t4 \<and> big_val t4 = big_val t3 mod big_val sN"
      by (rule Mod_bigint_cases [of t3 sN]) (use t3 t4 "1.prems"(3) in \<open>auto simp: modulus_def small_def\<close>)
    moreover have "big_val t3 mod big_val sN =
        big_val x * top_words (m_ulValue y) ?l (n + 1) mod big_val sN"
      using horner_mod [OF "1.prems"(7), of "2 ^ 32" "unat ?w"]
      by (simp only: t3(3) t1(3) t2(3) w top_words.simps Suc_eq_plus1 [symmetric])
    ultimately have t4': "small sN t4"
      "big_val t4 = big_val x * top_words (m_ulValue y) ?l (n + 1) mod big_val sN" by simp_all
    have last: "n + 1 = ?l \<longrightarrow> tidy t4"
    proof (rule impI, rule ccontr)
      assume l: "n + 1 = ?l" and nt: "\<not> tidy t4"
      from nt have "\<not> big_normal t4" using normal_tidy by blast
      with Mod_bigint_tidy [OF t3(2) N t4(1)] have "t4 = t3" by blast
      with nt have v: "big_val t * 2 ^ 32 + big_val x * unat ?w = 1" by (simp add: tidy_def t3(3) t1(3) t2(3))
      then have tv: "big_val t = 0" by (cases "big_val t") simp_all
      with v have xw: "big_val x = 1" "unat ?w = 1" using product_one by simp_all
      have tl: "top_words (m_ulValue y) ?l n = sval ?l (m_ulValue y) div 2 ^ (32 * (?l - n))"
        by (rule top_words_div) (rule "1.prems"(5))
      have "sval ?l (m_ulValue y) < 2 ^ (32 * n) * 2 ^ (32 * (?l - n))"
        using big_val_less [of y] True by (simp add: big_val_def power_add [symmetric] distrib_left [symmetric])
      then have "top_words (m_ulValue y) ?l n < 2 ^ (32 * n)" unfolding tl by (rule less_mult_imp_div_less)
      also have "(2 :: nat) ^ (32 * n) \<le> 2 ^ (32 * (m_iLength32 sN - 1))"
        using True "1.prems"(2) by (intro power_increasing) (auto simp: small_def)
      also have "\<dots> \<le> big_val sN"
        using big_normal_ge [OF N(1)] True "1.prems"(2,4) by (intro big_normal_ge [OF N(1)]) (auto simp: small_def)
      finally have "top_words (m_ulValue y) ?l n = 0" using "1.prems"(7) tv xw(1) by simp
      then have "top_words (m_ulValue y) ?l (Suc n) = 1" using xw(2) w by simp
      then have "top_words (m_ulValue y) ?l ?l = 1" using l by (simp only: Suc_eq_plus1)
      then have "big_val y = 1" by (simp only: top_words_all big_val_def)
      with "1.prems"(10) have "?l = 1" by (simp add: tidy_def)
      with True "1.prems"(4) show False by simp
    qed
    have "n + 1 \<le> ?l" "1 \<le> n + 1" using True by simp_all
    then show ?thesis
      by (intro "1.IH" [OF True t1(1) t2(1) t3(1) t4(1) "1.prems"(1-3) _ _ t4' t4(2) "1.prems"(9,10) last])
  next
    case False
    then have "n = ?l" "r = t" using "1.prems"(5,8) by (simp_all add: mulmod_loop.simps)
    with "1.prems"(11) show ?thesis by simp
  qed
qed

lemma mulmod_tidy:
  assumes "modulus sN" "small sN x" "small sN y" "mulmod sN x y = Some r" "tidy x" "tidy y"
  shows "tidy r"
proof -
  let ?w = "ucast (m_ulValue y ! (m_iLength32 y - 1)) :: u64"
  have w: "unat ?w = top_words (m_ulValue y) (m_iLength32 y) 1" by (simp add: unat_ucast_32_64)
  obtain t1 where t1: "Mul_long x ?w = Some t1" "big_wf t1" "big_val t1 = big_val x * unat ?w"
    "m_iLength32 x \<le> m_iLength32 t1" "m_iLength32 t1 \<le> m_iLength32 x + 1"
    "m_iLength32 t1 = m_iLength32 x + 1 \<longrightarrow> 2 ^ (32 * m_iLength32 x) \<le> big_val t1"
    by (rule Mul_long_correct [of x ?w]) (use assms(2) in \<open>auto simp: small_def unat_ucast_32_64\<close>)
  have "tidy t1"
    unfolding tidy_def
  proof
    assume "big_val t1 = 1"
    then have "big_val x = 1" using t1(3) product_one by simp
    then have x1: "m_iLength32 x = 1" using assms(5) by (simp add: tidy_def)
    with t1(4-6) \<open>big_val t1 = 1\<close> show "m_iLength32 t1 = 1" by (cases "m_iLength32 t1 = 2") auto
  qed
  obtain t where t: "Mod_bigint t1 sN = Some t" "mulmod_loop x y sN 1 t = Some r"
    using assms(4) t1(1) by (auto simp: mulmod_def bind_eq_Some_conv)
  have "small sN t \<and> big_val t = big_val t1 mod big_val sN"
    by (rule Mod_bigint_cases [of t1 sN]) (use t1 t assms(1) in \<open>auto simp: modulus_def small_def\<close>)
  moreover have "tidy t"
    using Mod_bigint_tidy [OF t1(2) _ _ _ t(1)] assms(1) \<open>tidy t1\<close> normal_tidy by (auto simp: modulus_def)
  moreover have "1 \<le> m_iLength32 y" using assms(3) by (simp add: small_def big_wf_def)
  ultimately show ?thesis
    using mulmod_loop_tidy [OF assms(2,3,1) _ _ _ _ t(2) assms(5,6)] t1(3) w by simp
qed

interpretation mtidy: modular_product "mulmod sN" big_val "\<lambda>x. modulus sN \<and> small sN x \<and> tidy x" "big_val sN"
  for sN
  by unfold_locales (use mulmod_sound mulmod_tidy in blast)

lemma RsaTrans_tidy:
  assumes "modulus sN" "small sN x" "big_normal x" "big_normal sE" "0 < big_val sE" "RsaTrans x sE sN = Some r"
  shows "small sN r \<and> tidy r \<and> big_val r mod big_val sN = big_val x ^ big_val sE mod big_val sN \<and>
    (r = x \<and> big_val sE = 1 \<or> big_val r < big_val sN)"
proof -
  define k where "k = m_iLength32 sE * 32 - 32 + num_bits (ucast (m_ulValue sE ! (m_iLength32 sE - 1)))"
  note top = exponent_top [OF assms(4,5), folded k_def]
  have l: "sqm_loop (mulmod sN) x (big_val sE) (k - 1) x = Some r"
    using assms(3,6) rsa_loop_sqm [OF top(2)] by (simp add: RsaTrans_def Let_def k_def)
  then have r: "(modulus sN \<and> small sN r \<and> tidy r) \<and> big_val r mod big_val sN = big_val x ^ big_val sE mod big_val sN \<and>
    (r = x \<or> big_val r < big_val sN \<or> big_val sN = 0)"
    by (rule mtidy.sqm_loop_sound [rotated 3]) (use assms(1-3) top(1) normal_tidy in simp_all)
  moreover have "big_val r < big_val sN" if e1: "big_val sE \<noteq> 1"
  proof -
    have "k - 1 \<noteq> 0" using top(1) e1 by (metis div_by_1 power_0)
    then obtain i where i: "k - 1 = Suc i" by (cases "k - 1") auto
    obtain s q where s: "mulmod sN x x = Some s" "(if bit (big_val sE) i then mulmod sN x s else Some s) = Some q"
      "sqm_loop (mulmod sN) x (big_val sE) i q = Some r"
      using l i by (auto simp: bind_eq_Some_conv)
    have okx: "modulus sN \<and> small sN x \<and> tidy x" using assms normal_tidy by blast
    have "big_val x mod big_val sN = big_val x ^ (big_val sE div 2 ^ Suc i) mod big_val sN"
      using top(1) i by simp
    from mtidy.square_step [OF okx okx this s(1,2)]
    have q: "modulus sN \<and> small sN q \<and> tidy q" "big_val q = big_val x ^ (big_val sE div 2 ^ i) mod big_val sN" by blast+
    have N: "0 < big_val sN" using assms(1) by (simp add: modulus_def)
    have "r = q \<or> big_val r < big_val sN \<or> big_val sN = 0"
      using mtidy.sqm_loop_sound [OF okx q(1) _ s(3)] q(2) by simp
    with q(2) N show ?thesis by auto
  qed
  ultimately show ?thesis using assms(1) by (auto simp: modulus_def)
qed

section \<open>Halving\<close>

lemma top_bit_iff: "bit (0x80000000 :: u32) n \<longleftrightarrow> n = 31"
proof -
  have "(0x80000000 :: u32) = 2 ^ 31" by simp
  then show ?thesis by (simp only: bit_exp_iff) auto
qed

definition halved :: "u32 \<Rightarrow> u32 \<Rightarrow> u32" where
  "halved w v = (if v AND 1 \<noteq> 0 then drop_bit 1 w OR 0x80000000 else drop_bit 1 w)"

lemma unat_halved: "unat (halved w v) = unat w div 2 + 2 ^ 31 * (unat v mod 2)"
proof -
  have d: "unat (drop_bit 1 w) = unat w div 2" by (simp add: drop_bit_eq_div unat_div_distrib)
  show ?thesis
  proof (cases "odd (unat v)")
    case True
    have "drop_bit 1 w + 0x80000000 = drop_bit 1 w OR 0x80000000"
    proof (rule disjunctive_add, unfold top_bit_iff)
      show "\<not> bit (drop_bit 1 w) n \<or> n \<noteq> 31" for n by (auto simp: bit_drop_bit_eq dest: bit_imp_le_length)
    qed
    moreover have "unat w div 2 + 2 ^ 31 < 2 ^ 32" using less_mult_imp_div_less [of "unat w" "2 ^ 31" 2] by simp
    then have "unat (drop_bit 1 w + 0x80000000) = unat w div 2 + 2 ^ 31"
      using unat_add_lem [of "drop_bit 1 w" "0x80000000"] d by simp
    ultimately show ?thesis using True by (simp add: halved_def odd_low_word odd_iff_mod_2_eq_one)
  next
    case False
    then have "halved w v = drop_bit 1 w" by (simp add: halved_def odd_low_word)
    with False d show ?thesis by (simp only: even_iff_mod_2_eq_zero not_not)
  qed
qed

lemma halve_loop_Suc:
  "j < length xs \<Longrightarrow> halve_loop j (Suc n) xs = halve_loop (j + 1) n (xs[j := halved (xs ! j) (xs ! (j + 1))])"
  by (simp add: Let_def halved_def)

declare halve_loop.simps(2) [simp del]

lemma halve_loop_nth:
  "j + n < length xs \<Longrightarrow> k < length xs \<Longrightarrow> halve_loop j n xs ! k =
     (if j \<le> k \<and> k < j + n then halved (xs ! k) (xs ! (k + 1)) else xs ! k)"
proof (induction n arbitrary: j xs)
  case (Suc n)
  then show ?case by (simp add: halve_loop_Suc) (auto simp: nth_list_update not_less_eq_eq)
qed auto

lemma length_halve_loop [simp]: "length (halve_loop j n xs) = length xs"
  by (induction n arbitrary: j xs) (simp_all add: halve_loop.simps Let_def)

lemma sval_halved:
  "m < length xs \<Longrightarrow> m \<le> n \<Longrightarrow> n < length xs \<Longrightarrow>
   2 * sval m (halve_loop 0 n xs) + unat (xs ! 0) mod 2 = sval m xs + 2 ^ (32 * m) * (unat (xs ! m) mod 2)"
proof (induction m)
  case (Suc m)
  have u: "unat (halve_loop 0 n xs ! m) = unat (xs ! m) div 2 + 2 ^ 31 * (unat (xs ! Suc m) mod 2)"
    using Suc.prems by (simp add: halve_loop_nth unat_halved)
  have "2 * (u div 2 + 2 ^ 31 * v) * p + (u mod 2) * p = u * p + 2 ^ 32 * p * v" for u v p :: nat
  proof -
    have "2 * (u div 2 + 2 ^ 31 * v) * p + (u mod 2) * p = 2 * (u div 2) * p + (u mod 2) * p + 2 ^ 32 * p * v"
      by (simp add: add_mult_distrib add_mult_distrib2)
    also have "2 * (u div 2) * p + (u mod 2) * p = (2 * (u div 2) + u mod 2) * p" by (rule add_mult_distrib [symmetric])
    also have "2 * (u div 2) + u mod 2 = u" by (rule mult_div_mod_eq)
    finally show ?thesis .
  qed
  from this [of "unat (xs ! m)" "unat (xs ! Suc m) mod 2" "2 ^ (32 * m)"] Suc.IH Suc.prems u
  show ?case by (simp add: sval_Suc power_add algebra_simps)
qed simp

lemma halve_correct:
  assumes "big_normal x" "m_iLength32 x < 66" "even (big_val x)" "0 < big_val x"
  obtains z where "halve x = Some z" "big_normal z" "big_val z = big_val x div 2" "m_iLength32 z \<le> m_iLength32 x"
proof -
  define xs n where "xs = m_ulValue x" and "n = m_iLength32 x"
  have w: "big_wf x" using assms(1) by simp
  have l: "length xs = 66" "1 \<le> n" "n < 66" using w assms(2) big_wf_len [OF w] by (simp_all add: xs_def n_def)
  have tail: "xs ! n = 0" using big_wf_tail [OF w, of n] l by (simp add: xs_def n_def)
  have "2 * sval n (halve_loop 0 n xs) + unat (xs ! 0) mod 2 = big_val x"
    using sval_halved [of n xs n] l tail by (simp add: big_val_def xs_def n_def)
  then have v: "sval n (halve_loop 0 n xs) = big_val x div 2" using assms(3) by (auto elim!: evenE) 
  define m where "m = (if halve_loop 0 n xs ! (n - 1) = 0 then n - 1 else n)"
  define z where "z = \<lparr>m_iLength32 = m, m_ulValue = halve_loop 0 n xs\<rparr>"
  have "halve x = Some z" using l by (simp add: halve_def z_def m_def xs_def n_def Let_def)
  have pos: "0 < big_val x div 2" using assms(3,4) by (auto elim!: evenE)
  have m1: "1 \<le> m"
  proof (rule ccontr)
    assume "\<not> 1 \<le> m"
    then have "n = 1" "halve_loop 0 n xs ! 0 = 0" using l by (auto simp: m_def split: if_splits)
    with v pos show False by simp
  qed
  obtain p where p: "n = Suc p" using l by (cases n) auto
  have vz: "big_val z = big_val x div 2"
    using v p by (auto simp: big_val_def z_def m_def sval_Suc)
  have rest: "halve_loop 0 n xs ! k = 0" if "n \<le> k" "k < 66" for k
    using that l big_wf_tail [OF w, of k] by (simp add: halve_loop_nth xs_def n_def)
  have zw: "big_wf z"
    unfolding big_wf_def
  proof (intro conjI allI impI)
    fix i
    assume i: "i < BIGINT_MAXLEN" "m_iLength32 z \<le> i"
    show "m_ulValue z ! i = 0"
    proof (cases "n \<le> i")
      case True
      with rest i show ?thesis by (simp add: z_def)
    next
      case False
      with i have "i = n - 1" "halve_loop 0 n xs ! (n - 1) = 0" by (auto simp: z_def m_def split: if_splits)
      then show ?thesis by (simp add: z_def)
    qed
  qed (use m1 l in \<open>auto simp: z_def m_def\<close>)
  have "big_normal z"
  proof (cases "halve_loop 0 n xs ! (n - 1) = 0")
    case False
    with zw show ?thesis by (simp add: big_normal_def z_def m_def)
  next
    case True
    then have mn: "m = n - 1" "n \<noteq> 1" using m1 by (auto simp: m_def)
    have "2 * 2 ^ (32 * (n - 2)) \<le> (2 :: nat) ^ (32 * (n - 1))"
      unfolding power_Suc [symmetric] using mn m1 by (intro power_increasing) auto
    also have "\<dots> \<le> big_val x" using big_normal_ge [OF assms(1)] mn(2) by (simp add: n_def)
    finally have "2 ^ (32 * (n - 2)) \<le> big_val z" unfolding vz by simp
    then show ?thesis using zw mn by (intro normal_by_value) (simp_all add: z_def numeral_2_eq_2)
  qed
  then show ?thesis
    using that \<open>halve x = Some z\<close> vz by (simp add: z_def m_def n_def split: if_splits)
qed

section \<open>The rounds\<close>

text \<open>A result that is congruent to one passes the comparison with one, and one congruent to minus
  one the comparison with \<open>sN_1\<close>.\<close>

definition is_one :: "SBigInt \<Rightarrow> bool" where
  "is_one t \<longleftrightarrow> m_iLength32 t = 1 \<and> m_ulValue t ! 0 = 1"

lemma tidy_one: "tidy t \<Longrightarrow> big_val t = 1 \<Longrightarrow> is_one t"
proof -
  assume t: "tidy t" "big_val t = 1"
  then have l: "m_iLength32 t = 1" by (simp add: tidy_def)
  with t(2) have "unat (m_ulValue t ! 0) = unat (1 :: u32)" by (simp add: big_val_def)
  then have "m_ulValue t ! 0 = 1" by (rule unsigned_word_eqI)
  with l show ?thesis by (simp add: is_one_def)
qed

lemma minus_one_found:
  assumes "small sN t" "big_normal m" "m_iLength32 m = m_iLength32 sN" "big_val t = big_val m"
  shows "Cmp t m = 0"
proof -
  have "m_iLength32 m \<le> m_iLength32 t"
    by (rule big_normal_len_mono) (use assms in \<open>auto simp: small_def\<close>)
  with assms have "m_iLength32 t = m_iLength32 m" by (simp add: small_def)
  then show ?thesis using assms(4) by (simp add: Cmp_same_length)
qed

lemma rab_halvings_prime:
  assumes sN: "modulus sN" "prime_number (big_val sN)"
    and m: "big_normal sN_1" "m_iLength32 sN_1 = m_iLength32 sN" "big_val sN_1 = big_val sN - 1"
    and A: "big_normal A" "m_iLength32 A \<le> m_iLength32 sN"
    and T: "big_normal T" "m_iLength32 T \<le> 65" "0 < big_val T" "\<And>j. big_val T \<noteq> 2 ^ j"
      "big_val A ^ big_val T mod big_val sN = 1" "even (big_val T) \<or> is_one t"
    and r: "rab_halvings sN sN_1 A T t = Some (mark, t')"
  shows "mark \<or> is_one t'"
  using T r
proof (induction "big_val T" arbitrary: T t rule: less_induct)
  case less
  have w: "big_wf T" using less.prems(1) by simp
  have sA: "small sN A" using A sN(1) by (auto simp: small_def modulus_def)
  show ?case
  proof (cases "m_ulValue T ! 0 AND 1 \<noteq> 0")
    case True
    then have "odd (big_val T)" using low_odd_val [OF w] by simp
    moreover have "t' = t" using less.prems(7) True by (subst (asm) rab_halvings.simps) simp
    ultimately show ?thesis using less.prems(6) by simp
  next
    case False
    have ev: "even (big_val T)"
    proof (rule ccontr)
      assume o: "odd (big_val T)"
      obtain p where p: "m_iLength32 T = Suc p" using big_wf_len [OF w] by (cases "m_iLength32 T") auto
      have "even (sval (Suc n) (m_ulValue T))" for n
        by (induction n) (use False in \<open>simp_all add: odd_low_word sval_Suc [of "Suc _"]\<close>)
      with o p show False by (simp add: big_val_def)
    qed
    obtain h where h: "halve T = Some h" "big_normal h" "big_val h = big_val T div 2" "m_iLength32 h \<le> m_iLength32 T"
      using halve_correct [OF less.prems(1) _ ev less.prems(3)] less.prems(2) by auto
    have two: "2 * big_val h = big_val T" using ev h(3) by simp
    then have hp: "0 < big_val h" "big_val h < big_val T" using less.prems(3) by simp_all
    have no2: "big_val h \<noteq> 2 ^ j" for j
      using less.prems(4) [of "Suc j"] two by auto
    from less.prems(7) False h(1) obtain r where r: "RsaTrans A h sN = Some r"
      "(if Cmp r sN_1 = 0 then Some (True, r) else rab_halvings sN sN_1 A h r) = Some (mark, t')"
      by (subst (asm) rab_halvings.simps) (auto elim!: bind_SomeE)
    have rs: "small sN r" "tidy r" "big_val r mod big_val sN = big_val A ^ big_val h mod big_val sN"
      "big_val r < big_val sN"
      using RsaTrans_tidy [OF sN(1) sA A(1) h(2) hp(1) r(1)] no2 [of 0] by auto
    have sq: "big_val r * big_val r mod big_val sN = 1"
    proof -
      have "big_val r * big_val r mod big_val sN = big_val A ^ big_val h * big_val A ^ big_val h mod big_val sN"
        by (rule square_mod) (rule rs(3))
      also have "\<dots> = big_val A ^ big_val T mod big_val sN" by (simp only: two [symmetric] power_twice)
      finally show ?thesis using less.prems(5) by simp
    qed
    have rv: "big_val r = 1 \<or> big_val r = big_val sN_1"
      using square_root_of_one [OF sN(2) sq] rs(4) m(3) by simp
    show ?thesis
    proof (cases "Cmp r sN_1 = 0")
      case True
      with r(2) show ?thesis by simp
    next
      case False
      with rv minus_one_found [OF rs(1) m(1,2)] have r1: "big_val r = 1" by blast
      then have "is_one r" using tidy_one [OF rs(2)] by blast
      moreover have "big_val A ^ big_val h mod big_val sN = 1" using rs(3,4) r1 by simp
      moreover have "rab_halvings sN sN_1 A h r = Some (mark, t')" using r(2) False by simp
      ultimately show ?thesis using less.hyps [OF hp(2) h(2) _ hp(1) no2, where t = r] h(4) less.prems(2) by simp
    qed
  qed
qed

text \<open>The bases a call draws.\<close>

fun rab_bases :: "nat \<Rightarrow> rand_state \<Rightarrow> u64 list" where
  "rab_bases 0 st = []"
| "rab_bases (Suc i) st = (let (a, st) = rab_base st in a # rab_bases i st)"

definition base_ok :: "SBigInt \<Rightarrow> u64 \<Rightarrow> bool" where
  "base_ok x a \<longleftrightarrow> m_iLength32 (Mov_long a) \<le> m_iLength32 x \<and> \<not> big_val x dvd unat a"

lemma rab_rounds_prime:
  assumes sN: "modulus sN" "prime_number (big_val sN)" "odd (big_val sN)" "\<And>j. big_val sN \<noteq> 2 ^ j + 1"
    and m: "big_normal sN_1" "m_iLength32 sN_1 = m_iLength32 sN" "big_val sN_1 = big_val sN - 1"
    and b: "list_all (base_ok sN) (rab_bases n st)" and r: "rab_rounds n sN sN_1 t st = Some (ok, st')"
  shows "ok"
  using b r
proof (induction n arbitrary: t st)
  case (Suc n)
  obtain a st1 where a: "rab_base st = (a, st1)" by fastforce
  have ok: "base_ok sN a" "list_all (base_ok sN) (rab_bases n st1)" using Suc.prems(1) a by simp_all
  have p: "1 < big_val sN" using sN(1) by (simp add: modulus_def)
  have w: "big_wf sN_1" using m(1) by simp
  obtain mark t' where h: "rab_halvings sN sN_1 (Mov_long a) sN_1 t = Some (mark, t')"
    "(if mark \<or> is_one t' then rab_rounds n sN sN_1 t' st1 else Some (False, st1)) = Some (ok, st')"
    using Suc.prems(2) a w by (auto simp: is_one_def elim!: bind_SomeE)
  have "mark \<or> is_one t'"
  proof (rule rab_halvings_prime [OF sN(1,2) m _ _ m(1) _ _ _ _ _ h(1)])
    show "m_iLength32 (Mov_long a) \<le> m_iLength32 sN" using ok(1) by (simp add: base_ok_def)
    show "m_iLength32 sN_1 \<le> 65" using m(2) sN(1) by (simp add: modulus_def)
    show "0 < big_val sN_1" using m(3) p by simp
    show "big_val sN_1 \<noteq> 2 ^ j" for j using sN(4) [of j] m(3) p by auto
    show "big_val (Mov_long a) ^ big_val sN_1 mod big_val sN = 1"
      unfolding m(3) Mov_long_val by (rule fermat_little [OF sN(2)]) (use ok(1) in \<open>simp add: base_ok_def\<close>)
    show "even (big_val sN_1) \<or> is_one t" using m(3) sN(3) p by simp
  qed simp
  then show ?case using Suc.IH [OF ok(2)] h(2) by simp
qed simp

section \<open>Trial division\<close>

lemma PrimeTable_range: "list_all (\<lambda>p. 2 < unat p \<and> unat p \<le> 4001) PrimeTable"
  unfolding PrimeTable_def by simp

lemma rab_trial_correct:
  assumes "big_wf x" "list_all (\<lambda>p. 2 < unat p \<and> unat p \<le> 4001) ps"
  shows "rab_trial x ps = Some (list_all (\<lambda>p. \<not> unat p dvd big_val x) ps)"
  using assms(2)
proof (induction ps)
  case (Cons p ps)
  obtain r where r: "Mod_long x p = Some r" "unat r = big_val x mod unat p"
    by (rule Mod_long_correct [of x p]) (use Cons.prems assms(1) in auto)
  have "r = 0 \<longleftrightarrow> unat p dvd big_val x"
    using r(2) by (metis dvd_eq_mod_eq_0 unsigned_0 unsigned_word_eqI)
  with r(1) Cons show ?case by simp
qed simp

lemma prime_not_divided:
  assumes "prime_number n" "4001 < n"
  shows "list_all (\<lambda>p. \<not> unat p dvd n) PrimeTable"
  using PrimeTable_range
proof (rule list.pred_mono_strong)
  fix p
  assume p: "2 < unat p \<and> unat p \<le> 4001"
  then have "unat p \<noteq> 1" "unat p \<noteq> n" using assms(2) by auto
  then show "\<not> unat p dvd n" using assms(1) by (auto simp: prime_number_def)
qed

section \<open>Properties\<close>


lemma prime_4003: "prime_number 4003"
proof (rule prime_by_trial [where m = 63])
  have trial: "\<forall>d\<in>set [2..<64]. \<not> d dvd (4003 :: nat)"
    unfolding list_all_iff [symmetric] by (simp add: upt_rec)
  show "\<not> d dvd 4003" if "2 \<le> d" "d \<le> 63" for d :: nat
    by (rule bspec [OF trial], unfold set_upt atLeastLessThan_iff) (use that in linarith)
qed simp_all

definition quiet_seed :: rand_state where
  "quiet_seed = \<lparr>g_seed = 41, read_reg = 0\<rparr>"

definition lcg :: "u32 \<Rightarrow> u32" where
  "lcg s = (s * 1103515245 + 12345) AND 0x7fffffff"

lemma rab_bases_step:
  "lcg s = a \<Longrightarrow> lcg a = b \<Longrightarrow> scast (a * b) = c \<Longrightarrow>
   rab_bases n \<lparr>g_seed = b, read_reg = 0\<rparr> = cs \<Longrightarrow>
   rab_bases (Suc n) \<lparr>g_seed = s, read_reg = 0\<rparr> = c # cs"
  by (simp add: rab_base_def myrand_def lcg_def Let_def)

lemma quiet_bases: "rab_bases 8 quiet_seed = [988427442, 1960980684, 210572222, 2024788424, 605577514, 111610404, 445134582, 1792197600]"
proof -
  have e: "8 = Suc (Suc (Suc (Suc (Suc (Suc (Suc (Suc 0)))))))" by simp
  show ?thesis
    unfolding e quiet_seed_def
    apply (rule rab_bases_step [where a = 146980782 and b = 2145833295 and c = 988427442], simp add: lcg_def, simp add: lcg_def, simp)
    apply (rule rab_bases_step [where a = 992436444 and b = 1970238949 and c = 1960980684], simp add: lcg_def, simp add: lcg_def, simp)
    apply (rule rab_bases_step [where a = 1249847482 and b = 812200811 and c = 210572222], simp add: lcg_def, simp add: lcg_def, simp)
    apply (rule rab_bases_step [where a = 439856840 and b = 396790625 and c = 2024788424], simp add: lcg_def, simp add: lcg_def, simp)
    apply (rule rab_bases_step [where a = 1046943366 and b = 1818598215 and c = 605577514], simp add: lcg_def, simp add: lcg_def, simp)
    apply (rule rab_bases_step [where a = 1014820724 and b = 2044689565 and c = 111610404], simp add: lcg_def, simp add: lcg_def, simp)
    apply (rule rab_bases_step [where a = 982390034 and b = 383165667 and c = 445134582], simp add: lcg_def, simp add: lcg_def, simp)
    apply (rule rab_bases_step [where a = 1244892896 and b = 784090521 and c = 1792197600], simp add: lcg_def, simp add: lcg_def, simp)
    by simp
qed


end
