(* ===== verification/CString.thy ===== *)
theory CString
  imports Prelude
begin

text \<open>
  The C string functions the device code uses, on buffers of bytes: \<open>strncpy\<close>, the conversion of
  hexadecimal numbers, and \<open>sprintf\<close>'s hexadecimal output.  A read beyond the buffer is undefined.
\<close>

section \<open>Copying\<close>

text \<open>\<open>strncpy\<close>: at most \<open>n\<close> bytes, filled with zeros behind the terminator.\<close>

definition strncpy :: "u8 list \<Rightarrow> nat \<Rightarrow> nat \<Rightarrow> u8 list option" where
  "strncpy src off n =
     (let s = takeWhile (\<lambda>c. c \<noteq> 0) (take n (drop off src))
      in if length s = n then Some s
         else if off + length s < length src then Some (s @ replicate (n - length s) 0) else None)"

lemma strncpy_full:
  "off + n \<le> length src \<Longrightarrow> 0 \<notin> set (take n (drop off src)) \<Longrightarrow> strncpy src off n = Some (take n (drop off src))"
proof -
  assume a: "off + n \<le> length src" "0 \<notin> set (take n (drop off src))"
  then have t: "takeWhile (\<lambda>c. c \<noteq> 0) (take n (drop off src)) = take n (drop off src)"
    unfolding takeWhile_eq_all_conv by metis
  show ?thesis unfolding strncpy_def Let_def t using a(1) by simp
qed

lemma strncpy_length: "strncpy src off n = Some s \<Longrightarrow> length s = n"
proof -
  assume "strncpy src off n = Some s"
  moreover have "length (takeWhile (\<lambda>c. c \<noteq> 0) (take n (drop off src))) \<le> n"
    by (rule le_trans [OF length_takeWhile_le]) simp
  ultimately show ?thesis by (auto simp: strncpy_def Let_def split: if_splits)
qed

section \<open>Hexadecimal numbers\<close>

definition hex_digit :: "nat \<Rightarrow> u8" where
  "hex_digit n = (if n < 10 then of_nat (48 + n) else of_nat (87 + n))"

text \<open>\<open>%02x\<close> of a byte.\<close>

definition hex2 :: "u8 \<Rightarrow> u8 list" where
  "hex2 b = [hex_digit (unat b div 16), hex_digit (unat b mod 16)]"

definition digit_val :: "u8 \<Rightarrow> nat option" where
  "digit_val c =
     (if 48 \<le> c \<and> c \<le> 57 then Some (unat c - 48)
      else if 97 \<le> c \<and> c \<le> 122 then Some (unat c - 87)
      else if 65 \<le> c \<and> c \<le> 90 then Some (unat c - 55)
      else None)"

fun digits_val :: "nat \<Rightarrow> nat \<Rightarrow> u8 list \<Rightarrow> nat" where
  "digits_val base acc [] = acc"
| "digits_val base acc (c # cs) =
     (case digit_val c of
        None \<Rightarrow> acc
      | Some d \<Rightarrow> if d < base then digits_val base (acc * base + d) cs else acc)"

definition isspace :: "u8 \<Rightarrow> bool" where
  "isspace c \<longleftrightarrow> c = 32 \<or> 9 \<le> c \<and> c \<le> 13"

definition is_hex :: "u8 \<Rightarrow> bool" where
  "is_hex c \<longleftrightarrow> (case digit_val c of None \<Rightarrow> False | Some d \<Rightarrow> d < 16)"

text \<open>\<open>strtoul (s, 0, 16)\<close>: white space, a sign, an optional \<open>0x\<close>, then digits; the largest value when they
  do not fit.\<close>

definition strtoul16 :: "u8 list \<Rightarrow> u64" where
  "strtoul16 s =
     (let s = dropWhile isspace s;
          neg = (s \<noteq> [] \<and> hd s = 45);
          s = (if s \<noteq> [] \<and> (hd s = 45 \<or> hd s = 43) then tl s else s);
          s = (if length s > 2 \<and> s ! 0 = 48 \<and> (s ! 1 = 120 \<or> s ! 1 = 88) \<and> is_hex (s ! 2) then drop 2 s else s);
          v = digits_val 16 0 s
      in if v \<ge> 2 ^ 64 then - 1 else if neg then - of_nat v else of_nat v)"

lemma unat_hex_digit: "n < 16 \<Longrightarrow> unat (hex_digit n) = (if n < 10 then 48 + n else 87 + n)"
  by (simp add: hex_digit_def unsigned_of_nat take_bit_nat_eq_self_iff del: of_nat_add)

lemma digit_val_hex [simp]: "n < 16 \<Longrightarrow> digit_val (hex_digit n) = Some n"
  using unat_hex_digit [of n] by (simp add: digit_val_def word_le_nat_alt split: if_splits)

lemma hex_digit_plain [simp]:
  assumes "n < 16"
  shows "hex_digit n \<noteq> 0" "hex_digit n \<noteq> 45" "hex_digit n \<noteq> 43" "hex_digit n \<noteq> 120" "hex_digit n \<noteq> 88"
    "\<not> isspace (hex_digit n)"
proof -
  note u = unat_hex_digit [OF assms]
  have ne: "hex_digit n \<noteq> c" if "unat c < 48 \<or> 57 < unat c \<and> unat c < 97 \<or> 102 < unat c" for c
    using that u assms by (auto split: if_splits)
  show "hex_digit n \<noteq> 0" "hex_digit n \<noteq> 45" "hex_digit n \<noteq> 43" "hex_digit n \<noteq> 120" "hex_digit n \<noteq> 88"
    by (rule ne; simp)+
  show "\<not> isspace (hex_digit n)"
    using u assms by (auto simp: isspace_def word_le_nat_alt dest: arg_cong [where f = unat] split: if_splits)
qed

lemma unat_lt_8_div [simp]: "unat (b :: u8) div 16 < 16"
  using unat_lt_8 [of b] by (simp add: div_less_iff_less_mult)

lemma length_hex2 [simp]: "length (hex2 b) = 2"
  by (simp add: hex2_def)

lemma hex2_nonzero: "0 \<notin> set (hex2 b)"
  by (auto simp: hex2_def dest: sym)

lemma digits_val_hex2 [simp]: "digits_val 16 acc (hex2 b @ s) = digits_val 16 (acc * 256 + unat b) s"
proof -
  have "(acc * 16 + unat b div 16) * 16 + unat b mod 16 = acc * 256 + unat b" by simp
  then show ?thesis by (simp only: hex2_def append_Cons append_Nil digits_val.simps digit_val_hex unat_lt_8_div option.simps
      mod_less_divisor [OF zero_less_numeral] if_True)
qed

lemma strtoul16_hex2:
  "strtoul16 (hex2 b @ s) = (let v = digits_val 16 0 (hex2 b @ s) in if v \<ge> 2 ^ 64 then - 1 else of_nat v)"
  by (simp add: strtoul16_def hex2_def Let_def)

text \<open>The eight digits of a word, as the code prints them byte by byte.\<close>

definition word_hex :: "u32 \<Rightarrow> u8 list" where
  "word_hex v = concat (map hex2 (rev (bytes_of_word v)))"

lemma length_word_hex [simp]: "length (word_hex v) = 8"
  by (simp add: word_hex_def bytes_of_word_def)

lemma word_hex_nonzero: "0 \<notin> set (word_hex v)"
  using hex2_nonzero by (auto simp: word_hex_def)

lemma horner4: "(((0 * 256 + a) * 256 + b) * 256 + c) * 256 + d = d + 256 * (c + 256 * (b + 256 * (a :: nat)))"
  by simp

lemma word_hex_val: "digits_val 16 0 (word_hex v) = unat v"
proof -
  have "word_hex v = hex2 (ucast (drop_bit 24 v)) @ hex2 (ucast (drop_bit 16 v)) @ hex2 (ucast (drop_bit 8 v)) @ hex2 (ucast (drop_bit 0 v)) @ []"
    by (simp add: word_hex_def bytes_of_word_def)
  then have "digits_val 16 0 (word_hex v) =
      (((0 * 256 + unat v div 2 ^ 24 mod 256) * 256 + unat v div 2 ^ 16 mod 256) * 256 + unat v div 2 ^ 8 mod 256) * 256 +
      unat v div 2 ^ 0 mod 256"
    by (simp only: digits_val_hex2 digits_val.simps unat_byte)
  also have "\<dots> = unat v" by (simp only: horner4 base256_word unat_less_32)
  finally show ?thesis .
qed

lemma strtoul16_word_hex: "strtoul16 (word_hex v) = ucast v"
proof -
  have "\<exists>b s. word_hex v = hex2 b @ s" by (auto simp: word_hex_def bytes_of_word_def)
  then have "strtoul16 (word_hex v) = of_nat (unat v)"
    using word_hex_val [of v] unat_lt_32 [of v]
    by (auto simp: strtoul16_hex2 Let_def simp del: unat_lt_32 digits_val_hex2)
  then show ?thesis by (simp add: unsigned_def flip: of_nat_unat)
qed

lemma ucast_64_32 [simp]: "(ucast (ucast (v :: u32) :: u64) :: u32) = v"
  using unat_lt_32 [of v] by (simp add: word_unat_eq_iff widen del: unat_lt_32)

end
