(* ===== verification/Efuse.thy ===== *)
theory Efuse
  imports CString
begin

text \<open>
  The fuse library, \<^verbatim>\<open>libs/libefuse/sprd_efuse_hw.c\<close> and its variant for the other chip,
  \<^verbatim>\<open>libs/libefuse/sprd_tshark_efuse_hw.c\<close>, which differs in the block numbers.  The kernel driver
  behind the two device nodes is a parameter over a state \<open>'s\<close>; that its fuses are one-time programmable,
  so that a write adds bits and none is ever cleared, is a named hypothesis.
\<close>

section \<open>The driver and the chips\<close>

text \<open>The calls on the nodes: \<open>open\<close> and \<open>write\<close> on the magic node; \<open>open\<close>, \<open>lseek\<close> to a byte offset,
  \<open>write\<close> and \<open>read\<close> on the fuse node.  \<open>read\<close> gives the bytes read, \<open>None\<close> for an error.\<close>

record 's efuse_driver =
  magic_open :: "'s \<Rightarrow> bool"
  magic_write :: "u8 list \<Rightarrow> 's \<Rightarrow> int \<times> 's"
  dev_open :: "'s \<Rightarrow> bool"
  dev_seek :: "u32 \<Rightarrow> 's \<Rightarrow> bool"
  dev_write :: "u32 \<Rightarrow> u8 list \<Rightarrow> 's \<Rightarrow> int \<times> 's"
  dev_read :: "u32 \<Rightarrow> 's \<Rightarrow> u8 list option"

record efuse_conf =
  HASH_BLOCK_START :: nat
  HASH_BLOCK_END :: nat
  SECURE_BOOT_BLOCK :: nat
  SECURE_BOOT_BIT :: nat

definition sprd_conf :: efuse_conf where
  "sprd_conf = \<lparr>HASH_BLOCK_START = 7, HASH_BLOCK_END = 11, SECURE_BOOT_BLOCK = 2, SECURE_BOOT_BIT = 0\<rparr>"

definition tshark_conf :: efuse_conf where
  "tshark_conf = \<lparr>HASH_BLOCK_START = 2, HASH_BLOCK_END = 6, SECURE_BOOT_BLOCK = 1, SECURE_BOOT_BIT = 18\<rparr>"

definition HASH_BLOCK_LEN :: "efuse_conf \<Rightarrow> nat" where
  "HASH_BLOCK_LEN conf = HASH_BLOCK_END conf - HASH_BLOCK_START conf + 1"

definition UID_BLOCK_START :: nat where "UID_BLOCK_START = 0"
definition UID_BLOCK_END :: nat where "UID_BLOCK_END = 1"
definition UID_BLOCK_LEN :: nat where "UID_BLOCK_LEN = UID_BLOCK_END - UID_BLOCK_START + 1"
definition BLOCK_SIZE :: u32 where "BLOCK_SIZE = 4"
definition HASH_BIT :: u32 where "HASH_BIT = 0x80000000"

text \<open>\<open>sprintf (magic, "%x", 0x8810)\<close>.\<close>

definition magic_text :: "u8 list" where
  "magic_text = [0x38, 0x38, 0x31, 0x30]"

section \<open>Blocks\<close>

definition efuse_write :: "'s efuse_driver \<Rightarrow> u32 \<Rightarrow> u32 \<Rightarrow> 's \<Rightarrow> int \<times> 's" where
  "efuse_write drv blk val s =
     (if \<not> magic_open drv s then (-1, s)
      else let (len, s) = magic_write drv magic_text s
      in if len \<le> 0 then (-2, s)
         else if \<not> dev_open drv s then (-3, s)
         else if \<not> dev_seek drv (blk * BLOCK_SIZE) s then (-4, s)
         else let (len, s) = dev_write drv (blk * BLOCK_SIZE) (bytes_of_word val) s
              in if len \<le> 0 then (-5, s) else (len, s))"

text \<open>The text goes to offset \<open>at\<close> of \<open>data\<close>, \<open>None\<close> being the null pointer.  A short read leaves the zeros of
  \<open>buf\<close>.\<close>

definition efuse_read :: "'s efuse_driver \<Rightarrow> u32 \<Rightarrow> u8 list option \<Rightarrow> nat \<Rightarrow> 's \<Rightarrow> (int \<times> u8 list option) option" where
  "efuse_read drv blk data at s =
     (case data of
        None \<Rightarrow> Some (-1, data)
      | Some mem \<Rightarrow>
          if \<not> dev_open drv s then Some (-2, data)
          else if \<not> dev_seek drv (blk * BLOCK_SIZE) s then Some (-3, data)
          else case dev_read drv (blk * BLOCK_SIZE) s of
            None \<Rightarrow> Some (-4, data)
          | Some [] \<Rightarrow> Some (-4, data)
          | Some bs \<Rightarrow>
              let buf = take 4 (bs @ replicate 4 0)
              in map_option (\<lambda>mem. (1, Some mem)) (mem_write mem at (concat (map hex2 (rev buf)) @ [0])))"

section \<open>The library's functions\<close>

record 's efuse_state =
  write_ok_flag :: bool
  fuses :: 's

definition efuse_secure_enable :: "'s efuse_driver \<Rightarrow> efuse_conf \<Rightarrow> 's efuse_state \<Rightarrow> int \<times> 's efuse_state" where
  "efuse_secure_enable drv conf st =
     (if \<not> write_ok_flag st then (-1, st)
      else let (ret, s) = efuse_write drv (of_nat (SECURE_BOOT_BLOCK conf)) (push_bit (SECURE_BOOT_BIT conf) 1) (fuses st)
           in if ret \<le> 0 then (-2, st\<lparr>fuses := s\<rparr>) else (0, st\<lparr>fuses := s\<rparr>))"

definition efuse_secure_is_enabled :: "'s efuse_driver \<Rightarrow> efuse_conf \<Rightarrow> 's efuse_state \<Rightarrow> int option" where
  "efuse_secure_is_enabled drv conf st =
     Option.bind (efuse_read drv (of_nat (SECURE_BOOT_BLOCK conf)) (Some (replicate 10 0)) 0 (fuses st)) (\<lambda>(ret, data).
     Option.bind data (\<lambda>value.
     let v = (ucast (strtoul16 value) :: u32)
     in Some (if ret \<le> 0 then 0 else if v AND push_bit (SECURE_BOOT_BIT conf) 1 \<noteq> 0 then 1 else 0)))"

text \<open>The loop over blocks of \<open>efuse_hash_read\<close> and of \<open>efuse_uid_read\<close>: block \<open>i\<close> goes to
  \<open>values[(i - start) * 8]\<close>.\<close>

fun read_blocks :: "'s efuse_driver \<Rightarrow> nat \<Rightarrow> nat list \<Rightarrow> u8 list \<Rightarrow> 's \<Rightarrow> (int \<times> u8 list) option" where
  "read_blocks drv start [] values s = Some (1, values)"
| "read_blocks drv start (i # is) values s =
     Option.bind (efuse_read drv (of_nat i) (Some values) ((i - start) * 8) s) (\<lambda>(ret, data).
     Option.bind data (\<lambda>values.
     if ret \<le> 0 then Some (-2, values) else read_blocks drv start is values s))"

text \<open>The result and the caller's buffer.\<close>

definition efuse_hash_read ::
  "'s efuse_driver \<Rightarrow> efuse_conf \<Rightarrow> u8 list option \<Rightarrow> int \<Rightarrow> 's efuse_state \<Rightarrow> (int \<times> u8 list option) option" where
  "efuse_hash_read drv conf hash cnt st =
     (case hash of
        None \<Rightarrow> Some (-1, hash)
      | Some mem \<Rightarrow>
          if cnt < 1 then Some (-1, hash)
          else let len = min (nat cnt) (HASH_BLOCK_LEN conf * 8)
               in Option.bind (read_blocks drv (HASH_BLOCK_START conf) [HASH_BLOCK_START conf..<HASH_BLOCK_END conf + 1]
                    (replicate (HASH_BLOCK_LEN conf * 8 + 1) 0) (fuses st)) (\<lambda>(ret, values).
                  if ret \<le> 0 then Some (-2, hash)
                  else Option.bind (strncpy values 0 len) (\<lambda>txt.
                       map_option (\<lambda>mem. (int len - 1, Some mem)) (mem_write mem 0 txt))))"

definition efuse_uid_read ::
  "'s efuse_driver \<Rightarrow> u8 list option \<Rightarrow> int \<Rightarrow> 's efuse_state \<Rightarrow> (int \<times> u8 list option) option" where
  "efuse_uid_read drv uid cnt st =
     (case uid of
        None \<Rightarrow> Some (-1, uid)
      | Some mem \<Rightarrow>
          if cnt < 1 then Some (-1, uid)
          else let len = min (nat cnt) (UID_BLOCK_LEN * 8 + 1)
               in Option.bind (read_blocks drv UID_BLOCK_START [UID_BLOCK_START..<UID_BLOCK_END + 1]
                    (replicate (UID_BLOCK_LEN * 8 + 1) 0) (fuses st)) (\<lambda>(ret, values).
                  if ret \<le> 0 then Some (-2, uid)
                  else Option.bind (strncpy values 0 len) (\<lambda>txt.
                       map_option (\<lambda>mem. (int len - 1, Some mem)) (mem_write mem 0 txt))))"

text \<open>The five groups of eight digits of \<open>p\<close>, counted when they are zero.\<close>

definition zero_groups :: "u8 list \<Rightarrow> nat option" where
  "zero_groups p =
     fold (\<lambda>i cnt. Option.bind cnt (\<lambda>cnt.
       map_option (\<lambda>tmp. if (ucast (strtoul16 tmp) :: u32) = 0 then cnt + 1 else cnt) (strncpy p i 8)))
       [0, 8, 16, 24, 32] (Some 0)"

definition efuse_is_hash_write :: "'s efuse_driver \<Rightarrow> efuse_conf \<Rightarrow> 's efuse_state \<Rightarrow> int option" where
  "efuse_is_hash_write drv conf st =
     Option.bind (efuse_hash_read drv conf (Some (replicate 41 0)) 40 st) (\<lambda>(ret, read_hash).
     if ret < 0 then Some (-1)
     else Option.bind read_hash (\<lambda>p.
          map_option (\<lambda>cnt. if cnt = 5 then 0 else 1) (zero_groups p)))"

text \<open>One round of \<open>efuse_hash_write\<close> and the loop, over the offsets \<open>0, 8, ...\<close> into \<open>p\<close>; \<open>Inl\<close> is the error
  returned.\<close>

definition write_group ::
  "'s efuse_driver \<Rightarrow> u8 list \<Rightarrow> nat \<Rightarrow> nat \<Rightarrow> 's \<Rightarrow> ((int + int) \<times> 's) option" where
  "write_group drv p i j s =
     Option.bind (strncpy p i 8) (\<lambda>buf.
     let val = (ucast (strtoul16 buf) :: u32) AND 0x7fffffff;
         tmp_hash = word_hex val;
         (ret, s) = efuse_write drv (of_nat j) val s
     in if ret \<le> 0 then Some (Inl (-2), s)
        else Option.bind (efuse_read drv (of_nat j) (Some (replicate 9 0)) 0 s) (\<lambda>(r, data).
             Option.bind data (\<lambda>read_hash.
             if r < 0 then Some (Inl (-3), s)
             else if take 8 read_hash \<noteq> tmp_hash then Some (Inl (-4), s)
             else let (r, s) = efuse_write drv (of_nat j) HASH_BIT s
                  in if r < 0 then Some (Inl (-5), s) else Some (Inr ret, s))))"

fun write_groups ::
  "'s efuse_driver \<Rightarrow> u8 list \<Rightarrow> nat list \<Rightarrow> nat \<Rightarrow> int \<Rightarrow> 's \<Rightarrow> ((int + int) \<times> 's) option" where
  "write_groups drv p [] j len s = Some (Inr len, s)"
| "write_groups drv p (i # is) j len s =
     Option.bind (write_group drv p i j s) (\<lambda>(r, s).
     case r of Inl e \<Rightarrow> Some (Inl e, s) | Inr ret \<Rightarrow> write_groups drv p is (j + 1) (len + ret) s)"

definition efuse_hash_write ::
  "'s efuse_driver \<Rightarrow> efuse_conf \<Rightarrow> u8 list option \<Rightarrow> int \<Rightarrow> 's efuse_state \<Rightarrow> (int \<times> 's efuse_state) option" where
  "efuse_hash_write drv conf hash cnt st =
     (case hash of
        None \<Rightarrow> Some (-1, st)
      | Some p \<Rightarrow>
          if cnt < 1 then Some (-1, st)
          else let n = min (nat cnt) (HASH_BLOCK_LEN conf * 8)
               in map_option (\<lambda>(r, s).
                    case r of Inl e \<Rightarrow> (e, \<lparr>write_ok_flag = False, fuses = s\<rparr>)
                    | Inr len \<Rightarrow> (len, \<lparr>write_ok_flag = True, fuses = s\<rparr>))
                    (write_groups drv p (map (\<lambda>k. 8 * k) [0..<(n + 7) div 8]) (HASH_BLOCK_START conf) 0 (fuses st)))"

end
