(* ===== verification/EfuseProps.thy ===== *)
theory EfuseProps
  imports Efuse LeBytes
begin

text \<open>
  Lemmas on the fuse library: what its operations do on one-time programmable fuses that work, and an
  invariant of every sequence of operations on fuses that may also fail.
\<close>

section \<open>One-time programmable fuses\<close>

text \<open>Sixteen blocks of fuses: a write that works adds the bits it is given.\<close>

definition otp_driver :: "'s efuse_driver \<Rightarrow> ('s \<Rightarrow> nat \<Rightarrow> u32) \<Rightarrow> bool" where
  "otp_driver drv cell \<longleftrightarrow>
     (\<forall>s. magic_open drv s \<and> dev_open drv s \<and>
       (\<forall>m. fst (magic_write drv m s) > 0 \<and> cell (snd (magic_write drv m s)) = cell s) \<and>
       (\<forall>b < 16. dev_seek drv (of_nat b * 4) s \<and> dev_read drv (of_nat b * 4) s = Some (bytes_of_word (cell s b)) \<and>
         (\<forall>v. fst (dev_write drv (of_nat b * 4) (bytes_of_word v) s) = 4 \<and>
           cell (snd (dev_write drv (of_nat b * 4) (bytes_of_word v) s)) = (cell s)(b := cell s b OR v))))"

text \<open>Fuses whose operations may fail at any time: a write that fails leaves them or has added its bits.\<close>

definition otp_safe :: "'s efuse_driver \<Rightarrow> ('s \<Rightarrow> nat \<Rightarrow> u32) \<Rightarrow> bool" where
  "otp_safe drv cell \<longleftrightarrow>
     (\<forall>s. (\<forall>m. cell (snd (magic_write drv m s)) = cell s) \<and>
       (\<forall>b < 16. \<forall>v.
         cell (snd (dev_write drv (of_nat b * 4) (bytes_of_word v) s)) = (cell s)(b := cell s b OR v) \<or>
         fst (dev_write drv (of_nat b * 4) (bytes_of_word v) s) \<le> 0 \<and>
         cell (snd (dev_write drv (of_nat b * 4) (bytes_of_word v) s)) = cell s))"

lemma otp_driver_safe: "otp_driver drv cell \<Longrightarrow> otp_safe drv cell"
  by (simp add: otp_driver_def otp_safe_def)

section \<open>Blocks of working fuses\<close>

lemma efuse_write_otp:
  assumes "otp_driver drv cell" "b < 16"
  obtains s' where "efuse_write drv (of_nat b) v s = (4, s')" "cell s' = (cell s)(b := cell s b OR v)"
proof -
  obtain n s1 where m: "magic_write drv magic_text s = (n, s1)" by fastforce
  then have n: "n > 0" "cell s1 = cell s" using assms(1) by (simp_all add: otp_driver_def) (metis fst_conv snd_conv)+
  obtain k s2 where w: "dev_write drv (of_nat b * 4) (bytes_of_word v) s1 = (k, s2)" by fastforce
  then have k: "k = 4" "cell s2 = (cell s1)(b := cell s1 b OR v)"
    using assms by (simp_all add: otp_driver_def) (metis fst_conv snd_conv)+
  have "magic_open drv s" "dev_open drv s1" "dev_seek drv (of_nat b * 4) s1"
    using assms by (simp_all add: otp_driver_def)
  then have "efuse_write drv (of_nat b) v s = (4, s2)"
    using m n w k by (simp add: efuse_write_def BLOCK_SIZE_def)
  then show ?thesis using that k(2) n(2) by simp
qed

lemma efuse_read_otp:
  assumes "otp_driver drv cell" "b < 16"
  shows "efuse_read drv (of_nat b) (Some mem) at s =
    map_option (\<lambda>mem. (1, Some mem)) (mem_write mem at (word_hex (cell s b) @ [0]))"
proof -
  have r: "dev_open drv s" "dev_seek drv (of_nat b * 4) s" "dev_read drv (of_nat b * 4) s = Some (bytes_of_word (cell s b))"
    using assms by (simp_all add: otp_driver_def)
  obtain x xs where x: "bytes_of_word (cell s b) = x # xs" by (simp add: bytes_of_word_def)
  have "take 4 (bytes_of_word (cell s b) @ replicate 4 0) = bytes_of_word (cell s b)" by simp
  then show ?thesis
    using r x unfolding efuse_read_def word_hex_def by (simp add: BLOCK_SIZE_def del: take_append)
qed

lemma read_blocks_otp:
  assumes "otp_driver drv cell" "start \<le> i" "i + n \<le> 16" "length pre = 8 * (i - start)"
  shows "read_blocks drv start [i..<i + n] (pre @ replicate (8 * n + 1) 0) s =
    Some (1, pre @ concat (map (\<lambda>b. word_hex (cell s b)) [i..<i + n]) @ [0])"
  using assms(2-4)
proof (induction n arbitrary: i pre)
  case (Suc n)
  have up: "[i..<i + Suc n] = i # [Suc i..<Suc i + n]" by (simp add: upt_conv_Cons)
  have rep: "replicate (8 * Suc n + 1) 0 = replicate 9 0 @ replicate (8 * n) (0 :: u8)"
    by (simp flip: replicate_add)
  have "mem_write (pre @ replicate (8 * Suc n + 1) 0) ((i - start) * 8) (word_hex (cell s i) @ [0]) =
      Some ((pre @ word_hex (cell s i)) @ replicate (8 * n + 1) 0)"
    using Suc.prems(3) unfolding rep by (simp add: mem_write_def mult.commute flip: replicate_Suc)
  moreover have "length (pre @ word_hex (cell s i)) = 8 * (Suc i - start)"
    using Suc.prems by (simp add: Suc_diff_le)
  ultimately show ?case
    using Suc.IH [of "Suc i" "pre @ word_hex (cell s i)"] Suc.prems
    unfolding up read_blocks.simps by (simp add: efuse_read_otp [OF assms(1)] del: upt_Suc)
qed simp

lemma word_hex_inject: "word_hex a = word_hex b \<longleftrightarrow> a = b"
  using word_hex_val by (metis word_unat_eq_iff)

text \<open>The number in the eight characters at \<open>i\<close>, without its top bit.\<close>

definition group_val :: "u8 list \<Rightarrow> nat \<Rightarrow> u32" where
  "group_val p i = (ucast (strtoul16 (take 8 (drop i p))) :: u32) AND 0x7fffffff"

lemma write_group_otp:
  assumes "otp_driver drv cell" "j < 16" "i + 8 \<le> length p" "0 \<notin> set p"
    and "cell s j OR group_val p i = group_val p i"
  obtains s' where "write_group drv p i j s = Some (Inr 4, s')"
    "cell s' = (cell s)(j := group_val p i OR HASH_BIT)"
proof -
  have g: "strncpy p i 8 = Some (take 8 (drop i p))"
    by (rule strncpy_full [OF assms(3)]) (use assms(4) in \<open>auto dest!: in_set_takeD in_set_dropD\<close>)
  obtain s1 where s1: "efuse_write drv (of_nat j) (group_val p i) s = (4, s1)"
    "cell s1 = (cell s)(j := cell s j OR group_val p i)"
    by (rule efuse_write_otp [OF assms(1,2)])
  obtain s2 where s2: "efuse_write drv (of_nat j) HASH_BIT s1 = (4, s2)" "cell s2 = (cell s1)(j := cell s1 j OR HASH_BIT)"
    by (rule efuse_write_otp [OF assms(1,2)])
  have "write_group drv p i j s = Some (Inr 4, s2)"
    using s1 s2 assms(5)
    by (simp add: write_group_def g Let_def group_val_def efuse_read_otp [OF assms(1,2)] mem_write_def)
  then show ?thesis using that s1 s2 assms(5) by simp
qed

lemma write_groups_otp:
  assumes "otp_driver drv cell" "0 \<notin> set p" "j + n \<le> 16" "i + 8 * n \<le> length p" "\<forall>k < n. cell s (j + k) = 0"
  shows "\<exists>s'. write_groups drv p (map (\<lambda>k. i + 8 * k) [0..<n]) j len s = Some (Inr (len + 4 * int n), s') \<and>
    cell s' = (\<lambda>b. if j \<le> b \<and> b < j + n then group_val p (i + 8 * (b - j)) OR HASH_BIT else cell s b)"
  using assms(3-5)
proof (induction n arbitrary: i j len s)
  case (Suc n)
  obtain s1 where s1: "write_group drv p i j s = Some (Inr 4, s1)" "cell s1 = (cell s)(j := group_val p i OR HASH_BIT)"
    by (rule write_group_otp [OF assms(1) _ _ assms(2), where s = s and i = i and j = j]) (use Suc.prems in auto)
  have up: "map (\<lambda>k. i + 8 * k) [0..<Suc n] = i # map (\<lambda>k. i + 8 + 8 * k) [0..<n]"
    by (subst upt_conv_Cons) (simp_all add: map_Suc_upt [symmetric] comp_def del: upt_Suc)
  have z: "\<forall>k < n. cell s1 (j + 1 + k) = 0"
    using Suc.prems(3) s1(2) by (auto simp: less_Suc_eq_0_disj)
  obtain s2 where s2: "write_groups drv p (map (\<lambda>k. i + 8 + 8 * k) [0..<n]) (j + 1) (len + 4) s1 = Some (Inr (len + 4 + 4 * int n), s2)"
    "cell s2 = (\<lambda>b. if j + 1 \<le> b \<and> b < j + 1 + n then group_val p (i + 8 + 8 * (b - (j + 1))) OR HASH_BIT else cell s1 b)"
    using Suc.IH [of "j + 1" "i + 8" s1 "len + 4"] z Suc.prems by auto
  have e: "i + 8 * (b - j) = i + 8 + 8 * (b - (j + 1))" if "j < b" for b
    using that by (simp add: algebra_simps)
  have "cell s2 = (\<lambda>b. if j \<le> b \<and> b < j + Suc n then group_val p (i + 8 * (b - j)) OR HASH_BIT else cell s b)"
    using s1(2) e by (auto simp: s2(2) fun_eq_iff le_less add.assoc)
  then show ?case
    unfolding up write_groups.simps s1(1) using s2(1) by (intro exI [of _ s2]) simp
qed (auto simp: fun_eq_iff)

section \<open>The whole hash\<close>

definition chip :: "efuse_conf \<Rightarrow> bool" where
  "chip conf \<longleftrightarrow> conf = sprd_conf \<or> conf = tshark_conf"

lemma chip_blocks:
  assumes "chip conf"
  shows "HASH_BLOCK_LEN conf = 5" "HASH_BLOCK_END conf = HASH_BLOCK_START conf + 4" "HASH_BLOCK_START conf + 5 \<le> 16"
    "SECURE_BOOT_BLOCK conf < HASH_BLOCK_START conf" "SECURE_BOOT_BLOCK conf < 16" "SECURE_BOOT_BIT conf < 31"
  using assms by (auto simp: chip_def sprd_conf_def tshark_conf_def HASH_BLOCK_LEN_def)

definition hash_text :: "('s \<Rightarrow> nat \<Rightarrow> u32) \<Rightarrow> efuse_conf \<Rightarrow> 's \<Rightarrow> u8 list" where
  "hash_text cell conf s = concat (map (\<lambda>b. word_hex (cell s b)) [HASH_BLOCK_START conf..<HASH_BLOCK_START conf + 5])"

lemma length_hash_text: "length (hash_text cell conf s) = 40"
  by (simp add: hash_text_def length_concat comp_def sum_list_triv)

lemma hash_text_nonzero: "0 \<notin> set (hash_text cell conf s)"
  using word_hex_nonzero by (auto simp: hash_text_def)

lemma efuse_hash_read_otp:
  assumes "otp_driver drv cell" "chip conf" "40 \<le> length mem"
  shows "efuse_hash_read drv conf (Some mem) 40 st = Some (39, Some (hash_text cell conf (fuses st) @ drop 40 mem))"
proof -
  note c = chip_blocks [OF assms(2)]
  have up: "[HASH_BLOCK_START conf..<HASH_BLOCK_END conf + 1] = [HASH_BLOCK_START conf..<HASH_BLOCK_START conf + 5]"
    by (simp add: c add.commute)
  have "read_blocks drv (HASH_BLOCK_START conf) [HASH_BLOCK_START conf..<HASH_BLOCK_END conf + 1]
      (replicate (HASH_BLOCK_LEN conf * 8 + 1) 0) (fuses st) = Some (1, hash_text cell conf (fuses st) @ [0])"
    using read_blocks_otp [OF assms(1) order_refl, of "HASH_BLOCK_START conf" 5 "[]" "fuses st"] c
    unfolding up by (simp add: hash_text_def)
  moreover have "strncpy (hash_text cell conf (fuses st) @ [0]) 0 40 = Some (hash_text cell conf (fuses st))"
    by (subst strncpy_full) (simp_all add: length_hash_text hash_text_nonzero)
  ultimately show ?thesis
    using assms(3) c by (simp add: efuse_hash_read_def mem_write_def length_hash_text)
qed

lemma zero_groups_5:
  "zero_groups p = Some n \<Longrightarrow> strncpy p 0 8 = Some g \<Longrightarrow> (ucast (strtoul16 g) :: u32) \<noteq> 0 \<Longrightarrow> n \<noteq> 5"
  by (auto simp: zero_groups_def bind_eq_Some_conv split: if_splits)

lemma efuse_is_hash_write_otp:
  assumes "otp_driver drv cell" "chip conf" "cell (fuses st) (HASH_BLOCK_START conf) \<noteq> 0"
  shows "efuse_is_hash_write drv conf st = Some 1"
proof -
  define t where "t = hash_text cell conf (fuses st)"
  have t: "length t = 40" "0 \<notin> set t" by (simp_all add: t_def length_hash_text hash_text_nonzero)
  have g: "strncpy (t @ [0]) i 8 = Some (take 8 (drop i t))" if "i + 8 \<le> 40" for i
    by (subst strncpy_full) (use that t in \<open>auto dest!: in_set_takeD in_set_dropD\<close>)
  have "\<exists>r. t = word_hex (cell (fuses st) (HASH_BLOCK_START conf)) @ r"
    unfolding t_def hash_text_def by (subst upt_conv_Cons) (auto simp del: upt_Suc)
  then have "take 8 t = word_hex (cell (fuses st) (HASH_BLOCK_START conf))" by auto
  then have v: "(ucast (strtoul16 (take 8 t)) :: u32) \<noteq> 0"
    using assms(3) by (simp add: strtoul16_word_hex ucast_64_32)
  obtain n where n: "zero_groups (t @ [0]) = Some n"
    using g [of 0] g [of 8] g [of 16] g [of 24] g [of 32] by (simp add: zero_groups_def)
  then have "n \<noteq> 5" by (rule zero_groups_5 [OF _ g [of 0]]) (use v in simp_all)
  then show ?thesis
    using efuse_hash_read_otp [OF assms(1,2), of "replicate 41 0" st] n
    by (simp add: efuse_is_hash_write_def flip: t_def)
qed

text \<open>What the fuses hold after a hash has been written.\<close>

definition hash_written :: "('s \<Rightarrow> nat \<Rightarrow> u32) \<Rightarrow> efuse_conf \<Rightarrow> u8 list \<Rightarrow> 's \<Rightarrow> 's \<Rightarrow> bool" where
  "hash_written cell conf p s s' \<longleftrightarrow>
     (\<forall>b. cell s' b = (if HASH_BLOCK_START conf \<le> b \<and> b \<le> HASH_BLOCK_END conf
        then group_val p (8 * (b - HASH_BLOCK_START conf)) OR HASH_BIT else cell s b))"

lemma hash_write_otp:
  assumes "otp_driver drv cell" "chip conf" "length p = 40" "0 \<notin> set p"
    and "\<forall>k < 5. cell (fuses st) (HASH_BLOCK_START conf + k) = 0"
  obtains st' where "efuse_hash_write drv conf (Some p) 40 st = Some (20, st')" "write_ok_flag st'"
    "hash_written cell conf p (fuses st) (fuses st')"
proof -
  note c = chip_blocks [OF assms(2)]
  obtain s' where s': "write_groups drv p (map (\<lambda>k. 8 * k) [0..<5]) (HASH_BLOCK_START conf) 0 (fuses st) = Some (Inr 20, s')"
    "cell s' = (\<lambda>b. if HASH_BLOCK_START conf \<le> b \<and> b < HASH_BLOCK_START conf + 5
       then group_val p (0 + 8 * (b - HASH_BLOCK_START conf)) OR HASH_BIT else cell (fuses st) b)"
    using write_groups_otp [OF assms(1,4), of "HASH_BLOCK_START conf" 5 0 "fuses st" 0] c assms(3,5)
    by (auto simp add: add_0 simp del: upt_rec_numeral)
  have "efuse_hash_write drv conf (Some p) 40 st = Some (20, \<lparr>write_ok_flag = True, fuses = s'\<rparr>)"
    using s'(1) by (simp add: efuse_hash_write_def c del: upt_rec_numeral)
  then show ?thesis by (rule that) (use s'(2) c in \<open>auto simp: hash_written_def\<close>)
qed

section \<open>Sequences of operations\<close>

text \<open>What can change the library's state: enabling secure boot and writing a hash, with any arguments and any result.\<close>

inductive efuse_step :: "'s efuse_driver \<Rightarrow> efuse_conf \<Rightarrow> 's efuse_state \<Rightarrow> 's efuse_state \<Rightarrow> bool"
  for drv conf where
  enabling: "efuse_secure_enable drv conf st = (r, st') \<Longrightarrow> efuse_step drv conf st st'"
| writing: "efuse_hash_write drv conf p n st = Some (r, st') \<Longrightarrow> efuse_step drv conf st st'"

inductive_cases efuse_stepE: "efuse_step drv conf st st'"

lemma efuse_write_safe:
  assumes "otp_safe drv cell" "b < 16" "efuse_write drv (of_nat b) v s = (r, s')"
  shows "cell s' = (cell s)(b := cell s b OR v) \<or> r < 0 \<and> cell s' = cell s"
proof -
  have m: "cell (snd (magic_write drv magic_text s)) = cell s"
    using assms(1) by (simp add: otp_safe_def)
  have w: "cell (snd (dev_write drv (of_nat b * 4) (bytes_of_word v) s1)) = (cell s1)(b := cell s1 b OR v) \<or>
      fst (dev_write drv (of_nat b * 4) (bytes_of_word v) s1) \<le> 0 \<and>
      cell (snd (dev_write drv (of_nat b * 4) (bytes_of_word v) s1)) = cell s1" for s1
    using assms(1,2) by (simp add: otp_safe_def)
  show ?thesis
    using assms(3) m w [of "snd (magic_write drv magic_text s)"]
    by (auto simp: efuse_write_def BLOCK_SIZE_def Let_def split: prod.splits if_splits)
qed

text \<open>The invariant: whenever the write flag or the secure boot bit is set, the first hash block has been locked with
  \<open>HASH_BIT\<close>.\<close>

definition efuse_inv :: "('s \<Rightarrow> nat \<Rightarrow> u32) \<Rightarrow> efuse_conf \<Rightarrow> 's efuse_state \<Rightarrow> bool" where
  "efuse_inv cell conf st \<longleftrightarrow>
     (write_ok_flag st \<or> bit (cell (fuses st) (SECURE_BOOT_BLOCK conf)) (SECURE_BOOT_BIT conf) \<longrightarrow>
       bit (cell (fuses st) (HASH_BLOCK_START conf)) 31)"

text \<open>Writes at blocks above \<open>b\<close> leave \<open>b\<close>, and locked blocks stay locked.\<close>

definition keeps :: "('s \<Rightarrow> nat \<Rightarrow> u32) \<Rightarrow> nat \<Rightarrow> 's \<Rightarrow> 's \<Rightarrow> bool" where
  "keeps cell j s s' \<longleftrightarrow> (\<forall>b. b < j \<longrightarrow> cell s' b = cell s b) \<and> (\<forall>b. bit (cell s b) 31 \<longrightarrow> bit (cell s' b) 31)"

lemma keeps_refl: "keeps cell j s s"
  by (simp add: keeps_def)

lemma keeps_trans: "keeps cell j s s' \<Longrightarrow> keeps cell k s' s'' \<Longrightarrow> j \<le> k \<Longrightarrow> keeps cell j s s''"
  by (simp add: keeps_def)

lemma keeps_write:
  "otp_safe drv cell \<Longrightarrow> b < 16 \<Longrightarrow> efuse_write drv (of_nat b) v s = (r, s') \<Longrightarrow> keeps cell b s s'"
  by (drule (2) efuse_write_safe) (auto simp: keeps_def bit_or_iff)

lemma write_group_safe:
  assumes "otp_safe drv cell" "j < 16" "write_group drv p i j s = Some (r, s')"
  shows "keeps cell j s s' \<and> (\<forall>n. r = Inr n \<longrightarrow> bit (cell s' j) 31)"
proof -
  obtain val where run: "(case efuse_write drv (of_nat j) val s of (ret, s) \<Rightarrow>
      if ret \<le> 0 then Some (Inl (-2), s)
      else Option.bind (efuse_read drv (of_nat j) (Some (replicate 9 0)) 0 s) (\<lambda>(r, data).
           Option.bind data (\<lambda>read_hash.
           if r < 0 then Some (Inl (-3), s)
           else if take 8 read_hash \<noteq> word_hex val then Some (Inl (-4), s)
           else case efuse_write drv (of_nat j) HASH_BIT s of (r, s) \<Rightarrow>
                if r < 0 then Some (Inl (-5), s) else Some (Inr ret, s)))) = Some (r, s')"
    using assms(3) unfolding write_group_def Let_def by (blast elim: bind_SomeE)
  obtain r1 s1 where w1: "efuse_write drv (of_nat j) val s = (r1, s1)" by fastforce
  obtain r2 s2 where w2: "efuse_write drv (of_nat j) HASH_BIT s1 = (r2, s2)" by fastforce
  have k: "keeps cell j s s1" "keeps cell j s1 s2"
    by (rule keeps_write [OF assms(1,2)], rule w1) (rule keeps_write [OF assms(1,2)], rule w2)
  have b: "0 \<le> r2 \<Longrightarrow> bit (cell s2 j) 31"
    using efuse_write_safe [OF assms(1,2) w2] by (auto simp: HASH_BIT_def bit_or_iff bit_numeral_word_iff)
  from run show ?thesis
    using k b keeps_trans [OF k order_refl]
    by (auto simp: w1 w2 bind_eq_Some_conv split: if_splits)
qed

lemma write_groups_safe:
  assumes "otp_safe drv cell" "j + length is \<le> 16" "write_groups drv p is j len s = Some (r, s')"
  shows "keeps cell j s s' \<and> (\<forall>n. r = Inr n \<longrightarrow> is \<noteq> [] \<longrightarrow> bit (cell s' j) 31)"
  using assms(2,3)
proof (induction "is" arbitrary: j len s)
  case (Cons i "is")
  then obtain r1 s1 where g: "write_group drv p i j s = Some (r1, s1)"
    "(case r1 of Inl e \<Rightarrow> Some (Inl e, s1) | Inr ret \<Rightarrow> write_groups drv p is (j + 1) (len + ret) s1) = Some (r, s')"
    by (auto simp: bind_eq_Some_conv)
  have s: "keeps cell j s s1 \<and> (\<forall>n. r1 = Inr n \<longrightarrow> bit (cell s1 j) 31)"
    by (rule write_group_safe [OF assms(1) _ g(1)]) (use Cons.prems in simp)
  show ?case
  proof (cases r1)
    case (Inr ret)
    then have "keeps cell (j + 1) s1 s'"
      using g(2) Cons.IH [of "j + 1" "len + ret" s1] Cons.prems(1) by simp
    then show ?thesis using s Inr keeps_trans [of cell j s s1 "j + 1" s'] by (auto simp: keeps_def)
  qed (use g s in auto)
qed (simp add: keeps_refl)

lemma hash_write_result:
  assumes "efuse_hash_write drv conf p n st = Some (r, st')"
  obtains "st' = st" | x s' q where "st' = \<lparr>write_ok_flag = \<not> isl x, fuses = s'\<rparr>" "1 \<le> n"
    "write_groups drv q (map (\<lambda>k. 8 * k) [0..<(min (nat n) (HASH_BLOCK_LEN conf * 8) + 7) div 8]) (HASH_BLOCK_START conf) 0 (fuses st) = Some (x, s')"
proof (cases "p = None \<or> n < 1")
  case False
  then obtain q where q: "p = Some q" "1 \<le> n" by auto
  then obtain x s' where w: "write_groups drv q (map (\<lambda>k. 8 * k) [0..<(min (nat n) (HASH_BLOCK_LEN conf * 8) + 7) div 8])
      (HASH_BLOCK_START conf) 0 (fuses st) = Some (x, s')"
    using assms by (auto simp: efuse_hash_write_def)
  show ?thesis
    by (rule that(2) [OF _ q(2) w]) (use assms w q in \<open>auto simp: efuse_hash_write_def split: sum.splits\<close>)
qed (use assms that(1) in \<open>auto simp: efuse_hash_write_def split: option.splits\<close>)

lemma efuse_step_inv:
  assumes "otp_safe drv cell" "chip conf" "efuse_inv cell conf st" "efuse_step drv conf st st'"
  shows "efuse_inv cell conf st'"
  using assms(4)
proof (rule efuse_stepE)
  note c = chip_blocks [OF assms(2)]
  fix r assume e: "efuse_secure_enable drv conf st = (r, st')"
  obtain r1 s1 where w: "efuse_write drv (of_nat (SECURE_BOOT_BLOCK conf)) (push_bit (SECURE_BOOT_BIT conf) 1) (fuses st) = (r1, s1)"
    by fastforce
  have k: "keeps cell (SECURE_BOOT_BLOCK conf) (fuses st) s1"
    by (rule keeps_write [OF assms(1) c(5) w])
  show ?thesis
    using e assms(3) k w by (auto simp: efuse_secure_enable_def efuse_inv_def keeps_def split: if_splits)
next
  note c = chip_blocks [OF assms(2)]
  fix p n r assume e: "efuse_hash_write drv conf p n st = Some (r, st')"
  then consider "st' = st" | x s' q where "st' = \<lparr>write_ok_flag = \<not> isl x, fuses = s'\<rparr>" "1 \<le> n"
      "write_groups drv q (map (\<lambda>k. 8 * k) [0..<(min (nat n) (HASH_BLOCK_LEN conf * 8) + 7) div 8]) (HASH_BLOCK_START conf) 0 (fuses st) = Some (x, s')"
    by (rule hash_write_result)
  then show ?thesis
  proof cases
    case 2
    define m where "m = (min (nat n) (HASH_BLOCK_LEN conf * 8) + 7) div 8"
    have m: "1 \<le> m" "m \<le> 5" using 2(2) by (auto simp: m_def c)
    have "keeps cell (HASH_BLOCK_START conf) (fuses st) s' \<and> (\<forall>l. x = Inr l \<longrightarrow> map (\<lambda>k. 8 * k) [0..<m] \<noteq> [] \<longrightarrow>
        bit (cell s' (HASH_BLOCK_START conf)) 31)"
      by (rule write_groups_safe [OF assms(1) _ 2(3) [folded m_def]]) (use m c in simp)
    then show ?thesis using assms(3) m c(4) 2(1) by (cases x) (auto simp: efuse_inv_def keeps_def)
  qed (use assms(3) in simp)
qed

section \<open>The two chips\<close>

text \<open>The second file's functions are the first file's, word for word, with its own block numbers.\<close>

definition tshark_write :: "'s efuse_driver \<Rightarrow> u32 \<Rightarrow> u32 \<Rightarrow> 's \<Rightarrow> int \<times> 's" where
  "tshark_write drv blk val s = efuse_write drv blk val s"

definition tshark_read :: "'s efuse_driver \<Rightarrow> u32 \<Rightarrow> u8 list option \<Rightarrow> nat \<Rightarrow> 's \<Rightarrow> (int \<times> u8 list option) option" where
  "tshark_read drv blk data at s = efuse_read drv blk data at s"

definition tshark_secure_enable :: "'s efuse_driver \<Rightarrow> 's efuse_state \<Rightarrow> int \<times> 's efuse_state" where
  "tshark_secure_enable drv st = efuse_secure_enable drv tshark_conf st"

definition tshark_secure_is_enabled :: "'s efuse_driver \<Rightarrow> 's efuse_state \<Rightarrow> int option" where
  "tshark_secure_is_enabled drv st = efuse_secure_is_enabled drv tshark_conf st"

definition tshark_is_hash_write :: "'s efuse_driver \<Rightarrow> 's efuse_state \<Rightarrow> int option" where
  "tshark_is_hash_write drv st = efuse_is_hash_write drv tshark_conf st"

definition tshark_hash_read ::
  "'s efuse_driver \<Rightarrow> u8 list option \<Rightarrow> int \<Rightarrow> 's efuse_state \<Rightarrow> (int \<times> u8 list option) option" where
  "tshark_hash_read drv hash cnt st = efuse_hash_read drv tshark_conf hash cnt st"

definition tshark_hash_write ::
  "'s efuse_driver \<Rightarrow> u8 list option \<Rightarrow> int \<Rightarrow> 's efuse_state \<Rightarrow> (int \<times> 's efuse_state) option" where
  "tshark_hash_write drv hash cnt st = efuse_hash_write drv tshark_conf hash cnt st"

definition tshark_uid_read ::
  "'s efuse_driver \<Rightarrow> u8 list option \<Rightarrow> int \<Rightarrow> 's efuse_state \<Rightarrow> (int \<times> u8 list option) option" where
  "tshark_uid_read drv uid cnt st = efuse_uid_read drv uid cnt st"

section \<open>A bank of fuses\<close>

text \<open>A concrete driver for the instances: the blocks are a function from block numbers.\<close>

definition bank :: "(nat \<Rightarrow> u32) efuse_driver" where
  "bank = \<lparr>magic_open = \<lambda>_. True, magic_write = \<lambda>m s. (4, s), dev_open = \<lambda>_. True, dev_seek = \<lambda>_ _. True,
     dev_write = \<lambda>off bs s. (4, s(unat off div 4 := s (unat off div 4) OR word_of_bytes bs 0)),
     dev_read = \<lambda>off s. Some (bytes_of_word (s (unat off div 4)))\<rparr>"

lemma bank_otp: "otp_driver bank (\<lambda>s. s)"
proof -
  have "unat (of_nat b * 4 :: u32) div 4 = b" if "b < 16" for b
  proof -
    have "of_nat b * 4 = (of_nat (b * 4) :: u32)" by simp
    then show ?thesis using that by (simp only: unsigned_of_nat) (simp add: take_bit_nat_eq_self)
  qed
  then show ?thesis by (simp add: otp_driver_def bank_def word_of_bytes_of_word)
qed

section \<open>Properties\<close>

text \<open>
  C16: a hash of forty characters written to blank fuses is locked and can be read back: \<open>efuse_hash_write\<close> returns 20 and sets
  the flag that allows secure boot, every hash block then holds its eight digits with the lock bit, other
  blocks are untouched, \<open>efuse_hash_read\<close> returns the text of these blocks and \<open>efuse_is_hash_write\<close> says 1.
\<close>

theorem efuse_hash_roundtrip:
  assumes "otp_driver drv cell" "chip conf" "length p = 40" "0 \<notin> set p" "length mem = 40"
    and "\<forall>k < 5. cell (fuses st) (HASH_BLOCK_START conf + k) = 0"
  shows "\<exists>st'. efuse_hash_write drv conf (Some p) 40 st = Some (20, st') \<and> write_ok_flag st' \<and>
    hash_written cell conf p (fuses st) (fuses st') \<and>
    efuse_hash_read drv conf (Some mem) 40 st' = Some (39, Some (hash_text cell conf (fuses st'))) \<and>
    efuse_is_hash_write drv conf st' = Some 1"
proof -
  obtain st' where st': "efuse_hash_write drv conf (Some p) 40 st = Some (20, st')" "write_ok_flag st'"
    "hash_written cell conf p (fuses st) (fuses st')"
    by (rule hash_write_otp [OF assms(1-4,6)])
  have "bit (cell (fuses st') (HASH_BLOCK_START conf)) 31"
    using st'(3) chip_blocks(2) [OF assms(2)]
    by (simp add: hash_written_def HASH_BIT_def bit_or_iff bit_numeral_word_iff)
  then have "cell (fuses st') (HASH_BLOCK_START conf) \<noteq> 0" by auto
  then show ?thesis
    using st' efuse_hash_read_otp [OF assms(1,2), of mem st'] efuse_is_hash_write_otp [OF assms(1,2)] assms(5) by auto
qed

theorem efuse_hash_roundtrip_witness:
  "\<exists>st'. efuse_hash_write bank sprd_conf (Some (replicate 40 0x61)) 40 \<lparr>write_ok_flag = False, fuses = \<lambda>_. 0\<rparr> = Some (20, st') \<and>
    write_ok_flag st' \<and> hash_written (\<lambda>s. s) sprd_conf (replicate 40 0x61) (\<lambda>_. 0) (fuses st') \<and>
    efuse_hash_read bank sprd_conf (Some (replicate 40 0)) 40 st' = Some (39, Some (hash_text (\<lambda>s. s) sprd_conf (fuses st'))) \<and>
    efuse_is_hash_write bank sprd_conf st' = Some 1"
  using efuse_hash_roundtrip [OF bank_otp, of sprd_conf "replicate 40 0x61" "replicate 40 0"
      "\<lparr>write_ok_flag = False, fuses = \<lambda>_. 0\<rparr>"] by (simp add: chip_def)

text \<open>
  C17: secure boot is never enabled without a locked hash: in every state that sequences of \<open>efuse_secure_enable\<close> and
  \<open>efuse_hash_write\<close> calls can reach from one where secure boot is off and no hash has been written in this
  process, the secure boot bit implies that the first hash block is locked, even if any of the driver's calls
  fails along the way.
\<close>

theorem secure_boot_needs_hash:
  assumes "otp_safe drv cell" "chip conf" "(efuse_step drv conf)\<^sup>*\<^sup>* st st'"
    and "\<not> write_ok_flag st" "\<not> bit (cell (fuses st) (SECURE_BOOT_BLOCK conf)) (SECURE_BOOT_BIT conf)"
    and "bit (cell (fuses st') (SECURE_BOOT_BLOCK conf)) (SECURE_BOOT_BIT conf)"
  shows "bit (cell (fuses st') (HASH_BLOCK_START conf)) 31"
proof -
  have "efuse_inv cell conf st" using assms(4,5) by (simp add: efuse_inv_def)
  with assms(3) have "efuse_inv cell conf st'"
    by (induction rule: rtranclp_induct) (simp_all add: efuse_step_inv [OF assms(1,2)])
  then show ?thesis using assms(6) by (simp add: efuse_inv_def)
qed

theorem secure_boot_needs_hash_witness:
  "\<exists>st st'. (efuse_step bank sprd_conf)\<^sup>*\<^sup>* st st' \<and> \<not> write_ok_flag st \<and> bit (fuses st' 2) 0 \<and> bit (fuses st' 7) 31"
proof -
  define st :: "(nat \<Rightarrow> u32) efuse_state" where "st = \<lparr>write_ok_flag = False, fuses = \<lambda>_. 0\<rparr>"
  obtain st1 where st1: "efuse_hash_write bank sprd_conf (Some (replicate 40 0x61)) 40 st = Some (20, st1)" "write_ok_flag st1"
    by (rule hash_write_otp [OF bank_otp, of sprd_conf "replicate 40 0x61" st]) (simp_all add: chip_def st_def)
  obtain s2 where s2: "efuse_write bank (of_nat 2) 1 (fuses st1) = (4, s2)" "s2 = (fuses st1)(2 := fuses st1 2 OR 1)"
    by (rule efuse_write_otp [OF bank_otp, of 2 1 "fuses st1"]) simp_all
  define st2 where "st2 = st1\<lparr>fuses := s2\<rparr>"
  have "efuse_secure_enable bank sprd_conf st1 = (0, st2)"
    using st1(2) s2(1) by (simp add: efuse_secure_enable_def sprd_conf_def st2_def)
  then have steps: "(efuse_step bank sprd_conf)\<^sup>*\<^sup>* st st2"
    using st1(1) by (meson efuse_step.intros rtranclp.rtrancl_into_rtrancl rtranclp.rtrancl_refl)
  have b: "bit (fuses st2 2) 0" by (simp add: st2_def s2(2) bit_or_iff)
  have "bit (fuses st2 (HASH_BLOCK_START sprd_conf)) 31"
    by (rule secure_boot_needs_hash [OF otp_driver_safe [OF bank_otp] _ steps])
      (use b in \<open>simp_all add: chip_def st_def sprd_conf_def\<close>)
  then show ?thesis using steps b by (intro exI [of _ st] exI [of _ st2]) (simp add: st_def sprd_conf_def)
qed

end
