(* ===== verification/Sitm.thy ===== *)
theory Sitm
  imports Prelude
begin

text \<open>
  The Bluetooth transport splitter, \<^verbatim>\<open>libs/libbt/src/sitm.c\<close>: two threads copy H4 frames between
  the serial port and the host stack.  The frame parser is a state machine driven by single bytes; where it
  reads from and whom it hands a frame are its callbacks, here functions on a state \<open>'s\<close>.
\<close>

section \<open>The frame parser\<close>

datatype receive_state = BRAND_NEW | PREAMBLE | BODY | IGNORE | FINISHED

record packet_receive_data =
  rstate :: receive_state
  bytes_remaining :: u16
  rtype :: u8
  preamble :: "u8 list"
  rindex :: u16
  rbuffer :: "u8 list"

definition DATA_TYPE_COMMAND :: u8 where "DATA_TYPE_COMMAND = 1"
definition DATA_TYPE_ACL :: u8 where "DATA_TYPE_ACL = 2"
definition DATA_TYPE_SCO :: u8 where "DATA_TYPE_SCO = 3"
definition DATA_TYPE_EVENT :: u8 where "DATA_TYPE_EVENT = 4"
definition PREAMBLE_BUFFER_SIZE :: nat where "PREAMBLE_BUFFER_SIZE = 5"
definition HCI_HAL_SERIAL_BUFFER_SIZE :: nat where "HCI_HAL_SERIAL_BUFFER_SIZE = 1026"

definition preamble_sizes :: "nat list" where
  "preamble_sizes = [3, 4, 3, 2]"

definition RETRIEVE_ACL_LENGTH :: "u8 list \<Rightarrow> u16" where
  "RETRIEVE_ACL_LENGTH p = ucast (push_bit 8 (ucast (p ! 4) :: u32) OR ucast (p ! 3))"

text \<open>The cases of the \<open>switch\<close>; \<open>BRAND_NEW\<close> falls through to \<open>PREAMBLE\<close>.  \<open>None\<close> is an access outside the arrays.\<close>

definition begin_packet :: "u8 \<Rightarrow> packet_receive_data \<Rightarrow> packet_receive_data" where
  "begin_packet byte rd = rd\<lparr>rtype := byte, bytes_remaining := of_nat (preamble_sizes ! (unat byte - 1) + 1),
     preamble := replicate PREAMBLE_BUFFER_SIZE 0, rindex := 0, rstate := PREAMBLE\<rparr>"

definition preamble_byte :: "u8 \<Rightarrow> packet_receive_data \<Rightarrow> packet_receive_data option" where
  "preamble_byte byte rd =
     Option.bind (mem_write (preamble rd) (unat (rindex rd)) [byte]) (\<lambda>p.
     let rd = rd\<lparr>preamble := p, rindex := rindex rd + 1, bytes_remaining := bytes_remaining rd - 1\<rparr>
     in if bytes_remaining rd = 0
        then let rem = (if rtype rd = DATA_TYPE_ACL then RETRIEVE_ACL_LENGTH p else ucast byte)
             in Option.bind (mem_read p 0 (unat (rindex rd))) (\<lambda>pre.
                map_option (\<lambda>b. rd\<lparr>bytes_remaining := rem, rbuffer := b, rstate := (if rem > 0 then BODY else FINISHED)\<rparr>)
                  (mem_write (rbuffer rd) 0 pre))
        else Some rd)"

text \<open>\<open>data_ready n\<close> is the callback asked for \<open>n\<close> bytes: its return value and the bytes it stored.  A negative result
  is added to the 16-bit index like any other.\<close>

definition body_byte ::
  "(nat \<Rightarrow> 's \<Rightarrow> int \<times> u8 list \<times> 's) \<Rightarrow> u8 \<Rightarrow> packet_receive_data \<Rightarrow> 's \<Rightarrow> (packet_receive_data \<times> 's) option" where
  "body_byte data_ready byte rd s =
     Option.bind (mem_write (rbuffer rd) (unat (rindex rd)) [byte]) (\<lambda>b.
     let idx = rindex rd + 1; rem = bytes_remaining rd - 1;
         (ret, bs, s) = data_ready (unat rem) s
     in Option.bind (mem_write b (unat idx) bs) (\<lambda>b.
        let rem = rem - of_int ret
        in Some (rd\<lparr>rbuffer := b, rindex := idx + of_int ret, bytes_remaining := rem,
                    rstate := (if rem = 0 then FINISHED else BODY)\<rparr>, s)))"

text \<open>The flag says that the function returns from inside the \<open>switch\<close>.\<close>

definition parse_byte ::
  "(nat \<Rightarrow> 's \<Rightarrow> int \<times> u8 list \<times> 's) \<Rightarrow> u8 \<Rightarrow> packet_receive_data \<Rightarrow> 's \<Rightarrow> (bool \<times> packet_receive_data \<times> 's) option" where
  "parse_byte data_ready byte rd s =
     (case rstate rd of
        BRAND_NEW \<Rightarrow>
          if byte > DATA_TYPE_EVENT \<or> byte < DATA_TYPE_COMMAND then Some (False, rd, s)
          else map_option (\<lambda>rd. (False, rd, s)) (preamble_byte byte (begin_packet byte rd))
      | PREAMBLE \<Rightarrow> map_option (\<lambda>rd. (False, rd, s)) (preamble_byte byte rd)
      | BODY \<Rightarrow> map_option (\<lambda>(rd, s). (False, rd, s)) (body_byte data_ready byte rd s)
      | IGNORE \<Rightarrow>
          let rem = bytes_remaining rd - 1
          in if rem = 0 then Some (True, rd\<lparr>bytes_remaining := rem, rstate := BRAND_NEW\<rparr>, s)
             else Some (False, rd\<lparr>bytes_remaining := rem\<rparr>, s)
      | FINISHED \<Rightarrow> Some (False, rd, s))"

text \<open>The loop: \<open>None\<close> if it does not end or leaves an array.  \<open>frame_complete\<close> gets the frame, the first \<open>index\<close> bytes
  of the buffer.\<close>

partial_function (option) parse_frame ::
  "(nat \<Rightarrow> 's \<Rightarrow> int \<times> u8 list \<times> 's) \<Rightarrow> (u8 list \<Rightarrow> 's \<Rightarrow> 's) \<Rightarrow> packet_receive_data \<Rightarrow> 's \<Rightarrow> (packet_receive_data \<times> 's) option" where
  "parse_frame data_ready frame_complete rd s =
     (case data_ready 1 s of (ret, bs, s) \<Rightarrow>
      if ret \<noteq> 1 then Some (rd, s)
      else Option.bind (parse_byte data_ready (hd bs) rd s) (\<lambda>(returned, rd, s).
           if returned then Some (rd, s)
           else if rstate rd = FINISHED
           then Option.bind (mem_read (rbuffer rd) 0 (unat (rindex rd))) (\<lambda>fr.
                Some (rd\<lparr>rstate := BRAND_NEW\<rparr>, frame_complete fr s))
           else parse_frame data_ready frame_complete rd s))"

section \<open>The two directions\<close>

text \<open>What \<open>read\<close> meets on a stream descriptor: bytes that have arrived, or an error.\<close>

datatype arrival = Bytes "u8 list" | Read_error

fun fd_read :: "nat \<Rightarrow> arrival list \<Rightarrow> int \<times> u8 list \<times> arrival list" where
  "fd_read n [] = (0, [], [])"
| "fd_read n (Read_error # as) = (-1, [], as)"
| "fd_read n (Bytes [] # as) = fd_read n as"
| "fd_read n (Bytes (b # bs) # as) =
     (let xs = take n (b # bs)
      in (int (length xs), xs, if drop n (b # bs) = [] then as else Bytes (drop n (b # bs)) # as))"

text \<open>The descriptors and buffers of the module, with what waits on the serial port and on the stack's socket and what has been
  written to each; \<open>-1\<close> is \<open>INVALID_FD\<close>.\<close>

record sitm_state =
  userial_fd :: int
  stack_fd :: int
  vendor_fd :: int
  sco_fd :: int
  tx_fds :: "int \<times> int"
  rx_fds :: "int \<times> int"
  recv_stack_buf :: "packet_receive_data option"
  recv_serial_buf :: "packet_receive_data option"
  serial_in :: "arrival list"
  stack_in :: "arrival list"
  serial_out :: "u8 list list"
  stack_out :: "u8 list list"
  sco_out :: "u8 list list"

definition stack_data_ready :: "nat \<Rightarrow> sitm_state \<Rightarrow> int \<times> u8 list \<times> sitm_state" where
  "stack_data_ready n st = (let (ret, bs, as) = fd_read n (stack_in st) in (ret, bs, st\<lparr>stack_in := as\<rparr>))"

definition serial_data_ready :: "nat \<Rightarrow> sitm_state \<Rightarrow> int \<times> u8 list \<times> sitm_state" where
  "serial_data_ready n st = (let (ret, bs, as) = fd_read n (serial_in st) in (ret, bs, st\<lparr>serial_in := as\<rparr>))"

definition stack_data_transmit :: "u8 list \<Rightarrow> sitm_state \<Rightarrow> sitm_state" where
  "stack_data_transmit data st = st\<lparr>stack_out := stack_out st @ [data]\<rparr>"

text \<open>The build options \<open>BYTE_ALIGNMENT\<close> and \<open>USERIAL_SCO_PORT\<close>; with the latter, \<open>open_sco_userial\<close> is the descriptor its
  \<open>open\<close> returns.\<close>

definition aligned_frame :: "nat \<Rightarrow> u8 list \<Rightarrow> u8 list" where
  "aligned_frame alignment data =
     (if alignment > 1 then data @ replicate (alignment - (length data + alignment) mod alignment) 0 else data)"

definition serial_data_transmit :: "nat \<Rightarrow> int option \<Rightarrow> u8 list \<Rightarrow> sitm_state \<Rightarrow> sitm_state" where
  "serial_data_transmit alignment open_sco data st =
     (case open_sco of
        Some fd \<Rightarrow>
          if data \<noteq> [] \<and> hd data = DATA_TYPE_SCO
          then let st = (if sco_fd st < 0 then st\<lparr>sco_fd := fd\<rparr> else st)
               in if sco_fd st > 0 then st\<lparr>sco_out := sco_out st @ [data]\<rparr> else st
          else st\<lparr>serial_out := serial_out st @ [aligned_frame alignment data]\<rparr>
      | None \<Rightarrow> st\<lparr>serial_out := serial_out st @ [aligned_frame alignment data]\<rparr>)"

text \<open>The threads, driven by what \<open>select\<close> reports.\<close>

datatype select_result = Select_failed | Shutdown | Readable

fun sitm_read_th :: "select_result list \<Rightarrow> sitm_state \<Rightarrow> sitm_state option" where
  "sitm_read_th [] st = Some st"
| "sitm_read_th (Select_failed # es) st = Some st"
| "sitm_read_th (Shutdown # es) st = Some (st\<lparr>rx_fds := (-1, snd (rx_fds st))\<rparr>)"
| "sitm_read_th (Readable # es) st =
     Option.bind (recv_serial_buf st) (\<lambda>rd.
     Option.bind (parse_frame serial_data_ready stack_data_transmit rd st) (\<lambda>(rd, st).
     sitm_read_th es (st\<lparr>recv_serial_buf := Some rd\<rparr>)))"

fun sitm_write_th :: "nat \<Rightarrow> int option \<Rightarrow> select_result list \<Rightarrow> sitm_state \<Rightarrow> sitm_state option" where
  "sitm_write_th alignment open_sco [] st = Some st"
| "sitm_write_th alignment open_sco (Select_failed # es) st = Some st"
| "sitm_write_th alignment open_sco (Shutdown # es) st = Some (st\<lparr>tx_fds := (-1, snd (tx_fds st))\<rparr>)"
| "sitm_write_th alignment open_sco (Readable # es) st =
     Option.bind (recv_stack_buf st) (\<lambda>rd.
     Option.bind (parse_frame stack_data_ready (serial_data_transmit alignment open_sco) rd st) (\<lambda>(rd, st).
     sitm_write_th alignment open_sco es (st\<lparr>recv_stack_buf := Some rd\<rparr>)))"

section \<open>Starting and stopping\<close>

definition fresh_receive_data :: "nat \<Rightarrow> packet_receive_data" where
  "fresh_receive_data alignment =
     \<lparr>rstate = BRAND_NEW, bytes_remaining = 0, rtype = 0, preamble = replicate PREAMBLE_BUFFER_SIZE 0, rindex = 0,
      rbuffer = replicate (HCI_HAL_SERIAL_BUFFER_SIZE + alignment) 0\<rparr>"

text \<open>The \<open>error:\<close> label.\<close>

definition sitm_error :: "sitm_state \<Rightarrow> int \<times> sitm_state" where
  "sitm_error st = (-1, st\<lparr>stack_fd := -1, vendor_fd := -1, recv_serial_buf := None, recv_stack_buf := None\<rparr>)"

text \<open>\<open>pairs\<close> are the results of the three \<open>socketpair\<close> calls and \<open>threads\<close> those of \<open>pthread_create\<close>;  \<open>memory\<close> says whether each
  \<open>malloc\<close> succeeds.  \<open>memset\<close> runs before its result is compared with the null pointer.\<close>

definition sitm_server_start_up ::
  "nat \<Rightarrow> (nat \<Rightarrow> (int \<times> int) option) \<Rightarrow> (nat \<Rightarrow> int) \<Rightarrow> (nat \<Rightarrow> bool) \<Rightarrow> int \<Rightarrow> sitm_state \<Rightarrow> (int \<times> sitm_state) option" where
  "sitm_server_start_up alignment pairs threads memory fd st =
     (case pairs 0 of
        None \<Rightarrow> Some (sitm_error st)
      | Some fds \<Rightarrow>
          case pairs 1 of
            None \<Rightarrow> Some (sitm_error st)
          | Some tx \<Rightarrow>
              let st = st\<lparr>tx_fds := tx\<rparr>
              in case pairs 2 of
                   None \<Rightarrow> Some (sitm_error st)
                 | Some rx \<Rightarrow>
                     let st = st\<lparr>rx_fds := rx, userial_fd := fd, stack_fd := fst fds, vendor_fd := snd fds\<rparr>
                     in if threads 0 < 0 \<or> threads 1 < 0 then Some (sitm_error st)
                        else if \<not> memory 0 \<or> \<not> memory 1 then None
                        else Some (fst fds, st\<lparr>recv_serial_buf := Some (fresh_receive_data alignment),
                                               recv_stack_buf := Some (fresh_receive_data alignment)\<rparr>))"

definition sitm_server_shut_down :: "sitm_state \<Rightarrow> int \<times> sitm_state" where
  "sitm_server_shut_down st =
     (0, st\<lparr>rx_fds := (fst (rx_fds st), -1), tx_fds := (fst (tx_fds st), -1), stack_fd := -1, vendor_fd := -1,
            recv_serial_buf := None, recv_stack_buf := None, sco_fd := -1\<rparr>)"

end
