(* ===== verification/SitmProps.thy ===== *)
theory SitmProps
  imports Sitm
begin

text \<open>
  Framing: on a byte stream that consists of H4 frames, in whatever pieces the bytes arrive and with whatever noise before
  a frame, the parser delivers exactly the frames.
\<close>

lemma append_prefix: "bs @ p = ys @ r \<Longrightarrow> length bs \<le> length ys \<Longrightarrow> \<exists>zs. ys = bs @ zs \<and> p = zs @ r"
  by (auto simp: append_eq_append_conv2)

lemma mem_write_nil: "off \<le> length xs \<Longrightarrow> mem_write xs off [] = Some xs"
  by (simp add: mem_write_def)

section \<open>H4 frames\<close>

definition preamble_len :: "u8 \<Rightarrow> nat" where
  "preamble_len t = preamble_sizes ! (unat t - 1)"

definition body_len :: "u8 list \<Rightarrow> nat" where
  "body_len f = (if hd f = DATA_TYPE_ACL then unat (f ! 3) + 256 * unat (f ! 4) else unat (f ! preamble_len (hd f)))"

definition frame_type :: "u8 \<Rightarrow> bool" where
  "frame_type b \<longleftrightarrow> DATA_TYPE_COMMAND \<le> b \<and> b \<le> DATA_TYPE_EVENT"

definition h4_frame :: "u8 list \<Rightarrow> bool" where
  "h4_frame f \<longleftrightarrow> f \<noteq> [] \<and> frame_type (hd f) \<and> preamble_len (hd f) < length f \<and> length f = preamble_len (hd f) + 1 + body_len f"

lemma frame_type_cases:
  assumes "frame_type t" obtains "t = 1" | "t = 2" | "t = 3" | "t = 4"
proof -
  have "unat t = 1 \<or> unat t = 2 \<or> unat t = 3 \<or> unat t = 4"
    using assms by (simp add: frame_type_def DATA_TYPE_COMMAND_def DATA_TYPE_EVENT_def word_le_nat_alt) arith
  then show ?thesis using that by (auto simp: word_unat_eq_iff)
qed

lemma preamble_len_bounds: "frame_type t \<Longrightarrow> 2 \<le> preamble_len t \<and> preamble_len t \<le> 4"
  by (erule frame_type_cases) (simp_all add: preamble_len_def preamble_sizes_def)

lemma preamble_len_acl: "preamble_len DATA_TYPE_ACL = 4"
  by (simp add: preamble_len_def preamble_sizes_def DATA_TYPE_ACL_def)

lemma unat_u16_add: "unat x + unat y < 65536 \<Longrightarrow> unat (x + y :: u16) = unat x + unat y"
  using unat_add_lem [of x y] by simp

lemma unat_u16_Suc: "unat x + 1 < 65536 \<Longrightarrow> unat (x + 1 :: u16) = unat x + 1"
  using unat_u16_add [of x 1] by simp

lemma unat_u16_pred: "0 < unat x \<Longrightarrow> unat (x - 1 :: u16) = unat x - 1"
  by (rule unat_minus_one) auto

lemma unat_u16_of_nat: "n < 65536 \<Longrightarrow> unat (of_nat n :: u16) = n"
  by (simp add: unsigned_of_nat take_bit_nat_eq_self)

lemma unat_acl_length: "unat (RETRIEVE_ACL_LENGTH p) = unat (p ! 3) + 256 * unat (p ! 4)"
proof -
  have lt: "unat (p ! 3) < 256" "unat (p ! 4) < 256"
    by (rule order_less_le_trans [OF unsigned_less], simp)+
  have u: "unat (ucast b :: u32) = unat b" for b :: u8
    by (simp add: unsigned_ucast_eq take_bit_nat_eq_self_iff order_less_trans [OF unsigned_less])
  have "push_bit 8 (ucast (p ! 4) :: u32) AND ucast (p ! 3) = 0"
    by (auto simp: bit_eq_iff bit_simps dest: bit_imp_le_length)
  then have "push_bit 8 (ucast (p ! 4) :: u32) OR ucast (p ! 3) = ucast (p ! 4) * 256 + ucast (p ! 3)"
    by (simp only: disjunctive_add_eq_or [symmetric] push_bit_eq_mult) simp
  moreover have "unat (ucast (p ! 4) * 256 + ucast (p ! 3) :: u32) = unat (p ! 3) + 256 * unat (p ! 4)"
  proof -
    have "unat (p ! 4) * 256 < 4294967296" "unat (p ! 4) * 256 + unat (p ! 3) < 4294967296" using lt by linarith+
    then show ?thesis by (simp add: unat_word_ariths u)
  qed
  moreover have "unat (p ! 3) + 256 * unat (p ! 4) < 65536" using lt by linarith
  ultimately show ?thesis
    by (simp only: RETRIEVE_ACL_LENGTH_def unsigned_ucast_eq) (simp add: take_bit_nat_eq_self)
qed

section \<open>Sources of bytes\<close>

text \<open>The callbacks of the parser as an interface: a read takes a non-empty piece of the bytes that are still to come, if there
  are any and some are asked for, and nothing but the delivery of a frame appends to what has been
  delivered.  \<open>sent\<close> is the form in which a frame leaves.\<close>

locale frame_channel =
  fixes data_ready :: "nat \<Rightarrow> 's \<Rightarrow> int \<times> u8 list \<times> 's"
    and frame_complete :: "u8 list \<Rightarrow> 's \<Rightarrow> 's"
    and live :: "'s \<Rightarrow> bool"
    and pending :: "'s \<Rightarrow> u8 list"
    and delivered :: "'s \<Rightarrow> u8 list list"
    and sent :: "u8 list \<Rightarrow> u8 list"
  assumes read_piece: "live s \<Longrightarrow> \<exists>bs s'. data_ready n s = (int (length bs), bs, s') \<and> length bs \<le> n \<and>
      pending s = bs @ pending s' \<and> live s' \<and> delivered s' = delivered s \<and> (0 < n \<longrightarrow> pending s \<noteq> [] \<longrightarrow> bs \<noteq> [])"
    and deliver: "live s \<Longrightarrow> live (frame_complete f s) \<and> pending (frame_complete f s) = pending s \<and>
      delivered (frame_complete f s) = delivered s @ [sent f]"
begin

lemma read_byte:
  assumes "live s" "pending s = b # rest"
  obtains s' where "data_ready 1 s = (1, [b], s')" "pending s' = rest" "live s'" "delivered s' = delivered s"
proof -
  obtain bs s' where r: "data_ready 1 s = (int (length bs), bs, s')" "length bs \<le> 1" "pending s = bs @ pending s'"
    "live s'" "delivered s' = delivered s" "bs \<noteq> []"
    using read_piece [OF assms(1), of 1] assms(2) by auto
  then have "bs = [b]" using assms(2) by (cases bs) auto
  then show ?thesis using that r assms(2) by simp
qed

lemma parse_frame_byte:
  assumes "data_ready 1 s = (1, [b], s')"
  shows "parse_frame data_ready frame_complete rd s = Option.bind (parse_byte data_ready b rd s') (\<lambda>(returned, rd, s).
    if returned then Some (rd, s)
    else if rstate rd = FINISHED
    then Option.bind (mem_read (rbuffer rd) 0 (unat (rindex rd))) (\<lambda>fr. Some (rd\<lparr>rstate := BRAND_NEW\<rparr>, frame_complete fr s))
    else parse_frame data_ready frame_complete rd s)"
  by (subst parse_frame.simps) (simp only: assms prod.case list.sel, simp)

text \<open>The parser's call has taken one frame: it returns, ready for the next, with the frame delivered.\<close>

definition finishes :: "u8 list \<Rightarrow> u8 list \<Rightarrow> packet_receive_data \<Rightarrow> 's \<Rightarrow> (packet_receive_data \<times> 's) option \<Rightarrow> bool" where
  "finishes f rest rd s r \<longleftrightarrow>
     (\<exists>rd' s'. r = Some (rd', s') \<and> rstate rd' = BRAND_NEW \<and> length (rbuffer rd') = length (rbuffer rd) \<and> live s' \<and>
        pending s' = rest \<and> delivered s' = delivered s @ [sent f])"

lemma finishes_complete:
  assumes "live s'" "pending s' = rest" "delivered s' = delivered s" "length (rbuffer rd') = length (rbuffer rd)"
  shows "finishes f rest rd s (Some (rd'\<lparr>rstate := BRAND_NEW\<rparr>, frame_complete f s'))"
  using assms deliver [OF assms(1), of f] by (simp add: finishes_def)

lemma finishes_mono:
  "finishes f rest rd' s' r \<Longrightarrow> delivered s' = delivered s \<Longrightarrow> length (rbuffer rd') = length (rbuffer rd) \<Longrightarrow> finishes f rest rd s r"
  by (simp add: finishes_def)

lemma parse_body:
  assumes "rstate rd = BODY" "unat (rindex rd) = length seen" "unat (bytes_remaining rd) = length xs" "xs \<noteq> []"
    and "take (length seen) (rbuffer rd) = seen" "length seen + length xs \<le> length (rbuffer rd)" "length (rbuffer rd) < 65536"
    and "live s" "pending s = xs @ rest"
  shows "finishes (seen @ xs) rest rd s (parse_frame data_ready frame_complete rd s)"
  using assms
proof (induction xs arbitrary: rd seen s rule: length_induct)
  case (1 xs)
  then obtain b ys where xs: "xs = b # ys" by (cases xs) auto
  obtain s1 where s1: "data_ready 1 s = (1, [b], s1)" "pending s1 = ys @ rest" "live s1" "delivered s1 = delivered s"
    by (rule read_byte [OF "1.prems"(8)]) (use "1.prems"(9) xs in simp)
  define rem where "rem = bytes_remaining rd - 1"
  have rem: "unat rem = length ys" using "1.prems"(3) xs by (simp add: rem_def unat_u16_pred)
  obtain bs s2 where s2: "data_ready (length ys) s1 = (int (length bs), bs, s2)" "length bs \<le> length ys"
    "pending s1 = bs @ pending s2" "live s2" "delivered s2 = delivered s1" "ys \<noteq> [] \<Longrightarrow> bs \<noteq> []"
    using read_piece [OF s1(3), of "length ys"] s1(2) by auto
  obtain zs where zs: "ys = bs @ zs" "pending s2 = zs @ rest"
    using append_prefix [OF s2(3) [symmetric, unfolded s1(2)] s2(2)] by blast
  define rd' where "rd' = rd\<lparr>rbuffer := seen @ b # bs @ drop (length seen + 1 + length bs) (rbuffer rd),
    rindex := rindex rd + 1 + of_nat (length bs), bytes_remaining := rem - of_nat (length bs),
    rstate := (if zs = [] then FINISHED else BODY)\<rparr>"
  have l: "length seen + 1 + length bs + length zs \<le> length (rbuffer rd)" "length (rbuffer rd) < 65536"
    using "1.prems"(6,7) xs zs by simp_all
  have idx: "unat (rindex rd + 1) = length seen + 1" "unat (rindex rd + 1 + of_nat (length bs)) = length seen + 1 + length bs"
    using "1.prems"(2) l by (simp_all add: unat_u16_Suc unat_u16_add unat_u16_of_nat)
  have r': "unat (rem - of_nat (length bs)) = length zs"
    using rem zs l by (subst unat_sub) (simp_all add: word_le_nat_alt unat_u16_of_nat)
  then have r0: "rem - of_nat (length bs) = 0 \<longleftrightarrow> zs = []" by (metis length_0_conv unat_eq_0)
  have lb: "length (rbuffer rd') = length (rbuffer rd)" using l by (simp add: rd'_def)
  have "mem_write (rbuffer rd) (unat (rindex rd)) [b] = Some (seen @ b # drop (length seen + 1) (rbuffer rd))"
    using "1.prems"(2,5) l by (simp add: mem_write_def)
  moreover have "mem_write (seen @ b # drop (length seen + 1) (rbuffer rd)) (length seen + 1) bs =
      Some (seen @ b # bs @ drop (length seen + 1 + length bs) (rbuffer rd))"
    using l by (simp add: mem_write_def add.commute)
  ultimately have body: "body_byte data_ready b rd s1 = Some (rd', s2)"
    using r0 by (simp add: body_byte_def Let_def rem [unfolded rem_def] s2(1) idx(1) rd'_def rem_def)
  show ?case
  proof (cases "zs = []")
    case True
    have "mem_read (rbuffer rd') 0 (unat (rindex rd')) = Some (seen @ xs)"
      using l idx(2) by (simp add: rd'_def mem_read_def xs zs True)
    then have "parse_frame data_ready frame_complete rd s = Some (rd'\<lparr>rstate := BRAND_NEW\<rparr>, frame_complete (seen @ xs) s2)"
      using True by (subst parse_frame_byte [OF s1(1)]) (simp add: parse_byte_def "1.prems"(1) body, simp add: rd'_def)
    then show ?thesis
      using finishes_complete [OF s2(4) _ _ lb] zs True s1(4) s2(5) by simp
  next
    case False
    have "finishes ((seen @ b # bs) @ zs) rest rd' s2 (parse_frame data_ready frame_complete rd' s2)"
      by (rule "1.IH" [rule_format])
        (use False xs zs idx(2) r' l s2(4) lb in \<open>simp_all add: rd'_def\<close>)
    moreover have "parse_frame data_ready frame_complete rd s = parse_frame data_ready frame_complete rd' s2"
      using False by (subst parse_frame_byte [OF s1(1)]) (simp add: parse_byte_def "1.prems"(1) body, simp add: rd'_def)
    ultimately show ?thesis
      using lb s1(4) s2(5) by (auto simp: xs zs intro: finishes_mono)
  qed
qed

text \<open>The preamble, the byte at hand included.\<close>

lemma parse_preamble:
  assumes "rstate rd = PREAMBLE" "unat (rindex rd) = length seen" "unat (bytes_remaining rd) = length xs" "xs \<noteq> []"
    and "preamble rd = seen @ replicate (5 - length seen) 0" "length seen + length xs = preamble_len (rtype rd) + 1"
    and "frame_type (rtype rd)" "hd (seen @ xs @ body) = rtype rd" "length body = body_len (seen @ xs @ body)"
    and "length (seen @ xs @ body) \<le> length (rbuffer rd)" "length (rbuffer rd) < 65536"
    and "live s" "pending s = xs @ body @ rest"
  shows "finishes (seen @ xs @ body) rest rd s (parse_frame data_ready frame_complete rd s)"
  using assms
proof (induction xs arbitrary: rd seen s)
  case (Cons b ys)
  have n: "length seen + 1 + length ys \<le> 5" using Cons.prems(6,7) preamble_len_bounds [of "rtype rd"] by simp
  obtain s1 where s1: "data_ready 1 s = (1, [b], s1)" "pending s1 = ys @ body @ rest" "live s1" "delivered s1 = delivered s"
    by (rule read_byte [OF Cons.prems(12)]) (use Cons.prems(13) in simp)
  define p where "p = (seen @ [b]) @ replicate (5 - length (seen @ [b])) 0"
  have "replicate (5 - length seen) (0 :: u8) = 0 # replicate (5 - length (seen @ [b])) 0"
    using n by (simp flip: replicate_Suc add: Suc_diff_Suc)
  then have w: "mem_write (preamble rd) (unat (rindex rd)) [b] = Some p"
    using n Cons.prems(2,5) by (simp add: mem_write_def p_def)
  have idx: "unat (rindex rd + 1) = length seen + 1"
    using Cons.prems(2) n by (simp add: unat_u16_Suc)
  have rem: "unat (bytes_remaining rd - 1) = length ys"
    using Cons.prems(3) by (simp add: unat_u16_pred)
  then have rem0: "bytes_remaining rd - 1 = 0 \<longleftrightarrow> ys = []" by (metis length_0_conv unat_eq_0)
  define rd1 where "rd1 = rd\<lparr>preamble := p, rindex := rindex rd + 1, bytes_remaining := bytes_remaining rd - 1\<rparr>"
  show ?case
  proof (cases "ys = []")
    case False
    then have "bytes_remaining rd - 1 \<noteq> 0" using rem0 by simp
    then have "preamble_byte b rd = Some rd1"
      by (simp add: preamble_byte_def w rd1_def Let_def)
    then have "parse_frame data_ready frame_complete rd s = parse_frame data_ready frame_complete rd1 s1"
      by (subst parse_frame_byte [OF s1(1)]) (simp add: parse_byte_def Cons.prems(1), simp add: rd1_def Cons.prems(1))
    moreover have "finishes ((seen @ [b]) @ ys @ body) rest rd1 s1 (parse_frame data_ready frame_complete rd1 s1)"
      by (rule Cons.IH)
        (use False Cons.prems idx rem s1 in \<open>simp_all add: rd1_def p_def\<close>)
    ultimately show ?thesis
      using s1(4) by (auto simp: rd1_def intro: finishes_mono)
  next
    case True
    define f where "f = seen @ [b] @ body"
    define r where "r = (if rtype rd = DATA_TYPE_ACL then RETRIEVE_ACL_LENGTH p else ucast b :: u16)"
    have pl: "length seen = preamble_len (rtype rd)" using Cons.prems(6) True by simp
    have hd: "hd f = rtype rd" using Cons.prems(8) True by (simp add: f_def)
    have "unat r = body_len f"
    proof (cases "rtype rd = DATA_TYPE_ACL")
      case acl: True
      then have "length seen = 4" using pl preamble_len_acl by simp
      then have "p = seen @ [b]" "f ! 3 = p ! 3" "f ! 4 = p ! 4" by (simp_all add: p_def f_def nth_append)
      then show ?thesis using acl hd by (simp add: r_def unat_acl_length body_len_def)
    next
      case False
      have "f ! length seen = b" by (simp add: f_def)
      then show ?thesis
        using False hd pl by (simp add: r_def body_len_def unsigned_ucast_eq take_bit_nat_eq_self
            order_less_trans [OF unsigned_less])
    qed
    then have r: "unat r = length body" using Cons.prems(9) True by (simp add: f_def)
    have r0: "r = 0 \<longleftrightarrow> body = []" using r by (metis length_0_conv unat_eq_0)
    define rd2 where "rd2 = rd1\<lparr>bytes_remaining := r, rbuffer := (seen @ [b]) @ drop (length seen + 1) (rbuffer rd),
      rstate := (if body = [] then FINISHED else BODY)\<rparr>"
    have l: "length seen + 1 + length body \<le> length (rbuffer rd)" using Cons.prems(10) True by simp
    have "mem_read p 0 (length seen + 1) = Some (seen @ [b])" by (simp add: mem_read_def p_def)
    moreover have "mem_write (rbuffer rd) 0 (seen @ [b]) = Some ((seen @ [b]) @ drop (length seen + 1) (rbuffer rd))"
      using l by (simp add: mem_write_def)
    ultimately have pb: "preamble_byte b rd = Some rd2"
      using rem0 True r0 unfolding preamble_byte_def w Let_def
      by (simp add: idx rd1_def rd2_def r_def [symmetric] word_gt_0)
    have st: "rstate rd2 = (if body = [] then FINISHED else BODY)" "length (rbuffer rd2) = length (rbuffer rd)"
      "unat (rindex rd2) = length (seen @ [b])" "take (length (seen @ [b])) (rbuffer rd2) = seen @ [b]"
      using l idx by (simp_all add: rd2_def rd1_def)
    show ?thesis
    proof (cases "body = []")
      case empty: True
      have "mem_read (rbuffer rd2) 0 (unat (rindex rd2)) = Some f"
        using st(2-4) l empty by (simp add: mem_read_def f_def)
      then have "parse_frame data_ready frame_complete rd s = Some (rd2\<lparr>rstate := BRAND_NEW\<rparr>, frame_complete f s1)"
        using st(1) empty by (subst parse_frame_byte [OF s1(1)]) (simp add: parse_byte_def Cons.prems(1) pb)
      then show ?thesis
        using finishes_complete [OF s1(3) _ s1(4) st(2), of rest f] s1(2) True empty by (simp add: f_def)
    next
      case False
      have "finishes ((seen @ [b]) @ body) rest rd2 s1 (parse_frame data_ready frame_complete rd2 s1)"
        by (rule parse_body)
          (use False st l r s1(2,3) True Cons.prems(11) in \<open>simp_all add: rd2_def\<close>)
      moreover have "parse_frame data_ready frame_complete rd s = parse_frame data_ready frame_complete rd2 s1"
        using st(1) False by (subst parse_frame_byte [OF s1(1)]) (simp add: parse_byte_def Cons.prems(1) pb)
      ultimately show ?thesis
        using st(2) s1(4) True by (auto intro: finishes_mono)
    qed
  qed
qed simp

lemma parse_noise:
  assumes "rstate rd = BRAND_NEW" "live s" "\<forall>b \<in> set noise. \<not> frame_type b" "pending s = noise @ rest"
  obtains s' where "parse_frame data_ready frame_complete rd s = parse_frame data_ready frame_complete rd s'"
    "live s'" "pending s' = rest" "delivered s' = delivered s"
  using assms(2-4)
proof (induction noise arbitrary: s thesis)
  case (Cons b noise)
  obtain s1 where s1: "data_ready 1 s = (1, [b], s1)" "pending s1 = noise @ rest" "live s1" "delivered s1 = delivered s"
    by (rule read_byte [OF Cons.prems(2)]) (use Cons.prems(4) in simp)
  have b: "b > DATA_TYPE_EVENT \<or> b < DATA_TYPE_COMMAND" using Cons.prems(3) by (auto simp: frame_type_def not_le)
  have e: "parse_frame data_ready frame_complete rd s = parse_frame data_ready frame_complete rd s1"
    using b by (subst parse_frame_byte [OF s1(1)]) (simp add: parse_byte_def assms(1))
  obtain s' where "parse_frame data_ready frame_complete rd s1 = parse_frame data_ready frame_complete rd s'"
    "live s'" "pending s' = rest" "delivered s' = delivered s1"
    by (rule Cons.IH [OF _ s1(3) _ s1(2)]) (use Cons.prems(3) in auto)
  then show ?case using Cons.prems(1) e s1(4) by simp
qed simp

lemma frame_step:
  assumes "rstate rd = BRAND_NEW" "live s" "\<forall>b \<in> set noise. \<not> frame_type b" "pending s = noise @ f @ rest"
    and "h4_frame f" "length f \<le> length (rbuffer rd)" "5 \<le> length (rbuffer rd)" "length (rbuffer rd) < 65536"
  shows "finishes f rest rd s (parse_frame data_ready frame_complete rd s)"
proof -
  obtain s1 where s1: "parse_frame data_ready frame_complete rd s = parse_frame data_ready frame_complete rd s1"
    "live s1" "pending s1 = f @ rest" "delivered s1 = delivered s"
    by (rule parse_noise [OF assms(1-4)])
  obtain b fs where f: "f = b # fs" using assms(5) by (cases f) (auto simp: h4_frame_def)
  have b: "frame_type b" "length f = preamble_len b + 1 + body_len f"
    using assms(5) by (simp_all add: h4_frame_def f)
  obtain s2 where s2: "data_ready 1 s1 = (1, [b], s2)"
    by (rule read_byte [OF s1(2)]) (use s1(3) f in auto)
  define rd1 where "rd1 = begin_packet b rd"
  have nb: "\<not> (DATA_TYPE_EVENT < b \<or> b < DATA_TYPE_COMMAND)" using b(1) by (auto simp: frame_type_def not_less)
  have st: "rstate rd1 = PREAMBLE" by (simp add: rd1_def begin_packet_def)
  have "parse_frame data_ready frame_complete rd s1 = parse_frame data_ready frame_complete rd1 s1"
    using nb unfolding parse_frame_byte [OF s2] by (simp add: parse_byte_def assms(1) st, simp add: rd1_def)
  moreover
  define n where "n = preamble_len b + 1"
  have n: "n \<le> 5" using preamble_len_bounds [OF b(1)] by (simp add: n_def)
  have "finishes ([] @ take n f @ drop n f) rest rd1 s1 (parse_frame data_ready frame_complete rd1 s1)"
  proof (rule parse_preamble [OF st])
    show "unat (bytes_remaining rd1) = length (take n f)"
      using n b(2) unat_u16_of_nat [of n]
      by (simp add: rd1_def begin_packet_def n_def preamble_len_def min_def del: of_nat_Suc of_nat_add)
  qed (use n b assms(6-8) s1 f in \<open>simp_all add: rd1_def begin_packet_def n_def PREAMBLE_BUFFER_SIZE_def\<close>)
  ultimately show ?thesis
    using s1 by (auto simp: rd1_def begin_packet_def intro: finishes_mono)
qed

end

section \<open>The two directions\<close>

fun arrived :: "arrival list \<Rightarrow> u8 list" where
  "arrived [] = []"
| "arrived (Bytes bs # as) = bs @ arrived as"
| "arrived (Read_error # as) = arrived as"

lemma fd_read_piece:
  "Read_error \<notin> set as \<Longrightarrow> \<exists>bs as'. fd_read n as = (int (length bs), bs, as') \<and> length bs \<le> n \<and>
     arrived as = bs @ arrived as' \<and> Read_error \<notin> set as' \<and> (0 < n \<longrightarrow> arrived as \<noteq> [] \<longrightarrow> bs \<noteq> [])"
proof (induction n as rule: fd_read.induct)
  case (4 n b bs as)
  define xs where "xs = take n (b # bs)"
  define as' where "as' = (if drop n (b # bs) = [] then as else Bytes (drop n (b # bs)) # as)"
  have "b # bs = xs @ drop n (b # bs)" unfolding xs_def by (rule append_take_drop_id [symmetric])
  then have "(b # bs) @ arrived as = (xs @ drop n (b # bs)) @ arrived as" by (rule arg_cong)
  then have "arrived (Bytes (b # bs) # as) = xs @ drop n (b # bs) @ arrived as" by (simp only: arrived.simps append_assoc)
  moreover have "arrived as' = drop n (b # bs) @ arrived as" "Read_error \<notin> set as'"
    using "4.prems" by (simp_all add: as'_def)
  ultimately show ?case
    by (intro exI [of _ xs] exI [of _ as']) (simp add: xs_def as'_def del: take_Suc_Cons drop_Suc_Cons  )
qed simp_all

interpretation serial: frame_channel serial_data_ready stack_data_transmit
  "\<lambda>st. Read_error \<notin> set (serial_in st)" "\<lambda>st. arrived (serial_in st)" stack_out "\<lambda>f. f"
proof (unfold_locales, goal_cases)
  case (1 s n)
  with fd_read_piece [of "serial_in s" n] show ?case by (auto simp: serial_data_ready_def)
qed (simp_all add: stack_data_transmit_def)

interpretation stack: frame_channel stack_data_ready "serial_data_transmit alignment None"
  "\<lambda>st. Read_error \<notin> set (stack_in st)" "\<lambda>st. arrived (stack_in st)" serial_out "aligned_frame alignment" for alignment
proof (unfold_locales, goal_cases)
  case (1 s n)
  with fd_read_piece [of "stack_in s" n] show ?case by (auto simp: stack_data_ready_def)
qed (simp_all add: serial_data_transmit_def)

text \<open>A receive buffer between two frames, and a sequence of frames that fit it, each behind some noise.\<close>

definition idle :: "nat \<Rightarrow> packet_receive_data \<Rightarrow> bool" where
  "idle sz rd \<longleftrightarrow> rstate rd = BRAND_NEW \<and> length (rbuffer rd) = sz \<and> 5 \<le> sz \<and> sz < 65536"

definition framed :: "nat \<Rightarrow> (u8 list \<times> u8 list) list \<Rightarrow> bool" where
  "framed sz fs \<longleftrightarrow> (\<forall>(noise, f) \<in> set fs. h4_frame f \<and> length f \<le> sz \<and> (\<forall>b \<in> set noise. \<not> frame_type b))"

lemma fresh_idle: "alignment < 64510 \<Longrightarrow> idle (1026 + alignment) (fresh_receive_data alignment)"
  by (simp add: idle_def fresh_receive_data_def HCI_HAL_SERIAL_BUFFER_SIZE_def)

text \<open>A started module with given input, for the concrete instances.\<close>

definition toy_sitm :: "arrival list \<Rightarrow> arrival list \<Rightarrow> sitm_state" where
  "toy_sitm serial stack =
     \<lparr>userial_fd = 3, stack_fd = 4, vendor_fd = 5, sco_fd = -1, tx_fds = (6, 7), rx_fds = (8, 9),
      recv_stack_buf = Some (fresh_receive_data 0), recv_serial_buf = Some (fresh_receive_data 0),
      serial_in = serial, stack_in = stack, serial_out = [], stack_out = [], sco_out = []\<rparr>"

lemma toy_aligned: "aligned_frame 4 [1, 3, 12, 0] = [1, 3, 12, 0, 0, 0, 0, 0]"
  by code_simp

lemma toy_framed:
  "framed 1026 [([9], [4, 14, 1, 0xaa]), ([], [4, 5, 0])]" "framed 1026 [([], [1, 3, 12, 0])]"
  by (simp_all add: framed_def h4_frame_def body_len_def frame_type_def preamble_len_def preamble_sizes_def
      DATA_TYPE_COMMAND_def DATA_TYPE_EVENT_def DATA_TYPE_ACL_def)

section \<open>Properties\<close>

text \<open>
  C18: the read thread passes on exactly the frames: if the bytes that arrive on the serial port, in any pieces, are frames
  with noise before them, then after as many wake-ups as there are frames the stack has got these frames, in order and without the
  noise, nothing of what follows has been consumed, and the receive buffer is ready for the next frame.
\<close>

theorem read_thread_delivers:
  assumes "recv_serial_buf st = Some rd" "idle sz rd" "framed sz fs"
    and "Read_error \<notin> set (serial_in st)" "arrived (serial_in st) = concat (map (\<lambda>(noise, f). noise @ f) fs) @ rest"
  shows "\<exists>st' rd'. sitm_read_th (replicate (length fs) Readable) st = Some st' \<and> stack_out st' = stack_out st @ map snd fs \<and>
    arrived (serial_in st') = rest \<and> recv_serial_buf st' = Some rd' \<and> idle sz rd'"
  using assms
proof (induction fs arbitrary: st rd)
  case (Cons nf fs)
  obtain noise f where nf: "nf = (noise, f)" by fastforce
  have "serial.finishes f (concat (map (\<lambda>(noise, f). noise @ f) fs) @ rest) rd st (parse_frame serial_data_ready stack_data_transmit rd st)"
    by (rule serial.frame_step [where noise = noise]) (use Cons.prems nf in \<open>auto simp: idle_def framed_def\<close>)
  then obtain rd1 st1 where r: "parse_frame serial_data_ready stack_data_transmit rd st = Some (rd1, st1)"
    "rstate rd1 = BRAND_NEW" "length (rbuffer rd1) = length (rbuffer rd)" "Read_error \<notin> set (serial_in st1)"
    "arrived (serial_in st1) = concat (map (\<lambda>(noise, f). noise @ f) fs) @ rest" "stack_out st1 = stack_out st @ [f]"
    by (auto simp: serial.finishes_def)
  have "\<exists>st' rd'. sitm_read_th (replicate (length fs) Readable) (st1\<lparr>recv_serial_buf := Some rd1\<rparr>) = Some st' \<and>
      stack_out st' = stack_out (st1\<lparr>recv_serial_buf := Some rd1\<rparr>) @ map snd fs \<and>
      arrived (serial_in st') = rest \<and> recv_serial_buf st' = Some rd' \<and> idle sz rd'"
    by (rule Cons.IH [where rd = rd1]) (use Cons.prems r in \<open>auto simp: idle_def framed_def\<close>)
  then show ?case using Cons.prems(1) r by (simp add: nf)
qed auto

theorem read_thread_delivers_witness:
  "\<exists>st'. sitm_read_th [Readable, Readable] (toy_sitm [Bytes [9, 4], Bytes [14, 1, 0xaa, 4], Bytes [5, 0, 7]] []) = Some st' \<and>
    stack_out st' = [[4, 14, 1, 0xaa], [4, 5, 0]]"
  using read_thread_delivers [of "toy_sitm [Bytes [9, 4], Bytes [14, 1, 0xaa, 4], Bytes [5, 0, 7]] []" "fresh_receive_data 0" 1026
      "[([9], [4, 14, 1, 0xaa]), ([], [4, 5, 0])]" "[7]"] fresh_idle [of 0] toy_framed
  by (auto simp: toy_sitm_def numeral_2_eq_2 simp del: sitm_read_th.simps)

text \<open>
  The write thread does the same towards the serial port, with each frame padded to the build's alignment.
\<close>

theorem write_thread_delivers:
  assumes "recv_stack_buf st = Some rd" "idle sz rd" "framed sz fs"
    and "Read_error \<notin> set (stack_in st)" "arrived (stack_in st) = concat (map (\<lambda>(noise, f). noise @ f) fs) @ rest"
  shows "\<exists>st' rd'. sitm_write_th alignment None (replicate (length fs) Readable) st = Some st' \<and>
    serial_out st' = serial_out st @ map (aligned_frame alignment \<circ> snd) fs \<and>
    arrived (stack_in st') = rest \<and> recv_stack_buf st' = Some rd' \<and> idle sz rd'"
  using assms
proof (induction fs arbitrary: st rd)
  case (Cons nf fs)
  obtain noise f where nf: "nf = (noise, f)" by fastforce
  have "stack.finishes alignment f (concat (map (\<lambda>(noise, f). noise @ f) fs) @ rest) rd st
      (parse_frame stack_data_ready (serial_data_transmit alignment None) rd st)"
    by (rule stack.frame_step [where noise = noise]) (use Cons.prems nf in \<open>auto simp: idle_def framed_def\<close>)
  then obtain rd1 st1 where r: "parse_frame stack_data_ready (serial_data_transmit alignment None) rd st = Some (rd1, st1)"
    "rstate rd1 = BRAND_NEW" "length (rbuffer rd1) = length (rbuffer rd)" "Read_error \<notin> set (stack_in st1)"
    "arrived (stack_in st1) = concat (map (\<lambda>(noise, f). noise @ f) fs) @ rest"
    "serial_out st1 = serial_out st @ [aligned_frame alignment f]"
    by (auto simp: stack.finishes_def)
  have "\<exists>st' rd'. sitm_write_th alignment None (replicate (length fs) Readable) (st1\<lparr>recv_stack_buf := Some rd1\<rparr>) = Some st' \<and>
      serial_out st' = serial_out (st1\<lparr>recv_stack_buf := Some rd1\<rparr>) @ map (aligned_frame alignment \<circ> snd) fs \<and>
      arrived (stack_in st') = rest \<and> recv_stack_buf st' = Some rd' \<and> idle sz rd'"
    by (rule Cons.IH [where rd = rd1]) (use Cons.prems r in \<open>auto simp: idle_def framed_def\<close>)
  then show ?case using Cons.prems(1) r by (simp add: nf comp_def)
qed auto

theorem write_thread_delivers_witness:
  "\<exists>st'. sitm_write_th 4 None [Readable] (toy_sitm [] [Bytes [1, 3], Bytes [12, 0]]) = Some st' \<and>
    serial_out st' = [[1, 3, 12, 0, 0, 0, 0, 0]]"
  using write_thread_delivers [of "toy_sitm [] [Bytes [1, 3], Bytes [12, 0]]" "fresh_receive_data 0" 1026 "[([], [1, 3, 12, 0])]" "[]" 4]
    fresh_idle [of 0] toy_framed
  by (auto simp: toy_sitm_def toy_aligned simp del: sitm_write_th.simps)

text \<open>
  A read that fails inside a frame's body goes unnoticed: the result -1 is added to the 16-bit index and subtracted
  from the 16-bit count, so that the byte just stored is forgotten and the next one will overwrite it; the frame
  that is delivered in the end lacks this byte and has one of the next frame instead.
\<close>

theorem failed_body_read:
  assumes "rstate rd = BODY" "0 < bytes_remaining rd" "unat (rindex rd) + 1 \<le> length (rbuffer rd)" "length (rbuffer rd) < 65536"
    and "serial_in st = Bytes [b] # Read_error # as"
  shows "parse_frame serial_data_ready stack_data_transmit rd st =
    parse_frame serial_data_ready stack_data_transmit (rd\<lparr>rbuffer := (rbuffer rd)[unat (rindex rd) := b]\<rparr>) (st\<lparr>serial_in := as\<rparr>)"
proof -
  have r: "serial_data_ready 1 st = (1, [b], st\<lparr>serial_in := Read_error # as\<rparr>)"
    using assms(5) by (simp add: serial_data_ready_def)
  have "mem_write (rbuffer rd) (unat (rindex rd)) [b] = Some ((rbuffer rd)[unat (rindex rd) := b])"
    using assms(3) by (simp add: mem_write_def upd_conv_take_nth_drop)
  moreover have "mem_write ((rbuffer rd)[unat (rindex rd) := b]) (unat (rindex rd + 1)) [] =
      Some ((rbuffer rd)[unat (rindex rd) := b])"
    using assms(3,4) by (intro mem_write_nil) (simp add: unat_u16_Suc)
  ultimately have "body_byte serial_data_ready b rd (st\<lparr>serial_in := Read_error # as\<rparr>) =
      Some (rd\<lparr>rbuffer := (rbuffer rd)[unat (rindex rd) := b]\<rparr>, st\<lparr>serial_in := as\<rparr>)"
    using assms(1,2) by (cases rd) (simp add: body_byte_def Let_def serial_data_ready_def)
  then show ?thesis
    using assms(1) by (subst serial.parse_frame_byte [OF r]) (simp add: parse_byte_def)
qed

theorem failed_body_read_witness:
  "\<exists>rd. rstate rd = BODY \<and> parse_frame serial_data_ready stack_data_transmit rd (toy_sitm [Bytes [5], Read_error, Bytes [6]] []) =
    parse_frame serial_data_ready stack_data_transmit (rd\<lparr>rbuffer := (rbuffer rd)[3 := 5]\<rparr>) (toy_sitm [Bytes [6]] [])"
  using failed_body_read [of "(fresh_receive_data 0)\<lparr>rstate := BODY, bytes_remaining := 1, rindex := 3\<rparr>"
      "toy_sitm [Bytes [5], Read_error, Bytes [6]] []" 5 "[Bytes [6]]"]
  by (intro exI [of _ "(fresh_receive_data 0)\<lparr>rstate := BODY, bytes_remaining := 1, rindex := 3\<rparr>"])
    (simp add: toy_sitm_def fresh_receive_data_def HCI_HAL_SERIAL_BUFFER_SIZE_def)

end
