(* ===== verification/CText.thy ===== *)
theory CText
  imports Prelude
begin

text \<open>
  The C library's text functions on character lists without a terminator: numbers (\<open>atoi\<close>, \<open>strtoul\<close> with automatic
  base), \<open>strstr\<close> and \<open>strtok_r\<close>.
\<close>

definition char_space :: "char \<Rightarrow> bool" where
  "char_space c \<longleftrightarrow> c = CHR '' '' \<or> 9 \<le> (of_char c :: nat) \<and> (of_char c :: nat) \<le> 13"

definition char_digit :: "char \<Rightarrow> nat option" where
  "char_digit c =
     (let n = of_char c :: nat
      in if 48 \<le> n \<and> n \<le> 57 then Some (n - 48)
         else if 97 \<le> n \<and> n \<le> 122 then Some (n - 87)
         else if 65 \<le> n \<and> n \<le> 90 then Some (n - 55) else None)"

fun text_digits :: "nat \<Rightarrow> nat \<Rightarrow> string \<Rightarrow> nat" where
  "text_digits base acc [] = acc"
| "text_digits base acc (c # cs) =
     (case char_digit c of
        None \<Rightarrow> acc
      | Some d \<Rightarrow> if d < base then text_digits base (acc * base + d) cs else acc)"

text \<open>White space and sign, then a number.\<close>

definition signed_text :: "string \<Rightarrow> bool \<times> string" where
  "signed_text s =
     (let s = dropWhile char_space s
      in if s \<noteq> [] \<and> hd s = CHR ''-'' then (True, tl s)
         else if s \<noteq> [] \<and> hd s = CHR ''+'' then (False, tl s) else (False, s))"

definition atoi :: "string \<Rightarrow> int" where
  "atoi s = (let (neg, t) = signed_text s; v = int (text_digits 10 0 t) in if neg then - v else v)"

text \<open>\<open>atoi\<close> with its result limited to 32 bits.\<close>

definition atoi32 :: "string \<Rightarrow> int" where
  "atoi32 s = max (- (2 ^ 31)) (min (2 ^ 31 - 1) (atoi s))"

text \<open>\<open>strtoul (s, NULL, 0)\<close>.\<close>

definition strtoul0 :: "string \<Rightarrow> u64" where
  "strtoul0 s =
     (let (neg, t) = signed_text s;
          v = (if take 2 t = ''0x'' \<or> take 2 t = ''0X'' then text_digits 16 0 (drop 2 t)
               else if take 1 t = ''0'' then text_digits 8 0 t else text_digits 10 0 t)
      in if v \<ge> 2 ^ 64 then - 1 else if neg then - of_nat v else of_nat v)"

text \<open>\<open>strstr\<close>: what follows the first occurrence.\<close>

fun after_first :: "string \<Rightarrow> string \<Rightarrow> string option" where
  "after_first pat [] = (if pat = [] then Some [] else None)"
| "after_first pat (c # cs) =
     (if take (length pat) (c # cs) = pat then Some (drop (length pat) (c # cs)) else after_first pat cs)"

text \<open>\<open>strtok_r\<close> on what is left of the string: the token and the rest.\<close>

definition strtok :: "(char \<Rightarrow> bool) \<Rightarrow> string \<Rightarrow> (string \<times> string) option" where
  "strtok delim s =
     (let t = dropWhile delim s
      in if t = [] then None
         else Some (takeWhile (\<lambda>c. \<not> delim c) t, tl (dropWhile (\<lambda>c. \<not> delim c) t)))"

lemma strtok_shorter: "strtok delim s = Some (t, r) \<Longrightarrow> length r < length s"
proof -
  assume a: "strtok delim s = Some (t, r)"
  then have "dropWhile delim s \<noteq> []" "r = tl (dropWhile (\<lambda>c. \<not> delim c) (dropWhile delim s))"
    by (auto simp: strtok_def Let_def split: if_splits)
  moreover have "length (tl xs) < length ys" if "length xs \<le> length ys" "ys \<noteq> []" for xs ys :: string
    using that by (cases xs) auto
  ultimately have "length r < length (dropWhile delim s)" by (simp add: length_dropWhile_le)
  then show ?thesis using length_dropWhile_le [of delim s] by linarith
qed

text \<open>A token is not empty.\<close>

lemma strtok_token: "strtok delim s = Some (t, r) \<Longrightarrow> t \<noteq> []"
  using hd_dropWhile [of delim s] by (auto simp: strtok_def Let_def takeWhile_eq_Nil_iff split: if_splits)

text \<open>A token between delimiters, and the last one.\<close>

lemma strtok_delimited:
  assumes "list_all delim ds" "list_all (\<lambda>c. \<not> delim c) tok" "tok \<noteq> []" "delim d"
  shows "strtok delim (ds @ tok @ d # rest) = Some (tok, rest)"
proof -
  have "dropWhile delim (ds @ tok @ d # rest) = tok @ d # rest"
    using assms by (cases tok) (auto simp: dropWhile_append2 list_all_iff)
  then show ?thesis using assms by (auto simp: strtok_def Let_def takeWhile_append2 dropWhile_append2 list_all_iff)
qed

lemma strtok_last:
  assumes "list_all delim ds" "list_all (\<lambda>c. \<not> delim c) tok" "tok \<noteq> []"
  shows "strtok delim (ds @ tok) = Some (tok, [])"
proof -
  have "dropWhile delim (ds @ tok) = tok"
    using assms by (cases tok) (auto simp: dropWhile_append2 list_all_iff)
  moreover have "takeWhile (\<lambda>c. \<not> delim c) tok = tok" "dropWhile (\<lambda>c. \<not> delim c) tok = []"
    using assms(2) by (simp_all add: list_all_iff)
  ultimately show ?thesis using assms(3) by (simp add: strtok_def Let_def del: dropWhile_eq_Nil_conv)
qed

text \<open>\<open>fgets\<close>: up to \<open>n\<close> characters, stopping after a line feed.\<close>

fun fgets :: "nat \<Rightarrow> string \<Rightarrow> string \<times> string" where
  "fgets 0 s = ([], s)"
| "fgets (Suc n) [] = ([], [])"
| "fgets (Suc n) (c # s) =
     (if c = CHR 0x0A then ([c], s) else let (l, r) = fgets n s in (c # l, r))"

lemma fgets_shorter: "s \<noteq> [] \<Longrightarrow> 0 < n \<Longrightarrow> length (snd (fgets n s)) < length s"
proof -
  have le: "length (snd (fgets n s)) \<le> length s" for n s
    by (induction n s rule: fgets.induct) (auto simp: Let_def split: prod.splits)
  assume "s \<noteq> []" "0 < n"
  then obtain c t m where e: "s = c # t" "n = Suc m" by (cases s; cases n) auto
  show ?thesis using le [of m t] by (auto simp: e Let_def split: prod.splits)
qed

section \<open>Printing numbers\<close>

text \<open>\<open>%d\<close> and \<open>%02x\<close> of \<open>printf\<close>.\<close>

function fmt_nat :: "nat \<Rightarrow> string" where
  "fmt_nat n = (if n < 10 then [char_of (48 + n)] else fmt_nat (n div 10) @ [char_of (48 + n mod 10)])"
  by pat_completeness auto
termination
  by (relation "measure id") auto

declare fmt_nat.simps [simp del]

definition fmt_d :: "int \<Rightarrow> string" where
  "fmt_d x = (if x < 0 then CHR ''-'' # fmt_nat (nat (- x)) else fmt_nat (nat x))"

definition hex_char :: "nat \<Rightarrow> char" where
  "hex_char n = ''0123456789abcdef'' ! n"

lemma less_16_cases: "n < (16 :: nat) \<Longrightarrow> n \<in> {0, 1, 2, 3, 4, 5, 6, 7, 8, 9, 10, 11, 12, 13, 14, 15}"
  unfolding insert_iff empty_iff by arith

lemma hex_char_value:
  "n < 16 \<Longrightarrow> (of_char (hex_char n) :: nat) = (if n < 10 then 48 + n else 87 + n)"
  using less_16_cases [of n] by (auto simp: hex_char_def)

definition fmt_02x :: "u8 \<Rightarrow> string" where
  "fmt_02x b = [hex_char (unat b div 16), hex_char (unat b mod 16)]"

definition digit_char :: "char \<Rightarrow> bool" where
  "digit_char c \<longleftrightarrow> 48 \<le> (of_char c :: nat) \<and> (of_char c :: nat) \<le> 57"

lemma of_char_digit: "n < 10 \<Longrightarrow> (of_char (char_of (48 + n :: nat)) :: nat) = 48 + n"
  by simp

lemma digit_char_char_of: "n < 10 \<Longrightarrow> digit_char (char_of (48 + n :: nat))"
  unfolding digit_char_def by (simp only: of_char_digit) simp

lemma char_digit_char_of: "n < 10 \<Longrightarrow> char_digit (char_of (48 + n :: nat)) = Some n"
  by (simp only: char_digit_def of_char_digit Let_def) simp

lemma fmt_nat_digits: "list_all digit_char (fmt_nat n)"
proof (induction n rule: fmt_nat.induct)
  case (1 n)
  then show ?case by (subst fmt_nat.simps) (simp add: digit_char_char_of)
qed

lemma fmt_nat_not_Nil [simp]: "fmt_nat n \<noteq> []"
  by (subst fmt_nat.simps) simp

lemma text_digits_append:
  "list_all digit_char ds \<Longrightarrow> text_digits 10 acc (ds @ s) = text_digits 10 (text_digits 10 acc ds) s"
proof (induction ds arbitrary: acc)
  case (Cons c ds)
  then have "char_digit c = Some (of_char c - 48)" "(of_char c :: nat) - 48 < 10"
    by (auto simp: char_digit_def digit_char_def Let_def)
  with Cons show ?case by simp
qed simp

lemma text_digits_fmt_nat: "text_digits 10 0 (fmt_nat n) = n"
proof (induction n rule: fmt_nat.induct)
  case (1 n)
  show ?case
  proof (cases "n < 10")
    case True
    then show ?thesis by (subst fmt_nat.simps) (simp add: char_digit_char_of)
  next
    case False
    have "text_digits 10 0 (fmt_nat n) = text_digits 10 (n div 10) [char_of (48 + n mod 10)]"
      by (subst fmt_nat.simps) (simp add: False text_digits_append fmt_nat_digits 1)
    also have "\<dots> = n div 10 * 10 + n mod 10"
      using char_digit_char_of [of "n mod 10"] by simp
    finally show ?thesis by simp
  qed
qed

lemma digit_not_space: "digit_char c \<Longrightarrow> \<not> char_space c \<and> c \<noteq> CHR ''-'' \<and> c \<noteq> CHR ''+'' \<and> c \<noteq> CHR '','' \<and> c \<noteq> CHR 0x22 \<and> c \<noteq> CHR 0x00"
  by (auto simp: digit_char_def char_space_def)

lemma atoi_fmt_d: "atoi (fmt_d x) = x"
proof -
  have hd: "digit_char (hd (fmt_nat n))" for n
    using fmt_nat_digits [of n] fmt_nat_not_Nil [of n] by (cases "fmt_nat n") simp_all
  have w: "dropWhile char_space (fmt_nat n) = fmt_nat n" for n
    using digit_not_space [OF hd [of n]] by (cases "fmt_nat n") simp_all
  have s: "signed_text (fmt_nat n) = (False, fmt_nat n)" for n
    using digit_not_space [OF hd [of n]] by (simp add: signed_text_def w Let_def)
  have m: "signed_text (CHR ''-'' # fmt_nat n) = (True, fmt_nat n)" for n
    by (simp add: signed_text_def char_space_def)
  show ?thesis by (simp add: atoi_def fmt_d_def s m text_digits_fmt_nat)
qed

text \<open>What a printed number consists of.\<close>

definition number_char :: "char \<Rightarrow> bool" where
  "number_char c \<longleftrightarrow> digit_char c \<or> c = CHR ''-''"

lemma fmt_d_chars: "list_all number_char (fmt_d x)"
proof -
  have "list_all number_char (fmt_nat n)" for n
    using fmt_nat_digits [of n] by (rule list.pred_mono_strong) (simp add: number_char_def)
  then show ?thesis by (simp add: fmt_d_def number_char_def)
qed

lemma fmt_d_not_Nil [simp]: "fmt_d x \<noteq> []"
  by (simp add: fmt_d_def)

end
