(* ===== verification/BtPskey.thy ===== *)
theory BtPskey
  imports CText LeBytes
begin

text \<open>
  The configuration block (\<open>pskey_config_t\<close>) of the Bluetooth chips, from
  \<^verbatim>\<open>libs/libbt/conf/sprd\<close>: its C layout, the table that names its fields for the configuration
  file, and the command that carries it to the chip.  The block is its bytes in memory, little endian, so that the
  table's pointers are offsets; \<open>marlin\<close> is the chip the board is built with; the block of
  \<open>marlin2\<close> is in \<open>BtChips\<close>.
\<close>

section \<open>Layout of a structure\<close>

text \<open>A member is a name, the width of its elements in bytes and their number; every element is aligned to its
  width.\<close>

type_synonym member = "string \<times> nat \<times> nat"

definition align :: "nat \<Rightarrow> nat \<Rightarrow> nat" where
  "align w off = (off + (w - 1)) div w * w"

fun layout :: "nat \<Rightarrow> member list \<Rightarrow> (string \<times> nat \<times> nat \<times> nat) list" where
  "layout off [] = []"
| "layout off ((m, w, n) # ms) = (m, align w off, w, n) # layout (align w off + w * n) ms"

fun struct_end :: "nat \<Rightarrow> member list \<Rightarrow> nat" where
  "struct_end off [] = off"
| "struct_end off ((m, w, n) # ms) = struct_end (align w off + w * n) ms"

definition sizeof_struct :: "member list \<Rightarrow> nat" where
  "sizeof_struct ms = align (fold max (map (fst \<circ> snd) ms) 1) (struct_end 0 ms)"

definition member_at :: "member list \<Rightarrow> string \<Rightarrow> nat \<times> nat \<times> nat" where
  "member_at ms m = (case map_of (layout 0 ms) m of Some p \<Rightarrow> p | None \<Rightarrow> (0, 0, 0))"

section \<open>The table of the configuration file\<close>

text \<open>An entry: name, optional action, pointer into the block, number of elements, width.  \<open>CONF_ITEM_TABLE\<close>
  takes the width from the member's size.\<close>

type_synonym pskey = "u8 list"

record conf_entry =
  entry_name :: string
  entry_action :: "(string \<Rightarrow> string \<Rightarrow> nat option \<Rightarrow> int \<Rightarrow> nat \<Rightarrow> pskey \<Rightarrow> pskey option) option"
  entry_buf :: "nat option"
  entry_len :: int
  entry_size :: nat

definition conf_item :: "member list \<Rightarrow> string \<Rightarrow> nat \<Rightarrow> conf_entry" where
  "conf_item ms m n =
     (let (off, w, k) = member_at ms m
      in \<lparr>entry_name = m, entry_action = None, entry_buf = Some off, entry_len = int n, entry_size = w * k div n\<rparr>)"

definition marlin_pskey :: "member list" where
  "marlin_pskey =
    [(''pskey_cmd'', 4, 1),
     (''g_dbg_source_sink_syn_test_data'', 1, 1),
     (''g_sys_sleep_in_standby_supported'', 1, 1),
     (''g_sys_sleep_master_supported'', 1, 1),
     (''g_sys_sleep_slave_supported'', 1, 1),
     (''default_ahb_clk'', 4, 1),
     (''device_class'', 4, 1),
     (''win_ext'', 4, 1),
     (''g_aGainValue'', 4, 6),
     (''g_aPowerValue'', 4, 5),
     (''feature_set'', 1, 16),
     (''device_addr'', 1, 6),
     (''g_sys_sco_transmit_mode'', 1, 1),
     (''g_sys_uart0_communication_supported'', 1, 1),
     (''edr_tx_edr_delay'', 1, 1),
     (''edr_rx_edr_delay'', 1, 1),
     (''g_wbs_nv_117'', 2, 1),
     (''is_wdg_supported'', 4, 1),
     (''share_memo_rx_base_addr'', 4, 1),
     (''g_wbs_nv_118'', 2, 1),
     (''g_nbv_nv_117'', 2, 1),
     (''share_memo_tx_packet_num_addr'', 4, 1),
     (''share_memo_tx_data_base_addr'', 4, 1),
     (''g_PrintLevel'', 4, 1),
     (''share_memo_tx_block_length'', 2, 1),
     (''share_memo_rx_block_length'', 2, 1),
     (''share_memo_tx_water_mark'', 2, 1),
     (''g_nbv_nv_118'', 2, 1),
     (''uart_rx_watermark'', 2, 1),
     (''uart_flow_control_thld'', 2, 1),
     (''comp_id'', 4, 1),
     (''pcm_clk_divd'', 2, 1),
     (''br_edr_diff_reserved'', 2, 1),
     (''g_aBRChannelpwrvalue'', 4, 8),
     (''g_aEDRChannelpwrvalue'', 4, 8),
     (''g_aLEPowerControlFlag'', 4, 1),
     (''g_aLEChannelpwrvalue'', 2, 8)]"

definition marlin_table :: "conf_entry list" where
  "marlin_table =
    [\<lparr>entry_name = ''pskey_cmd'', entry_action = None, entry_buf = None, entry_len = 0, entry_size = 0\<rparr>,
     conf_item marlin_pskey ''g_dbg_source_sink_syn_test_data'' 1,
     conf_item marlin_pskey ''g_sys_sleep_in_standby_supported'' 1,
     conf_item marlin_pskey ''g_sys_sleep_master_supported'' 1,
     conf_item marlin_pskey ''g_sys_sleep_slave_supported'' 1,
     conf_item marlin_pskey ''default_ahb_clk'' 1,
     conf_item marlin_pskey ''device_class'' 1,
     conf_item marlin_pskey ''win_ext'' 1,
     conf_item marlin_pskey ''g_aGainValue'' 6,
     conf_item marlin_pskey ''g_aPowerValue'' 5,
     conf_item marlin_pskey ''feature_set'' 16,
     conf_item marlin_pskey ''device_addr'' 6,
     conf_item marlin_pskey ''g_sys_sco_transmit_mode'' 1,
     conf_item marlin_pskey ''g_sys_uart0_communication_supported'' 1,
     conf_item marlin_pskey ''edr_tx_edr_delay'' 1,
     conf_item marlin_pskey ''edr_rx_edr_delay'' 1,
     conf_item marlin_pskey ''g_wbs_nv_117'' 1,
     conf_item marlin_pskey ''is_wdg_supported'' 1,
     conf_item marlin_pskey ''share_memo_rx_base_addr'' 1,
     conf_item marlin_pskey ''g_wbs_nv_118'' 1,
     conf_item marlin_pskey ''g_nbv_nv_117'' 1,
     conf_item marlin_pskey ''share_memo_tx_packet_num_addr'' 1,
     conf_item marlin_pskey ''share_memo_tx_data_base_addr'' 1,
     conf_item marlin_pskey ''g_PrintLevel'' 1,
     conf_item marlin_pskey ''share_memo_tx_block_length'' 1,
     conf_item marlin_pskey ''share_memo_rx_block_length'' 1,
     conf_item marlin_pskey ''share_memo_tx_water_mark'' 1,
     conf_item marlin_pskey ''g_nbv_nv_118'' 1,
     conf_item marlin_pskey ''uart_rx_watermark'' 1,
     conf_item marlin_pskey ''uart_flow_control_thld'' 1,
     conf_item marlin_pskey ''comp_id'' 1,
     conf_item marlin_pskey ''pcm_clk_divd'' 1,
     conf_item marlin_pskey ''br_edr_diff_reserved'' 1,
     conf_item marlin_pskey ''g_aBRChannelpwrvalue'' 8,
     conf_item marlin_pskey ''g_aEDRChannelpwrvalue'' 8,
     conf_item marlin_pskey ''g_aLEPowerControlFlag'' 1,
     conf_item marlin_pskey ''g_aLEChannelpwrvalue'' 8]"

definition sr2351_pskey :: "member list" where
  "sr2351_pskey =
    [(''pskey_cmd'', 1, 1),
     (''g_dbg_source_sink_syn_test_data'', 1, 1),
     (''g_sys_sleep_in_standby_supported'', 1, 1),
     (''g_sys_sleep_master_supported'', 1, 1),
     (''g_sys_sleep_slave_supported'', 1, 1),
     (''default_ahb_clk'', 4, 1),
     (''device_class'', 4, 1),
     (''win_ext'', 4, 1),
     (''g_aGainValue'', 4, 6),
     (''g_aPowerValue'', 4, 5),
     (''feature_set'', 1, 16),
     (''device_addr'', 1, 6),
     (''g_sys_sco_transmit_mode'', 1, 1),
     (''g_sys_uart0_communication_supported'', 1, 1),
     (''edr_tx_edr_delay'', 1, 1),
     (''edr_rx_edr_delay'', 1, 1),
     (''g_PrintLevel'', 4, 1),
     (''uart_rx_watermark'', 2, 1),
     (''uart_flow_control_thld'', 2, 1),
     (''comp_id'', 4, 1),
     (''pcm_clk_divd'', 2, 1),
     (''half_word_reserved'', 2, 1),
     (''pcm_config'', 4, 1),
     (''ref_clk'', 1, 1),
     (''FEM_status'', 1, 1),
     (''gpio_cfg'', 1, 1),
     (''gpio_PA_en'', 1, 1),
     (''wifi_tx'', 1, 1),
     (''bt_tx'', 1, 1),
     (''wifi_rx'', 1, 1),
     (''bt_rx'', 1, 1),
     (''wb_lna_bypass'', 1, 1),
     (''gain_LNA'', 1, 1),
     (''IL_wb_lna_bypass'', 1, 1),
     (''Rx_adaptive'', 1, 1),
     (''up_bypass_switching_point0'', 2, 1),
     (''low_bypass_switching_point0'', 2, 1),
     (''bt_reserved'', 4, 4)]"

definition sr2351_table :: "conf_entry list" where
  "sr2351_table =
    [conf_item sr2351_pskey ''pskey_cmd'' 1,
     conf_item sr2351_pskey ''g_dbg_source_sink_syn_test_data'' 1,
     conf_item sr2351_pskey ''g_sys_sleep_in_standby_supported'' 1,
     conf_item sr2351_pskey ''g_sys_sleep_master_supported'' 1,
     conf_item sr2351_pskey ''g_sys_sleep_slave_supported'' 1,
     conf_item sr2351_pskey ''default_ahb_clk'' 1,
     conf_item sr2351_pskey ''device_class'' 1,
     conf_item sr2351_pskey ''win_ext'' 1,
     conf_item sr2351_pskey ''g_aGainValue'' 6,
     conf_item sr2351_pskey ''g_aPowerValue'' 5,
     conf_item sr2351_pskey ''feature_set'' 16,
     conf_item sr2351_pskey ''device_addr'' 6,
     conf_item sr2351_pskey ''g_sys_sco_transmit_mode'' 1,
     conf_item sr2351_pskey ''g_sys_uart0_communication_supported'' 1,
     conf_item sr2351_pskey ''edr_tx_edr_delay'' 1,
     conf_item sr2351_pskey ''edr_rx_edr_delay'' 1,
     conf_item sr2351_pskey ''g_PrintLevel'' 1,
     conf_item sr2351_pskey ''uart_rx_watermark'' 1,
     conf_item sr2351_pskey ''uart_flow_control_thld'' 1,
     conf_item sr2351_pskey ''comp_id'' 1,
     conf_item sr2351_pskey ''pcm_clk_divd'' 1,
     conf_item sr2351_pskey ''half_word_reserved'' 1,
     conf_item sr2351_pskey ''pcm_config'' 1,
     conf_item sr2351_pskey ''ref_clk'' 1,
     conf_item sr2351_pskey ''FEM_status'' 1,
     conf_item sr2351_pskey ''gpio_cfg'' 1,
     conf_item sr2351_pskey ''gpio_PA_en'' 1,
     conf_item sr2351_pskey ''wifi_tx'' 1,
     conf_item sr2351_pskey ''bt_tx'' 1,
     conf_item sr2351_pskey ''wifi_rx'' 1,
     conf_item sr2351_pskey ''bt_rx'' 1,
     conf_item sr2351_pskey ''wb_lna_bypass'' 1,
     conf_item sr2351_pskey ''gain_LNA'' 1,
     conf_item sr2351_pskey ''IL_wb_lna_bypass'' 1,
     conf_item sr2351_pskey ''Rx_adaptive'' 1,
     conf_item sr2351_pskey ''up_bypass_switching_point0'' 1,
     conf_item sr2351_pskey ''low_bypass_switching_point0'' 1,
     conf_item sr2351_pskey ''bt_reserved'' 4]"

section \<open>The command with the block\<close>

text \<open>\<open>UINT8_TO_STREAM\<close>, \<open>UINT16_TO_STREAM\<close> and \<open>UINT32_TO_STREAM\<close>, by their width.\<close>

definition TO_STREAM :: "nat \<Rightarrow> u32 \<Rightarrow> u8 list" where
  "TO_STREAM w v = take w (bytes_of_word v)"

text \<open>Element \<open>i\<close> of a member, read from memory.\<close>

definition read_element :: "member list \<Rightarrow> pskey \<Rightarrow> string \<Rightarrow> nat \<Rightarrow> u32" where
  "read_element ms mem m i =
     (let (off, w, k) = member_at ms m
      in word_of_bytes (take w (drop (off + w * i) mem) @ replicate (4 - w) 0) 0)"

text \<open>The statements of \<open>marlin_pskey_preload\<close> that write the block, in their order: member, width of the
  \<open>TO_STREAM\<close> macro, number of rounds of the loop around it.\<close>

definition marlin_stream_items :: "(string \<times> nat \<times> nat) list" where
  "marlin_stream_items =
    [(''g_dbg_source_sink_syn_test_data'', 1, 1),
     (''g_sys_sleep_in_standby_supported'', 1, 1),
     (''g_sys_sleep_master_supported'', 1, 1),
     (''g_sys_sleep_slave_supported'', 1, 1),
     (''default_ahb_clk'', 4, 1),
     (''device_class'', 4, 1),
     (''win_ext'', 4, 1),
     (''g_aGainValue'', 4, 6),
     (''g_aPowerValue'', 4, 5),
     (''feature_set'', 1, 16),
     (''device_addr'', 1, 6),
     (''g_sys_sco_transmit_mode'', 1, 1),
     (''g_sys_uart0_communication_supported'', 1, 1),
     (''edr_tx_edr_delay'', 1, 1),
     (''edr_rx_edr_delay'', 1, 1),
     (''g_wbs_nv_117'', 2, 1),
     (''is_wdg_supported'', 4, 1),
     (''share_memo_rx_base_addr'', 4, 1),
     (''g_wbs_nv_118'', 2, 1),
     (''g_nbv_nv_117'', 2, 1),
     (''share_memo_tx_packet_num_addr'', 4, 1),
     (''share_memo_tx_data_base_addr'', 4, 1),
     (''g_PrintLevel'', 4, 1),
     (''share_memo_tx_block_length'', 2, 1),
     (''share_memo_rx_block_length'', 2, 1),
     (''share_memo_tx_water_mark'', 2, 1),
     (''g_nbv_nv_118'', 2, 1),
     (''uart_rx_watermark'', 2, 1),
     (''uart_flow_control_thld'', 2, 1),
     (''comp_id'', 4, 1),
     (''pcm_clk_divd'', 2, 1),
     (''br_edr_diff_reserved'', 2, 1),
     (''g_aBRChannelpwrvalue'', 4, 8),
     (''g_aEDRChannelpwrvalue'', 4, 8),
     (''g_aLEPowerControlFlag'', 4, 1),
     (''g_aLEChannelpwrvalue'', 2, 8)]"

definition stream_item :: "member list \<Rightarrow> pskey \<Rightarrow> string \<times> nat \<times> nat \<Rightarrow> u8 list" where
  "stream_item ms mem = (\<lambda>(m, w, n). concat (map (\<lambda>i. TO_STREAM w (read_element ms mem m i)) [0..<n]))"

definition PSKEY_PREAMBLE_SIZE :: nat where
  "PSKEY_PREAMBLE_SIZE = 0xD8"

definition HCI_PSKEY :: u32 where
  "HCI_PSKEY = 0xFCA0"

definition marlin_stream :: "pskey \<Rightarrow> u8 list" where
  "marlin_stream mem =
     TO_STREAM 2 HCI_PSKEY @ TO_STREAM 1 (of_nat PSKEY_PREAMBLE_SIZE) @
     concat (map (stream_item marlin_pskey mem) marlin_stream_items)"

text \<open>The size that is put into the command's length: summed over the table up to the entry without a name.\<close>

definition get_pskey_size :: "conf_entry list \<Rightarrow> int" where
  "get_pskey_size tab = (\<Sum>e\<leftarrow>tab. entry_len e * int (entry_size e))"

end
