(* ===== verification/BtConf.thy ===== *)
theory BtConf
  imports BtPskey
begin

text \<open>
  \<^verbatim>\<open>libs/libbt/src/conf.c\<close>: reading the configuration file into the block, the Bluetooth address
  file, and the adjustments after loading.  Files and properties are parameters: the
  text of the configuration file, the result of reading the address file, the value of the
  property.  \<open>unsigned long\<close> has 32 bits on the device.  A write outside the block is \<open>None\<close>.
\<close>

section \<open>One line\<close>

definition CONF_DELIMITERS :: "char \<Rightarrow> bool" where
  "CONF_DELIMITERS c \<longleftrightarrow> c \<in> {CHR '' '', CHR ''='', CHR 0x0A, CHR 0x0D, CHR 0x09}"

definition CONF_VALUES_DELIMITERS :: "char \<Rightarrow> bool" where
  "CONF_VALUES_DELIMITERS c \<longleftrightarrow> c \<in> {CHR ''='', CHR 0x0A, CHR 0x0D, CHR 0x09, CHR ''#''}"

definition CONF_VALUES_PARTITION :: "char \<Rightarrow> bool" where
  "CONF_VALUES_PARTITION c \<longleftrightarrow> c \<in> {CHR '' '', CHR '','', CHR ''='', CHR 0x0A, CHR 0x0D, CHR 0x09, CHR ''#''}"

text \<open>\<open>strtoul (s, 0, base)\<close> for base 10 and 16, with a 32-bit result.\<close>

definition strtoul32 :: "nat \<Rightarrow> string \<Rightarrow> u32" where
  "strtoul32 base s =
     (let (neg, t) = signed_text s;
          t = (if base = 16 \<and> (take 2 t = ''0x'' \<or> take 2 t = ''0X'') then drop 2 t else t);
          v = text_digits base 0 t
      in if v \<ge> 2 ^ 32 then - 1 else if neg then - of_nat v else of_nat v)"

definition sub_value_number :: "string \<Rightarrow> u32" where
  "sub_value_number s =
     (if take 2 s = ''0x'' \<or> take 2 s = ''0X'' then strtoul32 16 s else strtoul32 10 s)"

text \<open>The loop of \<open>parse_number\<close>: \<open>p\<close> is what \<open>strtok_r\<close> has left, \<open>dest\<close> where the next
  value goes.  Only the widths 1, 2 and 4 store and move on.\<close>

function number_loop :: "string \<Rightarrow> nat option \<Rightarrow> int \<Rightarrow> nat \<Rightarrow> pskey \<Rightarrow> pskey option" where
  "number_loop p dest len w mem =
     (case strtok CONF_VALUES_PARTITION p of
        None \<Rightarrow> Some mem
      | Some (sub_value, p') \<Rightarrow>
          let value = sub_value_number sub_value;
              r = (if w \<in> {1, 2, 4}
                   then Option.bind dest (\<lambda>d. map_option (Pair (Some (d + w))) (mem_write mem d (take w (bytes_of_word value))))
                   else Some (dest, mem))
          in case r of None \<Rightarrow> None
             | Some (dest, mem) \<Rightarrow> if len - 1 \<noteq> 0 then number_loop p' dest (len - 1) w mem else Some mem)"
  by pat_completeness auto
termination
  by (relation "measure (\<lambda>(p, dest, len, w, mem). length p)") (auto dest: strtok_shorter)

declare number_loop.simps [simp del]

definition parse_number :: "string \<Rightarrow> string \<Rightarrow> nat option \<Rightarrow> int \<Rightarrow> nat \<Rightarrow> pskey \<Rightarrow> pskey option" where
  "parse_number p_conf_name p_conf_value dest len w mem = number_loop p_conf_value dest len w mem"

text \<open>The search through the table stops at the entry without a name; \<open>tab\<close> are the entries before it.\<close>

fun find_entry :: "conf_entry list \<Rightarrow> string \<Rightarrow> conf_entry option" where
  "find_entry [] p_name = None"
| "find_entry (e # es) p_name = (if entry_name e = p_name then Some e else find_entry es p_name)"

definition load_line :: "conf_entry list \<Rightarrow> string \<Rightarrow> pskey \<Rightarrow> pskey option" where
  "load_line tab line mem =
     (if take 1 line = ''#'' then Some mem
      else case strtok CONF_DELIMITERS line of
        None \<Rightarrow> Some mem
      | Some (p_name, p) \<Rightarrow>
          (case strtok CONF_VALUES_DELIMITERS p of
             None \<Rightarrow> Some mem
           | Some (p_value, _) \<Rightarrow>
               (case find_entry tab p_name of
                  None \<Rightarrow> Some mem
                | Some e \<Rightarrow>
                    (case entry_action e of
                       Some f \<Rightarrow> f p_name p_value (entry_buf e) (entry_len e) (entry_size e) mem
                     | None \<Rightarrow> parse_number p_name p_value (entry_buf e) (entry_len e) (entry_size e) mem))))"

section \<open>The file\<close>

definition CONF_MAX_LINE_LEN :: nat where
  "CONF_MAX_LINE_LEN = 255"

function load_lines :: "conf_entry list \<Rightarrow> string \<Rightarrow> pskey \<Rightarrow> pskey option" where
  "load_lines tab s mem =
     (if s = [] then Some mem
      else let (line, rest) = fgets CONF_MAX_LINE_LEN s
           in case load_line tab (takeWhile (\<lambda>c. c \<noteq> CHR 0x00) line) mem of
                None \<Rightarrow> None
              | Some mem \<Rightarrow> load_lines tab rest mem)"
  by pat_completeness auto
termination
proof (relation "measure (\<lambda>(tab, s, mem). length s)", simp)
  fix tab :: "conf_entry list" and s mem x line rest mem'
  assume "s \<noteq> []" "x = fgets CONF_MAX_LINE_LEN s" "(line, rest) = x"
  then show "((tab, rest, mem'), (tab, s, mem)) \<in> measure (\<lambda>(tab, s, mem). length s)"
    using fgets_shorter [of s CONF_MAX_LINE_LEN] by (simp add: CONF_MAX_LINE_LEN_def) (metis snd_conv)
qed

declare load_lines.simps [simp del]

section \<open>The address file\<close>

text \<open>\<open>%02X\<close> of \<open>sscanf\<close>: white space, then at most two characters of a sign and digits.\<close>

fun hex_run :: "nat \<Rightarrow> nat \<Rightarrow> string \<Rightarrow> nat \<times> nat \<times> string" where
  "hex_run 0 acc s = (0, acc, s)"
| "hex_run (Suc n) acc [] = (0, acc, [])"
| "hex_run (Suc n) acc (c # s) =
     (case char_digit c of
        Some d \<Rightarrow> if d < 16 then (let (k, r) = hex_run n (acc * 16 + d) s in (Suc k, r)) else (0, acc, c # s)
      | None \<Rightarrow> (0, acc, c # s))"

definition scan_02X :: "string \<Rightarrow> (u32 \<times> string) option" where
  "scan_02X s =
     (let t = dropWhile char_space s;
          (neg, n, t) = (if take 1 t = ''-'' then (True, 1, tl t) else if take 1 t = ''+'' then (False, 1, tl t) else (False, 2, t));
          (k, v, r) = hex_run n 0 t
      in if k = 0 then None else Some (if neg then - of_nat v else of_nat v, r))"

text \<open>The values assigned by the format with colons between the fields.\<close>

fun scan_fields :: "nat \<Rightarrow> string \<Rightarrow> u32 list" where
  "scan_fields 0 s = []"
| "scan_fields (Suc n) s =
     (case scan_02X s of
        None \<Rightarrow> []
      | Some (v, r) \<Rightarrow> v # (if take 1 r = '':'' then scan_fields n (tl r) else []))"

definition MAC_ADDR_LEN :: nat where
  "MAC_ADDR_LEN = 6"

text \<open>\<open>file\<close> is what can be read of the file: \<open>None\<close> if it does not open, \<open>Some None\<close> if the read fails.
  The buffer has zeros behind the bytes read.  The return value and \<open>addr\<close>.\<close>

definition read_mac_address :: "string option option \<Rightarrow> u8 list \<Rightarrow> int \<times> u8 list" where
  "read_mac_address file addr =
     (case file of
        None \<Rightarrow> (-1, addr)
      | Some None \<Rightarrow> (0, addr)
      | Some (Some s) \<Rightarrow>
          let buf = takeWhile (\<lambda>c. c \<noteq> CHR 0x00) (take 17 s)
          in if dropWhile char_space buf = [] then (0, addr)
             else let addr_t = scan_fields MAC_ADDR_LEN buf
                  in (0, map ucast (addr_t @ replicate (MAC_ADDR_LEN - length addr_t) 0)))"

fun compose_loop :: "nat \<Rightarrow> nat \<Rightarrow> nat \<Rightarrow> u8 list \<Rightarrow> u8 list" where
  "compose_loop 0 i j addr = addr"
| "compose_loop (Suc k) i j addr =
     (if i < MAC_ADDR_LEN div 2 \<and> i \<noteq> j
      then compose_loop k (i + 1) (j - 1) (addr[i := addr ! j, j := addr ! i]) else addr)"

definition mac_address_stream_compose :: "u8 list \<Rightarrow> u8 list" where
  "mac_address_stream_compose addr = compose_loop MAC_ADDR_LEN 0 (MAC_ADDR_LEN - 1) addr"

text \<open>\<open>present\<close> is the result of \<open>access\<close>.  The bytes that are copied to the block.\<close>

definition set_mac_address :: "bool \<Rightarrow> string option option \<Rightarrow> u8 list option" where
  "set_mac_address present file =
     (if \<not> present then None
      else Some (mac_address_stream_compose (snd (read_mac_address file (replicate 6 0)))))"

section \<open>After loading\<close>

record conf_env =
  mac_present :: bool
  mac_file :: "string option option"
  non_ssp :: "int \<times> string"

definition sprd_vnd_reload :: "conf_env \<Rightarrow> member list \<Rightarrow> pskey \<Rightarrow> pskey option" where
  "sprd_vnd_reload env ms mem =
     Option.bind (case set_mac_address (mac_present env) (mac_file env) of
                    None \<Rightarrow> Some mem
                  | Some addr \<Rightarrow> mem_write mem (fst (member_at ms ''device_addr'')) addr) (\<lambda>mem.
     let i = fst (member_at ms ''feature_set'') + 6
     in if fst (non_ssp env) \<ge> 0 \<and> snd (non_ssp env) = ''open''
        then mem_write mem i [mem ! i AND 0xF7] else Some mem)"

text \<open>\<open>file\<close> is the text of the configuration file, \<open>None\<close> when it does not open.\<close>

definition vnd_load_conf :: "conf_env \<Rightarrow> member list \<Rightarrow> conf_entry list \<Rightarrow> string option \<Rightarrow> pskey \<Rightarrow> pskey option" where
  "vnd_load_conf env ms tab file mem =
     Option.bind (case file of None \<Rightarrow> Some mem | Some s \<Rightarrow> load_lines tab s mem) (sprd_vnd_reload env ms)"

end
