(* ===== verification/BtConfProps.thy ===== *)
theory BtConfProps
  imports BtConf
begin

text \<open>
  The configuration block: the command carries the block's memory as it is, and a configuration file that
  gives values to members of the block is loaded exactly, whatever the order of its lines.
\<close>

section \<open>Layout\<close>

lemma align_ge: "0 < w \<Longrightarrow> off \<le> align w off"
proof -
  assume w: "0 < w"
  have "off + (w - 1) < w * ((off + (w - 1)) div w) + w"
    using mod_less_divisor [OF w, of "off + (w - 1)"] mult_div_mod_eq [of w "off + (w - 1)"] by linarith
  with w show ?thesis unfolding align_def by (simp only: mult.commute)
qed

lemma struct_end_ge:
  "(\<And>m w n. (m, w, n) \<in> set ms \<Longrightarrow> 0 < w) \<Longrightarrow> b \<le> struct_end b ms"
proof (induction b ms rule: struct_end.induct)
  case (2 b m w n ms)
  have "b \<le> align w b" using "2.prems" [of m w n] by (intro align_ge) simp
  moreover have "align w b + w * n \<le> struct_end (align w b + w * n) ms"
    by (rule "2.IH") (use "2.prems" in auto)
  ultimately show ?case by simp
qed simp

lemma layout_range:
  "(m, off, w, n) \<in> set (layout start ms) \<Longrightarrow> (\<And>m w n. (m, w, n) \<in> set ms \<Longrightarrow> 0 < w) \<Longrightarrow>
   start \<le> off \<and> off + w * n \<le> struct_end start ms \<and> (m, w, n) \<in> set ms"
proof (induction start ms rule: layout.induct)
  case (2 start m' w' n' ms)
  have w': "0 < w'" using "2.prems"(2) [of m' w' n'] by simp
  from "2.prems"(1) consider "(m, off, w, n) = (m', align w' start, w', n')"
    | "(m, off, w, n) \<in> set (layout (align w' start + w' * n') ms)" by auto
  then show ?case
  proof cases
    case 1
    moreover have "align w' start + w' * n' \<le> struct_end (align w' start + w' * n') ms"
      by (rule struct_end_ge) (use "2.prems"(2) in auto)
    ultimately show ?thesis using align_ge [OF w', of start] by simp
  next
    case 2
    then have "align w' start + w' * n' \<le> off \<and> off + w * n \<le> struct_end (align w' start + w' * n') ms \<and> (m, w, n) \<in> set ms"
      by (rule "2.IH") (use "2.prems"(2) in auto)
    then show ?thesis using align_ge [OF w', of start] by simp
  qed
qed simp

lemma layout_disjoint:
  assumes "(m, off, w, n) \<in> set (layout start ms)" "(m', off', w', n') \<in> set (layout start ms)" "m \<noteq> m'"
    "\<And>m w n. (m, w, n) \<in> set ms \<Longrightarrow> 0 < w"
  shows "off + w * n \<le> off' \<or> off' + w' * n' \<le> off"
  using assms
proof (induction start ms rule: layout.induct)
  case (2 start a v k ms)
  have pos: "\<And>m w n. (m, w, n) \<in> set ms \<Longrightarrow> 0 < w" using "2.prems"(4) by auto
  note range = layout_range [OF _ pos]
  show ?case
  proof (cases "m = a \<and> (off, w, n) = (align v start, v, k)")
    case True
    with "2.prems"(2,3) have "(m', off', w', n') \<in> set (layout (align v start + v * k) ms)" by auto
    from range [OF this] True show ?thesis by simp
  next
    case F: False
    with "2.prems"(1) have i: "(m, off, w, n) \<in> set (layout (align v start + v * k) ms)" by auto
    show ?thesis
    proof (cases "m' = a \<and> (off', w', n') = (align v start, v, k)")
      case True
      with range [OF i] show ?thesis by simp
    next
      case False
      with "2.prems"(2) have "(m', off', w', n') \<in> set (layout (align v start + v * k) ms)" by auto
      then show ?thesis using "2.IH" i "2.prems"(3) pos by blast
    qed
  qed
qed simp

section \<open>The command\<close>

lemma TO_STREAM_read:
  assumes "length bs = w" "w \<le> 4"
  shows "TO_STREAM w (word_of_bytes (bs @ replicate (4 - w) 0) 0) = bs"
  using bytes_of_word_of_bytes [of 0 "bs @ replicate (4 - w) 0"] assms by (simp add: TO_STREAM_def)

lemma stream_item_memory:
  assumes "member_at ms m = (off, w, k)" "w \<le> 4" "off + w * n \<le> length mem"
  shows "stream_item ms mem (m, w, n) = take (w * n) (drop off mem)"
  using assms(3)
proof (induction n)
  case (Suc n)
  have "TO_STREAM w (read_element ms mem m n) = take w (drop (off + w * n) mem)"
    unfolding read_element_def assms(1) Let_def prod.case
    by (rule TO_STREAM_read) (use Suc.prems assms(2) in simp_all)
  moreover have "stream_item ms mem (m, w, Suc n) = stream_item ms mem (m, w, n) @ TO_STREAM w (read_element ms mem m n)"
    by (simp add: stream_item_def)
  moreover have "take (w * Suc n) (drop off mem) = take (w * n) (drop off mem) @ take w (drop (off + w * n) mem)"
    unfolding mult_Suc_right add.commute [of w] take_add drop_drop by (simp only: add.commute)
  ultimately show ?case using Suc by simp
qed (simp add: stream_item_def)

text \<open>Members without a gap between them.\<close>

fun tiled :: "member list \<Rightarrow> nat \<Rightarrow> member list \<Rightarrow> bool" where
  "tiled ms off [] = True"
| "tiled ms off ((m, w, n) # its) = (member_at ms m = (off, w, n) \<and> w \<le> 4 \<and> tiled ms (off + w * n) its)"

lemma tiled_stream:
  "tiled ms off its \<Longrightarrow> off + (\<Sum>(m, w, n)\<leftarrow>its. w * n) \<le> length mem \<Longrightarrow>
   concat (map (stream_item ms mem) its) = take (\<Sum>(m, w, n)\<leftarrow>its. w * n) (drop off mem)"
proof (induction ms off its rule: tiled.induct)
  case (2 ms off m w n its)
  have "stream_item ms mem (m, w, n) = take (w * n) (drop off mem)"
    by (rule stream_item_memory) (use "2.prems" in auto)
  moreover have "concat (map (stream_item ms mem) its) = take (\<Sum>(m, w, n)\<leftarrow>its. w * n) (drop (off + w * n) mem)"
    by (rule "2.IH") (use "2.prems" in auto)
  ultimately show ?case by (simp add: take_add add.commute)
qed simp

lemma marlin_layout: "marlin_stream_items = tl marlin_pskey"
  by (simp add: marlin_stream_items_def marlin_pskey_def)

lemma marlin_tiled: "tiled marlin_pskey 4 marlin_stream_items"
  by (simp add: marlin_stream_items_def marlin_pskey_def member_at_def align_def)

lemma marlin_size: "sizeof_struct marlin_pskey = 220" "(\<Sum>(m, w, n)\<leftarrow>marlin_stream_items. w * n) = 216"
  by (simp_all add: sizeof_struct_def marlin_stream_items_def marlin_pskey_def align_def)

lemma marlin_pskey_size: "get_pskey_size (marlin_table @ beyond) = 216 + get_pskey_size beyond"
  by (simp add: get_pskey_size_def marlin_table_def conf_item_def marlin_pskey_def member_at_def align_def)

lemma marlin_stream_block:
  assumes "length mem = 220"
  shows "marlin_stream mem = [0xA0, 0xFC, 0xD8] @ drop 4 mem"
proof -
  have "concat (map (stream_item marlin_pskey mem) marlin_stream_items) = drop 4 mem"
    using tiled_stream [OF marlin_tiled, of mem] assms unfolding marlin_size by simp
  then show ?thesis
    by (simp add: marlin_stream_def TO_STREAM_def bytes_of_word_def HCI_PSKEY_def PSKEY_PREAMBLE_SIZE_def)
qed

section \<open>Reading the file\<close>

text \<open>A line of the file: the name, and the values in decimal.\<close>

fun value_list :: "nat list \<Rightarrow> string" where
  "value_list [] = []"
| "value_list [v] = CHR '' '' # fmt_nat v"
| "value_list (v # vs) = CHR '' '' # fmt_nat v @ CHR '','' # value_list vs"

definition conf_line :: "string \<times> nat list \<Rightarrow> string" where
  "conf_line = (\<lambda>(m, vs). m @ '' ='' @ value_list vs @ [CHR 0x0A])"

definition conf_text :: "(string \<times> nat list) list \<Rightarrow> string" where
  "conf_text cfg = concat (map conf_line cfg)"

text \<open>The bytes of the values, and the block with them in place of a member.\<close>

definition value_bytes :: "nat \<Rightarrow> nat list \<Rightarrow> u8 list" where
  "value_bytes w vs = concat (map (\<lambda>v. take w (bytes_of_word (of_nat v))) vs)"

definition put_bytes :: "'a list \<Rightarrow> nat \<Rightarrow> 'a list \<Rightarrow> 'a list" where
  "put_bytes mem off bs = take off mem @ bs @ drop (off + length bs) mem"

lemma length_value_bytes: "w \<le> 4 \<Longrightarrow> length (value_bytes w vs) = w * length vs"
  by (induction vs) (simp_all add: value_bytes_def)

lemma length_put_bytes [simp]: "off + length bs \<le> length mem \<Longrightarrow> length (put_bytes mem off bs) = length mem"
  by (simp add: put_bytes_def)

lemma put_bytes_put_bytes: "off + length bs \<le> length mem \<Longrightarrow>
    put_bytes (put_bytes mem off bs) (off + length bs) cs = put_bytes mem off (bs @ cs)"
  by (simp add: put_bytes_def) (simp only: ac_simps)

lemma mem_write_put: "off + length bs \<le> length mem \<Longrightarrow> mem_write mem off bs = Some (put_bytes mem off bs)"
  by (simp add: mem_write_def put_bytes_def)

lemma digit_value_char: "digit_char c \<Longrightarrow> \<not> CONF_VALUES_PARTITION c \<and> \<not> CONF_VALUES_DELIMITERS c \<and> c \<noteq> CHR 0x0A \<and> c \<noteq> CHR 0x00"
  by (auto simp: digit_char_def CONF_VALUES_PARTITION_def CONF_VALUES_DELIMITERS_def)

lemma fmt_nat_value: "list_all (\<lambda>c. \<not> CONF_VALUES_PARTITION c) (fmt_nat v)"
  using fmt_nat_digits [of v] by (rule list.pred_mono_strong) (simp add: digit_value_char)

lemma sub_value_fmt_nat: "v < 2 ^ 32 \<Longrightarrow> sub_value_number (fmt_nat v) = of_nat v"
proof -
  assume v: "v < 2 ^ 32"
  have no_x: "take 2 (fmt_nat v) \<noteq> ''0x'' \<and> take 2 (fmt_nat v) \<noteq> ''0X''"
  proof -
    have "list_all digit_char (take 2 (fmt_nat v))" using fmt_nat_digits [of v] by (auto simp: list_all_iff dest: in_set_takeD)
    then show ?thesis by (auto simp: digit_char_def)
  qed
  have "digit_char (hd (fmt_nat v))"
    using fmt_nat_digits [of v] fmt_nat_not_Nil [of v] by (cases "fmt_nat v") simp_all
  from digit_not_space [OF this] have "signed_text (fmt_nat v) = (False, fmt_nat v)"
    by (cases "fmt_nat v") (simp_all add: signed_text_def Let_def)
  with v no_x show ?thesis by (simp add: sub_value_number_def strtoul32_def text_digits_fmt_nat)
qed

lemma number_loop_values:
  assumes "vs \<noteq> []" "\<forall>v\<in>set vs. v < 2 ^ 32" "w \<in> {1, 2, 4}" "d + w * length vs \<le> length mem"
  shows "number_loop (value_list vs) (Some d) (int (length vs)) w mem = Some (put_bytes mem d (value_bytes w vs))"
  using assms
proof (induction vs arbitrary: d mem rule: value_list.induct)
  case 1
  then show ?case by simp
next
  case (2 v)
  have t: "strtok CONF_VALUES_PARTITION (CHR '' '' # fmt_nat v) = Some (fmt_nat v, [])"
    using strtok_last [of CONF_VALUES_PARTITION "'' ''" "fmt_nat v"] fmt_nat_value [of v]
    by (simp add: CONF_VALUES_PARTITION_def)
  have "mem_write mem d (take w (bytes_of_word (of_nat v))) = Some (put_bytes mem d (take w (bytes_of_word (of_nat v))))"
    using 2 by (intro mem_write_put) auto
  with 2 t show ?case
    by (subst number_loop.simps) (simp add: sub_value_fmt_nat value_bytes_def)
next
  case (3 v v' vs)
  have t: "strtok CONF_VALUES_PARTITION (CHR '' '' # fmt_nat v @ CHR '','' # value_list (v' # vs)) =
      Some (fmt_nat v, value_list (v' # vs))"
    using strtok_delimited [of CONF_VALUES_PARTITION "'' ''" "fmt_nat v" "CHR '',''" "value_list (v' # vs)"] fmt_nat_value [of v]
    by (simp add: CONF_VALUES_PARTITION_def)
  define bs where "bs = take w (bytes_of_word (of_nat v))"
  have l: "length bs = w" using 3 by (auto simp: bs_def)
  have fits: "d + w + w * length (v' # vs) \<le> length mem" using "3.prems"(4) by simp
  have m: "mem_write mem d bs = Some (put_bytes mem d bs)"
    using fits l by (intro mem_write_put) simp
  have "number_loop (value_list (v' # vs)) (Some (d + w)) (int (length (v' # vs))) w (put_bytes mem d bs) =
      Some (put_bytes (put_bytes mem d bs) (d + w) (value_bytes w (v' # vs)))"
    by (rule "3.IH") (use 3 fits l in auto)
  also have "put_bytes (put_bytes mem d bs) (d + w) (value_bytes w (v' # vs)) = put_bytes mem d (value_bytes w (v # v' # vs))"
    using put_bytes_put_bytes [of d bs mem "value_bytes w (v' # vs)"] fits unfolding l by (simp add: value_bytes_def bs_def)
  finally show ?case
    using 3 t m unfolding bs_def
    by (subst number_loop.simps) (simp add: sub_value_fmt_nat)
qed

section \<open>The table\<close>

lemma find_entry_append: "find_entry tab m = Some e \<Longrightarrow> find_entry (tab @ beyond) m = Some e"
  by (induction tab) (auto split: if_splits)

lemma find_entry_member: "e \<in> set tab \<Longrightarrow> distinct (map entry_name tab) \<Longrightarrow> find_entry tab (entry_name e) = Some e"
  by (induction tab) auto

lemma layout_member:
  "(m, w, n) \<in> set ms \<Longrightarrow> \<exists>off. (m, off, w, n) \<in> set (layout start ms)"
  by (induction start ms rule: layout.induct) auto

lemma layout_names: "map fst (layout start ms) = map fst ms"
  by (induction start ms rule: layout.induct) auto

lemma member_at_layout:
  assumes "(m, w, n) \<in> set ms" "distinct (map fst ms)"
  obtains off where "member_at ms m = (off, w, n)" "(m, off, w, n) \<in> set (layout 0 ms)"
proof -
  obtain off where off: "(m, off, w, n) \<in> set (layout 0 ms)" using layout_member [OF assms(1)] by blast
  then have "map_of (layout 0 ms) m = Some (off, w, n)"
    using assms(2) by (intro map_of_is_SomeI) (simp_all add: layout_names)
  with off that show thesis by (simp add: member_at_def)
qed

lemma marlin_table_items: "marlin_table = hd marlin_table # map (\<lambda>(m, w, n). conf_item marlin_pskey m n) (tl marlin_pskey)"
  by (simp add: marlin_table_def) (simp add: marlin_pskey_def)

lemma entry_name_conf_item [simp]: "entry_name (conf_item ms m n) = m"
  by (simp add: conf_item_def Let_def split: prod.split)

lemma marlin_names: "distinct (map fst marlin_pskey)"
  by (simp add: marlin_pskey_def)

text \<open>What the loader relies on: a name is one token, and the widths are those it can store.\<close>

definition name_char :: "char \<Rightarrow> bool" where
  "name_char c \<longleftrightarrow> \<not> CONF_DELIMITERS c \<and> c \<noteq> CHR ''#'' \<and> c \<noteq> CHR 0x00"

definition plain_member :: "member \<Rightarrow> bool" where
  "plain_member = (\<lambda>(m, w, n). list_all name_char m \<and> m \<noteq> [] \<and> length m \<le> 40 \<and> w \<in> {1, 2, 4} \<and> 0 < n \<and> n \<le> 16)"

lemma marlin_plain: "list_all plain_member marlin_pskey"
  by (simp add: marlin_pskey_def plain_member_def name_char_def CONF_DELIMITERS_def)

lemma marlin_member:
  assumes "(m, w, n) \<in> set (tl marlin_pskey)"
  shows "(m, w, n) \<in> set marlin_pskey" "plain_member (m, w, n)"
proof -
  show i: "(m, w, n) \<in> set marlin_pskey" using assms by (metis list.sel(2) list.set_sel(2))
  show "plain_member (m, w, n)" by (rule marlin_plain [unfolded list_all_iff, THEN bspec, OF i])
qed

lemma marlin_entry:
  assumes "(m, w, n) \<in> set (tl marlin_pskey)" "member_at marlin_pskey m = (off, w, n)"
  shows "find_entry (marlin_table @ beyond) m =
    Some \<lparr>entry_name = m, entry_action = None, entry_buf = Some off, entry_len = int n, entry_size = w\<rparr>"
proof -
  have hd: "entry_name (hd marlin_table) = ''pskey_cmd''" by (simp add: marlin_table_def)
  have names: "map entry_name marlin_table = map fst marlin_pskey"
    by (subst marlin_table_items) (simp add: hd, simp add: marlin_pskey_def)
  have "conf_item marlin_pskey m n \<in> set marlin_table"
    using assms(1) by (subst marlin_table_items) (auto intro: rev_image_eqI)
  from find_entry_member [OF this]
  have "find_entry marlin_table m = Some (conf_item marlin_pskey m n)"
    using marlin_names by (simp add: names)
  moreover have "0 < n"
    using marlin_member(2) [OF assms(1)] by (simp add: plain_member_def)
  ultimately show ?thesis using assms(2) by (simp add: find_entry_append conf_item_def)
qed

section \<open>Loading\<close>

lemma length_fmt_nat: "v < 10 ^ Suc k \<Longrightarrow> length (fmt_nat v) \<le> Suc k"
proof (induction k arbitrary: v)
  case (Suc k)
  show ?case
  proof (cases "v < 10")
    case False
    have "length (fmt_nat (v div 10)) \<le> Suc k" using Suc.prems by (intro Suc.IH) simp
    then show ?thesis by (subst fmt_nat.simps) (simp add: False)
  qed (subst fmt_nat.simps, simp)
qed (subst fmt_nat.simps, simp)

lemma length_value_list: "\<forall>v\<in>set vs. v < 2 ^ 32 \<Longrightarrow> length (value_list vs) \<le> 12 * length vs"
proof (induction vs rule: value_list.induct)
  case (2 v)
  then show ?case using length_fmt_nat [of v 9] by simp
next
  case (3 v v' vs)
  then show ?case using length_fmt_nat [of v 9] by simp
qed simp

definition value_list_char :: "char \<Rightarrow> bool" where
  "value_list_char c \<longleftrightarrow> digit_char c \<or> c = CHR '' '' \<or> c = CHR '',''"

lemma value_list_chars: "list_all value_list_char (value_list vs)"
proof -
  have "list_all value_list_char (fmt_nat v)" for v
    using fmt_nat_digits [of v] by (rule list.pred_mono_strong) (simp add: value_list_char_def)
  then show ?thesis by (induction vs rule: value_list.induct) (simp_all add: value_list_char_def)
qed

lemma value_list_char: "value_list_char c \<Longrightarrow> \<not> CONF_VALUES_DELIMITERS c \<and> c \<noteq> CHR 0x0A \<and> c \<noteq> CHR 0x00"
  by (auto simp: value_list_char_def digit_char_def CONF_VALUES_DELIMITERS_def)

lemma value_list_not_Nil: "vs \<noteq> [] \<Longrightarrow> value_list vs \<noteq> []"
  by (cases vs rule: value_list.cases) auto

lemma name_char: "name_char c \<Longrightarrow> \<not> CONF_DELIMITERS c \<and> c \<noteq> CHR ''#'' \<and> c \<noteq> CHR 0x0A \<and> c \<noteq> CHR 0x00"
  by (auto simp: name_char_def CONF_DELIMITERS_def)

lemma fgets_line: "list_all (\<lambda>c. c \<noteq> CHR 0x0A) l \<Longrightarrow> length l < n \<Longrightarrow> fgets n (l @ CHR 0x0A # rest) = (l @ [CHR 0x0A], rest)"
proof (induction l arbitrary: n)
  case Nil
  then show ?case by (cases n) simp_all
next
  case (Cons c l)
  then show ?case by (cases n) (simp_all add: Let_def)
qed

lemma load_conf_line:
  assumes "(m, w, n) \<in> set (tl marlin_pskey)" "member_at marlin_pskey m = (off, w, n)" "length vs = n"
    "\<forall>v\<in>set vs. v < 256 ^ w" "off + w * n \<le> length mem"
  shows "load_line (marlin_table @ beyond) (conf_line (m, vs)) mem = Some (put_bytes mem off (value_bytes w vs))"
proof -
  have pl: "list_all name_char m" "m \<noteq> []" "w \<in> {1, 2, 4}" "0 < n"
    using marlin_member(2) [OF assms(1)] by (simp_all add: plain_member_def)
  have nc: "list_all (\<lambda>c. \<not> CONF_DELIMITERS c) m" using pl(1) by (rule list.pred_mono_strong) (simp add: name_char)
  have vc: "list_all (\<lambda>c. \<not> CONF_VALUES_DELIMITERS c) (value_list vs)"
    using value_list_chars [of vs] by (rule list.pred_mono_strong) (simp add: value_list_char)
  have hd: "take 1 (conf_line (m, vs)) \<noteq> ''#''"
    using pl(1,2) by (cases m) (auto simp: conf_line_def name_char)
  have n: "strtok CONF_DELIMITERS (conf_line (m, vs)) = Some (m, CHR ''='' # value_list vs @ [CHR 0x0A])"
    using strtok_delimited [of CONF_DELIMITERS "[]" m "CHR '' ''"] nc pl(2) by (simp add: conf_line_def CONF_DELIMITERS_def)
  have v: "strtok CONF_VALUES_DELIMITERS (CHR ''='' # value_list vs @ [CHR 0x0A]) = Some (value_list vs, [])"
    using strtok_delimited [of CONF_VALUES_DELIMITERS "''=''" "value_list vs" "CHR 0x0A" "[]"] vc
      value_list_not_Nil [of vs] assms(3) pl(4) by (auto simp: CONF_VALUES_DELIMITERS_def)
  have "v < 2 ^ 32" if "v \<in> set vs" for v using assms(4) that pl(3) by fastforce
  then have "number_loop (value_list vs) (Some off) (int (length vs)) w mem = Some (put_bytes mem off (value_bytes w vs))"
    by (intro number_loop_values) (use assms pl in auto)
  with hd n v show ?thesis
    by (simp add: load_line_def marlin_entry [OF assms(1,2)] parse_number_def assms(3))
qed

lemma conf_line_fgets:
  assumes "plain_member (m, w, n)" "length vs = n" "\<forall>v\<in>set vs. v < 2 ^ 32"
  shows "fgets CONF_MAX_LINE_LEN (conf_line (m, vs) @ rest) = (conf_line (m, vs), rest)"
    "takeWhile (\<lambda>c. c \<noteq> CHR 0x00) (conf_line (m, vs)) = conf_line (m, vs)"
proof -
  let ?l = "m @ '' ='' @ value_list vs"
  have nc: "list_all (\<lambda>c. c \<noteq> CHR 0x0A \<and> c \<noteq> CHR 0x00) m"
    by (rule list.pred_mono_strong [of name_char]) (use assms(1) in \<open>auto simp: plain_member_def name_char\<close>)
  have vc: "list_all (\<lambda>c. c \<noteq> CHR 0x0A \<and> c \<noteq> CHR 0x00) (value_list vs)"
    using value_list_chars [of vs] by (rule list.pred_mono_strong) (simp add: value_list_char)
  have "list_all (\<lambda>c. c \<noteq> CHR 0x0A) ?l" using nc vc by (auto simp: list_all_iff)
  moreover have "length ?l < CONF_MAX_LINE_LEN"
    using length_value_list [OF assms(3)] assms(1,2) by (simp add: plain_member_def CONF_MAX_LINE_LEN_def)
  ultimately show "fgets CONF_MAX_LINE_LEN (conf_line (m, vs) @ rest) = (conf_line (m, vs), rest)"
    using fgets_line [of ?l CONF_MAX_LINE_LEN rest] by (simp add: conf_line_def)
  show "takeWhile (\<lambda>c. c \<noteq> CHR 0x00) (conf_line (m, vs)) = conf_line (m, vs)"
    using nc vc by (auto simp: conf_line_def list_all_iff takeWhile_eq_all_conv)
qed

text \<open>What a configuration may say: each member once, at most, and as many values as it has elements, which fit.\<close>

definition conf_valid :: "member list \<Rightarrow> (string \<times> nat list) list \<Rightarrow> bool" where
  "conf_valid ms cfg \<longleftrightarrow> distinct (map fst cfg) \<and>
     list_all (\<lambda>(m, vs). list_ex (\<lambda>(m', w, n). m' = m \<and> length vs = n \<and> list_all (\<lambda>v. v < 256 ^ w) vs) ms) cfg"

fun loaded :: "member list \<Rightarrow> (string \<times> nat list) list \<Rightarrow> pskey \<Rightarrow> pskey" where
  "loaded ms [] mem = mem"
| "loaded ms ((m, vs) # cfg) mem =
     (let (off, w, n) = member_at ms m in loaded ms cfg (put_bytes mem off (value_bytes w vs)))"

lemma conf_valid_Cons:
  assumes "conf_valid ms ((m, vs) # cfg)"
  obtains w n where "(m, w, n) \<in> set ms" "length vs = n" "\<forall>v\<in>set vs. v < 256 ^ w" "m \<notin> fst ` set cfg" "conf_valid ms cfg"
  using assms by (auto simp: conf_valid_def list_ex_iff list_all_iff)

lemma marlin_member_range:
  assumes "(m, off, w, n) \<in> set (layout 0 marlin_pskey)"
  shows "off + w * n \<le> 220"
proof -
  have pos: "0 < w" if "(m, w, n) \<in> set marlin_pskey" for m w n
    using marlin_plain that by (auto simp: list_all_iff plain_member_def)
  have "struct_end 0 marlin_pskey = 220" by (simp add: marlin_pskey_def align_def)
  with layout_range [OF assms pos] show ?thesis by simp
qed

lemma load_lines_conf:
  assumes "conf_valid (tl marlin_pskey) cfg" "length mem = 220"
  shows "load_lines (marlin_table @ beyond) (conf_text cfg) mem = Some (loaded marlin_pskey cfg mem)
    \<and> length (loaded marlin_pskey cfg mem) = 220"
  using assms
proof (induction cfg arbitrary: mem)
  case Nil
  then show ?case by (subst load_lines.simps) (simp add: conf_text_def)
next
  case (Cons c cfg)
  obtain m vs where c: "c = (m, vs)" by (cases c)
  from Cons.prems(1) [unfolded c] obtain w n where
    i: "(m, w, n) \<in> set (tl marlin_pskey)" "length vs = n" "\<forall>v\<in>set vs. v < 256 ^ w" "conf_valid (tl marlin_pskey) cfg"
    by (rule conf_valid_Cons)
  note mem = marlin_member [OF i(1)]
  obtain off where off: "member_at marlin_pskey m = (off, w, n)" "(m, off, w, n) \<in> set (layout 0 marlin_pskey)"
    using member_at_layout [OF mem(1) marlin_names] .
  have fits: "off + w * n \<le> length mem" using marlin_member_range [OF off(2)] Cons.prems(2) by simp
  have w: "w \<in> {1, 2, 4}" using mem(2) by (simp add: plain_member_def)
  have small: "\<forall>v\<in>set vs. v < 2 ^ 32" using i(3) w by fastforce
  have len: "length (put_bytes mem off (value_bytes w vs)) = 220"
    using fits w i(2) Cons.prems(2) by (subst length_put_bytes) (auto simp: length_value_bytes)
  have ne: "conf_line (m, vs) \<noteq> []" by (simp add: conf_line_def)
  have "load_lines (marlin_table @ beyond) (conf_text ((m, vs) # cfg)) mem =
      load_lines (marlin_table @ beyond) (conf_text cfg) (put_bytes mem off (value_bytes w vs))"
    using ne conf_line_fgets(1) [OF mem(2) i(2) small, of "conf_text cfg"] conf_line_fgets(2) [OF mem(2) i(2) small]
      load_conf_line [OF i(1) off(1) i(2,3) fits, of beyond]
    by (simp add: conf_text_def load_lines.simps [of _ "conf_line (m, vs) @ _"] del: takeWhile_eq_all_conv)
  with Cons.IH [OF i(4) len] off(1) show ?case by (simp add: c)
qed

section \<open>Reading back\<close>

lemma read_value:
  assumes "v < 256 ^ w" "w \<le> 4"
  shows "word_of_bytes (take w (bytes_of_word (of_nat v)) @ replicate (4 - w) 0) 0 = of_nat v"
proof -
  have z: "le_val (replicate k 0) = 0" for k by (induction k) simp_all
  have "(256 :: nat) ^ w \<le> 256 ^ 4" using assms(2) by (intro power_increasing) simp_all
  then have v: "v < 2 ^ 32" using assms(1) by simp
  have "le_val (take w (bytes_of_word (of_nat v))) + 256 ^ w * le_val (drop w (bytes_of_word (of_nat v))) = v"
    using le_val_append [of "take w (bytes_of_word (of_nat v))" "drop w (bytes_of_word (of_nat v))"] v assms(2)
    by (simp add: le_val_bytes_of_word unsigned_of_nat take_bit_nat_eq_self)
  moreover from this assms(1) have "le_val (drop w (bytes_of_word (of_nat v))) = 0"
    by (cases "le_val (drop w (bytes_of_word (of_nat v)))") simp_all
  ultimately have "le_val (take w (bytes_of_word (of_nat v)) @ replicate (4 - w) 0) = v" by (simp add: le_val_append z)
  then have "unat (word_of_bytes (take w (bytes_of_word (of_nat v)) @ replicate (4 - w) 0) 0 :: u32) = v"
    using bytes_of_word_of_bytes [of 0 "take w (bytes_of_word (of_nat v)) @ replicate (4 - w) 0"] assms(2)
      le_val_bytes_of_word [of "word_of_bytes (take w (bytes_of_word (of_nat v)) @ replicate (4 - w) 0) 0"]
    by simp
  then show ?thesis by (metis of_nat_unat ucast_id)
qed

lemma drop_value_bytes:
  assumes "w \<le> 4"
  shows "i < length vs \<Longrightarrow> take w (drop (w * i) (value_bytes w vs)) = take w (bytes_of_word (of_nat (vs ! i)))"
proof (induction vs arbitrary: i)
  case (Cons v vs)
  then show ?case using assms by (cases i) (simp_all add: value_bytes_def)
qed simp

lemma take_drop_put_inside:
  assumes "i + k \<le> length bs" "off + length bs \<le> length mem"
  shows "take k (drop (off + i) (put_bytes mem off bs)) = take k (drop i bs)"
  using assms by (simp add: put_bytes_def)

lemma take_drop_put_outside:
  assumes "i + k \<le> off \<or> off + length bs \<le> i" "off + length bs \<le> length mem"
  shows "take k (drop i (put_bytes mem off bs)) = take k (drop i mem)"
  using assms by (auto simp: put_bytes_def drop_take min_def)

text \<open>The values of a member.\<close>

definition member_values :: "pskey \<Rightarrow> member \<Rightarrow> u32 list" where
  "member_values mem = (\<lambda>(m, w, n). map (read_element marlin_pskey mem m) [0..<n])"

lemma element_range: "i < n \<Longrightarrow> w * i + w \<le> w * n" for w :: nat
  by (metis Suc_leI mult_Suc_right add.commute mult_le_mono2)

lemma member_values_put:
  assumes "(m, off, w, n) \<in> set (layout 0 marlin_pskey)" "length vs = n" "\<forall>v\<in>set vs. v < 256 ^ w" "length mem = 220"
    "w \<le> 4" "(m', w', n') \<in> set marlin_pskey" "member_at marlin_pskey m = (off, w, n)"
  shows "member_values (put_bytes mem off (value_bytes w vs)) (m', w', n') =
    (if m' = m then map of_nat vs else member_values mem (m', w', n'))"
proof (cases "m' = m")
  case True
  obtain off' where "member_at marlin_pskey m' = (off', w', n')" using member_at_layout [OF assms(6) marlin_names] .
  with True assms(7) have e: "w' = w" "n' = n" by simp_all
  have r: "off + w * n \<le> 220" by (rule marlin_member_range [OF assms(1)])
  have "read_element marlin_pskey (put_bytes mem off (value_bytes w vs)) m i = of_nat (vs ! i)" if i: "i < n" for i
  proof -
    have "take w (drop (off + w * i) (put_bytes mem off (value_bytes w vs))) = take w (drop (w * i) (value_bytes w vs))"
      by (rule take_drop_put_inside) (use element_range [OF i, of w] r assms in \<open>auto simp: length_value_bytes\<close>)
    also have "\<dots> = take w (bytes_of_word (of_nat (vs ! i)))" using i assms(2,5) by (simp add: drop_value_bytes)
    finally show ?thesis using assms(2,3,5) i by (simp add: read_element_def assms(7) read_value)
  qed
  then show ?thesis using True assms(2) by (auto simp: member_values_def e intro!: nth_equalityI)
next
  case False
  obtain off' where o: "member_at marlin_pskey m' = (off', w', n')" "(m', off', w', n') \<in> set (layout 0 marlin_pskey)"
    using member_at_layout [OF assms(6) marlin_names] .
  have pos: "0 < w" if "(m, w, n) \<in> set marlin_pskey" for m w n
    using marlin_plain that by (auto simp: list_all_iff plain_member_def)
  have d: "off + w * n \<le> off' \<or> off' + w' * n' \<le> off"
    using layout_disjoint [OF assms(1) o(2)] False pos by blast
  have "read_element marlin_pskey (put_bytes mem off (value_bytes w vs)) m' i = read_element marlin_pskey mem m' i"
    if i: "i < n'" for i
  proof -
    have "take w' (drop (off' + w' * i) (put_bytes mem off (value_bytes w vs))) = take w' (drop (off' + w' * i) mem)"
      by (rule take_drop_put_outside)
        (use d element_range [OF i, of w'] marlin_member_range [OF assms(1)] assms in \<open>auto simp: length_value_bytes\<close>)
    then show ?thesis by (simp add: read_element_def o(1))
  qed
  then show ?thesis using False by (simp add: member_values_def)
qed

lemma loaded_values:
  assumes "conf_valid (tl marlin_pskey) cfg" "length mem = 220" "(m', w', n') \<in> set marlin_pskey"
  shows "member_values (loaded marlin_pskey cfg mem) (m', w', n') =
    (case map_of cfg m' of None \<Rightarrow> member_values mem (m', w', n') | Some vs \<Rightarrow> map of_nat vs)"
  using assms(1,2)
proof (induction cfg arbitrary: mem)
  case (Cons c cfg)
  obtain m vs where c: "c = (m, vs)" by (cases c)
  from Cons.prems(1) [unfolded c] obtain w n where
    i: "(m, w, n) \<in> set (tl marlin_pskey)" "length vs = n" "\<forall>v\<in>set vs. v < 256 ^ w" "m \<notin> fst ` set cfg"
      "conf_valid (tl marlin_pskey) cfg"
    by (rule conf_valid_Cons)
  note mem = marlin_member [OF i(1)]
  obtain off where off: "member_at marlin_pskey m = (off, w, n)" "(m, off, w, n) \<in> set (layout 0 marlin_pskey)"
    using member_at_layout [OF mem(1) marlin_names] .
  have w: "w \<le> 4" using mem(2) by (auto simp: plain_member_def)
  have len: "length (put_bytes mem off (value_bytes w vs)) = 220"
    using marlin_member_range [OF off(2)] w i(2) Cons.prems(2) by (subst length_put_bytes) (auto simp: length_value_bytes)
  note put = member_values_put [OF off(2) i(2,3) Cons.prems(2) w assms(3) off(1)]
  have none: "map_of cfg m = None" using i(4) by (simp add: map_of_eq_None_iff)
  show ?case using Cons.IH [OF i(5) len] off(1) put none by (auto simp: c split: option.split)
qed simp

text \<open>C19: A configuration file that names members of the marlin block, each at most once and in any order, with as many
  values as the member has elements, each value fitting its element, is loaded by the configuration reader without a
  write outside the block; afterwards every member named has exactly the file's values, and every other member
  those it had before.\<close>

theorem conf_file_loaded:
  assumes "conf_valid (tl marlin_pskey) cfg" "length mem = sizeof_struct marlin_pskey"
  shows "\<exists>mem'. load_lines (marlin_table @ beyond) (conf_text cfg) mem = Some mem' \<and>
     (\<forall>e\<in>set marlin_pskey. member_values mem' e =
        (case map_of cfg (fst e) of None \<Rightarrow> member_values mem e | Some vs \<Rightarrow> map of_nat vs))"
proof -
  have mem: "length mem = 220" using assms(2) by (simp add: marlin_size)
  show ?thesis using load_lines_conf [OF assms(1) mem] loaded_values [OF assms(1) mem] by force
qed

lemma conf_file_loaded_witness:
  "\<exists>mem'. load_lines (marlin_table @ []) (conf_text [(''g_wbs_nv_117'', [65000]), (''feature_set'', replicate 15 7 @ [255])])
       (replicate (sizeof_struct marlin_pskey) 0) = Some mem' \<and>
     (\<forall>e\<in>set marlin_pskey. member_values mem' e =
        (case map_of [(''g_wbs_nv_117'', [65000]), (''feature_set'', replicate 15 7 @ [255])] (fst e) of
           None \<Rightarrow> member_values (replicate (sizeof_struct marlin_pskey) 0) e | Some vs \<Rightarrow> map of_nat vs))"
  by (rule conf_file_loaded) (simp_all add: conf_valid_def marlin_pskey_def list_all_iff)



end
