(* ===== verification/BtUpio.thy ===== *)
theory BtUpio
  imports CText
begin

text \<open>
  \<^verbatim>\<open>libs/libbt/src/upio.c\<close> with the settings of \<^verbatim>\<open>include/vnd_marlin.txt\<close> (\<open>BT_WAKE_VIA_PROC\<close> and
  \<open>BT_WAKE_VIA_PROC_NOTIFY_DEASSERT\<close> set, a time of 8000 ms): the low power mode, the wake signal written to a proc node,
  and the timer that takes the signal back; the power switch over the \<open>wcnd\<close> socket or, as for
  marlin2, over rfkill.  What the kernel answers is a parameter of each operation.  The state has, besides
  the program's variables, the character the node holds and the time the timer runs for.  \<open>None\<close>
  is undefined behaviour: a timer call on an identifier that no \<open>timer_create\<close> returned.
\<close>

section \<open>State\<close>

definition UPIO_BT_WAKE :: nat where "UPIO_BT_WAKE = 0"
definition UPIO_HOST_WAKE :: nat where "UPIO_HOST_WAKE = 1"
definition UPIO_LPM_MODE :: nat where "UPIO_LPM_MODE = 2"
definition UPIO_MAX_COUNT :: nat where "UPIO_MAX_COUNT = 3"

definition UPIO_UNKNOWN :: nat where "UPIO_UNKNOWN = 0"
definition UPIO_DEASSERT :: nat where "UPIO_DEASSERT = 1"
definition UPIO_ASSERT :: nat where "UPIO_ASSERT = 2"

definition BT_WAKE_PROC_DEASSERT :: char where "BT_WAKE_PROC_DEASSERT = CHR ''2''"
definition BT_WAKE_PROC_ASSERT :: char where "BT_WAKE_PROC_ASSERT = CHR ''1''"

definition PROC_BTWRITE_TIMER_TIMEOUT_MS :: nat where "PROC_BTWRITE_TIMER_TIMEOUT_MS = 8000"

record upio =
  upio_state :: "nat list"
  btwrite_active :: bool
  timer_created :: bool
  fd_btwrite :: int
  node :: "char option"
  timer :: "nat option"
  rfkill_id :: int

text \<open>The results of the system calls of one operation, which makes each at most once.\<close>

record upio_io =
  io_open :: int
  io_create :: int
  io_write :: int
  io_settime :: int

section \<open>The timer\<close>

definition upio_start_stop_timer :: "upio_io \<Rightarrow> nat \<Rightarrow> upio \<Rightarrow> upio option" where
  "upio_start_stop_timer io action s =
     (let s = (if action = UPIO_ASSERT then s\<lparr>btwrite_active := True\<rparr> else s);
          ts = (if action = UPIO_ASSERT then Some PROC_BTWRITE_TIMER_TIMEOUT_MS else None)
      in if \<not> timer_created s then None
         else Some (if io_settime io = 0 then s\<lparr>timer := ts\<rparr> else s))"

section \<open>Setting a signal\<close>

definition set_lpm_mode :: "upio_io \<Rightarrow> nat \<Rightarrow> upio \<Rightarrow> upio" where
  "set_lpm_mode io action s =
     (if upio_state s ! UPIO_LPM_MODE = action then s
      else let s = s\<lparr>upio_state := (upio_state s)[UPIO_LPM_MODE := action], fd_btwrite := io_open io\<rparr>
           in if fd_btwrite s < 0 then s
              else let s = (if action = UPIO_ASSERT \<and> \<not> timer_created s
                            then s\<lparr>timer_created := (io_create io = 0)\<rparr> else s)
                   in if action = UPIO_DEASSERT then s\<lparr>fd_btwrite := -1\<rparr> else s)"

definition set_bt_wake :: "upio_io \<Rightarrow> nat \<Rightarrow> upio \<Rightarrow> upio option" where
  "set_bt_wake io action s =
     (if upio_state s ! UPIO_BT_WAKE = action \<and> btwrite_active s then upio_start_stop_timer io action s
      else let s = s\<lparr>upio_state := (upio_state s)[UPIO_BT_WAKE := action]\<rparr>
           in if fd_btwrite s < 0 then Some s
              else let c = (if action = UPIO_DEASSERT then BT_WAKE_PROC_DEASSERT else BT_WAKE_PROC_ASSERT)
                   in if io_write io < 0 then Some s
                      else upio_start_stop_timer io action (s\<lparr>node := Some c\<rparr>))"

definition upio_set :: "upio_io \<Rightarrow> nat \<Rightarrow> nat \<Rightarrow> upio \<Rightarrow> upio option" where
  "upio_set io pio action s =
     (if pio = UPIO_LPM_MODE then Some (set_lpm_mode io action s)
      else if pio = UPIO_BT_WAKE then set_bt_wake io action s
      else Some s)"

text \<open>The thread of an expired timer.\<close>

definition proc_btwrite_timeout :: "upio_io \<Rightarrow> upio \<Rightarrow> upio option" where
  "proc_btwrite_timeout io s = upio_set io UPIO_BT_WAKE UPIO_DEASSERT (s\<lparr>btwrite_active := False\<rparr>)"

definition upio_init :: "upio \<Rightarrow> upio" where
  "upio_init s = s\<lparr>upio_state := replicate UPIO_MAX_COUNT UPIO_UNKNOWN, btwrite_active := False, timer_created := False\<rparr>"

definition upio_cleanup :: "upio \<Rightarrow> upio" where
  "upio_cleanup s =
     (let s = (if timer_created s then s\<lparr>timer := None\<rparr> else s)
      in s\<lparr>timer_created := False, fd_btwrite := -1\<rparr>)"

section \<open>Power\<close>

text \<open>\<open>fds\<close> are the results of the attempts to connect, of which there are at most 21.\<close>

fun connect_retry :: "nat \<Rightarrow> (nat \<Rightarrow> int) \<Rightarrow> nat \<Rightarrow> int \<Rightarrow> int" where
  "connect_retry 0 fds k client_fd = client_fd"
| "connect_retry (Suc retry_count) fds k client_fd =
     (if client_fd < 0 then connect_retry retry_count fds (k + 1) (fds k) else client_fd)"

definition connect_wcnd :: "(nat \<Rightarrow> int) \<Rightarrow> int" where
  "connect_wcnd fds = connect_retry 20 fds 1 (fds 0)"

definition WCND_BT_CMD_STR_START_CP2 :: string where
  "WCND_BT_CMD_STR_START_CP2 = ''wcn BT-OPEN''"

definition WCND_BT_CMD_STR_STOP_CP2 :: string where
  "WCND_BT_CMD_STR_STOP_CP2 = ''wcn BT-CLOSE''"

definition WCND_RESP_STR_BT_OK :: string where
  "WCND_RESP_STR_BT_OK = ''BTWIFI-CMD OK''"

text \<open>The daemon: the attempts, the result of writing a command, the bytes of the answer (\<open>None\<close> if reading fails).
  The result and the bytes sent.  An answer of 128 bytes without a terminator is searched past its end: undefined.\<close>

record wcnd =
  wcnd_connect :: "nat \<Rightarrow> int"
  wcnd_write :: "string \<Rightarrow> int"
  wcnd_answer :: "string option"

definition cp2_command :: "string \<Rightarrow> wcnd \<Rightarrow> (int \<times> string option) option" where
  "cp2_command cmd w =
     (if connect_wcnd (wcnd_connect w) < 0 then Some (-1, None)
      else let msg = cmd @ [CHR 0x00]; ret = wcnd_write w msg
           in if ret \<le> 0 then Some (ret, Some msg)
              else let got = (case wcnd_answer w of None \<Rightarrow> [] | Some t \<Rightarrow> take 128 t);
                       ret = (case wcnd_answer w of None \<Rightarrow> -1 | Some _ \<Rightarrow> int (length got))
                   in if length got = 128 \<and> CHR 0x00 \<notin> set got then None
                      else if after_first WCND_RESP_STR_BT_OK (takeWhile (\<lambda>c. c \<noteq> CHR 0x00) got) = None
                           then Some (-1, Some msg) else Some (ret, Some msg))"

definition start_cp2 :: "wcnd \<Rightarrow> (int \<times> string option) option" where
  "start_cp2 w = cp2_command WCND_BT_CMD_STR_START_CP2 w"

definition stop_cp2 :: "wcnd \<Rightarrow> (int \<times> string option) option" where
  "stop_cp2 w = cp2_command WCND_BT_CMD_STR_STOP_CP2 w"

text \<open>\<open>types\<close> are the contents of the type files, up to the first that does not open.\<close>

fun rfkill_from :: "nat \<Rightarrow> string list \<Rightarrow> upio \<Rightarrow> int \<times> upio" where
  "rfkill_from k [] s = (-1, s)"
| "rfkill_from k (t # types) s =
     (if take 9 (take 16 t) = ''bluetooth'' then (0, s\<lparr>rfkill_id := int k\<rparr>) else rfkill_from (k + 1) types s)"

definition init_rfkill :: "string list \<Rightarrow> upio \<Rightarrow> int \<times> upio" where
  "init_rfkill types s = rfkill_from 0 types s"

definition UPIO_BT_POWER_OFF :: nat where "UPIO_BT_POWER_OFF = 0"
definition UPIO_BT_POWER_ON :: nat where "UPIO_BT_POWER_ON = 1"

text \<open>The part after the switch, common to both settings.\<close>

definition power_lpm :: "upio_io \<Rightarrow> nat \<Rightarrow> upio \<Rightarrow> upio option" where
  "power_lpm io on s =
     (if on = UPIO_BT_POWER_OFF then upio_set io UPIO_LPM_MODE UPIO_DEASSERT s
      else if on = UPIO_BT_POWER_ON then upio_set io UPIO_LPM_MODE UPIO_ASSERT s
      else Some s)"

definition upio_set_bluetooth_power :: "wcnd \<Rightarrow> upio_io \<Rightarrow> nat \<Rightarrow> upio \<Rightarrow> (int \<times> upio) option" where
  "upio_set_bluetooth_power w io on s =
     Option.bind (if on = UPIO_BT_POWER_OFF then map_option Some (stop_cp2 w)
                  else if on = UPIO_BT_POWER_ON then map_option Some (start_cp2 w) else Some None) (\<lambda>_.
     map_option (Pair 0) (power_lpm io on s))"

text \<open>With \<open>BT_RFKILL_CTRL\<close>: \<open>fd\<close> and \<open>sz\<close> are the results of opening and writing the state file.
  The character written comes with the result.\<close>

definition upio_set_bluetooth_power_rfkill ::
  "string list \<Rightarrow> int \<Rightarrow> int \<Rightarrow> upio_io \<Rightarrow> nat \<Rightarrow> upio \<Rightarrow> (int \<times> char option \<times> upio) option" where
  "upio_set_bluetooth_power_rfkill types fd sz io on s =
     (let c = (if on = UPIO_BT_POWER_ON then CHR ''1'' else CHR ''0'');
          (r, s) = (if rfkill_id s = -1 then init_rfkill types s else (0, s))
      in if r \<noteq> 0 then Some (-1, None, s)
         else if fd < 0 then Some (-1, None, s)
         else if sz < 0 then Some (sz, None, s)
         else map_option (\<lambda>s. (0, Some c, s)) (power_lpm io on s))"

section \<open>Debugging the port\<close>

text \<open>The debug timer: the pointer is null, or points to an identifier that is live (with the time it runs for), deleted, or was
  never filled in.  The pointer is not reset.\<close>

datatype debug_timer = No_timer | Live "nat option" | Deleted | Unset

text \<open>The results of opening the node, writing it, allocating, creating and setting.\<close>

record debug_io =
  dbg_open :: int
  dbg_write :: int
  dbg_malloc :: bool
  dbg_create :: int
  dbg_settime :: int

text \<open>What the node is left with, \<open>c\<close> being the character written.\<close>

definition uart_conf :: "debug_io \<Rightarrow> char \<Rightarrow> char option \<Rightarrow> char option" where
  "uart_conf io c old = (if dbg_open io < 0 \<or> dbg_write io < 0 then old else Some c)"

definition uipo_userial_debug_enable :: "debug_io \<Rightarrow> char option \<times> debug_timer \<Rightarrow> char option \<times> debug_timer" where
  "uipo_userial_debug_enable io = (\<lambda>(conf, d).
     if dbg_open io < 0 then (conf, d)
     else (uart_conf io CHR ''2'' conf,
           if d \<noteq> No_timer then d
           else if \<not> dbg_malloc io then d
           else if dbg_create io < 0 then Unset
           else Live (if dbg_settime io < 0 then None else Some 8000)))"

definition uipo_userial_debug_disable :: "debug_io \<Rightarrow> char option \<times> debug_timer \<Rightarrow> (char option \<times> debug_timer) option" where
  "uipo_userial_debug_disable io = (\<lambda>(conf, d).
     map_option (Pair (uart_conf io CHR ''3'' conf))
       (case d of No_timer \<Rightarrow> Some d | Live _ \<Rightarrow> Some Deleted | Deleted \<Rightarrow> None | Unset \<Rightarrow> None))"

definition uipo_userial_debug_timeout :: "debug_io \<Rightarrow> char option \<times> debug_timer \<Rightarrow> char option \<times> debug_timer" where
  "uipo_userial_debug_timeout io = (\<lambda>(conf, d). (uart_conf io CHR ''1'' conf, d))"

end
