(* ===== verification/BtVendor.thy ===== *)
theory BtVendor
  imports BtConf BtUpio
begin

text \<open>
  The vendor library as the Bluetooth stack sees it: the serial port (\<^verbatim>\<open>libs/libbt/src/userial_vendor.c\<close>), the helpers of
  \<^verbatim>\<open>src/hardware.c\<close>, the requests of \<^verbatim>\<open>src/bt_vendor_sprd.c\<close>, and the commands and event handlers of the
  chip in \<^verbatim>\<open>conf/sprd/marlin/src/marlin.c\<close>.  The stack is its callbacks: the calls the library
  makes are recorded in order, and an event is a call of the handler that was given with a command.  \<open>None\<close> is
  undefined behaviour: a null callback table, an event shorter than what is read of it, or what upio.c leaves undefined.
\<close>

section \<open>The serial port\<close>

text \<open>The port's control flags, with the constants of the kernel's \<^verbatim>\<open>termbits.h\<close>; the other flags are not kept.\<close>

definition CRTSCTS :: u32 where "CRTSCTS = 0x80000000"
definition CSIZE :: u32 where "CSIZE = 0x30"
definition CS8 :: u32 where "CS8 = 0x30"
definition CSTOPB :: u32 where "CSTOPB = 0x40"
definition PARENB :: u32 where "PARENB = 0x100"
definition CBAUD :: u32 where "CBAUD = 0x100F"

record userial =
  ufd :: int
  utermios :: u32
  uport :: string
  udevice :: u32

text \<open>The results of opening the port and of reading and setting its attributes.\<close>

record tty =
  tty_open :: int
  tty_get :: bool
  tty_set :: bool

definition tcgetattr :: "tty \<Rightarrow> userial \<Rightarrow> userial" where
  "tcgetattr t u = (if tty_get t then u\<lparr>utermios := udevice u\<rparr> else u)"

definition tcsetattr :: "tty \<Rightarrow> userial \<Rightarrow> userial" where
  "tcsetattr t u = (if tty_set t then u\<lparr>udevice := utermios u\<rparr> else u)"

definition cfmakeraw :: "u32 \<Rightarrow> u32" where
  "cfmakeraw f = (f AND NOT (CSIZE OR PARENB)) OR CS8"

definition cfsetspeed :: "u32 \<Rightarrow> u32 \<Rightarrow> u32" where
  "cfsetspeed speed f = (f AND NOT CBAUD) OR speed"

text \<open>Rate and the result.\<close>

definition userial_to_tcio_baud :: "nat \<Rightarrow> bool \<times> u32" where
  "userial_to_tcio_baud cfg_baud =
     (case map_of [(7, 0x1002), (15, 0x100F), (14, 0x100D), (13, 0x100B), (11, 0x1008), (10, 0x1007), (9, 0x1004),
                   (8, 0x1003), (6, 0x1001), (5, 0xE), (4, 0xD), (2, 0x9), (1, 0x8)] cfg_baud of
        Some b \<Rightarrow> (True, b) | None \<Rightarrow> (False, 0x1002))"

definition BLUETOOTH_UART_DEVICE_PORT :: string where
  "BLUETOOTH_UART_DEVICE_PORT = ''/dev/ttyS0''"

definition userial_vendor_init :: "userial \<Rightarrow> userial" where
  "userial_vendor_init u = u\<lparr>ufd := -1, uport := BLUETOOTH_UART_DEVICE_PORT\<rparr>"

text \<open>\<open>fmt\<close> has a bit for each number of data bits (6 to 9), parity (3 to 5) and stop bits (0 to 2).\<close>

definition userial_vendor_open :: "tty \<Rightarrow> u32 \<times> nat \<Rightarrow> userial \<Rightarrow> int \<times> userial" where
  "userial_vendor_open t = (\<lambda>(fmt, rate) u.
     let u = u\<lparr>ufd := -1\<rparr>; (ok, baud) = userial_to_tcio_baud rate
     in if \<not> ok then (-1, u)
        else if fmt AND 0x3C0 = 0 then (-1, u)
        else if fmt AND 0x38 = 0 then (-1, u)
        else if fmt AND 0x5 = 0 then (-1, u)
        else let stop_bits = (if fmt AND 0x1 \<noteq> 0 then 0 else CSTOPB);
                 u = u\<lparr>ufd := tty_open t\<rparr>
             in if ufd u = -1 then (-1, u)
                else let u = tcgetattr t u;
                         u = u\<lparr>utermios := cfmakeraw (utermios u)\<rparr>;
                         u = u\<lparr>utermios := utermios u OR (CRTSCTS OR stop_bits)\<rparr>;
                         u = tcsetattr t u;
                         u = tcsetattr t u;
                         u = u\<lparr>utermios := cfsetspeed baud (utermios u)\<rparr>;
                         u = u\<lparr>utermios := cfsetspeed baud (utermios u)\<rparr>;
                         u = tcsetattr t u
                     in (ufd u, u))"

definition userial_vendor_close :: "tty \<Rightarrow> userial \<Rightarrow> userial" where
  "userial_vendor_close t u =
     (if ufd u = -1 then u
      else let u = (if tty_get t \<and> tty_set t then u\<lparr>udevice := udevice u AND NOT CRTSCTS\<rparr> else u)
           in u\<lparr>ufd := -1\<rparr>)"

definition userial_vendor_set_baud :: "tty \<Rightarrow> nat \<Rightarrow> userial \<Rightarrow> userial" where
  "userial_vendor_set_baud t rate u =
     (let tcio_baud = snd (userial_to_tcio_baud rate);
          u = u\<lparr>utermios := cfsetspeed tcio_baud (utermios u)\<rparr>;
          u = u\<lparr>utermios := cfsetspeed tcio_baud (utermios u)\<rparr>
      in tcsetattr t u)"

definition userial_set_port :: "string \<Rightarrow> userial \<Rightarrow> userial" where
  "userial_set_port p_conf_value u = u\<lparr>uport := take 255 p_conf_value\<rparr>"

text \<open>Eight data bits, no parity, one stop bit, 3 Mbaud.\<close>

definition userial_init_cfg :: "u32 \<times> nat" where
  "userial_init_cfg = (0x200 OR 0x8 OR 0x1, 14)"

section \<open>The library's state\<close>

datatype vnd_cback = Pskey_cback | Core_cback | Epilog_cback

text \<open>The calls into the stack; the results are success or failure, the size of a buffer is what is asked for besides the
  stack's own header.\<close>

datatype vnd_call = Alloc nat | Dealloc | Xmit u32 "u8 list" vnd_cback | Fwcfg_cb bool | Epilog_cb bool | Lpm_cb bool | Scocfg_cb bool

record vendor =
  v_upio :: upio
  v_userial :: userial
  v_pskey :: pskey
  v_debug :: "char option \<times> debug_timer"
  v_cbacks :: bool
  v_bd_addr :: "u8 list"
  v_fw :: "string option"
  v_calls :: "vnd_call list"

text \<open>What one request or event finds outside: the kernel under upio.c and the port, the daemon, the node for debugging, whether
  the stack has a buffer.\<close>

record venv =
  e_io :: upio_io
  e_tty :: tty
  e_wcnd :: wcnd
  e_debug :: debug_io
  e_alloc :: bool

definition vcall :: "vnd_call \<Rightarrow> vendor \<Rightarrow> vendor" where
  "vcall c v = v\<lparr>v_calls := v_calls v @ [c]\<rparr>"

definition vupio :: "venv \<Rightarrow> nat \<Rightarrow> nat \<Rightarrow> vendor \<Rightarrow> vendor option" where
  "vupio e pio action v = map_option (\<lambda>s. v\<lparr>v_upio := s\<rparr>) (upio_set (e_io e) pio action (v_upio v))"

definition HCI_CMD_PREAMBLE_SIZE :: nat where "HCI_CMD_PREAMBLE_SIZE = 3"

section \<open>The chip\<close>

definition HCI_VSC_ENABLE_COMMMAND :: u32 where "HCI_VSC_ENABLE_COMMMAND = 0xFCA1"
definition START_STOP_CMD_SIZE :: nat where "START_STOP_CMD_SIZE = 3"

definition hw_core_enable :: "venv \<Rightarrow> bool \<Rightarrow> vendor \<Rightarrow> vendor" where
  "hw_core_enable e enable v =
     (if v_cbacks v
      then let v = vcall (Alloc (HCI_CMD_PREAMBLE_SIZE + START_STOP_CMD_SIZE)) v
           in if e_alloc e
              then vcall (Xmit HCI_VSC_ENABLE_COMMMAND
                     (TO_STREAM 2 HCI_VSC_ENABLE_COMMMAND @ [of_nat START_STOP_CMD_SIZE] @ TO_STREAM 2 0 @
                      [if enable then 1 else 0]) Core_cback) v
              else v
      else v)"

definition STREAM_TO_UINT16 :: "u8 list \<Rightarrow> nat \<Rightarrow> nat option" where
  "STREAM_TO_UINT16 data i = (if i + 1 < length data then Some (unat (data ! i) + 256 * unat (data ! (i + 1))) else None)"

definition STREAM_TO_UINT8 :: "u8 list \<Rightarrow> nat \<Rightarrow> nat option" where
  "STREAM_TO_UINT8 data i = (if i < length data then Some (unat (data ! i)) else None)"

definition hw_core_cback :: "u8 list \<Rightarrow> vendor \<Rightarrow> vendor option" where
  "hw_core_cback data v =
     Option.bind (STREAM_TO_UINT16 data 3) (\<lambda>opcode.
     Option.bind (STREAM_TO_UINT16 data 5) (\<lambda>mode.
     Option.bind (STREAM_TO_UINT8 data 7) (\<lambda>status.
     let v = (if v_cbacks v then vcall Dealloc v else v)
     in if \<not> v_cbacks v then None
        else if status \<noteq> 0 then Some (vcall (Fwcfg_cb True) v) else Some (vcall (Epilog_cb True) v))))"

definition marlin_epilog_process :: "venv \<Rightarrow> vendor \<Rightarrow> vendor" where
  "marlin_epilog_process e v = hw_core_enable e False v"

definition fmt_04x :: "nat \<Rightarrow> string" where
  "fmt_04x n = fmt_02x (of_nat (n div 256)) @ fmt_02x (of_nat (n mod 256))"

definition marlin_pskey_cback :: "venv \<Rightarrow> u8 list \<Rightarrow> vendor \<Rightarrow> vendor option" where
  "marlin_pskey_cback e data v =
     Option.bind (STREAM_TO_UINT8 data 5) (\<lambda>status.
     Option.bind (STREAM_TO_UINT16 data 3) (\<lambda>opcode.
     Option.bind (STREAM_TO_UINT16 data 6) (\<lambda>node.
     Option.bind (STREAM_TO_UINT16 data 10) (\<lambda>year.
     Option.bind (STREAM_TO_UINT8 data 9) (\<lambda>month.
     Option.bind (STREAM_TO_UINT8 data 8) (\<lambda>day.
     let text = fmt_04x node @ ''.'' @ fmt_04x year @ ''.'' @ fmt_02x (of_nat month) @ ''.'' @ fmt_02x (of_nat day);
         v = v\<lparr>v_fw := Some (take 15 text)\<rparr>
     in Option.bind (vupio e UPIO_BT_WAKE UPIO_DEASSERT v) (\<lambda>v.
        let v = (if v_cbacks v then vcall Dealloc v else v);
            v = hw_core_enable e True v
        in map_option (\<lambda>d. v\<lparr>v_debug := d\<rparr>) (uipo_userial_debug_disable (e_debug e) (v_debug v)))))))))"

text \<open>\<open>get_pskey_size\<close> gives only the length in the buffer's header; the bytes are those of the stream.\<close>

definition marlin_pskey_preload :: "venv \<Rightarrow> vendor \<Rightarrow> (int \<times> vendor) option" where
  "marlin_pskey_preload e v =
     (let v = (if v_cbacks v then vcall (Alloc (HCI_CMD_PREAMBLE_SIZE + PSKEY_PREAMBLE_SIZE)) v else v)
      in if v_cbacks v \<and> e_alloc e
         then map_option (\<lambda>v. let v = vcall (Xmit HCI_PSKEY (marlin_stream (v_pskey v)) Pskey_cback) v
                              in (0, v\<lparr>v_debug := uipo_userial_debug_enable (e_debug e) (v_debug v)\<rparr>))
                (vupio e UPIO_BT_WAKE UPIO_ASSERT v)
         else if v_cbacks v then Some (-1, v)
         else Some (0, v\<lparr>v_debug := uipo_userial_debug_enable (e_debug e) (v_debug v)\<rparr>))"

section \<open>Helpers\<close>

definition hw_lpm_enable :: "vendor \<Rightarrow> (int \<times> vendor) option" where
  "hw_lpm_enable v = (if v_cbacks v then Some (0, vcall (Lpm_cb True) v) else None)"

definition hw_lpm_get_idle_timeout :: u32 where
  "hw_lpm_get_idle_timeout = (let timeout_ms = (1 :: u32) * 5 in timeout_ms * 300)"

definition hw_lpm_set_wake_state :: "venv \<Rightarrow> bool \<Rightarrow> vendor \<Rightarrow> vendor option" where
  "hw_lpm_set_wake_state e wake_assert v =
     vupio e UPIO_BT_WAKE (if wake_assert then UPIO_ASSERT else UPIO_DEASSERT) v"

definition HCI_RESET :: u32 where "HCI_RESET = 0x0C03"

definition hw_epilog_cback :: "u8 list \<Rightarrow> vendor \<Rightarrow> vendor option" where
  "hw_epilog_cback data v =
     Option.bind (STREAM_TO_UINT8 data 5) (\<lambda>status.
     Option.bind (STREAM_TO_UINT16 data 3) (\<lambda>opcode.
     Some (if v_cbacks v then vcall (Epilog_cb True) (vcall Dealloc v) else v)))"

text \<open>\<open>own\<close>: whether the chip's module has an epilog process of its own, as marlin has.\<close>

definition hw_epilog_process :: "bool \<Rightarrow> venv \<Rightarrow> vendor \<Rightarrow> vendor" where
  "hw_epilog_process own e v =
     (if own then marlin_epilog_process e v
      else if v_cbacks v
      then let v = vcall (Alloc (HCI_CMD_PREAMBLE_SIZE)) v
           in if e_alloc e then vcall (Xmit HCI_RESET (TO_STREAM 2 HCI_RESET @ [0]) Epilog_cback) v
              else vcall (Epilog_cb False) v
      else v)"

definition hw_preload_pskey :: "venv \<Rightarrow> vendor \<Rightarrow> (int \<times> vendor) option" where
  "hw_preload_pskey e v = marlin_pskey_preload e v"

section \<open>Requests\<close>

definition marlin_get_conf_file :: "string \<Rightarrow> string" where
  "marlin_get_conf_file version =
     (if version = ''BA'' then ''/system/etc/marlinba/connectivity_configure.ini'' else ''/system/etc/connectivity_configure.ini'')"

text \<open>\<open>files\<close> gives the text of a file by its name; \<open>beyond\<close> is what lies behind the table.\<close>

definition vnd_init :: "bool \<Rightarrow> u8 list \<Rightarrow> string \<Rightarrow> (string \<Rightarrow> string option) \<Rightarrow> conf_env \<Rightarrow> conf_entry list \<Rightarrow> vendor \<Rightarrow> (int \<times> vendor) option" where
  "vnd_init p_cb local_bdaddr version files env beyond v =
     (if \<not> p_cb then Some (-1, v)
      else let v = v\<lparr>v_userial := userial_vendor_init (v_userial v), v_upio := upio_init (v_upio v)\<rparr>
           in map_option (\<lambda>mem. (0, v\<lparr>v_pskey := mem, v_cbacks := True, v_bd_addr := local_bdaddr\<rparr>))
                (vnd_load_conf env marlin_pskey (marlin_table @ beyond) (files (marlin_get_conf_file version)) (v_pskey v)))"

datatype vnd_request = POWER_CTRL bool | FW_CFG | SCO_CFG | USERIAL_OPEN | USERIAL_CLOSE | GET_LPM_IDLE_TIMEOUT
  | LPM_SET_MODE u8 | LPM_WAKE_SET_STATE bool | SET_AUDIO_STATE | EPILOG

text \<open>What the request stores for the caller: nothing, the descriptor in every channel, the time.\<close>

datatype vnd_out = Nothing | Channels int | Timeout u32

definition CH_MAX_retval :: int where "CH_MAX_retval = 1"

definition vnd_op :: "venv \<Rightarrow> vnd_request \<Rightarrow> vendor \<Rightarrow> (int \<times> vnd_out \<times> vendor) option" where
  "vnd_op e request v =
     (case request of
        POWER_CTRL on \<Rightarrow>
          map_option (\<lambda>(_, s). (0, Nothing, v\<lparr>v_upio := s\<rparr>))
            (upio_set_bluetooth_power (e_wcnd e) (e_io e) (if on then UPIO_BT_POWER_ON else UPIO_BT_POWER_OFF) (v_upio v))
      | FW_CFG \<Rightarrow> map_option (\<lambda>(_, v). (0, Nothing, v)) (hw_preload_pskey e v)
      | SCO_CFG \<Rightarrow> if v_cbacks v then Some (0, Nothing, vcall (Scocfg_cb True) v) else None
      | USERIAL_OPEN \<Rightarrow>
          let (fd, u) = userial_vendor_open (e_tty e) userial_init_cfg (v_userial v); v = v\<lparr>v_userial := u\<rparr>
          in Some (if fd \<noteq> -1 then (CH_MAX_retval, Channels fd, v) else (0, Nothing, v))
      | USERIAL_CLOSE \<Rightarrow>
          map_option (\<lambda>v. (0, Nothing, v))
            (vupio e UPIO_BT_WAKE UPIO_DEASSERT (v\<lparr>v_userial := userial_vendor_close (e_tty e) (v_userial v)\<rparr>))
      | GET_LPM_IDLE_TIMEOUT \<Rightarrow> Some (0, Timeout hw_lpm_get_idle_timeout, v)
      | LPM_SET_MODE mode \<Rightarrow> map_option (\<lambda>(r, v). (r, Nothing, v)) (hw_lpm_enable v)
      | LPM_WAKE_SET_STATE wake_assert \<Rightarrow> map_option (\<lambda>v. (0, Nothing, v)) (hw_lpm_set_wake_state e wake_assert v)
      | SET_AUDIO_STATE \<Rightarrow> Some (-1, Nothing, v)
      | EPILOG \<Rightarrow> Some (0, Nothing, hw_epilog_process True e v))"

definition vnd_cleanup :: "vendor \<Rightarrow> vendor" where
  "vnd_cleanup v = v\<lparr>v_upio := upio_cleanup (v_upio v), v_cbacks := False\<rparr>"

text \<open>The handler of \<open>SIGINT\<close>, up to the signal that ends the process.\<close>

definition vnd_terminate :: "venv \<Rightarrow> vendor \<Rightarrow> vendor option" where
  "vnd_terminate e v = vupio e UPIO_BT_WAKE UPIO_DEASSERT (v\<lparr>v_userial := userial_vendor_close (e_tty e) (v_userial v)\<rparr>)"

text \<open>Exported to other programs: the switch (\<open>pwr_on\<close> is the stack's constant), the low power mode, the port.\<close>

definition sprd_bt_power_ctrl :: "nat \<Rightarrow> venv \<Rightarrow> nat \<Rightarrow> vendor \<Rightarrow> vendor option" where
  "sprd_bt_power_ctrl pwr_on e on v =
     (if on = pwr_on
      then map_option (\<lambda>(_, s). v\<lparr>v_upio := s\<rparr>) (upio_set_bluetooth_power (e_wcnd e) (e_io e) UPIO_BT_POWER_OFF (v_upio v))
      else if on = UPIO_BT_POWER_OFF
      then map_option (\<lambda>(_, s). v\<lparr>v_upio := s\<rparr>) (upio_set_bluetooth_power (e_wcnd e) (e_io e) UPIO_BT_POWER_ON (v_upio v))
      else Some v)"

definition sprd_bt_lpm_wake_up :: "venv \<Rightarrow> vendor \<Rightarrow> vendor option" where
  "sprd_bt_lpm_wake_up e v = vupio e UPIO_LPM_MODE UPIO_ASSERT v"

definition sprd_bt_bqb_init :: "venv \<Rightarrow> vendor \<Rightarrow> int \<times> vendor" where
  "sprd_bt_bqb_init e v =
     (let (fd, u) = userial_vendor_open (e_tty e) userial_init_cfg (v_userial v) in (fd, v\<lparr>v_userial := u\<rparr>))"

text \<open>An event for the handler of a command.\<close>

definition vnd_event :: "venv \<Rightarrow> vnd_cback \<Rightarrow> u8 list \<Rightarrow> vendor \<Rightarrow> vendor option" where
  "vnd_event e cb data v =
     (case cb of Pskey_cback \<Rightarrow> marlin_pskey_cback e data v
      | Core_cback \<Rightarrow> hw_core_cback data v
      | Epilog_cback \<Rightarrow> hw_epilog_cback data v)"

end
