(* ===== verification/BtUpioProps.thy ===== *)
theory BtUpioProps
  imports BtUpio
begin

text \<open>
  The wake signal as a state machine: the steps are the operations of upio.c, with any answers of the
  kernel or with good ones.  No operation is undefined as long as timers can be created; in a run where the
  writes and timers succeed and the mode changes only while the signal is down, an asserted node
  always has the timer running that takes it back.
\<close>

section \<open>The machine\<close>

text \<open>How the low power mode and the start are used: freely, or only while the wake signal is not asserted.\<close>

definition quiet :: "upio \<Rightarrow> bool" where
  "quiet s \<longleftrightarrow> upio_state s ! UPIO_BT_WAKE \<noteq> UPIO_ASSERT"

definition io_timer :: "upio_io \<Rightarrow> bool" where
  "io_timer io \<longleftrightarrow> io_create io = 0"

definition io_good :: "upio_io \<Rightarrow> bool" where
  "io_good io \<longleftrightarrow> io_create io = 0 \<and> 0 \<le> io_write io \<and> io_settime io = 0"

definition signal_action :: "nat \<Rightarrow> bool" where
  "signal_action a \<longleftrightarrow> a \<in> {UPIO_DEASSERT, UPIO_ASSERT}"

text \<open>The program's variables before the first start.\<close>

definition upio_start :: "upio \<Rightarrow> bool" where
  "upio_start s \<longleftrightarrow> fd_btwrite s = -1 \<and> \<not> timer_created s \<and> timer s = None \<and> node s \<noteq> Some BT_WAKE_PROC_ASSERT"

inductive upio_step :: "(upio_io \<Rightarrow> bool) \<Rightarrow> (upio \<Rightarrow> bool) \<Rightarrow> upio \<Rightarrow> upio \<Rightarrow> bool"
  for ok :: "upio_io \<Rightarrow> bool" and still :: "upio \<Rightarrow> bool"
where
  wake: "upio_step ok still s s'"
    if "ok io" "signal_action a" "upio_set io UPIO_BT_WAKE a s = Some s'"
| host: "upio_step ok still s s'"
    if "ok io" "signal_action a" "upio_set io UPIO_HOST_WAKE a s = Some s'"
| mode: "upio_step ok still s s'"
    if "ok io" "still s" "signal_action a" "upio_set io UPIO_LPM_MODE a s = Some s'"
| power: "upio_step ok still s s'"
    if "ok io" "still s" "upio_set_bluetooth_power w io on s = Some (r, s')"
| expire: "upio_step ok still s s'"
    if "ok io" "timer s \<noteq> None" "proc_btwrite_timeout io (s\<lparr>timer := None\<rparr>) = Some s'"
| restart: "upio_step ok still s (upio_init (upio_cleanup s))"
    if "still s"

inductive upio_run :: "(upio_io \<Rightarrow> bool) \<Rightarrow> (upio \<Rightarrow> bool) \<Rightarrow> upio \<Rightarrow> bool"
  for ok :: "upio_io \<Rightarrow> bool" and still :: "upio \<Rightarrow> bool"
where
  start: "upio_run ok still (upio_init s)" if "upio_start s"
| step: "upio_run ok still s'" if "upio_run ok still s" "upio_step ok still s s'"

inductive_cases upio_stepE: "upio_step ok still s s'"

lemmas upio_defs = UPIO_BT_WAKE_def UPIO_HOST_WAKE_def UPIO_LPM_MODE_def UPIO_MAX_COUNT_def
  UPIO_UNKNOWN_def UPIO_DEASSERT_def UPIO_ASSERT_def

section \<open>Well-formed states\<close>

text \<open>The signals have one of the three values, the host signal none; a node that is open, and a wake signal written to
  it, belong to a timer that exists.\<close>

definition signals_ok :: "nat list \<Rightarrow> bool" where
  "signals_ok xs \<longleftrightarrow> length xs = UPIO_MAX_COUNT \<and> set xs \<subseteq> {UPIO_UNKNOWN, UPIO_DEASSERT, UPIO_ASSERT} \<and>
     xs ! UPIO_HOST_WAKE = UPIO_UNKNOWN"

definition upio_wf :: "upio \<Rightarrow> bool" where
  "upio_wf s \<longleftrightarrow> signals_ok (upio_state s) \<and>
     (fd_btwrite s \<ge> 0 \<longrightarrow> timer_created s) \<and> (btwrite_active s \<longrightarrow> timer_created s) \<and>
     (timer s \<noteq> None \<longrightarrow> timer_created s)"

lemma signals_ok_update:
  assumes "signals_ok xs" "signal_action a" "i \<noteq> UPIO_HOST_WAKE"
  shows "signals_ok (xs[i := a])"
proof -
  have "set (xs[i := a]) \<subseteq> insert a (set xs)" by (rule set_update_subset_insert)
  with assms show ?thesis by (auto simp: signals_ok_def signal_action_def)
qed

lemma not_host [simp]: "UPIO_BT_WAKE \<noteq> UPIO_HOST_WAKE" "UPIO_LPM_MODE \<noteq> UPIO_HOST_WAKE" "UPIO_BT_WAKE \<noteq> UPIO_LPM_MODE"
    "UPIO_LPM_MODE \<noteq> UPIO_BT_WAKE" "UPIO_ASSERT \<noteq> UPIO_DEASSERT" "UPIO_DEASSERT \<noteq> UPIO_ASSERT" "UPIO_UNKNOWN \<noteq> UPIO_ASSERT"
  by (simp_all add: upio_defs)

lemma signals_ok_init: "signals_ok (replicate UPIO_MAX_COUNT UPIO_UNKNOWN)"
  by (simp add: signals_ok_def upio_defs)

lemma upio_wf_init: "upio_start s \<Longrightarrow> upio_wf (upio_init s)"
  by (simp add: upio_wf_def upio_init_def upio_start_def signals_ok_init)

lemma upio_wf_restart: "upio_wf s \<Longrightarrow> upio_wf (upio_init (upio_cleanup s))"
  by (auto simp: upio_wf_def upio_init_def upio_cleanup_def signals_ok_init Let_def)

lemma timer_step:
  "upio_wf s \<Longrightarrow> timer_created s \<Longrightarrow> \<exists>s'. upio_start_stop_timer io a s = Some s' \<and> upio_wf s'"
  by (auto simp: upio_start_stop_timer_def upio_wf_def Let_def)

lemma upio_wf_lpm:
  assumes "upio_wf s" "signal_action a" "io_create io = 0"
  shows "upio_wf (set_lpm_mode io a s)"
  using assms signals_ok_update [of "upio_state s" a UPIO_LPM_MODE]
  by (auto simp: upio_wf_def set_lpm_mode_def signal_action_def Let_def)

lemma upio_wf_wake:
  assumes "upio_wf s" "signal_action a"
  shows "\<exists>s'. set_bt_wake io a s = Some s' \<and> upio_wf s'"
proof -
  let ?s = "s\<lparr>upio_state := (upio_state s)[UPIO_BT_WAKE := a]\<rparr>"
  have wf: "upio_wf ?s"
    using assms signals_ok_update [of "upio_state s" a UPIO_BT_WAKE] by (simp add: upio_wf_def)
  have wf': "upio_wf (?s\<lparr>node := c\<rparr>)" for c using wf by (simp add: upio_wf_def)
  show ?thesis
  proof (cases "upio_state s ! UPIO_BT_WAKE = a \<and> btwrite_active s")
    case True
    then have "timer_created s" using assms(1) by (simp add: upio_wf_def)
    with True timer_step [OF assms(1)] show ?thesis by (simp add: set_bt_wake_def)
  next
    case False
    show ?thesis
    proof (cases "fd_btwrite s < 0 \<or> io_write io < 0")
      case True
      with False wf show ?thesis by (auto simp: set_bt_wake_def Let_def)
    next
      case F: False
      then have "timer_created s" using assms(1) by (simp add: upio_wf_def)
      with timer_step [OF wf'] have "\<exists>s'. upio_start_stop_timer io a (?s\<lparr>node := c\<rparr>) = Some s' \<and> upio_wf s'" for c by simp
      with False F show ?thesis by (auto simp: set_bt_wake_def Let_def)
    qed
  qed
qed

lemma upio_wf_set:
  assumes "upio_wf s" "signal_action a" "io_create io = 0"
  shows "\<exists>s'. upio_set io pio a s = Some s' \<and> upio_wf s'"
  using upio_wf_wake [OF assms(1,2), of io] upio_wf_lpm [OF assms] assms(1) by (simp add: upio_set_def)

lemma upio_wf_timeout:
  assumes "upio_wf s" "io_create io = 0"
  shows "\<exists>s'. proc_btwrite_timeout io (s\<lparr>timer := None\<rparr>) = Some s' \<and> upio_wf s'"
proof -
  have "upio_wf (s\<lparr>timer := None, btwrite_active := False\<rparr>)" using assms(1) by (simp add: upio_wf_def)
  from upio_wf_set [OF this _ assms(2), of UPIO_DEASSERT] show ?thesis
    by (simp add: proc_btwrite_timeout_def signal_action_def)
qed

lemma upio_wf_power_lpm:
  assumes "upio_wf s" "io_create io = 0"
  shows "\<exists>s'. power_lpm io on s = Some s' \<and> upio_wf s'"
  using upio_wf_set [OF assms(1) _ assms(2), of UPIO_DEASSERT UPIO_LPM_MODE]
    upio_wf_set [OF assms(1) _ assms(2), of UPIO_ASSERT UPIO_LPM_MODE] assms(1)
  by (simp add: power_lpm_def signal_action_def)

lemma upio_wf_step:
  assumes "upio_step ok still s s'" "upio_wf s" "\<And>io. ok io \<Longrightarrow> io_create io = 0"
  shows "upio_wf s'"
  using assms(1)
proof (cases rule: upio_step.cases)
  case (wake io a)
  then show ?thesis using upio_wf_set [OF assms(2) wake(2) assms(3) [OF wake(1)], of UPIO_BT_WAKE] by simp
next
  case (host io a)
  then show ?thesis using upio_wf_set [OF assms(2) host(2) assms(3) [OF host(1)], of UPIO_HOST_WAKE] by simp
next
  case (mode io a)
  then show ?thesis using upio_wf_set [OF assms(2) mode(3) assms(3) [OF mode(1)], of UPIO_LPM_MODE] by simp
next
  case (power io w on r)
  then show ?thesis using upio_wf_power_lpm [OF assms(2) assms(3) [OF power(1)], of on]
    by (auto simp: upio_set_bluetooth_power_def bind_eq_Some_conv)
next
  case (expire io)
  then show ?thesis using upio_wf_timeout [OF assms(2) assms(3) [OF expire(1)]] by simp
next
  case restart
  then show ?thesis using upio_wf_restart [OF assms(2)] by simp
qed

lemma upio_wf_run:
  assumes "\<And>io. ok io \<Longrightarrow> io_create io = 0"
  shows "upio_run ok still s \<Longrightarrow> upio_wf s"
proof (induction rule: upio_run.induct)
  case (start s)
  then show ?case by (rule upio_wf_init)
next
  case (step s s')
  then show ?case using upio_wf_step assms by blast
qed



section \<open>The timer watches the signal\<close>

definition watched :: "upio \<Rightarrow> bool" where
  "watched s \<longleftrightarrow> (node s = Some BT_WAKE_PROC_ASSERT \<longrightarrow>
     upio_state s ! UPIO_BT_WAKE = UPIO_ASSERT \<and> timer s = Some PROC_BTWRITE_TIMER_TIMEOUT_MS \<and> fd_btwrite s \<ge> 0 \<and>
     btwrite_active s)"

lemma proc_chars [simp]: "BT_WAKE_PROC_DEASSERT \<noteq> BT_WAKE_PROC_ASSERT"
  by (simp add: BT_WAKE_PROC_DEASSERT_def BT_WAKE_PROC_ASSERT_def)

lemma nth_wake [simp]: "signals_ok xs \<Longrightarrow> xs[UPIO_BT_WAKE := a] ! UPIO_BT_WAKE = a"
  by (simp add: signals_ok_def upio_defs)

lemma watched_wake:
  assumes "upio_wf s" "watched s" "signal_action a" "io_good io" "set_bt_wake io a s = Some s'"
  shows "watched s'"
proof -
  have sig: "signals_ok (upio_state s)" using assms(1) by (simp add: upio_wf_def)
  from assms(3) consider "a = UPIO_ASSERT" | "a = UPIO_DEASSERT" by (auto simp: signal_action_def)
  then show ?thesis
  proof cases
    case 1
    show ?thesis using assms(2,4,5) sig
      by (auto simp: 1 set_bt_wake_def upio_start_stop_timer_def watched_def io_good_def Let_def split: if_splits)
  next
    case 2
    show ?thesis using assms(2,4,5) sig
      by (auto simp: 2 set_bt_wake_def upio_start_stop_timer_def watched_def io_good_def Let_def split: if_splits)
  qed
qed

lemma watched_quiet: "watched s \<Longrightarrow> quiet s \<Longrightarrow> node s \<noteq> Some BT_WAKE_PROC_ASSERT"
  by (auto simp: watched_def quiet_def)

lemma node_lpm: "node (set_lpm_mode io a s) = node s"
  by (simp add: set_lpm_mode_def Let_def)

lemma node_power: "power_lpm io on s = Some s' \<Longrightarrow> node s' = node s"
  by (auto simp: power_lpm_def upio_set_def node_lpm split: if_splits)

lemma timeout_node:
  assumes "upio_wf s" "watched s" "io_good io" "proc_btwrite_timeout io (s\<lparr>timer := None\<rparr>) = Some s'"
  shows "node s' \<noteq> Some BT_WAKE_PROC_ASSERT"
  using assms
  by (auto simp: proc_btwrite_timeout_def upio_set_def set_bt_wake_def upio_start_stop_timer_def watched_def io_good_def
      Let_def split: if_splits)

lemma watched_step:
  assumes "upio_step io_good quiet s s'" "upio_wf s" "watched s"
  shows "watched s'"
  using assms(1)
proof (cases rule: upio_step.cases)
  case (wake io a)
  then show ?thesis using watched_wake assms(2,3) by (simp add: upio_set_def)
next
  case (host io a)
  then show ?thesis using assms(3) by (simp add: upio_set_def) (simp add: upio_defs)
next
  case (mode io a)
  then show ?thesis using watched_quiet [OF assms(3)] by (auto simp: upio_set_def watched_def node_lpm)
next
  case (power io w on r)
  then show ?thesis using watched_quiet [OF assms(3)]
    by (auto simp: upio_set_bluetooth_power_def bind_eq_Some_conv watched_def dest: node_power)
next
  case (expire io)
  then show ?thesis using timeout_node [OF assms(2,3)] by (auto simp: watched_def)
next
  case restart
  then show ?thesis using watched_quiet [OF assms(3)]
    by (auto simp: watched_def upio_init_def upio_cleanup_def Let_def split: if_splits)
qed

lemma watched_run: "upio_run io_good quiet s \<Longrightarrow> upio_wf s \<and> watched s"
proof (induction rule: upio_run.induct)
  case (start s)
  then show ?case using upio_wf_init [of s] by (simp add: watched_def) (simp add: upio_init_def upio_start_def)
next
  case (step s s')
  moreover have "upio_wf s'"
    by (rule upio_wf_step [OF step.hyps(2)]) (use step.IH in \<open>auto simp: io_good_def\<close>)
  ultimately show ?case using watched_step by blast
qed

text \<open>C22: In a run where the kernel's answers are good and the low power mode, the power and the library's start are touched only while the wake
  signal is not asserted, an asserted node always has the eight-second timer running; and when it expires, the
  node is taken back and no timer is left.\<close>

theorem wake_is_watched:
  assumes "upio_run io_good quiet s" "node s = Some BT_WAKE_PROC_ASSERT" "io_good io"
  shows "timer s = Some PROC_BTWRITE_TIMER_TIMEOUT_MS \<and>
    (\<exists>s'. proc_btwrite_timeout io (s\<lparr>timer := None\<rparr>) = Some s' \<and> node s' = Some BT_WAKE_PROC_DEASSERT \<and>
       timer s' = None \<and> upio_state s' ! UPIO_BT_WAKE = UPIO_DEASSERT)"
  using watched_run [OF assms(1)] assms(2,3)
  by (auto simp: watched_def upio_wf_def proc_btwrite_timeout_def upio_set_def set_bt_wake_def upio_start_stop_timer_def
      io_good_def Let_def)

text \<open>The node asserted: the mode switched on, then the signal raised.\<close>

definition awake :: upio where
  "awake = \<lparr>upio_state = [UPIO_ASSERT, UPIO_UNKNOWN, UPIO_ASSERT], btwrite_active = True, timer_created = True, fd_btwrite = 5,
     node = Some BT_WAKE_PROC_ASSERT, timer = Some PROC_BTWRITE_TIMER_TIMEOUT_MS, rfkill_id = -1\<rparr>"

definition good_answers :: upio_io where
  "good_answers = \<lparr>io_open = 5, io_create = 0, io_write = 1, io_settime = 0\<rparr>"

lemma good_answers: "io_good good_answers"
  by (simp add: io_good_def good_answers_def)

lemma awake_run: "upio_run io_good quiet awake"
proof -
  define s0 where "s0 = upio_init \<lparr>upio_state = [0, 0, 0], btwrite_active = False, timer_created = False, fd_btwrite = -1,
       node = None, timer = None, rfkill_id = -1\<rparr>"
  define s1 where "s1 = set_lpm_mode good_answers UPIO_ASSERT s0"
  have s0: "upio_run io_good quiet s0" unfolding s0_def by (rule upio_run.start) (simp add: upio_start_def)
  have "upio_step io_good quiet s0 s1"
    by (rule upio_step.mode [of _ good_answers _ _ UPIO_ASSERT])
      (simp_all add: good_answers s0_def s1_def upio_set_def signal_action_def quiet_def upio_init_def upio_defs)
  from upio_run.step [OF s0 this] have s1: "upio_run io_good quiet s1" .
  have "upio_step io_good quiet s1 awake"
    by (rule upio_step.wake [of _ good_answers UPIO_ASSERT])
      (simp_all add: good_answers s0_def s1_def upio_set_def signal_action_def quiet_def upio_init_def upio_defs set_lpm_mode_def set_bt_wake_def
        good_answers_def io_good_def numeral_3_eq_3 upio_start_stop_timer_def awake_def)
  from upio_run.step [OF s1 this] show ?thesis .
qed

lemma wake_is_watched_witness:
  "timer awake = Some PROC_BTWRITE_TIMER_TIMEOUT_MS \<and>
    (\<exists>s'. proc_btwrite_timeout good_answers (awake\<lparr>timer := None\<rparr>) = Some s' \<and> node s' = Some BT_WAKE_PROC_DEASSERT \<and>
       timer s' = None \<and> upio_state s' ! UPIO_BT_WAKE = UPIO_DEASSERT)"
  by (rule wake_is_watched [OF awake_run _ good_answers]) (simp add: awake_def)

text \<open>A wake signal that could not be taken back is lost: when the write of the de-assertion fails, the next request to
  de-assert stops the timer and writes nothing, and so does every later one, although writing would succeed again; the
  node stays asserted with no timer.\<close>

theorem failed_deassert_is_lost:
  assumes "upio_run io_good quiet s" "node s = Some BT_WAKE_PROC_ASSERT" "io_write io1 < 0" "io_settime io2 = 0"
  shows "\<exists>s1 s2. upio_set io1 UPIO_BT_WAKE UPIO_DEASSERT s = Some s1 \<and> upio_set io2 UPIO_BT_WAKE UPIO_DEASSERT s1 = Some s2 \<and>
    node s2 = Some BT_WAKE_PROC_ASSERT \<and> timer s2 = None \<and>
    (\<forall>io3. upio_set io3 UPIO_BT_WAKE UPIO_DEASSERT s2 = Some s2)"
proof -
  have s: "signals_ok (upio_state s)" "timer_created s" "btwrite_active s" "fd_btwrite s \<ge> 0"
    "upio_state s ! UPIO_BT_WAKE = UPIO_ASSERT"
    using watched_run [OF assms(1)] assms(2) by (auto simp: watched_def upio_wf_def)
  then show ?thesis using assms(2-4)
    by (simp add: upio_set_def set_bt_wake_def upio_start_stop_timer_def Let_def)
qed

lemma failed_deassert_is_lost_witness:
  "\<exists>s1 s2. upio_set (good_answers\<lparr>io_write := -1\<rparr>) UPIO_BT_WAKE UPIO_DEASSERT awake = Some s1 \<and>
    upio_set good_answers UPIO_BT_WAKE UPIO_DEASSERT s1 = Some s2 \<and>
    node s2 = Some BT_WAKE_PROC_ASSERT \<and> timer s2 = None \<and>
    (\<forall>io3. upio_set io3 UPIO_BT_WAKE UPIO_DEASSERT s2 = Some s2)"
  by (rule failed_deassert_is_lost [OF awake_run]) (simp_all add: awake_def good_answers_def)

end
