(* ===== verification/BtVendorProps.thy ===== *)
theory BtVendorProps
  imports BtVendor BtUpioProps
begin

text \<open>
  The vendor library in use: the exchange that configures and starts the chip, from the stack's request to its callback,
  what happens when the stack has no buffer, and why the exchange runs only once in a process.
\<close>

section \<open>Steps\<close>

lemma vupio_wake:
  assumes "upio_wf (v_upio v)" "signal_action a"
  shows "\<exists>s. vupio e UPIO_BT_WAKE a v = Some (v\<lparr>v_upio := s\<rparr>) \<and> upio_wf s \<and> upio_state s ! UPIO_BT_WAKE = a"
proof -
  obtain s where s: "set_bt_wake (e_io e) a (v_upio v) = Some s" "upio_wf s"
    using upio_wf_wake [OF assms] by blast
  have "signals_ok (upio_state (v_upio v))" using assms(1) by (simp add: upio_wf_def)
  then have "upio_state s ! UPIO_BT_WAKE = a"
    using s(1) by (auto simp: set_bt_wake_def upio_start_stop_timer_def Let_def split: if_splits)
  with s show ?thesis by (intro exI [of _ s]) (simp add: vupio_def upio_set_def)
qed

lemma stream_field:
  "i + 1 < length data \<Longrightarrow> STREAM_TO_UINT16 data i = Some (unat (data ! i) + 256 * unat (data ! (i + 1)))"
  "i < length data \<Longrightarrow> STREAM_TO_UINT8 data i = Some (unat (data ! i))"
  by (simp_all add: STREAM_TO_UINT16_def STREAM_TO_UINT8_def)

definition enable_command :: "u8 list" where
  "enable_command = [0xA1, 0xFC, 3, 0, 0, 1]"

lemma hw_core_enable_on:
  "v_cbacks v \<Longrightarrow> e_alloc e \<Longrightarrow>
   hw_core_enable e True v = v\<lparr>v_calls := v_calls v @ [Alloc 6, Xmit HCI_VSC_ENABLE_COMMMAND enable_command Core_cback]\<rparr>"
  by (simp add: hw_core_enable_def vcall_def enable_command_def TO_STREAM_def bytes_of_word_def HCI_VSC_ENABLE_COMMMAND_def
      START_STOP_CMD_SIZE_def HCI_CMD_PREAMBLE_SIZE_def Let_def)

text \<open>The version the chip reports: its node, and the year, month and day.\<close>

definition fw_version :: "u8 list \<Rightarrow> string" where
  "fw_version data = fmt_02x (data ! 7) @ fmt_02x (data ! 6) @ ''.'' @ fmt_02x (data ! 11) @ fmt_02x (data ! 10) @ ''.'' @
     fmt_02x (data ! 9) @ ''.'' @ fmt_02x (data ! 8)"

lemma fmt_04x_bytes: "fmt_04x (unat (a :: u8) + 256 * unat (b :: u8)) = fmt_02x b @ fmt_02x a"
proof -
  have "(unat a + 256 * unat b) div 256 = unat b" "(unat a + 256 * unat b) mod 256 = unat a" by simp_all
  then show ?thesis by (simp add: fmt_04x_def)
qed

lemma length_fmt_02x [simp]: "length (fmt_02x b) = 2"
  by (simp add: fmt_02x_def)

lemma pskey_event:
  assumes "12 \<le> length data" "v_cbacks v" "upio_wf (v_upio v)" "e_alloc e" "snd (v_debug v) \<in> {No_timer, Live t}"
  shows "\<exists>s d. marlin_pskey_cback e data v =
    Some (v\<lparr>v_fw := Some (fw_version data), v_upio := s, v_debug := d,
            v_calls := v_calls v @ [Dealloc, Alloc 6, Xmit HCI_VSC_ENABLE_COMMMAND enable_command Core_cback]\<rparr>) \<and>
    upio_wf s \<and> upio_state s ! UPIO_BT_WAKE = UPIO_DEASSERT \<and>
    (snd (v_debug v) \<noteq> No_timer \<longrightarrow> snd d = Deleted)"
proof -
  let ?v = "v\<lparr>v_fw := Some (fw_version data)\<rparr>"
  have "upio_wf (v_upio ?v)" "signal_action UPIO_DEASSERT" using assms(3) by (simp_all add: signal_action_def)
  from vupio_wake [OF this] obtain s where s: "vupio e UPIO_BT_WAKE UPIO_DEASSERT ?v = Some (?v\<lparr>v_upio := s\<rparr>)"
    "upio_wf s" "upio_state s ! UPIO_BT_WAKE = UPIO_DEASSERT" by blast
  obtain d where d: "uipo_userial_debug_disable (e_debug e) (v_debug v) = Some d"
    "snd (v_debug v) \<noteq> No_timer \<longrightarrow> snd d = Deleted"
    using assms(5) by (cases "v_debug v") (auto simp: uipo_userial_debug_disable_def)
  have "marlin_pskey_cback e data v =
    Some (v\<lparr>v_fw := Some (fw_version data), v_upio := s, v_debug := d,
            v_calls := v_calls v @ [Dealloc, Alloc 6, Xmit HCI_VSC_ENABLE_COMMMAND enable_command Core_cback]\<rparr>)"
    unfolding marlin_pskey_cback_def
    using assms(1,2,4) s(1) d(1) by (simp add: stream_field fmt_04x_bytes fw_version_def vcall_def hw_core_enable_on)
  with s(2,3) d(2) show ?thesis by blast
qed

lemma preload_sends:
  assumes "v_cbacks v" "upio_wf (v_upio v)" "e_alloc e"
  shows "\<exists>s. marlin_pskey_preload e v =
    Some (0, v\<lparr>v_upio := s, v_calls := v_calls v @ [Alloc (HCI_CMD_PREAMBLE_SIZE + PSKEY_PREAMBLE_SIZE),
                 Xmit HCI_PSKEY (marlin_stream (v_pskey v)) Pskey_cback],
               v_debug := uipo_userial_debug_enable (e_debug e) (v_debug v)\<rparr>) \<and> upio_wf s"
proof -
  let ?v = "vcall (Alloc (HCI_CMD_PREAMBLE_SIZE + PSKEY_PREAMBLE_SIZE)) v"
  have "upio_wf (v_upio ?v)" "signal_action UPIO_ASSERT" using assms(2) by (simp_all add: signal_action_def vcall_def)
  from vupio_wake [OF this] obtain s where "vupio e UPIO_BT_WAKE UPIO_ASSERT ?v = Some (?v\<lparr>v_upio := s\<rparr>)" "upio_wf s" by blast
  then show ?thesis using assms(1,3) by (intro exI [of _ s]) (simp add: marlin_pskey_preload_def vcall_def)
qed

lemma core_event_started:
  assumes "8 \<le> length data" "data ! 7 \<noteq> 0" "v_cbacks v"
  shows "hw_core_cback data v = Some (v\<lparr>v_calls := v_calls v @ [Dealloc, Fwcfg_cb True]\<rparr>)"
proof -
  have "unat (data ! 7) \<noteq> 0" using assms(2) by (simp add: unat_eq_0)
  then show ?thesis using assms by (simp add: hw_core_cback_def stream_field vcall_def)
qed

lemma v_debug_core_enable [simp]: "v_debug (hw_core_enable e b v) = v_debug v"
  by (simp add: hw_core_enable_def vcall_def Let_def)

lemma v_debug_vupio: "vupio e pio a v = Some v' \<Longrightarrow> v_debug v' = v_debug v"
  by (auto simp: vupio_def)

lemma pskey_event_undefined:
  assumes "\<And>io. uipo_userial_debug_disable io (v_debug v) = None"
  shows "marlin_pskey_cback e data v = None"
proof (rule ccontr)
  assume "marlin_pskey_cback e data v \<noteq> None"
  then obtain c v1 d where v1: "vupio e UPIO_BT_WAKE UPIO_DEASSERT (v\<lparr>v_fw := c\<rparr>) = Some v1"
    and d: "uipo_userial_debug_disable (e_debug e)
      (v_debug (hw_core_enable e True (if v_cbacks v1 then vcall Dealloc v1 else v1))) = Some d"
    unfolding marlin_pskey_cback_def by (auto simp: bind_eq_Some_conv Let_def)
  have "v_debug v1 = v_debug v" using v_debug_vupio [OF v1] by simp
  with d assms [of "e_debug e"] show False by (simp add: vcall_def split: if_splits)
qed

section \<open>The exchange\<close>

text \<open>The request to configure the firmware, and the chip's two answers handed to the handlers of the commands.\<close>

definition fw_exchange :: "venv \<Rightarrow> venv \<Rightarrow> venv \<Rightarrow> u8 list \<Rightarrow> u8 list \<Rightarrow> vendor \<Rightarrow> vendor option" where
  "fw_exchange e1 e2 e3 data1 data2 v =
     Option.bind (vnd_op e1 FW_CFG v) (\<lambda>(_, _, v).
     Option.bind (vnd_event e2 Pskey_cback data1 v) (\<lambda>v.
     vnd_event e3 Core_cback data2 v))"

definition exchange_calls :: "pskey \<Rightarrow> vnd_call list" where
  "exchange_calls mem =
     [Alloc (HCI_CMD_PREAMBLE_SIZE + PSKEY_PREAMBLE_SIZE), Xmit HCI_PSKEY (marlin_stream mem) Pskey_cback,
      Dealloc, Alloc 6, Xmit HCI_VSC_ENABLE_COMMMAND enable_command Core_cback, Dealloc, Fwcfg_cb True]"

lemma fw_cfg_preload: "vnd_op e FW_CFG v = map_option (\<lambda>(_, v). (0, Nothing, v)) (marlin_pskey_preload e v)"
  by (simp add: vnd_op_def hw_preload_pskey_def)

lemma debug_enabled:
  assumes "snd d = No_timer" "0 \<le> dbg_create io"
  shows "\<exists>t. snd (uipo_userial_debug_enable io d) \<in> {No_timer, Live t}"
    and "0 \<le> dbg_open io \<Longrightarrow> dbg_malloc io \<Longrightarrow> snd (uipo_userial_debug_enable io d) \<noteq> No_timer"
  using assms by (cases d; simp add: uipo_userial_debug_enable_def)+

lemma exchange_runs:
  assumes "v_cbacks v" "upio_wf (v_upio v)" "snd (v_debug v) = No_timer" "0 \<le> dbg_create (e_debug e1)"
    "e_alloc e1" "e_alloc e2" "12 \<le> length data1" "8 \<le> length data2" "data2 ! 7 \<noteq> 0"
  shows "\<exists>v'. fw_exchange e1 e2 e3 data1 data2 v = Some v' \<and> v_calls v' = v_calls v @ exchange_calls (v_pskey v) \<and>
    v_fw v' = Some (fw_version data1) \<and> upio_state (v_upio v') ! UPIO_BT_WAKE = UPIO_DEASSERT \<and> v_cbacks v' \<and>
    upio_wf (v_upio v') \<and> (0 \<le> dbg_open (e_debug e1) \<longrightarrow> dbg_malloc (e_debug e1) \<longrightarrow> snd (v_debug v') = Deleted)"
proof -
  from preload_sends [OF assms(1,2,5)] obtain s where
    pre: "marlin_pskey_preload e1 v =
      Some (0, v\<lparr>v_upio := s, v_calls := v_calls v @ [Alloc (HCI_CMD_PREAMBLE_SIZE + PSKEY_PREAMBLE_SIZE),
                 Xmit HCI_PSKEY (marlin_stream (v_pskey v)) Pskey_cback],
               v_debug := uipo_userial_debug_enable (e_debug e1) (v_debug v)\<rparr>)"
      (is "_ = Some (0, ?v1)") and wf: "upio_wf s" by blast
  obtain t where t: "snd (v_debug ?v1) \<in> {No_timer, Live t}" using debug_enabled(1) [OF assms(3,4)] by auto
  from pskey_event [of data1 ?v1 e2 t] t wf assms(1,6,7) obtain s' d where
    ps: "marlin_pskey_cback e2 data1 ?v1 = Some (?v1\<lparr>v_fw := Some (fw_version data1), v_upio := s', v_debug := d,
            v_calls := v_calls ?v1 @ [Dealloc, Alloc 6, Xmit HCI_VSC_ENABLE_COMMMAND enable_command Core_cback]\<rparr>)"
      (is "_ = Some ?v2") and s': "upio_wf s'" "upio_state s' ! UPIO_BT_WAKE = UPIO_DEASSERT"
      "snd (v_debug ?v1) \<noteq> No_timer \<longrightarrow> snd d = Deleted" by auto
  have core: "hw_core_cback data2 ?v2 = Some (?v2\<lparr>v_calls := v_calls ?v2 @ [Dealloc, Fwcfg_cb True]\<rparr>)"
    by (rule core_event_started) (use assms in simp_all)
  have run: "fw_exchange e1 e2 e3 data1 data2 v = Some (?v2\<lparr>v_calls := v_calls ?v2 @ [Dealloc, Fwcfg_cb True]\<rparr>)"
    unfolding fw_exchange_def fw_cfg_preload pre using ps core by (simp add: vnd_event_def)
  show ?thesis unfolding run
    using s' assms(1) debug_enabled(2) [OF assms(3,4)] by (simp add: exchange_calls_def)
qed


text \<open>A library that has just been started, and good answers.\<close>

definition started :: vendor where
  "started = \<lparr>v_upio = awake, v_userial = \<lparr>ufd = 7, utermios = 0, uport = BLUETOOTH_UART_DEVICE_PORT, udevice = 0\<rparr>,
     v_pskey = replicate 220 0, v_debug = (None, No_timer), v_cbacks = True, v_bd_addr = replicate 6 0, v_fw = None, v_calls = []\<rparr>"

definition good_env :: venv where
  "good_env = \<lparr>e_io = good_answers, e_tty = \<lparr>tty_open = 7, tty_get = True, tty_set = True\<rparr>,
     e_wcnd = \<lparr>wcnd_connect = (\<lambda>_. 3), wcnd_write = (\<lambda>s. int (length s)), wcnd_answer = Some ''BTWIFI-CMD OK''\<rparr>,
     e_debug = \<lparr>dbg_open = 4, dbg_write = 1, dbg_malloc = True, dbg_create = 0, dbg_settime = 0\<rparr>, e_alloc = True\<rparr>"

lemma started_ok:
  "v_cbacks started" "upio_wf (v_upio started)" "snd (v_debug started) = No_timer" "0 \<le> dbg_create (e_debug good_env)"
  "e_alloc good_env" "0 \<le> dbg_open (e_debug good_env)" "dbg_malloc (e_debug good_env)"
  using watched_run [OF awake_run] by (simp_all add: started_def good_env_def)


text \<open>The exchange works once in a process: after it has run with the debug node present, the same request still sends the
  configuration, but handling the chip's answer deletes the debug timer a second time, which is undefined,
  whatever the answer and the environment.\<close>

theorem second_exchange_undefined:
  assumes "v_cbacks v" "upio_wf (v_upio v)" "snd (v_debug v) = No_timer" "0 \<le> dbg_create (e_debug e1)"
    "e_alloc e1" "e_alloc e2" "12 \<le> length data1" "8 \<le> length data2" "data2 ! 7 \<noteq> 0"
    "0 \<le> dbg_open (e_debug e1)" "dbg_malloc (e_debug e1)" "e_alloc e4"
  shows "\<exists>v' v''. fw_exchange e1 e2 e3 data1 data2 v = Some v' \<and> vnd_op e4 FW_CFG v' = Some (0, Nothing, v'') \<and>
    vnd_event e5 Pskey_cback data v'' = None"
proof -
  from exchange_runs [OF assms(1-9), of e3] assms(10,11) obtain v' where
    v': "fw_exchange e1 e2 e3 data1 data2 v = Some v'" "v_cbacks v'" "upio_wf (v_upio v')" "snd (v_debug v') = Deleted" by auto
  from preload_sends [OF v'(2,3) assms(12)] obtain s where
    "vnd_op e4 FW_CFG v' = Some (0, Nothing, v'\<lparr>v_upio := s, v_calls := v_calls v' @ [Alloc (HCI_CMD_PREAMBLE_SIZE + PSKEY_PREAMBLE_SIZE),
                 Xmit HCI_PSKEY (marlin_stream (v_pskey v')) Pskey_cback],
               v_debug := uipo_userial_debug_enable (e_debug e4) (v_debug v')\<rparr>)" (is "_ = Some (0, Nothing, ?v)")
    by (auto simp: fw_cfg_preload)
  moreover have "snd (v_debug ?v) = Deleted"
    using v'(4) by (cases "v_debug v'") (simp add: uipo_userial_debug_enable_def)
  then have "uipo_userial_debug_disable io (v_debug ?v) = None" for io
    by (cases "v_debug ?v") (simp add: uipo_userial_debug_disable_def)
  then have "vnd_event e5 Pskey_cback data ?v = None"
    using pskey_event_undefined [of ?v] by (simp add: vnd_event_def)
  ultimately show ?thesis using v'(1) by blast
qed

lemma second_exchange_undefined_witness:
  "\<exists>v' v''. fw_exchange good_env good_env good_env (replicate 12 9) (replicate 8 1) started = Some v' \<and>
    vnd_op good_env FW_CFG v' = Some (0, Nothing, v'') \<and> vnd_event good_env Pskey_cback (replicate 12 9) v'' = None"
  by (rule second_exchange_undefined [OF started_ok(1-5) started_ok(5)]) (simp_all add: started_ok)

text \<open>Without a buffer the stack is never answered: the request to configure the firmware, and the one to end, report success,
  having made no call but the one for the buffer, so no event will ever lead to a callback.\<close>

theorem no_buffer_no_answer:
  assumes "v_cbacks v" "\<not> e_alloc e" "r = FW_CFG \<or> r = EPILOG"
  shows "\<exists>n. vnd_op e r v = Some (0, Nothing, v\<lparr>v_calls := v_calls v @ [Alloc n]\<rparr>)"
  using assms by (auto simp: vnd_op_def hw_preload_pskey_def marlin_pskey_preload_def hw_epilog_process_def
      marlin_epilog_process_def hw_core_enable_def vcall_def)

lemma no_buffer_no_answer_witness:
  "\<exists>n. vnd_op (good_env\<lparr>e_alloc := False\<rparr>) FW_CFG started = Some (0, Nothing, started\<lparr>v_calls := v_calls started @ [Alloc n]\<rparr>)"
  by (rule no_buffer_no_answer) (simp_all add: started_ok)

end
