(* ===== verification/BtChips.thy ===== *)
theory BtChips
  imports BtVendor
begin

text \<open>
  The two chips of \<^verbatim>\<open>libs/libbt/conf/sprd\<close> that the board does not have.  \<open>marlin2\<close> has the block and the command of marlin, a table with an
  end, and handlers that set the wake signal at other places and use no timer for debugging.  \<open>sr2351\<close> is sent its block when the port is
  opened, and answers with one byte.
\<close>

section \<open>marlin2: block, table and command\<close>

definition marlin2_pskey :: "member list" where
  "marlin2_pskey =
    [(''pskey_cmd'', 4, 1),
     (''g_dbg_source_sink_syn_test_data'', 1, 1),
     (''g_sys_sleep_in_standby_supported'', 1, 1),
     (''g_sys_sleep_master_supported'', 1, 1),
     (''g_sys_sleep_slave_supported'', 1, 1),
     (''default_ahb_clk'', 4, 1),
     (''device_class'', 4, 1),
     (''win_ext'', 4, 1),
     (''g_aGainValue'', 4, 6),
     (''g_aPowerValue'', 4, 5),
     (''feature_set'', 1, 16),
     (''device_addr'', 1, 6),
     (''g_sys_sco_transmit_mode'', 1, 1),
     (''g_sys_uart0_communication_supported'', 1, 1),
     (''edr_tx_edr_delay'', 1, 1),
     (''edr_rx_edr_delay'', 1, 1),
     (''g_wbs_nv_117'', 2, 1),
     (''is_wdg_supported'', 4, 1),
     (''share_memo_rx_base_addr'', 4, 1),
     (''g_wbs_nv_118'', 2, 1),
     (''g_nbv_nv_117'', 2, 1),
     (''share_memo_tx_packet_num_addr'', 4, 1),
     (''share_memo_tx_data_base_addr'', 4, 1),
     (''g_PrintLevel'', 4, 1),
     (''share_memo_tx_block_length'', 2, 1),
     (''share_memo_rx_block_length'', 2, 1),
     (''share_memo_tx_water_mark'', 2, 1),
     (''g_nbv_nv_118'', 2, 1),
     (''uart_rx_watermark'', 2, 1),
     (''uart_flow_control_thld'', 2, 1),
     (''comp_id'', 4, 1),
     (''pcm_clk_divd'', 2, 1),
     (''br_edr_diff_reserved'', 2, 1),
     (''g_aBRChannelpwrvalue'', 4, 8),
     (''g_aEDRChannelpwrvalue'', 4, 8),
     (''g_aLEPowerControlFlag'', 4, 1),
     (''g_aLEChannelpwrvalue'', 2, 8)]"

text \<open>The entries before the one without a name.\<close>

definition marlin2_table :: "conf_entry list" where
  "marlin2_table =
    [\<lparr>entry_name = ''pskey_cmd'', entry_action = None, entry_buf = None, entry_len = 0, entry_size = 0\<rparr>,
     conf_item marlin2_pskey ''g_dbg_source_sink_syn_test_data'' 1,
     conf_item marlin2_pskey ''g_sys_sleep_in_standby_supported'' 1,
     conf_item marlin2_pskey ''g_sys_sleep_master_supported'' 1,
     conf_item marlin2_pskey ''g_sys_sleep_slave_supported'' 1,
     conf_item marlin2_pskey ''default_ahb_clk'' 1,
     conf_item marlin2_pskey ''device_class'' 1,
     conf_item marlin2_pskey ''win_ext'' 1,
     conf_item marlin2_pskey ''g_aGainValue'' 6,
     conf_item marlin2_pskey ''g_aPowerValue'' 5,
     conf_item marlin2_pskey ''feature_set'' 16,
     conf_item marlin2_pskey ''device_addr'' 6,
     conf_item marlin2_pskey ''g_sys_sco_transmit_mode'' 1,
     conf_item marlin2_pskey ''g_sys_uart0_communication_supported'' 1,
     conf_item marlin2_pskey ''edr_tx_edr_delay'' 1,
     conf_item marlin2_pskey ''edr_rx_edr_delay'' 1,
     conf_item marlin2_pskey ''g_wbs_nv_117'' 1,
     conf_item marlin2_pskey ''is_wdg_supported'' 1,
     conf_item marlin2_pskey ''share_memo_rx_base_addr'' 1,
     conf_item marlin2_pskey ''g_wbs_nv_118'' 1,
     conf_item marlin2_pskey ''g_nbv_nv_117'' 1,
     conf_item marlin2_pskey ''share_memo_tx_packet_num_addr'' 1,
     conf_item marlin2_pskey ''share_memo_tx_data_base_addr'' 1,
     conf_item marlin2_pskey ''g_PrintLevel'' 1,
     conf_item marlin2_pskey ''share_memo_tx_block_length'' 1,
     conf_item marlin2_pskey ''share_memo_rx_block_length'' 1,
     conf_item marlin2_pskey ''share_memo_tx_water_mark'' 1,
     conf_item marlin2_pskey ''g_nbv_nv_118'' 1,
     conf_item marlin2_pskey ''uart_rx_watermark'' 1,
     conf_item marlin2_pskey ''uart_flow_control_thld'' 1,
     conf_item marlin2_pskey ''comp_id'' 1,
     conf_item marlin2_pskey ''pcm_clk_divd'' 1,
     conf_item marlin2_pskey ''br_edr_diff_reserved'' 1,
     conf_item marlin2_pskey ''g_aBRChannelpwrvalue'' 8,
     conf_item marlin2_pskey ''g_aEDRChannelpwrvalue'' 8,
     conf_item marlin2_pskey ''g_aLEPowerControlFlag'' 1,
     conf_item marlin2_pskey ''g_aLEChannelpwrvalue'' 8]"

definition marlin2_stream_items :: "(string \<times> nat \<times> nat) list" where
  "marlin2_stream_items =
    [(''g_dbg_source_sink_syn_test_data'', 1, 1),
     (''g_sys_sleep_in_standby_supported'', 1, 1),
     (''g_sys_sleep_master_supported'', 1, 1),
     (''g_sys_sleep_slave_supported'', 1, 1),
     (''default_ahb_clk'', 4, 1),
     (''device_class'', 4, 1),
     (''win_ext'', 4, 1),
     (''g_aGainValue'', 4, 6),
     (''g_aPowerValue'', 4, 5),
     (''feature_set'', 1, 16),
     (''device_addr'', 1, 6),
     (''g_sys_sco_transmit_mode'', 1, 1),
     (''g_sys_uart0_communication_supported'', 1, 1),
     (''edr_tx_edr_delay'', 1, 1),
     (''edr_rx_edr_delay'', 1, 1),
     (''g_wbs_nv_117'', 2, 1),
     (''is_wdg_supported'', 4, 1),
     (''share_memo_rx_base_addr'', 4, 1),
     (''g_wbs_nv_118'', 2, 1),
     (''g_nbv_nv_117'', 2, 1),
     (''share_memo_tx_packet_num_addr'', 4, 1),
     (''share_memo_tx_data_base_addr'', 4, 1),
     (''g_PrintLevel'', 4, 1),
     (''share_memo_tx_block_length'', 2, 1),
     (''share_memo_rx_block_length'', 2, 1),
     (''share_memo_tx_water_mark'', 2, 1),
     (''g_nbv_nv_118'', 2, 1),
     (''uart_rx_watermark'', 2, 1),
     (''uart_flow_control_thld'', 2, 1),
     (''comp_id'', 4, 1),
     (''pcm_clk_divd'', 2, 1),
     (''br_edr_diff_reserved'', 2, 1),
     (''g_aBRChannelpwrvalue'', 4, 8),
     (''g_aEDRChannelpwrvalue'', 4, 8),
     (''g_aLEPowerControlFlag'', 4, 1),
     (''g_aLEChannelpwrvalue'', 2, 8)]"

definition marlin2_stream :: "pskey \<Rightarrow> u8 list" where
  "marlin2_stream mem =
     TO_STREAM 2 HCI_PSKEY @ TO_STREAM 1 (of_nat PSKEY_PREAMBLE_SIZE) @
     concat (map (stream_item marlin2_pskey mem) marlin2_stream_items)"

section \<open>marlin2: handlers\<close>

definition marlin2_core_enable :: "venv \<Rightarrow> bool \<Rightarrow> vendor \<Rightarrow> vendor option" where
  "marlin2_core_enable e enable v =
     (if v_cbacks v
      then let v = vcall (Alloc (HCI_CMD_PREAMBLE_SIZE + START_STOP_CMD_SIZE)) v
           in if e_alloc e
              then map_option (vcall (Xmit HCI_VSC_ENABLE_COMMMAND
                     (TO_STREAM 2 HCI_VSC_ENABLE_COMMMAND @ [of_nat START_STOP_CMD_SIZE] @ TO_STREAM 2 0 @
                      [if enable then 1 else 0]) Core_cback)) (vupio e UPIO_BT_WAKE UPIO_ASSERT v)
              else Some v
      else Some v)"

definition marlin2_core_cback :: "venv \<Rightarrow> u8 list \<Rightarrow> vendor \<Rightarrow> vendor option" where
  "marlin2_core_cback e data v =
     Option.bind (STREAM_TO_UINT16 data 3) (\<lambda>opcode.
     Option.bind (STREAM_TO_UINT16 data 5) (\<lambda>mode.
     Option.bind (STREAM_TO_UINT8 data 7) (\<lambda>status.
     let v = (if v_cbacks v then vcall Dealloc v else v)
     in if \<not> v_cbacks v then None
        else vupio e UPIO_BT_WAKE UPIO_DEASSERT (if status \<noteq> 0 then vcall (Fwcfg_cb True) v else vcall (Epilog_cb True) v))))"

definition marlin2_pskey_cback :: "venv \<Rightarrow> u8 list \<Rightarrow> vendor \<Rightarrow> vendor option" where
  "marlin2_pskey_cback e data v =
     Option.bind (STREAM_TO_UINT8 data 5) (\<lambda>status.
     Option.bind (STREAM_TO_UINT16 data 3) (\<lambda>opcode.
     Option.bind (STREAM_TO_UINT16 data 6) (\<lambda>node.
     Option.bind (STREAM_TO_UINT16 data 10) (\<lambda>year.
     Option.bind (STREAM_TO_UINT8 data 9) (\<lambda>month.
     Option.bind (STREAM_TO_UINT8 data 8) (\<lambda>day.
     let text = fmt_04x node @ ''.'' @ fmt_04x year @ ''.'' @ fmt_02x (of_nat month) @ ''.'' @ fmt_02x (of_nat day);
         v = v\<lparr>v_fw := Some (take 15 text)\<rparr>;
         v = (if v_cbacks v then vcall Dealloc v else v)
     in marlin2_core_enable e True v))))))"

text \<open>\<open>strtoul (s, 0, 0)\<close> with a 32-bit result, and what \<open>property_get\<close> returns and stores.\<close>

definition strtoul_any :: "string \<Rightarrow> u32" where
  "strtoul_any s =
     (let (neg, t) = signed_text s;
          v = (if take 2 t = ''0x'' \<or> take 2 t = ''0X'' then text_digits 16 0 (drop 2 t)
               else if take 1 t = ''0'' then text_digits 8 0 t else text_digits 10 0 t)
      in if v \<ge> 2 ^ 32 then - 1 else if neg then - of_nat v else of_nat v)"

definition marlin2_pskey_reload :: "int \<times> string \<Rightarrow> pskey \<Rightarrow> pskey option" where
  "marlin2_pskey_reload = (\<lambda>(ret, property_buf) mem.
     if ret \<ge> 0
     then mem_write mem (fst (member_at marlin2_pskey ''share_memo_tx_packet_num_addr'')) (bytes_of_word (strtoul_any property_buf))
     else Some mem)"

definition marlin2_pskey_preload :: "venv \<Rightarrow> int \<times> string \<Rightarrow> vendor \<Rightarrow> (int \<times> vendor) option" where
  "marlin2_pskey_preload e prop v =
     (let v = (if v_cbacks v then vcall (Alloc (HCI_CMD_PREAMBLE_SIZE + PSKEY_PREAMBLE_SIZE)) v else v)
      in if v_cbacks v \<and> e_alloc e
         then Option.bind (marlin2_pskey_reload prop (v_pskey v)) (\<lambda>mem.
              map_option (\<lambda>v. (0, vcall (Xmit HCI_PSKEY (marlin2_stream mem) Pskey_cback) v))
                (vupio e UPIO_BT_WAKE UPIO_ASSERT (v\<lparr>v_pskey := mem\<rparr>)))
         else if v_cbacks v then Some (-1, v)
         else Some (0, v))"

definition marlin2_epilog_process :: "venv \<Rightarrow> vendor \<Rightarrow> vendor option" where
  "marlin2_epilog_process e v = marlin2_core_enable e False v"

section \<open>sr2351\<close>

text \<open>The results of the calls on the port: what \<open>write\<close> and \<open>select\<close> return, the bytes there are to read, \<open>None\<close> when the
  read fails.\<close>

record sr_io =
  sr_write :: int
  sr_select :: int
  sr_read :: "u8 list option"

text \<open>The result and the bytes handed to \<open>write\<close>.  Every branch leaves the loop.\<close>

definition sr2351_pskey_preload :: "sr_io \<Rightarrow> pskey \<Rightarrow> int \<times> u8 list" where
  "sr2351_pskey_preload io mem =
     (if sr_write io < 0 \<or> sr_write io \<noteq> int (sizeof_struct sr2351_pskey) then (-1, mem)
      else if sr_select io > 0
      then (case sr_read io of
              None \<Rightarrow> (-1, mem)
            | Some data \<Rightarrow>
                let buf = take 10 data
                in if buf = [] then (-1, mem) else if hd buf \<noteq> 0x05 then (-1, mem) else (0, mem))
      else (-1, mem))"

text \<open>Opening the port in the build for this chip.\<close>

definition sr2351_userial_open :: "tty \<Rightarrow> sr_io \<Rightarrow> pskey \<Rightarrow> userial \<Rightarrow> int \<times> vnd_out \<times> userial" where
  "sr2351_userial_open t io mem u =
     (let (fd, u) = userial_vendor_open t userial_init_cfg u;
          (retval, _) = sr2351_pskey_preload io mem;
          (fd, u) = (if retval < 0 then (-1, userial_vendor_close t u) else (fd, u))
      in if fd \<noteq> -1 then (CH_MAX_retval, Channels fd, u) else (retval, Nothing, u))"

end
