(* ===== verification/BtChipsProps.thy ===== *)
theory BtChipsProps
  imports BtChips BtVendorProps BtConfProps
begin

text \<open>
  marlin2 sends the same bytes as marlin, and unlike marlin it can be configured as often as the stack asks; sr2351 accepts its block
  exactly on the answer 5, and the port stays open only then.
\<close>

section \<open>The same block\<close>

lemma marlin2_block: "marlin2_pskey = marlin_pskey" "marlin2_table = marlin_table" "marlin2_stream = marlin_stream"
proof -
  show p: "marlin2_pskey = marlin_pskey" by (simp add: marlin2_pskey_def marlin_pskey_def)
  show "marlin2_table = marlin_table" by (simp only: marlin2_table_def marlin_table_def p)
  have "marlin2_stream_items = marlin_stream_items" by (simp add: marlin2_stream_items_def marlin_stream_items_def)
  then show "marlin2_stream = marlin_stream" by (simp add: marlin2_stream_def marlin_stream_def p fun_eq_iff)
qed

text \<open>The word that the property sets, at its place in the block.\<close>

lemma packet_num_at: "member_at marlin_pskey ''share_memo_tx_packet_num_addr'' = (104, 4, 1)"
  by (simp add: member_at_def marlin_pskey_def align_def)

definition reloaded :: "string \<Rightarrow> pskey \<Rightarrow> pskey" where
  "reloaded property_buf mem = put_bytes mem 104 (bytes_of_word (strtoul_any property_buf))"

lemma reload_writes:
  assumes "0 \<le> ret" "length mem = 220"
  shows "marlin2_pskey_reload (ret, property_buf) mem = Some (reloaded property_buf mem)"
  using assms by (simp add: marlin2_pskey_reload_def marlin2_block packet_num_at mem_write_put reloaded_def bytes_of_word_def)

lemma length_reloaded [simp]: "length mem = 220 \<Longrightarrow> length (reloaded s mem) = 220"
  by (simp add: reloaded_def bytes_of_word_def)

lemma reloaded_again: "length mem = 220 \<Longrightarrow> reloaded s (reloaded t mem) = reloaded s mem"
  by (simp add: reloaded_def put_bytes_def bytes_of_word_def min_def)

section \<open>The exchange\<close>

text \<open>A request to configure, with the two answers: what it finds outside at its three steps, the property, the events.\<close>

type_synonym round = "venv \<times> venv \<times> venv \<times> (int \<times> string) \<times> u8 list \<times> u8 list"

definition marlin2_exchange :: "round \<Rightarrow> vendor \<Rightarrow> vendor option" where
  "marlin2_exchange = (\<lambda>(e1, e2, e3, prop, data1, data2) v.
     Option.bind (marlin2_pskey_preload e1 prop v) (\<lambda>(_, v).
     Option.bind (marlin2_pskey_cback e2 data1 v) (marlin2_core_cback e3 data2)))"

fun marlin2_exchanges :: "round list \<Rightarrow> vendor \<Rightarrow> vendor option" where
  "marlin2_exchanges [] v = Some v"
| "marlin2_exchanges (r # rs) v = Option.bind (marlin2_exchange r v) (marlin2_exchanges rs)"

definition answered_round :: "round \<Rightarrow> bool" where
  "answered_round = (\<lambda>(e1, e2, e3, prop, data1, data2).
     e_alloc e1 \<and> e_alloc e2 \<and> 0 \<le> fst prop \<and> 12 \<le> length data1 \<and> 8 \<le> length data2 \<and> data2 ! 7 \<noteq> 0)"

definition round_calls :: "pskey \<Rightarrow> round \<Rightarrow> vnd_call list" where
  "round_calls mem = (\<lambda>(e1, e2, e3, prop, data1, data2).
     [Alloc (HCI_CMD_PREAMBLE_SIZE + PSKEY_PREAMBLE_SIZE), Xmit HCI_PSKEY ([0xA0, 0xFC, 0xD8] @ drop 4 (reloaded (snd prop) mem)) Pskey_cback,
      Dealloc, Alloc 6, Xmit HCI_VSC_ENABLE_COMMMAND [0xA1, 0xFC, 3, 0, 0, 1] Core_cback, Dealloc, Fwcfg_cb True])"

lemma marlin2_enable_on:
  assumes "v_cbacks v" "e_alloc e" "upio_wf (v_upio v)"
  shows "\<exists>s. marlin2_core_enable e True v = Some (v\<lparr>v_upio := s,
      v_calls := v_calls v @ [Alloc 6, Xmit HCI_VSC_ENABLE_COMMMAND [0xA1, 0xFC, 3, 0, 0, 1] Core_cback]\<rparr>) \<and> upio_wf s"
proof -
  let ?v = "vcall (Alloc 6) v"
  have "upio_wf (v_upio ?v)" "signal_action UPIO_ASSERT" using assms(3) by (simp_all add: signal_action_def vcall_def)
  from vupio_wake [OF this] obtain s where "vupio e UPIO_BT_WAKE UPIO_ASSERT ?v = Some (?v\<lparr>v_upio := s\<rparr>)" "upio_wf s" by blast
  then show ?thesis using assms(1,2)
    by (intro exI [of _ s]) (simp add: marlin2_core_enable_def vcall_def TO_STREAM_def bytes_of_word_def HCI_VSC_ENABLE_COMMMAND_def
      START_STOP_CMD_SIZE_def HCI_CMD_PREAMBLE_SIZE_def)
qed

lemma marlin2_pskey_event:
  assumes "12 \<le> length data" "v_cbacks v" "upio_wf (v_upio v)" "e_alloc e"
  shows "\<exists>s. marlin2_pskey_cback e data v = Some (v\<lparr>v_fw := Some (fw_version data), v_upio := s,
      v_calls := v_calls v @ [Dealloc, Alloc 6, Xmit HCI_VSC_ENABLE_COMMMAND [0xA1, 0xFC, 3, 0, 0, 1] Core_cback]\<rparr>) \<and> upio_wf s"
proof -
  let ?v = "vcall Dealloc (v\<lparr>v_fw := Some (fw_version data)\<rparr>)"
  obtain s where "marlin2_core_enable e True ?v = Some (?v\<lparr>v_upio := s,
      v_calls := v_calls ?v @ [Alloc 6, Xmit HCI_VSC_ENABLE_COMMMAND [0xA1, 0xFC, 3, 0, 0, 1] Core_cback]\<rparr>)" "upio_wf s"
    using marlin2_enable_on [of ?v e] assms by (auto simp: vcall_def)
  then show ?thesis using assms(1,2)
    by (intro exI [of _ s]) (simp add: marlin2_pskey_cback_def stream_field fmt_04x_bytes fw_version_def vcall_def)
qed

lemma marlin2_preload_sends:
  assumes "v_cbacks v" "upio_wf (v_upio v)" "e_alloc e" "0 \<le> fst prop" "length (v_pskey v) = 220"
  shows "\<exists>s. marlin2_pskey_preload e prop v = Some (0, v\<lparr>v_pskey := reloaded (snd prop) (v_pskey v), v_upio := s,
      v_calls := v_calls v @ [Alloc (HCI_CMD_PREAMBLE_SIZE + PSKEY_PREAMBLE_SIZE),
        Xmit HCI_PSKEY ([0xA0, 0xFC, 0xD8] @ drop 4 (reloaded (snd prop) (v_pskey v))) Pskey_cback]\<rparr>) \<and> upio_wf s"
proof -
  let ?v = "(vcall (Alloc (HCI_CMD_PREAMBLE_SIZE + PSKEY_PREAMBLE_SIZE)) v)\<lparr>v_pskey := reloaded (snd prop) (v_pskey v)\<rparr>"
  have "upio_wf (v_upio ?v)" "signal_action UPIO_ASSERT" using assms(2) by (simp_all add: signal_action_def vcall_def)
  from vupio_wake [OF this] obtain s where "vupio e UPIO_BT_WAKE UPIO_ASSERT ?v = Some (?v\<lparr>v_upio := s\<rparr>)" "upio_wf s" by blast
  moreover have "marlin2_pskey_reload prop (v_pskey v) = Some (reloaded (snd prop) (v_pskey v))"
    using reload_writes [OF assms(4,5), of "snd prop"] by simp
  moreover have "marlin2_stream (reloaded (snd prop) (v_pskey v)) = [0xA0, 0xFC, 0xD8] @ drop 4 (reloaded (snd prop) (v_pskey v))"
    using marlin_stream_block [OF length_reloaded [OF assms(5)]] by (simp add: marlin2_block)
  ultimately show ?thesis using assms(1,3) by (intro exI [of _ s]) (simp add: marlin2_pskey_preload_def vcall_def)
qed

lemma marlin2_core_started:
  assumes "8 \<le> length data" "data ! 7 \<noteq> 0" "v_cbacks v" "upio_wf (v_upio v)"
  shows "\<exists>s. marlin2_core_cback e data v = Some (v\<lparr>v_upio := s, v_calls := v_calls v @ [Dealloc, Fwcfg_cb True]\<rparr>) \<and>
    upio_wf s \<and> upio_state s ! UPIO_BT_WAKE = UPIO_DEASSERT"
proof -
  let ?v = "vcall (Fwcfg_cb True) (vcall Dealloc v)"
  have "upio_wf (v_upio ?v)" "signal_action UPIO_DEASSERT" using assms(4) by (simp_all add: signal_action_def vcall_def)
  from vupio_wake [OF this] obtain s where "vupio e UPIO_BT_WAKE UPIO_DEASSERT ?v = Some (?v\<lparr>v_upio := s\<rparr>)" "upio_wf s"
    "upio_state s ! UPIO_BT_WAKE = UPIO_DEASSERT" by blast
  moreover have "unat (data ! 7) \<noteq> 0" using assms(2) by (simp add: unat_eq_0)
  ultimately show ?thesis using assms(1,3)
    by (intro exI [of _ s]) (simp add: marlin2_core_cback_def stream_field vcall_def)
qed

definition chip_ready :: "vendor \<Rightarrow> bool" where
  "chip_ready v \<longleftrightarrow> v_cbacks v \<and> upio_wf (v_upio v) \<and> length (v_pskey v) = 220"

lemma marlin2_round:
  assumes "chip_ready v" "answered_round r"
  shows "\<exists>v' s. marlin2_exchange r v = Some v' \<and> chip_ready v' \<and> v_calls v' = v_calls v @ round_calls (v_pskey v) r \<and>
    v_pskey v' = reloaded s (v_pskey v) \<and> upio_state (v_upio v') ! UPIO_BT_WAKE = UPIO_DEASSERT"
proof -
  obtain e1 e2 e3 pr data1 data2 where r: "r = (e1, e2, e3, pr, data1, data2)" by (cases r) auto
  have a: "v_cbacks v" "upio_wf (v_upio v)" "length (v_pskey v) = 220" "e_alloc e1" "e_alloc e2" "0 \<le> fst pr" "12 \<le> length data1"
    "8 \<le> length data2" "data2 ! 7 \<noteq> 0" using assms by (simp_all add: chip_ready_def answered_round_def r)
  obtain s1 where s1: "marlin2_pskey_preload e1 pr v = Some (0, v\<lparr>v_pskey := reloaded (snd pr) (v_pskey v), v_upio := s1,
      v_calls := v_calls v @ [Alloc (HCI_CMD_PREAMBLE_SIZE + PSKEY_PREAMBLE_SIZE),
        Xmit HCI_PSKEY ([0xA0, 0xFC, 0xD8] @ drop 4 (reloaded (snd pr) (v_pskey v))) Pskey_cback]\<rparr>)" (is "_ = Some (0, ?v1)")
    "upio_wf s1" using marlin2_preload_sends [OF a(1,2,4,6,3)] by blast
  obtain s2 where s2: "marlin2_pskey_cback e2 data1 ?v1 = Some (?v1\<lparr>v_fw := Some (fw_version data1), v_upio := s2,
      v_calls := v_calls ?v1 @ [Dealloc, Alloc 6, Xmit HCI_VSC_ENABLE_COMMMAND [0xA1, 0xFC, 3, 0, 0, 1] Core_cback]\<rparr>)"
      (is "_ = Some ?v2") "upio_wf s2" using marlin2_pskey_event [OF a(7), of ?v1 e2] a s1(2) by auto
  obtain s3 where s3: "marlin2_core_cback e3 data2 ?v2 = Some (?v2\<lparr>v_upio := s3, v_calls := v_calls ?v2 @ [Dealloc, Fwcfg_cb True]\<rparr>)"
    "upio_wf s3" "upio_state s3 ! UPIO_BT_WAKE = UPIO_DEASSERT" using marlin2_core_started [OF a(8,9), of ?v2 e3] a s2(2) by auto
  have run: "marlin2_exchange r v = Some (?v2\<lparr>v_upio := s3, v_calls := v_calls ?v2 @ [Dealloc, Fwcfg_cb True]\<rparr>)" (is "_ = Some ?v3")
    using s1(1) s2(1) s3(1) by (simp add: marlin2_exchange_def r)
  show ?thesis unfolding run
    by (rule exI [of _ ?v3], rule exI [of _ "snd pr"]) (use a s3(2,3) in \<open>simp add: r chip_ready_def round_calls_def\<close>)
qed

lemma round_calls_reloaded: "length mem = 220 \<Longrightarrow> round_calls (reloaded s mem) = round_calls mem"
  by (auto simp: round_calls_def reloaded_again fun_eq_iff)

text \<open>C24: With marlin2 the stack can have the chip configured any number of times in a process: when it has buffers and the chip answers, each
  request sends the block as it was loaded but for the word the property sets, then the enable command, releases each event and
  calls the stack back exactly once; after the last one the wake signal is de-asserted.\<close>

theorem marlin2_configured_repeatedly:
  assumes "chip_ready v" "list_all answered_round rs"
  shows "\<exists>v'. marlin2_exchanges rs v = Some v' \<and> v_calls v' = v_calls v @ concat (map (round_calls (v_pskey v)) rs) \<and>
    (rs = [] \<and> v' = v \<or> upio_state (v_upio v') ! UPIO_BT_WAKE = UPIO_DEASSERT)"
  using assms
proof (induction rs arbitrary: v)
  case (Cons r rs)
  obtain v1 s where v1: "marlin2_exchange r v = Some v1" "chip_ready v1" "v_calls v1 = v_calls v @ round_calls (v_pskey v) r"
    "v_pskey v1 = reloaded s (v_pskey v)" "upio_state (v_upio v1) ! UPIO_BT_WAKE = UPIO_DEASSERT"
    using marlin2_round [OF Cons.prems(1), of r] Cons.prems(2) by auto
  have "round_calls (v_pskey v1) = round_calls (v_pskey v)"
    using Cons.prems(1) v1(4) by (simp add: chip_ready_def round_calls_reloaded)
  with Cons.IH [OF v1(2)] Cons.prems(2) v1 show ?case by auto
qed simp

theorem marlin2_configured_repeatedly_witness:
  "\<exists>v'. marlin2_exchanges (replicate 2 (good_env, good_env, good_env, (1, ''0x10''), replicate 12 9, replicate 8 1)) started = Some v' \<and>
    length (filter (\<lambda>c. c = Fwcfg_cb True) (v_calls v')) = 2"
proof -
  let ?r = "(good_env, good_env, good_env, (1, ''0x10''), replicate 12 9, replicate 8 1) :: round"
  have "chip_ready started" using started_ok(1,2) by (simp add: chip_ready_def started_def)
  moreover have "list_all answered_round (replicate 2 ?r)" using started_ok(5) by (simp add: answered_round_def list_all_iff)
  ultimately obtain v' where "marlin2_exchanges (replicate 2 ?r) started = Some v'"
    "v_calls v' = v_calls started @ concat (map (round_calls (v_pskey started)) (replicate 2 ?r))"
    using marlin2_configured_repeatedly by blast
  then show ?thesis by (simp add: round_calls_def started_def numeral_2_eq_2)
qed

section \<open>sr2351\<close>

text \<open>The block is taken exactly when it was written whole and the first byte that comes back in time is 5.\<close>

lemma sr2351_accepted:
  "fst (sr2351_pskey_preload io mem) = 0 \<longleftrightarrow>
    sr_write io = int (sizeof_struct sr2351_pskey) \<and> 0 < sr_select io \<and> (\<exists>data. sr_read io = Some (0x05 # data))"
proof -
  have "take 10 data \<noteq> [] \<and> hd (take 10 data) = 5 \<longleftrightarrow> (\<exists>ds. data = 5 # ds)" for data :: "u8 list" by (cases data) auto
  then show ?thesis by (auto simp: sr2351_pskey_preload_def Let_def split: option.split)
qed

text \<open>Otherwise the port is closed again and the stack gets no channel.\<close>

lemma sr2351_refused_closes:
  assumes "fst (sr2351_pskey_preload io mem) \<noteq> 0"
  shows "\<exists>u'. sr2351_userial_open t io mem u = (-1, Nothing, u') \<and> ufd u' = -1"
proof -
  have "fst (sr2351_pskey_preload io mem) = -1"
    using assms by (auto simp: sr2351_pskey_preload_def Let_def split: option.splits)
  then show ?thesis
    by (simp add: sr2351_userial_open_def case_prod_beta userial_vendor_close_def Let_def)
qed

end
