(* ===== verification/Dtbtool.thy ===== *)
theory Dtbtool
  imports CText
begin

text \<open>
  The DTB combiner, \<^verbatim>\<open>dtbtool/dtbtool.c\<close>.  Chips live on a heap, a function from addresses; the
  list they form is doubly linked, as in the code.  The decompiler's output, the directory, the files and the success of
  each \<open>write\<close> are parameters; allocation succeeds.
\<close>

section \<open>Options\<close>

text \<open>What \<open>getopt_long\<close> reports.\<close>

datatype command_option = Non_option string | Opt_o string | Opt_p string | Opt_s string | Opt_v | Opt_h | Opt_unknown

record options =
  input_dir :: "string option"
  output_file :: "string option"
  dtc_path :: "string option"
  verbose :: bool
  page_size :: int

definition PAGE_SIZE_MAX :: int where "PAGE_SIZE_MAX = 1024 * 1024"
definition PAGE_SIZE_DEF :: int where "PAGE_SIZE_DEF = 2048"

definition default_options :: options where
  "default_options = \<lparr>input_dir = None, output_file = None, dtc_path = None, verbose = False, page_size = PAGE_SIZE_DEF\<rparr>"

text \<open>\<open>None\<close> is \<open>RC_ERROR\<close>.\<close>

fun read_options :: "command_option list \<Rightarrow> options \<Rightarrow> options option" where
  "read_options [] opts = Some opts"
| "read_options (c # cs) opts =
     (case c of
        Non_option optarg \<Rightarrow>
          read_options cs (if input_dir opts = None then opts\<lparr>input_dir := Some optarg\<rparr> else opts)
      | Opt_o optarg \<Rightarrow> read_options cs (opts\<lparr>output_file := Some optarg\<rparr>)
      | Opt_p optarg \<Rightarrow> read_options cs (opts\<lparr>dtc_path := Some optarg\<rparr>)
      | Opt_s optarg \<Rightarrow>
          if atoi optarg \<le> 0 \<or> atoi optarg > PAGE_SIZE_MAX then None
          else read_options cs (opts\<lparr>page_size := atoi optarg\<rparr>)
      | Opt_v \<Rightarrow> read_options cs (opts\<lparr>verbose := True\<rparr>)
      | Opt_h \<Rightarrow> None
      | Opt_unknown \<Rightarrow> None)"

definition parse_commandline :: "command_option list \<Rightarrow> options \<Rightarrow> options option" where
  "parse_commandline args opts =
     Option.bind (read_options args opts) (\<lambda>opts.
     if output_file opts = None then None
     else Some (opts\<lparr>input_dir := Some (case input_dir opts of None \<Rightarrow> ''./'' | Some d \<Rightarrow> d),
                     dtc_path := Some (case dtc_path opts of None \<Rightarrow> [] | Some p \<Rightarrow> p)\<rparr>))"

section \<open>The chip list\<close>

record chipInfo_t =
  chipset :: u32
  platform :: u32
  revNum :: u32
  dtb_size :: u32
  dtb_file :: "string option"
  prev_chip :: "nat option"
  next_chip :: "nat option"
  master :: nat
  wroteDtb :: bool
  master_offset :: u32

type_synonym heap = "nat \<Rightarrow> chipInfo_t"

definition chip_less :: "chipInfo_t \<Rightarrow> chipInfo_t \<Rightarrow> bool" where
  "chip_less c x \<longleftrightarrow>
     chipset c < chipset x \<or>
     chipset c = chipset x \<and> (platform c < platform x \<or> platform c = platform x \<and> revNum c < revNum x)"

definition chip_same :: "chipInfo_t \<Rightarrow> chipInfo_t \<Rightarrow> bool" where
  "chip_same c x \<longleftrightarrow> chipset c = chipset x \<and> platform c = platform x \<and> revNum c = revNum x"

text \<open>The loop of \<open>chip_add\<close> at \<open>x\<close>: success, the heap and the list's head; it does not end on a cyclic list.\<close>

partial_function (option) chip_add_loop :: "heap \<Rightarrow> nat option \<Rightarrow> nat \<Rightarrow> nat \<Rightarrow> (bool \<times> heap \<times> nat option) option" where
  "chip_add_loop h chip_list c x =
     (if chip_less (h c) (h x)
      then case prev_chip (h x) of
             None \<Rightarrow>
               let h = h(c := (h c)\<lparr>next_chip := Some x\<rparr>);
                   h = h(c := (h c)\<lparr>prev_chip := None\<rparr>);
                   h = h(x := (h x)\<lparr>prev_chip := Some c\<rparr>)
               in Some (True, h, Some c)
           | Some p \<Rightarrow>
               let h = h(c := (h c)\<lparr>next_chip := Some x\<rparr>);
                   h = h(c := (h c)\<lparr>prev_chip := prev_chip (h x)\<rparr>);
                   h = h(p := (h p)\<lparr>next_chip := Some c\<rparr>);
                   h = h(x := (h x)\<lparr>prev_chip := Some c\<rparr>)
               in Some (True, h, chip_list)
      else if chip_same (h c) (h x) then Some (False, h, chip_list)
      else case next_chip (h x) of
             None \<Rightarrow>
               let h = h(c := (h c)\<lparr>prev_chip := Some x\<rparr>);
                   h = h(c := (h c)\<lparr>next_chip := None\<rparr>);
                   h = h(x := (h x)\<lparr>next_chip := Some c\<rparr>)
               in Some (True, h, chip_list)
           | Some y \<Rightarrow> chip_add_loop h chip_list c y)"

definition chip_add :: "heap \<Rightarrow> nat option \<Rightarrow> nat \<Rightarrow> (bool \<times> heap \<times> nat option) option" where
  "chip_add h chip_list c =
     (case chip_list of
        None \<Rightarrow> Some (True, h(c := (h c)\<lparr>next_chip := None, prev_chip := None\<rparr>), Some c)
      | Some x \<Rightarrow> chip_add_loop h chip_list c x)"

text \<open>The addresses from \<open>p\<close> on, as the \<open>for\<close> loops over the list visit them.\<close>

partial_function (option) chip_chain :: "heap \<Rightarrow> nat option \<Rightarrow> nat list option" where
  "chip_chain h p =
     (case p of None \<Rightarrow> Some [] | Some x \<Rightarrow> Option.bind (chip_chain h (next_chip (h x))) (\<lambda>xs. Some (x # xs)))"

section \<open>Reading a DTB\<close>

definition QCDT_DT_TAG :: string where
  "QCDT_DT_TAG = ''sprd,sc-id = <''"

definition blank :: "char \<Rightarrow> bool" where
  "blank c \<longleftrightarrow> c = CHR '' '' \<or> of_char c = (9 :: nat)"

text \<open>Three tokens: \<open>None\<close> when the entry is ended by \<open>>\<close> or by the end of the line.\<close>

definition chip_token :: "string \<Rightarrow> (u32 \<times> string) option" where
  "chip_token s =
     Option.bind (strtok blank s) (\<lambda>(tok, rest).
     if hd tok = CHR ''>'' then None else Some (ucast (strtoul0 tok), rest))"

definition chip_triple :: "string \<Rightarrow> ((u32 \<times> u32 \<times> u32) \<times> string) option" where
  "chip_triple s =
     Option.bind (chip_token s) (\<lambda>(a, s). Option.bind (chip_token s) (\<lambda>(b, s). Option.bind (chip_token s) (\<lambda>(c, s).
     Some ((a, b, c), s))))"

lemma chip_token_shorter: "chip_token s = Some (v, r) \<Longrightarrow> length r < length s"
  by (auto simp: chip_token_def bind_eq_Some_conv dest: strtok_shorter split: if_splits)

lemma chip_triple_shorter: "chip_triple s = Some (t, r) \<Longrightarrow> length r < length s"
  by (auto simp: chip_triple_def bind_eq_Some_conv dest!: chip_token_shorter)

function chip_triples :: "string \<Rightarrow> (u32 \<times> u32 \<times> u32) list" where
  "chip_triples s = (case chip_triple s of None \<Rightarrow> [] | Some (t, rest) \<Rightarrow> t # chip_triples rest)"
  by pat_completeness auto
termination
  by (relation "measure length") (auto dest: chip_triple_shorter)

text \<open>The chain that \<open>getChipInfo\<close> returns: the first entry, and the others inserted behind it.  \<open>lines\<close> is the
  decompiler's output, \<open>None\<close> when \<open>popen\<close> fails; the first line with the tag decides.\<close>

definition getChipInfo :: "string list option \<Rightarrow> (u32 \<times> u32 \<times> u32) list" where
  "getChipInfo lines =
     (case lines of
        None \<Rightarrow> []
      | Some ls \<Rightarrow>
          case List.find (\<lambda>l. after_first QCDT_DT_TAG l \<noteq> None) ls of
            None \<Rightarrow> []
          | Some l \<Rightarrow>
              case chip_triples (the (after_first QCDT_DT_TAG l)) of [] \<Rightarrow> [] | t # ts \<Rightarrow> t # rev ts)"

section \<open>The directory\<close>

record dir_entry =
  d_name :: string
  d_reg :: bool
  dtc_lines :: "string list option"
  st_size :: "nat option"

record tool_state =
  chips :: heap
  chip_list :: "nat option"
  fresh :: nat
  dtb_count :: nat
  rc_ok :: bool

definition new_chip :: "nat \<Rightarrow> u32 \<times> u32 \<times> u32 \<Rightarrow> chipInfo_t" where
  "new_chip m t =
     \<lparr>chipset = fst t, platform = fst (snd t), revNum = snd (snd t), dtb_size = 0, dtb_file = None, prev_chip = None,
      next_chip = None, master = m, wroteDtb = False, master_offset = 0\<rparr>"

text \<open>\<open>tmp->master = chip\<close> is the first entry's address.\<close>

definition alloc_chips :: "(u32 \<times> u32 \<times> u32) list \<Rightarrow> tool_state \<Rightarrow> tool_state" where
  "alloc_chips ts st =
     st\<lparr>chips := (\<lambda>a. if fresh st \<le> a \<and> a < fresh st + length ts then new_chip (fresh st) (ts ! (a - fresh st)) else chips st a),
        fresh := fresh st + length ts\<rparr>"

definition padded_size :: "nat \<Rightarrow> nat \<Rightarrow> nat" where
  "padded_size page n = n + (page - n mod page)"

fun add_others :: "nat list \<Rightarrow> tool_state \<Rightarrow> tool_state option" where
  "add_others [] st = Some st"
| "add_others (a # as) st =
     Option.bind (chip_add (chips st) (chip_list st) a) (\<lambda>(ok, h, l).
     let st = st\<lparr>chips := h, chip_list := l, rc_ok := ok\<rparr>
     in add_others as (if ok then st\<lparr>dtb_count := dtb_count st + 1\<rparr> else st))"

definition is_dtb :: "dir_entry \<Rightarrow> bool" where
  "is_dtb d \<longleftrightarrow> d_reg d \<and> length (d_name d) > 4 \<and> drop (length (d_name d) - 4) (d_name d) = ''.dtb''"

definition scan_entry :: "options \<Rightarrow> dir_entry \<Rightarrow> tool_state \<Rightarrow> tool_state option" where
  "scan_entry opts d st =
     (if \<not> is_dtb d then Some st
      else let filename = the (input_dir opts) @ d_name d; ts = getChipInfo (dtc_lines d)
      in if ts = [] then Some st
         else let chip = fresh st; st = alloc_chips ts st
         in if st_size d = None \<or> st_size d = Some 0 then Some st
            else Option.bind (chip_add (chips st) (chip_list st) chip) (\<lambda>(ok, h, l).
                 let st = st\<lparr>chips := h, chip_list := l, rc_ok := ok\<rparr>
                 in if \<not> ok then Some st
                    else let h = chips st;
                             h = h(chip := (h chip)\<lparr>dtb_size := of_nat (padded_size (nat (page_size opts)) (the (st_size d))),
                                                     dtb_file := Some filename\<rparr>)
                         in add_others [chip + 1..<chip + length ts] (st\<lparr>chips := h, dtb_count := dtb_count st + 1\<rparr>)))"

fun scan_dir :: "options \<Rightarrow> dir_entry list \<Rightarrow> tool_state \<Rightarrow> tool_state option" where
  "scan_dir opts [] st = Some st"
| "scan_dir opts (d # ds) st = Option.bind (scan_entry opts d st) (scan_dir opts ds)"

section \<open>The master DTB\<close>

text \<open>No step of the output depends on the result of a \<open>write\<close>, so the data of the calls is computed first, in
  their order.\<close>

definition table_entry :: "nat \<Rightarrow> heap \<times> u64 \<Rightarrow> u8 list list \<times> heap \<times> u64" where
  "table_entry a s =
     (let (h, expected) = s; m = master (h a);
          ident = [bytes_of_word (chipset (h a)), bytes_of_word (platform (h a)), bytes_of_word (revNum (h a))]
      in if master_offset (h m) \<noteq> 0
         then (ident @ [bytes_of_word (master_offset (h m)), bytes_of_word (dtb_size (h m))], h, expected)
         else (ident @ [bytes_of_word (ucast expected), bytes_of_word (dtb_size (h m))],
               h(m := (h m)\<lparr>master_offset := ucast expected\<rparr>), expected + ucast (dtb_size (h m))))"

fun index_table :: "nat list \<Rightarrow> heap \<times> u64 \<Rightarrow> u8 list list \<times> heap \<times> u64" where
  "index_table [] s = ([], s)"
| "index_table (a # as) s =
     (let (ws, s) = table_entry a s; (ws', s) = index_table as s in (ws @ ws', s))"

function chunks :: "nat \<Rightarrow> 'a list \<Rightarrow> 'a list list" where
  "chunks n xs = (if xs = [] \<or> n = 0 then [] else take n xs # chunks n (drop n xs))"
  by pat_completeness auto
termination
  by (relation "measure (\<lambda>(n, xs). length xs)") (auto simp: neq_Nil_conv)

definition COPY_BLK :: nat where "COPY_BLK = 1024"

text \<open>\<open>files\<close> gives the contents behind a name; the flag says whether the loop ran through.\<close>

fun write_dtbs :: "(string \<Rightarrow> u8 list option) \<Rightarrow> nat \<Rightarrow> nat list \<Rightarrow> heap \<Rightarrow> u8 list list \<times> bool" where
  "write_dtbs files page [] h = ([], True)"
| "write_dtbs files page (a # as) h =
     (let m = master (h a)
      in if wroteDtb (h m) then write_dtbs files page as h
         else let h = h(m := (h m)\<lparr>wroteDtb := True\<rparr>)
              in case Option.bind (dtb_file (h m)) files of
                   None \<Rightarrow> ([], False)
                 | Some data \<Rightarrow>
                     let padding = page - length data mod page
                     in if (of_nat (length data + padding) :: u32) \<noteq> dtb_size (h m) then (chunks COPY_BLK data, False)
                        else let (ws, ok) = write_dtbs files page as h
                             in (chunks COPY_BLK data @ (if padding > 0 then [replicate padding 0] else []) @ ws, ok))"

text \<open>A \<open>write\<close> takes the number of bytes \<open>wr\<close> allows after what is already in the file, or fails and returns -1.\<close>

fun do_writes :: "(u8 list \<Rightarrow> u8 list \<Rightarrow> nat option) \<Rightarrow> u8 list list \<Rightarrow> u8 list \<Rightarrow> u64 \<Rightarrow> u8 list \<times> u64" where
  "do_writes wr [] file wrote = (file, wrote)"
| "do_writes wr (w # ws) file wrote =
     (case wr file w of
        None \<Rightarrow> do_writes wr ws file (wrote - 1)
      | Some n \<Rightarrow> do_writes wr ws (file @ take n w) (wrote + of_nat (min n (length w))))"

definition QCDT_MAGIC :: "u8 list" where
  "QCDT_MAGIC = [0x53, 0x50, 0x52, 0x44]"

text \<open>The data of all writes, the final value of \<open>expected\<close> and whether the loops ran through.\<close>

definition master_dtb ::
  "(string \<Rightarrow> u8 list option) \<Rightarrow> nat \<Rightarrow> nat \<Rightarrow> nat list \<Rightarrow> heap \<Rightarrow> u8 list list \<times> u64 \<times> bool" where
  "master_dtb files page cnt as h =
     (let off = 12 + 20 * cnt + 4; padding = page - off mod page; off = off + padding;
          (table, h, expected) = index_table as (h, of_nat off);
          (dtbs, ok) = write_dtbs files page as h
      in ([QCDT_MAGIC, bytes_of_word 1, bytes_of_word (of_nat cnt)] @ table @ [bytes_of_word 0] @
          (if padding > 0 then [replicate padding 0] else []) @ dtbs, expected, ok))"

text \<open>\<open>main\<close> from the parsed options on: the exit status and the output file, \<open>None\<close> when it is removed or was
  not opened.  \<open>old\<close> is what the file held before: it is opened without truncation.  The check of the descriptor
  can never fail, so that a failed \<open>open\<close> shows only in its writes.\<close>

definition dtbtool_main ::
  "options \<Rightarrow> dir_entry list option \<Rightarrow> (string \<Rightarrow> u8 list option) \<Rightarrow> (u8 list \<Rightarrow> u8 list \<Rightarrow> nat option) \<Rightarrow> u8 list \<Rightarrow>
   (bool \<times> u8 list option) option" where
  "dtbtool_main opts dir files wr old =
     (case dir of
        None \<Rightarrow> Some (False, None)
      | Some ds \<Rightarrow>
          Option.bind (scan_dir opts ds \<lparr>chips = \<lambda>_. new_chip 0 (0, 0, 0), chip_list = None, fresh = 0, dtb_count = 0, rc_ok = True\<rparr>) (\<lambda>st.
          if dtb_count st = 0 then Some (rc_ok st, None)
          else Option.bind (chip_chain (chips st) (chip_list st)) (\<lambda>as.
          let (ws, expected, ok) = master_dtb files (nat (page_size opts)) (dtb_count st) as (chips st);
              (file, wrote) = do_writes wr ws [] 0
          in if expected \<noteq> wrote \<or> \<not> ok then Some (False, None)
             else Some (True, Some (file @ drop (length file) old)))))"

declare chip_triples.simps [simp del]

end
