(* ===== verification/ChipList.thy ===== *)
theory ChipList
  imports Dtbtool
begin

text \<open>
  The doubly linked chip list of the DTB combiner as a sorted list without duplicates: \<open>chip_add\<close> refines ordered
  insertion.
\<close>

section \<open>The order of the chips\<close>

datatype chip_key = Chip_key u32 u32 u32

instantiation chip_key :: linorder
begin

fun less_eq_chip_key :: "chip_key \<Rightarrow> chip_key \<Rightarrow> bool" where
  "less_eq_chip_key (Chip_key a b c) (Chip_key x y z) \<longleftrightarrow> a < x \<or> a = x \<and> (b < y \<or> b = y \<and> c \<le> z)"

fun less_chip_key :: "chip_key \<Rightarrow> chip_key \<Rightarrow> bool" where
  "less_chip_key (Chip_key a b c) (Chip_key x y z) \<longleftrightarrow> a < x \<or> a = x \<and> (b < y \<or> b = y \<and> c < z)"

instance
proof
  fix k l m :: chip_key
  show "k < l \<longleftrightarrow> k \<le> l \<and> \<not> l \<le> k" by (cases k; cases l) auto
  show "k \<le> k" by (cases k) simp
  show "k \<le> l \<Longrightarrow> l \<le> m \<Longrightarrow> k \<le> m" by (cases k; cases l; cases m) auto
  show "k \<le> l \<Longrightarrow> l \<le> k \<Longrightarrow> k = l" by (cases k; cases l) auto
  show "k \<le> l \<or> l \<le> k" by (cases k; cases l) auto
qed

end

definition key_of :: "chipInfo_t \<Rightarrow> chip_key" where
  "key_of c = Chip_key (chipset c) (platform c) (revNum c)"

lemma chip_less_key: "chip_less c x \<longleftrightarrow> key_of c < key_of x"
  by (simp add: chip_less_def key_of_def)

lemma chip_same_key: "chip_same c x \<longleftrightarrow> key_of c = key_of x"
  by (simp add: chip_same_def key_of_def)

section \<open>Segments of a linked list\<close>

text \<open>The chips \<open>xs\<close> in a row: the first is \<open>p\<close>, with \<open>pr\<close> before it; the last points to \<open>nx\<close> and is \<open>la\<close>, which is
  \<open>pr\<close> for an empty row.\<close>

fun seg :: "heap \<Rightarrow> nat option \<Rightarrow> nat option \<Rightarrow> nat list \<Rightarrow> nat option \<Rightarrow> nat option \<Rightarrow> bool" where
  "seg h pr p [] nx la \<longleftrightarrow> p = nx \<and> la = pr"
| "seg h pr p (a # as) nx la \<longleftrightarrow> p = Some a \<and> prev_chip (h a) = pr \<and> seg h (Some a) (next_chip (h a)) as nx la"

definition linked :: "heap \<Rightarrow> nat option \<Rightarrow> nat list \<Rightarrow> bool" where
  "linked h p xs \<longleftrightarrow> (\<exists>la. seg h None p xs None la) \<and> distinct xs"

lemma seg_append: "seg h pr p (xs @ ys) nx la \<longleftrightarrow> (\<exists>m l. seg h pr p xs m l \<and> seg h l m ys nx la)"
  by (induction xs arbitrary: pr p) auto

lemma seg_cong:
  "(\<And>a. a \<in> set xs \<Longrightarrow> prev_chip (h' a) = prev_chip (h a) \<and> next_chip (h' a) = next_chip (h a)) \<Longrightarrow>
   seg h' pr p xs nx la \<longleftrightarrow> seg h pr p xs nx la"
  by (induction xs arbitrary: pr p) auto

lemma seg_last: "seg h pr p (xs @ [a]) nx la \<longleftrightarrow> seg h pr p xs (Some a) (prev_chip (h a)) \<and> next_chip (h a) = nx \<and> la = Some a"
  by (auto simp: seg_append)

lemma linked_chain: "seg h pr p xs None la \<Longrightarrow> chip_chain h p = Some xs"
  by (induction xs arbitrary: pr p) (subst chip_chain.simps; auto)+

text \<open>Only the links of a chip change.\<close>

definition same_data :: "heap \<Rightarrow> heap \<Rightarrow> bool" where
  "same_data h h' \<longleftrightarrow> (\<forall>a. h' a = (h a)\<lparr>prev_chip := prev_chip (h' a), next_chip := next_chip (h' a)\<rparr>)"

lemma same_data_refl: "same_data h h"
  by (simp add: same_data_def)

lemma same_data_key: "same_data h h' \<Longrightarrow> key_of (h' a) = key_of (h a)"
proof -
  assume "same_data h h'"
  then have e: "h' a = (h a)\<lparr>prev_chip := prev_chip (h' a), next_chip := next_chip (h' a)\<rparr>"
    unfolding same_data_def by (rule spec)
  show ?thesis
    using arg_cong [OF e, of chipset] arg_cong [OF e, of platform] arg_cong [OF e, of revNum] by (simp add: key_of_def)
qed

section \<open>Ordered insertion\<close>

fun insert_chip :: "(nat \<Rightarrow> chip_key) \<Rightarrow> nat \<Rightarrow> nat list \<Rightarrow> nat list option" where
  "insert_chip key c [] = Some [c]"
| "insert_chip key c (x # xs) =
     (if key c < key x then Some (c # x # xs) else if key c = key x then None
      else map_option (\<lambda>ys. x # ys) (insert_chip key c xs))"

lemma insert_chip_None: "sorted_wrt (<) (map key xs) \<Longrightarrow> insert_chip key c xs = None \<longleftrightarrow> key c \<in> key ` set xs"
  by (induction xs) (auto dest: order_less_trans)

lemma insert_chip_set: "insert_chip key c xs = Some ys \<Longrightarrow> set ys = insert c (set xs) \<and> length ys = length xs + 1"
  by (induction xs arbitrary: ys) (auto split: if_splits)

lemma insert_chip_sorted: "insert_chip key c xs = Some ys \<Longrightarrow> sorted_wrt (<) (map key xs) \<Longrightarrow> sorted_wrt (<) (map key ys)"
proof (induction xs arbitrary: ys)
  case (Cons x xs)
  consider "key c < key x" | "key c = key x" | "key x < key c" by fastforce
  then show ?case
  proof cases
    case 3
    then obtain zs where zs: "insert_chip key c xs = Some zs" "ys = x # zs"
      using Cons.prems(1) less_not_sym [OF 3] less_imp_neq [OF 3] by (auto split: if_splits)
    then have "\<forall>k \<in> key ` set zs. key x < k"
      using insert_chip_set [OF zs(1)] Cons.prems(2) 3 by auto
    then show ?thesis using Cons.IH [OF zs(1)] Cons.prems(2) zs(2) by simp
  next
    case 1
    then have "\<forall>k \<in> key ` set xs. key c < k" using Cons.prems(2) by simp (meson order_less_trans)
    with 1 show ?thesis using Cons.prems by auto
  qed (use Cons.prems in simp)
qed simp

section \<open>Refinement\<close>

lemma insert_between:
  assumes "seg h None l (ps @ x # zs) None la" "distinct (ps @ x # zs)" "c \<notin> set (ps @ x # zs)" "ps = qs @ [y]"
    and "h1 = h(c := (h c)\<lparr>next_chip := Some x\<rparr>)" "h2 = h1(c := (h1 c)\<lparr>prev_chip := prev_chip (h1 x)\<rparr>)"
    and "h3 = h2(y := (h2 y)\<lparr>next_chip := Some c\<rparr>)" "h4 = h3(x := (h3 x)\<lparr>prev_chip := Some c\<rparr>)"
  shows "seg h4 None l (ps @ c # x # zs) None la" "prev_chip (h x) = Some y" "same_data h h4"
proof -
  have s: "seg h None l qs (Some y) (prev_chip (h y))" "next_chip (h y) = Some x" "prev_chip (h x) = Some y"
    "seg h (Some x) (next_chip (h x)) zs None la"
    using assms(1) unfolding assms(4) seg_append [of _ _ _ "qs @ [y]"] seg_last by auto
  have ne: "c \<noteq> x" "c \<noteq> y" "x \<noteq> y" "c \<notin> set qs" "x \<notin> set qs" "y \<notin> set qs" "c \<notin> set zs" "x \<notin> set zs" "y \<notin> set zs"
    using assms(2,3) by (auto simp: assms(4))
  have q: "seg h4 None l qs (Some y) (prev_chip (h y)) \<longleftrightarrow> seg h None l qs (Some y) (prev_chip (h y))"
    "seg h4 (Some x) (next_chip (h x)) zs None la \<longleftrightarrow> seg h (Some x) (next_chip (h x)) zs None la"
    using ne by (auto intro!: seg_cong simp: assms(5-8))
  have f: "next_chip (h4 y) = Some c" "prev_chip (h4 y) = prev_chip (h y)" "prev_chip (h4 c) = Some y"
    "next_chip (h4 c) = Some x" "prev_chip (h4 x) = Some c" "next_chip (h4 x) = next_chip (h x)"
    using ne s by (simp_all add: assms(5-8))
  show "seg h4 None l (ps @ c # x # zs) None la"
    unfolding assms(4) seg_append [of _ _ _ "qs @ [y]"] seg_last using q s f by simp
  show "prev_chip (h x) = Some y" by (rule s(3))
  show "same_data h h4" by (simp add: same_data_def assms(5-8))
qed

lemma insert_first:
  assumes "seg h None l (x # zs) None la" "distinct (x # zs)" "c \<notin> set (x # zs)"
    and "h1 = h(c := (h c)\<lparr>next_chip := Some x\<rparr>)" "h2 = h1(c := (h1 c)\<lparr>prev_chip := None\<rparr>)"
    and "h3 = h2(x := (h2 x)\<lparr>prev_chip := Some c\<rparr>)"
  shows "seg h3 None (Some c) (c # x # zs) None la" "same_data h h3"
proof -
  have ne: "c \<noteq> x" "c \<notin> set zs" "x \<notin> set zs" using assms(2,3) by auto
  then have "seg h3 (Some x) (next_chip (h x)) zs None la \<longleftrightarrow> seg h (Some x) (next_chip (h x)) zs None la"
    by (auto intro!: seg_cong simp: assms(4-6))
  then show "seg h3 None (Some c) (c # x # zs) None la" using assms(1) ne by (simp add: assms(4-6))
  show "same_data h h3" by (simp add: same_data_def assms(4-6))
qed

lemma insert_end:
  assumes "seg h None l (ps @ [x]) None la" "distinct (ps @ [x])" "c \<notin> set (ps @ [x])"
    and "h1 = h(c := (h c)\<lparr>prev_chip := Some x\<rparr>)" "h2 = h1(c := (h1 c)\<lparr>next_chip := None\<rparr>)"
    and "h3 = h2(x := (h2 x)\<lparr>next_chip := Some c\<rparr>)"
  shows "seg h3 None l (ps @ [x, c]) None (Some c)" "same_data h h3"
proof -
  have ne: "c \<noteq> x" "c \<notin> set ps" "x \<notin> set ps" using assms(2,3) by auto
  have s: "seg h None l ps (Some x) (prev_chip (h x))" using assms(1) unfolding seg_last by simp
  have "seg h3 None l ps (Some x) (prev_chip (h x)) \<longleftrightarrow> seg h None l ps (Some x) (prev_chip (h x))"
    using ne by (auto intro!: seg_cong simp: assms(4-6))
  with s ne show "seg h3 None l (ps @ [x, c]) None (Some c)"
    unfolding seg_append by (intro exI conjI) (auto simp: assms(4-6))
  show "same_data h h3" by (simp add: same_data_def assms(4-6))
qed

text \<open>What the loop has to achieve on the list \<open>xs\<close>.\<close>

definition added :: "heap \<Rightarrow> nat option \<Rightarrow> nat \<Rightarrow> nat list \<Rightarrow> nat list option \<Rightarrow> (bool \<times> heap \<times> nat option) option \<Rightarrow> bool" where
  "added h l c ps ys r \<longleftrightarrow>
     (\<exists>ok h' l'. r = Some (ok, h', l') \<and> same_data h h' \<and>
       (case ys of None \<Rightarrow> \<not> ok \<and> h' = h \<and> l' = l | Some ys \<Rightarrow> ok \<and> (\<exists>la'. seg h' None l' (ps @ ys) None la')))"

lemma chip_add_less:
  assumes "seg h None l (ps @ x # zs) None la" "distinct (ps @ x # zs)" "c \<notin> set (ps @ x # zs)"
    and "key_of (h c) < key_of (h x)"
  shows "added h l c ps (Some (c # x # zs)) (chip_add_loop h l c x)"
proof (cases ps rule: rev_cases)
  case Nil
  then have p: "prev_chip (h x) = None" using assms(1) by simp
  show ?thesis
    using insert_first [OF assms(1-3) [unfolded Nil append_Nil] refl refl refl] assms(4) Nil
    by (subst chip_add_loop.simps) (auto simp only: p chip_less_key added_def Let_def if_True option.simps append_Nil)
next
  case (snoc qs y)
  note b = insert_between [OF assms(1-3) snoc refl refl refl refl]
  show ?thesis
    using b(1,3) assms(4)
    by (subst chip_add_loop.simps) (auto simp only: b(2) chip_less_key added_def Let_def if_True option.simps)
qed

lemma chip_add_loop_refines:
  assumes "seg h None l (ps @ x # zs) None la" "distinct (ps @ x # zs)" "c \<notin> set (ps @ x # zs)"
  shows "added h l c ps (insert_chip (\<lambda>a. key_of (h a)) c (x # zs)) (chip_add_loop h l c x)"
  using assms
proof (induction zs arbitrary: ps x)
  case Nil
  have n: "next_chip (h x) = None" using Nil.prems(1) by (simp add: seg_append)
  consider "key_of (h c) < key_of (h x)" | "key_of (h c) = key_of (h x)" | "key_of (h x) < key_of (h c)" by fastforce
  then show ?case
  proof cases
    case 3
    then have "\<not> chip_less (h c) (h x)" "\<not> chip_same (h c) (h x)"
      and ins: "insert_chip (\<lambda>a. key_of (h a)) c [x] = Some [x, c]" by (auto simp: chip_less_key chip_same_key)
    then show ?thesis
      using insert_end [OF Nil.prems refl refl refl] n ins
      by (subst chip_add_loop.simps) (auto simp only: added_def Let_def if_False option.simps if_True)
  next
    case 2
    then show ?thesis
      by (subst chip_add_loop.simps) (simp add: added_def chip_less_key chip_same_key same_data_refl ex_bool_eq)
  qed (simp add: chip_add_less [OF Nil.prems])
next
  case (Cons z zs)
  have n: "next_chip (h x) = Some z" using Cons.prems(1) by (simp add: seg_append)
  consider "key_of (h c) < key_of (h x)" | "key_of (h c) = key_of (h x)" | "key_of (h x) < key_of (h c)" by fastforce
  then show ?case
  proof cases
    case 3
    then have "\<not> chip_less (h c) (h x)" "\<not> chip_same (h c) (h x)" by (auto simp: chip_less_key chip_same_key)
    then have "chip_add_loop h l c x = chip_add_loop h l c z"
      by (subst chip_add_loop.simps) (simp add: n)
    moreover have "added h l c (ps @ [x]) (insert_chip (\<lambda>a. key_of (h a)) c (z # zs)) (chip_add_loop h l c z)"
      by (rule Cons.IH) (use Cons.prems in simp_all)
    moreover have "insert_chip (\<lambda>a. key_of (h a)) c (x # z # zs) =
        map_option (\<lambda>ys. x # ys) (insert_chip (\<lambda>a. key_of (h a)) c (z # zs))"
      using less_not_sym [OF 3] less_imp_neq [OF 3] by (subst insert_chip.simps(2)) auto
    ultimately show ?thesis
      by (cases "insert_chip (\<lambda>a. key_of (h a)) c (z # zs)") (simp_all only: added_def option.simps append_assoc append_Cons append_Nil)
  next
    case 2
    then have "insert_chip (\<lambda>a. key_of (h a)) c (x # z # zs) = None" "\<not> chip_less (h c) (h x)" "chip_same (h c) (h x)"
      by (simp_all add: chip_less_key chip_same_key)
    then show ?thesis
      by (subst chip_add_loop.simps) (simp add: added_def same_data_refl ex_bool_eq)
  qed (simp add: chip_add_less [OF Cons.prems])
qed

lemma chip_add_refines:
  assumes "linked h l xs" "c \<notin> set xs" "sorted_wrt (<) (map (\<lambda>a. key_of (h a)) xs)"
  obtains ok h' l' where "chip_add h l c = Some (ok, h', l')" "same_data h h'"
    "(case insert_chip (\<lambda>a. key_of (h a)) c xs of None \<Rightarrow> \<not> ok \<and> h' = h \<and> l' = l | Some ys \<Rightarrow> ok \<and> linked h' l' ys)"
proof (cases xs)
  case Nil
  then have "l = None" using assms(1) by (simp add: linked_def)
  then show ?thesis
    by (intro that [of True "h(c := (h c)\<lparr>next_chip := None, prev_chip := None\<rparr>)" "Some c"])
      (simp_all add: chip_add_def Nil linked_def same_data_def)
next
  case (Cons x zs)
  obtain la where s: "seg h None l ([] @ x # zs) None la" "distinct ([] @ x # zs)"
    using assms(1) Cons by (auto simp: linked_def)
  have "l = Some x" using s(1) by simp
  have "added h l c [] (insert_chip (\<lambda>a. key_of (h a)) c xs) (chip_add h l c)"
    using chip_add_loop_refines [OF s] assms(2) \<open>l = Some x\<close> by (simp add: chip_add_def Cons)
  then obtain ok h' l' where r: "chip_add h l c = Some (ok, h', l')" "same_data h h'"
    "(case insert_chip (\<lambda>a. key_of (h a)) c xs of None \<Rightarrow> \<not> ok \<and> h' = h \<and> l' = l
      | Some ys \<Rightarrow> ok \<and> (\<exists>la'. seg h' None l' ys None la'))"
    unfolding added_def append_Nil by blast
  have "distinct ys" if "insert_chip (\<lambda>a. key_of (h a)) c xs = Some ys" for ys
    using insert_chip_sorted [OF that assms(3)] by (metis distinct_map strict_sorted_iff)
  then show ?thesis
    by (intro that [OF r(1,2)]) (use r(3) in \<open>auto simp: linked_def split: option.splits\<close>)
qed

end
