(* ===== verification/DtbtoolProps.thy ===== *)
theory DtbtoolProps
  imports ChipList
begin

text \<open>
  The combiner as a whole: the invariant of the directory scan, and what a successful run has written.
\<close>

section \<open>The invariant of the scan\<close>

definition with_file :: "heap \<Rightarrow> nat \<Rightarrow> bool" where
  "with_file h m \<longleftrightarrow> master (h m) = m \<and> dtb_file (h m) \<noteq> None \<and> master_offset (h m) = 0 \<and> \<not> wroteDtb (h m)"

definition scan_inv :: "tool_state \<Rightarrow> nat list \<Rightarrow> bool" where
  "scan_inv st xs \<longleftrightarrow>
     linked (chips st) (chip_list st) xs \<and> sorted_wrt (<) (map (\<lambda>a. key_of (chips st a)) xs) \<and>
     dtb_count st = length xs \<and> (\<forall>a \<in> set xs. a < fresh st) \<and>
     (\<forall>a \<in> set xs. master (chips st a) \<in> set xs \<and> with_file (chips st) (master (chips st a)))"

lemma linked_cong:
  "(\<And>a. a \<in> set xs \<Longrightarrow> prev_chip (h' a) = prev_chip (h a) \<and> next_chip (h' a) = next_chip (h a)) \<Longrightarrow> linked h' l xs \<longleftrightarrow> linked h l xs"
proof -
  assume eq: "\<And>a. a \<in> set xs \<Longrightarrow> prev_chip (h' a) = prev_chip (h a) \<and> next_chip (h' a) = next_chip (h a)"
  have "seg h' None l xs None la \<longleftrightarrow> seg h None l xs None la" for la
    by (rule seg_cong) (rule eq)
  then have "seg h' None l xs None = seg h None l xs None" by (rule ext)
  then show ?thesis unfolding linked_def by (simp only:)
qed

lemma same_data_fields:
  assumes "same_data h h'"
  shows "master (h' a) = master (h a)" "dtb_file (h' a) = dtb_file (h a)" "dtb_size (h' a) = dtb_size (h a)"
    "with_file h' m = with_file h m" "master_offset (h' a) = master_offset (h a)" "wroteDtb (h' a) = wroteDtb (h a)"
proof -
  have e: "h' a = (h a)\<lparr>prev_chip := prev_chip (h' a), next_chip := next_chip (h' a)\<rparr>" for a
    using assms unfolding same_data_def by (rule spec)
  have f: "master (h' a) = master (h a)" "dtb_file (h' a) = dtb_file (h a)" "dtb_size (h' a) = dtb_size (h a)"
    "master_offset (h' a) = master_offset (h a)" "wroteDtb (h' a) = wroteDtb (h a)" for a
    using arg_cong [OF e, of master a] arg_cong [OF e, of dtb_file a] arg_cong [OF e, of dtb_size a]
      arg_cong [OF e, of master_offset a] arg_cong [OF e, of wroteDtb a] by simp_all
  show "master (h' a) = master (h a)" "dtb_file (h' a) = dtb_file (h a)" "dtb_size (h' a) = dtb_size (h a)"
    "master_offset (h' a) = master_offset (h a)" "wroteDtb (h' a) = wroteDtb (h a)" by (rule f)+
  show "with_file h' m = with_file h m" by (simp add: with_file_def f)
qed

text \<open>One call of \<open>chip_add\<close>, on a state whose list is sorted.\<close>

lemma chip_add_inv:
  assumes "scan_inv st xs" "c \<notin> set xs" "c < fresh st"
  obtains ok h l where "chip_add (chips st) (chip_list st) c = Some (ok, h, l)" "same_data (chips st) h"
    "\<not> ok \<Longrightarrow> h = chips st \<and> l = chip_list st"
    "\<And>m. ok \<Longrightarrow> \<exists>ys. linked h l ys \<and> sorted_wrt (<) (map (\<lambda>a. key_of (h a)) ys) \<and> set ys = insert c (set xs) \<and> length ys = length xs + 1"
proof -
  have i: "linked (chips st) (chip_list st) xs" "sorted_wrt (<) (map (\<lambda>a. key_of (chips st a)) xs)"
    using assms(1) by (simp_all add: scan_inv_def)
  obtain ok h l where r: "chip_add (chips st) (chip_list st) c = Some (ok, h, l)" "same_data (chips st) h"
    "(case insert_chip (\<lambda>a. key_of (chips st a)) c xs of
       None \<Rightarrow> \<not> ok \<and> h = chips st \<and> l = chip_list st | Some ys \<Rightarrow> ok \<and> linked h l ys)"
    by (rule chip_add_refines [OF i(1) assms(2) i(2)])
  show ?thesis
  proof (rule that [OF r(1,2)])
    show "\<not> ok \<Longrightarrow> h = chips st \<and> l = chip_list st" using r(3) by (auto split: option.splits)
    assume ok
    then obtain ys where "insert_chip (\<lambda>a. key_of (chips st a)) c xs = Some ys" "linked h l ys"
      using r(3) by (auto split: option.splits)
    then show "\<exists>ys. linked h l ys \<and> sorted_wrt (<) (map (\<lambda>a. key_of (h a)) ys) \<and> set ys = insert c (set xs) \<and> length ys = length xs + 1"
      using insert_chip_sorted i(2) insert_chip_set same_data_key [OF r(2)] by fastforce
  qed
qed

lemma add_others_inv:
  assumes "scan_inv st xs" "\<forall>a \<in> set as. a \<notin> set xs \<and> a < fresh st \<and> master (chips st a) = m" "distinct as"
    and "m \<in> set xs" "with_file (chips st) m"
  shows "\<exists>st' xs'. add_others as st = Some st' \<and> scan_inv st' xs' \<and> fresh st' = fresh st"
  using assms
proof (induction as arbitrary: st xs)
  case (Cons a as)
  obtain ok h l where r: "chip_add (chips st) (chip_list st) a = Some (ok, h, l)" "same_data (chips st) h"
    "\<not> ok \<Longrightarrow> h = chips st \<and> l = chip_list st"
    "ok \<Longrightarrow> \<exists>ys. linked h l ys \<and> sorted_wrt (<) (map (\<lambda>a. key_of (h a)) ys) \<and> set ys = insert a (set xs) \<and> length ys = length xs + 1"
    by (rule chip_add_inv [OF Cons.prems(1), of a]) (use Cons.prems(2) in auto)
  note f = same_data_fields [OF r(2)]
  define st1 where "st1 = (let st = st\<lparr>chips := h, chip_list := l, rc_ok := ok\<rparr>
     in if ok then st\<lparr>dtb_count := dtb_count st + 1\<rparr> else st)"
  have st1: "chips st1 = h" "fresh st1 = fresh st" by (simp_all add: st1_def Let_def)
  obtain ys where ys: "scan_inv st1 ys" "set ys \<subseteq> insert a (set xs)" "set xs \<subseteq> set ys"
  proof (cases ok)
    case False
    then have "scan_inv st1 xs" using r(3) Cons.prems(1) by (simp add: st1_def scan_inv_def)
    then show ?thesis using that by blast
  next
    case True
    then obtain ys where y: "linked h l ys" "sorted_wrt (<) (map (\<lambda>a. key_of (h a)) ys)" "set ys = insert a (set xs)"
      "length ys = length xs + 1" using r(4) by blast
    have "scan_inv st1 ys"
      using Cons.prems y True f by (auto simp: st1_def scan_inv_def Let_def)
    then show ?thesis using that y(3) by blast
  qed
  have "\<exists>st' xs'. add_others as st1 = Some st' \<and> scan_inv st' xs' \<and> fresh st' = fresh st1"
    by (rule Cons.IH [OF ys(1)]) (use Cons.prems ys f st1 in auto)
  then show ?case using r(1) st1(2) by (simp add: st1_def Let_def)
qed auto

lemma alloc_inv: "scan_inv st xs \<Longrightarrow> scan_inv (alloc_chips ts st) xs"
proof -
  assume i: "scan_inv st xs"
  have e: "chips (alloc_chips ts st) a = chips st a" if "a < fresh st" for a
    using that by (simp add: alloc_chips_def)
  have old: "a < fresh st" if "a \<in> set xs" for a using i that by (simp add: scan_inv_def)
  show ?thesis
    unfolding scan_inv_def
  proof (intro conjI ballI)
    have "map (\<lambda>a. key_of (chips (alloc_chips ts st) a)) xs = map (\<lambda>a. key_of (chips st a)) xs"
      using e old by simp
    then show "sorted_wrt (<) (map (\<lambda>a. key_of (chips (alloc_chips ts st) a)) xs)"
      using i unfolding scan_inv_def by (simp only:)
    have "linked (chips (alloc_chips ts st)) (chip_list st) xs \<longleftrightarrow> linked (chips st) (chip_list st) xs"
      by (rule linked_cong) (simp add: e old)
    then show "linked (chips (alloc_chips ts st)) (chip_list (alloc_chips ts st)) xs"
      using i by (simp add: scan_inv_def alloc_chips_def)
    show "dtb_count (alloc_chips ts st) = length xs" using i by (simp add: scan_inv_def alloc_chips_def)
    fix a assume a: "a \<in> set xs"
    show "a < fresh (alloc_chips ts st)" using old [OF a] by (simp add: alloc_chips_def)
    have "master (chips st a) \<in> set xs" "with_file (chips st) (master (chips st a))"
      using i a by (simp_all add: scan_inv_def)
    then show "master (chips (alloc_chips ts st) a) \<in> set xs" "with_file (chips (alloc_chips ts st)) (master (chips (alloc_chips ts st) a))"
      using e old a by (simp_all add: with_file_def)
  qed
qed

lemma scan_entry_inv:
  assumes "scan_inv st xs"
  shows "\<exists>st' xs'. scan_entry opts d st = Some st' \<and> scan_inv st' xs'"
proof -
  define ts where "ts = getChipInfo (dtc_lines d)"
  define c where "c = fresh st"
  define st1 where "st1 = alloc_chips ts st"
  show ?thesis
  proof (cases "\<not> is_dtb d \<or> ts = [] \<or> st_size d = None \<or> st_size d = Some 0")
    case True
    then have "scan_entry opts d st = Some st \<or> scan_entry opts d st = Some st1"
      by (auto simp: scan_entry_def Let_def ts_def st1_def)
    then show ?thesis using assms alloc_inv [OF assms, of ts] unfolding st1_def by blast
  next
    case False
    then obtain n where n: "st_size d = Some n" "n \<noteq> 0" by auto
    have i1: "scan_inv st1 xs" using alloc_inv [OF assms] by (simp add: st1_def)
    have old: "\<forall>a \<in> set xs. a < c" using assms by (simp add: scan_inv_def c_def)
    have fr: "fresh st1 = c + length ts" by (simp add: st1_def alloc_chips_def c_def)
    have new: "master (chips st1 a) = c \<and> master_offset (chips st1 a) = 0 \<and> \<not> wroteDtb (chips st1 a)" if "c \<le> a" "a < c + length ts" for a
      using that by (simp add: st1_def alloc_chips_def c_def new_chip_def)
    obtain ok h l where r: "chip_add (chips st1) (chip_list st1) c = Some (ok, h, l)" "same_data (chips st1) h"
      "\<not> ok \<Longrightarrow> h = chips st1 \<and> l = chip_list st1"
      "ok \<Longrightarrow> \<exists>ys. linked h l ys \<and> sorted_wrt (<) (map (\<lambda>a. key_of (h a)) ys) \<and> set ys = insert c (set xs) \<and> length ys = length xs + 1"
      by (rule chip_add_inv [OF i1, of c]) (use old fr False in auto)
    note f = same_data_fields [OF r(2)]
    define h1 where "h1 = h(c := (h c)\<lparr>dtb_size := of_nat (padded_size (nat (page_size opts)) n), dtb_file := Some (the (input_dir opts) @ d_name d)\<rparr>)"
    define st2 where "st2 = st1\<lparr>chips := h, chip_list := l, rc_ok := ok\<rparr>"
    define st3 where "st3 = st2\<lparr>chips := h1, dtb_count := dtb_count st2 + 1\<rparr>"
    have run: "scan_entry opts d st = (if \<not> ok then Some st2 else add_others [c + 1..<c + length ts] st3)"
      using False n r(1) by (simp add: scan_entry_def Let_def ts_def [symmetric] c_def [symmetric] st1_def [symmetric] st2_def st3_def h1_def)
    show ?thesis
    proof (cases ok)
      case False
      then have "scan_inv st2 xs" using i1 r(3) by (simp add: st2_def scan_inv_def)
      then show ?thesis using run False by auto
    next
      case True
      then obtain ys where y: "linked h l ys" "sorted_wrt (<) (map (\<lambda>a. key_of (h a)) ys)" "set ys = insert c (set xs)"
        "length ys = length xs + 1" using r(4) by blast
      have k: "key_of (h1 a) = key_of (h a)" "prev_chip (h1 a) = prev_chip (h a)" "next_chip (h1 a) = next_chip (h a)"
        "master (h1 a) = master (h a)" for a by (simp_all add: h1_def key_of_def)
      have mc: "master (h c) = c" using f(1) new [of c] False by (simp add: fr \<open>\<not> (\<not> is_dtb d \<or> ts = [] \<or> st_size d = None \<or> st_size d = Some 0)\<close>)
      have "master_offset (h c) = 0" "\<not> wroteDtb (h c)"
        using f(5,6) new [of c] n \<open>\<not> (\<not> is_dtb d \<or> ts = [] \<or> st_size d = None \<or> st_size d = Some 0)\<close> by simp_all
      then have w: "with_file h1 c" by (simp add: with_file_def k(4) mc) (simp add: h1_def)
      have wo: "with_file h1 m" if "with_file h m" for m
        using that w k(4) by (cases "m = c") (auto simp: with_file_def h1_def)
      have "scan_inv st3 ys"
        unfolding scan_inv_def
      proof (intro conjI ballI)
        show "linked (chips st3) (chip_list st3) ys"
          using y(1) linked_cong [of ys h1 h l] k by (simp add: st3_def st2_def)
        show "sorted_wrt (<) (map (\<lambda>a. key_of (chips st3 a)) ys)" using y(2) k by (simp add: st3_def)
        show "dtb_count st3 = length ys" using i1 y(4) by (simp add: st3_def st2_def scan_inv_def)
        fix a assume a: "a \<in> set ys"
        show "a < fresh st3" using a y(3) old fr False n by (auto simp: st3_def st2_def)
        show "master (chips st3 a) \<in> set ys" "with_file (chips st3) (master (chips st3 a))"
          using a y(3) i1 mc w wo f k by (auto simp: st3_def scan_inv_def)
      qed
      moreover have "\<exists>st' xs'. add_others [c + 1..<c + length ts] st3 = Some st' \<and> scan_inv st' xs' \<and> fresh st' = fresh st3"
        if "scan_inv st3 ys"
        by (rule add_others_inv [OF that, where m = c])
          (use y(3) old fr new f k w in \<open>auto simp: st3_def st2_def\<close>)
      ultimately show ?thesis using run True by auto
    qed
  qed
qed

definition start_state :: tool_state where
  "start_state = \<lparr>chips = \<lambda>_. new_chip 0 (0, 0, 0), chip_list = None, fresh = 0, dtb_count = 0, rc_ok = True\<rparr>"

lemma scan_dir_inv: "scan_inv st xs \<Longrightarrow> \<exists>st' xs'. scan_dir opts ds st = Some st' \<and> scan_inv st' xs'"
proof (induction ds arbitrary: st xs)
  case (Cons d ds)
  obtain st1 xs1 where "scan_entry opts d st = Some st1" "scan_inv st1 xs1"
    using scan_entry_inv [OF Cons.prems] by blast
  then show ?case using Cons.IH by simp
qed auto

lemma start_inv: "scan_inv start_state []"
  by (simp add: scan_inv_def start_state_def linked_def)

section \<open>The layout of the master DTB\<close>

text \<open>Offsets are given out in the order in which masters first occur.\<close>

fun layout :: "(nat \<Rightarrow> nat) \<Rightarrow> nat list \<Rightarrow> nat \<Rightarrow> (nat \<Rightarrow> nat option) \<Rightarrow> (nat \<Rightarrow> nat option) \<times> nat" where
  "layout sz [] e off = (off, e)"
| "layout sz (m # ms) e off =
     (if off m = None then layout sz ms (e + sz m) (off(m \<mapsto> e)) else layout sz ms e off)"

lemma layout_mono: "layout sz ms e off = (off', e') \<Longrightarrow> e \<le> e' \<and> (\<forall>m v. off m = Some v \<longrightarrow> off' m = Some v)"
proof (induction ms arbitrary: e off)
  case (Cons m ms)
  show ?case
  proof (cases "off m")
    case None
    then have "layout sz ms (e + sz m) (off(m \<mapsto> e)) = (off', e')" using Cons.prems by simp
    from Cons.IH [OF this] None show ?thesis by (metis add_leD1 fun_upd_other option.distinct(1))
  next
    case (Some v)
    then show ?thesis using Cons.IH Cons.prems by simp
  qed
qed simp

lemma layout_total: "layout sz ms e off = (off', e') \<Longrightarrow> m \<in> set ms \<Longrightarrow> off' m \<noteq> None"
proof (induction ms arbitrary: e off)
  case (Cons a ms)
  obtain e1 off1 where l: "layout sz ms e1 off1 = (off', e')" "off1 a \<noteq> None"
    using Cons.prems(1) by (cases "off a = None") (auto split: if_splits)
  then show ?case using Cons.IH [OF l(1)] Cons.prems(2) layout_mono [OF l(1)] by (cases "m = a") auto
qed simp

lemma ucast_of_nat_64_32: "ucast (of_nat e :: u64) = (of_nat e :: u32)"
  by (simp add: word_unat_eq_iff widen unsigned_of_nat take_bit_eq_mod mod_mod_cancel)

text \<open>Heaps that differ in the fields the output phase sets only.\<close>

definition same_chips :: "heap \<Rightarrow> heap \<Rightarrow> bool" where
  "same_chips h h' \<longleftrightarrow> (\<forall>a. chipset (h' a) = chipset (h a) \<and> platform (h' a) = platform (h a) \<and> revNum (h' a) = revNum (h a) \<and>
     master (h' a) = master (h a) \<and> dtb_size (h' a) = dtb_size (h a) \<and> dtb_file (h' a) = dtb_file (h a))"

definition table_bytes :: "heap \<Rightarrow> (nat \<Rightarrow> nat option) \<Rightarrow> nat \<Rightarrow> u8 list" where
  "table_bytes h off a = bytes_of_word (chipset (h a)) @ bytes_of_word (platform (h a)) @ bytes_of_word (revNum (h a)) @
     bytes_of_word (of_nat (the (off (master (h a))))) @ bytes_of_word (dtb_size (h (master (h a))))"

lemma index_table_layout:
  assumes "same_chips h0 h" "layout (\<lambda>m. unat (dtb_size (h0 m))) (map (\<lambda>a. master (h0 a)) as) e off = (off', e')"
    and "\<forall>m v. off m = Some v \<longrightarrow> master_offset (h m) = of_nat v \<and> 0 < v \<and> v < 2 ^ 32"
    and "\<forall>a \<in> set as. off (master (h0 a)) = None \<longrightarrow> master_offset (h (master (h0 a))) = 0"
    and "0 < e" "e' < 2 ^ 32"
  shows "\<exists>ws h'. index_table as (h, of_nat e) = (ws, h', of_nat e') \<and> concat ws = concat (map (table_bytes h0 off') as) \<and>
    same_chips h0 h' \<and> (\<forall>m. wroteDtb (h' m) = wroteDtb (h m))"
  using assms
proof (induction as arbitrary: h e off)
  case (Cons a as)
  define m where "m = master (h0 a)"
  have ha: "master (h a) = m" "chipset (h a) = chipset (h0 a)" "platform (h a) = platform (h0 a)" "revNum (h a) = revNum (h0 a)"
    "dtb_size (h m) = dtb_size (h0 m)" using Cons.prems(1) by (simp_all add: same_chips_def m_def)
  show ?case
  proof (cases "off m")
    case None
    define h1 where "h1 = h(m := (h m)\<lparr>master_offset := of_nat e\<rparr>)"
    have l: "layout (\<lambda>m. unat (dtb_size (h0 m))) (map (\<lambda>a. master (h0 a)) as) (e + unat (dtb_size (h0 m))) (off(m \<mapsto> e)) = (off', e')"
      using Cons.prems(2) None by (simp add: m_def)
    have mono: "e + unat (dtb_size (h0 m)) \<le> e'" "off' m = Some e" using layout_mono [OF l] by auto
    have s: "same_chips h0 h1" using Cons.prems(1) by (simp add: same_chips_def h1_def)
    have p: "\<forall>k v. (off(m \<mapsto> e)) k = Some v \<longrightarrow> master_offset (h1 k) = of_nat v \<and> 0 < v \<and> v < 2 ^ 32"
      using Cons.prems(3,5,6) mono by (simp add: h1_def)
    have q: "\<forall>a \<in> set as. (off(m \<mapsto> e)) (master (h0 a)) = None \<longrightarrow> master_offset (h1 (master (h0 a))) = 0"
      using Cons.prems(4) by (simp add: h1_def)
    obtain ws h' where r: "index_table as (h1, of_nat (e + unat (dtb_size (h0 m)))) = (ws, h', of_nat e')"
      "concat ws = concat (map (table_bytes h0 off') as)" "same_chips h0 h'" "\<forall>m. wroteDtb (h' m) = wroteDtb (h1 m)"
      using Cons.IH [OF s l p q] Cons.prems(5,6) by auto
    have e: "ucast (of_nat e :: u64) = (of_nat e :: u32)" by (rule ucast_of_nat_64_32)
    have x: "(of_nat e :: u64) + ucast (dtb_size (h0 m)) = of_nat (e + unat (dtb_size (h0 m)))"
      by (simp add: unsigned_def flip: of_nat_unat)
    have "table_entry a (h, of_nat e) = ([bytes_of_word (chipset (h0 a)), bytes_of_word (platform (h0 a)), bytes_of_word (revNum (h0 a)),
        bytes_of_word (of_nat e), bytes_of_word (dtb_size (h0 m))], h1, of_nat (e + unat (dtb_size (h0 m))))"
      using Cons.prems(4) None unfolding table_entry_def Let_def prod.case ha e x [symmetric] by (simp add: m_def h1_def)
    then show ?thesis
      using r mono(2) by (simp add: table_bytes_def [of _ _ a] m_def h1_def)
  next
    case (Some v)
    have l: "layout (\<lambda>m. unat (dtb_size (h0 m))) (map (\<lambda>a. master (h0 a)) as) e off = (off', e')"
      using Cons.prems(2) Some by (simp add: m_def)
    obtain ws h' where r: "index_table as (h, of_nat e) = (ws, h', of_nat e')"
      "concat ws = concat (map (table_bytes h0 off') as)" "same_chips h0 h'" "\<forall>m. wroteDtb (h' m) = wroteDtb (h m)"
      using Cons.IH [OF Cons.prems(1) l] Cons.prems(3-6) by auto
    have v: "master_offset (h m) = of_nat v" "0 < v" "v < 2 ^ 32" using Cons.prems(3) Some by blast+
    then have "unat (master_offset (h m)) = v" by (simp add: unsigned_of_nat take_bit_nat_eq_self)
    then have "master_offset (h m) \<noteq> 0" using v(2) by auto
    then have "table_entry a (h, of_nat e) = ([bytes_of_word (chipset (h0 a)), bytes_of_word (platform (h0 a)), bytes_of_word (revNum (h0 a)),
        bytes_of_word (of_nat v), bytes_of_word (dtb_size (h0 m))], h, of_nat e)"
      unfolding table_entry_def Let_def prod.case ha v(1) by simp
    moreover have "off' m = Some v" using layout_mono [OF l] Some by blast
    ultimately show ?thesis
      using r by (simp add: table_bytes_def [of _ _ a] m_def)
  qed
qed simp

lemma length_table_bytes [simp]: "length (table_bytes h off a) = 20"
  by (simp add: table_bytes_def)

lemma padded_eq: "0 < page \<Longrightarrow> n + (page - n mod page) = page * (n div page + 1)" for n :: nat
proof -
  assume "0 < page"
  then have "page * (n div page) + n mod page = n" "n mod page < page" by simp_all
  then show ?thesis unfolding distrib_left mult_1_right by linarith
qed

lemma concat_chunks: "0 < n \<Longrightarrow> concat (chunks n xs) = xs"
  by (induction n xs rule: chunks.induct) (subst chunks.simps, simp)

declare chunks.simps [simp del]

text \<open>The blocks of the DTBs, when the loop runs through: each starts at its master's offset, counted from \<open>e\<close>.\<close>

lemma write_dtbs_layout:
  assumes "same_chips h0 h" "layout (\<lambda>m. unat (dtb_size (h0 m))) (map (\<lambda>a. master (h0 a)) as) e off = (off', e')"
    and "\<forall>a \<in> set as. wroteDtb (h (master (h0 a))) \<longleftrightarrow> off (master (h0 a)) \<noteq> None"
    and "write_dtbs files page as h = (ws, True)"
    and "\<forall>f data. files f = Some data \<longrightarrow> length data < 2 ^ 31" "page < 2 ^ 31" "0 < page"
    and "page dvd e"
  shows "length (concat ws) = e' - e \<and>
    (\<forall>a \<in> set as. off (master (h0 a)) = None \<longrightarrow> (\<exists>p data. off' (master (h0 a)) = Some p \<and> e \<le> p \<and> page dvd p \<and>
       Option.bind (dtb_file (h0 (master (h0 a)))) files = Some data \<and> take (length data) (drop (p - e) (concat ws)) = data))"
  using assms(1-4,8)
proof (induction as arbitrary: h e off ws)
  case (Cons a as)
  define m where "m = master (h0 a)"
  have ha: "master (h a) = m" "dtb_file (h m) = dtb_file (h0 m)" "dtb_size (h m) = dtb_size (h0 m)"
    using Cons.prems(1) by (simp_all add: same_chips_def m_def)
  show ?case
  proof (cases "off m")
    case (Some v)
    then have "wroteDtb (h m)" using Cons.prems(3) by (simp add: m_def)
    then have "write_dtbs files page as h = (ws, True)" using Cons.prems(4) by (simp add: ha)
    moreover have "layout (\<lambda>m. unat (dtb_size (h0 m))) (map (\<lambda>a. master (h0 a)) as) e off = (off', e')"
      using Cons.prems(2) Some by (simp add: m_def)
    ultimately show ?thesis using Cons.IH [OF Cons.prems(1)] Cons.prems(3,5) Some by (auto simp: m_def)
  next
    case None
    define h1 where "h1 = h(m := (h m)\<lparr>wroteDtb := True\<rparr>)"
    have nw: "\<not> wroteDtb (h m)" using Cons.prems(3) None by (simp add: m_def)
    have f1: "dtb_file (h1 m) = dtb_file (h0 m)" "dtb_size (h1 m) = dtb_size (h0 m)" using ha by (simp_all add: h1_def)
    obtain data where data: "Option.bind (dtb_file (h0 m)) files = Some data"
      using Cons.prems(4) nw by (cases "Option.bind (dtb_file (h0 m)) files") (simp_all add: ha h1_def [symmetric] f1 Let_def)
    define padding where "padding = page - length data mod page"
    have pad: "0 < padding" using assms(7) by (simp add: padding_def)
    have run: "(if (of_nat (length data + padding) :: u32) \<noteq> dtb_size (h0 m) then (chunks COPY_BLK data, False)
        else let (ws, ok) = write_dtbs files page as h1
             in (chunks COPY_BLK data @ [replicate padding 0] @ ws, ok)) = (ws, True)"
      using Cons.prems(4)
      by (simp only: write_dtbs.simps Let_def ha nw if_False h1_def [symmetric] f1 data option.case padding_def [symmetric] pad if_True)
    then have size: "(of_nat (length data + padding) :: u32) = dtb_size (h0 m)" by (metis Pair_inject)
    obtain ws1 where ws1: "write_dtbs files page as h1 = (ws1, True)" "ws = chunks COPY_BLK data @ [replicate padding 0] @ ws1"
      using run size by (auto split: prod.splits)
    obtain f where "files f = Some data" using data by (auto simp: bind_eq_Some_conv)
    then have "length data < 2 ^ 31" "padding \<le> page" using assms(5) by (auto simp: padding_def)
    then have "length data + padding < 2 ^ 32" using assms(6) by simp
    then have sz: "unat (dtb_size (h0 m)) = length data + padding"
      unfolding size [symmetric] by (simp add: unsigned_of_nat take_bit_nat_eq_self del: of_nat_add)
    have l: "layout (\<lambda>m. unat (dtb_size (h0 m))) (map (\<lambda>a. master (h0 a)) as) (e + length data + padding) (off(m \<mapsto> e)) = (off', e')"
      using Cons.prems(2) None sz by (simp add: m_def add.assoc)
    have s: "same_chips h0 h1" using Cons.prems(1) by (simp add: same_chips_def h1_def)
    have w: "\<forall>a \<in> set as. wroteDtb (h1 (master (h0 a))) \<longleftrightarrow> (off(m \<mapsto> e)) (master (h0 a)) \<noteq> None"
      using Cons.prems(3) by (simp add: h1_def)
    have "length data + padding = page * (length data div page + 1)"
      using padded_eq [OF assms(7)] by (simp add: padding_def)
    then have "page dvd length data + padding" by (metis dvd_triv_left)
    then have d: "page dvd e + length data + padding" using Cons.prems(5) by (simp add: add.assoc)
    note IH = Cons.IH [OF s l w ws1(1) d]
    have mono: "e + length data + padding \<le> e'" "off' m = Some e" using layout_mono [OF l] by auto
    have c: "concat ws = data @ replicate padding 0 @ concat ws1"
      by (simp add: ws1(2) concat_chunks COPY_BLK_def)
    have "\<exists>p data. off' (master (h0 b)) = Some p \<and> e \<le> p \<and> page dvd p \<and>
        Option.bind (dtb_file (h0 (master (h0 b)))) files = Some data \<and> take (length data) (drop (p - e) (concat ws)) = data"
      if b: "b \<in> set (a # as)" "off (master (h0 b)) = None" for b
    proof (cases "master (h0 b) = m")
      case True
      then show ?thesis using data mono(2) c Cons.prems(5) by auto
    next
      case False
      then obtain p bs where p: "off' (master (h0 b)) = Some p" "e + length data + padding \<le> p" "page dvd p"
        "Option.bind (dtb_file (h0 (master (h0 b)))) files = Some bs"
        "take (length bs) (drop (p - (e + length data + padding)) (concat ws1)) = bs"
        using IH b by (auto simp: m_def)
      have "p - e = length (data @ replicate padding 0) + (p - (e + length data + padding))" using p(2) by simp
      then have "drop (p - e) (concat ws) = drop (p - (e + length data + padding)) (concat ws1)"
        by (simp only: c append_assoc [symmetric] drop_append) simp
      then show ?thesis using p by auto
    qed
    moreover have "length (concat ws) = e' - e" using IH mono by (simp add: c)
    ultimately show ?thesis by blast
  qed
qed simp

section \<open>Writing\<close>

lemma do_writes_sum:
  "do_writes wr ws out w = (out', w') \<Longrightarrow>
   \<exists>k. w' = w + of_int k \<and> - int (length ws) \<le> k \<and> k \<le> int (length (concat ws)) \<and>
     (k = int (length (concat ws)) \<longrightarrow> out' = out @ concat ws)"
proof (induction ws arbitrary: out w)
  case (Cons x ws)
  show ?case
  proof (cases "wr out x")
    case None
    then obtain k where k: "w' = w - 1 + of_int k" "- int (length ws) \<le> k" "k \<le> int (length (concat ws))"
      using Cons by fastforce
    then show ?thesis by (intro exI [of _ "k - 1"]) auto
  next
    case (Some n)
    then obtain k where k: "w' = w + of_nat (min n (length x)) + of_int k" "- int (length ws) \<le> k" "k \<le> int (length (concat ws))"
      "k = int (length (concat ws)) \<longrightarrow> out' = (out @ take n x) @ concat ws"
      using Cons by fastforce
    have "int (min n (length x)) + k = int (length (concat (x # ws))) \<longrightarrow> out' = out @ concat (x # ws)"
      using k(3,4) by (auto simp: min_def split: if_splits)
    then show ?thesis
      using k by (intro exI [of _ "int (min n (length x)) + k"]) (auto simp: add.assoc)
  qed
qed (auto intro: exI [of _ 0])

lemma do_writes_complete:
  assumes "do_writes wr ws [] 0 = (file, of_nat (length (concat ws)))" "length (concat ws) + length ws < 2 ^ 63"
  shows "file = concat ws"
proof -
  obtain k where k: "of_nat (length (concat ws)) = (of_int k :: u64)" "- int (length ws) \<le> k" "k \<le> int (length (concat ws))"
    "k = int (length (concat ws)) \<longrightarrow> file = concat ws"
    using do_writes_sum [OF assms(1)] by auto
  have "(of_int (int (length (concat ws))) :: u64) = of_int k" using k(1) by simp
  then have "take_bit LENGTH(64) (int (length (concat ws))) = take_bit LENGTH(64) k"
    by (simp only: word_of_int_eq_iff)
  then have "int (length (concat ws)) mod 2 ^ 64 = k mod 2 ^ 64" by (simp add: take_bit_eq_mod)
  then have "2 ^ 64 dvd int (length (concat ws)) - k" by (simp only: mod_eq_dvd_iff)
  moreover have "0 \<le> int (length (concat ws)) - k" "int (length (concat ws)) - k < 2 ^ 64" using k(2,3) assms(2) by auto
  ultimately have "int (length (concat ws)) - k = 0" using zdvd_imp_le [of "2 ^ 64" "int (length (concat ws)) - k"] by linarith
  then show ?thesis using k(4) by simp
qed

lemma chunks_nonempty: "[] \<notin> set (chunks n xs)"
  by (induction n xs rule: chunks.induct) (subst chunks.simps, auto)

lemma write_dtbs_nonempty: "[] \<notin> set (fst (write_dtbs files page as h))"
proof (induction as arbitrary: h)
  case (Cons a as)
  define m where "m = master (h a)"
  define h1 where "h1 = h(m := (h m)\<lparr>wroteDtb := True\<rparr>)"
  obtain ws ok where ws: "write_dtbs files page as h1 = (ws, ok)" by fastforce
  have "[] \<notin> set ws" using Cons.IH [of h1] ws by simp
  then have "[] \<notin> set (fst (write_dtbs files page (a # as) h))"
    unfolding write_dtbs.simps Let_def m_def [symmetric] h1_def [symmetric] ws
    using Cons.IH [of h] chunks_nonempty by (auto split: option.splits)
  then show ?case .
qed simp

lemma table_entry_nonempty: "[] \<notin> set (fst (table_entry a s))"
proof -
  have "bytes_of_word w \<noteq> []" for w by (simp add: bytes_of_word_def)
  then show ?thesis by (cases s) (auto simp: table_entry_def Let_def dest: sym)
qed

lemma index_table_nonempty: "[] \<notin> set (fst (index_table as s))"
proof (induction as arbitrary: s)
  case (Cons a as)
  obtain ws s1 where 1: "table_entry a s = (ws, s1)" by (cases "table_entry a s")
  obtain ws' s2 where 2: "index_table as s1 = (ws', s2)" by (cases "index_table as s1")
  show ?case using table_entry_nonempty [of a s] Cons.IH [of s1] by (simp add: 1 2)
qed simp

lemma length_le_concat: "[] \<notin> set ws \<Longrightarrow> length ws \<le> length (concat ws)"
proof (induction ws)
  case (Cons w ws)
  then show ?case by (cases w) auto
qed simp

text \<open>The first DTB's offset.\<close>

definition first_offset :: "nat \<Rightarrow> nat \<Rightarrow> nat" where
  "first_offset page cnt = padded_size page (16 + 20 * cnt)"

lemma padded_dvd: "0 < page \<Longrightarrow> page dvd padded_size page n"
  unfolding padded_size_def using padded_eq [of page n] by (simp only: dvd_triv_left)

section \<open>A small directory\<close>

definition toy_options :: options where
  "toy_options = \<lparr>input_dir = Some ''d/'', output_file = Some ''o'', dtc_path = Some [], verbose = False, page_size = 16\<rparr>"

definition toy_entry :: dir_entry where
  "toy_entry = \<lparr>d_name = ''a.dtb'', d_reg = True, dtc_lines = Some [''sprd,sc-id = <1 2 3>''], st_size = Some 2\<rparr>"

definition toy_files :: "string \<Rightarrow> u8 list option" where
  "toy_files f = (if f = ''d/a.dtb'' then Some [1, 2] else None)"

definition toy_chip :: chipInfo_t where
  "toy_chip = \<lparr>chipset = 1, platform = 2, revNum = 3, dtb_size = 16, dtb_file = Some ''d/a.dtb'', prev_chip = None,
     next_chip = None, master = 0, wroteDtb = False, master_offset = 0\<rparr>"

lemma toy_tokens:
  "after_first QCDT_DT_TAG ''sprd,sc-id = <1 2 3>'' = Some ''1 2 3>''"
  "chip_token ''1 2 3>'' = Some (1, ''2 3>'')" "chip_token ''2 3>'' = Some (2, ''3>'')" "chip_token ''3>'' = Some (3, [])"
  "chip_token [] = None"
  by (simp_all add: QCDT_DT_TAG_def chip_token_def strtok_def blank_def strtoul0_def signed_text_def char_space_def char_digit_def)

lemma toy_triples: "chip_triples ''1 2 3>'' = [(1, 2, 3)]"
proof -
  have "chip_triple ''1 2 3>'' = Some ((1, 2, 3), [])" "chip_triple [] = None" by (simp_all add: chip_triple_def toy_tokens)
  then show ?thesis by (subst chip_triples.simps) (simp add: chip_triples.simps [of "[]"])
qed

lemma toy_getChipInfo: "getChipInfo (dtc_lines toy_entry) = [(1, 2, 3)]"
  by (simp add: getChipInfo_def toy_entry_def toy_tokens toy_triples del: after_first.simps)

lemma toy_scan:
  obtains st where "scan_dir toy_options [toy_entry] start_state = Some st" "chip_list st = Some 0" "chips st 0 = toy_chip" "dtb_count st = 1"
proof -
  have d: "is_dtb toy_entry" by (simp add: is_dtb_def toy_entry_def)
  have "\<exists>st. scan_entry toy_options toy_entry start_state = Some st \<and> chip_list st = Some 0 \<and> chips st 0 = toy_chip \<and> dtb_count st = 1"
    unfolding scan_entry_def toy_getChipInfo using d
    by (simp add: Let_def alloc_chips_def start_state_def chip_add_def toy_entry_def toy_options_def toy_chip_def new_chip_def padded_size_def)
  then show ?thesis using that by auto
qed

lemma do_writes_full: "do_writes (\<lambda>_ w. Some (length w)) ws out w = (out @ concat ws, w + of_nat (length (concat ws)))"
  by (induction ws arbitrary: out w) (simp_all add: add.assoc)

lemma toy_run:
  obtains out where "dtbtool_main toy_options (Some [toy_entry]) toy_files (\<lambda>_ w. Some (length w)) [] = Some (True, Some out)"
proof -
  obtain st where st: "scan_dir toy_options [toy_entry] start_state = Some st" "chip_list st = Some 0" "chips st 0 = toy_chip" "dtb_count st = 1"
    by (rule toy_scan)
  have c: "chip_chain (chips st) (chip_list st) = Some [0]"
    by (rule linked_chain) (simp add: st toy_chip_def)
  have "\<exists>ws. master_dtb toy_files 16 1 [0] (chips st) = (ws, 64, True) \<and> length (concat ws) = 64"
    by (simp add: master_dtb_def Let_def table_entry_def st toy_chip_def toy_files_def QCDT_MAGIC_def chunks.simps COPY_BLK_def)
  then obtain ws where ws: "master_dtb toy_files 16 1 [0] (chips st) = (ws, 64, True)" "length (concat ws) = 64" by blast
  show ?thesis
    by (rule that, unfold dtbtool_main_def option.case start_state_def [symmetric] st(1) bind.simps)
      (simp add: st(4) c toy_options_def ws [unfolded One_nat_def] do_writes_full)
qed

section \<open>Properties\<close>

text \<open>
  C25: scanning a directory ends, and leaves a well-formed doubly linked list of chips that is strictly sorted by chipset, platform
  and revision, so without duplicates; \<open>dtb_count\<close> is its length, and every chip's master is in it and has a DTB
  file.
\<close>

theorem scan_sorted:
  "\<exists>st xs. scan_dir opts ds start_state = Some st \<and> chip_chain (chips st) (chip_list st) = Some xs \<and>
     linked (chips st) (chip_list st) xs \<and> sorted_wrt (<) (map (\<lambda>a. key_of (chips st a)) xs) \<and> dtb_count st = length xs \<and>
     list_all (\<lambda>a. master (chips st a) \<in> set xs \<and> dtb_file (chips st (master (chips st a))) \<noteq> None) xs"
proof -
  obtain st xs where s: "scan_dir opts ds start_state = Some st" "scan_inv st xs"
    using scan_dir_inv [OF start_inv] by blast
  then have "chip_chain (chips st) (chip_list st) = Some xs"
    by (auto simp: scan_inv_def linked_def intro: linked_chain)
  then show ?thesis
    using s by (intro exI [of _ st] exI [of _ xs]) (auto simp: scan_inv_def with_file_def list_all_iff)
qed

lemma take_drop_inner:
  "take (length data) (drop k xs) = data \<Longrightarrow> take (length data) (drop k (xs @ ys)) = data"
proof -
  assume a: "take (length data) (drop k xs) = data"
  have "length data \<le> length (drop k xs)" using a by (metis length_take min.cobounded2 min.commute)
  then show ?thesis using a by simp
qed

text \<open>What a successful run has written, piece by piece.\<close>

lemma successful_run:
  assumes "dtbtool_main opts (Some ds) files wr old = Some (True, Some out)"
    and "scan_dir opts ds start_state = Some st" "chip_chain (chips st) (chip_list st) = Some as"
    and "0 < page_size opts" "page_size opts \<le> PAGE_SIZE_MAX" "\<forall>f data. files f = Some data \<longrightarrow> length data < 2 ^ 31"
    and "layout (\<lambda>m. unat (dtb_size (chips st m))) (map (\<lambda>a. master (chips st a)) as)
      (first_offset (nat (page_size opts)) (length as)) (\<lambda>_. None) = (off, tot)" "tot < 2 ^ 32"
  obtains tws dws padding where "concat tws = concat (map (table_bytes (chips st) off) as)"
    "out = QCDT_MAGIC @ bytes_of_word 1 @ bytes_of_word (of_nat (length as)) @ concat tws @ bytes_of_word 0 @ replicate padding 0 @
      concat dws @ drop tot old"
    "first_offset (nat (page_size opts)) (length as) = 16 + 20 * length as + padding"
    "first_offset (nat (page_size opts)) (length as) + length (concat dws) = tot"
    "\<forall>a \<in> set as. \<exists>p data. off (master (chips st a)) = Some p \<and>
       first_offset (nat (page_size opts)) (length as) \<le> p \<and> nat (page_size opts) dvd p \<and>
       Option.bind (dtb_file (chips st (master (chips st a)))) files = Some data \<and>
       take (length data) (drop (p - first_offset (nat (page_size opts)) (length as)) (concat dws)) = data"
proof -
  define h where "h = chips st"
  define page where "page = nat (page_size opts)"
  define n where "n = length as"
  define base where "base = first_offset page n"
  define padding where "padding = page - (16 + 20 * n) mod page"
  have page: "0 < page" "page < 2 ^ 31" using assms(4,5) by (auto simp: page_def PAGE_SIZE_MAX_def)
  obtain xs where "scan_inv st xs" using scan_dir_inv [OF start_inv] assms(2) by (metis option.inject)
  moreover from this have "xs = as" using assms(3) by (auto simp: scan_inv_def linked_def dest: linked_chain)
  ultimately have inv: "scan_inv st as" by simp
  have cnt: "dtb_count st = n" using inv by (simp add: scan_inv_def n_def)
  have mast: "master_offset (h (master (h a))) = 0 \<and> \<not> wroteDtb (h (master (h a)))" if "a \<in> set as" for a
    using inv that by (simp add: scan_inv_def with_file_def h_def)
  have base: "base = 16 + 20 * n + padding" "0 < padding" "page dvd base"
    using padded_dvd [OF page(1)] page(1) by (simp_all add: base_def first_offset_def padded_size_def padding_def)
  then have base0: "0 < base" by simp
  have l: "layout (\<lambda>m. unat (dtb_size (h m))) (map (\<lambda>a. master (h a)) as) base (\<lambda>_. None) = (off, tot)"
    using assms(7) by (simp add: h_def base_def page_def n_def)
  obtain tws h1 where t: "index_table as (h, of_nat base) = (tws, h1, of_nat tot)" "concat tws = concat (map (table_bytes h off) as)"
    "same_chips h h1" "\<forall>m. wroteDtb (h1 m) = wroteDtb (h m)"
    using index_table_layout [OF _ l, of h] mast base0 assms(8) by (auto simp: same_chips_def)
  obtain dws ok where d: "write_dtbs files page as h1 = (dws, ok)" by fastforce
  define ws where "ws = [QCDT_MAGIC, bytes_of_word 1, bytes_of_word (of_nat n)] @ tws @ [bytes_of_word 0] @ [replicate padding 0] @ dws"
  have off16: "12 + 20 * n + 4 = 16 + 20 * n" by simp
  have ms: "master_dtb files page n as h = (ws, of_nat tot, ok)"
    unfolding master_dtb_def Let_def off16 padding_def [symmetric] base(1) [symmetric] t(1) prod.case d
    using base(2) by (simp add: ws_def)
  obtain f w where f: "do_writes wr ws [] 0 = (f, w)" by fastforce
  have r: "ok" "w = of_nat tot" "out = f @ drop (length f) old"
    using assms(1,3) f ms unfolding dtbtool_main_def option.case start_state_def [symmetric] assms(2) bind.simps
    by (auto simp: cnt h_def [symmetric] page_def [symmetric] split: if_splits)
  have body: "length (concat dws) = tot - base \<and>
    (\<forall>a \<in> set as. (None :: nat option) = None \<longrightarrow> (\<exists>p data. off (master (h a)) = Some p \<and> base \<le> p \<and> page dvd p \<and>
       Option.bind (dtb_file (h (master (h a)))) files = Some data \<and> take (length data) (drop (p - base) (concat dws)) = data))"
    by (rule write_dtbs_layout [OF t(3) l _ _ assms(6) page(2,1) base(3)]) (use mast t(4) d r(1) in simp_all)
  have le: "base \<le> tot" using layout_mono [OF l] by simp
  have tl: "length (concat tws) = 20 * n" by (simp add: t(2) length_concat comp_def sum_list_triv n_def)
  have tot: "length (concat ws) = tot"
    using body le base(1) tl by (simp add: ws_def QCDT_MAGIC_def)
  have "[] \<notin> set ws"
    using index_table_nonempty [of as "(h, of_nat base)"] write_dtbs_nonempty [of files page as h1] t(1) d base(2)
    by (auto simp: ws_def QCDT_MAGIC_def bytes_of_word_def)
  then have "f = concat ws"
    using do_writes_complete [of wr ws f] f r(2) length_le_concat [of ws] tot assms(8) by simp
  then have out: "out = QCDT_MAGIC @ bytes_of_word 1 @ bytes_of_word (of_nat n) @ concat tws @ bytes_of_word 0 @ replicate padding 0 @
      concat dws @ drop tot old"
    using r(3) tot by (simp add: ws_def)
  show thesis
    by (rule that [of tws padding dws]) (use t(2) out base(1) body le in \<open>simp_all add: h_def page_def n_def base_def\<close>)
qed

text \<open>
  C26: a run that reports success has written a complete and consistent master DTB: behind the magic number, version and count
  comes one 20-byte record for each chip in order, and the offset in each record is a multiple of the page size at which the output
  file holds the contents of the DTB file of the chip's master.  A short or failed write, a missing file or a changed
  size never passes for success.
\<close>

theorem success_is_complete:
  assumes "dtbtool_main opts (Some ds) files wr old = Some (True, Some out)"
    and "scan_dir opts ds start_state = Some st" "chip_chain (chips st) (chip_list st) = Some as"
    and "0 < page_size opts" "page_size opts \<le> PAGE_SIZE_MAX" "\<forall>f data. files f = Some data \<longrightarrow> length data < 2 ^ 31"
    and "layout (\<lambda>m. unat (dtb_size (chips st m))) (map (\<lambda>a. master (chips st a)) as)
      (first_offset (nat (page_size opts)) (length as)) (\<lambda>_. None) = (off, tot)" "tot < 2 ^ 32"
  shows "take (12 + 20 * length as) out = QCDT_MAGIC @ bytes_of_word 1 @ bytes_of_word (of_nat (length as)) @
      concat (map (table_bytes (chips st) off) as) \<and> tot \<le> length out \<and>
    (\<forall>a \<in> set as. \<exists>p data. off (master (chips st a)) = Some p \<and> nat (page_size opts) dvd p \<and>
       Option.bind (dtb_file (chips st (master (chips st a)))) files = Some data \<and> take (length data) (drop p out) = data)"
proof -
  define h where "h = chips st"
  define n where "n = length as"
  define base where "base = first_offset (nat (page_size opts)) n"
  obtain tws dws padding where t: "concat tws = concat (map (table_bytes h off) as)"
    and out: "out = QCDT_MAGIC @ bytes_of_word 1 @ bytes_of_word (of_nat n) @ concat tws @ bytes_of_word 0 @ replicate padding 0 @
      concat dws @ drop tot old"
    and base: "base = 16 + 20 * n + padding" "base + length (concat dws) = tot"
    and dtbs: "\<forall>a \<in> set as. \<exists>p data. off (master (h a)) = Some p \<and> base \<le> p \<and> nat (page_size opts) dvd p \<and>
       Option.bind (dtb_file (h (master (h a)))) files = Some data \<and> take (length data) (drop (p - base) (concat dws)) = data"
    unfolding h_def n_def base_def by (rule successful_run [OF assms])
  have tl: "length (concat tws) = 20 * n" by (simp add: t length_concat comp_def sum_list_triv n_def)
  define hd where "hd = QCDT_MAGIC @ bytes_of_word 1 @ bytes_of_word (of_nat n) @ concat tws"
  define mid where "mid = bytes_of_word 0 @ replicate padding 0"
  have len: "length hd = 12 + 20 * n" "length (hd @ mid) = base"
    using tl by (simp_all add: hd_def mid_def QCDT_MAGIC_def base(1))
  have parts: "out = hd @ mid @ concat dws @ drop tot old" by (simp add: out hd_def mid_def)
  have "take (12 + 20 * n) out = hd" using len(1) by (simp add: parts)
  moreover have "tot \<le> length out" using len(2) base(2) by (simp add: parts)
  moreover have skip: "drop p out = drop (p - base) (concat dws @ drop tot old)" if "base \<le> p" for p
    using len(2) that by (simp add: parts flip: append_assoc)
  moreover have "\<exists>p data. off (master (h a)) = Some p \<and> nat (page_size opts) dvd p \<and>
      Option.bind (dtb_file (h (master (h a)))) files = Some data \<and> take (length data) (drop p out) = data" if "a \<in> set as" for a
  proof -
    obtain p data where p: "off (master (h a)) = Some p" "base \<le> p" "nat (page_size opts) dvd p"
      "Option.bind (dtb_file (h (master (h a)))) files = Some data" "take (length data) (drop (p - base) (concat dws)) = data"
      using dtbs \<open>a \<in> set as\<close> by blast
    have "take (length data) (drop p out) = data" unfolding skip [OF p(2)] by (rule take_drop_inner [OF p(5)])
    then show ?thesis using p by blast
  qed
  ultimately show ?thesis by (simp add: hd_def t h_def n_def)
qed

theorem success_is_complete_witness:
  "\<exists>st out off. dtbtool_main toy_options (Some [toy_entry]) toy_files (\<lambda>_ w. Some (length w)) [] = Some (True, Some out) \<and>
    scan_dir toy_options [toy_entry] start_state = Some st \<and> 64 \<le> length out \<and>
    take 32 out = QCDT_MAGIC @ bytes_of_word 1 @ bytes_of_word 1 @ table_bytes (chips st) off 0 \<and>
    (\<exists>p data. off 0 = Some p \<and> 16 dvd p \<and> data = [1, 2] \<and> take (length data) (drop p out) = data)"
proof -
  obtain st where st: "scan_dir toy_options [toy_entry] start_state = Some st" "chip_list st = Some 0" "chips st 0 = toy_chip" "dtb_count st = 1"
    by (rule toy_scan)
  obtain out where out: "dtbtool_main toy_options (Some [toy_entry]) toy_files (\<lambda>_ w. Some (length w)) [] = Some (True, Some out)"
    by (rule toy_run)
  have c: "chip_chain (chips st) (chip_list st) = Some [0]"
    by (rule linked_chain) (simp add: st toy_chip_def)
  have f: "\<forall>f data. toy_files f = Some data \<longrightarrow> length data < 2 ^ 31" by (simp add: toy_files_def)
  have l: "layout (\<lambda>m. unat (dtb_size (chips st m))) (map (\<lambda>a. master (chips st a)) [0])
      (first_offset (nat (page_size toy_options)) (length [0 :: nat])) (\<lambda>_. None) = ([0 \<mapsto> 48], 64)"
    by (simp add: st toy_chip_def toy_options_def first_offset_def padded_size_def)
  have "take (12 + 20 * length [0 :: nat]) out = QCDT_MAGIC @ bytes_of_word 1 @ bytes_of_word (of_nat (length [0 :: nat])) @
      concat (map (table_bytes (chips st) [0 \<mapsto> 48]) [0]) \<and> 64 \<le> length out \<and>
    (\<forall>a \<in> set [0]. \<exists>p data. [0 \<mapsto> 48] (master (chips st a)) = Some p \<and> nat (page_size toy_options) dvd p \<and>
       Option.bind (dtb_file (chips st (master (chips st a)))) toy_files = Some data \<and> take (length data) (drop p out) = data)"
    by (rule success_is_complete [OF out st(1) c _ _ f l]) (simp_all add: toy_options_def PAGE_SIZE_MAX_def)
  then show ?thesis
    using out st by (intro exI [of _ st] exI [of _ out] exI [of _ "[0 \<mapsto> 48]"])
      (simp add: toy_chip_def toy_options_def toy_files_def)
qed

end
