(* ===== verification/AtParser.thy ===== *)
theory AtParser
  imports CText
begin

text \<open>
  The AT response parser, \<^verbatim>\<open>libs/aGPS/lib/parser.c\<close>.  It works in place: a token ends
  where \<open>strsep\<close> has overwritten a delimiter with a zero character, so the line is a buffer and a pointer into it
  an index, \<open>None\<close> for the null pointer.  The lemmas show that on a terminated line the parser computes what
  \<open>next_token\<close> does on the text alone, and what it leaves of the line.
\<close>

section \<open>Terminated strings in a buffer\<close>

abbreviation NUL :: char where "NUL \<equiv> CHR 0x00"

definition c_string :: "char list \<Rightarrow> nat \<Rightarrow> string" where
  "c_string buf i = takeWhile (\<lambda>c. c \<noteq> NUL) (drop i buf)"

definition strsep :: "char \<Rightarrow> char list \<Rightarrow> nat option \<Rightarrow> char list \<times> nat option \<times> nat option" where
  "strsep delim buf cur =
     (case cur of
        None \<Rightarrow> (buf, None, None)
      | Some i \<Rightarrow>
          let s = c_string buf i; n = length (takeWhile (\<lambda>c. c \<noteq> delim) s)
          in if n = length s then (buf, None, Some i) else (buf[i + n := NUL], Some (i + n + 1), Some i))"

text \<open>\<open>strtol (s, NULL, 10)\<close> with the 32-bit \<open>long\<close> of the device.\<close>

definition strtol10 :: "string \<Rightarrow> int" where
  "strtol10 s = max (- (2 ^ 31)) (min (2 ^ 31 - 1) (atoi s))"

section \<open>parser.c\<close>

fun strStartsWith :: "string \<Rightarrow> string \<Rightarrow> bool" where
  "strStartsWith line [] = True"
| "strStartsWith [] (p # prefix) = False"
| "strStartsWith (c # line) (p # prefix) = (if c \<noteq> p then False else strStartsWith line prefix)"

text \<open>\<open>strncmp (dst, src, strlen (src))\<close> compares the first characters with all of \<open>src\<close>.\<close>

fun find_loop :: "string \<Rightarrow> string \<Rightarrow> int \<Rightarrow> int" where
  "find_loop [] src index = -1"
| "find_loop (c # dst) src index =
     (if take (length src) (c # dst) = src then index else find_loop dst src (index + 1))"

definition FindString :: "string option \<Rightarrow> string option \<Rightarrow> int" where
  "FindString dst src = (case (dst, src) of (Some dst, Some src) \<Rightarrow> find_loop dst src 0 | _ \<Rightarrow> -1)"

definition at_tok_start :: "char list \<Rightarrow> nat option \<Rightarrow> int \<times> nat option" where
  "at_tok_start buf cur =
     (let ret = FindString (map_option (c_string buf) cur) (Some '':'')
      in if ret < 0 then (-1, cur) else (0, map_option (\<lambda>i. i + nat ret + 1) cur))"

definition get_current_tok :: "char list \<Rightarrow> nat option \<Rightarrow> char list \<times> nat option \<times> nat option" where
  "get_current_tok buf cur =
     (case cur of
        None \<Rightarrow> (buf, None, None)
      | Some i \<Rightarrow>
          let i = i + length (takeWhile char_space (c_string buf i)); s = c_string buf i
          in if strStartsWith s [CHR 0x22]
             then let (buf, cur, tmp) = strsep (CHR 0x22) buf (Some (i + 1)); (buf, cur, _) = strsep (CHR '','') buf cur
                  in (buf, cur, tmp)
             else if strStartsWith s [CHR 0x0A]
             then let (buf, cur, tmp) = strsep (CHR 0x0A) buf (Some (i + 1)); (buf, cur, _) = strsep (CHR '','') buf cur
                  in (buf, cur, tmp)
             else strsep (CHR '','') buf (Some i))"

text \<open>The result comes with the new \<open>*ppOut\<close>, \<open>None\<close> where it is not written.\<close>

definition parse_nextint :: "char list \<Rightarrow> nat option \<Rightarrow> int \<times> char list \<times> nat option \<times> u32 option" where
  "parse_nextint buf cur =
     (if cur = None then (-1, buf, cur, None)
      else case get_current_tok buf cur of
             (buf, cur, None) \<Rightarrow> (-2, buf, cur, None)
           | (buf, cur, Some p) \<Rightarrow> (0, buf, cur, Some (of_int (strtol10 (c_string buf p)))))"

definition parse_nextstr :: "char list \<Rightarrow> nat option \<Rightarrow> int \<times> char list \<times> nat option \<times> nat option" where
  "parse_nextstr buf cur = (let (buf, cur, tmp) = get_current_tok buf cur in (0, buf, cur, tmp))"

definition SemiByteCharsToByte :: "char \<Rightarrow> char \<Rightarrow> u8" where
  "SemiByteCharsToByte chHigh chLow =
     (let hi = of_char chHigh :: nat; lo = of_char chLow :: nat;
          h = (if of_char (CHR ''0'') \<le> hi \<and> hi \<le> of_char (CHR ''9'') then push_bit 4 (of_char chHigh - of_char (CHR ''0''))
               else if of_char (CHR ''A'') \<le> hi \<and> hi \<le> of_char (CHR ''F'')
               then push_bit 4 (10 + of_char chHigh - of_char (CHR ''A''))
               else push_bit 4 (10 + of_char chHigh - of_char (CHR ''a''))) :: u8;
          l = (if of_char (CHR ''0'') \<le> lo \<and> lo \<le> of_char (CHR ''9'') then of_char chLow - of_char (CHR ''0'')
               else if of_char (CHR ''A'') \<le> lo \<and> lo \<le> of_char (CHR ''F'')
               then 10 + of_char chLow - of_char (CHR ''A'')
               else 10 + of_char chLow - of_char (CHR ''a'')) :: u8
      in h OR l)"

fun gsm_loop :: "string \<Rightarrow> nat \<Rightarrow> u8 list" where
  "gsm_loop (h # l # cs) (Suc n) = SemiByteCharsToByte h l # gsm_loop cs n"
| "gsm_loop _ _ = []"

text \<open>The number of bytes and the output buffer with them.\<close>

definition GSMHexToGSM :: "string \<Rightarrow> nat \<Rightarrow> u8 list \<Rightarrow> nat \<Rightarrow> (int \<times> u8 list) option" where
  "GSMHexToGSM sIn cbIn out cbOut =
     (let bs = gsm_loop (take cbIn sIn) cbOut in map_option (\<lambda>out. (int (length bs), out)) (mem_write out 0 bs))"


section \<open>The parser on text\<close>

text \<open>The next token and what follows its comma, if there is one.\<close>

definition behind :: "char \<Rightarrow> string \<Rightarrow> string option" where
  "behind d s = (if d \<in> set s then Some (tl (dropWhile (\<lambda>c. c \<noteq> d) s)) else None)"

definition next_token :: "string \<Rightarrow> string \<times> string option" where
  "next_token s =
     (let s = dropWhile char_space s
      in if strStartsWith s [CHR 0x22]
         then (takeWhile (\<lambda>c. c \<noteq> CHR 0x22) (tl s), Option.bind (behind (CHR 0x22) (tl s)) (behind (CHR '','')))
         else (takeWhile (\<lambda>c. c \<noteq> CHR '','') s, behind (CHR '','') s))"

text \<open>A pointer into a terminated line, and the text behind it.\<close>

definition reads :: "char list \<Rightarrow> nat option \<Rightarrow> string option \<Rightarrow> bool" where
  "reads buf cur rest \<longleftrightarrow>
     (case cur of None \<Rightarrow> rest = None
      | Some i \<Rightarrow> rest = Some (c_string buf i) \<and> NUL \<in> set (drop i buf))"

lemma reads_None [simp]: "reads buf None rest \<longleftrightarrow> rest = None"
  by (simp add: reads_def)

lemma c_string_at: "NUL \<notin> set s \<Longrightarrow> c_string (pre @ s @ NUL # post) (length pre) = s"
  by (auto simp: c_string_def takeWhile_append)

lemma reads_at: "NUL \<notin> set s \<Longrightarrow> i = length pre \<Longrightarrow> reads (pre @ s @ NUL # post) (Some i) (Some s)"
  by (simp add: reads_def c_string_at)

lemma reads_Some:
  assumes "reads buf cur (Some s)"
  obtains pre post where "cur = Some (length pre)" "buf = pre @ s @ NUL # post" "NUL \<notin> set s"
proof -
  from assms obtain i where i: "cur = Some i" "s = c_string buf i" "NUL \<in> set (drop i buf)"
    by (auto simp: reads_def split: option.splits)
  from split_list_first [OF i(3)] obtain a b where d: "drop i buf = a @ NUL # b" "NUL \<notin> set a" by blast
  then have "i < length buf" by (metis append_is_Nil_conv drop_all leI list.distinct(1))
  moreover have "s = a" using i(2) d by (auto simp: c_string_def takeWhile_append)
  moreover have "buf = take i buf @ a @ NUL # b" by (metis append_take_drop_id d(1))
  ultimately show ?thesis using that [of "take i buf" b] i(1) d(2) by simp
qed

lemma strsep_missing:
  "NUL \<notin> set s \<Longrightarrow> d \<notin> set s \<Longrightarrow>
   strsep d (pre @ s @ NUL # post) (Some (length pre)) = (pre @ s @ NUL # post, None, Some (length pre))"
proof -
  assume a: "NUL \<notin> set s" "d \<notin> set s"
  have w: "takeWhile (\<lambda>c. c \<noteq> d) s = s" using a(2) by (rule_tac takeWhile_eq_all_conv [THEN iffD2]) blast
  show ?thesis by (simp only: strsep_def c_string_at [OF a(1)] option.case Let_def w) simp
qed

lemma strsep_found:
  "NUL \<notin> set t \<Longrightarrow> NUL \<notin> set r \<Longrightarrow> d \<noteq> NUL \<Longrightarrow> d \<notin> set t \<Longrightarrow>
   strsep d (pre @ (t @ d # r) @ NUL # post) (Some (length pre)) =
     (pre @ t @ NUL # (r @ NUL # post), Some (length pre + length t + 1), Some (length pre))"
proof -
  assume a: "NUL \<notin> set t" "NUL \<notin> set r" "d \<noteq> NUL" "d \<notin> set t"
  then have "c_string (pre @ (t @ d # r) @ NUL # post) (length pre) = t @ d # r" by (intro c_string_at) auto
  moreover have "takeWhile (\<lambda>c. c \<noteq> d) (t @ d # r) = t" using a(4) by (auto simp: takeWhile_append)
  ultimately show ?thesis by (simp add: strsep_def list_update_append)
qed

text \<open>\<open>strsep\<close> splits the text at the first delimiter and touches nothing before it.\<close>

lemma strsep_reads:
  assumes "reads buf cur (Some s)" "d \<noteq> NUL"
  shows "\<exists>buf' cur' p. strsep d buf cur = (buf', cur', Some p) \<and> cur = Some p \<and>
    c_string buf' p = takeWhile (\<lambda>c. c \<noteq> d) s \<and> reads buf' cur' (behind d s) \<and>
    length buf' = length buf \<and> take p buf' = take p buf \<and>
    (\<forall>q. cur' = Some q \<longrightarrow> p < q \<and> NUL \<in> set (drop p (take q buf')))"
proof -
  from assms(1) obtain pre post where c: "cur = Some (length pre)" "buf = pre @ s @ NUL # post" "NUL \<notin> set s"
    by (rule reads_Some)
  show ?thesis
  proof (cases "d \<in> set s")
    case False
    then have w: "takeWhile (\<lambda>c. c \<noteq> d) s = s" by (rule_tac takeWhile_eq_all_conv [THEN iffD2]) blast
    show ?thesis using strsep_missing [OF c(3) False, of pre post] c_string_at [OF c(3), of pre post] False
      by (simp only: c behind_def w) simp
  next
    case True
    from split_list_first [OF this] obtain t r where s: "s = t @ d # r" "d \<notin> set t" by blast
    then have w: "takeWhile (\<lambda>c. c \<noteq> d) s = t" "dropWhile (\<lambda>c. c \<noteq> d) s = d # r"
      by (auto simp: takeWhile_append dropWhile_append)
    have n: "NUL \<notin> set t" "NUL \<notin> set r" using c(3) s(1) by auto
    have "reads ((pre @ t @ [NUL]) @ r @ NUL # post) (Some (length pre + length t + 1)) (Some r)"
      using n(2) by (intro reads_at) simp_all
    moreover have "c_string (pre @ t @ NUL # (r @ NUL # post)) (length pre) = t" using n(1) by (rule c_string_at)
    ultimately show ?thesis
      using strsep_found [OF n assms(2) s(2), of pre post] c(1,2) s(1) w True by (simp add: behind_def)
  qed
qed

lemma c_string_prefix:
  assumes "NUL \<in> set (drop p (take q b))" "take q b' = take q b"
  shows "c_string b' p = c_string b p"
proof -
  have *: "c_string b p = takeWhile (\<lambda>c. c \<noteq> NUL) (drop p (take q b))" if "NUL \<in> set (drop p (take q b))" for b
  proof -
    have "p \<le> q" using that by (cases "p \<le> q") simp_all
    then have "drop p b = drop p (take q b) @ drop q b"
      using append_take_drop_id [of "q - p" "drop p b"] by (simp add: drop_take)
    then show ?thesis using that by (simp add: c_string_def takeWhile_append1 [of NUL])
  qed
  show ?thesis using * [of b] * [of b'] assms by simp
qed

lemma reads_skip:
  assumes "reads buf (Some i) (Some s)"
  shows "reads buf (Some (i + length (takeWhile P s))) (Some (dropWhile P s))"
proof -
  from assms obtain pre post where c: "i = length pre" "buf = pre @ s @ NUL # post" "NUL \<notin> set s"
    by (rule reads_Some) simp
  have "NUL \<notin> set (dropWhile P s)" using c(3) by (meson set_dropWhileD)
  then have "reads ((pre @ takeWhile P s) @ dropWhile P s @ NUL # post) (Some (i + length (takeWhile P s))) (Some (dropWhile P s))"
    using c(1) by (intro reads_at) simp_all
  moreover have "(pre @ takeWhile P s) @ dropWhile P s @ NUL # post = buf" using c(2) by simp
  ultimately show ?thesis by simp
qed

lemma reads_tl: "reads buf (Some i) (Some (c # s)) \<Longrightarrow> reads buf (Some (i + 1)) (Some s)"
proof -
  assume "reads buf (Some i) (Some (c # s))"
  then obtain pre post where p: "i = length pre" "buf = pre @ (c # s) @ NUL # post" "NUL \<notin> set (c # s)"
    by (rule reads_Some) simp
  then have "reads ((pre @ [c]) @ s @ NUL # post) (Some (i + 1)) (Some s)" by (intro reads_at) simp_all
  with p(2) show ?thesis by simp
qed

lemma starts_char: "strStartsWith s [c] \<longleftrightarrow> (\<exists>t. s = c # t)"
  by (cases s) auto

text \<open>The newline branch is never taken: a newline is white space.\<close>

lemma no_newline: "\<not> strStartsWith (dropWhile char_space s) [CHR 0x0A]"
proof
  assume "strStartsWith (dropWhile char_space s) [CHR 0x0A]"
  then obtain t where "dropWhile char_space s = CHR 0x0A # t" unfolding starts_char ..
  then have "\<not> char_space (CHR 0x0A)" unfolding dropWhile_eq_Cons_conv by (rule conjunct2)
  then show False by (simp add: char_space_def)
qed


lemma get_current_tok_reads:
  assumes "reads buf cur (Some s)"
  shows "\<exists>buf' cur' p. get_current_tok buf cur = (buf', cur', Some p) \<and>
    c_string buf' p = fst (next_token s) \<and> reads buf' cur' (snd (next_token s)) \<and>
    length buf' = length buf \<and> (\<forall>i. cur = Some i \<longrightarrow> i \<le> p \<and> take i buf' = take i buf)"
proof -
  from assms obtain i where i: "cur = Some i" by (cases cur) auto
  define j where "j = i + length (takeWhile char_space s)"
  define u where "u = dropWhile char_space s"
  have s: "c_string buf i = s" using assms i by (simp add: reads_def)
  have u: "reads buf (Some j) (Some u)" using reads_skip [of buf i s] assms i by (simp add: j_def u_def)
  then have u_at: "c_string buf j = u" by (simp add: reads_def)
  have pre: "take i b' = take i b" if "take q b' = take q b" "i \<le> q" for q :: nat and b b' :: "char list"
    using that by (metis min.absorb1 take_take)
  show ?thesis
  proof (cases "strStartsWith u [CHR 0x22]")
    case False
    from strsep_reads [OF u, of "CHR '',''"] obtain buf' cur' where
      "strsep (CHR '','') buf (Some j) = (buf', cur', Some j)" "c_string buf' j = takeWhile (\<lambda>c. c \<noteq> CHR '','') u"
      "reads buf' cur' (behind (CHR '','') u)" "length buf' = length buf" "take j buf' = take j buf" by auto
    then show ?thesis using False no_newline [of s] pre [of j buf' buf]
      by (simp add: get_current_tok_def i s u_at next_token_def Let_def u_def [symmetric] j_def [symmetric])
        (simp add: j_def)
  next
    case True
    then obtain v where v: "u = CHR 0x22 # v" by (auto simp: starts_char)
    have q: "reads buf (Some (j + 1)) (Some v)" using u unfolding v by (rule reads_tl)
    from strsep_reads [OF q, of "CHR 0x22"] obtain b1 c1 where 1:
      "strsep (CHR 0x22) buf (Some (j + 1)) = (b1, c1, Some (j + 1))" "c_string b1 (j + 1) = takeWhile (\<lambda>c. c \<noteq> CHR 0x22) v"
      "reads b1 c1 (behind (CHR 0x22) v)" "length b1 = length buf" "take (j + 1) b1 = take (j + 1) buf"
      "\<forall>q. c1 = Some q \<longrightarrow> j + 1 < q \<and> NUL \<in> set (drop (j + 1) (take q b1))" by auto
    have 2: "\<exists>b2 c2 x. strsep (CHR '','') b1 c1 = (b2, c2, x) \<and> c_string b2 (j + 1) = c_string b1 (j + 1) \<and>
      reads b2 c2 (Option.bind (behind (CHR 0x22) v) (behind (CHR '',''))) \<and> length b2 = length b1 \<and> take (j + 1) b2 = take (j + 1) b1"
    proof (cases c1)
      case None
      with 1(3) show ?thesis by (simp add: strsep_def)
    next
      case (Some q)
      with 1(3) obtain w where w: "behind (CHR 0x22) v = Some w" "reads b1 c1 (Some w)" by (auto simp: reads_def)
      from strsep_reads [OF w(2), of "CHR '',''"] obtain b2 c2 where
        2: "strsep (CHR '','') b1 c1 = (b2, c2, Some q)" "reads b2 c2 (behind (CHR '','') w)" "length b2 = length b1" "take q b2 = take q b1"
        using Some by auto
      have "j + 1 < q" "NUL \<in> set (drop (j + 1) (take q b1))" using 1(6) Some by auto
      then have "c_string b2 (j + 1) = c_string b1 (j + 1)" "take (j + 1) b2 = take (j + 1) b1"
        using c_string_prefix [OF _ 2(4)] 2(4) by (simp, metis less_imp_le min.absorb1 take_take)
      with 2 w(1) show ?thesis by simp
    qed
    then obtain b2 c2 x where 2: "strsep (CHR '','') b1 c1 = (b2, c2, x)" "c_string b2 (j + 1) = c_string b1 (j + 1)"
      "reads b2 c2 (Option.bind (behind (CHR 0x22) v) (behind (CHR '','')))" "length b2 = length b1" "take (j + 1) b2 = take (j + 1) b1"
      by blast
    have "take i b2 = take i buf" using pre [of "j + 1" b2 buf] 2(5) 1(5) by (simp add: j_def)
    with 1 2 v show ?thesis
      by (simp add: get_current_tok_def i s u_at next_token_def Let_def u_def [symmetric] j_def [symmetric])
        (simp add: j_def)
  qed
qed


section \<open>Hexadecimal data\<close>

lemma of_char_word: "(of_char c :: 'a :: len word) = of_nat (of_char c)"
  by (rule of_nat_of_char [symmetric])

lemma semi_hex:
  assumes "m < 16" "n < 16"
  shows "SemiByteCharsToByte (hex_char m) (hex_char n) = push_bit 4 (of_nat m) OR of_nat n"
  unfolding SemiByteCharsToByte_def Let_def of_char_word [of "hex_char m"] of_char_word [of "hex_char n"]
    hex_char_value [OF assms(1)] hex_char_value [OF assms(2)] by simp

lemma nibbles: "push_bit 4 (of_nat (unat b div 16)) OR of_nat (unat b mod 16) = (b :: u8)"
proof -
  have "of_nat (unat b div 16) = drop_bit 4 b"
    by (simp add: drop_bit_eq_div word_arith_nat_div)
  moreover have "of_nat (unat b mod 16) = take_bit 4 b"
    by (simp add: take_bit_eq_mod word_arith_nat_mod)
  moreover have "push_bit 4 (drop_bit 4 b) OR take_bit 4 b = b"
    by (rule bit_eqI) (auto simp: bit_simps)
  ultimately show ?thesis by simp
qed

lemma gsm_loop_hex: "length bs \<le> n \<Longrightarrow> gsm_loop (concat (map fmt_02x bs)) n = bs"
proof (induction bs arbitrary: n)
  case (Cons b bs)
  moreover obtain m where "n = Suc m" using Cons.prems by (cases n) auto
  moreover have "unat b div 16 < 16" using unat_lt_8 [of b] by (simp add: less_mult_imp_div_less)
  ultimately show ?case by (simp add: fmt_02x_def semi_hex nibbles)
qed (cases n, simp_all)

end
