(* ===== verification/Agps.thy ===== *)
theory Agps
  imports AtParser
begin

text \<open>
  The aGPS agent, \<^verbatim>\<open>libs/aGPS/generic/sprd_agps_agent.c\<close>: the handlers of the messages the
  modem sends, which parse a line in place and call a function of the customer's GPS stack, and the two requests the
  stack sends.  The stack's functions are a parameter \<open>calls\<close> over its state \<open>'s\<close>; the function that sends
  an AT command is another.  \<open>None\<close> is a crash: a call through a null pointer, \<open>strlen\<close> of one, or a command
  longer than its buffer.  Uninitialised arrays are arguments.
\<close>

section \<open>The interface with the GPS stack\<close>

definition CI_DEV_MAX_APGS_MSG_SIZE :: nat where "CI_DEV_MAX_APGS_MSG_SIZE = 8192"

record agps_user_notify_params =
  handle_id :: u32
  ni_type :: u32
  notify_type :: u32
  requestorID_len :: u32
  requestorID_dcs :: u32
  requestorID :: "u8 list"
  clientName_len :: u32
  clientName_dcs :: u32
  clientName :: "u8 list"

text \<open>The calls of the hook with their arguments; a result of zero is a failure.\<close>

datatype agps_call =
    cppayload_cb u32 u32 u32 "u8 list" u32
  | meas_term_cb
  | rrc_state_cb u32
  | e911notify_cb
  | cp_reset_cb u16
  | mtlr_notify_cb agps_user_notify_params

record 's agps_c_plane_hook =
  hook_size :: nat
  calls :: "agps_call \<Rightarrow> 's \<Rightarrow> u32 \<times> 's"

text \<open>\<open>sizeof (struct agps_c_plane_hook)\<close>: a size and six pointers of four bytes.\<close>

definition sizeof_hook :: nat where "sizeof_hook = 28"

definition call_hook :: "'s agps_c_plane_hook option \<Rightarrow> agps_call \<Rightarrow> 's \<Rightarrow> (u32 \<times> 's) option" where
  "call_hook hook c s = map_option (\<lambda>h. calls h c s) hook"

definition AT_PREFIX_table :: "string list" where
  "AT_PREFIX_table =
     [''+SPAGPSDL:'', ''+SPAGPSEND'', ''+SPAGPSSTATE:'', ''+SPAGPSNILR'', ''+SPAGPSMTLR:'', ''+SPAGPSRESET:'',
      ''AT+SPLN='', ''AT+SPAGPSUL='']"

section \<open>Handlers\<close>

text \<open>Each step of a handler ends it with its error code, or goes on with \<open>k\<close>.  A handler gives its result, the
  line as the tokeniser has left it, and the state of the stack.\<close>

definition with_start ::
  "char list \<Rightarrow> 's \<Rightarrow> (nat option \<Rightarrow> (int \<times> char list \<times> 's) option) \<Rightarrow> (int \<times> char list \<times> 's) option" where
  "with_start buf s k = (case at_tok_start buf (Some 0) of (err, cur) \<Rightarrow> if err < 0 then Some (err, buf, s) else k cur)"

definition with_int ::
  "char list \<Rightarrow> nat option \<Rightarrow> 's \<Rightarrow> (u32 \<Rightarrow> char list \<Rightarrow> nat option \<Rightarrow> (int \<times> char list \<times> 's) option)
   \<Rightarrow> (int \<times> char list \<times> 's) option" where
  "with_int buf cur s k =
     (case parse_nextint buf cur of (err, buf, cur, v) \<Rightarrow>
        if err < 0 then Some (err, buf, s) else Option.bind v (\<lambda>v. k v buf cur))"

text \<open>A string field in hexadecimal, decoded into an array that held \<open>old\<close>.\<close>

definition with_hex ::
  "u8 list \<Rightarrow> char list \<Rightarrow> nat option \<Rightarrow> (u8 list \<Rightarrow> char list \<Rightarrow> nat option \<Rightarrow> 'r option) \<Rightarrow> 'r option" where
  "with_hex old buf cur k =
     (case parse_nextstr buf cur of (err, buf, cur, tmpData) \<Rightarrow>
        Option.bind tmpData (\<lambda>p.
        let str = c_string buf p
        in Option.bind (GSMHexToGSM str (length str) old CI_DEV_MAX_APGS_MSG_SIZE) (\<lambda>(_, data). k data buf cur)))"

definition with_call ::
  "'s agps_c_plane_hook option \<Rightarrow> agps_call \<Rightarrow> char list \<Rightarrow> 's \<Rightarrow> (int \<times> char list \<times> 's) option" where
  "with_call hook c buf s = Option.bind (call_hook hook c s) (\<lambda>(r, s). Some (if r = 0 then -1 else 0, buf, s))"

definition handle_ReportDownlinkData ::
  "'s agps_c_plane_hook option \<Rightarrow> u8 list \<Rightarrow> char list \<Rightarrow> 's \<Rightarrow> (int \<times> char list \<times> 's) option" where
  "handle_ReportDownlinkData hook pdu_data buf s =
     with_start buf s (\<lambda>cur.
     with_int buf cur s (\<lambda>type buf cur.
     with_int buf cur s (\<lambda>rrc_state buf cur.
     with_int buf cur s (\<lambda>session_priority buf cur.
     with_int buf cur s (\<lambda>pdu_len buf cur.
     with_hex pdu_data buf cur (\<lambda>pdu_data buf cur.
     with_call hook (cppayload_cb type rrc_state session_priority pdu_data pdu_len) buf s))))))"

definition handle_NotifyStopSession :: "'s agps_c_plane_hook option \<Rightarrow> 's \<Rightarrow> (u32 \<times> 's) option" where
  "handle_NotifyStopSession hook s = call_hook hook meas_term_cb s"

definition handle_NotifyStateChange ::
  "'s agps_c_plane_hook option \<Rightarrow> char list \<Rightarrow> 's \<Rightarrow> (int \<times> char list \<times> 's) option" where
  "handle_NotifyStateChange hook buf s =
     with_start buf s (\<lambda>cur.
     with_int buf cur s (\<lambda>rrc_state buf cur.
     with_call hook (rrc_state_cb rrc_state) buf s))"

definition handle_NotifyNILocateReq :: "'s agps_c_plane_hook option \<Rightarrow> 's \<Rightarrow> (u32 \<times> 's) option" where
  "handle_NotifyNILocateReq hook s = call_hook hook e911notify_cb s"

definition handle_NotifyMTLR ::
  "'s agps_c_plane_hook option \<Rightarrow> u8 list \<Rightarrow> u8 list \<Rightarrow> char list \<Rightarrow> 's \<Rightarrow> (int \<times> char list \<times> 's) option" where
  "handle_NotifyMTLR hook requestor client buf s =
     with_start buf s (\<lambda>cur.
     with_int buf cur s (\<lambda>handle buf cur.
     with_int buf cur s (\<lambda>ni buf cur.
     with_int buf cur s (\<lambda>notify buf cur.
     with_int buf cur s (\<lambda>client_len buf cur.
     with_int buf cur s (\<lambda>client_dcs buf cur.
     with_hex client buf cur (\<lambda>client buf cur.
     with_int buf cur s (\<lambda>requestor_len buf cur.
     with_int buf cur s (\<lambda>requestor_dcs buf cur.
     with_hex requestor buf cur (\<lambda>requestor buf cur.
     with_call hook (mtlr_notify_cb
       \<lparr>handle_id = handle, ni_type = ni, notify_type = notify, requestorID_len = requestor_len,
        requestorID_dcs = requestor_dcs, requestorID = requestor, clientName_len = client_len,
        clientName_dcs = client_dcs, clientName = client\<rparr>) buf s))))))))))"

text \<open>\<open>type\<close> is a \<open>short\<close> that \<open>parse_nextint\<close> writes as an \<open>int\<close>: it gets the low half, and the two
  bytes behind it on the stack are overwritten.\<close>

definition handle_ResetPosInfo ::
  "'s agps_c_plane_hook option \<Rightarrow> char list \<Rightarrow> 's \<Rightarrow> (int \<times> char list \<times> 's) option" where
  "handle_ResetPosInfo hook buf s =
     with_start buf s (\<lambda>cur.
     with_int buf cur s (\<lambda>type buf cur.
     with_call hook (cp_reset_cb (ucast type)) buf s))"

text \<open>\<open>stack i\<close> is what the \<open>i\<close>th local array of a handler holds at first.\<close>

definition my_at_response_cb ::
  "'s agps_c_plane_hook option \<Rightarrow> (nat \<Rightarrow> u8 list) \<Rightarrow> char list \<Rightarrow> 's \<Rightarrow> (int \<times> char list \<times> 's) option" where
  "my_at_response_cb hook stack buf s =
     (let at = c_string buf 0; handled = map_option (\<lambda>(_, buf, s). (0, buf, s)); called = map_option (\<lambda>(_, s). (0, buf, s))
      in if strStartsWith at (AT_PREFIX_table ! 0) then handled (handle_ReportDownlinkData hook (stack 0) buf s)
         else if strStartsWith at (AT_PREFIX_table ! 1) then called (handle_NotifyStopSession hook s)
         else if strStartsWith at (AT_PREFIX_table ! 2) then handled (handle_NotifyStateChange hook buf s)
         else if strStartsWith at (AT_PREFIX_table ! 3) then called (handle_NotifyNILocateReq hook s)
         else if strStartsWith at (AT_PREFIX_table ! 4) then handled (handle_NotifyMTLR hook (stack 0) (stack 1) buf s)
         else if strStartsWith at (AT_PREFIX_table ! 5) then handled (handle_ResetPosInfo hook buf s)
         else Some (0, buf, s))"

section \<open>Requests\<close>

text \<open>\<open>sprintf\<close>'s text and its terminator must fit the array.\<close>

definition in_array :: "nat \<Rightarrow> string \<Rightarrow> string option" where
  "in_array n text = (if length text < n then Some text else None)"

definition ulreq_command :: "u32 \<Rightarrow> u32 \<Rightarrow> u32 \<Rightarrow> u8 list \<Rightarrow> u32 \<Rightarrow> string" where
  "ulreq_command ota_type rrc_msg_type isfinal msg msg_size =
     ''AT+SPAGPSUL='' @ fmt_d (sint isfinal) @ '','' @ fmt_d (sint ota_type) @ '','' @ fmt_d (sint rrc_msg_type) @ '',''
       @ fmt_d (sint msg_size) @ '','' @ [CHR 0x22] @ concat (map fmt_02x (take (unat msg_size) msg)) @ [CHR 0x22]"

definition agps_c_plane_stack_network_ulreq ::
  "'s agps_c_plane_hook option \<Rightarrow> (char list \<Rightarrow> nat \<Rightarrow> nat \<Rightarrow> 's \<Rightarrow> (int \<times> 's) option) \<Rightarrow>
   u32 \<Rightarrow> u32 \<Rightarrow> u32 \<Rightarrow> u8 list \<Rightarrow> u32 \<Rightarrow> 's \<Rightarrow> (int \<times> 's) option" where
  "agps_c_plane_stack_network_ulreq hook at_send ota_type rrc_msg_type isfinal msg msg_size s =
     (if length msg < unat msg_size then None
      else Option.bind (in_array (16 * 1024) (ulreq_command ota_type rrc_msg_type isfinal msg msg_size)) (\<lambda>ATcmd.
           Option.bind (if isfinal \<noteq> 0 then map_option snd (handle_NotifyStopSession hook s) else Some s) (\<lambda>s.
           at_send ATcmd (length ATcmd) 5000 s)))"

definition agps_c_plane_stack_lcsverificationresp ::
  "(char list \<Rightarrow> nat \<Rightarrow> nat \<Rightarrow> 's \<Rightarrow> (int \<times> 's) option) \<Rightarrow> char list \<Rightarrow> u32 \<Rightarrow> u32 \<Rightarrow> u32 \<Rightarrow> 's \<Rightarrow> (int \<times> 's) option" where
  "agps_c_plane_stack_lcsverificationresp at_send ATcmd notifId present verificationResponse s =
     (if present \<noteq> 0
      then Option.bind (in_array 50 (''AT+CMTLRA='' @ fmt_nat (unat verificationResponse) @ '', '' @ fmt_nat (unat notifId))) (\<lambda>ATcmd.
           at_send ATcmd (length ATcmd) 5000 s)
      else at_send ATcmd 0 5000 s)"

section \<open>Start\<close>

definition register_RecvCommand :: "string list" where
  "register_RecvCommand =
     [''+SPAGPSDL:'', ''+SPAGPSEND'', ''+SPAGPSSTATE:'', ''+SPAGPSNILR'', ''+SPAGPSMTLR:'', ''+SPAGPSRESET:'']"

text \<open>The result, the hook installed, and the prefixes registered.\<close>

definition agps_c_plane_stack_init ::
  "bool \<Rightarrow> 's agps_c_plane_hook option \<Rightarrow> 's agps_c_plane_hook option \<Rightarrow> int \<times> 's agps_c_plane_hook option \<times> string list" where
  "agps_c_plane_stack_init atc_opened hook installed =
     (if \<not> atc_opened then (-1, installed, [])
      else case hook of
             Some h \<Rightarrow> if hook_size h = sizeof_hook then (0, Some h, register_RecvCommand)
                       else (-2, installed, register_RecvCommand)
           | None \<Rightarrow> (-2, installed, register_RecvCommand))"

end
