(* ===== verification/AgpsProps.thy ===== *)
theory AgpsProps
  imports Agps
begin

text \<open>
  Properties of the aGPS agent: which messages crash it, what a well-formed downlink report delivers, and which uplink
  requests fit the command buffer.
\<close>

section \<open>Handlers on the text of a line\<close>

text \<open>What is left of a line after \<open>n\<close> fields.\<close>

fun fields_left :: "nat \<Rightarrow> string option \<Rightarrow> string option" where
  "fields_left 0 rest = rest"
| "fields_left (Suc n) rest = Option.bind (fields_left n rest) (\<lambda>s. snd (next_token s))"

lemma fields_left_None [simp]: "fields_left n None = None"
  by (induction n) simp_all

lemma with_int_missing: "reads buf cur None \<Longrightarrow> with_int buf cur s k = Some (-1, buf, s)"
  by (simp add: reads_def with_int_def parse_nextint_def split: option.splits)

lemma with_int_reads:
  assumes "reads buf cur (Some t)"
  shows "\<exists>buf' cur'. reads buf' cur' (snd (next_token t)) \<and>
    (\<forall>k. with_int buf cur s k = k (of_int (strtol10 (fst (next_token t)))) buf' cur')"
proof -
  from get_current_tok_reads [OF assms] obtain buf' cur' p where
    "get_current_tok buf cur = (buf', cur', Some p)" "c_string buf' p = fst (next_token t)" "reads buf' cur' (snd (next_token t))"
    by blast
  moreover obtain i where "cur = Some i" using assms by (cases cur) simp_all
  ultimately have "with_int buf cur s k = k (of_int (strtol10 (fst (next_token t)))) buf' cur'" for k
    by (simp add: with_int_def parse_nextint_def)
  with \<open>reads buf' cur' (snd (next_token t))\<close> show ?thesis by blast
qed

lemma with_hex_missing: "reads buf cur None \<Longrightarrow> with_hex old buf cur k = None"
  by (simp add: reads_def with_hex_def parse_nextstr_def get_current_tok_def split: option.splits)

lemma length_gsm_loop: "length (gsm_loop s n) \<le> n"
  by (induction s n rule: gsm_loop.induct) simp_all

lemma with_hex_reads:
  assumes "reads buf cur (Some t)" "length old = 8192"
  shows "\<exists>buf' cur'. reads buf' cur' (snd (next_token t)) \<and>
    (\<forall>k. with_hex old buf cur k =
      (let bs = gsm_loop (fst (next_token t)) 8192 in k (bs @ drop (length bs) old) buf' cur'))"
proof -
  from get_current_tok_reads [OF assms(1)] obtain buf' cur' p where
    "get_current_tok buf cur = (buf', cur', Some p)" "c_string buf' p = fst (next_token t)" "reads buf' cur' (snd (next_token t))"
    by blast
  then have "with_hex old buf cur k =
      (let bs = gsm_loop (fst (next_token t)) 8192 in k (bs @ drop (length bs) old) buf' cur')" for k
    using length_gsm_loop [of "fst (next_token t)" 8192] assms(2)
    by (simp add: with_hex_def parse_nextstr_def GSMHexToGSM_def CI_DEV_MAX_APGS_MSG_SIZE_def mem_write_def Let_def)
  with \<open>reads buf' cur' (snd (next_token t))\<close> show ?thesis by blast
qed

lemma find_loop_colon:
  "CHR '':'' \<in> set s \<Longrightarrow> find_loop s '':'' i = i + int (length (takeWhile (\<lambda>c. c \<noteq> CHR '':'') s))"
  by (induction s arbitrary: i) auto

lemma with_start_reads:
  assumes "reads buf (Some 0) (Some line)" "CHR '':'' \<in> set line"
  shows "\<exists>cur. reads buf cur (behind (CHR '':'') line) \<and> (\<forall>k. with_start buf s k = k cur)"
proof -
  define n where "n = length (takeWhile (\<lambda>c. c \<noteq> CHR '':'') line)"
  have "c_string buf 0 = line" using assms(1) by (simp add: reads_def)
  then have "with_start buf s k = k (Some (n + 1))" for k
    using find_loop_colon [OF assms(2), of 0] by (simp add: with_start_def at_tok_start_def FindString_def n_def)
  moreover have "reads buf (Some (n + 1)) (behind (CHR '':'') line)"
  proof -
    from assms(2) obtain r where r: "dropWhile (\<lambda>c. c \<noteq> CHR '':'') line = CHR '':'' # r"
      using dropWhile_eq_Nil_conv [of "\<lambda>c. c \<noteq> CHR '':''" line] hd_dropWhile [of "\<lambda>c. c \<noteq> CHR '':''" line]
      by (metis list.collapse)
    have "reads buf (Some (0 + n)) (Some (CHR '':'' # r))"
      using reads_skip [OF assms(1), of "\<lambda>c. c \<noteq> CHR '':''"] unfolding r n_def .
    from reads_tl [OF this] show ?thesis using assms(2) r by (simp add: behind_def)
  qed
  ultimately show ?thesis by blast
qed

section \<open>Crashes\<close>

lemma with_int_crash:
  assumes "reads buf cur (fields_left n r)"
    and "\<And>v buf cur. reads buf cur (fields_left (Suc n) r) \<Longrightarrow> k v buf cur = None \<longleftrightarrow> P"
  shows "with_int buf cur s k = None \<longleftrightarrow> fields_left n r \<noteq> None \<and> P"
proof (cases "fields_left n r")
  case None
  with assms(1) show ?thesis by (simp add: with_int_missing)
next
  case (Some t)
  with assms(1) with_int_reads [of buf cur t s] obtain b c where "reads b c (fields_left (Suc n) r)"
    "\<And>k. with_int buf cur s k = k (of_int (strtol10 (fst (next_token t)))) b c" by auto
  with assms(2) Some show ?thesis by simp
qed

lemma with_hex_crash:
  fixes k :: "u8 list \<Rightarrow> char list \<Rightarrow> nat option \<Rightarrow> 'r option"
  assumes "length old = 8192" "reads buf cur (fields_left n r)"
    and "\<And>v buf cur. reads buf cur (fields_left (Suc n) r) \<Longrightarrow> k v buf cur = None \<longleftrightarrow> P"
  shows "with_hex old buf cur k = None \<longleftrightarrow> fields_left n r = None \<or> P"
proof (cases "fields_left n r")
  case None
  with assms(2) show ?thesis by (simp add: with_hex_missing)
next
  case (Some t)
  with assms(2) with_hex_reads [OF _ assms(1), of buf cur t] obtain b c where b: "reads b c (fields_left (Suc n) r)"
    "\<And>k :: u8 list \<Rightarrow> char list \<Rightarrow> nat option \<Rightarrow> 'r option. with_hex old buf cur k = (let bs = gsm_loop (fst (next_token t)) 8192 in k (bs @ drop (length bs) old) b c)"
    by auto
  show ?thesis using assms(3) [OF b(1)] Some by (simp add: b(2) Let_def)
qed

lemma with_start_crash:
  assumes "reads buf (Some 0) (Some line)" "CHR '':'' \<in> set line"
    and "\<And>cur. reads buf cur (fields_left 0 (behind (CHR '':'') line)) \<Longrightarrow> k cur = None \<longleftrightarrow> P"
  shows "with_start buf s k = None \<longleftrightarrow> P"
proof -
  from with_start_reads [OF assms(1,2), of s] obtain c where
    "reads buf c (behind (CHR '':'') line)" "\<And>k. with_start buf s k = k c" by auto
  with assms(3) show ?thesis by simp
qed

lemma with_call_returns [simp]: "with_call (Some h) c buf s \<noteq> None"
  by (simp add: with_call_def call_hook_def split: prod.splits)

lemma starts_set: "strStartsWith line prefix \<Longrightarrow> set prefix \<subseteq> set line"
  by (induction line prefix rule: strStartsWith.induct) (auto split: if_splits)

lemma fields_left_before: "fields_left (Suc n) r \<noteq> None \<Longrightarrow> fields_left n r \<noteq> None"
  by (cases "fields_left n r") simp_all

lemma suc_numerals:
  "1 = Suc 0" "2 = Suc (Suc 0)" "3 = Suc (Suc (Suc 0))" "4 = Suc (Suc (Suc (Suc 0)))" "5 = Suc (Suc (Suc (Suc (Suc 0))))"
  "7 = Suc (Suc (Suc (Suc (Suc (Suc (Suc 0))))))" "8 = Suc (Suc (Suc (Suc (Suc (Suc (Suc (Suc 0)))))))"
  by simp_all

lemma downlink_crash:
  assumes "reads buf (Some 0) (Some line)" "CHR '':'' \<in> set line" "length old = 8192"
  shows "handle_ReportDownlinkData (Some h) old buf s = None \<longleftrightarrow>
    fields_left 3 (behind (CHR '':'') line) \<noteq> None \<and> fields_left 4 (behind (CHR '':'') line) = None"
proof -
  define f where "f n = fields_left n (behind (CHR '':'') line)" for n
  have "handle_ReportDownlinkData (Some h) old buf s = None \<longleftrightarrow>
    f 0 \<noteq> None \<and> f (Suc 0) \<noteq> None \<and> f (Suc (Suc 0)) \<noteq> None \<and> f (Suc (Suc (Suc 0))) \<noteq> None \<and>
    (f (Suc (Suc (Suc (Suc 0)))) = None \<or> False)"
    unfolding handle_ReportDownlinkData_def f_def
    by (rule with_start_crash [OF assms(1,2)], (rule with_int_crash, assumption)+, rule with_hex_crash [OF assms(3)], assumption) simp
  moreover have "f n \<noteq> None" if "f (Suc n) \<noteq> None" for n using that unfolding f_def by (rule fields_left_before)
  ultimately show ?thesis unfolding suc_numerals f_def [symmetric] by blast
qed

lemma mtlr_crash:
  assumes "reads buf (Some 0) (Some line)" "CHR '':'' \<in> set line" "length old = 8192" "length old' = 8192"
  shows "handle_NotifyMTLR (Some h) old old' buf s = None \<longleftrightarrow>
    fields_left 4 (behind (CHR '':'') line) \<noteq> None \<and> fields_left 5 (behind (CHR '':'') line) = None \<or>
    fields_left 7 (behind (CHR '':'') line) \<noteq> None \<and> fields_left 8 (behind (CHR '':'') line) = None"
proof -
  define f where "f n = fields_left n (behind (CHR '':'') line)" for n
  have "handle_NotifyMTLR (Some h) old old' buf s = None \<longleftrightarrow>
    f 0 \<noteq> None \<and> f (Suc 0) \<noteq> None \<and> f (Suc (Suc 0)) \<noteq> None \<and> f (Suc (Suc (Suc 0))) \<noteq> None \<and>
    f (Suc (Suc (Suc (Suc 0)))) \<noteq> None \<and> (f (Suc (Suc (Suc (Suc (Suc 0))))) = None \<or>
    (f (Suc (Suc (Suc (Suc (Suc (Suc 0)))))) \<noteq> None \<and> f (Suc (Suc (Suc (Suc (Suc (Suc (Suc 0))))))) \<noteq> None \<and>
    (f (Suc (Suc (Suc (Suc (Suc (Suc (Suc (Suc 0)))))))) = None \<or> False)))"
    unfolding handle_NotifyMTLR_def f_def
    by (rule with_start_crash [OF assms(1,2)], (rule with_int_crash, assumption)+, rule with_hex_crash [OF assms(4)], assumption,
        (rule with_int_crash, assumption)+, rule with_hex_crash [OF assms(3)], assumption) simp
  moreover have "f n \<noteq> None" if "f (Suc n) \<noteq> None" for n using that unfolding f_def by (rule fields_left_before)
  ultimately show ?thesis unfolding suc_numerals f_def [symmetric] by blast
qed


lemma state_returns:
  assumes "reads buf (Some 0) (Some line)" "CHR '':'' \<in> set line"
  shows "handle_NotifyStateChange (Some h) buf s \<noteq> None" "handle_ResetPosInfo (Some h) buf s \<noteq> None"
proof -
  have "handle_NotifyStateChange (Some h) buf s = None \<longleftrightarrow> fields_left 0 (behind (CHR '':'') line) \<noteq> None \<and> False"
    unfolding handle_NotifyStateChange_def
    by (rule with_start_crash [OF assms], rule with_int_crash, assumption) simp
  moreover have "handle_ResetPosInfo (Some h) buf s = None \<longleftrightarrow> fields_left 0 (behind (CHR '':'') line) \<noteq> None \<and> False"
    unfolding handle_ResetPosInfo_def
    by (rule with_start_crash [OF assms], rule with_int_crash, assumption) simp
  ultimately show "handle_NotifyStateChange (Some h) buf s \<noteq> None" "handle_ResetPosInfo (Some h) buf s \<noteq> None"
    by blast+
qed

text \<open>Two prefixes of one line are prefixes of each other.\<close>

lemma starts_both: "strStartsWith line p \<Longrightarrow> strStartsWith line q \<Longrightarrow> strStartsWith p q \<or> strStartsWith q p"
proof (induction line p arbitrary: q rule: strStartsWith.induct)
  case (3 c line p prefix)
  then show ?case by (cases q) (auto split: if_splits)
qed (auto elim: strStartsWith.elims)

lemma starts_char_in: "strStartsWith line p \<Longrightarrow> c \<in> set p \<Longrightarrow> c \<in> set line"
  using starts_set by blast



section \<open>A well-formed downlink report\<close>

definition dl_line :: "u32 \<Rightarrow> u32 \<Rightarrow> u32 \<Rightarrow> u32 \<Rightarrow> u8 list \<Rightarrow> string" where
  "dl_line type rrc_state session_priority pdu_len pdu =
     ''+SPAGPSDL: '' @ fmt_d (sint type) @ '','' @ fmt_d (sint rrc_state) @ '','' @ fmt_d (sint session_priority) @ '',''
       @ fmt_d (sint pdu_len) @ '','' @ [CHR 0x22] @ concat (map fmt_02x pdu) @ [CHR 0x22]"

lemma number_char_not: "number_char c \<Longrightarrow> \<not> char_space c \<and> c \<noteq> CHR '','' \<and> c \<noteq> CHR 0x22 \<and> c \<noteq> NUL"
  by (auto simp: number_char_def digit_char_def char_space_def)

lemma next_token_space [simp]: "char_space c \<Longrightarrow> next_token (c # s) = next_token s"
  by (simp add: next_token_def)

lemma char_space_space: "char_space (CHR '' '')"
  by (simp add: char_space_def)

lemma next_token_number:
  "next_token (fmt_d x @ CHR '','' # rest) = (fmt_d x, Some rest)"
proof -
  have n: "list_all number_char (fmt_d x)" by (rule fmt_d_chars)
  obtain c cs where f: "fmt_d x = c # cs" using fmt_d_not_Nil [of x] by (cases "fmt_d x") auto
  have ne: "\<forall>c \<in> set (fmt_d x). c \<noteq> CHR '',''" using n number_char_not by (auto simp: list_all_iff)
  have "takeWhile (\<lambda>c. c \<noteq> CHR '','') (fmt_d x @ CHR '','' # rest) = fmt_d x"
    "dropWhile (\<lambda>c. c \<noteq> CHR '','') (fmt_d x @ CHR '','' # rest) = CHR '','' # rest"
    using ne by (simp_all add: takeWhile_append dropWhile_append)
  moreover have "\<not> char_space c" "c \<noteq> CHR 0x22" using n f number_char_not [of c] by auto
  ultimately show ?thesis by (simp add: next_token_def f behind_def)
qed

lemma hex_char_not: "n < 16 \<Longrightarrow> hex_char n \<noteq> CHR 0x22 \<and> hex_char n \<noteq> NUL"
  using less_16_cases [of n] by (auto simp: hex_char_def)

lemma hex_text_not: "c \<in> set (concat (map fmt_02x bs)) \<Longrightarrow> c \<noteq> CHR 0x22 \<and> c \<noteq> NUL"
proof -
  assume "c \<in> set (concat (map fmt_02x bs))"
  then obtain b :: u8 where "c = hex_char (unat b div 16) \<or> c = hex_char (unat b mod 16)" by (auto simp: fmt_02x_def)
  moreover have "unat b div 16 < 16" using unat_lt_8 [of b] by (simp add: less_mult_imp_div_less)
  ultimately show ?thesis using hex_char_not by auto
qed

lemma next_token_hex:
  "next_token (CHR 0x22 # concat (map fmt_02x bs) @ [CHR 0x22]) = (concat (map fmt_02x bs), None)"
proof -
  have ne: "\<forall>c \<in> set (concat (map fmt_02x bs)). c \<noteq> CHR 0x22" using hex_text_not by blast
  then have "takeWhile (\<lambda>c. c \<noteq> CHR 0x22) (concat (map fmt_02x bs) @ [CHR 0x22]) = concat (map fmt_02x bs)"
    "dropWhile (\<lambda>c. c \<noteq> CHR 0x22) (concat (map fmt_02x bs) @ [CHR 0x22]) = [CHR 0x22]"
    by (simp_all add: takeWhile_append dropWhile_append del: set_concat)
  then show ?thesis by (simp add: next_token_def char_space_def behind_def del: set_concat)
qed

lemma strtol10_fmt_d: "of_int (strtol10 (fmt_d (sint (w :: u32)))) = w"
  using sint_lt [of w] sint_ge [of w] by (simp add: strtol10_def atoi_fmt_d)

lemma dl_line_no_NUL: "NUL \<notin> set (dl_line t r p n pdu)"
proof -
  have "NUL \<notin> set (fmt_d x)" for x using fmt_d_chars [of x] number_char_not by (auto simp: list_all_iff)
  moreover have "NUL \<notin> set (concat (map fmt_02x pdu))" using hex_text_not by blast
  ultimately show ?thesis by (simp add: dl_line_def del: set_concat)
qed

lemma downlink_call:
  fixes s :: 's
  assumes "length pdu \<le> 8192" "length (stack 0) = 8192"
  shows "\<exists>buf'. my_at_response_cb (Some h) stack (dl_line type rrc_state priority pdu_len pdu @ NUL # post) s =
    Some (0, buf', snd (calls h (cppayload_cb type rrc_state priority (pdu @ drop (length pdu) (stack 0)) pdu_len) s))"
proof -
  define line where "line = dl_line type rrc_state priority pdu_len pdu"
  have r0: "reads (line @ NUL # post) (Some 0) (Some line)"
    using reads_at [OF dl_line_no_NUL, of 0 "[]"] by (simp add: line_def)
  have at: "c_string (line @ NUL # post) 0 = line" using r0 by (simp add: reads_def)
  have start: "strStartsWith line ''+SPAGPSDL:''" and colon: "CHR '':'' \<in> set line" by (simp_all add: line_def dl_line_def)
  define rest5 where "rest5 = [CHR 0x22] @ concat (map fmt_02x pdu) @ [CHR 0x22]"
  define rest4 where "rest4 = fmt_d (sint pdu_len) @ CHR '','' # rest5"
  define rest3 where "rest3 = fmt_d (sint priority) @ CHR '','' # rest4"
  define rest2 where "rest2 = fmt_d (sint rrc_state) @ CHR '','' # rest3"
  define rest1 where "rest1 = CHR '' '' # fmt_d (sint type) @ CHR '','' # rest2"
  note rests = rest5_def rest4_def rest3_def rest2_def rest1_def
  have "behind (CHR '':'') line = Some rest1" by (simp add: behind_def line_def dl_line_def rests)
  with with_start_reads [OF r0 colon, of s] obtain cur1 where
    1: "reads (line @ NUL # post) cur1 (Some rest1)" "\<And>k. with_start (line @ NUL # post) s k = k cur1" by auto
  have n1: "next_token rest1 = (fmt_d (sint type), Some rest2)"
    by (simp add: rest1_def char_space_space next_token_number)
  from with_int_reads [OF 1(1), of s] obtain b2 c2 where
    2: "reads b2 c2 (Some rest2)" "\<And>k. with_int (line @ NUL # post) cur1 s k = k type b2 c2"
    unfolding n1 fst_conv snd_conv strtol10_fmt_d by blast
  have n2: "next_token rest2 = (fmt_d (sint rrc_state), Some rest3)" by (simp add: rest2_def next_token_number)
  from with_int_reads [OF 2(1), of s] obtain b3 c3 where
    3: "reads b3 c3 (Some rest3)" "\<And>k. with_int b2 c2 s k = k rrc_state b3 c3"
    unfolding n2 fst_conv snd_conv strtol10_fmt_d by blast
  have n3: "next_token rest3 = (fmt_d (sint priority), Some rest4)" by (simp add: rest3_def next_token_number)
  from with_int_reads [OF 3(1), of s] obtain b4 c4 where
    4: "reads b4 c4 (Some rest4)" "\<And>k. with_int b3 c3 s k = k priority b4 c4"
    unfolding n3 fst_conv snd_conv strtol10_fmt_d by blast
  have n4: "next_token rest4 = (fmt_d (sint pdu_len), Some rest5)" by (simp add: rest4_def next_token_number)
  from with_int_reads [OF 4(1), of s] obtain b5 c5 where
    5: "reads b5 c5 (Some rest5)" "\<And>k. with_int b4 c4 s k = k pdu_len b5 c5"
    unfolding n4 fst_conv snd_conv strtol10_fmt_d by blast
  have n5: "fst (next_token rest5) = concat (map fmt_02x pdu)" using next_token_hex [of pdu] by (simp add: rest5_def)
  from with_hex_reads [OF 5(1) assms(2)] obtain b6 c6 where
    6: "\<And>k :: u8 list \<Rightarrow> char list \<Rightarrow> nat option \<Rightarrow> (int \<times> char list \<times> 's) option.
          with_hex (stack 0) b5 c5 k = k (pdu @ drop (length pdu) (stack 0)) b6 c6"
    unfolding n5 gsm_loop_hex [OF assms(1)] Let_def by blast
  show ?thesis
    unfolding my_at_response_cb_def line_def [symmetric] at Let_def
    by (simp add: start AT_PREFIX_table_def handle_ReportDownlinkData_def 1(2) 2(2) 3(2) 4(2) 5(2) 6 with_call_def call_hook_def
        split: prod.split)
qed



section \<open>Requests\<close>

lemma fmt_nat_length: "n < 10 ^ Suc k \<Longrightarrow> length (fmt_nat n) \<le> Suc k"
proof (induction k arbitrary: n)
  case (Suc k)
  show ?case
  proof (cases "n < 10")
    case False
    have "n div 10 < 10 ^ Suc k" using Suc.prems by (simp add: div_less_iff_less_mult mult.commute)
    from Suc.IH [OF this] show ?thesis by (subst fmt_nat.simps) (simp add: False)
  qed (subst fmt_nat.simps, simp)
qed (subst fmt_nat.simps, simp)

lemma fmt_nat_long: "10 ^ k \<le> n \<Longrightarrow> Suc k \<le> length (fmt_nat n)"
proof (induction k arbitrary: n)
  case 0
  then show ?case by (simp add: Suc_le_eq)
next
  case (Suc k)
  then have "10 ^ k \<le> n div 10" by (simp add: less_eq_div_iff_mult_less_eq mult.commute)
  moreover have "\<not> n < 10"
  proof -
    have "(10 :: nat) \<le> 10 ^ Suc k" by simp
    with Suc.prems show ?thesis by linarith
  qed
  ultimately show ?case using Suc.IH [of "n div 10"] by (subst fmt_nat.simps) simp
qed

lemma fmt_d_word_length: "length (fmt_d (sint (w :: u32))) \<le> 11"
proof -
  have "\<bar>sint w\<bar> \<le> 2147483648" using sint_lt [of w] sint_ge [of w] by simp
  then have "nat (sint w) < 10 ^ Suc 9" "nat (- sint w) < 10 ^ Suc 9" by (simp_all add: nat_less_iff)
  from fmt_nat_length [OF this(1)] fmt_nat_length [OF this(2)] show ?thesis by (simp add: fmt_d_def)
qed

lemma length_hex_text [simp]: "length (concat (map fmt_02x bs)) = 2 * length bs"
  by (induction bs) (simp_all add: fmt_02x_def)

lemma ulreq_length:
  "unat n \<le> length msg \<Longrightarrow> length (ulreq_command ota rrc final msg n) =
     18 + 2 * unat n + length (fmt_d (sint final)) + length (fmt_d (sint ota)) + length (fmt_d (sint rrc)) + length (fmt_d (sint n))"
  by (simp add: ulreq_command_def)


text \<open>C36: An uplink request of at most 8160 bytes is printed in full into the 16 kB command buffer and handed to
  \<open>at_send\<close> with its length, after the stack has been told of the end of the session if the request is final; from
  8181 bytes on, fewer than the 8192 the interface allows, the command overruns the buffer.\<close>

theorem uplink_bounds:
  assumes "unat msg_size \<le> length msg"
  shows "(unat msg_size \<le> 8160 \<longrightarrow>
      agps_c_plane_stack_network_ulreq (Some h) at_send ota rrc isfinal msg msg_size s =
        at_send (ulreq_command ota rrc isfinal msg msg_size) (length (ulreq_command ota rrc isfinal msg msg_size)) 5000
          (if isfinal \<noteq> 0 then snd (calls h meas_term_cb s) else s)) \<and>
    (8181 \<le> unat msg_size \<longrightarrow> agps_c_plane_stack_network_ulreq hook at_send ota rrc isfinal msg msg_size s = None)"
proof -
  note len = ulreq_length [OF assms, of ota rrc isfinal]
  have up: "length (ulreq_command ota rrc isfinal msg msg_size) \<le> 62 + 2 * unat msg_size"
    using len fmt_d_word_length [of isfinal] fmt_d_word_length [of ota] fmt_d_word_length [of rrc] fmt_d_word_length [of msg_size]
    by linarith
  have pos: "1 \<le> length (fmt_d x)" for x by (simp add: Suc_le_eq)
  have low: "22 + 2 * unat msg_size \<le> length (ulreq_command ota rrc isfinal msg msg_size)"
    using len pos [of "sint isfinal"] pos [of "sint ota"] pos [of "sint rrc"] pos [of "sint msg_size"] by linarith
  have "agps_c_plane_stack_network_ulreq (Some h) at_send ota rrc isfinal msg msg_size s =
      at_send (ulreq_command ota rrc isfinal msg msg_size) (length (ulreq_command ota rrc isfinal msg msg_size)) 5000
        (if isfinal \<noteq> 0 then snd (calls h meas_term_cb s) else s)" if "unat msg_size \<le> 8160"
    using up that assms
    by (simp add: agps_c_plane_stack_network_ulreq_def in_array_def handle_NotifyStopSession_def call_hook_def not_less)
  moreover have "agps_c_plane_stack_network_ulreq hook at_send ota rrc isfinal msg msg_size s = None" if "8181 \<le> unat msg_size"
  proof -
    have "\<not> length (ulreq_command ota rrc isfinal msg msg_size) < 16 * 1024" using low that by linarith
    then show ?thesis by (simp add: agps_c_plane_stack_network_ulreq_def in_array_def)
  qed
  ultimately show ?thesis by blast
qed

theorem uplink_bounds_witness:
  "agps_c_plane_stack_network_ulreq (Some \<lparr>hook_size = 28, calls = \<lambda>c s. (1, s @ [c])\<rparr>) (\<lambda>cmd len ms s. Some (0, s)) 1 0 1 [7, 8] 2 [] =
     Some (0, [meas_term_cb]) \<and>
   agps_c_plane_stack_network_ulreq None (\<lambda>cmd len ms s. Some (0, s)) 1 0 1 (replicate 8192 0) 8192 [] = None"
  using uplink_bounds [of 2 "[7, 8]" "\<lparr>hook_size = 28, calls = \<lambda>c s. (1, s @ [c])\<rparr>" "\<lambda>cmd len ms s. Some (0, s)" 1 0 1 "[]" None]
    uplink_bounds [of 8192 "replicate 8192 0" undefined "\<lambda>cmd len ms s. Some (0, s)" 1 0 1 "[]" None]
  by simp


section \<open>What the handlers leave of a line\<close>

text \<open>Everything before the pointer a handler starts to parse at, and the length.\<close>

definition beyond :: "nat \<Rightarrow> nat option \<Rightarrow> bool" where
  "beyond n cur \<longleftrightarrow> (\<forall>i. cur = Some i \<longrightarrow> n \<le> i)"

definition kept :: "nat \<Rightarrow> char list \<Rightarrow> (int \<times> char list \<times> 's) option \<Rightarrow> bool" where
  "kept n buf res \<longleftrightarrow> (\<forall>r b s. res = Some (r, b, s) \<longrightarrow> length b = length buf \<and> take n b = take n buf)"

lemma kept_same [simp]: "kept n buf (Some (r, buf, s))" "kept n buf None"
  by (simp_all add: kept_def)

lemma kept_trans: "kept n b res \<Longrightarrow> length b = length buf \<Longrightarrow> take n b = take n buf \<Longrightarrow> kept n buf res"
  by (simp add: kept_def)

lemma strsep_kept:
  "beyond n cur \<Longrightarrow> strsep d buf cur = (b, c, t) \<Longrightarrow> length b = length buf \<and> take n b = take n buf \<and> beyond n c"
  by (auto simp: strsep_def beyond_def Let_def split: option.splits if_splits)

lemma get_current_tok_kept:
  assumes "beyond n cur" "get_current_tok buf cur = (b, c, t)"
  shows "length b = length buf \<and> take n b = take n buf \<and> beyond n c"
proof (cases cur)
  case None
  with assms show ?thesis by (simp add: get_current_tok_def)
next
  case (Some i)
  define j where "j = i + length (takeWhile char_space (c_string buf i))"
  have b: "beyond n (Some j)" "beyond n (Some (j + 1))" using assms(1) Some by (auto simp: beyond_def j_def)
  have "length b2 = length buf \<and> take n b2 = take n buf \<and> beyond n c2"
    if "strsep d buf (Some (j + 1)) = (b1, c1, t1)" "strsep d' b1 c1 = (b2, c2, t2)" for d d' b1 c1 t1 b2 c2 t2
    using strsep_kept [OF b(2) that(1)] strsep_kept [OF _ that(2), of n] by simp
  then show ?thesis
    using assms(2) strsep_kept [OF b(1)] unfolding get_current_tok_def Some option.case Let_def j_def [symmetric]
    by (auto split: if_splits prod.splits)
qed

lemma with_int_kept:
  assumes "beyond n cur" "\<And>v b c. beyond n c \<Longrightarrow> length b = length buf \<Longrightarrow> take n b = take n buf \<Longrightarrow> kept n b (k v b c)"
  shows "kept n buf (with_int buf cur s k)"
proof (cases "cur = None")
  case True
  then show ?thesis by (simp add: with_int_def parse_nextint_def)
next
  case False
  obtain b c t where g: "get_current_tok buf cur = (b, c, t)" by (metis prod_cases3)
  note kp = get_current_tok_kept [OF assms(1) g]
  have "kept n buf (Some (-2, b, s))" using kp by (simp add: kept_def)
  moreover have "kept n buf (k v b c)" for v using assms(2) [of c b v] kp kept_trans by blast
  ultimately show ?thesis using False g by (cases t) (simp_all add: with_int_def parse_nextint_def)
qed

lemma with_hex_kept:
  assumes "beyond n cur" "\<And>v b c. beyond n c \<Longrightarrow> length b = length buf \<Longrightarrow> take n b = take n buf \<Longrightarrow> kept n b (k v b c)"
  shows "kept n buf (with_hex old buf cur k)"
proof -
  obtain b c t where g: "get_current_tok buf cur = (b, c, t)" by (metis prod_cases3)
  note kp = get_current_tok_kept [OF assms(1) g]
  have "kept n buf (k v b c)" for v using assms(2) [of c b v] kp kept_trans by blast
  then show ?thesis
    by (auto simp: with_hex_def parse_nextstr_def g Let_def kept_def bind_eq_Some_conv split: prod.splits)
qed

lemma with_start_kept:
  assumes "\<And>cur. beyond (nat (FindString (Some (c_string buf 0)) (Some '':''))) cur \<Longrightarrow> kept n buf (k cur)"
  shows "kept n buf (with_start buf s k)"
  using assms by (auto simp: with_start_def at_tok_start_def Let_def beyond_def)

lemma with_call_kept: "kept n buf (with_call hook c buf s)"
  by (auto simp: with_call_def kept_def bind_eq_Some_conv)

lemma handlers_kept:
  assumes "n \<le> nat (FindString (Some (c_string buf 0)) (Some '':''))"
  shows "kept n buf (handle_ReportDownlinkData hook old buf s)" "kept n buf (handle_NotifyStateChange hook buf s)"
    "kept n buf (handle_NotifyMTLR hook old old' buf s)" "kept n buf (handle_ResetPosInfo hook buf s)"
proof -
  have weaker: "beyond n cur" if "beyond (nat (FindString (Some (c_string buf 0)) (Some '':''))) cur" for cur
    using that assms by (auto simp: beyond_def)
  show "kept n buf (handle_ReportDownlinkData hook old buf s)" "kept n buf (handle_NotifyStateChange hook buf s)"
    "kept n buf (handle_NotifyMTLR hook old old' buf s)" "kept n buf (handle_ResetPosInfo hook buf s)"
    unfolding handle_ReportDownlinkData_def handle_NotifyStateChange_def handle_NotifyMTLR_def handle_ResetPosInfo_def
    by (rule with_start_kept, drule weaker, (rule with_int_kept with_hex_kept with_call_kept | assumption)+)+
qed

lemma callback_kept:
  assumes "n \<le> nat (FindString (Some (c_string buf 0)) (Some '':''))"
  shows "kept n buf (my_at_response_cb hook stack buf s)"
  using handlers_kept(1) [OF assms, where hook = hook and old = "stack 0" and s = s]
    handlers_kept(2) [OF assms, where hook = hook and s = s]
    handlers_kept(3) [OF assms, where hook = hook and old = "stack 0" and old' = "stack 1" and s = s]
    handlers_kept(4) [OF assms, where hook = hook and s = s]
  by (auto simp: my_at_response_cb_def Let_def kept_def split: if_splits)

end
