(* ===== verification/WorkQueue.thy ===== *)
theory WorkQueue
  imports Prelude
begin

text \<open>
  The work queue of the AT channel, \<^verbatim>\<open>libs/aGPS/lib/atc.c\<close>: a singly linked list with head, tail
  and a count, in a store of items.  Allocation takes the next unused address and succeeds; \<open>free\<close> empties an address;
  following a pointer to a free address is a crash, \<open>None\<close>.  The queue is shown to be a first-in first-out list, by a
  locale for that contract and its interpretation on the linked list.
\<close>

section \<open>The code\<close>

record 'a work_item =
  item_next :: "nat option"
  item_data :: 'a

record 'a work_queue =
  q_head :: "nat option"
  q_tail :: "nat option"
  item_count :: int
  items :: "nat \<Rightarrow> 'a work_item option"
  unused :: nat

definition work_queue_new :: "'a work_queue" where
  "work_queue_new = \<lparr>q_head = None, q_tail = None, item_count = 0, items = (\<lambda>_. None), unused = 0\<rparr>"

definition work_queue_add :: "'a work_queue \<Rightarrow> 'a \<Rightarrow> 'a work_queue option" where
  "work_queue_add q data =
     (let p = unused q; heap = (items q)(p \<mapsto> \<lparr>item_next = None, item_data = data\<rparr>)
      in if q_head q = None
         then Some (q\<lparr>q_head := Some p, q_tail := Some p, item_count := 1, items := heap, unused := p + 1\<rparr>)
         else Option.bind (q_tail q) (\<lambda>t.
              Option.bind (heap t) (\<lambda>it.
              Some (q\<lparr>q_tail := Some p, item_count := item_count q + 1, items := heap(t \<mapsto> it\<lparr>item_next := Some p\<rparr>),
                      unused := p + 1\<rparr>))))"

definition work_queue_pop :: "'a work_queue \<Rightarrow> ('a option \<times> 'a work_queue) option" where
  "work_queue_pop q =
     (case q_head q of
        None \<Rightarrow> Some (None, q)
      | Some p \<Rightarrow>
          Option.bind (items q p) (\<lambda>it.
          let q = q\<lparr>q_head := item_next it\<rparr>; q = (if item_next it = None then q\<lparr>q_tail := None\<rparr> else q)
          in Some (Some (item_data it), q\<lparr>items := (items q)(p := None)\<rparr>)))"

text \<open>The search of \<open>work_queue_delete\<close>: the item before \<open>w\<close>, when \<open>w\<close> is found.\<close>

partial_function (option) find_prev :: "(nat \<Rightarrow> 'a work_item option) \<Rightarrow> nat \<Rightarrow> nat \<Rightarrow> nat option \<Rightarrow> nat option option" where
  "find_prev heap w prev node =
     (case node of
        None \<Rightarrow> Some None
      | Some c \<Rightarrow>
          if c = w then Some (Some prev) else Option.bind (heap c) (\<lambda>it. find_prev heap w c (item_next it)))"

definition work_queue_delete :: "'a work_queue \<Rightarrow> nat option \<Rightarrow> ('a option \<times> 'a work_queue) option" where
  "work_queue_delete q work_item =
     (case (q_head q, work_item) of
        (Some h, Some w) \<Rightarrow>
          Option.bind (items q w) (\<lambda>it.
          let finish = \<lambda>q. let q = (if q_head q = None then q\<lparr>q_tail := None\<rparr> else q)
                in Some (Some (item_data it), q\<lparr>items := (items q)(w := None)\<rparr>)
          in if h = w then finish (q\<lparr>q_head := item_next it\<rparr>)
             else Option.bind (items q h) (\<lambda>first.
                  Option.bind (find_prev (items q) w h (item_next first)) (\<lambda>found.
                  case found of
                    None \<Rightarrow> Some (None, q)
                  | Some prev \<Rightarrow>
                      Option.bind (items q prev) (\<lambda>pit.
                      let q' = q\<lparr>items := (items q)(prev \<mapsto> pit\<lparr>item_next := item_next it\<rparr>)\<rparr>
                      in finish (if q_tail q = Some w then q'\<lparr>q_tail := Some prev\<rparr> else q')))))
      | _ \<Rightarrow> Some (None, q))"

section \<open>First in, first out\<close>

locale fifo =
  fixes holds :: "'q \<Rightarrow> 'a list \<Rightarrow> bool" and add :: "'q \<Rightarrow> 'a \<Rightarrow> 'q option" and pop :: "'q \<Rightarrow> ('a option \<times> 'q) option"
  assumes add_holds: "holds q xs \<Longrightarrow> \<exists>q'. add q x = Some q' \<and> holds q' (xs @ [x])"
    and pop_empty: "holds q [] \<Longrightarrow> pop q = Some (None, q)"
    and pop_holds: "holds q (x # xs) \<Longrightarrow> \<exists>q'. pop q = Some (Some x, q') \<and> holds q' xs"
begin

fun add_all :: "'q \<Rightarrow> 'a list \<Rightarrow> 'q option" where
  "add_all q [] = Some q"
| "add_all q (x # xs) = Option.bind (add q x) (\<lambda>q. add_all q xs)"

fun pop_all :: "nat \<Rightarrow> 'q \<Rightarrow> ('a option list \<times> 'q) option" where
  "pop_all 0 q = Some ([], q)"
| "pop_all (Suc n) q =
     Option.bind (pop q) (\<lambda>(x, q). Option.bind (pop_all n q) (\<lambda>(xs, q). Some (x # xs, q)))"

lemma add_all_holds: "holds q xs \<Longrightarrow> \<exists>q'. add_all q ys = Some q' \<and> holds q' (xs @ ys)"
proof (induction ys arbitrary: q xs)
  case (Cons y ys)
  from add_holds [OF Cons.prems] obtain q' where "add q y = Some q'" "holds q' (xs @ [y])" by blast
  with Cons.IH [of q' "xs @ [y]"] show ?case by simp
qed simp

lemma pop_all_holds:
  "holds q xs \<Longrightarrow> \<exists>q'. pop_all n q = Some (map Some (take n xs) @ replicate (n - length xs) None, q') \<and> holds q' (drop n xs)"
proof (induction n arbitrary: q xs)
  case (Suc n)
  show ?case
  proof (cases xs)
    case Nil
    with Suc pop_empty [of q] show ?thesis by fastforce
  next
    case (Cons x ys)
    with Suc.prems pop_holds obtain q' where "pop q = Some (Some x, q')" "holds q' ys" by blast
    with Suc.IH [of q' ys] Cons show ?thesis by auto
  qed
qed simp

end

section \<open>The linked list\<close>

text \<open>The items from \<open>p\<close> up to the pointer \<open>e\<close>, with their addresses.\<close>

fun chained :: "(nat \<Rightarrow> 'a work_item option) \<Rightarrow> nat option \<Rightarrow> (nat \<times> 'a) list \<Rightarrow> nat option \<Rightarrow> bool" where
  "chained heap p [] e \<longleftrightarrow> p = e"
| "chained heap p ((a, x) # xs) e \<longleftrightarrow>
     p = Some a \<and> (case heap a of None \<Rightarrow> False | Some it \<Rightarrow> item_data it = x \<and> chained heap (item_next it) xs e)"

definition queue_at :: "'a work_queue \<Rightarrow> (nat \<times> 'a) list \<Rightarrow> bool" where
  "queue_at q xs \<longleftrightarrow>
     chained (items q) (q_head q) xs None \<and> distinct (map fst xs) \<and> (\<forall>a \<in> set (map fst xs). a < unused q) \<and>
     q_tail q = (if xs = [] then None else Some (fst (last xs)))"

definition queue_holds :: "'a work_queue \<Rightarrow> 'a list \<Rightarrow> bool" where
  "queue_holds q xs \<longleftrightarrow> (\<exists>as. queue_at q as \<and> map snd as = xs)"

lemma chained_update [simp]: "b \<notin> set (map fst xs) \<Longrightarrow> chained (heap(b := v)) p xs e \<longleftrightarrow> chained heap p xs e"
  by (induction xs arbitrary: p) (auto split: option.splits)

lemma chained_append: "chained heap p (xs @ ys) e \<longleftrightarrow> (\<exists>m. chained heap p xs m \<and> chained heap m ys e)"
  by (induction heap p xs e rule: chained.induct) (auto split: option.splits)

lemma chained_snoc:
  "chained heap p (xs @ [(a, x)]) e \<longleftrightarrow> chained heap p xs (Some a) \<and> heap a = Some \<lparr>item_next = e, item_data = x\<rparr>"
  by (auto simp: chained_append split: option.splits)

lemma queue_add:
  assumes "queue_at q xs"
  shows "\<exists>q'. work_queue_add q x = Some q' \<and> queue_at q' (xs @ [(unused q, x)])"
proof (cases "xs = []")
  case True
  with assms show ?thesis by (auto simp: queue_at_def work_queue_add_def Let_def)
next
  case False
  then obtain ys t y where xs: "xs = ys @ [(t, y)]" by (metis prod.collapse rev_exhaust)
  from assms have c: "chained (items q) (q_head q) ys (Some t)" "items q t = Some \<lparr>item_next = None, item_data = y\<rparr>"
    and d: "distinct (map fst xs)" "\<forall>a \<in> set (map fst xs). a < unused q" "q_tail q = Some t"
    by (auto simp: queue_at_def xs chained_snoc)
  obtain h where h: "q_head q = Some h" using c(1) by (cases ys) auto
  have ne: "t \<noteq> unused q" "t \<notin> set (map fst ys)" "unused q \<notin> set (map fst ys)" using d by (auto simp: xs)
  define q' where "q' = q\<lparr>q_tail := Some (unused q), item_count := item_count q + 1, unused := unused q + 1,
    items := (items q)(unused q \<mapsto> \<lparr>item_next = None, item_data = x\<rparr>, t \<mapsto> \<lparr>item_next = Some (unused q), item_data = y\<rparr>)\<rparr>"
  have "work_queue_add q x = Some q'"
    using h c(2) ne d(3) by (simp add: work_queue_add_def q'_def Let_def)
  moreover have "chained (items q') (q_head q') ((ys @ [(t, y)]) @ [(unused q, x)]) None"
    unfolding chained_snoc using c(1) ne by (simp add: q'_def)
  moreover have "distinct (map fst (xs @ [(unused q, x)]))" using d(1,2) by auto
  moreover have "\<forall>a \<in> set (map fst (xs @ [(unused q, x)])). a < unused q'" using d(2) by (auto simp: q'_def less_Suc_eq)
  ultimately show ?thesis by (auto simp: queue_at_def xs q'_def)
qed

lemma queue_pop:
  assumes "queue_at q ((a, x) # xs)"
  shows "\<exists>q'. work_queue_pop q = Some (Some x, q') \<and> queue_at q' xs \<and> item_count q' = item_count q"
proof -
  from assms obtain nx where h: "q_head q = Some a" "items q a = Some \<lparr>item_next = nx, item_data = x\<rparr>"
    and c: "chained (items q) nx xs None"
    by (auto simp: queue_at_def split: option.splits) (metis work_item.surjective unit.exhaust)
  have "a \<notin> set (map fst xs)" using assms by (simp add: queue_at_def)
  moreover have "nx = None \<longleftrightarrow> xs = []" using c by (cases xs) auto
  ultimately show ?thesis using assms h c by (auto simp: work_queue_pop_def queue_at_def Let_def)
qed

lemma queue_pop_empty: "queue_at q [] \<Longrightarrow> work_queue_pop q = Some (None, q)"
  by (simp add: queue_at_def work_queue_pop_def)

interpretation wq: fifo queue_holds work_queue_add work_queue_pop
proof
  fix q :: "'a work_queue" and xs x
  show "\<exists>q'. work_queue_add q x = Some q' \<and> queue_holds q' (xs @ [x])" if h: "queue_holds q xs"
  proof -
    from h obtain as where "queue_at q as" "map snd as = xs" by (auto simp: queue_holds_def)
    with queue_add [of q as x] show ?thesis by (force simp: queue_holds_def)
  qed
  show "work_queue_pop q = Some (None, q)" if "queue_holds q []"
    using that by (auto simp: queue_holds_def queue_pop_empty)
  show "\<exists>q'. work_queue_pop q = Some (Some x, q') \<and> queue_holds q' xs" if h: "queue_holds q (x # xs)"
  proof -
    from h obtain a as where "queue_at q ((a, x) # as)" "map snd as = xs" by (auto simp: queue_holds_def Cons_eq_map_conv)
    with queue_pop [of q a x as] show ?thesis by (force simp: queue_holds_def)
  qed
qed

lemma queue_new: "queue_at work_queue_new []" "queue_holds work_queue_new []"
  by (simp_all add: queue_holds_def queue_at_def work_queue_new_def)

section \<open>Deletion\<close>

lemma find_prev_found:
  "chained heap node xs (Some w) \<Longrightarrow> w \<notin> set (map fst xs) \<Longrightarrow>
   find_prev heap w prev node = Some (Some (last (prev # map fst xs)))"
proof (induction xs arbitrary: prev node)
  case Nil
  then show ?case by (simp add: find_prev.simps)
next
  case (Cons b xs)
  then show ?case by (cases b) (subst find_prev.simps, auto split: option.splits)
qed

lemma find_prev_missing:
  "chained heap node xs None \<Longrightarrow> w \<notin> set (map fst xs) \<Longrightarrow> find_prev heap w prev node = Some None"
proof (induction xs arbitrary: prev node)
  case Nil
  then show ?case by (simp add: find_prev.simps)
next
  case (Cons b xs)
  then show ?case by (cases b) (subst find_prev.simps, auto split: option.splits)
qed


lemma queue_delete:
  assumes "queue_at q (xs @ (w, x) # ys)"
  shows "\<exists>q'. work_queue_delete q (Some w) = Some (Some x, q') \<and> queue_at q' (xs @ ys)"
proof (cases xs)
  case Nil
  with assms obtain nx where h: "q_head q = Some w" "items q w = Some \<lparr>item_next = nx, item_data = x\<rparr>"
    and c: "chained (items q) nx ys None"
    by (auto simp: queue_at_def split: option.splits) (metis work_item.surjective unit.exhaust)
  have "w \<notin> set (map fst ys)" using assms Nil by (simp add: queue_at_def)
  moreover have "nx = None \<longleftrightarrow> ys = []" using c by (cases ys) auto
  ultimately show ?thesis using assms Nil h c by (auto simp: work_queue_delete_def queue_at_def Let_def)
next
  case (Cons hd tl)
  then obtain us p y where xs: "xs = us @ [(p, y)]" by (metis list.distinct(1) prod.collapse rev_exhaust)
  from assms obtain nx where c: "chained (items q) (q_head q) us (Some p)" "items q p = Some \<lparr>item_next = Some w, item_data = y\<rparr>"
    "items q w = Some \<lparr>item_next = nx, item_data = x\<rparr>" "chained (items q) nx ys None"
    unfolding xs queue_at_def append_assoc append_Cons append_Nil chained_append
    by (auto split: option.splits) (metis work_item.surjective unit.exhaust)
  have d: "distinct (map fst us @ p # w # map fst ys)" and u: "\<forall>a \<in> set (map fst (xs @ ys)). a < unused q"
    and tail: "q_tail q = (if ys = [] then Some w else Some (fst (last ys)))"
    using assms by (auto simp: queue_at_def xs)
  have cx: "chained (items q) (q_head q) xs (Some w)" unfolding xs using c(1,2) by (simp add: chained_snoc)
  then obtain h k where hd: "hd = (h, k)" and h: "q_head q = Some h" unfolding Cons by (cases hd) auto
  from cx obtain first where first: "items q h = Some first" "chained (items q) (item_next first) tl (Some w)"
    unfolding Cons hd by (auto split: option.splits)
  have "distinct (map fst (((h, k) # tl) @ (w, x) # ys))" using assms unfolding Cons hd queue_at_def by blast
  then have ne: "h \<noteq> w" "w \<notin> set (map fst tl)" by auto
  have "last (h # map fst tl) = last (map fst xs)" by (simp add: Cons hd)
  then have prev: "find_prev (items q) w h (item_next first) = Some (Some p)"
    using find_prev_found [OF first(2) ne(2), of h] by (simp add: xs)
  define q' where "q' = q\<lparr>q_tail := (if q_tail q = Some w then Some p else q_tail q),
    items := (items q)(p \<mapsto> \<lparr>item_next = nx, item_data = y\<rparr>, w := None)\<rparr>"
  have pw: "p \<noteq> w" using d by auto
  have "work_queue_delete q (Some w) = Some (Some x, q')"
    using h ne(1) first(1) prev c(2,3) pw by (simp add: work_queue_delete_def Let_def q'_def)
  moreover have "chained (items q') (q_head q') (us @ (p, y) # ys) None"
    using c(1,4) d pw by (auto simp: q'_def chained_append)
  moreover have "q_tail q' = (if us @ (p, y) # ys = [] then None else Some (fst (last (us @ (p, y) # ys))))"
  proof -
    have "q_tail q \<noteq> Some w" if "ys \<noteq> []"
      using that tail d last_in_set [of "map fst ys"] by (auto simp: last_map)
    then show ?thesis using tail by (auto simp: q'_def)
  qed
  ultimately show ?thesis using d u by (auto simp: queue_at_def xs q'_def)
qed

lemma queue_delete_missing:
  assumes "queue_at q xs" "w \<notin> set (map fst xs)" "items q w \<noteq> None"
  shows "work_queue_delete q (Some w) = Some (None, q)"
proof (cases xs)
  case Nil
  with assms show ?thesis by (simp add: queue_at_def work_queue_delete_def)
next
  case (Cons b ys)
  moreover obtain h k where "b = (h, k)" by (cases b)
  ultimately have xs: "xs = (h, k) # ys" by simp
  from assms(1) obtain first where "q_head q = Some h" "items q h = Some first" "chained (items q) (item_next first) ys None"
    by (auto simp: queue_at_def xs split: option.splits)
  moreover have "find_prev (items q) w h (item_next first) = Some None"
    using calculation(3) assms(2) by (intro find_prev_missing) (auto simp: xs)
  ultimately show ?thesis using assms(2,3) by (auto simp: work_queue_delete_def xs)
qed

section \<open>The count\<close>

text \<open>Popping does not count down.\<close>

lemma pop_count: "work_queue_pop q = Some (x, q') \<Longrightarrow> item_count q' = item_count q"
  by (auto simp: work_queue_pop_def Let_def bind_eq_Some_conv split: option.splits)

lemma pop_all_count: "wq.pop_all n q = Some (xs, q') \<Longrightarrow> item_count q' = item_count q"
proof (induction n arbitrary: q xs)
  case (Suc n)
  then show ?case by (auto simp: bind_eq_Some_conv split: prod.splits dest: pop_count)
qed simp

lemma add_count:
  assumes "queue_at q xs" "work_queue_add q x = Some q'" "item_count q = int (length xs)"
  shows "item_count q' = int (length xs) + 1"
proof -
  have "q_head q = None \<longleftrightarrow> xs = []" using assms(1) by (cases xs) (auto simp: queue_at_def)
  with assms(2,3) show ?thesis by (auto simp: work_queue_add_def Let_def bind_eq_Some_conv split: if_splits)
qed

lemma add_all_count:
  "queue_at q xs \<Longrightarrow> item_count q = int (length xs) \<Longrightarrow> wq.add_all q ys = Some q' \<Longrightarrow> item_count q' = int (length xs + length ys)"
proof (induction ys arbitrary: q xs)
  case (Cons y ys)
  from queue_add [OF Cons.prems(1), of y] obtain q1 where
    1: "work_queue_add q y = Some q1" "queue_at q1 (xs @ [(unused q, y)])" by blast
  from Cons.IH [OF 1(2)] add_count [OF Cons.prems(1) 1(1) Cons.prems(2)] 1(1) Cons.prems(3) show ?case by simp
qed simp


end
