(* ===== verification/AtChannel.thy ===== *)
theory AtChannel
  imports WorkQueue AtParser
begin

text \<open>
  The AT channel, \<^verbatim>\<open>libs/aGPS/lib/atc.c\<close>: reading lines from the modem into a fixed buffer, writing commands,
  the classification of lines and the dispatch to registered callbacks.  The results of \<open>read\<close> and
  \<open>write\<close> are lists; the callbacks are functions on the line they are given and a state \<open>'s\<close>.
  \<open>None\<close> is an access outside a buffer or through a null pointer.
\<close>

section \<open>Reading\<close>

definition MAX_AT_RESPONSE :: nat where "MAX_AT_RESPONSE = 8 * 1024"

text \<open>What \<open>read\<close> finds: data (of which it takes no more than is asked for), an interruption, or an error.  At the end
  of the list it finds the end of the file.\<close>

datatype read_result = Got string | Interrupted | Failed

definition eol_char :: "char \<Rightarrow> bool" where
  "eol_char c \<longleftrightarrow> c = CHR 0x0D \<or> c = CHR 0x0A"

definition skip_eols :: "char list \<Rightarrow> nat \<Rightarrow> nat" where
  "skip_eols buf cur = cur + length (takeWhile eol_char (drop cur buf))"

definition findNextEOL :: "char list \<Rightarrow> nat \<Rightarrow> nat option" where
  "findNextEOL buf cur =
     (if buf ! cur = CHR ''>'' \<and> buf ! (cur + 1) = CHR '' '' \<and> buf ! (cur + 2) = NUL then Some (cur + 2)
      else let e = cur + length (takeWhile (\<lambda>c. c \<noteq> NUL \<and> \<not> eol_char c) (drop cur buf))
           in if buf ! e = NUL then None else Some e)"

definition weight :: "read_result \<Rightarrow> nat" where
  "weight r = (case r of Got s \<Rightarrow> Suc (length s) | _ \<Rightarrow> 1)"

definition unread :: "string \<Rightarrow> read_result list \<Rightarrow> read_result list" where
  "unread s rs = (if s = [] then rs else Got s # rs)"

text \<open>The \<open>while (p_eol == NULL)\<close> loop: the reads that are left, the buffer, \<open>s_ATBufferCur\<close>, and the end of line if one was
  read.\<close>

function fill :: "read_result list \<Rightarrow> char list \<Rightarrow> nat \<Rightarrow> nat \<Rightarrow> read_result list \<times> char list \<times> nat \<times> nat option" where
  "fill rs buf cur p_read =
     (let (buf, cur, p_read) = (if MAX_AT_RESPONSE - p_read = 0 then (buf[0 := NUL], 0, 0) else (buf, cur, p_read))
      in case rs of
           [] \<Rightarrow> ([], buf, cur, None)
         | Interrupted # rs \<Rightarrow> fill rs buf cur p_read
         | Failed # rs \<Rightarrow> (rs, buf, cur, None)
         | Got s # rs \<Rightarrow>
             let n = MAX_AT_RESPONSE - p_read; chunk = take n s
             in if chunk = [] then (rs, buf, cur, None)
                else let buf = take p_read buf @ chunk @ NUL # drop (p_read + length chunk + 1) buf;
                         cur = skip_eols buf cur; rs = unread (drop n s) rs
                     in case findNextEOL buf cur of
                          None \<Rightarrow> fill rs buf cur (p_read + length chunk)
                        | Some e \<Rightarrow> (rs, buf, cur, Some e))"
  by pat_completeness auto
termination
  by (relation "measure (\<lambda>(rs, buf, cur, p_read). sum_list (map weight rs))") (auto simp: weight_def unread_def split: if_splits)

declare fill.simps [simp del]

text \<open>The reads left, the buffer, \<open>s_ATBufferCur\<close>, and the line returned.\<close>

definition readline ::
  "read_result list \<Rightarrow> char list \<Rightarrow> nat \<Rightarrow> (read_result list \<times> char list \<times> nat \<times> nat option) option" where
  "readline rs buf cur =
     (if NUL \<notin> set (drop cur buf) then None
      else let (rs, buf, cur, p_eol) =
             (if buf ! cur = NUL then fill rs (buf[0 := NUL]) 0 0
              else let cur = skip_eols buf cur
                   in case findNextEOL buf cur of
                        Some e \<Rightarrow> (rs, buf, cur, Some e)
                      | None \<Rightarrow> let s = c_string buf cur
                                in fill rs (s @ NUL # drop (length s + 1) buf) 0 (length s))
           in case p_eol of
                None \<Rightarrow> Some (rs, buf, cur, None)
              | Some e \<Rightarrow> Some (rs, buf[e := NUL], e + 1, Some cur))"

section \<open>Writing\<close>

datatype write_result = Wrote nat | Write_interrupted | Write_again | Write_failed

text \<open>The loop over \<open>write\<close>: the text that has left, with the function's result, \<open>None\<close> when it waits for ever.\<close>

fun write_loop :: "write_result list \<Rightarrow> string \<Rightarrow> string \<times> int option \<times> write_result list" where
  "write_loop ws [] = ([], Some 0, ws)"
| "write_loop [] text = ([], None, [])"
| "write_loop (Wrote n # ws) text =
     (let (sent, r) = write_loop ws (drop n text) in (take n text @ sent, r))"
| "write_loop (Write_interrupted # ws) text = write_loop ws text"
| "write_loop (Write_again # ws) text = write_loop ws text"
| "write_loop (Write_failed # ws) text = ([], Some (-2), ws)"

text \<open>\<open>s\<close> is the C string at the argument, copied with its terminator and the carriage return into an array of
  \<open>len + 2\<close> bytes; \<open>None\<close> also where bytes behind it would be sent that were never written.\<close>

definition writeline :: "int \<Rightarrow> write_result list \<Rightarrow> string \<Rightarrow> nat \<Rightarrow> (string \<times> int option \<times> write_result list) option" where
  "writeline fd ws s len =
     (if fd < 0 then Some ([], Some (-1), ws)
      else if len + 2 < length s + 2 then None
      else let new_s = s @ [CHR 0x0D, NUL]
           in if length new_s < len + 1 then None else Some (write_loop ws (take (len + 1) new_s)))"

section \<open>Lines\<close>

definition s_finalResponsesError :: "string list" where
  "s_finalResponsesError = [''ERROR'', ''+CMS ERROR:'', ''+CME ERROR:'', ''NO CARRIER'', ''NO ANSWER'', ''NO DIALTONE'']"

definition s_finalResponsesSuccess :: "string list" where
  "s_finalResponsesSuccess = [''OK'', ''CONNECT'']"

definition isFinalResponseError :: "string \<Rightarrow> bool" where
  "isFinalResponseError line = list_ex (strStartsWith line) s_finalResponsesError"

definition isFinalResponseSuccess :: "string \<Rightarrow> bool" where
  "isFinalResponseSuccess line = list_ex (strStartsWith line) s_finalResponsesSuccess"

definition isFinalResponse :: "string \<Rightarrow> bool" where
  "isFinalResponse line \<longleftrightarrow> isFinalResponseSuccess line \<or> isFinalResponseError line"

record 's at_unso_node =
  prefix_unso :: string
  unso_cb :: "(char list \<Rightarrow> nat \<Rightarrow> 's \<Rightarrow> (int \<times> char list \<times> 's) option) option"

record 's at_channel =
  fd :: int
  chan_queue :: "'s at_unso_node work_queue"
  success :: bool
  finalResponse :: "string option"
  s_ATBuffer :: "char list"
  s_ATBufferCur :: nat

definition handleFinalResponse :: "'s at_channel \<Rightarrow> string \<Rightarrow> 's at_channel" where
  "handleFinalResponse atc line = atc\<lparr>finalResponse := Some line\<rparr>"

text \<open>The walk over the queue.  The line is a buffer that ends with its terminator, and a callback may write into it.\<close>

partial_function (option) unso_walk ::
  "(nat \<Rightarrow> 's at_unso_node work_item option) \<Rightarrow> nat option \<Rightarrow> char list \<Rightarrow> 's \<Rightarrow> (char list \<times> 's) option" where
  "unso_walk heap node line s =
     (case node of
        None \<Rightarrow> Some (line, s)
      | Some p \<Rightarrow>
          Option.bind (heap p) (\<lambda>it.
          if strStartsWith (c_string line 0) (prefix_unso (item_data it))
          then case unso_cb (item_data it) of
                 None \<Rightarrow> unso_walk heap (item_next it) line s
               | Some cb \<Rightarrow>
                   Option.bind (cb line (length (c_string line 0)) s) (\<lambda>(ret, line, s).
                   unso_walk heap (item_next it) line s)
          else unso_walk heap (item_next it) line s))"

definition match_unsolicited_cb :: "'s at_channel \<Rightarrow> char list \<Rightarrow> 's \<Rightarrow> (char list \<times> 's) option" where
  "match_unsolicited_cb atc line s = unso_walk (items (chan_queue atc)) (q_head (chan_queue atc)) line s"

definition processLine :: "'s at_channel \<Rightarrow> char list \<Rightarrow> 's \<Rightarrow> ('s at_channel \<times> char list \<times> 's) option" where
  "processLine atc line s =
     (let str = c_string line 0
      in if isFinalResponseSuccess str then Some (handleFinalResponse (atc\<lparr>success := True\<rparr>) str, line, s)
         else if isFinalResponseError str then Some (handleFinalResponse (atc\<lparr>success := False\<rparr>) str, line, s)
         else Option.bind (match_unsolicited_cb atc line s) (\<lambda>(line, s). Some (atc, line, s)))"

text \<open>One round of the loop gives the channel, the state and whether the loop goes on; the line lies in the buffer from \<open>ret\<close>
  to its terminator.\<close>

definition reader_round ::
  "read_result list \<Rightarrow> 's at_channel \<Rightarrow> 's \<Rightarrow> (bool \<times> read_result list \<times> 's at_channel \<times> 's) option" where
  "reader_round rs atc s =
     Option.bind (readline rs (s_ATBuffer atc) (s_ATBufferCur atc)) (\<lambda>(rs, buf, cur, ret).
     let atc = atc\<lparr>s_ATBuffer := buf, s_ATBufferCur := cur\<rparr>
     in case ret of
          None \<Rightarrow> Some (False, rs, atc, s)
        | Some i \<Rightarrow>
            Option.bind (processLine atc (take (cur - i) (drop i buf)) s) (\<lambda>(atc, line, s).
            Some (True, rs, atc\<lparr>s_ATBuffer := take i buf @ line @ drop (i + length line) buf\<rparr>, s)))"

partial_function (option) readerLoop ::
  "read_result list \<Rightarrow> 's at_channel \<Rightarrow> 's \<Rightarrow> (read_result list \<times> 's at_channel \<times> 's) option" where
  "readerLoop rs atc s =
     Option.bind (reader_round rs atc s) (\<lambda>(go, rs, atc, s). if go then readerLoop rs atc s else Some (rs, atc, s))"

section \<open>Registration and channels\<close>

definition atc_register_unsolicited ::
  "'s at_channel option \<Rightarrow> string \<Rightarrow> (char list \<Rightarrow> nat \<Rightarrow> 's \<Rightarrow> (int \<times> char list \<times> 's) option) option
   \<Rightarrow> (int \<times> 's at_channel option) option" where
  "atc_register_unsolicited atc prefix cb =
     (case atc of
        None \<Rightarrow> Some (-1, None)
      | Some atc \<Rightarrow>
          Option.bind (work_queue_add (chan_queue atc) \<lparr>prefix_unso = prefix, unso_cb = cb\<rparr>) (\<lambda>q.
          Some (0, Some (atc\<lparr>chan_queue := q\<rparr>))))"

text \<open>The first of the two channels that is not in use; its buffer and its last response stay as they are.\<close>

fun free_channel :: "'s at_channel list \<Rightarrow> nat option" where
  "free_channel [] = None"
| "free_channel (c # cs) = (if fd c \<le> 0 then Some 0 else map_option Suc (free_channel cs))"

definition atc_init :: "int \<Rightarrow> int \<Rightarrow> 's at_channel list \<Rightarrow> nat option \<times> 's at_channel list" where
  "atc_init open_result fd_arg atcs =
     (case free_channel atcs of
        None \<Rightarrow> (None, atcs)
      | Some i \<Rightarrow>
          let f = (if fd_arg < 0 then open_result else fd_arg); c = (atcs ! i)\<lparr>fd := f\<rparr>
          in if f < 0 then (None, atcs[i := c])
             else (Some i, atcs[i := c\<lparr>s_ATBufferCur := 0, chan_queue := work_queue_new\<rparr>]))"

text \<open>With no channel given, the first is opened when it is not open yet.\<close>

definition atc_try_init :: "nat option \<Rightarrow> int \<Rightarrow> 's at_channel list \<Rightarrow> nat option \<times> 's at_channel list" where
  "atc_try_init atc open_result atcs =
     (case atc of
        Some i \<Rightarrow> (Some i, atcs)
      | None \<Rightarrow> if fd (atcs ! 0) \<le> 0 then atc_init open_result (-1) atcs else (Some 0, atcs))"

end
