(* ===== verification/AtChannelProps.thy ===== *)
theory AtChannelProps
  imports AtChannel
begin

text \<open>
  The reader of the AT channel: in whatever pieces the bytes arrive, it handles exactly the lines of the stream.
\<close>

section \<open>The lines of a text\<close>

text \<open>The first complete line, without the line ends before it, and what follows its own.\<close>

definition next_line :: "string \<Rightarrow> (string \<times> string) option" where
  "next_line S =
     (let t = dropWhile eol_char S; r = dropWhile (\<lambda>c. \<not> eol_char c) t
      in if r = [] then None else Some (takeWhile (\<lambda>c. \<not> eol_char c) t, tl r))"

lemma next_line_shorter: "next_line S = Some (l, r) \<Longrightarrow> length r < length S"
proof -
  assume n: "next_line S = Some (l, r)"
  define t where "t = dropWhile eol_char S"
  have "dropWhile (\<lambda>c. \<not> eol_char c) t \<noteq> []" "r = tl (dropWhile (\<lambda>c. \<not> eol_char c) t)"
    using n by (auto simp: next_line_def t_def Let_def split: if_splits)
  moreover have "length (dropWhile (\<lambda>c. \<not> eol_char c) t) \<le> length S"
    using length_dropWhile_le [of "\<lambda>c. \<not> eol_char c" t] length_dropWhile_le [of eol_char S] by (simp add: t_def)
  ultimately show ?thesis by (cases "dropWhile (\<lambda>c. \<not> eol_char c) t") auto
qed

function lines :: "string \<Rightarrow> string list" where
  "lines S = (case next_line S of None \<Rightarrow> [] | Some (l, r) \<Rightarrow> l # lines r)"
  by pat_completeness auto
termination
  by (relation "measure length") (auto dest: next_line_shorter)

text \<open>A stream the buffer copes with: no line, with the line ends before it, is longer than 8191 characters, and none
  begins with the SMS prompt, which \<open>findNextEOL\<close> takes for a line when it comes last in the buffer.\<close>

definition prompt :: string where "prompt = ''> ''"

function readable :: "string \<Rightarrow> bool" where
  "readable S =
     (case next_line S of
        None \<Rightarrow> length S \<le> 8191 \<and> take 2 (dropWhile eol_char S) \<noteq> prompt
      | Some (l, r) \<Rightarrow> length S - length r \<le> 8192 \<and> take 2 l \<noteq> prompt \<and> readable r)"
  by pat_completeness auto
termination
  by (relation "measure length") (auto dest: next_line_shorter)

declare lines.simps [simp del] readable.simps [simp del]

fun read_text :: "read_result list \<Rightarrow> string" where
  "read_text [] = []"
| "read_text (Got s # rs) = s @ read_text rs"
| "read_text (Interrupted # rs) = read_text rs"
| "read_text (Failed # rs) = read_text rs"

definition good_reads :: "read_result list \<Rightarrow> bool" where
  "good_reads = list_all (\<lambda>r. case r of Got s \<Rightarrow> s \<noteq> [] \<and> NUL \<notin> set s | Interrupted \<Rightarrow> True | Failed \<Rightarrow> False)"

section \<open>The buffer\<close>

text \<open>From \<open>cur\<close> to \<open>p\<close> the buffer holds the text \<open>t\<close>, then the terminator.\<close>

definition loaded :: "char list \<Rightarrow> nat \<Rightarrow> nat \<Rightarrow> string \<Rightarrow> bool" where
  "loaded buf cur p t \<longleftrightarrow>
     length buf = 8193 \<and> p \<le> 8192 \<and> NUL \<notin> set t \<and> p = cur + length t \<and> (\<exists>post. drop cur buf = t @ NUL # post)"

lemma loadedI: "buf = pre @ t @ NUL # post \<Longrightarrow> length buf = 8193 \<Longrightarrow> cur = length pre \<Longrightarrow> p = cur + length t \<Longrightarrow> NUL \<notin> set t \<Longrightarrow>
  loaded buf cur p t"
  by (auto simp: loaded_def)

lemma loadedE:
  assumes "loaded buf cur p t"
  obtains pre post where "buf = pre @ t @ NUL # post" "length pre = cur" "p = cur + length t" "length buf = 8193" "p \<le> 8192" "NUL \<notin> set t"
proof -
  from assms obtain post where d: "drop cur buf = t @ NUL # post" and l: "length buf = 8193" "p \<le> 8192" "NUL \<notin> set t" "p = cur + length t"
    by (auto simp: loaded_def)
  moreover have "buf = take cur buf @ t @ NUL # post" using d by (metis append_take_drop_id)
  moreover have "length (take cur buf) = cur" using l by simp
  ultimately show ?thesis using that by blast
qed

lemma loaded_skip: "loaded buf cur p t \<Longrightarrow> skip_eols buf cur = cur + length (takeWhile eol_char t) \<and> loaded buf (skip_eols buf cur) p (dropWhile eol_char t)"
proof -
  assume "loaded buf cur p t"
  then obtain pre post where b: "buf = pre @ t @ NUL # post" "length pre = cur" "p = cur + length t" "length buf = 8193" "p \<le> 8192" "NUL \<notin> set t"
    by (rule loadedE)
  have "\<not> eol_char NUL" by (simp add: eol_char_def)
  then have s: "skip_eols buf cur = cur + length (takeWhile eol_char t)"
    using b by (simp add: skip_eols_def takeWhile_append) (metis (no_types) takeWhile_eq_all_conv)
  have "loaded buf (cur + length (takeWhile eol_char t)) p (dropWhile eol_char t)"
  proof (rule loadedI [where pre = "pre @ takeWhile eol_char t" and post = post])
    show "buf = (pre @ takeWhile eol_char t) @ dropWhile eol_char t @ NUL # post"
      unfolding b(1) append_assoc by (simp only: append_assoc [symmetric, of "takeWhile eol_char t"] takeWhile_dropWhile_id)
    show "NUL \<notin> set (dropWhile eol_char t)" using b(6) by (meson set_dropWhileD)
    have "length (takeWhile eol_char t) + length (dropWhile eol_char t) = length t"
      by (metis length_append takeWhile_dropWhile_id)
    then show "p = cur + length (takeWhile eol_char t) + length (dropWhile eol_char t)" using b by simp
  qed (use b in simp_all)
  then show ?thesis by (simp add: s)
qed

lemma find_none:
  assumes "loaded buf cur p t" "\<forall>c \<in> set t. \<not> eol_char c" "t \<noteq> prompt"
  shows "findNextEOL buf cur = None"
proof -
  from assms(1) obtain pre post where b: "buf = pre @ t @ NUL # post" "length pre = cur" "p = cur + length t" "length buf = 8193" "p \<le> 8192" "NUL \<notin> set t"
    by (rule loadedE)
  have "takeWhile (\<lambda>c. c \<noteq> NUL \<and> \<not> eol_char c) (t @ NUL # post) = t"
    using assms(2) b(6) by (subst takeWhile_append2) auto
  then have e: "cur + length (takeWhile (\<lambda>c. c \<noteq> NUL \<and> \<not> eol_char c) (drop cur buf)) = cur + length t"
    using b by simp
  have "\<not> (buf ! cur = CHR ''>'' \<and> buf ! (cur + 1) = CHR '' '' \<and> buf ! (cur + 2) = NUL)"
    using assms(3) b(2,6) unfolding prompt_def b(1)
    by (cases t; cases "tl t"; cases "tl (tl t)") (auto simp: nth_append)
  moreover have "buf ! (cur + length t) = NUL" using b by (simp add: nth_append)
  ultimately show ?thesis using e by (simp add: findNextEOL_def Let_def)
qed

lemma find_some:
  assumes "loaded buf cur p (l @ d # r)" "\<forall>c \<in> set l. \<not> eol_char c" "eol_char d"
  shows "findNextEOL buf cur = Some (cur + length l)"
proof -
  from assms(1) obtain pre post where b: "buf = pre @ (l @ d # r) @ NUL # post" "length pre = cur" "NUL \<notin> set (l @ d # r)"
    by (rule loadedE)
  have "takeWhile (\<lambda>c. c \<noteq> NUL \<and> \<not> eol_char c) (l @ d # r @ NUL # post) = l"
    using assms(2,3) b(3) by (subst takeWhile_append2) auto
  then have e: "cur + length (takeWhile (\<lambda>c. c \<noteq> NUL \<and> \<not> eol_char c) (drop cur buf)) = cur + length l"
    using b by simp
  have "\<not> (buf ! cur = CHR ''>'' \<and> buf ! (cur + 1) = CHR '' '' \<and> buf ! (cur + 2) = NUL)"
    using assms(3) b(2,3) unfolding b(1)
    by (cases l; cases "tl l"; cases "tl (tl l)") (auto simp: nth_append eol_char_def)
  moreover have "buf ! (cur + length l) = d" using b by (simp add: nth_append)
  moreover have "d \<noteq> NUL" using b(3) by auto
  ultimately show ?thesis using e by (auto simp: findNextEOL_def Let_def simp del: One_nat_def)
qed


lemma loaded_append:
  assumes "loaded buf cur p t" "NUL \<notin> set s" "p + length s \<le> 8192"
  shows "loaded (take p buf @ s @ NUL # drop (p + length s + 1) buf) cur (p + length s) (t @ s)"
proof -
  from assms(1) obtain pre post where b: "buf = pre @ t @ NUL # post" "length pre = cur" "p = cur + length t" "length buf = 8193" "p \<le> 8192" "NUL \<notin> set t"
    by (rule loadedE)
  have "take p buf = pre @ t" using b by simp
  then show ?thesis
    using assms(2,3) b(2-6)
    by (intro loadedI [where pre = pre and post = "drop (p + length s + 1) buf"]) auto
qed

text \<open>When a line ends in the text read so far, and when not.\<close>

lemma next_line_Some:
  assumes "next_line S = Some (l, r)"
  obtains d where "dropWhile eol_char S = l @ d # r" "eol_char d" "\<forall>c \<in> set l. \<not> eol_char c"
proof -
  define t where "t = dropWhile eol_char S"
  have n: "dropWhile (\<lambda>c. \<not> eol_char c) t \<noteq> []" "l = takeWhile (\<lambda>c. \<not> eol_char c) t" "r = tl (dropWhile (\<lambda>c. \<not> eol_char c) t)"
    using assms by (auto simp: next_line_def t_def Let_def split: if_splits)
  then have "t = l @ hd (dropWhile (\<lambda>c. \<not> eol_char c) t) # r" by simp
  moreover have "eol_char (hd (dropWhile (\<lambda>c. \<not> eol_char c) t))" using hd_dropWhile [OF n(1)] by simp
  moreover have "\<forall>c \<in> set l. \<not> eol_char c" unfolding n(2) using set_takeWhileD by fastforce
  ultimately show ?thesis using that unfolding t_def by blast
qed

lemma next_line_I: "\<forall>c \<in> set l. \<not> eol_char c \<Longrightarrow> eol_char d \<Longrightarrow> dropWhile eol_char S = l @ d # r \<Longrightarrow> next_line S = Some (l, r)"
  by (simp add: next_line_def takeWhile_append dropWhile_append)

lemma next_line_skip [simp]: "next_line (dropWhile eol_char S) = next_line S"
  by (simp add: next_line_def dropWhile_idem)

text \<open>Text without its leading line ends either holds a line end, and then its first line, or is the beginning of one.\<close>

lemma next_line_cases:
  assumes "next_line (u @ v) = Some (l, r)" "u = [] \<or> \<not> eol_char (hd u)"
  obtains (ended) d r' where "u = l @ d # r'" "r = r' @ v" "eol_char d" "\<forall>c \<in> set l. \<not> eol_char c"
    | (open_line) "\<forall>c \<in> set u. \<not> eol_char c"
proof -
  from next_line_Some [OF assms(1)] obtain d where d: "dropWhile eol_char (u @ v) = l @ d # r" "eol_char d" "\<forall>c \<in> set l. \<not> eol_char c" .
  show ?thesis
  proof (cases "\<forall>c \<in> set u. \<not> eol_char c")
    case True
    then show ?thesis by (rule open_line)
  next
    case False
    then obtain c where c: "c \<in> set u" "eol_char c" by blast
    then have "u @ v = l @ d # r" using d(1) assms(2) by (cases u) auto
    then obtain w where w: "u @ w = l \<or> u = l @ w \<and> w @ v = d # r" by (auto simp: append_eq_append_conv2)
    moreover have "w \<noteq> []" "u @ w \<noteq> l" using w c d(3) by auto
    ultimately obtain r' where "u = l @ d # r'" "r = r' @ v" by (cases w) auto
    with d show ?thesis by (rule_tac ended)
  qed
qed


section \<open>Filling the buffer\<close>

lemma MAX_AT_RESPONSE_eq: "MAX_AT_RESPONSE = 8192"
  by (simp add: MAX_AT_RESPONSE_def)

lemma fill_interrupted: "p < 8192 \<Longrightarrow> fill (Interrupted # rs) buf cur p = fill rs buf cur p"
  by (subst fill.simps) (simp add: MAX_AT_RESPONSE_eq)

lemma fill_got:
  assumes "p < 8192" "s \<noteq> []" "chunk = take (8192 - p) s" "b = take p buf @ chunk @ NUL # drop (p + length chunk + 1) buf"
  shows "fill (Got s # rs) buf cur p =
    (case findNextEOL b (skip_eols b cur) of
       None \<Rightarrow> fill (unread (drop (8192 - p) s) rs) b (skip_eols b cur) (p + length chunk)
     | Some e \<Rightarrow> (unread (drop (8192 - p) s) rs, b, skip_eols b cur, Some e))"
proof -
  have "chunk \<noteq> []" using assms(1-3) by simp
  then show ?thesis using assms(1) unfolding assms(4)
    by (subst fill.simps) (simp add: MAX_AT_RESPONSE_eq Let_def assms(3) split: option.split)
qed

lemma read_text_unread [simp]: "read_text (unread s rs) = s @ read_text rs"
  by (simp add: unread_def)

lemma good_reads_unread: "good_reads (Got s # rs) \<Longrightarrow> good_reads (unread (drop n s) rs)"
  by (auto simp: good_reads_def unread_def dest: in_set_dropD)

lemma dropWhile_append_skip: "dropWhile P (xs @ ys) = dropWhile P (dropWhile P xs @ ys)"
  by (induction xs) auto

lemma next_line_append_skip: "next_line (dropWhile eol_char xs @ ys) = next_line (xs @ ys)"
  unfolding next_line_def dropWhile_append_skip [of eol_char xs ys] ..

text \<open>An open line is shorter than the line it becomes.\<close>

lemma open_line_prefix:
  assumes "next_line (u @ v) = Some (l, r)" "\<forall>c \<in> set u. \<not> eol_char c" "u \<noteq> []"
  shows "\<exists>w. l = u @ w"
proof -
  from next_line_Some [OF assms(1)] obtain d where d: "dropWhile eol_char (u @ v) = l @ d # r" "eol_char d" .
  moreover have "dropWhile eol_char (u @ v) = u @ v" using assms(2,3) by (cases u) auto
  ultimately have e: "u @ v = l @ d # r" by simp
  then obtain w where "u @ w = l \<or> u = l @ w \<and> w @ v = d # r" by (auto simp: append_eq_append_conv2)
  moreover have "w = []" if "u = l @ w" "w @ v = d # r" using that d(2) assms(2) by (cases w) auto
  ultimately show ?thesis by auto
qed

lemma next_line_length: "next_line S = Some (l, r) \<Longrightarrow> length l + length r < length S"
proof -
  assume "next_line S = Some (l, r)"
  then obtain d where "dropWhile eol_char S = l @ d # r" by (rule next_line_Some)
  then have "length (l @ d # r) \<le> length S" using length_dropWhile_le [of eol_char S] by metis
  then show ?thesis by simp
qed

definition line_read :: "read_result list \<times> char list \<times> nat \<times> nat option \<Rightarrow> string \<Rightarrow> string \<Rightarrow> bool" where
  "line_read res l r \<longleftrightarrow>
     (\<exists>rs buf cur p d t. res = (rs, buf, cur, Some (cur + length l)) \<and> loaded buf cur p (l @ d # t) \<and> eol_char d \<and>
        t @ read_text rs = r \<and> good_reads rs)"

lemma fill_line:
  assumes "good_reads rs" "loaded buf cur p t" "\<forall>c \<in> set t. \<not> eol_char c" "next_line (t @ read_text rs) = Some (l, r)"
    and "cur + (length (t @ read_text rs) - length r) \<le> 8192" "take 2 l \<noteq> prompt"
  shows "line_read (fill rs buf cur p) l r"
  using assms
proof (induction "sum_list (map weight rs)" arbitrary: rs buf cur p t rule: less_induct)
  case less
  have p: "p = cur + length t" using less.prems(2) by (simp add: loaded_def)
  have "length t \<le> length l"
    using open_line_prefix [OF less.prems(4,3)] by (cases "t = []") auto
  then have p8: "p < 8192" using next_line_length [OF less.prems(4)] less.prems(5) p by simp
  show ?case
  proof (cases rs)
    case Nil
    with less.prems(3,4) show ?thesis by (auto elim!: next_line_Some dest!: arg_cong [where f = set] set_dropWhileD)
  next
    case (Cons a rs')
    show ?thesis
    proof (cases a)
      case Interrupted
      with less Cons p8 show ?thesis by (simp add: fill_interrupted weight_def good_reads_def)
    next
      case Failed
      with less.prems(1) Cons show ?thesis by (simp add: good_reads_def)
    next
      case (Got s)
      have rs: "rs = Got s # rs'" and s: "s \<noteq> []" "NUL \<notin> set s"
        using less.prems(1) Cons Got by (simp_all add: good_reads_def)
      define chunk where "chunk = take (8192 - p) s"
      define b where "b = take p buf @ chunk @ NUL # drop (p + length chunk + 1) buf"
      define v where "v = drop (8192 - p) s @ read_text rs'"
      have content: "read_text rs = chunk @ v" by (simp add: rs chunk_def v_def)
      have "loaded b cur (p + length chunk) (t @ chunk)"
        unfolding b_def using s(2) p8 by (intro loaded_append less.prems(2)) (auto simp: chunk_def dest: in_set_takeD)
      then have sk: "skip_eols b cur = cur + length (takeWhile eol_char (t @ chunk))"
        and ld: "loaded b (skip_eols b cur) (p + length chunk) (dropWhile eol_char (t @ chunk))"
        using loaded_skip by blast+
      define u where "u = dropWhile eol_char (t @ chunk)"
      have nl: "next_line (u @ v) = Some (l, r)"
        unfolding u_def next_line_append_skip using less.prems(4) by (simp add: content)
      have hd: "u = [] \<or> \<not> eol_char (hd u)" using hd_dropWhile unfolding u_def by blast
      have gr: "good_reads (unread (drop (8192 - p) s) rs')" using less.prems(1) unfolding rs by (rule good_reads_unread)
      note step = fill_got [OF p8 s(1) chunk_def b_def]
      show ?thesis using nl hd
      proof (cases rule: next_line_cases)
        case (ended d r')
        have "findNextEOL b (skip_eols b cur) = Some (skip_eols b cur + length l)"
          using ld ended(4,3) unfolding u_def [symmetric] ended(1) by (rule find_some)
        then show ?thesis
          using ld gr ended(2,3) unfolding u_def [symmetric] ended(1) rs
          by (auto simp: step line_read_def v_def)
      next
        case open_line
        have "u \<noteq> prompt"
        proof
          assume "u = prompt"
          with open_line_prefix [OF nl open_line] have "take 2 l = prompt" by (auto simp: prompt_def)
          with less.prems(6) show False by simp
        qed
        then have f: "findNextEOL b (skip_eols b cur) = None"
          by (rule find_none [OF ld [folded u_def] open_line])
        have "length (takeWhile eol_char (t @ chunk)) + length u = length (t @ chunk)"
          unfolding u_def by (metis length_append takeWhile_dropWhile_id)
        moreover have "length r \<le> length (u @ v)" using next_line_length [OF nl] by simp
        ultimately have "skip_eols b cur + (length (u @ v) - length r) \<le> 8192"
          using less.prems(5) unfolding sk content by simp
        moreover have "sum_list (map weight (unread (drop (8192 - p) s) rs')) < sum_list (map weight rs)"
          using p8 s(1) by (auto simp: rs weight_def unread_def)
        ultimately have "line_read (fill (unread (drop (8192 - p) s) rs') b (skip_eols b cur) (p + length chunk)) l r"
          using gr ld open_line nl less.prems(6) unfolding u_def [symmetric] v_def
          by (intro less.hyps) simp_all
        then show ?thesis by (simp add: rs step f)
      qed
    qed
  qed
qed


lemma next_line_None: "next_line S = None \<longleftrightarrow> (\<forall>c \<in> set (dropWhile eol_char S). \<not> eol_char c)"
  by (auto simp: next_line_def Let_def dropWhile_eq_Nil_conv)

text \<open>What is left at the end of the file is not a line.\<close>

lemma fill_eof:
  assumes "good_reads rs" "loaded buf cur p t" "\<forall>c \<in> set t. \<not> eol_char c" "next_line (t @ read_text rs) = None"
    and "cur + length (t @ read_text rs) \<le> 8191" "take 2 (dropWhile eol_char (t @ read_text rs)) \<noteq> prompt"
  shows "\<exists>buf' cur'. fill rs buf cur p = ([], buf', cur', None)"
  using assms
proof (induction "sum_list (map weight rs)" arbitrary: rs buf cur p t rule: less_induct)
  case less
  have p: "p = cur + length t" using less.prems(2) by (simp add: loaded_def)
  then have p8: "p < 8192" using less.prems(5) by simp
  show ?case
  proof (cases rs)
    case Nil
    then show ?thesis using p8 by (subst fill.simps) (simp add: MAX_AT_RESPONSE_eq)
  next
    case (Cons a rs')
    show ?thesis
    proof (cases a)
      case Interrupted
      with less Cons p8 show ?thesis by (simp add: fill_interrupted weight_def good_reads_def)
    next
      case Failed
      with less.prems(1) Cons show ?thesis by (simp add: good_reads_def)
    next
      case (Got s)
      have rs: "rs = Got s # rs'" and s: "s \<noteq> []" "NUL \<notin> set s" "good_reads rs'"
        using less.prems(1) Cons Got by (simp_all add: good_reads_def)
      have len: "p + length s \<le> 8191" using less.prems(5) p by (simp add: rs)
      define b where "b = take p buf @ s @ NUL # drop (p + length s + 1) buf"
      define u where "u = dropWhile eol_char (t @ s)"
      have "loaded b cur (p + length s) (t @ s)"
        unfolding b_def using s(2) len by (intro loaded_append less.prems(2)) auto
      then have sk: "skip_eols b cur = cur + length (takeWhile eol_char (t @ s))"
        and ld: "loaded b (skip_eols b cur) (p + length s) u"
        unfolding u_def using loaded_skip by blast+
      have u: "dropWhile eol_char (u @ read_text rs') = dropWhile eol_char (t @ read_text rs)"
        by (simp add: rs u_def dropWhile_append_skip [symmetric])
      have open_line: "\<forall>c \<in> set u. \<not> eol_char c"
      proof (cases "u = []")
        case False
        then have "\<not> eol_char (hd u)" unfolding u_def by (rule hd_dropWhile)
        with False have "dropWhile eol_char (u @ read_text rs') = u @ read_text rs'" by (cases u) auto
        then show ?thesis using less.prems(4) u by (simp add: next_line_None)
      qed simp
      have "u \<noteq> prompt"
        using less.prems(6) unfolding u [symmetric] by (auto simp: prompt_def eol_char_def)
      then have f: "findNextEOL b (skip_eols b cur) = None" by (rule find_none [OF ld open_line])
      have "length (takeWhile eol_char (t @ s)) + length u = length (t @ s)"
        unfolding u_def by (metis length_append takeWhile_dropWhile_id)
      then have "skip_eols b cur + length (u @ read_text rs') \<le> 8191" using less.prems(5) unfolding sk rs by simp
      moreover have "next_line (u @ read_text rs') = None"
        using less.prems(4) unfolding next_line_None u .
      moreover have "take 2 (dropWhile eol_char (u @ read_text rs')) \<noteq> prompt" using less.prems(6) unfolding u .
      ultimately have "\<exists>buf' cur'. fill rs' b (skip_eols b cur) (p + length s) = ([], buf', cur', None)"
        using s(3) ld open_line by (intro less.hyps) (simp_all add: rs weight_def)
      moreover have "take (8192 - p) s = s" "drop (8192 - p) s = []" using len by simp_all
      ultimately show ?thesis using fill_got [OF p8 s(1) refl refl, of rs' buf cur] f by (simp add: rs b_def unread_def)
    qed
  qed
qed

section \<open>One line\<close>

definition at_start :: "char list \<Rightarrow> nat \<Rightarrow> string \<Rightarrow> bool" where
  "at_start buf cur t \<longleftrightarrow> (\<exists>p. loaded buf cur p t)"

lemma loaded_front: "length buf = 8193 \<Longrightarrow> NUL \<notin> set u \<Longrightarrow> length u \<le> 8192 \<Longrightarrow>
  loaded (u @ NUL # drop (length u + 1) buf) 0 (length u) u"
  by (rule loadedI [where pre = "[]"]) simp_all

lemma readline_line:
  assumes "at_start buf cur t" "good_reads rs" "next_line (t @ read_text rs) = Some (l, r)"
    and "length (t @ read_text rs) - length r \<le> 8192" "take 2 l \<noteq> prompt"
  shows "\<exists>rs' buf' cur' t' i. readline rs buf cur = Some (rs', buf', cur', Some i) \<and> take (cur' - i) (drop i buf') = l @ [NUL] \<and>
    i + length l + 1 = cur' \<and> at_start buf' cur' t' \<and> t' @ read_text rs' = r \<and> good_reads rs'"
proof -
  obtain p where ld: "loaded buf cur p t" using assms(1) by (auto simp: at_start_def)
  then obtain pre post where b: "buf = pre @ t @ NUL # post" "length pre = cur" "length buf = 8193" "NUL \<notin> set t" "p \<le> 8192"
    by (rule loadedE)
  have nul: "NUL \<in> set (drop cur buf)" using b by simp
  have finish: "\<exists>rs' buf' cur' t' i. (case res of (rs, buf, cur, p_eol) \<Rightarrow> case p_eol of
        None \<Rightarrow> Some (rs, buf, cur, None) | Some e \<Rightarrow> Some (rs, buf[e := NUL], e + 1, Some cur)) = Some (rs', buf', cur', Some i) \<and>
      take (cur' - i) (drop i buf') = l @ [NUL] \<and> i + length l + 1 = cur' \<and> at_start buf' cur' t' \<and> t' @ read_text rs' = r \<and> good_reads rs'"
    if "line_read res l r" for res
  proof -
    from that obtain rs1 b1 c1 p1 d t1 where 1: "res = (rs1, b1, c1, Some (c1 + length l))" "loaded b1 c1 p1 (l @ d # t1)"
      "t1 @ read_text rs1 = r" "good_reads rs1" by (auto simp: line_read_def)
    from 1(2) obtain pre1 post1 where 2: "b1 = pre1 @ (l @ d # t1) @ NUL # post1" "length pre1 = c1" "p1 = c1 + length (l @ d # t1)"
      "length b1 = 8193" "p1 \<le> 8192" "NUL \<notin> set (l @ d # t1)" by (rule loadedE)
    have upd: "b1[c1 + length l := NUL] = (pre1 @ l @ [NUL]) @ t1 @ NUL # post1"
      using 2(1,2) by (simp add: list_update_append)
    have "loaded (b1[c1 + length l := NUL]) (c1 + length l + 1) p1 t1"
      using 2 by (intro loadedI [OF upd]) (auto)
    moreover have "take (c1 + length l + 1 - c1) (drop c1 (b1[c1 + length l := NUL])) = l @ [NUL]"
      unfolding upd using 2(2) by simp
    ultimately show ?thesis using 1 by (auto simp: at_start_def)
  qed
  show ?thesis
  proof (cases "t = []")
    case True
    have z: "buf ! cur = NUL" using b True by (simp add: nth_append)
    have "loaded (buf[0 := NUL]) 0 0 []"
    proof -
      obtain x xs where "buf = x # xs" using b(3) by (cases buf) simp_all
      then show ?thesis using b(3) by (intro loadedI [where pre = "[]"]) simp_all
    qed
    then have "line_read (fill rs (buf[0 := NUL]) 0 0) l r"
      using assms(2-5) True by (intro fill_line [where t = "[]"]) simp_all
    from finish [OF this] show ?thesis using nul z by (simp add: readline_def)
  next
    case False
    define c where "c = skip_eols buf cur"
    define u where "u = dropWhile eol_char t"
    have ldu: "loaded buf c p u" using loaded_skip [OF ld] unfolding c_def u_def by blast
    have "buf ! cur \<noteq> NUL" using b False by (cases t) (auto simp: nth_append)
    then have rl: "readline rs buf cur = (case (case findNextEOL buf c of Some e \<Rightarrow> (rs, buf, c, Some e)
        | None \<Rightarrow> let s = c_string buf c in fill rs (s @ NUL # drop (length s + 1) buf) 0 (length s)) of
        (rs, buf, cur, p_eol) \<Rightarrow> case p_eol of None \<Rightarrow> Some (rs, buf, cur, None)
          | Some e \<Rightarrow> Some (rs, buf[e := NUL], e + 1, Some cur))"
      using nul by (simp only: readline_def c_def Let_def simp_thms if_True if_False)
    have nl: "next_line (u @ read_text rs) = Some (l, r)" unfolding u_def next_line_append_skip by (rule assms(3))
    have hd: "u = [] \<or> \<not> eol_char (hd u)" using hd_dropWhile unfolding u_def by blast
    have len: "length u \<le> length t" unfolding u_def by (rule length_dropWhile_le)
    show ?thesis using nl hd
    proof (cases rule: next_line_cases)
      case (ended d r')
      have f: "findNextEOL buf c = Some (c + length l)" using ldu ended(4,3) unfolding ended(1) by (rule find_some)
      have "line_read (rs, buf, c, Some (c + length l)) l r"
        using ldu ended(2,3) assms(2) unfolding ended(1) by (auto simp: line_read_def)
      from finish [OF this] show ?thesis by (simp add: rl f)
    next
      case open_line
      have "u \<noteq> prompt"
      proof
        assume "u = prompt"
        with open_line_prefix [OF nl open_line] have "take 2 l = prompt" by (auto simp: prompt_def)
        with assms(5) show False by simp
      qed
      then have f: "findNextEOL buf c = None" by (rule find_none [OF ldu open_line])
      have u: "NUL \<notin> set u" "length u \<le> 8192" using ldu by (auto simp: loaded_def)
      have "c_string buf c = u" using ldu by (auto simp: loaded_def c_string_def takeWhile_append)
      moreover have "line_read (fill rs (u @ NUL # drop (length u + 1) buf) 0 (length u)) l r"
        by (rule fill_line [OF assms(2) loaded_front [OF b(3) u] open_line nl _ assms(5)]) (use assms(4) len in simp)
      ultimately show ?thesis using finish f by (simp add: rl Let_def)
    qed
  qed
qed


lemma readline_eof:
  assumes "at_start buf cur t" "good_reads rs" "next_line (t @ read_text rs) = None"
    and "length (t @ read_text rs) \<le> 8191" "take 2 (dropWhile eol_char (t @ read_text rs)) \<noteq> prompt"
  shows "\<exists>buf' cur'. readline rs buf cur = Some ([], buf', cur', None)"
proof -
  obtain p where ld: "loaded buf cur p t" using assms(1) by (auto simp: at_start_def)
  then obtain pre post where b: "buf = pre @ t @ NUL # post" "length pre = cur" "length buf = 8193" "NUL \<notin> set t" "p \<le> 8192"
    by (rule loadedE)
  have nul: "NUL \<in> set (drop cur buf)" using b by simp
  show ?thesis
  proof (cases "t = []")
    case True
    have z: "buf ! cur = NUL" using b True by (simp add: nth_append)
    have "loaded (buf[0 := NUL]) 0 0 []"
    proof -
      obtain x xs where "buf = x # xs" using b(3) by (cases buf) simp_all
      then show ?thesis using b(3) by (intro loadedI [where pre = "[]"]) simp_all
    qed
    then have "\<exists>buf' cur'. fill rs (buf[0 := NUL]) 0 0 = ([], buf', cur', None)"
      using assms(2-5) True by (intro fill_eof [where t = "[]"]) simp_all
    then show ?thesis using nul z by (auto simp: readline_def)
  next
    case False
    define c where "c = skip_eols buf cur"
    define u where "u = dropWhile eol_char t"
    have ldu: "loaded buf c p u" using loaded_skip [OF ld] unfolding c_def u_def by blast
    have "buf ! cur \<noteq> NUL" using b False by (cases t) (auto simp: nth_append)
    moreover have skip: "dropWhile eol_char (u @ read_text rs) = dropWhile eol_char (t @ read_text rs)"
      by (simp add: u_def dropWhile_append_skip [symmetric])
    have open_line: "\<forall>c \<in> set u. \<not> eol_char c"
    proof (cases "u = []")
      case False
      then have "\<not> eol_char (hd u)" unfolding u_def by (rule hd_dropWhile)
      with False have "dropWhile eol_char (u @ read_text rs) = u @ read_text rs" by (cases u) auto
      then show ?thesis using assms(3) skip by (simp add: next_line_None)
    qed simp
    have "u \<noteq> prompt" using assms(5) unfolding skip [symmetric] by (auto simp: prompt_def eol_char_def)
    then have f: "findNextEOL buf c = None" by (rule find_none [OF ldu open_line])
    have u: "NUL \<notin> set u" "length u \<le> 8192" using ldu by (auto simp: loaded_def)
    have len: "length u \<le> length t" unfolding u_def by (rule length_dropWhile_le)
    have "c_string buf c = u" using ldu by (auto simp: loaded_def c_string_def takeWhile_append)
    moreover have "\<exists>buf' cur'. fill rs (u @ NUL # drop (length u + 1) buf) 0 (length u) = ([], buf', cur', None)"
    proof (rule fill_eof [OF assms(2) loaded_front [OF b(3) u] open_line])
      show "next_line (u @ read_text rs) = None" using assms(3) unfolding next_line_None skip .
      show "take 2 (dropWhile eol_char (u @ read_text rs)) \<noteq> prompt" using assms(5) unfolding skip .
    qed (use assms(4) len in simp)
    ultimately show ?thesis using nul f by (auto simp: readline_def c_def Let_def)
  qed
qed

section \<open>The reader\<close>

text \<open>What the callbacks of a list of nodes make of a line, and what the channel does with a line and with lines.\<close>

fun dispatch :: "'s at_unso_node list \<Rightarrow> char list \<Rightarrow> 's \<Rightarrow> (char list \<times> 's) option" where
  "dispatch [] line s = Some (line, s)"
| "dispatch (n # ns) line s =
     (if strStartsWith (c_string line 0) (prefix_unso n)
      then case unso_cb n of
             None \<Rightarrow> dispatch ns line s
           | Some cb \<Rightarrow> Option.bind (cb line (length (c_string line 0)) s) (\<lambda>(ret, line, s). dispatch ns line s)
      else dispatch ns line s)"

definition handle_line :: "'s at_unso_node list \<Rightarrow> string \<Rightarrow> bool \<times> string option \<times> 's \<Rightarrow> (bool \<times> string option \<times> 's) option" where
  "handle_line ns l = (\<lambda>(ok, fin, s).
     if isFinalResponseSuccess l then Some (True, Some l, s)
     else if isFinalResponseError l then Some (False, Some l, s)
     else map_option (\<lambda>(line, s). (ok, fin, s)) (dispatch ns (l @ [NUL]) s))"

fun handle_lines :: "'s at_unso_node list \<Rightarrow> string list \<Rightarrow> bool \<times> string option \<times> 's \<Rightarrow> (bool \<times> string option \<times> 's) option" where
  "handle_lines ns [] st = Some st"
| "handle_lines ns (l # ls) st = Option.bind (handle_line ns l st) (handle_lines ns ls)"

text \<open>A callback writes within its line.\<close>

definition keeps_line :: "'s at_unso_node \<Rightarrow> bool" where
  "keeps_line n \<longleftrightarrow>
     (\<forall>cb line len s ret line' s'. unso_cb n = Some cb \<longrightarrow> cb line len s = Some (ret, line', s') \<longrightarrow> length line' = length line)"

lemma unso_walk_dispatch:
  "chained heap node xs None \<Longrightarrow> unso_walk heap node line s = dispatch (map snd xs) line s"
proof (induction xs arbitrary: node line s)
  case Nil
  then show ?case by (simp add: unso_walk.simps)
next
  case (Cons x xs)
  obtain a n where x: "x = (a, n)" by (cases x)
  with Cons.prems obtain it where it: "node = Some a" "heap a = Some it" "item_data it = n" "chained heap (item_next it) xs None"
    by (auto split: option.splits)
  have ih: "unso_walk heap (item_next it) = dispatch (map snd xs)" by (intro ext) (rule Cons.IH [OF it(4)])
  show ?case by (subst unso_walk.simps) (simp add: x it ih split: option.split)
qed

lemma dispatch_length:
  "list_all keeps_line ns \<Longrightarrow> dispatch ns line s = Some (line', s') \<Longrightarrow> length line' = length line"
proof (induction ns arbitrary: line s)
  case (Cons n ns)
  then show ?case
    by (auto simp: keeps_line_def bind_eq_Some_conv split: if_splits option.splits) metis
qed simp

lemma c_string_line: "NUL \<notin> set l \<Longrightarrow> c_string (l @ [NUL]) 0 = l"
  using c_string_at [of l "[]" "[]"] by simp

lemma processLine_handle:
  assumes "queue_holds (chan_queue atc) ns" "NUL \<notin> set l"
  shows "map_option (\<lambda>(atc, line, s). (success atc, finalResponse atc, s)) (processLine atc (l @ [NUL]) s) =
      handle_line ns l (success atc, finalResponse atc, s)"
    and "processLine atc (l @ [NUL]) s = Some (atc', line', s') \<Longrightarrow> list_all keeps_line ns \<Longrightarrow>
      length line' = length l + 1 \<and> chan_queue atc' = chan_queue atc \<and> s_ATBuffer atc' = s_ATBuffer atc \<and>
      s_ATBufferCur atc' = s_ATBufferCur atc"
proof -
  from assms(1) obtain xs where "queue_at (chan_queue atc) xs" "map snd xs = ns" by (auto simp: queue_holds_def)
  then have d: "match_unsolicited_cb atc line s = dispatch ns line s" for line s
    by (auto simp: match_unsolicited_cb_def queue_at_def unso_walk_dispatch)
  show "map_option (\<lambda>(atc, line, s). (success atc, finalResponse atc, s)) (processLine atc (l @ [NUL]) s) =
      handle_line ns l (success atc, finalResponse atc, s)"
    by (cases "dispatch ns (l @ [NUL]) s")
      (auto simp: processLine_def handle_line_def handleFinalResponse_def c_string_line assms(2) d Let_def)
  show "length line' = length l + 1 \<and> chan_queue atc' = chan_queue atc \<and> s_ATBuffer atc' = s_ATBuffer atc \<and>
      s_ATBufferCur atc' = s_ATBufferCur atc"
    if "processLine atc (l @ [NUL]) s = Some (atc', line', s')" "list_all keeps_line ns"
    using that dispatch_length [OF that(2)]
    by (auto simp: processLine_def handleFinalResponse_def c_string_line assms(2) d Let_def bind_eq_Some_conv split: if_splits)
qed


lemma no_NUL_reads: "good_reads rs \<Longrightarrow> NUL \<notin> set (read_text rs)"
  by (induction rs rule: read_text.induct) (simp_all add: good_reads_def)

lemma next_line_no_NUL: "next_line S = Some (l, r) \<Longrightarrow> NUL \<notin> set S \<Longrightarrow> NUL \<notin> set l"
proof -
  assume "next_line S = Some (l, r)" "NUL \<notin> set S"
  moreover from this(1) obtain d where "dropWhile eol_char S = l @ d # r" by (rule next_line_Some)
  ultimately show ?thesis by (metis in_set_conv_decomp_first set_dropWhileD append_assoc Un_iff set_append)
qed

lemma readerLoop_lines:
  assumes "readable (t @ read_text rs)" "at_start (s_ATBuffer atc) (s_ATBufferCur atc) t" "good_reads rs"
    and "queue_holds (chan_queue atc) ns" "list_all keeps_line ns"
  shows "map_option (\<lambda>(rs, atc, s). (success atc, finalResponse atc, s)) (readerLoop rs atc s) =
    handle_lines ns (lines (t @ read_text rs)) (success atc, finalResponse atc, s)"
  using assms
proof (induction "t @ read_text rs" arbitrary: t rs atc s rule: readable.induct)
  case 1
  show ?case
  proof (cases "next_line (t @ read_text rs)")
    case None
    with "1.prems"(1) have "length (t @ read_text rs) \<le> 8191" "take 2 (dropWhile eol_char (t @ read_text rs)) \<noteq> prompt"
      by (subst (asm) readable.simps; simp)+
    from readline_eof [OF "1.prems"(2,3) None this] obtain b c where
      "readline rs (s_ATBuffer atc) (s_ATBufferCur atc) = Some ([], b, c, None)" by blast
    then have "readerLoop rs atc s = Some ([], atc\<lparr>s_ATBuffer := b, s_ATBufferCur := c\<rparr>, s)"
      by (subst readerLoop.simps) (simp add: reader_round_def)
    moreover have "lines (t @ read_text rs) = []" by (subst lines.simps) (simp add: None)
    ultimately show ?thesis by simp
  next
    case (Some lr)
    obtain l r where lr: "lr = (l, r)" by (cases lr)
    note nl = Some [unfolded lr]
    with "1.prems"(1) have rd: "length (t @ read_text rs) - length r \<le> 8192" "take 2 l \<noteq> prompt" "readable r"
      by (subst (asm) readable.simps; simp)+
    from readline_line [OF "1.prems"(2,3) nl rd(1,2)] obtain rs1 b1 c1 t1 i where
      1: "readline rs (s_ATBuffer atc) (s_ATBufferCur atc) = Some (rs1, b1, c1, Some i)"
      "take (c1 - i) (drop i b1) = l @ [NUL]" "i + length l + 1 = c1" "at_start b1 c1 t1" "t1 @ read_text rs1 = r" "good_reads rs1"
      by blast
    have ls: "lines (t @ read_text rs) = l # lines (t1 @ read_text rs1)" by (subst lines.simps) (simp add: nl 1(5))
    have no_nul: "NUL \<notin> set l"
    proof (rule next_line_no_NUL [OF nl])
      show "NUL \<notin> set (t @ read_text rs)"
        using "1.prems"(2) no_NUL_reads [OF "1.prems"(3)] by (auto simp: at_start_def loaded_def)
    qed
    define atc1 where "atc1 = atc\<lparr>s_ATBuffer := b1, s_ATBufferCur := c1\<rparr>"
    have q1: "queue_holds (chan_queue atc1) ns" using "1.prems"(4) by (simp add: atc1_def)
    note handle = processLine_handle [OF q1 no_nul]
    show ?thesis
    proof (cases "processLine atc1 (l @ [NUL]) s")
      case None
      then have "readerLoop rs atc s = None"
        by (subst readerLoop.simps) (simp add: reader_round_def 1(1,2) atc1_def [symmetric])
      moreover have "handle_line ns l (success atc, finalResponse atc, s) = None"
        using handle(1) [of s] None by (simp add: atc1_def)
      ultimately show ?thesis by (simp add: ls)
    next
      case (Some res)
      obtain atc2 line2 s2 where res: "res = (atc2, line2, s2)" by (cases res)
      note keep = handle(2) [OF Some [unfolded res] "1.prems"(5)]
      define atc3 where "atc3 = atc2\<lparr>s_ATBuffer := take i b1 @ line2 @ drop c1 b1\<rparr>"
      have "readerLoop rs atc s = readerLoop rs1 atc3 s2"
        using keep 1(3) by (subst readerLoop.simps)
          (simp add: reader_round_def 1(1,2) atc1_def [symmetric] Some res atc3_def)
      moreover have "handle_line ns l (success atc, finalResponse atc, s) = Some (success atc3, finalResponse atc3, s2)"
        using handle(1) [of s] Some by (simp add: res atc3_def) (simp add: atc1_def)
      moreover have "at_start (s_ATBuffer atc3) (s_ATBufferCur atc3) t1"
      proof -
        from 1(4) obtain p where "loaded b1 c1 p t1" by (auto simp: at_start_def)
        moreover have "length (take i b1 @ line2) = c1" using keep 1(3) calculation by (simp add: loaded_def)
        ultimately have "loaded (take i b1 @ line2 @ drop c1 b1) c1 p t1" by (auto simp: loaded_def)
        then show ?thesis using keep by (auto simp: at_start_def atc3_def atc1_def)
      qed
      moreover have "queue_holds (chan_queue atc3) ns" using keep q1 by (simp add: atc3_def)
      ultimately show ?thesis
        using "1.hyps" [OF nl, where x = l and t = t1 and rs = rs1 and atc = atc3 and s = s2] 1(5,6) rd(3) "1.prems"(5) by (simp add: ls)
    qed
  qed
qed


text \<open>C31: On a stream the buffer copes with, the reader handles exactly the lines of the stream, in order, however
  \<open>read\<close> cuts it into pieces and is interrupted: final responses go to the channel, every other line to the callbacks
  whose prefix it has; it crashes only where a callback does, and otherwise ends at the end of the file.\<close>

theorem reader_handles_lines:
  assumes "good_reads rs" "readable (read_text rs)"
    and "length (s_ATBuffer atc) = 8193" "s_ATBuffer atc ! 0 = NUL" "s_ATBufferCur atc = 0"
    and "queue_holds (chan_queue atc) ns" "list_all keeps_line ns"
  shows "map_option (\<lambda>(rs, atc, s). (success atc, finalResponse atc, s)) (readerLoop rs atc s) =
    handle_lines ns (lines (read_text rs)) (success atc, finalResponse atc, s)"
proof -
  have "at_start (s_ATBuffer atc) (s_ATBufferCur atc) []"
    using assms(3-5) by (cases "s_ATBuffer atc") (auto simp: at_start_def loaded_def)
  with readerLoop_lines [of "[]" rs atc ns s] assms show ?thesis by simp
qed

definition toy_channel :: "nat at_channel" where
  "toy_channel =
     \<lparr>fd = 3, chan_queue = work_queue_new, success = False, finalResponse = None, s_ATBuffer = replicate 8193 NUL, s_ATBufferCur = 0\<rparr>"

definition toy_reads :: "read_result list" where
  "toy_reads = [Got [CHR 0x0D, CHR 0x0A, CHR ''O''], Interrupted, Got [CHR ''K'', CHR 0x0D], Got [CHR 0x0A]]"

theorem reader_handles_lines_witness:
  "map_option (\<lambda>(rs, atc, s). (success atc, finalResponse atc, s)) (readerLoop toy_reads toy_channel 0) = Some (True, Some ''OK'', 0)"
proof -
  define S :: string where "S = [CHR 0x0D, CHR 0x0A, CHR ''O'', CHR ''K'', CHR 0x0D, CHR 0x0A]"
  have S: "read_text toy_reads = S" by (simp add: toy_reads_def S_def)
  have n: "next_line S = Some (''OK'', [CHR 0x0A])" "next_line [CHR 0x0A] = None"
    by (simp_all add: next_line_def S_def eol_char_def)
  have "readable S" by (simp add: readable.simps [of S] readable.simps [of "[CHR 0x0A]"] n prompt_def eol_char_def) (simp add: S_def)
  moreover have "lines S = [''OK'']" by (simp add: lines.simps [of S] lines.simps [of "[CHR 0x0A]"] n)
  ultimately have r: "readable S" "lines S = [''OK'']" by simp_all
  show ?thesis
    using reader_handles_lines [of toy_reads toy_channel "[]" 0] r queue_new(2)
    by (simp add: S) (simp add: toy_channel_def good_reads_def toy_reads_def handle_line_def isFinalResponseSuccess_def s_finalResponsesSuccess_def)
qed


section \<open>Writing\<close>

text \<open>What leaves is a prefix of the text, all of it when the loop succeeds.\<close>

lemma write_loop_sends:
  "write_loop ws u = (sent, r, ws') \<Longrightarrow> (\<exists>rest. u = sent @ rest) \<and> (r = Some 0 \<longrightarrow> sent = u)"
proof (induction ws u arbitrary: sent rule: write_loop.induct)
  case (3 n ws v va)
  obtain sent1 where s: "write_loop ws (drop n (v # va)) = (sent1, r, ws')" "sent = take n (v # va) @ sent1"
    using "3.prems" by (auto split: prod.splits)
  from "3.IH" [OF s(1)] obtain rest where "drop n (v # va) = sent1 @ rest" "r = Some 0 \<longrightarrow> sent1 = drop n (v # va)" by blast
  then show ?case unfolding s(2) by (metis append_assoc append_take_drop_id)
qed auto

lemma writeline_sends:
  assumes "writeline f ws s (length s) = Some (sent, r, ws')"
  shows "(\<exists>rest. s @ [CHR 0x0D] = sent @ rest) \<and> (r = Some 0 \<longrightarrow> sent = s @ [CHR 0x0D])"
  using assms write_loop_sends by (force simp: writeline_def split: if_splits)

end
