(* ===== verification/AgpsSystem.thy ===== *)
theory AgpsSystem
  imports AgpsProps AtChannelProps
begin

text \<open>
  The agent on the AT channel: the callbacks \<^verbatim>\<open>sprd_agps_agent.c\<close> registers, run by the reader of
  \<^verbatim>\<open>atc.c\<close>.
\<close>

definition agent_nodes :: "'s agps_c_plane_hook option \<Rightarrow> (nat \<Rightarrow> u8 list) \<Rightarrow> 's at_unso_node list" where
  "agent_nodes hook stack =
     map (\<lambda>p. \<lparr>prefix_unso = p, unso_cb = Some (\<lambda>line len s. my_at_response_cb hook stack line s)\<rparr>) register_RecvCommand"

lemma agent_keeps_line: "list_all keeps_line (agent_nodes hook stack)"
proof -
  have "keeps_line \<lparr>prefix_unso = p, unso_cb = Some (\<lambda>line len s. my_at_response_cb hook stack line s)\<rparr>" for p
    using callback_kept [of 0] by (fastforce simp: keeps_line_def kept_def)
  then show ?thesis by (simp add: agent_nodes_def list_all_iff)
qed

text \<open>A report passes one callback: what that leaves of the line has no other prefix.\<close>

lemma starts_kept: "take 9 b = ''+SPAGPSDL'' \<Longrightarrow> strStartsWith (c_string b 0) ''+SPAGPSDL''"
proof -
  assume "take 9 b = ''+SPAGPSDL''"
  then have b: "b = ''+SPAGPSDL'' @ drop 9 b" by (metis append_take_drop_id)
  show ?thesis by (subst b) (simp add: c_string_def)
qed

lemma dl_dispatch:
  assumes "length pdu \<le> 8192" "length (stack 0) = 8192"
  shows "\<exists>buf'. dispatch (agent_nodes (Some h) stack) (dl_line type rrc_state priority pdu_len pdu @ [NUL]) s =
    Some (buf', snd (calls h (cppayload_cb type rrc_state priority (pdu @ drop (length pdu) (stack 0)) pdu_len) s))"
proof -
  define line where "line = dl_line type rrc_state priority pdu_len pdu"
  obtain buf' where call: "my_at_response_cb (Some h) stack (line @ [NUL]) s =
      Some (0, buf', snd (calls h (cppayload_cb type rrc_state priority (pdu @ drop (length pdu) (stack 0)) pdu_len) s))"
    using downlink_call [of pdu stack h type rrc_state priority pdu_len "[]" s, OF assms] unfolding line_def by blast
  have at: "c_string (line @ [NUL]) 0 = line" unfolding line_def by (rule c_string_line [OF dl_line_no_NUL])
  have "nat (FindString (Some (c_string (line @ [NUL]) 0)) (Some '':'')) = 9"
    unfolding at by (simp add: FindString_def line_def dl_line_def)
  then have "kept 9 (line @ [NUL]) (my_at_response_cb (Some h) stack (line @ [NUL]) s)" by (intro callback_kept) simp
  moreover have "take 9 (line @ [NUL]) = ''+SPAGPSDL''" by (simp add: line_def dl_line_def)
  ultimately have "take 9 buf' = ''+SPAGPSDL''" by (simp add: call kept_def)
  then have starts: "strStartsWith (c_string buf' 0) ''+SPAGPSDL''" by (rule starts_kept)
  have other: "\<not> strStartsWith (c_string buf' 0) p"
    if "p \<in> {''+SPAGPSEND'', ''+SPAGPSSTATE:'', ''+SPAGPSNILR'', ''+SPAGPSMTLR:'', ''+SPAGPSRESET:''}" for p
    using starts_both [OF starts, of p] that by auto
  have "strStartsWith line ''+SPAGPSDL:''" by (simp add: line_def dl_line_def)
  then show ?thesis unfolding line_def [symmetric]
    by (simp add: agent_nodes_def register_RecvCommand_def at call other)
qed

lemma dl_line_length: "length (dl_line type rrc_state priority pdu_len pdu) \<le> 61 + 2 * length pdu"
  using fmt_d_word_length [of type] fmt_d_word_length [of rrc_state] fmt_d_word_length [of priority] fmt_d_word_length [of pdu_len]
  by (simp add: dl_line_def)

lemma dl_line_eol: "\<forall>c \<in> set (dl_line type rrc_state priority pdu_len pdu). \<not> eol_char c"
proof -
  have n: "\<not> eol_char c" if "c \<in> set (fmt_d x)" for c x
  proof -
    have "number_char c" using fmt_d_chars [of x] that by (auto simp: list_all_iff)
    then show ?thesis using number_char_not [of c] by (auto simp: eol_char_def char_space_def)
  qed
  have h: "\<not> eol_char c" if "c \<in> set (concat (map fmt_02x pdu))" for c
  proof -
    from that obtain b :: u8 where "c = hex_char (unat b div 16) \<or> c = hex_char (unat b mod 16)" by (auto simp: fmt_02x_def)
    moreover have "\<not> eol_char (hex_char k)" if "k < 16" for k
      using less_16_cases [OF that] by (auto simp: hex_char_def eol_char_def)
    moreover have "unat b div 16 < 16" using unat_lt_8 [of b] by (simp add: less_mult_imp_div_less)
    ultimately show ?thesis by auto
  qed
  have "\<not> eol_char c" if "c \<in> set '',+SPAGPSDL: '' \<union> {CHR 0x22}" for c using that by (auto simp: eol_char_def)
  with n h show ?thesis by (auto simp: dl_line_def simp del: set_concat)
qed

text \<open>C29: A downlink report of at most 4065 bytes of data, sent as one line by the modem in whatever pieces, reaches the GPS
  stack as exactly one call with its numbers and its bytes, and the reader comes to the end of the file.\<close>

theorem downlink_end_to_end:
  assumes "length pdu \<le> 4065" "length (stack 0) = 8192" "good_reads rs"
    and "read_text rs = dl_line type rrc_state priority pdu_len pdu @ [CHR 0x0D, CHR 0x0A]"
    and "length (s_ATBuffer atc) = 8193" "s_ATBuffer atc ! 0 = NUL" "s_ATBufferCur atc = 0"
    and "queue_holds (chan_queue atc) (agent_nodes (Some h) stack)"
  shows "\<exists>rs' atc'. readerLoop rs atc s = Some (rs', atc',
    snd (calls h (cppayload_cb type rrc_state priority (pdu @ drop (length pdu) (stack 0)) pdu_len) s))"
proof -
  define line where "line = dl_line type rrc_state priority pdu_len pdu"
  have content: "read_text rs = line @ CHR 0x0D # [CHR 0x0A]" using assms(4) by (simp add: line_def)
  have eols: "\<forall>c \<in> set line. \<not> eol_char c" unfolding line_def by (rule dl_line_eol)
  obtain t where l: "line = CHR ''+'' # CHR ''S'' # t" by (simp add: line_def dl_line_def)
  have "dropWhile eol_char (read_text rs) = line @ CHR 0x0D # [CHR 0x0A]" unfolding content l by (simp add: eol_char_def)
  then have nl: "next_line (read_text rs) = Some (line, [CHR 0x0A])" using eols by (intro next_line_I) (simp_all add: eol_char_def)
  have nl2: "next_line [CHR 0x0A] = None" by (simp add: next_line_def eol_char_def)
  have "length line \<le> 8191" using dl_line_length [of type rrc_state priority pdu_len pdu] assms(1) by (simp add: line_def)
  then have "readable (read_text rs)"
    by (simp add: readable.simps [of "read_text rs"] readable.simps [of "[CHR 0x0A]"] nl nl2 prompt_def eol_char_def)
      (simp add: content l)
  moreover have "at_start (s_ATBuffer atc) (s_ATBufferCur atc) []"
    using assms(5-7) by (cases "s_ATBuffer atc") (auto simp: at_start_def loaded_def)
  ultimately have run: "map_option (\<lambda>(rs, atc, s). (success atc, finalResponse atc, s)) (readerLoop rs atc s) =
      handle_lines (agent_nodes (Some h) stack) (lines (read_text rs)) (success atc, finalResponse atc, s)"
    using readerLoop_lines [of "[]" rs atc "agent_nodes (Some h) stack" s] assms(3,8) agent_keeps_line [of "Some h" stack] by simp
  have ls: "lines (read_text rs) = [line]" by (simp add: lines.simps [of "read_text rs"] lines.simps [of "[CHR 0x0A]"] nl nl2)
  have "\<not> isFinalResponseSuccess line" "\<not> isFinalResponseError line"
    by (simp_all add: isFinalResponseSuccess_def isFinalResponseError_def s_finalResponsesSuccess_def s_finalResponsesError_def l)
  moreover obtain buf' where "dispatch (agent_nodes (Some h) stack) (line @ [NUL]) s =
      Some (buf', snd (calls h (cppayload_cb type rrc_state priority (pdu @ drop (length pdu) (stack 0)) pdu_len) s))"
    using dl_dispatch [of pdu stack h type rrc_state priority pdu_len s] assms(1,2) unfolding line_def by auto
  ultimately show ?thesis using run by (auto simp: ls handle_line_def)
qed


definition toy_hook :: "agps_call list agps_c_plane_hook" where
  "toy_hook = \<lparr>hook_size = 28, calls = \<lambda>c s. (1, s @ [c])\<rparr>"

definition agent_channel :: "agps_call list at_channel" where
  "agent_channel =
     \<lparr>fd = 3, chan_queue = the (wq.add_all work_queue_new (agent_nodes (Some toy_hook) (\<lambda>_. replicate 8192 0))), success = False,
      finalResponse = None, s_ATBuffer = replicate 8193 NUL, s_ATBufferCur = 0\<rparr>"

lemma agent_channel_nodes: "queue_holds (chan_queue agent_channel) (agent_nodes (Some toy_hook) (\<lambda>_. replicate 8192 0))"
  using wq.add_all_holds [OF queue_new(2), of "agent_nodes (Some toy_hook) (\<lambda>_. replicate 8192 0)"] by (auto simp: agent_channel_def)

theorem downlink_end_to_end_witness:
  "\<exists>rs' atc'. readerLoop [Got (take 20 (dl_line 1 2 3 2 [0xab, 0x0f])), Interrupted, Got (drop 20 (dl_line 1 2 3 2 [0xab, 0x0f]) @ [CHR 0x0D, CHR 0x0A])]
      agent_channel [] = Some (rs', atc', [cppayload_cb 1 2 3 ([0xab, 0x0f] @ drop 2 (replicate 8192 0)) 2])"
proof -
  define line where "line = dl_line 1 2 3 2 [0xab, 0x0f]"
  have "NUL \<notin> set line" unfolding line_def by (rule dl_line_no_NUL)
  moreover have "take 20 line \<noteq> []" by (simp add: line_def dl_line_def)
  ultimately have "good_reads [Got (take 20 line), Interrupted, Got (drop 20 line @ [CHR 0x0D, CHR 0x0A])]"
    by (auto simp: good_reads_def dest: in_set_takeD in_set_dropD)
  moreover have "read_text [Got (take 20 line), Interrupted, Got (drop 20 line @ [CHR 0x0D, CHR 0x0A])] = line @ [CHR 0x0D, CHR 0x0A]"
    by simp
  ultimately show ?thesis
    using downlink_end_to_end [of "[0xab, 0x0f]" "\<lambda>_. replicate 8192 0" "[Got (take 20 line), Interrupted, Got (drop 20 line @ [CHR 0x0D, CHR 0x0A])]"
      1 2 3 2 agent_channel toy_hook "[]"] agent_channel_nodes
    unfolding line_def [symmetric]
    by (simp add: toy_hook_def agent_channel_def numeral_2_eq_2 del: read_text.simps)
qed

end
