(* ===== verification/AtSend.thy ===== *)
theory AtSend
  imports AtChannel
begin

text \<open>
  \<open>atc_send\<close> of \<^verbatim>\<open>libs/aGPS/lib/atc.c\<close> and the reader thread, step by step.  One synchronous
  command at a time holds \<open>s_command_mutex\<close>; the reader sets \<open>success\<close> before it takes \<open>response_cond_mutex\<close> to
  store the response and signal, so these are two steps.  The history (how many synchronous commands were written, the final
  responses stored and the values returned) is only observed.
\<close>

section \<open>The steps\<close>

text \<open>Where the synchronous command is: written but not yet looking, waiting on the condition, or woken by its signal.\<close>

datatype sender = No_command | Written | Waiting | Woken

record atc_link =
  sender :: sender
  response :: "string option"
  response_ok :: bool
  classified :: "string option"
  commands :: nat
  answers :: "string list"
  results :: "int list"

datatype atc_action =
    Send_sync
  | Send_failed int
  | Send_async
  | Look
  | Wake
  | Spurious_wake
  | Timeout
  | Classify string
  | Store

definition link_start :: atc_link where
  "link_start =
     \<lparr>sender = No_command, response = None, response_ok = False, classified = None, commands = 0, answers = [], results = []\<rparr>"

text \<open>The end of \<open>atc_send\<close> when the wait has not timed out.\<close>

definition take_response :: "atc_link \<Rightarrow> atc_link" where
  "take_response l =
     l\<lparr>sender := No_command, response := None, results := results l @ [if response_ok l then 0 else -3]\<rparr>"

fun atc_step :: "atc_action \<Rightarrow> atc_link \<Rightarrow> atc_link option" where
  "atc_step Send_sync l = (if sender l = No_command then Some (l\<lparr>sender := Written, commands := commands l + 1\<rparr>) else None)"
| "atc_step (Send_failed ret) l =
     (if sender l = No_command \<and> ret < 0 then Some (l\<lparr>commands := commands l + 1, results := results l @ [ret]\<rparr>) else None)"
| "atc_step Send_async l = Some l"
| "atc_step Look l =
     (if sender l = Written then Some (if response l = None then l\<lparr>sender := Waiting\<rparr> else take_response l) else None)"
| "atc_step Wake l = (if sender l = Woken then Some (take_response l) else None)"
| "atc_step Spurious_wake l = (if sender l = Waiting then Some (take_response l) else None)"
| "atc_step Timeout l =
     (if sender l = Waiting then Some (l\<lparr>sender := No_command, results := results l @ [-2]\<rparr>) else None)"
| "atc_step (Classify line) l =
     (if classified l = None \<and> isFinalResponse line
      then Some (l\<lparr>response_ok := isFinalResponseSuccess line, classified := Some line\<rparr>) else None)"
| "atc_step Store l =
     (case classified l of
        None \<Rightarrow> None
      | Some line \<Rightarrow>
          Some (l\<lparr>classified := None, response := Some line, answers := answers l @ [line],
                  sender := (if sender l = Waiting then Woken else sender l)\<rparr>))"

fun atc_run :: "atc_action list \<Rightarrow> atc_link \<Rightarrow> atc_link option" where
  "atc_run [] l = Some l"
| "atc_run (a # as) l = Option.bind (atc_step a l) (atc_run as)"

section \<open>A polite line\<close>

text \<open>The modem answers each synchronous command once, after it was written, and nothing else; no wait times out or wakes for
  no reason; writes work.\<close>

fun polite :: "atc_action \<Rightarrow> atc_link \<Rightarrow> bool" where
  "polite (Send_failed ret) l \<longleftrightarrow> False"
| "polite Send_async l \<longleftrightarrow> False"
| "polite Spurious_wake l \<longleftrightarrow> False"
| "polite Timeout l \<longleftrightarrow> False"
| "polite (Classify line) l \<longleftrightarrow> length (answers l) < commands l"
| "polite _ l \<longleftrightarrow> True"

inductive polite_reach :: "atc_link \<Rightarrow> bool" where
  start: "polite_reach link_start"
| step: "polite_reach l \<Longrightarrow> polite a l \<Longrightarrow> atc_step a l = Some l' \<Longrightarrow> polite_reach l'"

definition code_of :: "string \<Rightarrow> int" where
  "code_of line = (if isFinalResponseSuccess line then 0 else -3)"

text \<open>Either the answer to the outstanding command is not stored yet, or it is the last one.\<close>

definition unanswered :: "atc_link \<Rightarrow> bool" where
  "unanswered l \<longleftrightarrow> response l = None \<and> commands l = length (answers l) + 1 \<and> results l = map code_of (answers l) \<and>
     (\<forall>line. classified l = Some line \<longrightarrow> response_ok l = isFinalResponseSuccess line)"

definition answered :: "atc_link \<Rightarrow> bool" where
  "answered l \<longleftrightarrow> classified l = None \<and> commands l = length (answers l) \<and>
     (\<exists>line as. response l = Some line \<and> answers l = as @ [line] \<and> results l = map code_of as \<and>
       response_ok l = isFinalResponseSuccess line)"

definition link_inv :: "atc_link \<Rightarrow> bool" where
  "link_inv l \<longleftrightarrow>
     (case sender l of
        No_command \<Rightarrow> response l = None \<and> classified l = None \<and> commands l = length (answers l) \<and> results l = map code_of (answers l)
      | Written \<Rightarrow> unanswered l \<or> answered l
      | Waiting \<Rightarrow> unanswered l
      | Woken \<Rightarrow> answered l)"

lemmas link_defs = link_inv_def unanswered_def answered_def take_response_def code_of_def

lemma link_inv_step: "link_inv l \<Longrightarrow> polite a l \<Longrightarrow> atc_step a l = Some l' \<Longrightarrow> link_inv l'"
  by (cases a; cases "sender l") (auto simp: link_defs split: if_splits option.splits)

lemma polite_reach_inv: "polite_reach l \<Longrightarrow> link_inv l"
proof (induction rule: polite_reach.induct)
  case start
  show ?case by (simp add: link_defs link_start_def)
next
  case (step l a l')
  then show ?case using link_inv_step by blast
qed

text \<open>C32: On a polite line the synchronous commands return the answers of the modem in order, each its own: at every moment
  the values returned are the codes of the first answers, all of them while no command is out; and a command that waits has
  not missed its answer.\<close>

theorem commands_get_their_answers:
  assumes "polite_reach l"
  shows "results l = map code_of (take (length (results l)) (answers l)) \<and>
    (sender l = No_command \<longrightarrow> length (results l) = commands l) \<and> (sender l = Waiting \<longrightarrow> response l = None)"
  using polite_reach_inv [OF assms] by (cases "sender l") (auto simp: link_defs)

text \<open>A run of polite actions stays on the polite line.\<close>

fun polite_run :: "atc_action list \<Rightarrow> atc_link \<Rightarrow> bool" where
  "polite_run [] l \<longleftrightarrow> True"
| "polite_run (a # as) l \<longleftrightarrow> polite a l \<and> (case atc_step a l of None \<Rightarrow> True | Some l \<Rightarrow> polite_run as l)"

lemma polite_reach_run: "polite_reach l \<Longrightarrow> polite_run as l \<Longrightarrow> atc_run as l = Some l' \<Longrightarrow> polite_reach l'"
proof (induction as arbitrary: l)
  case (Cons a as)
  then obtain l1 where "atc_step a l = Some l1" "atc_run as l1 = Some l'" by (auto simp: bind_eq_Some_conv)
  with Cons show ?case by (auto intro: polite_reach.step)
qed simp

definition one_command :: "atc_action list" where
  "one_command = [Send_sync, Look, Classify ''ERROR'', Store, Wake]"

lemma one_command_run:
  "\<exists>l. atc_run one_command link_start = Some l \<and> polite_reach l \<and> results l = [-3] \<and> answers l = [''ERROR''] \<and> sender l = No_command"
proof -
  obtain l where l: "atc_run one_command link_start = Some l" "results l = [-3]" "answers l = [''ERROR'']" "sender l = No_command"
    by (simp add: one_command_def link_start_def isFinalResponse_def isFinalResponseError_def isFinalResponseSuccess_def
        s_finalResponsesError_def s_finalResponsesSuccess_def take_response_def)
  moreover have "polite_run one_command link_start"
    by (simp add: one_command_def link_start_def isFinalResponse_def isFinalResponseError_def isFinalResponseSuccess_def
        s_finalResponsesError_def s_finalResponsesSuccess_def take_response_def)
  ultimately show ?thesis using polite_reach_run [OF polite_reach.start] by blast
qed

theorem commands_get_their_answers_witness:
  "\<exists>l. atc_run one_command link_start = Some l \<and> [-3] = map code_of (take (length (results l)) (answers l)) \<and> length (results l) = commands l"
proof -
  obtain l where l: "atc_run one_command link_start = Some l" "polite_reach l" "results l = [-3]" "sender l = No_command"
    using one_command_run by blast
  with commands_get_their_answers [OF l(2)] show ?thesis by metis
qed



text \<open>C34: Off the polite line, a command returns the answer of another: after an asynchronous command, whose answer nobody waits
  for, and after a command that timed out, the next synchronous command returns as soon as it was written, with the code of the
  answer that is still stored, before the modem has answered it.\<close>

theorem stale_answer:
  assumes "isFinalResponse line"
  shows "map_option results (atc_run [Send_async, Classify line, Store, Send_sync, Look] link_start) = Some [code_of line] \<and>
    map_option results (atc_run [Send_sync, Look, Timeout, Classify line, Store, Send_sync, Look] link_start) = Some [-2, code_of line]"
  using assms by (simp add: link_start_def take_response_def code_of_def)

theorem stale_answer_witness:
  "map_option results (atc_run [Send_async, Classify ''OK'', Store, Send_sync, Look] link_start) = Some [0]"
  using stale_answer [of "''OK''"]
  by (simp add: isFinalResponse_def isFinalResponseSuccess_def s_finalResponsesSuccess_def code_of_def)

end
