(* ===== verification/Gnss.thy ===== *)
theory Gnss
  imports CText
begin

text \<open>
  The test mode of the positioning library, \<^verbatim>\<open>libs/gnsspc/gps_pc_mode.c\<close>: the sentences of the receiver, the
  test commands and the state they share.  Floating point numbers are a type of their own with the operations the code
  needs (comparison, reading, printing).  The receiver's library is what it is asked to do, in order, and what it answers.
  \<open>None\<close> is undefined behaviour: a read or write outside a buffer, a call through a null pointer, an overflow
  of a signed number.
\<close>

section \<open>Numbers\<close>

record 'f flt =
  f_greater :: "'f \<Rightarrow> 'f \<Rightarrow> bool"
  f_text :: "'f \<Rightarrow> string"
  f_strtod :: "string \<Rightarrow> 'f"
  f_zero :: 'f

fun str2int_loop :: "nat \<Rightarrow> string \<Rightarrow> int option" where
  "str2int_loop acc [] = Some (int acc)"
| "str2int_loop acc (c # cs) =
     (if \<not> digit_char c then Some (-1)
      else let r = acc * 10 + (of_char c - 48) in if r < 2 ^ 31 then str2int_loop r cs else None)"

definition str2int :: "string \<Rightarrow> int option" where
  "str2int s = str2int_loop 0 s"

definition str2float :: "'f flt \<Rightarrow> string \<Rightarrow> 'f" where
  "str2float F s = (if length s \<ge> 16 then f_zero F else if s = [] then f_zero F else f_strtod F s)"

fun strhex2int_loop :: "nat \<Rightarrow> string \<Rightarrow> int option" where
  "strhex2int_loop acc [] = Some (int acc)"
| "strhex2int_loop acc (c # cs) =
     (if c = CHR 0x00 then Some (int acc)
      else case char_digit c of
             None \<Rightarrow> Some (int acc)
           | Some d \<Rightarrow> if d < 16 then (let r = acc * 16 + d in if r < 2 ^ 31 then strhex2int_loop r cs else None)
                       else Some (int acc))"

definition strhex2int :: "string \<Rightarrow> int option" where
  "strhex2int s = strhex2int_loop 0 s"

section \<open>Sentences\<close>

text \<open>\<open>mem\<close> is the memory from the sentence's first character on; a token is a pair of offsets into it.\<close>

type_synonym token = "nat \<times> nat"

definition MAX_NMEA_TOKENS :: nat where
  "MAX_NMEA_TOKENS = 32"

definition find_comma :: "string \<Rightarrow> nat \<Rightarrow> nat \<Rightarrow> nat" where
  "find_comma mem p e = p + length (takeWhile (\<lambda>c. c \<noteq> CHR '','') (take (e - p) (drop p mem)))"

lemma find_comma_ge: "p \<le> find_comma mem p e"
  by (simp add: find_comma_def)

function token_loop :: "string \<Rightarrow> nat \<Rightarrow> nat \<Rightarrow> token list \<Rightarrow> token list" where
  "token_loop mem p e toks =
     (if p < e
      then let q = find_comma mem p e;
               toks = (if length toks < MAX_NMEA_TOKENS then toks @ [(p, q)] else toks)
           in if q < e then token_loop mem (q + 1) e toks else toks
      else toks)"
  by pat_completeness auto
termination
  by (relation "measure (\<lambda>(mem, p, e, toks). e - p)") (use find_comma_ge in \<open>auto simp: le_diff_conv less_Suc_eq_le diff_less_mono2\<close>)

declare token_loop.simps [simp del]

definition nmea_tokenizer_init :: "string \<Rightarrow> nat \<Rightarrow> token list" where
  "nmea_tokenizer_init mem e =
     (let p = (if 0 < e \<and> mem ! 0 = CHR ''$'' then 1 else 0);
          e = (if p < e \<and> mem ! (e - 1) = CHR 0x0A
               then (if p < e - 1 \<and> mem ! (e - 2) = CHR 0x0D then e - 2 else e - 1) else e);
          e = (if p + 3 \<le> e \<and> mem ! (e - 3) = CHR ''*'' then e - 3 else e)
      in token_loop mem p e [])"

text \<open>A token, or the empty string elsewhere.\<close>

definition nmea_tokenizer_get :: "token list \<Rightarrow> nat \<Rightarrow> token option" where
  "nmea_tokenizer_get toks i = (if i < length toks then Some (toks ! i) else None)"

definition token_text :: "string \<Rightarrow> token \<Rightarrow> string" where
  "token_text mem = (\<lambda>(p, q). take (q - p) (drop p mem))"

text \<open>\<open>memcmp\<close> with a constant; both sides must have that many characters.\<close>

definition memcmp_is :: "string \<Rightarrow> token option \<Rightarrow> string \<Rightarrow> bool option" where
  "memcmp_is mem tok s =
     (case tok of None \<Rightarrow> None
      | Some (p, q) \<Rightarrow> if p + length s \<le> length mem then Some (take (length s) (drop p mem) = s) else None)"

section \<open>State\<close>

datatype gps_call = Gps_init | Agps_init | Gps_start | Gps_stop | Delete_aiding nat | Read_register u32 | Write_register u32 u32
  | Report string | Capture string

record 'f gnss =
  eutmode :: bool
  first_open :: bool
  eut_gps_state :: int
  gps_search_state :: int
  pc_mode :: char
  set_mode :: nat
  sv_state :: "(int \<times> 'f) list"
  gps_loc :: "('f \<times> 'f) option"
  gps_mode :: nat
  chip_id :: nat
  cwcn_value :: int
  tsx_value :: 'f
  tcxo_value :: 'f
  CN0 :: int
  gpsface :: bool
  g_func :: bool
  gcalls :: "gps_call list"

text \<open>What the outside answers: the configuration file of the first chip is there, the library opens, registers, temperature.\<close>

record 'f genv =
  xml_there :: bool
  dlopen_ok :: bool
  register_value :: "u32 \<Rightarrow> u32"
  tsx_temp :: 'f

definition gcall :: "gps_call \<Rightarrow> 'f gnss \<Rightarrow> 'f gnss" where
  "gcall c g = g\<lparr>gcalls := gcalls g @ [c]\<rparr>"

definition GREENEYE_I :: nat where "GREENEYE_I = 1"
definition GREENEYE_II :: nat where "GREENEYE_II = 2"

section \<open>Reports of the receiver\<close>

definition nmea_update_cwcn :: "string \<Rightarrow> token option \<Rightarrow> 'f gnss \<Rightarrow> 'f gnss option" where
  "nmea_update_cwcn mem tok g =
     (case tok of None \<Rightarrow> Some g
      | Some (p, q) \<Rightarrow> if p \<ge> q then Some g
                       else map_option (\<lambda>v. g\<lparr>cwcn_value := v\<rparr>) (str2int (token_text mem (p, q))))"

definition nmea_update_tsx :: "'f flt \<Rightarrow> string \<Rightarrow> token option \<Rightarrow> 'f gnss \<Rightarrow> 'f gnss" where
  "nmea_update_tsx F mem tok g =
     (case tok of None \<Rightarrow> g
      | Some (p, q) \<Rightarrow> if p \<ge> q then g else g\<lparr>tsx_value := str2float F (token_text mem (p, q))\<rparr>)"

definition nmea_update_tcxo :: "'f flt \<Rightarrow> string \<Rightarrow> token option \<Rightarrow> 'f gnss \<Rightarrow> 'f gnss" where
  "nmea_update_tcxo F mem tok g =
     (case tok of None \<Rightarrow> g
      | Some (p, q) \<Rightarrow> if p \<ge> q then g else g\<lparr>tcxo_value := str2float F (token_text mem (p, q))\<rparr>)"

text \<open>The empty token is shorter than five characters.\<close>

definition nmea_parse :: "'f flt \<Rightarrow> string \<Rightarrow> nat \<Rightarrow> 'f gnss \<Rightarrow> 'f gnss option" where
  "nmea_parse F mem len g =
     (let cw = chip_id g = GREENEYE_II \<and> eut_gps_state g = 2;
          g = (if cw then gcall (Capture (take len mem)) g else g)
      in if \<not> cw \<and> len < 9 \<and> eut_gps_state g \<noteq> 5 then Some g
         else let toks = nmea_tokenizer_init mem len
              in case nmea_tokenizer_get toks 0 of
                   None \<Rightarrow> Some g
                 | Some (p, q) \<Rightarrow>
                     if p + 5 > q then Some g
                     else Option.bind (memcmp_is mem (Some (p, q)) ''PCGDS'') (\<lambda>pcgds.
                       if \<not> pcgds then Some g
                       else let name = nmea_tokenizer_get toks 1; value = nmea_tokenizer_get toks 2
                            in Option.bind (memcmp_is mem name ''CWCN0'') (\<lambda>is_cwcn0.
                               if is_cwcn0 then nmea_update_cwcn mem value g
                               else Option.bind (memcmp_is mem name ''TSXTEMP'') (\<lambda>is_tsx.
                               if is_tsx then Some (nmea_update_tsx F mem value g)
                               else Option.bind (memcmp_is mem name ''TCXO'') (\<lambda>is_tcxo.
                               if is_tcxo then Some (nmea_update_tcxo F mem value g) else Some g)))))"

definition location_callback :: "'f \<times> 'f \<Rightarrow> 'f gnss \<Rightarrow> 'f gnss" where
  "location_callback location g = g\<lparr>gps_loc := Some location\<rparr>"

definition sv_status_callback :: "(int \<times> 'f) list \<Rightarrow> 'f gnss \<Rightarrow> 'f gnss" where
  "sv_status_callback sv_status g = g\<lparr>sv_state := sv_status\<rparr>"

definition set_report_ptr :: "bool \<Rightarrow> 'f gnss \<Rightarrow> 'f gnss" where
  "set_report_ptr func g = g\<lparr>g_func := func\<rparr>"

definition nmea_callback :: "'f flt \<Rightarrow> string \<Rightarrow> nat \<Rightarrow> 'f gnss \<Rightarrow> 'f gnss option" where
  "nmea_callback F mem len g =
     (if \<not> first_open g then Some g
      else nmea_parse F mem len (if g_func g then gcall (Report (take len mem)) g else g))"

section \<open>Control\<close>

definition set_pc_mode :: "char \<Rightarrow> 'f gnss \<Rightarrow> 'f gnss" where
  "set_pc_mode input_pc_mode g = g\<lparr>pc_mode := input_pc_mode\<rparr>"

definition search_for_engine :: "string \<Rightarrow> int" where
  "search_for_engine output = (if after_first ''GPSenseEngine'' (fst (fgets 255 output)) \<noteq> None then 1 else 0)"

definition read_register :: "'f genv \<Rightarrow> u32 \<Rightarrow> 'f gnss \<Rightarrow> u32 \<times> 'f gnss" where
  "read_register e addr g = (register_value e addr, gcall (Read_register addr) g)"

definition write_register :: "u32 \<Rightarrow> u32 \<Rightarrow> 'f gnss \<Rightarrow> 'f gnss" where
  "write_register addr value g = gcall (Write_register addr value) g"

definition gps_export_start :: "'f gnss \<Rightarrow> 'f gnss" where
  "gps_export_start g = (if \<not> gpsface g then g else gcall Gps_start g)"

definition gps_export_stop :: "'f gnss \<Rightarrow> 'f gnss" where
  "gps_export_stop g = (if \<not> gpsface g then g else gcall Gps_stop g)"

definition HOT_START :: nat where "HOT_START = 1024"
definition WARM_START :: nat where "WARM_START = 1"
definition COLD_START :: nat where "COLD_START = 125"
definition FAC_START :: nat where "FAC_START = 65535"

definition set_gps_mode :: "nat \<Rightarrow> 'f gnss \<Rightarrow> int \<times> 'f gnss" where
  "set_gps_mode mode g =
     (if \<not> gpsface g then (0, g)
      else if mode = 0 then (1, gcall (Delete_aiding HOT_START) (g\<lparr>set_mode := HOT_START\<rparr>))
      else if mode = 1 then (1, gcall (Delete_aiding WARM_START) (g\<lparr>set_mode := WARM_START\<rparr>))
      else if mode = 2 then (1, gcall (Delete_aiding COLD_START) (g\<lparr>set_mode := COLD_START\<rparr>))
      else if mode = 8 then (0, gcall (Delete_aiding 100) g)
      else if mode = 10 then (1, gcall (Delete_aiding 50001) g)
      else if mode \<in> {11, 12, 13} then (1, gcall (Delete_aiding 50003) (g\<lparr>eut_gps_state := 5\<rparr>))
      else if mode = 20 then (1, gcall (Delete_aiding FAC_START) (g\<lparr>set_mode := FAC_START\<rparr>))
      else (0, g))"

definition get_nmea_data :: int where "get_nmea_data = 0"

definition INIT_MODE :: int where "INIT_MODE = 7"
definition STOP_MODE :: int where "STOP_MODE = 3"

definition get_init_mode :: "'f genv \<Rightarrow> 'f gnss \<Rightarrow> int \<times> 'f gnss" where
  "get_init_mode e g =
     (if first_open g then (INIT_MODE, g)
      else let g = g\<lparr>chip_id := (if xml_there e then GREENEYE_I else GREENEYE_II)\<rparr>
           in if \<not> dlopen_ok e then (INIT_MODE, g)
              else (INIT_MODE, gcall Agps_init (gcall Gps_init (g\<lparr>gpsface := True\<rparr>))\<lparr>first_open := True\<rparr>))"

definition get_stop_mode :: int where "get_stop_mode = STOP_MODE"

end
