(* ===== verification/GnssCmd.thy ===== *)
theory GnssCmd
  imports Gnss
begin

text \<open>
  The test commands of \<^verbatim>\<open>libs/gnsspc/gps_pc_mode.c\<close>: a function per command, the table that names them, and the
  splitting of a command line.  A function gets two numbers, the answer's buffer (which it may leave as it is), and the state.
\<close>

section \<open>Answers\<close>

definition EUT_GPS_OK :: string where "EUT_GPS_OK = ''+SPGPSTEST:OK''"
definition EUT_GPS_ERROR :: string where "EUT_GPS_ERROR = ''+SPGPSTEST:ERR=''"
definition EUT_GPS_REQ :: string where "EUT_GPS_REQ = ''+SPGPSTEST:EUT=''"
definition EUT_GPS_PRN_REQ :: string where "EUT_GPS_PRN_REQ = ''+SPGPSTEST:PRN=''"
definition EUT_GPS_SNR_REQ :: string where "EUT_GPS_SNR_REQ = ''+SPGPSTEST:SNR=''"
definition EUT_GPS_RSSI_REQ :: string where "EUT_GPS_RSSI_REQ = ''+SPGPSTEST:RSSI=''"
definition EUT_GPS_TSXTEMP_REQ :: string where "EUT_GPS_TSXTEMP_REQ = ''+SPGPSTEST:TSXTEMP=''"
definition EUT_GPS_TCXO_REQ :: string where "EUT_GPS_TCXO_REQ = ''+SPGPSTEST:TCXO=''"
definition EUT_GPS_READ_REQ :: string where "EUT_GPS_READ_REQ = ''+SPGPSTEST:READ=''"
definition EUT_GPS_SEARCH_REQ :: string where "EUT_GPS_SEARCH_REQ = ''+SPGPSTEST:SEARCH=''"
definition EUT_GPS_NO_FOUND_STAELITE :: string where "EUT_GPS_NO_FOUND_STAELITE = ''NO_FOUND_SATELLITE''"
definition EUT_GPS_SV_ID :: string where "EUT_GPS_SV_ID = ''SV_ID=''"
definition EUT_GPS_SV_NUMS :: string where "EUT_GPS_SV_NUMS = ''SV_NUM=''"
definition EUT_GPSERR_PRNSEARCH :: int where "EUT_GPSERR_PRNSEARCH = 155"

text \<open>\<open>%x\<close>.\<close>

function fmt_x :: "nat \<Rightarrow> string" where
  "fmt_x n = (if n < 16 then [hex_char n] else fmt_x (n div 16) @ [hex_char (n mod 16)])"
  by pat_completeness auto
termination
  by (relation "measure id") auto

declare fmt_x.simps [simp del]

section \<open>The commands\<close>

definition search_error :: string where
  "search_error = EUT_GPS_ERROR @ fmt_d EUT_GPSERR_PRNSEARCH"

definition not_searching :: "'f gnss \<Rightarrow> bool" where
  "not_searching g \<longleftrightarrow> gps_search_state g = 0 \<and> eut_gps_state g = 0"

text \<open>A call through the receiver's interface.\<close>

definition delete_aiding :: "nat \<Rightarrow> 'f gnss \<Rightarrow> 'f gnss option" where
  "delete_aiding v g = (if gpsface g then Some (gcall (Delete_aiding v) g) else None)"

definition config_register :: "'f genv \<Rightarrow> int \<Rightarrow> string \<Rightarrow> 'f gnss \<Rightarrow> string \<times> 'f gnss" where
  "config_register e data rsp g =
     (if not_searching g then (search_error, g)
      else let (value, g) = read_register e 0xF4 g
           in (''addr=0x'' @ fmt_x (unat (0xF4 :: u32)) @ '', value=0x'' @ fmt_x (unat value), g))"

definition eut_parse :: "'f genv \<Rightarrow> int \<Rightarrow> int \<Rightarrow> string \<Rightarrow> 'f gnss \<Rightarrow> (string \<times> 'f gnss) option" where
  "eut_parse e data sub_data rsp g =
     (let g = g\<lparr>eutmode := True\<rparr>
      in if data \<in> {1, 2, 3, 4}
         then let g = g\<lparr>eut_gps_state := 1\<rparr>;
                  g = (if \<not> first_open g then (snd (get_init_mode e g))\<lparr>gps_mode := 0\<rparr> else g)
              in map_option (\<lambda>g. (EUT_GPS_OK, gps_export_start g))
                  (if data = 2 then map_option (\<lambda>g. g\<lparr>gps_mode := 50002\<rparr>) (delete_aiding 50002 (g\<lparr>eut_gps_state := 2\<rparr>))
                   else if data = 3 then map_option (\<lambda>g. g\<lparr>gps_mode := 50004\<rparr>) (delete_aiding 50004 (g\<lparr>eut_gps_state := 3\<rparr>))
                   else if data = 4 then map_option (\<lambda>g. g\<lparr>gps_mode := 50001\<rparr>) (delete_aiding 50001 (g\<lparr>eut_gps_state := 4\<rparr>))
                   else map_option (\<lambda>g. g\<lparr>gps_mode := 0\<rparr>) (delete_aiding 65535 g))
         else if data = 0
         then Some (EUT_GPS_OK, gps_export_stop (g\<lparr>eut_gps_state := 0, gps_mode := 0\<rparr>))
         else Some (rsp, g))"

definition eut_eq_parse :: "int \<Rightarrow> int \<Rightarrow> string \<Rightarrow> 'f gnss \<Rightarrow> string" where
  "eut_eq_parse data sub_data rsp g = EUT_GPS_REQ @ fmt_d (eut_gps_state g)"

definition search_eq_parse :: "int \<Rightarrow> int \<Rightarrow> string \<Rightarrow> 'f gnss \<Rightarrow> string" where
  "search_eq_parse data sub_data rsp g = EUT_GPS_SEARCH_REQ @ fmt_d (gps_search_state g)"

definition search_parse :: "'f genv \<Rightarrow> int \<Rightarrow> int \<Rightarrow> string \<Rightarrow> 'f gnss \<Rightarrow> (string \<times> 'f gnss) option" where
  "search_parse e data sub_data rsp g =
     map_option (\<lambda>(_, g). (EUT_GPS_OK, g\<lparr>gps_search_state := eut_gps_state g\<rparr>))
       (if data \<noteq> eut_gps_state g then eut_parse e data sub_data rsp g else Some (rsp, g))"

definition get_prn_list :: "'f gnss \<Rightarrow> int \<times> string" where
  "get_prn_list g =
     (int (length (sv_state g)), EUT_GPS_PRN_REQ @ concat (map (\<lambda>(prn, snr). fmt_d prn @ '','') (sv_state g)))"

definition prnstate_parse :: "int \<Rightarrow> int \<Rightarrow> string \<Rightarrow> 'f gnss \<Rightarrow> string" where
  "prnstate_parse data sub_data rsp g =
     (if not_searching g then search_error
      else let (n, text) = get_prn_list g
           in if n = 0 then EUT_GPS_PRN_REQ @ EUT_GPS_NO_FOUND_STAELITE else text)"

definition max_snr :: "'f flt \<Rightarrow> (int \<times> 'f) list \<Rightarrow> nat" where
  "max_snr F svs =
     foldl (\<lambda>max_id i. if f_greater F (snd (svs ! i)) (snd (svs ! max_id)) then i else max_id) 0 [0..<length svs]"

definition snr_parse :: "'f flt \<Rightarrow> int \<Rightarrow> int \<Rightarrow> string \<Rightarrow> 'f gnss \<Rightarrow> string" where
  "snr_parse F data sub_data rsp g =
     (if not_searching g then search_error
      else if sv_state g = [] then EUT_GPS_SNR_REQ @ '' no sv_num is found''
      else let (prn, snr) = sv_state g ! max_snr F (sv_state g)
           in EUT_GPS_SNR_REQ @ f_text F snr @ '' '' @ EUT_GPS_SV_ID @ fmt_d prn @ '' '' @
              EUT_GPS_SV_NUMS @ fmt_d (int (length (sv_state g))))"

definition prn_parse :: "'f flt \<Rightarrow> int \<Rightarrow> int \<Rightarrow> string \<Rightarrow> 'f gnss \<Rightarrow> string" where
  "prn_parse F data sub_data rsp g =
     (if not_searching g then search_error
      else case List.find (\<lambda>sv. fst sv = data) (sv_state g) of
             Some sv \<Rightarrow> EUT_GPS_PRN_REQ @ fmt_d data @ '',CN0='' @ f_text F (snd sv)
           | None \<Rightarrow> EUT_GPS_PRN_REQ @ EUT_GPS_NO_FOUND_STAELITE)"

definition fix_parse :: "'f flt \<Rightarrow> int \<Rightarrow> int \<Rightarrow> string \<Rightarrow> 'f gnss \<Rightarrow> string" where
  "fix_parse F data sub_data rsp g =
     (if not_searching g then search_error
      else case gps_loc g of
             None \<Rightarrow> ''+SPGPSTEST:LOCATION=FAIL''
           | Some (lat, long) \<Rightarrow> ''+SPGPSTEST:LOCATION=SUCC,'' @ f_text F lat @ '','' @ f_text F long)"

definition cwcn_parse :: "int \<Rightarrow> int \<Rightarrow> string \<Rightarrow> 'f gnss \<Rightarrow> string" where
  "cwcn_parse data sub_data rsp g =
     (if not_searching g then search_error
      else EUT_GPS_RSSI_REQ @ fmt_d (if chip_id g = GREENEYE_I then cwcn_value g else CN0 g))"

definition tsx_temp_parse :: "'f flt \<Rightarrow> 'f genv \<Rightarrow> int \<Rightarrow> int \<Rightarrow> string \<Rightarrow> 'f gnss \<Rightarrow> string" where
  "tsx_temp_parse F e data sub_data rsp g =
     (if not_searching g then search_error else EUT_GPS_TSXTEMP_REQ @ f_text F (tsx_temp e))"

definition tcxo_stability_parse :: "'f flt \<Rightarrow> int \<Rightarrow> int \<Rightarrow> string \<Rightarrow> 'f gnss \<Rightarrow> string" where
  "tcxo_stability_parse F data sub_data rsp g =
     (if not_searching g then search_error else EUT_GPS_TCXO_REQ @ f_text F (tcxo_value g))"

definition eut_read_register :: "'f genv \<Rightarrow> int \<Rightarrow> int \<Rightarrow> string \<Rightarrow> 'f gnss \<Rightarrow> string \<times> 'f gnss" where
  "eut_read_register e addr sub_data rsp g =
     (if not_searching g then (search_error, g)
      else let (value, g) = read_register e (of_int addr) g
           in (EUT_GPS_READ_REQ @ ''0x'' @ fmt_x (unat value), g))"

definition eut_write_register :: "int \<Rightarrow> int \<Rightarrow> string \<Rightarrow> 'f gnss \<Rightarrow> string \<times> 'f gnss" where
  "eut_write_register addr value rsp g =
     (if not_searching g then (search_error, g)
      else (EUT_GPS_OK, write_register (of_int addr) (of_int value) g))"

section \<open>The table\<close>

datatype eut_function = Eut_eq | Eut | Search_eq | Search | Prnstate | Snr | Prn | Fix | Cwcn | Tsx_temp | Tcxo_stability
  | Read_reg | Write_reg

definition eut_gps_at_table :: "(string \<times> eut_function) list" where
  "eut_gps_at_table =
    [(''EUT?'', Eut_eq), (''EUT'', Eut), (''SEARCH?'', Search_eq), (''SEARCH'', Search), (''PRN?'', Prnstate),
     (''SNR?'', Snr), (''PRN'', Prn), (''LOCATION?'', Fix), (''RSSI?'', Cwcn), (''TSXTEMP?'', Tsx_temp),
     (''TCXO?'', Tcxo_stability), (''READ'', Read_reg), (''WRITE'', Write_reg)]"

definition call_eut :: "'f flt \<Rightarrow> 'f genv \<Rightarrow> eut_function \<Rightarrow> int \<Rightarrow> int \<Rightarrow> string \<Rightarrow> 'f gnss \<Rightarrow> (string \<times> 'f gnss) option" where
  "call_eut F e f data sub_data rsp g =
     (case f of
        Eut_eq \<Rightarrow> Some (eut_eq_parse data sub_data rsp g, g)
      | Eut \<Rightarrow> eut_parse e data sub_data rsp g
      | Search_eq \<Rightarrow> Some (search_eq_parse data sub_data rsp g, g)
      | Search \<Rightarrow> search_parse e data sub_data rsp g
      | Prnstate \<Rightarrow> Some (prnstate_parse data sub_data rsp g, g)
      | Snr \<Rightarrow> Some (snr_parse F data sub_data rsp g, g)
      | Prn \<Rightarrow> Some (prn_parse F data sub_data rsp g, g)
      | Fix \<Rightarrow> Some (fix_parse F data sub_data rsp g, g)
      | Cwcn \<Rightarrow> Some (cwcn_parse data sub_data rsp g, g)
      | Tsx_temp \<Rightarrow> Some (tsx_temp_parse F e data sub_data rsp g, g)
      | Tcxo_stability \<Rightarrow> Some (tcxo_stability_parse F data sub_data rsp g, g)
      | Read_reg \<Rightarrow> Some (eut_read_register e data sub_data rsp g)
      | Write_reg \<Rightarrow> Some (eut_write_register data sub_data rsp g))"

section \<open>A command line\<close>

text \<open>The tokens of \<open>strtok\<close>, each cut to the length of its array.\<close>

function sub_strings :: "(char \<Rightarrow> bool) \<Rightarrow> nat \<Rightarrow> nat \<Rightarrow> string \<Rightarrow> string list" where
  "sub_strings delim n substr_max_len s =
     (if n = 0 then []
      else case strtok delim s of
             None \<Rightarrow> []
           | Some (tok, rest) \<Rightarrow> take substr_max_len tok # sub_strings delim (n - 1) substr_max_len rest)"
  by pat_completeness auto
termination
  by (relation "measure (\<lambda>(delim, n, l, s). n)") auto

declare sub_strings.simps [simp del]

text \<open>\<open>strtok\<close> puts a terminator after the first token: what is left of the line as a string.\<close>

definition cut_first :: "(char \<Rightarrow> bool) \<Rightarrow> string \<Rightarrow> string" where
  "cut_first delim s = takeWhile delim s @ takeWhile (\<lambda>c. \<not> delim c) (dropWhile delim s)"

text \<open>The arrays have \<open>substr_max_len + 1\<close> characters; the name is copied by its length.  The line and the arrays, without the
  one of the name.\<close>

definition get_sub_str_with ::
  "(char \<Rightarrow> bool) \<Rightarrow> string \<Rightarrow> char \<Rightarrow> char \<Rightarrow> nat \<Rightarrow> nat \<Rightarrow> (string \<times> string list) option" where
  "get_sub_str_with delim buf a d count substr_max_len =
     (if d \<notin> set buf \<or> a \<notin> set buf then Some (buf, replicate (count - 1) [])
      else let start = length (takeWhile (\<lambda>c. c \<noteq> a) buf) + 1;
               substr = length (takeWhile (\<lambda>c. c \<noteq> d) buf) + 1
           in if substr < start + 1 \<or> substr - start - 1 > substr_max_len + 1 then None
              else let toks = sub_strings delim (count - 1) substr_max_len (drop substr buf)
                   in Some (take substr buf @ cut_first delim (drop substr buf),
                            toks @ replicate (count - 1 - length toks) []))"

definition get_sub_str :: "string \<Rightarrow> char \<Rightarrow> char \<Rightarrow> nat \<Rightarrow> nat \<Rightarrow> (string \<times> string list) option" where
  "get_sub_str buf a d count substr_max_len = get_sub_str_with (\<lambda>c. c = d) buf a d count substr_max_len"

definition get_sub_str_colon :: "string \<Rightarrow> char \<Rightarrow> char \<Rightarrow> nat \<Rightarrow> nat \<Rightarrow> (string \<times> string list) option" where
  "get_sub_str_colon buf a d count substr_max_len = get_sub_str_with (\<lambda>c. c = CHR '':'') buf a d count substr_max_len"

definition gps_eut_parse :: "'f flt \<Rightarrow> 'f genv \<Rightarrow> string \<Rightarrow> string \<Rightarrow> 'f gnss \<Rightarrow> (string \<times> 'f gnss) option" where
  "gps_eut_parse F e buf rsp g =
     Option.bind (get_sub_str_colon buf CHR ''='' CHR '','' 4 32) (\<lambda>(buf, data).
     case List.find (\<lambda>(name, f). after_first name buf \<noteq> None) eut_gps_at_table of
       None \<Rightarrow> Some (rsp, g)
     | Some (name, f) \<Rightarrow>
         if take 4 name = ''READ''
         then Option.bind (strhex2int (data ! 0)) (\<lambda>arg1. call_eut F e f arg1 (atoi32 (data ! 1)) rsp g)
         else if take 5 name = ''WRITE''
         then Option.bind (strhex2int (data ! 0)) (\<lambda>arg1.
              Option.bind (strhex2int (data ! 1)) (\<lambda>arg2. call_eut F e f arg1 arg2 rsp g))
         else call_eut F e f (atoi32 (data ! 0)) (atoi32 (data ! 1)) rsp g)"

end
