(* ===== verification/GnssProps.thy ===== *)
theory GnssProps
  imports GnssCmd
begin

text \<open>
  The test mode end to end: a report of the receiver is found again in the answer to the command that asks for it,
  and the register commands reach the registers with the numbers of the command line.
\<close>

section \<open>Fields of a sentence\<close>

fun join :: "string list \<Rightarrow> string" where
  "join [] = []"
| "join [f] = f"
| "join (f # fs) = f @ CHR '','' # join fs"

definition fields_ok :: "string list \<Rightarrow> bool" where
  "fields_ok fs \<longleftrightarrow> fs \<noteq> [] \<and> last fs \<noteq> [] \<and> list_all (\<lambda>f. CHR '','' \<notin> set f) fs"

lemma join_not_Nil: "fields_ok fs \<Longrightarrow> join fs \<noteq> []"
  by (cases fs rule: join.cases) (auto simp: fields_ok_def)

lemma take_drop_append:
  assumes "take n (drop p mem) = xs @ ys" "length (xs @ ys) = n"
  shows "take (length xs) (drop p mem) = xs" "take (length ys) (drop (p + length xs) mem) = ys"
proof -
  have "take (length xs) (take n (drop p mem)) = xs" "drop (length xs) (take n (drop p mem)) = ys" using assms by simp_all
  then show "take (length xs) (drop p mem) = xs" "take (length ys) (drop (p + length xs) mem) = ys"
    using assms(2) by (auto simp: min_def drop_take add.commute)
qed

lemma token_loop_fields:
  assumes "fields_ok fs" "take (e - p) (drop p mem) = join fs" "length (join fs) = e - p" "length toks \<le> 32"
  shows "map (token_text mem) (token_loop mem p e toks) = take 32 (map (token_text mem) toks @ fs)"
  using assms
proof (induction fs arbitrary: p toks rule: join.induct)
  case 1
  then show ?case by (simp add: fields_ok_def)
next
  case (2 f)
  have f: "f \<noteq> []" "CHR '','' \<notin> set f" using 2 by (simp_all add: fields_ok_def)
  then have p: "p < e" using 2 by (cases f) auto
  have tx: "take (e - p) (drop p mem) = f" and len: "length f = e - p" using 2(2,3) by simp_all
  have "takeWhile (\<lambda>c. c \<noteq> CHR '','') f = f" using f(2) by (auto simp: takeWhile_eq_all_conv)
  then have q: "find_comma mem p e = e" using len p by (simp only: find_comma_def tx)
  have t: "token_text mem (p, e) = f" using tx by (simp add: token_text_def)
  show ?case using p q t 2(4) by (subst token_loop.simps) (simp add: MAX_NMEA_TOKENS_def Let_def)
next
  case (3 f f' fs)
  let ?r = "join (f' # fs)"
  have f: "CHR '','' \<notin> set f" and r: "fields_ok (f' # fs)" using 3(2) by (simp_all add: fields_ok_def)
  have tx: "take (e - p) (drop p mem) = f @ CHR '','' # ?r" and len: "length f + (1 + length ?r) = e - p"
    using 3(3,4) by simp_all
  have "x \<noteq> CHR '',''" if "x \<in> set f" for x using f that by blast
  then have tw: "takeWhile (\<lambda>c. c \<noteq> CHR '','') (f @ CHR '','' # ?r) = f" by (simp add: takeWhile_append2)
  have p: "p < e" using len by simp
  have q: "find_comma mem p e = p + length f" by (simp only: find_comma_def tx tw)
  have part: "take (length f) (drop p mem) = f" "take (1 + length ?r) (drop (p + length f) mem) = CHR '','' # ?r"
    using take_drop_append [OF tx] len by simp_all
  have rest: "take (length ?r) (drop (p + length f + 1) mem) = ?r"
    using take_drop_append(2) [of "1 + length ?r" "p + length f" mem "[CHR '','']" ?r] part(2) by simp
  have e: "e - (p + length f + 1) = length ?r" using len by simp
  have t: "token_text mem (p, p + length f) = f" using part(1) by (simp add: token_text_def)
  let ?toks = "if length toks < 32 then toks @ [(p, p + length f)] else toks"
  have "map (token_text mem) (token_loop mem (p + length f + 1) e ?toks) = take 32 (map (token_text mem) ?toks @ f' # fs)"
    by (rule 3(1) [OF r]) (use rest e 3(5) in simp_all)
  moreover have "p + length f < e" using len by linarith
  then have "token_loop mem p e toks = token_loop mem (p + length f + 1) e ?toks"
    using p q by (subst token_loop.simps) (simp add: MAX_NMEA_TOKENS_def Let_def)
  ultimately show ?case using t 3(5) by (cases "length toks < 32") simp_all
qed

text \<open>A sentence with start, checksum and line end.\<close>

definition sentence :: "string list \<Rightarrow> char \<Rightarrow> char \<Rightarrow> string" where
  "sentence fs h1 h2 = CHR ''$'' # join fs @ [CHR ''*'', h1, h2, CHR 0x0D, CHR 0x0A]"

lemma sentence_fields:
  assumes "fields_ok fs" "mem = sentence fs h1 h2 @ behind"
  shows "map (token_text mem) (nmea_tokenizer_init mem (length (sentence fs h1 h2))) = take 32 fs"
proof -
  define n where "n = length (join fs)"
  have n: "0 < n" using join_not_Nil [OF assms(1)] by (simp add: n_def)
  have mem: "mem = CHR ''$'' # join fs @ [CHR ''*'', h1, h2, CHR 0x0D, CHR 0x0A] @ behind"
    by (simp add: assms(2) sentence_def)
  have at: "mem ! 0 = CHR ''$''" "mem ! (5 + n) = CHR 0x0A" "mem ! (4 + n) = CHR 0x0D" "mem ! Suc n = CHR ''*''"
    by (simp_all add: mem nth_append n_def)
  have len: "length (sentence fs h1 h2) = n + 6" by (simp add: sentence_def n_def)
  have "nmea_tokenizer_init mem (n + 6) = token_loop mem 1 (n + 1) []"
    using n at by (simp add: nmea_tokenizer_init_def Let_def)
  moreover have "map (token_text mem) (token_loop mem 1 (n + 1) []) = take 32 (map (token_text mem) [] @ fs)"
    by (rule token_loop_fields [OF assms(1)]) (simp_all add: mem n_def)
  ultimately show ?thesis by (simp add: len)
qed

section \<open>Command lines\<close>

text \<open>A pattern is not looked for in text that shares no character with it.\<close>

lemma after_first_outside:
  "pat \<noteq> [] \<Longrightarrow> set ys \<inter> set pat = {} \<Longrightarrow> after_first pat ys = None"
proof (induction ys)
  case (Cons c ys)
  then have "take (length pat) (c # ys) \<noteq> pat" by (cases pat) auto
  with Cons show ?case by simp
qed simp

lemma after_first_append:
  assumes "pat \<noteq> []" "set ys \<inter> set pat = {}"
  shows "after_first pat (xs @ ys) = map_option (\<lambda>r. r @ ys) (after_first pat xs)"
proof (induction xs)
  case Nil
  then show ?case using after_first_outside [OF assms] assms(1) by simp
next
  case (Cons c xs)
  show ?case
  proof (cases "length pat \<le> length (c # xs)")
    case True
    then have "take (length pat) (c # xs @ ys) = take (length pat) (c # xs)"
      "drop (length pat) (c # xs @ ys) = drop (length pat) (c # xs) @ ys"
      using take_append [of "length pat" "c # xs" ys] drop_append [of "length pat" "c # xs" ys] by simp_all
    then show ?thesis using Cons by simp
  next
    case False
    have short: "take (length pat) (c # xs) \<noteq> pat"
    proof
      assume "take (length pat) (c # xs) = pat"
      then have "length (take (length pat) (c # xs)) = length pat" by (rule arg_cong)
      with False show False by simp
    qed
    have "take (length pat) (c # xs @ ys) \<noteq> pat"
    proof
      assume e: "take (length pat) (c # xs @ ys) = pat"
      have s: "take (length pat) ((c # xs) @ ys) = (c # xs) @ take (length pat - length (c # xs)) ys"
        using False take_append [of "length pat" "c # xs" ys] by simp
      have l: "length (take (length pat) ((c # xs) @ ys)) = length pat" using e by simp
      have "take (length pat - length (c # xs)) ys \<noteq> []" using l False unfolding s by auto
      moreover have "set (take (length pat - length (c # xs)) ys) \<subseteq> set pat" using e s by (metis append_Cons set_append sup_ge2)
      ultimately show False using assms(2) set_take_subset [of "length pat - length (c # xs)" ys]
        by (metis Int_greatest set_empty subset_empty subset_trans)
    qed
    with short Cons show ?thesis by simp
  qed
qed

definition hex_number_char :: "char \<Rightarrow> bool" where
  "hex_number_char c \<longleftrightarrow> digit_char c \<or> c \<in> {CHR ''a'', CHR ''b'', CHR ''c'', CHR ''d'', CHR ''e'', CHR ''f''}"

lemma hex_char_facts:
  assumes "d < 16"
  shows "char_digit (hex_char d) = Some d" "hex_char d \<noteq> CHR 0x00" "hex_number_char (hex_char d)"
  using less_16_cases [OF assms] by (auto simp: hex_char_def char_digit_def hex_number_char_def digit_char_def)

lemma fmt_x_chars: "list_all hex_number_char (fmt_x n)"
proof (induction n rule: fmt_x.induct)
  case (1 n)
  then show ?case using hex_char_facts(3) [of n] hex_char_facts(3) [of "n mod 16"]
    by (subst fmt_x.simps) simp
qed

lemma fmt_x_not_Nil [simp]: "fmt_x n \<noteq> []"
  by (subst fmt_x.simps) simp

lemma length_fmt_x: "n < 16 ^ Suc k \<Longrightarrow> length (fmt_x n) \<le> Suc k"
proof (induction k arbitrary: n)
  case (Suc k)
  show ?case
  proof (cases "n < 16")
    case False
    have "length (fmt_x (n div 16)) \<le> Suc k" using Suc.prems by (intro Suc.IH) simp
    then show ?thesis by (subst fmt_x.simps) (simp add: False)
  qed (subst fmt_x.simps, simp)
qed (subst fmt_x.simps, simp)

lemma strhex2int_fmt_x: "n < 2 ^ 31 \<Longrightarrow> strhex2int_loop 0 (fmt_x n @ s) = strhex2int_loop n s"
proof (induction n arbitrary: s rule: fmt_x.induct)
  case (1 n)
  show ?case
  proof (cases "n < 16")
    case True
    then show ?thesis using hex_char_facts(1,2) [of n] by (subst fmt_x.simps) (simp add: Let_def)
  next
    case False
    have "strhex2int_loop 0 (fmt_x (n div 16) @ hex_char (n mod 16) # s) = strhex2int_loop (n div 16) (hex_char (n mod 16) # s)"
      using False 1 by simp
    also have "\<dots> = strhex2int_loop n s" using hex_char_facts(1,2) [of "n mod 16"] 1(2) by (simp add: Let_def)
    finally show ?thesis by (subst fmt_x.simps) (simp add: False)
  qed
qed

lemma strhex2int_number: "n < 2 ^ 31 \<Longrightarrow> strhex2int (fmt_x n) = Some (int n)"
  using strhex2int_fmt_x [of n "[]"] by (simp add: strhex2int_def)

lemma hex_number_not:
  "hex_number_char c \<Longrightarrow> c \<notin> {CHR '':'', CHR '','', CHR ''='', CHR ''?''} \<and> (\<forall>(name, f) \<in> set eut_gps_at_table. c \<notin> set name)"
  by (auto simp: hex_number_char_def digit_char_def eut_gps_at_table_def)

lemma fmt_x_outside: "(name, f) \<in> set eut_gps_at_table \<Longrightarrow> set (fmt_x n) \<inter> set name = {}"
  using fmt_x_chars [of n] hex_number_not by (fastforce simp: list_all_iff)

lemma fmt_x_colon: "list_all (\<lambda>c. c \<noteq> CHR '':'') (fmt_x n)"
  using fmt_x_chars [of n] by (rule list.pred_mono_strong) (auto dest: hex_number_not)

lemma takeWhile_self: "list_all P xs \<Longrightarrow> takeWhile P (xs @ ys) = xs @ takeWhile P ys \<and> dropWhile P (xs @ ys) = dropWhile P ys"
  by (induction xs) simp_all

lemma strtok_colon:
  assumes "list_all (\<lambda>c. c \<noteq> CHR '':'') tok" "tok \<noteq> []"
  shows "strtok (\<lambda>c. c = CHR '':'') tok = Some (tok, [])"
    "strtok (\<lambda>c. c = CHR '':'') (tok @ CHR '':'' # rest) = Some (tok, rest)"
    "cut_first (\<lambda>c. c = CHR '':'') tok = tok"
    "cut_first (\<lambda>c. c = CHR '':'') (tok @ CHR '':'' # rest) = tok"
proof -
  have d: "dropWhile (\<lambda>c. c = CHR '':'') (tok @ ys) = tok @ ys" "takeWhile (\<lambda>c. c = CHR '':'') (tok @ ys) = []" for ys
    using assms by (cases tok; simp)+
  note w = takeWhile_self [OF assms(1)]
  show "strtok (\<lambda>c. c = CHR '':'') tok = Some (tok, [])"
    using strtok_last [of "\<lambda>c. c = CHR '':''" "[]" tok] assms by simp
  show "strtok (\<lambda>c. c = CHR '':'') (tok @ CHR '':'' # rest) = Some (tok, rest)"
    using strtok_delimited [of "\<lambda>c. c = CHR '':''" "[]" tok "CHR '':''" rest] assms by simp
  show "cut_first (\<lambda>c. c = CHR '':'') tok = tok"
    using d [of "[]"] w [of "[]"] by (simp add: cut_first_def)
  show "cut_first (\<lambda>c. c = CHR '':'') (tok @ CHR '':'' # rest) = tok"
    using d [of "CHR '':'' # rest"] w [of "CHR '':'' # rest"] by (simp add: cut_first_def)
qed

lemma hex_short: "n < 2 ^ 31 \<Longrightarrow> take 32 (fmt_x n) = fmt_x n"
  using length_fmt_x [of n 7] by simp

lemma strtok_empty: "strtok delim [] = None"
  by (simp add: strtok_def)

lemma sub_strings_Suc: "sub_strings delim (Suc n) l s =
    (case strtok delim s of None \<Rightarrow> [] | Some (tok, rest) \<Rightarrow> take l tok # sub_strings delim n l rest)"
  by (subst sub_strings.simps) (simp split: option.split)

lemma sub_strings_0 [simp]: "sub_strings delim 0 l s = []"
  by (subst sub_strings.simps) simp

lemma sub_strings_hex:
  assumes "m < 2 ^ 31" "n < 2 ^ 31"
  shows "sub_strings (\<lambda>c. c = CHR '':'') 3 32 (fmt_x m) = [fmt_x m]"
    "sub_strings (\<lambda>c. c = CHR '':'') 3 32 (fmt_x m @ CHR '':'' # fmt_x n) = [fmt_x m, fmt_x n]"
  using assms by (simp_all add: numeral_3_eq_3 sub_strings_Suc strtok_colon fmt_x_colon strtok_empty hex_short)

lemma get_sub_str_line:
  assumes "pre = ''AT+SPGPSTEST='' @ name @ '',''" "CHR '','' \<notin> set name" "length name \<le> 33"
  shows "get_sub_str_colon (pre @ arg) CHR ''='' CHR '','' 4 32 =
    (let toks = sub_strings (\<lambda>c. c = CHR '':'') 3 32 arg
     in Some (pre @ cut_first (\<lambda>c. c = CHR '':'') arg, toks @ replicate (3 - length toks) []))"
proof -
  have "list_all (\<lambda>c. c \<noteq> CHR '','') name" using assms(2) unfolding list_all_iff by blast
  from takeWhile_self [OF this, of "CHR '','' # arg"]
  have c: "takeWhile (\<lambda>c. c \<noteq> CHR '','') (name @ CHR '','' # arg) = name" by simp
  show ?thesis using assms(3) unfolding get_sub_str_colon_def get_sub_str_with_def by (simp add: assms(1) c Let_def)
qed

text \<open>The first name of the table that occurs in the line is the one of its constant part.\<close>

lemma find_name:
  assumes "List.find (\<lambda>(name, f). after_first name pre \<noteq> None) eut_gps_at_table = r"
  shows "List.find (\<lambda>(name, f). after_first name (pre @ fmt_x n) \<noteq> None) eut_gps_at_table = r"
proof -
  have "after_first name (pre @ fmt_x n) \<noteq> None \<longleftrightarrow> after_first name pre \<noteq> None" if "(name, f) \<in> set eut_gps_at_table" for name f
  proof -
    have "name \<noteq> []" using that by (auto simp: eut_gps_at_table_def)
    from after_first_append [OF this fmt_x_outside [OF that], of pre n] show ?thesis by simp
  qed
  then have "List.find (\<lambda>(name, f). after_first name (pre @ fmt_x n) \<noteq> None) eut_gps_at_table =
      List.find (\<lambda>(name, f). after_first name pre \<noteq> None) eut_gps_at_table"
    by (intro find_cong) auto
  with assms show ?thesis by simp
qed

lemma find_read: "List.find (\<lambda>(name, f). after_first name ''AT+SPGPSTEST=READ,'' \<noteq> None) eut_gps_at_table = Some (''READ'', Read_reg)"
  by (simp add: eut_gps_at_table_def)

lemma find_write: "List.find (\<lambda>(name, f). after_first name ''AT+SPGPSTEST=WRITE,'' \<noteq> None) eut_gps_at_table = Some (''WRITE'', Write_reg)"
  by (simp add: eut_gps_at_table_def)

lemma register_command_lines:
  assumes "\<not> not_searching g" "addr < 2 ^ 31" "v < 2 ^ 31"
  shows "gps_eut_parse F e (''AT+SPGPSTEST=READ,'' @ fmt_x addr) rsp g =
      Some (''+SPGPSTEST:READ=0x'' @ fmt_x (unat (register_value e (of_nat addr))), gcall (Read_register (of_nat addr)) g)"
    "gps_eut_parse F e (''AT+SPGPSTEST=WRITE,'' @ fmt_x addr @ CHR '':'' # fmt_x v) rsp g =
      Some (''+SPGPSTEST:OK'', gcall (Write_register (of_nat addr) (of_nat v)) g)"
proof -
  have r: "get_sub_str_colon (''AT+SPGPSTEST=READ,'' @ fmt_x addr) CHR ''='' CHR '','' 4 32 =
      Some (''AT+SPGPSTEST=READ,'' @ fmt_x addr, [fmt_x addr, [], []])"
    using get_sub_str_line [of "''AT+SPGPSTEST=READ,''" "''READ''" "fmt_x addr"]
    by (simp add: sub_strings_hex [OF assms(2,3)] strtok_colon(3) fmt_x_colon numeral_2_eq_2)
  show "gps_eut_parse F e (''AT+SPGPSTEST=READ,'' @ fmt_x addr) rsp g =
      Some (''+SPGPSTEST:READ=0x'' @ fmt_x (unat (register_value e (of_nat addr))), gcall (Read_register (of_nat addr)) g)"
    unfolding gps_eut_parse_def r using assms(1)
    by (simp only: Option.bind.simps prod.case find_name [OF find_read] option.case)
      (simp add: strhex2int_number [OF assms(2)] call_eut_def eut_read_register_def read_register_def EUT_GPS_READ_REQ_def)
  have w: "get_sub_str_colon (''AT+SPGPSTEST=WRITE,'' @ fmt_x addr @ CHR '':'' # fmt_x v) CHR ''='' CHR '','' 4 32 =
      Some (''AT+SPGPSTEST=WRITE,'' @ fmt_x addr, [fmt_x addr, fmt_x v, []])"
    using get_sub_str_line [of "''AT+SPGPSTEST=WRITE,''" "''WRITE''" "fmt_x addr @ CHR '':'' # fmt_x v"]
    by (simp add: sub_strings_hex [OF assms(2,3)] strtok_colon(4) fmt_x_colon numeral_2_eq_2)
  show "gps_eut_parse F e (''AT+SPGPSTEST=WRITE,'' @ fmt_x addr @ CHR '':'' # fmt_x v) rsp g =
      Some (''+SPGPSTEST:OK'', gcall (Write_register (of_nat addr) (of_nat v)) g)"
    unfolding gps_eut_parse_def w using assms(1)
    by (simp only: Option.bind.simps prod.case find_name [OF find_write] option.case)
      (simp add: strhex2int_number [OF assms(2)] strhex2int_number [OF assms(3)] call_eut_def eut_write_register_def
        write_register_def EUT_GPS_OK_def)
qed

text \<open>While a search runs, the commands that read and write a register reach exactly the register named, with the
  hexadecimal numbers of the line: the read is answered with the register's value, the write with OK, for all numbers
  below 2 to the 31.\<close>

theorem register_commands:
  assumes "\<not> not_searching g" "addr < 2 ^ 31" "v < 2 ^ 31"
  shows "gps_eut_parse F e (''AT+SPGPSTEST=READ,'' @ fmt_x addr) rsp g =
      Some (''+SPGPSTEST:READ=0x'' @ fmt_x (unat (register_value e (of_nat addr))), gcall (Read_register (of_nat addr)) g) \<and>
    gps_eut_parse F e (''AT+SPGPSTEST=WRITE,'' @ fmt_x addr @ CHR '':'' # fmt_x v) rsp g =
      Some (''+SPGPSTEST:OK'', gcall (Write_register (of_nat addr) (of_nat v)) g)"
  using register_command_lines [OF assms] by blast

definition toy_gnss :: "nat gnss" where
  "toy_gnss = \<lparr>eutmode = True, first_open = True, eut_gps_state = 1, gps_search_state = 1, pc_mode = CHR 0x00, set_mode = 0,
     sv_state = [], gps_loc = None, gps_mode = 0, chip_id = GREENEYE_I, cwcn_value = 0, tsx_value = 0, tcxo_value = 0,
     CN0 = 0, gpsface = True, g_func = False, gcalls = []\<rparr>"

definition toy_flt :: "nat flt" where
  "toy_flt = \<lparr>f_greater = (\<lambda>a b. a > b), f_text = fmt_nat, f_strtod = text_digits 10 0, f_zero = 0\<rparr>"

definition toy_genv :: "nat genv" where
  "toy_genv = \<lparr>xml_there = True, dlopen_ok = True, register_value = (\<lambda>a. a + 1), tsx_temp = 25\<rparr>"

lemma register_commands_witness:
  "gps_eut_parse toy_flt toy_genv (''AT+SPGPSTEST=READ,'' @ fmt_x 0xF4) [] toy_gnss =
      Some (''+SPGPSTEST:READ=0x'' @ fmt_x (unat (register_value toy_genv (of_nat 0xF4))), gcall (Read_register (of_nat 0xF4)) toy_gnss) \<and>
    gps_eut_parse toy_flt toy_genv (''AT+SPGPSTEST=WRITE,'' @ fmt_x 0xF4 @ CHR '':'' # fmt_x 255) [] toy_gnss =
      Some (''+SPGPSTEST:OK'', gcall (Write_register (of_nat 0xF4) (of_nat 255)) toy_gnss)"
  by (rule register_commands) (simp_all add: not_searching_def toy_gnss_def)

section \<open>A report and the command that asks for it\<close>

lemma str2int_digits:
  "list_all digit_char ds \<Longrightarrow> text_digits 10 acc ds < 2 ^ 31 \<Longrightarrow> str2int_loop acc ds = Some (int (text_digits 10 acc ds))"
proof (induction ds arbitrary: acc)
  case (Cons c ds)
  have c: "char_digit c = Some (of_char c - 48)" "(of_char c :: nat) - 48 < 10"
    using Cons.prems(1) by (auto simp: char_digit_def digit_char_def Let_def)
  have mono: "a \<le> text_digits 10 a xs" for a xs
  proof (induction xs arbitrary: a)
    case (Cons x xs)
    show ?case
    proof (cases "char_digit x")
      case (Some d)
      have "a * 10 + d \<le> text_digits 10 (a * 10 + d) xs" by (rule Cons.IH)
      with Some show ?thesis by simp
    qed simp
  qed simp
  have "acc * 10 + (of_char c - 48) < 2 ^ 31"
    using Cons.prems(2) c mono [of "acc * 10 + (of_char c - 48)" ds] by simp
  with Cons c show ?case by (simp add: Let_def)
qed simp

lemma str2int_fmt_nat: "v < 2 ^ 31 \<Longrightarrow> str2int (fmt_nat v) = Some (int v)"
  using str2int_digits [of "fmt_nat v" 0] by (simp add: str2int_def fmt_nat_digits text_digits_fmt_nat)

lemma memcmp_token:
  assumes "token_text mem (p, q) = s" "s \<noteq> []"
  shows "memcmp_is mem (Some (p, q)) s = Some True" "p + length s \<le> q"
proof -
  have l: "length (take (q - p) (drop p mem)) = length s" using assms(1) by (simp add: token_text_def)
  have pos: "0 < length s" using assms(2) by simp
  have "length s \<le> q - p" "length s \<le> length mem - p" using l by simp_all
  with pos have b: "p + length s \<le> q" "p + length s \<le> length mem" by linarith+
  have "take (length s) (take (q - p) (drop p mem)) = take (length s) s" using assms(1) by (simp add: token_text_def)
  then have "take (length s) (drop p mem) = s" using b(1) by (simp add: min_def split: if_splits)
  with b show "memcmp_is mem (Some (p, q)) s = Some True" "p + length s \<le> q" by (simp_all add: memcmp_is_def)
qed

definition cwcn_fields :: "nat \<Rightarrow> string list" where
  "cwcn_fields v = [''PCGDS'', ''CWCN0'', fmt_nat v]"

lemma fmt_nat_no_comma: "CHR '','' \<notin> set (fmt_nat v)"
  using fmt_nat_digits [of v] digit_not_space by (auto simp: list_all_iff)

lemma cwcn_parsed:
  assumes "v < 2 ^ 31" "chip_id g = GREENEYE_I" "mem = sentence (cwcn_fields v) h1 h2 @ behind"
  shows "nmea_parse F mem (length (sentence (cwcn_fields v) h1 h2)) g = Some (g\<lparr>cwcn_value := int v\<rparr>)"
proof -
  let ?len = "length (sentence (cwcn_fields v) h1 h2)"
  have ok: "fields_ok (cwcn_fields v)" by (simp add: fields_ok_def cwcn_fields_def fmt_nat_no_comma)
  define toks where "toks = nmea_tokenizer_init mem ?len"
  have m: "map (token_text mem) toks = cwcn_fields v"
    using sentence_fields [OF ok assms(3)] by (simp add: toks_def cwcn_fields_def)
  then have "length toks = 3" by (metis cwcn_fields_def length_map list.size(3,4) numeral_3_eq_3 One_nat_def Suc_eq_plus1)
  then obtain p0 q0 p1 q1 p2 q2 where toks: "toks = [(p0, q0), (p1, q1), (p2, q2)]"
    by (auto simp: numeral_3_eq_3 length_Suc_conv)
  have t: "token_text mem (p0, q0) = ''PCGDS''" "token_text mem (p1, q1) = ''CWCN0''" "token_text mem (p2, q2) = fmt_nat v"
    using m by (simp_all add: toks cwcn_fields_def)
  note t0 = memcmp_token [OF t(1)] note t1 = memcmp_token [OF t(2)] note t2 = memcmp_token [OF t(3)]
  have p2: "p2 < q2" using t2(2) by (cases "fmt_nat v") auto
  have len: "\<not> ?len < 9" by (simp add: sentence_def cwcn_fields_def)
  have get: "nmea_tokenizer_get toks 0 = Some (p0, q0)" "nmea_tokenizer_get toks 1 = Some (p1, q1)"
      "nmea_tokenizer_get toks 2 = Some (p2, q2)"
    by (simp_all add: nmea_tokenizer_get_def toks)
  have cw: "\<not> (chip_id g = GREENEYE_II \<and> eut_gps_state g = 2)" by (simp add: assms(2) GREENEYE_I_def GREENEYE_II_def)
  have upd: "nmea_update_cwcn mem (Some (p2, q2)) g = Some (g\<lparr>cwcn_value := int v\<rparr>)"
    using p2 t(3) str2int_fmt_nat [OF assms(1)] by (simp add: nmea_update_cwcn_def)
  show ?thesis
    unfolding nmea_parse_def Let_def toks_def [symmetric] get
    using cw len t0 t1(1) upd by auto
qed

text \<open>C38: A carrier measurement reported by the first chip comes back to the tester: after the sentence has been handed to the
  library, whatever its checksum and whatever follows it in memory, the query for the measurement is answered with
  exactly the number the sentence had.\<close>

theorem measurement_reported:
  assumes "first_open g" "chip_id g = GREENEYE_I" "\<not> not_searching g" "v < 2 ^ 31"
    "mem = sentence (cwcn_fields v) h1 h2 @ behind"
  shows "\<exists>g'. nmea_callback F mem (length (sentence (cwcn_fields v) h1 h2)) g = Some g' \<and>
    gps_eut_parse F e ''AT+SPGPSTEST=RSSI?'' rsp g' = Some (''+SPGPSTEST:RSSI='' @ fmt_nat v, g')"
proof -
  define g0 where "g0 = (if g_func g then gcall (Report (take (length (sentence (cwcn_fields v) h1 h2)) mem)) g else g)"
  have g0: "chip_id g0 = GREENEYE_I" "not_searching g0 = not_searching g"
    using assms(2) by (simp_all add: g0_def gcall_def not_searching_def)
  have "nmea_callback F mem (length (sentence (cwcn_fields v) h1 h2)) g = Some (g0\<lparr>cwcn_value := int v\<rparr>)"
    using assms(1) cwcn_parsed [OF assms(4) g0(1) assms(5)] by (simp add: nmea_callback_def g0_def)
  moreover have "get_sub_str_colon ''AT+SPGPSTEST=RSSI?'' CHR ''='' CHR '','' 4 32 = Some (''AT+SPGPSTEST=RSSI?'', replicate 3 [])"
    by (simp add: get_sub_str_colon_def get_sub_str_with_def)
  moreover have "List.find (\<lambda>(name, f). after_first name ''AT+SPGPSTEST=RSSI?'' \<noteq> None) eut_gps_at_table = Some (''RSSI?'', Cwcn)"
    by (simp add: eut_gps_at_table_def)
  moreover have "call_eut F e Cwcn a b rsp (g0\<lparr>cwcn_value := int v\<rparr>) = Some (''+SPGPSTEST:RSSI='' @ fmt_nat v, g0\<lparr>cwcn_value := int v\<rparr>)" for a b
    using assms(3) g0 by (auto simp: call_eut_def cwcn_parse_def EUT_GPS_RSSI_REQ_def fmt_d_def not_searching_def)
  ultimately show ?thesis by (simp add: gps_eut_parse_def)
qed

lemma measurement_reported_witness:
  "\<exists>g'. nmea_callback toy_flt (sentence (cwcn_fields 42) CHR ''5'' CHR ''C'' @ ''garbage'')
      (length (sentence (cwcn_fields 42) CHR ''5'' CHR ''C'')) toy_gnss = Some g' \<and>
    gps_eut_parse toy_flt toy_genv ''AT+SPGPSTEST=RSSI?'' [] g' = Some (''+SPGPSTEST:RSSI='' @ fmt_nat 42, g')"
  by (rule measurement_reported) (simp_all add: not_searching_def toy_gnss_def)

end
