(* ===== verification/PowerHal.thy ===== *)
theory PowerHal
  imports CText
begin

text \<open>
  The power HAL, \<^verbatim>\<open>power/power_scx35.c\<close>: CPU frequency limits by profile, the touch devices when the screen goes off and
  on, the governor's settings.  The files under \<^verbatim>\<open>/sys\<close> are a map from paths to contents, \<open>None\<close> for one that does not
  open; a write replaces the contents.  Character arrays are C strings, what they hold before they are first
  written is a parameter.  \<open>None\<close> as a result is undefined behaviour: a write behind an array.  Memory is never exhausted.
\<close>

section \<open>Files\<close>

type_synonym sysfs = "string \<Rightarrow> string option"

definition c_text :: "string \<Rightarrow> string" where
  "c_text = takeWhile (\<lambda>c. c \<noteq> CHR 0x00)"

definition sysfs_read :: "sysfs \<Rightarrow> string \<Rightarrow> nat \<Rightarrow> string option" where
  "sysfs_read fs path num_bytes = map_option (take (num_bytes - 1)) (fs path)"

definition sysfs_write :: "string \<Rightarrow> string \<Rightarrow> sysfs \<Rightarrow> sysfs" where
  "sysfs_write path s fs = (case fs path of None \<Rightarrow> fs | Some _ \<Rightarrow> fs(path \<mapsto> s))"

text \<open>A read into an array that keeps its string if it fails.\<close>

definition read_into :: "sysfs \<Rightarrow> string \<Rightarrow> nat \<Rightarrow> string \<Rightarrow> string" where
  "read_into fs path n old = (case sysfs_read fs path n of None \<Rightarrow> old | Some s \<Rightarrow> c_text s)"

definition CPU_SYSFS_PATH :: string where
  "CPU_SYSFS_PATH = ''/sys/devices/system/cpu''"

definition CPUFREQ_SYSFS_PATH :: string where
  "CPUFREQ_SYSFS_PATH = CPU_SYSFS_PATH @ ''/cpufreq/''"

definition SCALING_GOVERNOR_PATH :: string where
  "SCALING_GOVERNOR_PATH = CPU_SYSFS_PATH @ ''/cpu0/cpufreq/scaling_governor''"

definition SCALING_MAX_FREQ_PATH :: string where
  "SCALING_MAX_FREQ_PATH = CPU_SYSFS_PATH @ ''/cpu0/cpufreq/scaling_max_freq''"

definition SCALING_MIN_FREQ_PATH :: string where
  "SCALING_MIN_FREQ_PATH = CPU_SYSFS_PATH @ ''/cpu0/cpufreq/scaling_min_freq''"

definition PANEL_BRIGHTNESS :: string where
  "PANEL_BRIGHTNESS = ''/sys/class/backlight/panel/brightness''"

definition HISPEED_FREQ_PATH :: string where "HISPEED_FREQ_PATH = ''/hispeed_freq''"
definition IO_IS_BUSY_PATH :: string where "IO_IS_BUSY_PATH = ''/io_is_busy''"
definition PARAM_MAXLEN :: nat where "PARAM_MAXLEN = 10"

section \<open>State\<close>

definition PROFILE_POWER_SAVE :: int where "PROFILE_POWER_SAVE = 0"
definition PROFILE_BALANCED :: int where "PROFILE_BALANCED = 1"
definition PROFILE_HIGH_PERFORMANCE :: int where "PROFILE_HIGH_PERFORMANCE = 2"

text \<open>The module and the static variables; \<open>pulses\<close> counts the writes to the boost node.\<close>

record power =
  boostpulse_fd :: int
  cpu_hispeed_freq :: string
  cpu_min_freq :: string
  cpu_max_freq :: string
  touchscreen_power_path :: "string option"
  touchkey_power_path :: "string option"
  touchkey_blocked :: bool
  governor :: string
  cpu_interactive_path :: string
  current_power_profile :: int
  pulses :: nat

definition power_static :: power where
  "power_static = \<lparr>boostpulse_fd = -1, cpu_hispeed_freq = [], cpu_min_freq = [], cpu_max_freq = [],
     touchscreen_power_path = None, touchkey_power_path = None, touchkey_blocked = False, governor = [],
     cpu_interactive_path = [], current_power_profile = PROFILE_HIGH_PERFORMANCE, pulses = 0\<rparr>"

section \<open>Helpers\<close>

definition strip_newline :: "string \<Rightarrow> string" where
  "strip_newline s = rev (dropWhile (\<lambda>c. c = CHR 0x0A \<or> c = CHR 0x0D) (rev s))"

definition get_scaling_governor :: "sysfs \<Rightarrow> power \<Rightarrow> int \<times> power" where
  "get_scaling_governor fs p =
     (case sysfs_read fs SCALING_GOVERNOR_PATH 20 of
        None \<Rightarrow> (-1, p)
      | Some s \<Rightarrow> (0, p\<lparr>governor := strip_newline (c_text s)\<rparr>))"

definition get_cpu_interactive_paths :: "sysfs \<Rightarrow> power \<Rightarrow> power" where
  "get_cpu_interactive_paths fs p =
     (let (r, p) = get_scaling_governor fs p
      in if r = 0 \<and> (take 11 (governor p) = ''interactive'' \<or> take 13 (governor p) = ''intelliactive'')
         then p\<lparr>cpu_interactive_path := CPUFREQ_SYSFS_PATH @ governor p\<rparr> else p)"

definition cpu_interactive_read :: "sysfs \<Rightarrow> power \<Rightarrow> string \<Rightarrow> string \<Rightarrow> string" where
  "cpu_interactive_read fs p param old = read_into fs (cpu_interactive_path p @ param) PARAM_MAXLEN old"

definition cpu_interactive_write :: "power \<Rightarrow> string \<Rightarrow> string \<Rightarrow> sysfs \<Rightarrow> sysfs" where
  "cpu_interactive_write p param s fs = sysfs_write (cpu_interactive_path p @ param) s fs"

text \<open>The array has four characters, the size passed is that of the path; \<open>junk\<close> is what it holds.  The sum of the digits.\<close>

definition read_panel_brightness :: "string \<Rightarrow> sysfs \<Rightarrow> u32 option" where
  "read_panel_brightness junk fs =
     (case sysfs_read fs PANEL_BRIGHTNESS (length PANEL_BRIGHTNESS + 1) of
        None \<Rightarrow> Some (- 1)
      | Some s \<Rightarrow>
          Option.bind (mem_write junk 0 (s @ [CHR 0x00])) (\<lambda>a.
          Some (\<Sum>c\<leftarrow>a. if digit_char c then of_nat (of_char c - 48) else 0)))"

definition boostpulse_open :: "int \<Rightarrow> power \<Rightarrow> power" where
  "boostpulse_open fd p = p\<lparr>boostpulse_fd := fd\<rparr>"

definition send_boostpulse :: "power \<Rightarrow> power" where
  "send_boostpulse p = (if boostpulse_fd p < 0 then p else p\<lparr>pulses := pulses p + 1\<rparr>)"

section \<open>Operations\<close>

definition set_power_profile :: "int \<Rightarrow> power \<times> sysfs \<Rightarrow> power \<times> sysfs" where
  "set_power_profile profile = (\<lambda>(p, fs).
     if current_power_profile p = profile then (p, fs)
     else let (p, fs) =
                (if profile = PROFILE_POWER_SAVE
                 then let p = p\<lparr>cpu_min_freq := read_into fs SCALING_MIN_FREQ_PATH 10 (cpu_min_freq p)\<rparr>
                      in (p, sysfs_write SCALING_MAX_FREQ_PATH (cpu_min_freq p) fs)
                 else if profile = PROFILE_BALANCED
                 then let p = p\<lparr>cpu_hispeed_freq := cpu_interactive_read fs p HISPEED_FREQ_PATH (cpu_hispeed_freq p)\<rparr>
                      in (p, sysfs_write SCALING_MAX_FREQ_PATH (cpu_hispeed_freq p) fs)
                 else if profile = PROFILE_HIGH_PERFORMANCE
                 then (p, sysfs_write SCALING_MAX_FREQ_PATH (cpu_max_freq p) fs)
                 else (p, fs))
          in (p\<lparr>current_power_profile := profile\<rparr>, fs))"

text \<open>The entries of a directory that are called \<open>name\<close> are looked at, and there is at most one; \<open>junk\<close> is what
  the array holds if the file cannot be read.\<close>

definition find_input_nodes :: "string \<Rightarrow> (string \<Rightarrow> string list option) \<Rightarrow> sysfs \<Rightarrow> string \<Rightarrow> power \<Rightarrow> power" where
  "find_input_nodes junk dirs fs dir p =
     (case dirs dir of
        None \<Rightarrow> p
      | Some entries \<Rightarrow>
          foldl (\<lambda>p d_name.
            if d_name = ''name''
            then let file_content = read_into fs (dir @ ''/name'') 20 junk;
                     node_path = dir @ ''/enabled'';
                     p = (if take 12 file_content = ''sec_touchkey'' then p\<lparr>touchkey_power_path := Some node_path\<rparr> else p)
                 in if take 15 file_content = ''sec_touchscreen'' then p\<lparr>touchscreen_power_path := Some node_path\<rparr> else p
            else p) p entries)"

definition init_cpufreqs :: "sysfs \<Rightarrow> power \<Rightarrow> power" where
  "init_cpufreqs fs p =
     (let p = p\<lparr>cpu_min_freq := read_into fs SCALING_MIN_FREQ_PATH 10 (cpu_min_freq p)\<rparr>;
          p = p\<lparr>cpu_hispeed_freq := cpu_interactive_read fs p HISPEED_FREQ_PATH (cpu_hispeed_freq p)\<rparr>
      in p\<lparr>cpu_max_freq := read_into fs SCALING_MAX_FREQ_PATH 10 (cpu_max_freq p)\<rparr>)"

definition input_dir :: "nat \<Rightarrow> string" where
  "input_dir i = ''/sys/class/input/input'' @ fmt_nat i"

definition init_touch_input_power_path :: "string \<Rightarrow> (string \<Rightarrow> string list option) \<Rightarrow> sysfs \<Rightarrow> power \<Rightarrow> power" where
  "init_touch_input_power_path junk dirs fs p =
     foldl (\<lambda>p i. find_input_nodes junk dirs fs (input_dir i) p) p [0..<20]"

definition samsung_power_init :: "string \<Rightarrow> (string \<Rightarrow> string list option) \<Rightarrow> sysfs \<Rightarrow> power \<Rightarrow> power" where
  "samsung_power_init junk dirs fs p =
     init_touch_input_power_path junk dirs fs
       (init_cpufreqs fs (get_cpu_interactive_paths fs (snd (get_scaling_governor fs p))))"

text \<open>Writing to a path, or to none.\<close>

definition write_node :: "string option \<Rightarrow> string \<Rightarrow> sysfs \<Rightarrow> sysfs" where
  "write_node path s fs = (case path of None \<Rightarrow> fs | Some path \<Rightarrow> sysfs_write path s fs)"

definition touchkey_step :: "bool \<Rightarrow> power \<times> sysfs \<Rightarrow> power \<times> sysfs" where
  "touchkey_step on = (\<lambda>(p, fs).
     case touchkey_power_path p of
       None \<Rightarrow> (p, fs)
     | Some path \<Rightarrow>
         if fs path = None then (p, fs)
         else if \<not> on
         then (case sysfs_read fs path 2 of
                 None \<Rightarrow> (p, fs)
               | Some s \<Rightarrow>
                   if take 1 (s @ [CHR 0x00]) = ''0'' then (p\<lparr>touchkey_blocked := True\<rparr>, fs)
                   else (p\<lparr>touchkey_blocked := False\<rparr>, sysfs_write path ''0'' fs))
         else if \<not> touchkey_blocked p then (p, sysfs_write path ''1'' fs) else (p, fs))"

definition samsung_power_set_interactive :: "string \<Rightarrow> bool \<Rightarrow> power \<times> sysfs \<Rightarrow> (power \<times> sysfs) option" where
  "samsung_power_set_interactive junk on = (\<lambda>(p, fs).
     map_option (\<lambda>stay.
       let (p, fs) = (if stay then (p, fs)
                      else touchkey_step on (p, write_node (touchscreen_power_path p) (if on then ''1'' else ''0'') fs))
       in (p, cpu_interactive_write p IO_IS_BUSY_PATH (if on then ''1'' else ''0'') fs))
     (if on then Some False else map_option (\<lambda>b. b > 0) (read_panel_brightness junk fs)))"

datatype power_hint = POWER_HINT_VSYNC | POWER_HINT_INTERACTION | POWER_HINT_SET_PROFILE int | Other_hint

definition samsung_power_hint :: "power_hint \<Rightarrow> power \<times> sysfs \<Rightarrow> power \<times> sysfs" where
  "samsung_power_hint hint = (\<lambda>(p, fs).
     case hint of
       POWER_HINT_INTERACTION \<Rightarrow> if current_power_profile p = PROFILE_POWER_SAVE then (p, fs) else (send_boostpulse p, fs)
     | POWER_HINT_VSYNC \<Rightarrow> (p, fs)
     | POWER_HINT_SET_PROFILE profile \<Rightarrow> set_power_profile profile (p, fs)
     | Other_hint \<Rightarrow> (p, fs))"

text \<open>The only feature the HAL answers for.\<close>

definition samsung_get_feature :: "bool \<Rightarrow> int" where
  "samsung_get_feature supported_profiles = (if supported_profiles then 3 else -1)"

end
