(* ===== verification/PowerHalProps.thy ===== *)
theory PowerHalProps
  imports PowerHal
begin

text \<open>
  The power HAL in any run of hints and screen changes: the frequency limit is the one of the current profile; and what
  becomes of the touch keys when the screen goes off and on again.
\<close>

section \<open>Runs\<close>

text \<open>A screen change comes with what the array for the brightness holds.\<close>

datatype power_op = Hint power_hint | Interactive string bool

definition power_step :: "power_op \<Rightarrow> power \<times> sysfs \<Rightarrow> (power \<times> sysfs) option" where
  "power_step op s =
     (case op of Hint h \<Rightarrow> Some (samsung_power_hint h s)
      | Interactive junk on \<Rightarrow> samsung_power_set_interactive junk on s)"

fun power_run :: "power_op list \<Rightarrow> power \<times> sysfs \<Rightarrow> (power \<times> sysfs) option" where
  "power_run [] s = Some s"
| "power_run (op # ops) s = Option.bind (power_step op s) (power_run ops)"

section \<open>Paths\<close>

text \<open>The nodes of the touch devices are called \<open>enabled\<close>; no other file of the HAL is.\<close>

definition enabled_path :: "string option \<Rightarrow> bool" where
  "enabled_path path \<longleftrightarrow> (case path of None \<Rightarrow> True | Some s \<Rightarrow> \<exists>dir. s = dir @ ''/enabled'')"

definition touch_ok :: "power \<Rightarrow> bool" where
  "touch_ok p \<longleftrightarrow> enabled_path (touchscreen_power_path p) \<and> enabled_path (touchkey_power_path p)"

lemma suffix_neq: "last a \<noteq> last b \<Longrightarrow> a \<noteq> [] \<Longrightarrow> b \<noteq> [] \<Longrightarrow> x @ a \<noteq> y @ b"
  by (metis last_appendR)

lemma freq_paths:
  "x @ ''/enabled'' \<noteq> SCALING_MAX_FREQ_PATH" "x @ ''/enabled'' \<noteq> SCALING_MIN_FREQ_PATH" "x @ ''/enabled'' \<noteq> y @ HISPEED_FREQ_PATH"
  "x @ IO_IS_BUSY_PATH \<noteq> SCALING_MAX_FREQ_PATH" "x @ IO_IS_BUSY_PATH \<noteq> SCALING_MIN_FREQ_PATH"
  "x @ IO_IS_BUSY_PATH \<noteq> y @ HISPEED_FREQ_PATH" "x @ IO_IS_BUSY_PATH \<noteq> y @ ''/enabled''"
  unfolding SCALING_MAX_FREQ_PATH_def SCALING_MIN_FREQ_PATH_def HISPEED_FREQ_PATH_def IO_IS_BUSY_PATH_def
  by (rule suffix_neq; simp)+

lemma max_not_min: "SCALING_MAX_FREQ_PATH \<noteq> SCALING_MIN_FREQ_PATH"
  by (simp add: SCALING_MAX_FREQ_PATH_def SCALING_MIN_FREQ_PATH_def)

lemma max_not_hispeed: "y @ HISPEED_FREQ_PATH \<noteq> SCALING_MAX_FREQ_PATH"
proof
  assume "y @ HISPEED_FREQ_PATH = SCALING_MAX_FREQ_PATH"
  then have "take 6 (rev (y @ HISPEED_FREQ_PATH)) = take 6 (rev SCALING_MAX_FREQ_PATH)" by simp
  then show False by (simp add: HISPEED_FREQ_PATH_def SCALING_MAX_FREQ_PATH_def)
qed

lemma sysfs_write_other: "path \<noteq> q \<Longrightarrow> sysfs_write path s fs q = fs q"
  by (simp add: sysfs_write_def split: option.split)

lemma sysfs_write_same: "fs q = Some t \<Longrightarrow> sysfs_write q s fs q = Some s"
  by (simp add: sysfs_write_def)

lemma write_node_other: "enabled_path path \<Longrightarrow> (\<And>x. x @ ''/enabled'' \<noteq> q) \<Longrightarrow> write_node path s fs q = fs q"
  by (auto simp: write_node_def enabled_path_def sysfs_write_other split: option.split)

lemma touchkey_step_other:
  "enabled_path (touchkey_power_path p) \<Longrightarrow> (\<And>x. x @ ''/enabled'' \<noteq> q) \<Longrightarrow> snd (touchkey_step on (p, fs)) q = fs q"
  by (auto simp: touchkey_step_def enabled_path_def sysfs_write_other split: option.split)

lemma touchkey_step_power:
  "fst (touchkey_step on (p, fs)) = p\<lparr>touchkey_blocked := touchkey_blocked (fst (touchkey_step on (p, fs)))\<rparr>"
  by (simp add: touchkey_step_def split: option.split)

section \<open>The frequency limit\<close>

definition plain_file :: "string \<Rightarrow> bool" where
  "plain_file s \<longleftrightarrow> length s \<le> 9 \<and> CHR 0x00 \<notin> set s"

lemma read_plain: "fs path = Some s \<Longrightarrow> plain_file s \<Longrightarrow> read_into fs path 10 old = s"
  by (auto simp: read_into_def sysfs_read_def c_text_def plain_file_def)

text \<open>The files the HAL found, and the limit by the profile.\<close>

definition limits :: "string \<Rightarrow> string \<Rightarrow> string \<Rightarrow> string \<Rightarrow> power \<times> sysfs \<Rightarrow> bool" where
  "limits lo mid hi gov = (\<lambda>(p, fs).
     touch_ok p \<and> cpu_interactive_path p = gov \<and> cpu_max_freq p = hi \<and>
     fs SCALING_MIN_FREQ_PATH = Some lo \<and> fs (gov @ HISPEED_FREQ_PATH) = Some mid \<and>
     plain_file lo \<and> plain_file mid \<and> fs SCALING_MAX_FREQ_PATH \<noteq> None \<and>
     (current_power_profile p = PROFILE_POWER_SAVE \<longrightarrow> fs SCALING_MAX_FREQ_PATH = Some lo) \<and>
     (current_power_profile p = PROFILE_BALANCED \<longrightarrow> fs SCALING_MAX_FREQ_PATH = Some mid) \<and>
     (current_power_profile p = PROFILE_HIGH_PERFORMANCE \<longrightarrow> fs SCALING_MAX_FREQ_PATH = Some hi))"

lemma profiles [simp]: "PROFILE_POWER_SAVE \<noteq> PROFILE_BALANCED" "PROFILE_POWER_SAVE \<noteq> PROFILE_HIGH_PERFORMANCE"
    "PROFILE_BALANCED \<noteq> PROFILE_HIGH_PERFORMANCE" "PROFILE_BALANCED \<noteq> PROFILE_POWER_SAVE"
    "PROFILE_HIGH_PERFORMANCE \<noteq> PROFILE_POWER_SAVE" "PROFILE_HIGH_PERFORMANCE \<noteq> PROFILE_BALANCED"
  by (simp_all add: PROFILE_POWER_SAVE_def PROFILE_BALANCED_def PROFILE_HIGH_PERFORMANCE_def)

lemma limits_profile:
  assumes "limits lo mid hi gov (p, fs)"
  shows "limits lo mid hi gov (set_power_profile profile (p, fs))"
proof (cases "current_power_profile p = profile")
  case False
  obtain t where t: "fs SCALING_MAX_FREQ_PATH = Some t" using assms by (auto simp: limits_def)
  have "cpu_interactive_read fs p HISPEED_FREQ_PATH old = mid" for old
    using assms by (simp add: limits_def cpu_interactive_read_def PARAM_MAXLEN_def read_plain)
  moreover have "read_into fs SCALING_MIN_FREQ_PATH 10 old = lo" for old
    using assms by (simp add: limits_def read_plain)
  ultimately show ?thesis using assms False t
    by (simp add: limits_def set_power_profile_def touch_ok_def Let_def sysfs_write_same sysfs_write_other max_not_min
        max_not_hispeed [symmetric])
qed (use assms in \<open>simp add: set_power_profile_def\<close>)

lemma limits_hint: "limits lo mid hi gov s \<Longrightarrow> limits lo mid hi gov (samsung_power_hint h s)"
  by (cases s; cases h)
    (auto simp: samsung_power_hint_def send_boostpulse_def limits_profile, auto simp: limits_def touch_ok_def)

lemma limits_files:
  assumes "limits lo mid hi gov (p, fs)" "p' = p\<lparr>touchkey_blocked := b\<rparr>"
    "\<And>q. q \<in> {SCALING_MAX_FREQ_PATH, SCALING_MIN_FREQ_PATH, gov @ HISPEED_FREQ_PATH} \<Longrightarrow> fs' q = fs q"
  shows "limits lo mid hi gov (p', fs')"
  using assms by (simp add: limits_def touch_ok_def)

lemma limits_interactive:
  assumes "limits lo mid hi gov s" "samsung_power_set_interactive junk on s = Some s'"
  shows "limits lo mid hi gov s'"
proof -
  obtain p fs where s: "s = (p, fs)" by (cases s)
  have en: "enabled_path (touchscreen_power_path p)" "enabled_path (touchkey_power_path p)"
    using assms(1) by (simp_all add: s limits_def touch_ok_def)
  define v where "v = (if on then ''1'' else ''0'')"
  obtain p1 fs1 where t: "touchkey_step on (p, write_node (touchscreen_power_path p) v fs) = (p1, fs1)"
    by (cases "touchkey_step on (p, write_node (touchscreen_power_path p) v fs)")
  have b: "p1 = p\<lparr>touchkey_blocked := touchkey_blocked p1\<rparr>"
    using touchkey_step_power [of on p "write_node (touchscreen_power_path p) v fs"] t by simp
  have "limits lo mid hi gov (p1, fs1)"
  proof (rule limits_files [OF assms(1) [unfolded s] b])
    fix q assume "q \<in> {SCALING_MAX_FREQ_PATH, SCALING_MIN_FREQ_PATH, gov @ HISPEED_FREQ_PATH}"
    then have q: "x @ ''/enabled'' \<noteq> q" for x using freq_paths by auto
    show "fs1 q = fs q"
      using touchkey_step_other [OF en(2) q, of on "write_node (touchscreen_power_path p) v fs"]
        write_node_other [OF en(1) q, of v fs] t by simp
  qed
  moreover have "limits lo mid hi gov (p', cpu_interactive_write p' IO_IS_BUSY_PATH v fs')" if "limits lo mid hi gov (p', fs')" for p' fs'
    by (rule limits_files [OF that, of p' "touchkey_blocked p'"])
      (use freq_paths in \<open>auto simp: cpu_interactive_write_def sysfs_write_other\<close>)
  moreover obtain stay where "s' = (case if stay then (p, fs) else touchkey_step on (p, write_node (touchscreen_power_path p) v fs) of
      (p, fs) \<Rightarrow> (p, cpu_interactive_write p IO_IS_BUSY_PATH v fs))"
    using assms(2) unfolding s samsung_power_set_interactive_def prod.case map_option_eq_Some Let_def v_def by blast
  ultimately show ?thesis using assms(1) t by (cases stay) (simp_all add: s)
qed

lemma limits_step: "limits lo mid hi gov s \<Longrightarrow> power_step op s = Some s' \<Longrightarrow> limits lo mid hi gov s'"
  by (cases op; simp add: power_step_def limits_interactive) (metis limits_hint)

lemma limits_run: "limits lo mid hi gov s \<Longrightarrow> power_run ops s = Some s' \<Longrightarrow> limits lo mid hi gov s'"
proof (induction ops arbitrary: s)
  case (Cons op ops)
  from Cons.prems(2) obtain s1 where "power_step op s = Some s1" "power_run ops s1 = Some s'"
    by (auto simp: bind_eq_Some_conv)
  with Cons limits_step show ?case by blast
qed simp

lemma find_input_nodes_keeps:
  "touch_ok p \<Longrightarrow> touch_ok (find_input_nodes junk dirs fs dir p) \<and>
   cpu_interactive_path (find_input_nodes junk dirs fs dir p) = cpu_interactive_path p \<and>
   cpu_max_freq (find_input_nodes junk dirs fs dir p) = cpu_max_freq p \<and>
   current_power_profile (find_input_nodes junk dirs fs dir p) = current_power_profile p"
proof -
  define f where "f p d_name =
      (if d_name = ''name''
       then let file_content = read_into fs (dir @ ''/name'') 20 junk;
                node_path = dir @ ''/enabled'';
                p = (if take 12 file_content = ''sec_touchkey'' then p\<lparr>touchkey_power_path := Some node_path\<rparr> else p)
            in if take 15 file_content = ''sec_touchscreen'' then p\<lparr>touchscreen_power_path := Some node_path\<rparr> else p
       else p)" for p :: power and d_name
  have step: "touch_ok p \<Longrightarrow> touch_ok (f p d) \<and> cpu_interactive_path (f p d) = cpu_interactive_path p \<and>
      cpu_max_freq (f p d) = cpu_max_freq p \<and> current_power_profile (f p d) = current_power_profile p" for p d
    by (auto simp: f_def touch_ok_def enabled_path_def Let_def)
  have "touch_ok p \<Longrightarrow> touch_ok (foldl f p es) \<and> cpu_interactive_path (foldl f p es) = cpu_interactive_path p \<and>
      cpu_max_freq (foldl f p es) = cpu_max_freq p \<and> current_power_profile (foldl f p es) = current_power_profile p" for es
    by (induction es rule: rev_induct) (simp_all add: step)
  then show "touch_ok p \<Longrightarrow> ?thesis" by (simp add: find_input_nodes_def f_def [abs_def] split: option.split)
qed

lemma init_touch_keeps:
  "touch_ok p \<Longrightarrow> touch_ok (init_touch_input_power_path junk dirs fs p) \<and>
   cpu_interactive_path (init_touch_input_power_path junk dirs fs p) = cpu_interactive_path p \<and>
   cpu_max_freq (init_touch_input_power_path junk dirs fs p) = cpu_max_freq p \<and>
   current_power_profile (init_touch_input_power_path junk dirs fs p) = current_power_profile p"
proof -
  have "touch_ok p \<Longrightarrow> touch_ok (foldl (\<lambda>p i. find_input_nodes junk dirs fs (input_dir i) p) p is) \<and>
    cpu_interactive_path (foldl (\<lambda>p i. find_input_nodes junk dirs fs (input_dir i) p) p is) = cpu_interactive_path p \<and>
    cpu_max_freq (foldl (\<lambda>p i. find_input_nodes junk dirs fs (input_dir i) p) p is) = cpu_max_freq p \<and>
    current_power_profile (foldl (\<lambda>p i. find_input_nodes junk dirs fs (input_dir i) p) p is) = current_power_profile p" for "is"
    by (induction "is" rule: rev_induct) (simp_all add: find_input_nodes_keeps)
  then show "touch_ok p \<Longrightarrow> ?thesis" by (simp add: init_touch_input_power_path_def)
qed

lemma limits_init:
  assumes "fs SCALING_MAX_FREQ_PATH = Some hi" "plain_file hi" "fs SCALING_MIN_FREQ_PATH = Some lo" "plain_file lo"
    "fs (cpu_interactive_path p @ HISPEED_FREQ_PATH) = Some mid" "plain_file mid"
    "p = samsung_power_init junk dirs fs power_static"
  shows "limits lo mid hi (cpu_interactive_path p) (p, fs)"
proof -
  define p0 where "p0 = init_cpufreqs fs (get_cpu_interactive_paths fs (snd (get_scaling_governor fs power_static)))"
  have p: "p = init_touch_input_power_path junk dirs fs p0" by (simp add: assms(7) samsung_power_init_def p0_def)
  have "touch_ok p0 \<and> cpu_max_freq p0 = hi \<and> current_power_profile p0 = PROFILE_HIGH_PERFORMANCE"
    using assms(1,2)
    by (auto simp: p0_def init_cpufreqs_def get_cpu_interactive_paths_def get_scaling_governor_def power_static_def
        touch_ok_def enabled_path_def Let_def read_plain split: option.split)
  then show ?thesis using assms(1-6) init_touch_keeps [of p0 junk dirs fs] by (simp add: limits_def p)
qed

text \<open>C39: From the start of the HAL on, through any sequence of hints and screen changes, the frequency limit is the one of the
  current profile: the minimum for power saving, the governor's high speed for balanced, and for high performance the
  maximum that was found at the start, given that the three files held numbers of at most nine characters.\<close>

theorem limit_follows_profile:
  assumes "fs SCALING_MAX_FREQ_PATH = Some hi" "plain_file hi" "fs SCALING_MIN_FREQ_PATH = Some lo" "plain_file lo"
    "p = samsung_power_init junk dirs fs power_static"
    "fs (cpu_interactive_path p @ HISPEED_FREQ_PATH) = Some mid" "plain_file mid"
    "power_run ops (p, fs) = Some (p', fs')"
  shows "(current_power_profile p' = PROFILE_POWER_SAVE \<longrightarrow> fs' SCALING_MAX_FREQ_PATH = Some lo) \<and>
    (current_power_profile p' = PROFILE_BALANCED \<longrightarrow> fs' SCALING_MAX_FREQ_PATH = Some mid) \<and>
    (current_power_profile p' = PROFILE_HIGH_PERFORMANCE \<longrightarrow> fs' SCALING_MAX_FREQ_PATH = Some hi)"
  using limits_run [OF limits_init [OF assms(1-4,6,7,5)] assms(8)] by (simp add: limits_def)

text \<open>A device with the interactive governor.\<close>

definition toy_sysfs :: sysfs where
  "toy_sysfs = [SCALING_GOVERNOR_PATH \<mapsto> ''interactive'' @ [CHR 0x0A], SCALING_MAX_FREQ_PATH \<mapsto> ''1300000'',
     SCALING_MIN_FREQ_PATH \<mapsto> ''768000'', ''/sys/devices/system/cpu/cpufreq/interactive/hispeed_freq'' \<mapsto> ''900000'']"

definition toy_power :: power where
  "toy_power = samsung_power_init [] (\<lambda>_. None) toy_sysfs power_static"

lemma toy_power: "toy_power = power_static\<lparr>governor := ''interactive'',
    cpu_interactive_path := ''/sys/devices/system/cpu/cpufreq/interactive'', cpu_min_freq := ''768000'',
    cpu_hispeed_freq := ''900000'', cpu_max_freq := ''1300000''\<rparr>"
proof -
  have "init_touch_input_power_path junk (\<lambda>_. None) fs p = p" for junk fs p
  proof -
    have "foldl (\<lambda>q i. q) p is = p" for p :: power and "is" :: "nat list" by (induction "is" rule: rev_induct) simp_all
    then show ?thesis by (simp add: init_touch_input_power_path_def find_input_nodes_def)
  qed
  then show ?thesis
    by (simp add: toy_power_def samsung_power_init_def get_scaling_governor_def get_cpu_interactive_paths_def init_cpufreqs_def
        sysfs_read_def read_into_def cpu_interactive_read_def toy_sysfs_def strip_newline_def c_text_def power_static_def
        SCALING_MAX_FREQ_PATH_def SCALING_MIN_FREQ_PATH_def SCALING_GOVERNOR_PATH_def CPUFREQ_SYSFS_PATH_def CPU_SYSFS_PATH_def
        HISPEED_FREQ_PATH_def PARAM_MAXLEN_def)
qed

lemma limit_follows_profile_witness:
  "\<exists>p' fs'. power_run [Hint (POWER_HINT_SET_PROFILE PROFILE_POWER_SAVE), Interactive [] True] (toy_power, toy_sysfs) = Some (p', fs') \<and>
    (current_power_profile p' = PROFILE_POWER_SAVE \<longrightarrow> fs' SCALING_MAX_FREQ_PATH = Some ''768000'') \<and>
    (current_power_profile p' = PROFILE_BALANCED \<longrightarrow> fs' SCALING_MAX_FREQ_PATH = Some ''900000'') \<and>
    (current_power_profile p' = PROFILE_HIGH_PERFORMANCE \<longrightarrow> fs' SCALING_MAX_FREQ_PATH = Some ''1300000'')"
proof -
  have "\<exists>s. power_run [Hint (POWER_HINT_SET_PROFILE PROFILE_POWER_SAVE), Interactive [] True] (toy_power, toy_sysfs) = Some s"
    by (simp add: power_step_def samsung_power_set_interactive_def split: prod.split)
  then obtain p' fs' where run: "power_run [Hint (POWER_HINT_SET_PROFILE PROFILE_POWER_SAVE), Interactive [] True] (toy_power, toy_sysfs) = Some (p', fs')"
    by auto
  have files: "toy_sysfs SCALING_MAX_FREQ_PATH = Some ''1300000''" "toy_sysfs SCALING_MIN_FREQ_PATH = Some ''768000''"
    "toy_sysfs (cpu_interactive_path toy_power @ HISPEED_FREQ_PATH) = Some ''900000''"
    by (simp_all add: toy_sysfs_def toy_power SCALING_MAX_FREQ_PATH_def SCALING_MIN_FREQ_PATH_def SCALING_GOVERNOR_PATH_def
        CPU_SYSFS_PATH_def HISPEED_FREQ_PATH_def)
  show ?thesis
    using limit_follows_profile [OF files(1) _ files(2) _ toy_power_def files(3) _ run] run by (simp add: plain_file_def)
qed

section \<open>The touch keys\<close>

text \<open>The screen is dark: the brightness is read as zero.\<close>

definition dark :: "string \<Rightarrow> sysfs \<Rightarrow> bool" where
  "dark junk fs \<longleftrightarrow> fs PANEL_BRIGHTNESS = Some [CHR ''0'', CHR 0x0A] \<and> length junk = 4 \<and> \<not> digit_char (junk ! 3)"

lemma dark_brightness: "dark junk fs \<Longrightarrow> read_panel_brightness junk fs = Some 0"
proof -
  assume d: "dark junk fs"
  then obtain a b c e where j: "junk = [a, b, c, e]"
    by (auto simp: dark_def numeral_eq_Suc length_Suc_conv)
  have "\<not> digit_char CHR 0x0A" "\<not> digit_char CHR 0x00" by (simp_all add: digit_char_def)
  with d j show ?thesis
    by (simp add: read_panel_brightness_def sysfs_read_def dark_def mem_write_def PANEL_BRIGHTNESS_def)
qed

definition nodes :: "power \<Rightarrow> string \<Rightarrow> string \<Rightarrow> bool" where
  "nodes p k t \<longleftrightarrow> touchkey_power_path p = Some k \<and> touchscreen_power_path p = Some t \<and>
     distinct [k, t, cpu_interactive_path p @ IO_IS_BUSY_PATH, PANEL_BRIGHTNESS]"

lemma first_char: "take 1 (take 1 c @ [CHR 0x00]) = ''0'' \<longleftrightarrow> take 1 c = ''0''"
  by (cases c) simp_all

lemma screen_off:
  assumes "nodes p k t" "dark junk fs" "fs k = Some c" "fs t = Some u"
  shows "\<exists>fs'. samsung_power_set_interactive junk False (p, fs) = Some (p\<lparr>touchkey_blocked := (take 1 c = ''0'')\<rparr>, fs') \<and>
    fs' k = Some (if take 1 c = ''0'' then c else ''0'') \<and> fs' t = Some ''0'' \<and> dark junk fs'"
proof -
  define fs1 where "fs1 = sysfs_write t ''0'' fs"
  have fs1: "fs1 k = Some c" "fs1 t = Some ''0''" "fs1 PANEL_BRIGHTNESS = fs PANEL_BRIGHTNESS"
    using assms by (auto simp: fs1_def nodes_def sysfs_write_other sysfs_write_same)
  define fs2 where "fs2 = (if take 1 c = ''0'' then fs1 else sysfs_write k ''0'' fs1)"
  have step: "touchkey_step False (p, fs1) = (p\<lparr>touchkey_blocked := (take 1 c = ''0'')\<rparr>, fs2)"
    using assms(1) fs1(1) first_char [of c]
    by (simp add: touchkey_step_def nodes_def sysfs_read_def fs2_def)
  have fs2: "fs2 k = Some (if take 1 c = ''0'' then c else ''0'')" "fs2 t = Some ''0''" "fs2 PANEL_BRIGHTNESS = fs PANEL_BRIGHTNESS"
    using assms(1) fs1 by (auto simp: fs2_def nodes_def sysfs_write_other sysfs_write_same)
  let ?fs = "cpu_interactive_write p IO_IS_BUSY_PATH ''0'' fs2"
  have "samsung_power_set_interactive junk False (p, fs) = Some (p\<lparr>touchkey_blocked := (take 1 c = ''0'')\<rparr>, ?fs)"
    using assms(1) step by (simp add: samsung_power_set_interactive_def dark_brightness [OF assms(2)] nodes_def write_node_def
        fs1_def [symmetric] cpu_interactive_write_def)
  moreover have "?fs k = fs2 k" "?fs t = fs2 t" "?fs PANEL_BRIGHTNESS = fs2 PANEL_BRIGHTNESS"
    using assms(1) by (auto simp: nodes_def cpu_interactive_write_def sysfs_write_other)
  ultimately show ?thesis using fs2 assms(2) by (simp add: dark_def)
qed

lemma screen_on:
  assumes "nodes p k t" "fs k = Some c" "fs t = Some u"
  shows "\<exists>fs'. samsung_power_set_interactive junk True (p, fs) = Some (p, fs') \<and>
    fs' k = Some (if touchkey_blocked p then c else ''1'') \<and> fs' t = Some ''1''"
proof -
  define fs1 where "fs1 = sysfs_write t ''1'' fs"
  have fs1: "fs1 k = Some c" "fs1 t = Some ''1''"
    using assms by (auto simp: fs1_def nodes_def sysfs_write_other sysfs_write_same)
  define fs2 where "fs2 = (if touchkey_blocked p then fs1 else sysfs_write k ''1'' fs1)"
  have step: "touchkey_step True (p, fs1) = (p, fs2)"
    using assms(1) fs1(1) by (simp add: touchkey_step_def nodes_def fs2_def)
  let ?fs = "cpu_interactive_write p IO_IS_BUSY_PATH ''1'' fs2"
  have "samsung_power_set_interactive junk True (p, fs) = Some (p, ?fs)"
    using assms(1) step by (simp add: samsung_power_set_interactive_def nodes_def write_node_def fs1_def [symmetric])
  moreover have "?fs k = fs2 k" "?fs t = fs2 t"
    using assms(1) by (auto simp: nodes_def cpu_interactive_write_def sysfs_write_other)
  ultimately show ?thesis using fs1 assms(1) by (auto simp: fs2_def nodes_def sysfs_write_other sysfs_write_same)
qed

lemma nodes_blocked [simp]: "nodes (p\<lparr>touchkey_blocked := b\<rparr>) k t = nodes p k t"
  by (simp add: nodes_def)

text \<open>When the screen goes off and on again, the touch screen and the touch keys are switched off and on, except that
  keys someone else had switched off stay off; but when the HAL is told twice that the screen is off, it takes its own
  setting for someone else's, and keys that were on stay off after the screen is on again.\<close>

theorem touch_keys_resume:
  assumes "nodes p k t" "dark junk fs" "fs k = Some c" "fs t = Some u"
  shows "(\<exists>p1 fs1 p2 fs2. samsung_power_set_interactive junk False (p, fs) = Some (p1, fs1) \<and>
      fs1 t = Some ''0'' \<and> fs1 k = Some (if take 1 c = ''0'' then c else ''0'') \<and>
      samsung_power_set_interactive junk True (p1, fs1) = Some (p2, fs2) \<and>
      fs2 t = Some ''1'' \<and> fs2 k = Some (if take 1 c = ''0'' then c else ''1'')) \<and>
    (\<exists>p1 fs1 p2 fs2 p3 fs3. samsung_power_set_interactive junk False (p, fs) = Some (p1, fs1) \<and>
      samsung_power_set_interactive junk False (p1, fs1) = Some (p2, fs2) \<and>
      samsung_power_set_interactive junk True (p2, fs2) = Some (p3, fs3) \<and>
      fs3 t = Some ''1'' \<and> fs3 k = Some (if take 1 c = ''0'' then c else ''0''))"
proof -
  let ?c = "if take 1 c = ''0'' then c else ''0''"
  from screen_off [OF assms] obtain fs1 where
    off: "samsung_power_set_interactive junk False (p, fs) = Some (p\<lparr>touchkey_blocked := (take 1 c = ''0'')\<rparr>, fs1)"
      (is "_ = Some (?p1, _)") and fs1: "fs1 k = Some ?c" "fs1 t = Some ''0''" "dark junk fs1" by blast
  have n1: "nodes ?p1 k t" using assms(1) by simp
  from screen_on [OF n1 fs1(1,2)] obtain fs2 where on: "samsung_power_set_interactive junk True (?p1, fs1) = Some (?p1, fs2)"
    "fs2 k = Some (if take 1 c = ''0'' then ?c else ''1'')" "fs2 t = Some ''1''" by auto
  have c0: "take 1 ?c = ''0''" by simp
  from screen_off [OF n1 fs1(3,1,2)] obtain fs3 where
    off2: "samsung_power_set_interactive junk False (?p1, fs1) = Some (p\<lparr>touchkey_blocked := True\<rparr>, fs3)"
      and fs3: "fs3 k = Some ?c" "fs3 t = Some ''0''" unfolding c0 by auto
  from screen_on [OF _ fs3, of "p\<lparr>touchkey_blocked := True\<rparr>"] assms(1) obtain fs4 where
    on2: "samsung_power_set_interactive junk True (p\<lparr>touchkey_blocked := True\<rparr>, fs3) = Some (p\<lparr>touchkey_blocked := True\<rparr>, fs4)"
    "fs4 k = Some ?c" "fs4 t = Some ''1''" by auto
  show ?thesis
    by (rule conjI) (use off fs1 on in force, use off off2 on2 in force)
qed

definition toy_nodes :: "power \<times> sysfs" where
  "toy_nodes = (power_static\<lparr>touchkey_power_path := Some ''k'', touchscreen_power_path := Some ''t''\<rparr>,
     [''k'' \<mapsto> ''1'', ''t'' \<mapsto> ''1'', PANEL_BRIGHTNESS \<mapsto> [CHR ''0'', CHR 0x0A]])"

lemma touch_keys_resume_witness:
  "let p = fst toy_nodes; fs = snd toy_nodes; junk = replicate 4 CHR 0x00
   in (\<exists>p1 fs1 p2 fs2. samsung_power_set_interactive junk False (p, fs) = Some (p1, fs1) \<and>
      fs1 ''t'' = Some ''0'' \<and> fs1 ''k'' = Some (if take 1 ''1'' = ''0'' then ''1'' else ''0'') \<and>
      samsung_power_set_interactive junk True (p1, fs1) = Some (p2, fs2) \<and>
      fs2 ''t'' = Some ''1'' \<and> fs2 ''k'' = Some (if take 1 ''1'' = ''0'' then ''1'' else ''1'')) \<and>
    (\<exists>p1 fs1 p2 fs2 p3 fs3. samsung_power_set_interactive junk False (p, fs) = Some (p1, fs1) \<and>
      samsung_power_set_interactive junk False (p1, fs1) = Some (p2, fs2) \<and>
      samsung_power_set_interactive junk True (p2, fs2) = Some (p3, fs3) \<and>
      fs3 ''t'' = Some ''1'' \<and> fs3 ''k'' = Some (if take 1 ''1'' = ''0'' then ''1'' else ''0''))"
  unfolding Let_def
  by (rule touch_keys_resume)
    (simp_all add: toy_nodes_def nodes_def power_static_def dark_def digit_char_def PANEL_BRIGHTNESS_def IO_IS_BUSY_PATH_def)

end
