(* ===== verification/Fft.thy ===== *)
theory Fft
  imports Complex_Main
begin

text \<open>
  The Fourier transform of \<^verbatim>\<open>libs/gnsspc/fft.c\<close>.  \<open>double\<close> is a type \<open>'f\<close> with the operations the code applies to it,
  rounded or not; \<open>exact\<close> are the operations of the real numbers.  The array is changed in place; \<open>None\<close> is an access outside
  of it or a loop that does not end.
\<close>

section \<open>Arithmetic\<close>

record 'f arith =
  d_add :: "'f \<Rightarrow> 'f \<Rightarrow> 'f"
  d_sub :: "'f \<Rightarrow> 'f \<Rightarrow> 'f"
  d_mul :: "'f \<Rightarrow> 'f \<Rightarrow> 'f"
  d_div :: "'f \<Rightarrow> 'f \<Rightarrow> 'f"
  d_less :: "'f \<Rightarrow> 'f \<Rightarrow> bool"
  d_const :: "rat \<Rightarrow> 'f"
  d_pi :: 'f
  d_sin :: "'f \<Rightarrow> 'f"
  d_cos :: "'f \<Rightarrow> 'f"
  d_sqrt :: "'f \<Rightarrow> 'f"
  d_log10 :: "'f \<Rightarrow> 'f"
  d_floor :: "'f \<Rightarrow> 'f"
  d_to_int :: "'f \<Rightarrow> int"

text \<open>The conversion of an \<open>int\<close>.\<close>

definition d_int :: "'f arith \<Rightarrow> int \<Rightarrow> 'f" where
  "d_int A i = d_const A (of_int i)"

definition exact :: "real arith" where
  "exact = \<lparr>d_add = (+), d_sub = (-), d_mul = (*), d_div = (/), d_less = (<), d_const = of_rat, d_pi = pi,
     d_sin = sin, d_cos = cos, d_sqrt = sqrt, d_log10 = log 10, d_floor = (\<lambda>x. of_int \<lfloor>x\<rfloor>),
     d_to_int = (\<lambda>x. if 0 \<le> x then \<lfloor>x\<rfloor> else \<lceil>x\<rceil>)\<rparr>"

section \<open>Bit reversal\<close>

text \<open>The inner loop and \<open>j += m\<close>.\<close>

function rev_carry :: "nat \<Rightarrow> nat \<Rightarrow> nat" where
  "rev_carry m j = (if 2 \<le> m \<and> m < j then rev_carry (m div 2) (j - m) else j + m)"
  by pat_completeness auto
termination
  by (relation "measure fst") auto

declare rev_carry.simps [simp del]

definition swap_pair :: "nat \<Rightarrow> nat \<Rightarrow> 'f list \<Rightarrow> 'f list option" where
  "swap_pair i j d =
     (if i + 1 < length d \<and> j + 1 < length d
      then Some (let d = d[j := d ! i, i := d ! j] in d[j + 1 := d ! (i + 1), i + 1 := d ! (j + 1)]) else None)"

function reorder :: "nat \<Rightarrow> nat \<Rightarrow> nat \<Rightarrow> 'f list \<Rightarrow> 'f list option" where
  "reorder n i j d =
     (if i < n
      then Option.bind (if j > i then swap_pair i j d else Some d) (reorder n (i + 2) (rev_carry (n div 2) j))
      else Some d)"
  by pat_completeness auto
termination
  by (relation "measure (\<lambda>(n, i, j, d). n - i)") auto

declare reorder.simps [simp del]

section \<open>Stages\<close>

definition butterfly :: "'f arith \<Rightarrow> 'f \<Rightarrow> 'f \<Rightarrow> nat \<Rightarrow> nat \<Rightarrow> 'f list \<Rightarrow> 'f list option" where
  "butterfly A wr wi i j d =
     (if i + 1 < length d \<and> j + 1 < length d
      then Some (let tempr = d_sub A (d_mul A wr (d ! j)) (d_mul A wi (d ! (j + 1)));
                     tempi = d_add A (d_mul A wr (d ! (j + 1))) (d_mul A wi (d ! j));
                     d = d[j := d_sub A (d ! i) tempr];
                     d = d[j + 1 := d_sub A (d ! (i + 1)) tempi];
                     d = d[i := d_add A (d ! i) tempr]
                 in d[i + 1 := d_add A (d ! (i + 1)) tempi]) else None)"

text \<open>\<open>for (i = m; i <= n; i += istep)\<close>.\<close>

function group_loop :: "'f arith \<Rightarrow> nat \<Rightarrow> nat \<Rightarrow> nat \<Rightarrow> 'f \<Rightarrow> 'f \<Rightarrow> nat \<Rightarrow> 'f list \<Rightarrow> 'f list option" where
  "group_loop A n mmax istep wr wi i d =
     (if n < i then Some d
      else if istep = 0 then None
      else Option.bind (butterfly A wr wi i (i + mmax) d) (group_loop A n mmax istep wr wi (i + istep)))"
  by pat_completeness auto
termination
  by (relation "measure (\<lambda>(A, n, mmax, istep, wr, wi, i, d). n + 1 - i)") auto

declare group_loop.simps [simp del]

text \<open>\<open>for (m = 1; m < mmax; m += 2)\<close> with the recurrence for the factor.\<close>

function factor_loop :: "'f arith \<Rightarrow> nat \<Rightarrow> nat \<Rightarrow> nat \<Rightarrow> 'f \<Rightarrow> 'f \<Rightarrow> 'f \<Rightarrow> 'f \<Rightarrow> nat \<Rightarrow> 'f list \<Rightarrow> 'f list option" where
  "factor_loop A n mmax istep wpr wpi wr wi m d =
     (if m < mmax
      then Option.bind (group_loop A n mmax istep wr wi m d) (\<lambda>d.
        let wtemp = wr;
            wr = d_add A (d_sub A (d_mul A wtemp wpr) (d_mul A wi wpi)) wr;
            wi = d_add A (d_add A (d_mul A wi wpr) (d_mul A wtemp wpi)) wi
        in factor_loop A n mmax istep wpr wpi wr wi (m + 2) d)
      else Some d)"
  by pat_completeness auto
termination
  by (relation "measure (\<lambda>(A, n, mmax, istep, wpr, wpi, wr, wi, m, d). mmax - m)") auto

declare factor_loop.simps [simp del]

function stages :: "'f arith \<Rightarrow> int \<Rightarrow> nat \<Rightarrow> nat \<Rightarrow> 'f list \<Rightarrow> 'f list option" where
  "stages A isign n mmax d =
     (if mmax < n
      then if mmax = 0 then None
      else let istep = 2 * mmax;
               theta = d_div A (d_mul A (d_const A 2) (d_pi A)) (d_int A (isign * int mmax));
               wtemp = d_sin A (d_mul A (d_const A (1 / 2)) theta);
               wpr = d_mul A (d_mul A (d_const A (- 2)) wtemp) wtemp;
               wpi = d_sin A theta
           in Option.bind (factor_loop A n mmax istep wpr wpi (d_const A 1) (d_const A 0) 1 d) (stages A isign n istep)
      else Some d)"
  by pat_completeness auto
termination
  by (relation "measure (\<lambda>(A, isign, n, mmax, d). n - mmax)") auto

declare stages.simps [simp del]

definition FFT :: "'f arith \<Rightarrow> 'f list \<Rightarrow> nat \<Rightarrow> int \<Rightarrow> 'f list option" where
  "FFT A data nn isign =
     (let n = 2 * nn in Option.bind (reorder n 1 1 data) (stages A isign n 2))"

section \<open>Reversing bits\<close>

fun bits_rev :: "nat \<Rightarrow> nat \<Rightarrow> nat" where
  "bits_rev 0 p = 0"
| "bits_rev (Suc k) p = bits_rev k (p div 2) + p mod 2 * 2 ^ k"

lemma bits_rev_zero [simp]: "bits_rev k 0 = 0"
  by (induction k) simp_all

lemma bits_rev_less: "bits_rev k p < 2 ^ k"
proof (induction k arbitrary: p)
  case (Suc k)
  have "p mod 2 * 2 ^ k \<le> 1 * 2 ^ k" by (rule mult_right_mono) auto
  then show ?case using Suc.IH [of "p div 2"] unfolding bits_rev.simps power_Suc by linarith
qed simp

lemma bits_rev_top: "a < 2 ^ k \<Longrightarrow> c < 2 \<Longrightarrow> bits_rev (Suc k) (a + c * 2 ^ k) = 2 * bits_rev k a + c"
proof (induction k arbitrary: a)
  case (Suc k)
  have "(a + 2 * (c * 2 ^ k)) div 2 = a div 2 + c * 2 ^ k" "(a + 2 * (c * 2 ^ k)) mod 2 = a mod 2"
    by simp_all
  then have "(a + c * 2 ^ Suc k) div 2 = a div 2 + c * 2 ^ k" "(a + c * 2 ^ Suc k) mod 2 = a mod 2"
    by (simp_all only: power_Suc mult.left_commute)
  moreover have "a div 2 < 2 ^ k" using Suc.prems(1) by simp
  ultimately show ?case using Suc.IH [of "a div 2"] Suc.prems(2)
    by (simp only: bits_rev.simps(2) [of "Suc k"] bits_rev.simps(2) [of k a]) simp
qed simp

lemma bits_rev_inverse: "p < 2 ^ k \<Longrightarrow> bits_rev k (bits_rev k p) = p"
proof (induction k arbitrary: p)
  case (Suc k)
  have "bits_rev (Suc k) (bits_rev (Suc k) p) = 2 * bits_rev k (bits_rev k (p div 2)) + p mod 2"
    by (simp only: bits_rev.simps(2) [of k p]) (rule bits_rev_top, simp_all add: bits_rev_less)
  then show ?case using Suc by simp
qed simp

lemma rev_carry_correct:
  "p + 1 < 2 ^ k \<Longrightarrow> rev_carry (2 ^ k) (2 * bits_rev k p + 1) = 2 * bits_rev k (p + 1) + 1"
proof (induction k arbitrary: p)
  case (Suc k)
  show ?case
  proof (cases "even p")
    case True
    have "2 * bits_rev k (p div 2) + 1 < 2 ^ Suc k" using bits_rev_less [of k "p div 2"] by simp
    then show ?thesis using True by (subst rev_carry.simps) (simp add: even_iff_mod_2_eq_zero mod_Suc)
  next
    case False
    then have p: "p mod 2 = 1" "(p + 1) div 2 = p div 2 + 1" "(p + 1) mod 2 = 0" by presburger+
    have "p div 2 + 1 < 2 ^ k" using Suc.prems p(2) by simp
    from Suc.IH [OF this] p show ?thesis by (subst rev_carry.simps) simp
  qed
qed simp

end
