(* ===== verification/CwCapture.thy ===== *)
theory CwCapture
  imports Fft CText
begin

text \<open>
  The carrier measurement of \<^verbatim>\<open>libs/gnsspc/fft.c\<close>: samples of the intermediate frequency arrive as lines of
  hexadecimal bytes between two markers; after 16384 of them the ratio of carrier to noise is computed from their spectrum.
  A sentence is the memory from its first character on, and its length.  \<open>None\<close> is an access outside an array or the
  overflow of a counter.  Plain \<open>char\<close> is unsigned, as on the device.
\<close>

section \<open>Constants\<close>

definition nDataCount :: nat where "nDataCount = 16384"
definition FS :: int where "FS = 4092000"
definition FIN :: int where "FIN = 200000"

definition A0 :: "'f arith \<Rightarrow> 'f" where "A0 A = d_const A (21557895 / 10 ^ 8)"
definition A1 :: "'f arith \<Rightarrow> 'f" where "A1 A = d_const A (41663158 / 10 ^ 8)"
definition A2 :: "'f arith \<Rightarrow> 'f" where "A2 A = d_const A (277263158 / 10 ^ 9)"
definition A3 :: "'f arith \<Rightarrow> 'f" where "A3 A = d_const A (83578947 / 10 ^ 9)"
definition A4 :: "'f arith \<Rightarrow> 'f" where "A4 A = d_const A (6947368 / 10 ^ 9)"

text \<open>A loop over indices.\<close>

primrec for_each :: "nat list \<Rightarrow> (nat \<Rightarrow> 's \<Rightarrow> 's option) \<Rightarrow> 's \<Rightarrow> 's option" where
  "for_each [] f s = Some s"
| "for_each (i # is) f s = Option.bind (f i s) (for_each is f)"

section \<open>Magnitudes\<close>

definition magnitude :: "'f arith \<Rightarrow> 'f \<Rightarrow> 'f \<Rightarrow> 'f" where
  "magnitude A re im =
     d_div A (d_div A (d_sqrt A (d_add A (d_mul A re re) (d_mul A im im))) (d_int A (int nDataCount))) (d_const A 1024)"

definition cal_mag_step :: "'f arith \<Rightarrow> 'f list \<Rightarrow> nat \<Rightarrow> 'f list \<times> 'f \<times> nat \<Rightarrow> ('f list \<times> 'f \<times> nat) option" where
  "cal_mag_step A data i = (\<lambda>(mags, fMax, nIndex).
     if 2 * i + 2 < length data \<and> i < length mags
     then let fCur = magnitude A (data ! (2 * i + 1)) (data ! (2 * i + 2))
          in Some (if d_less A fMax fCur then (mags[i := fCur], fCur, i) else (mags[i := fCur], fMax, nIndex))
     else None)"

text \<open>The magnitudes, the largest one and its index.\<close>

definition CalMag :: "'f arith \<Rightarrow> 'f list \<Rightarrow> 'f list \<Rightarrow> ('f list \<times> 'f \<times> nat) option" where
  "CalMag A data mags = for_each [0..<nDataCount] (cal_mag_step A data) (mags, d_const A 0, 0)"

definition data_swap_step :: "nat \<Rightarrow> nat \<Rightarrow> 'f list \<Rightarrow> 'f list option" where
  "data_swap_step count i data =
     (if i + count div 2 < length data then Some (data[i := data ! (i + count div 2), i + count div 2 := data ! i]) else None)"

definition DataSwap :: "'f list \<Rightarrow> nat \<Rightarrow> 'f list option" where
  "DataSwap data count = for_each [0..<count div 2] (data_swap_step count) data"

definition find_max_step :: "'f arith \<Rightarrow> 'f list \<Rightarrow> nat \<Rightarrow> 'f \<times> nat \<Rightarrow> ('f \<times> nat) option" where
  "find_max_step A data i = (\<lambda>(maxValue, maxIndex).
     if i < length data then Some (if d_less A maxValue (data ! i) then (data ! i, i) else (maxValue, maxIndex)) else None)"

definition FindMax :: "'f arith \<Rightarrow> 'f list \<Rightarrow> nat \<Rightarrow> ('f \<times> nat) option" where
  "FindMax A data count =
     (if data = [] then None else for_each [1..<count] (find_max_step A data) (data ! 0, 0))"

section \<open>Carrier and noise\<close>

definition sig_bins :: "nat \<Rightarrow> nat list" where
  "sig_bins nSigBins =
     (if nSigBins = 0 then [nDataCount - 2, nDataCount - 1, 0, 1, 2]
      else if nSigBins = 1 then [nDataCount - 1, 0, 1, 2, 3]
      else if nSigBins = 16383 then [nDataCount - 3, nDataCount - 2, nDataCount - 1, 0, 1]
      else if nSigBins = 16382 then [nDataCount - 4, nDataCount - 3, nDataCount - 2, nDataCount - 1, 0]
      else [nSigBins - 2, nSigBins - 1, nSigBins, nSigBins + 1, nSigBins + 2])"

definition square_at :: "'f arith \<Rightarrow> 'f list \<Rightarrow> nat \<Rightarrow> 'f" where
  "square_at A mags k = d_mul A (mags ! k) (mags ! k)"

definition CalSigPower :: "'f arith \<Rightarrow> 'f list \<Rightarrow> nat \<Rightarrow> ('f \<times> 'f list) option" where
  "CalSigPower A mags nSigBins =
     (let ks = sig_bins nSigBins
      in if list_all (\<lambda>k. k < length mags) ks
         then let fPowerSum = (if nSigBins \<in> {0, 1, 16383, 16382}
                then foldl (\<lambda>s k. d_add A s (square_at A mags k)) (square_at A mags (hd ks)) (tl ks)
                else foldl (\<lambda>s k. d_add A s (square_at A mags k)) (d_const A 0) ks)
              in Some (d_sqrt A fPowerSum, foldl (\<lambda>m k. m[k := d_const A 0]) mags ks)
         else None)"

definition nFrqBin :: "'f arith \<Rightarrow> 'f" where
  "nFrqBin A = d_div A (d_int A FS) (d_int A (int nDataCount))"

definition noise_bin :: "'f arith \<Rightarrow> ('f \<Rightarrow> 'f \<Rightarrow> 'f) \<Rightarrow> int" where
  "noise_bin A side = d_to_int A (d_sub A
     (side (d_int A (int (nDataCount div 2))) (d_floor A (d_div A (d_const A 1000000) (nFrqBin A)))) (d_int A 1))"

definition noise_step :: "'f arith \<Rightarrow> 'f list \<Rightarrow> nat \<Rightarrow> 'f \<Rightarrow> 'f option" where
  "noise_step A mags k fSum = (if k < length mags then Some (d_add A fSum (square_at A mags k)) else None)"

definition CalNoisePower :: "'f arith \<Rightarrow> 'f list \<Rightarrow> 'f option" where
  "CalNoisePower A mags =
     (let low = noise_bin A (d_sub A); high = noise_bin A (d_add A)
      in if low \<le> high \<and> low < 0 then None
         else map_option (d_sqrt A) (for_each [nat low..<nat (high + 1)] (noise_step A mags) (d_const A 0)))"

definition carrier_bin :: "'f arith \<Rightarrow> int" where
  "carrier_bin A = d_to_int A (d_floor A (d_add A
     (d_add A (d_div A (d_int A (int nDataCount)) (d_const A 2)) (d_div A (d_int A FIN) (nFrqBin A))) (d_int A 1)))"

definition CalSNR :: "'f arith \<Rightarrow> 'f list \<Rightarrow> 'f \<Rightarrow> nat \<Rightarrow> ('f \<times> 'f list) option" where
  "CalSNR A mags fMaxValue nMaxIndex =
     (let nSigBins1 = carrier_bin A
      in if nSigBins1 < 0 \<or> int (length mags) \<le> nSigBins1 then None
         else let nSigBins = (if d_less A (mags ! nat nSigBins1) fMaxValue then nMaxIndex else nat nSigBins1)
              in Option.bind (CalSigPower A mags nSigBins) (\<lambda>(power, mags).
                 map_option (\<lambda>noise. (d_mul A (d_int A 20) (d_log10 A (d_div A power noise)), mags)) (CalNoisePower A mags)))"

section \<open>Lines\<close>

text \<open>Is \<open>pat\<close> at one of the first \<open>len\<close> places?\<close>

function find_marker :: "string \<Rightarrow> nat \<Rightarrow> string \<Rightarrow> nat \<Rightarrow> bool option" where
  "find_marker mem len pat i =
     (if len \<le> i then Some False
      else if length mem < i + length pat then None
      else if take (length pat) (drop i mem) = pat then Some True else find_marker mem len pat (i + 1))"
  by pat_completeness auto
termination
  by (relation "measure (\<lambda>(mem, len, pat, i). len - i)") auto

declare find_marker.simps [simp del]

definition DATA_CAPTURE_BEGIN :: string where "DATA_CAPTURE_BEGIN = ''DATA_CAPTURE_BEGIN''"
definition DATA_CAPTURE_END :: string where "DATA_CAPTURE_END = ''DATA_CAPTURE_END''"

text \<open>\<open>%s\<close> into an array of three characters: \<open>None\<close> when the word is longer; the array stays empty at the end of the text.\<close>

definition scan_byte :: "string \<Rightarrow> (string \<times> string) option" where
  "scan_byte s =
     (let t = dropWhile char_space s; w = takeWhile (\<lambda>c. \<not> char_space c) t
      in if 2 < length w then None else Some (w, drop (length w) t))"

definition strtol16 :: "string \<Rightarrow> int" where
  "strtol16 s =
     (let (neg, t) = signed_text s;
          v = int (text_digits 16 0 (if take 2 t = ''0x'' \<or> take 2 t = ''0X'' then drop 2 t else t))
      in if neg then - v else v)"

definition to_char :: "int \<Rightarrow> int" where
  "to_char v = v mod 256"

definition hex_val :: "int \<Rightarrow> int \<Rightarrow> int" where
  "hex_val low high = (let v = high * 256 + low in if v > 32768 then v - 65535 else v)"

text \<open>The two components of a sample.\<close>

definition read_sample :: "string \<Rightarrow> (int \<times> int) option" where
  "read_sample mem =
     (if CHR 0x00 \<notin> set mem then None
      else Option.bind (scan_byte (takeWhile (\<lambda>c. c \<noteq> CHR 0x00) mem)) (\<lambda>(byte1, s).
           Option.bind (scan_byte s) (\<lambda>(byte2, s).
           Option.bind (scan_byte s) (\<lambda>(byte3, s).
           Option.bind (scan_byte s) (\<lambda>(byte4, s).
           let data = \<lambda>b. to_char (strtol16 b)
           in Some (hex_val (data byte1) (data byte2), hex_val (data byte3) (data byte4)))))))"

definition window :: "'f arith \<Rightarrow> nat \<Rightarrow> 'f" where
  "window A k =
     (let c = \<lambda>m. d_cos A (d_div A (d_mul A (d_mul A (d_int A m) (d_pi A)) (d_int A (int k))) (d_int A (int (nDataCount - 1))))
      in d_add A (d_sub A (d_add A (d_sub A (A0 A) (d_mul A (A1 A) (c 2))) (d_mul A (A2 A) (c 4))) (d_mul A (A3 A) (c 6)))
           (d_mul A (A4 A) (c 8)))"

section \<open>The state\<close>

record 'f capture =
  data_capture_flag :: bool
  dataCount :: nat
  lineCount :: nat
  arrIQData :: "'f list"
  arrWinAdd :: "'f list"
  fMaxMag :: 'f
  MaxIndex :: nat
  cn0 :: int

definition end_capture :: "string \<Rightarrow> nat \<Rightarrow> 'f capture \<Rightarrow> 'f capture option" where
  "end_capture mem len st =
     (if data_capture_flag st
      then map_option (\<lambda>found. if found then st\<lparr>data_capture_flag := False, dataCount := 0, lineCount := 0\<rparr> else st)
             (find_marker mem len DATA_CAPTURE_END 0)
      else Some st)"

definition store_sample :: "'f arith \<Rightarrow> int \<Rightarrow> int \<Rightarrow> 'f capture \<Rightarrow> 'f capture option" where
  "store_sample A IHexVal QHexVal st =
     (let k = dataCount st; w = window A k
      in if 2 * k + 2 < length (arrIQData st) \<and> k < length (arrWinAdd st)
         then Some (st\<lparr>dataCount := k + 1, arrWinAdd := (arrWinAdd st)[k := w],
                arrIQData := (arrIQData st)[2 * k + 1 := d_mul A (d_int A IHexVal) w,
                  2 * k + 2 := d_mul A (d_mul A (d_int A QHexVal) (d_int A (- 1))) w]\<rparr>)
         else None)"

definition capture_line :: "'f arith \<Rightarrow> string \<Rightarrow> 'f capture \<Rightarrow> 'f capture option" where
  "capture_line A mem st =
     (if 2 ^ 31 - 1 \<le> lineCount st then None
      else let st = st\<lparr>lineCount := lineCount st + 1\<rparr>
           in if lineCount st mod 5 \<noteq> 0
              then Option.bind (read_sample mem) (\<lambda>(IHexVal, QHexVal). store_sample A IHexVal QHexVal st)
              else Some st)"

definition measure_cn0 :: "'f arith \<Rightarrow> 'f capture \<Rightarrow> 'f capture option" where
  "measure_cn0 A st =
     (if dataCount st = nDataCount
      then Option.bind (FFT A (arrIQData st) nDataCount (- 1)) (\<lambda>data.
           Option.bind (CalMag A data (replicate nDataCount (d_const A 0))) (\<lambda>(mags, fMax, nIndex).
           Option.bind (DataSwap mags nDataCount) (\<lambda>mags.
           Option.bind (FindMax A mags nDataCount) (\<lambda>(maxValue, maxIndex).
           Option.bind (CalSNR A mags maxValue maxIndex) (\<lambda>(snr, mags).
           Some (st\<lparr>dataCount := 0, arrIQData := data, fMaxMag := maxValue, MaxIndex := maxIndex,
             cn0 := d_to_int A (d_add A snr (d_mul A (d_int A 10) (d_log10 A (d_const A 2000000))))\<rparr>))))))
      else Some st)"

definition begin_capture :: "'f arith \<Rightarrow> string \<Rightarrow> nat \<Rightarrow> 'f capture \<Rightarrow> 'f capture option" where
  "begin_capture A mem len st =
     (if \<not> data_capture_flag st
      then map_option (\<lambda>found. if found
             then st\<lparr>data_capture_flag := True, dataCount := 0, lineCount := 0, fMaxMag := d_const A 0, MaxIndex := 0,
               arrIQData := replicate (2 * nDataCount + 1) (d_const A 0), arrWinAdd := replicate nDataCount (d_const A 0)\<rparr>
             else st) (find_marker mem len DATA_CAPTURE_BEGIN 0)
      else Some st)"

definition cw_data_capture :: "'f arith \<Rightarrow> string \<Rightarrow> nat \<Rightarrow> 'f capture \<Rightarrow> 'f capture option" where
  "cw_data_capture A mem len st =
     Option.bind (end_capture mem len st) (\<lambda>st.
     Option.bind (if data_capture_flag st then Option.bind (capture_line A mem st) (measure_cn0 A) else Some st) (\<lambda>st.
     begin_capture A mem len st))"

end
