(* ===== verification/FftProps.thy ===== *)
theory FftProps
  imports Fft
begin

text \<open>
  The transform computes the discrete Fourier transform: in exact arithmetic, for any power of two and both directions.
  The reordering is the reversal of bits, and a stage joins two transforms of half the length.
\<close>

section \<open>The array as complex numbers\<close>

definition cpx :: "real list \<Rightarrow> nat \<Rightarrow> complex" where
  "cpx d p = Complex (d ! (2 * p + 1)) (d ! (2 * p + 2))"

lemma exact_simps [simp]:
  "d_add exact = (+)" "d_sub exact = (-)" "d_mul exact = (*)" "d_div exact = (/)" "d_less exact = (<)"
  "d_const exact = of_rat" "d_pi exact = pi" "d_sin exact = sin" "d_cos exact = cos" "d_sqrt exact = sqrt"
  "d_log10 exact = log 10" "d_floor exact x = of_int \<lfloor>x\<rfloor>" "d_int exact i = of_int i"
  by (simp_all add: exact_def d_int_def)

lemma swap_pair_cpx:
  assumes "length d = 2 * N + 1" "p < N" "r < N" "p \<noteq> r"
  obtains d' where "swap_pair (2 * p + 1) (2 * r + 1) d = Some d'" "length d' = length d"
    "\<And>a. cpx d' a = (if a = p then cpx d r else if a = r then cpx d p else cpx d a)"
proof -
  have l: "2 * p + 2 < length d" "2 * r + 2 < length d" using assms by simp_all
  show thesis
  proof (rule that)
    show "swap_pair (2 * p + 1) (2 * r + 1) d = Some
      (d[2 * r + 1 := d ! (2 * p + 1), 2 * p + 1 := d ! (2 * r + 1), 2 * r + 2 := d ! (2 * p + 2), 2 * p + 2 := d ! (2 * r + 2)])"
      using l assms(4) by (simp add: swap_pair_def Let_def nth_list_update) 
  qed (use l assms(4) in \<open>auto simp: cpx_def nth_list_update\<close>)
qed

section \<open>Reordering\<close>

lemma reorder_cpx:
  assumes "length d = 2 * 2 ^ k + 1" "p \<le> 2 ^ k"
    and "\<forall>a < 2 ^ k. cpx d a = (if a < p \<or> bits_rev k a < p then x (bits_rev k a) else x a)"
    and "p < 2 ^ k \<Longrightarrow> j = 2 * bits_rev k p + 1"
  shows "\<exists>d'. reorder (2 * 2 ^ k) (2 * p + 1) j d = Some d' \<and> length d' = length d \<and>
    (\<forall>a < 2 ^ k. cpx d' a = x (bits_rev k a))"
  using assms
proof (induction "2 ^ k - p" arbitrary: p d j)
  case 0
  then have "p = 2 ^ k" by simp
  then show ?case using 0 by (subst reorder.simps) simp
next
  case (Suc n)
  define r where "r = bits_rev k p"
  have p: "p < 2 ^ k" and r: "r < 2 ^ k" "bits_rev k r = p" "j = 2 * r + 1"
    using Suc bits_rev_inverse [of p k] bits_rev_less [of k p] by (simp_all add: r_def)
  have inj: "bits_rev k a = p \<longleftrightarrow> a = r" if "a < 2 ^ k" for a
    using that r(2) bits_rev_inverse [OF that] by (auto simp: r_def)
  obtain d' where d': "(if j > 2 * p + 1 then swap_pair (2 * p + 1) j d else Some d) = Some d'" "length d' = length d"
    and upd: "\<forall>a < 2 ^ k. cpx d' a = (if a < Suc p \<or> bits_rev k a < Suc p then x (bits_rev k a) else x a)"
  proof (cases "p < r")
    case True
    obtain d' where s: "swap_pair (2 * p + 1) (2 * r + 1) d = Some d'" "length d' = length d"
      "\<And>a. cpx d' a = (if a = p then cpx d r else if a = r then cpx d p else cpx d a)"
      using swap_pair_cpx [of d "2 ^ k" p r] Suc.prems(1) p r(1) True by (metis less_irrefl)
    have "cpx d p = x p" "cpx d r = x r" using Suc.prems(3) p r True by (auto simp flip: r_def)
    then have "\<forall>a < 2 ^ k. cpx d' a = (if a < Suc p \<or> bits_rev k a < Suc p then x (bits_rev k a) else x a)"
      using Suc.prems(3) s(3) inj r True by (auto simp: less_Suc_eq simp flip: r_def)
    then show thesis using that s True r(3) by simp
  next
    case False
    have "\<forall>a < 2 ^ k. cpx d a = (if a < Suc p \<or> bits_rev k a < Suc p then x (bits_rev k a) else x a)"
      using Suc.prems(3) inj r False p by (auto simp: less_Suc_eq not_less_iff_gr_or_eq simp flip: r_def)
    then show thesis using that False r(3) by simp
  qed
  have "\<exists>d''. reorder (2 * 2 ^ k) (2 * Suc p + 1) (rev_carry (2 ^ k) j) d' = Some d'' \<and> length d'' = length d' \<and>
    (\<forall>a < 2 ^ k. cpx d'' a = x (bits_rev k a))"
    by (rule Suc.hyps(1)) (use Suc.hyps(2) Suc.prems(1) d'(2) p upd rev_carry_correct [of p k] r(3) in \<open>simp_all add: r_def\<close>)
  then show ?case using d' p by (subst reorder.simps) simp
qed

section \<open>One stage\<close>

lemma butterfly_cpx:
  assumes "length d = 2 * N + 1" "p < N" "r < N" "p \<noteq> r"
  obtains d' where "butterfly exact (Re w) (Im w) (2 * p + 1) (2 * r + 1) d = Some d'" "length d' = length d"
    "\<And>a. cpx d' a = (if a = p then cpx d p + w * cpx d r else if a = r then cpx d p - w * cpx d r else cpx d a)"
proof -
  have l: "2 * p + 2 < length d" "2 * r + 2 < length d" using assms by simp_all
  define tr where "tr = Re w * d ! (2 * r + 1) - Im w * d ! (2 * r + 2)"
  define ti where "ti = Re w * d ! (2 * r + 2) + Im w * d ! (2 * r + 1)"
  show thesis
  proof (rule that)
    show "butterfly exact (Re w) (Im w) (2 * p + 1) (2 * r + 1) d = Some
      (d[2 * r + 1 := d ! (2 * p + 1) - tr, 2 * r + 2 := d ! (2 * p + 2) - ti,
         2 * p + 1 := d ! (2 * p + 1) + tr, 2 * p + 2 := d ! (2 * p + 2) + ti])"
      using l assms(4) by (simp add: butterfly_def Let_def nth_list_update tr_def ti_def)
  qed (use l assms(4) in \<open>auto simp: cpx_def nth_list_update complex_eq_iff tr_def ti_def\<close>)
qed

lemma mod_eq_next:
  assumes "a mod L = p mod L" "p \<le> a" shows "a = p \<or> p + L \<le> (a :: nat)"
proof -
  have "L dvd a - p" using assms by (simp add: mod_eq_dvd_iff_nat)
  then show ?thesis using assms(2) dvd_imp_le [of L "a - p"] by linarith
qed

lemma upper_half:
  "a mod (2 * M) < M \<Longrightarrow> (a + M) mod (2 * M) = a mod (2 * M) + M"
  "\<not> a mod (2 * M) < M \<Longrightarrow> 0 < M \<Longrightarrow> (a - M) mod (2 * M) = a mod (2 * M) - M \<and> M \<le> (a :: nat)"
proof -
  assume "a mod (2 * M) < M"
  then have "(a mod (2 * M) + M) mod (2 * M) = a mod (2 * M) + M" by simp
  then show "(a + M) mod (2 * M) = a mod (2 * M) + M" by (simp add: mod_add_left_eq)
next
  assume m: "\<not> a mod (2 * M) < M" "0 < M"
  have a: "a = a div (2 * M) * (2 * M) + a mod (2 * M)" by (rule div_mult_mod_eq [symmetric])
  then have "M \<le> a" using m by (metis le_add2 le_trans not_less)
  moreover have "a - M = a div (2 * M) * (2 * M) + (a mod (2 * M) - M)" using a m(1) by linarith
  then have "(a - M) mod (2 * M) = (a mod (2 * M) - M) mod (2 * M)" by (metis mod_mult_self3)
  moreover have "a mod (2 * M) - M < 2 * M" using m(2) by (simp add: less_imp_diff_less)
  ultimately show "(a - M) mod (2 * M) = a mod (2 * M) - M \<and> M \<le> a" by simp
qed

lemma half_inside:
  assumes "2 * M dvd N" "a < N" "a mod (2 * M) < M" shows "a + M < (N :: nat)"
proof -
  have "a div (2 * M) < N div (2 * M)" using assms by (simp add: div_less_iff_less_mult less_mult_imp_div_less)
  then have "(a div (2 * M) + 1) * (2 * M) \<le> N div (2 * M) * (2 * M)" by (intro mult_right_mono) auto
  then have "(a div (2 * M) + 1) * (2 * M) \<le> N" using assms(1) by simp
  then show ?thesis using div_mult_mod_eq [of a "2 * M"] assms(3) by simp
qed

lemma group_loop_cpx:
  assumes "length d = 2 * N + 1" "0 < M" "2 * M dvd N" "p mod (2 * M) = q" "q < M"
  shows "\<exists>d'. group_loop exact (2 * N) (2 * M) (2 * (2 * M)) (Re w) (Im w) (2 * p + 1) d = Some d' \<and> length d' = length d \<and>
    (\<forall>a < N. cpx d' a =
       (if p \<le> a \<and> a mod (2 * M) = q then cpx d a + w * cpx d (a + M)
        else if p \<le> a \<and> a mod (2 * M) = q + M then cpx d (a - M) - w * cpx d a else cpx d a))"
  using assms(1,4)
proof (induction "N - p" arbitrary: p d rule: less_induct)
  case less
  show ?case
  proof (cases "p < N")
    case False
    then show ?thesis using less.prems by (subst group_loop.simps) auto
  next
    case True
    have pM: "p + M < N" using half_inside [OF assms(3) True] less.prems(2) assms(5) by simp
    obtain d' where b: "butterfly exact (Re w) (Im w) (2 * p + 1) (2 * (p + M) + 1) d = Some d'" "length d' = length d"
      "\<And>a. cpx d' a = (if a = p then cpx d p + w * cpx d (p + M)
         else if a = p + M then cpx d p - w * cpx d (p + M) else cpx d a)"
      using butterfly_cpx [OF less.prems(1) True pM, of w] assms(2) by (metis add_cancel_left_right less_irrefl)
    have "N - (p + 2 * M) < N - p" "length d' = 2 * N + 1" "(p + 2 * M) mod (2 * M) = q"
      using True assms(2) less.prems b(2) by simp_all
    from less.hyps [OF this] obtain e where e: "group_loop exact (2 * N) (2 * M) (2 * (2 * M)) (Re w) (Im w) (2 * (p + 2 * M) + 1) d' = Some e"
      "length e = length d'" "\<forall>a < N. cpx e a =
       (if p + 2 * M \<le> a \<and> a mod (2 * M) = q then cpx d' a + w * cpx d' (a + M)
        else if p + 2 * M \<le> a \<and> a mod (2 * M) = q + M then cpx d' (a - M) - w * cpx d' a else cpx d' a)" by blast
    have "(p + M) mod (2 * M) = q + M" using upper_half(1) [of p M] less.prems(2) assms(5) by simp
    then have pMq: "a mod (2 * M) = q + M \<longleftrightarrow> a mod (2 * M) = (p + M) mod (2 * M)" for a by simp
    have n1: "p \<le> a \<and> a mod (2 * M) = q \<longleftrightarrow> a = p \<or> p + 2 * M \<le> a \<and> a mod (2 * M) = q" for a
      using mod_eq_next [of a "2 * M" p] less.prems(2) by auto
    have n2: "p \<le> a \<and> a mod (2 * M) = q + M \<longleftrightarrow> a = p + M \<or> p + 2 * M \<le> a \<and> a mod (2 * M) = q + M" (is "?l \<longleftrightarrow> ?r") for a
    proof
      assume l: ?l
      then have m: "a mod (2 * M) = (p + M) mod (2 * M)" using pMq by simp
      show ?r using l mod_eq_next [OF m] mod_eq_next [OF m [symmetric]] assms(2) by linarith
    qed (use pMq assms(2) in auto)
    have "\<forall>a < N. cpx e a =
       (if p \<le> a \<and> a mod (2 * M) = q then cpx d a + w * cpx d (a + M)
        else if p \<le> a \<and> a mod (2 * M) = q + M then cpx d (a - M) - w * cpx d a else cpx d a)"
      unfolding n1 n2
    proof (intro allI impI)
      fix a assume a: "a < N"
      have "a - M \<noteq> p \<and> a - M \<noteq> p + M" if "p + 2 * M \<le> a" "a mod (2 * M) = q + M"
      proof -
        have "a \<noteq> p + 2 * M" using that(2) less.prems(2) assms(2) by auto
        then show ?thesis using that(1) assms(2) by linarith
      qed
      then show "cpx e a = (if a = p \<or> p + 2 * M \<le> a \<and> a mod (2 * M) = q then cpx d a + w * cpx d (a + M)
          else if a = p + M \<or> p + 2 * M \<le> a \<and> a mod (2 * M) = q + M then cpx d (a - M) - w * cpx d a else cpx d a)"
        unfolding e(3) [rule_format, OF a] b(3) using assms(2) by simp
    qed
    then show ?thesis using e(1,2) b(1,2) True assms(2)
      by (subst group_loop.simps) (simp add: algebra_simps)
  qed
qed

text \<open>The recurrence for the factor is a rotation.\<close>

lemma rotate_factor:
  assumes "wpr = - 2 * sin (t / 2) * sin (t / 2)" "wpi = sin t"
  shows "Re w * wpr - Im w * wpi + Re w = Re (w * cis t)" "Im w * wpr + Re w * wpi + Im w = Im (w * cis t)"
proof -
  have wpr: "wpr = cos t - 1" using cos_double_sin [of "t / 2"] assms(1) by (simp add: power2_eq_square)
  then show "Re w * wpr - Im w * wpi + Re w = Re (w * cis t)" "Im w * wpr + Re w * wpi + Im w = Im (w * cis t)"
    unfolding wpr by (simp_all add: assms(2) algebra_simps)
qed

lemma factor_loop_cpx:
  assumes "length d = 2 * N + 1" "0 < M" "2 * M dvd N" "q \<le> M"
    and "wpr = - 2 * sin (t / 2) * sin (t / 2)" "wpi = sin t" "w = cis (real q * t)"
  shows "\<exists>d'. factor_loop exact (2 * N) (2 * M) (2 * (2 * M)) wpr wpi (Re w) (Im w) (2 * q + 1) d = Some d' \<and>
    length d' = length d \<and>
    (\<forall>a < N. let c = a mod (2 * M) in cpx d' a =
       (if q \<le> c \<and> c < M then cpx d a + cis (real c * t) * cpx d (a + M)
        else if q + M \<le> c then cpx d (a - M) - cis (real (c - M) * t) * cpx d a else cpx d a))"
  using assms(1,4,7)
proof (induction "M - q" arbitrary: q d w)
  case 0
  then have "\<not> q + M \<le> a mod (2 * M)" for a
    using assms(2) mod_less_divisor [of "2 * M" a] by linarith
  then show ?case using 0 by (subst factor_loop.simps) (auto simp: Let_def)
next
  case (Suc n)
  have q: "q < M" using Suc.hyps(2) by simp
  then have m: "q mod (2 * M) = q" by simp
  obtain d' where g: "group_loop exact (2 * N) (2 * M) (2 * (2 * M)) (Re w) (Im w) (2 * q + 1) d = Some d'" "length d' = length d"
    and y: "\<forall>a < N. cpx d' a =
       (if q \<le> a \<and> a mod (2 * M) = q then cpx d a + w * cpx d (a + M)
        else if q \<le> a \<and> a mod (2 * M) = q + M then cpx d (a - M) - w * cpx d a else cpx d a)"
    using group_loop_cpx [OF Suc.prems(1) assms(2,3) m q, of w] by blast
  have n: "n = M - Suc q" and l: "length d' = 2 * N + 1" using Suc.hyps(2) Suc.prems(1) g(2) by simp_all
  have w: "w * cis t = cis (real (Suc q) * t)" by (simp add: Suc.prems(3) cis_mult algebra_simps)
  obtain e where e: "factor_loop exact (2 * N) (2 * M) (2 * (2 * M)) wpr wpi (Re (w * cis t)) (Im (w * cis t)) (2 * Suc q + 1) d' = Some e"
    "length e = length d'" and z: "\<forall>a < N. let c = a mod (2 * M) in cpx e a =
       (if Suc q \<le> c \<and> c < M then cpx d' a + cis (real c * t) * cpx d' (a + M)
        else if Suc q + M \<le> c then cpx d' (a - M) - cis (real (c - M) * t) * cpx d' a else cpx d' a)"
    using Suc.hyps(1) [of "Suc q" d' "w * cis t", OF n l Suc_leI [OF q] w] by blast
  have "\<forall>a < N. let c = a mod (2 * M) in cpx e a =
       (if q \<le> c \<and> c < M then cpx d a + cis (real c * t) * cpx d (a + M)
        else if q + M \<le> c then cpx d (a - M) - cis (real (c - M) * t) * cpx d a else cpx d a)"
    unfolding Let_def
  proof (intro allI impI)
    fix a assume a: "a < N"
    define c where "c = a mod (2 * M)"
    have ca: "c \<le> a" by (simp add: c_def)
    note ye = y [rule_format] and ze = z [rule_format, OF a, unfolded Let_def, folded c_def]
    consider "Suc q \<le> c" "c < M" | "Suc q + M \<le> c" | "c = q" | "c = q + M" | "c < q" | "M \<le> c" "c < q + M" by linarith
    then show "cpx e a = (if q \<le> a mod (2 * M) \<and> a mod (2 * M) < M then cpx d a + cis (real (a mod (2 * M)) * t) * cpx d (a + M)
        else if q + M \<le> a mod (2 * M) then cpx d (a - M) - cis (real (a mod (2 * M) - M) * t) * cpx d a else cpx d a)"
      unfolding c_def [symmetric]
    proof cases
      case 1
      have "(a + M) mod (2 * M) = c + M" "a + M < N" using 1 upper_half(1) [of a M] half_inside [OF assms(3) a] by (simp_all add: c_def)
      then show "cpx e a = (if q \<le> c \<and> c < M then cpx d a + cis (real c * t) * cpx d (a + M)
        else if q + M \<le> c then cpx d (a - M) - cis (real (c - M) * t) * cpx d a else cpx d a)"
        using 1 ze ye [OF a] ye [of "a + M"] by (simp flip: c_def)
    next
      case 2
      have "c < 2 * M" using assms(2) by (simp add: c_def)
      then have "c - M \<noteq> q" "c - M \<noteq> q + M" using 2 by simp_all
      moreover have "(a - M) mod (2 * M) = c - M" "M \<le> a" "a - M < N" using 2 upper_half(2) [of a M] assms(2) a by (simp_all add: c_def)
      ultimately show "cpx e a = (if q \<le> c \<and> c < M then cpx d a + cis (real c * t) * cpx d (a + M)
        else if q + M \<le> c then cpx d (a - M) - cis (real (c - M) * t) * cpx d a else cpx d a)"
        using 2 ze ye [OF a] ye [of "a - M"] by (simp flip: c_def)
    qed (use ze ye [OF a] q ca in \<open>simp_all flip: c_def add: Suc.prems(3)\<close>)
  qed
  then show ?case using g e q rotate_factor [OF assms(5,6), of w]
    by (subst factor_loop.simps) (simp add: Let_def)
qed

section \<open>Joining transforms\<close>

definition dft :: "real \<Rightarrow> nat \<Rightarrow> (nat \<Rightarrow> complex) \<Rightarrow> nat \<Rightarrow> complex" where
  "dft \<sigma> N x q = (\<Sum>p<N. x p * cis (\<sigma> * 2 * pi * real p * real q / real N))"

text \<open>The transform of the part of \<open>x\<close> that block \<open>b\<close> holds after \<open>s\<close> stages.\<close>

definition part_dft :: "real \<Rightarrow> nat \<Rightarrow> nat \<Rightarrow> (nat \<Rightarrow> complex) \<Rightarrow> nat \<Rightarrow> nat \<Rightarrow> complex" where
  "part_dft \<sigma> k s x b = dft \<sigma> (2 ^ s) (\<lambda>p. x (bits_rev (k - s) b + p * 2 ^ (k - s)))"

lemma sum_even_odd: "(\<Sum>p<2 * n. f p) = (\<Sum>p<n. f (2 * p)) + (\<Sum>p<n. f (2 * p + 1 :: nat))" for f :: "nat \<Rightarrow> complex"
  by (induction n) (simp_all add: algebra_simps)

lemma dft_join:
  assumes "0 < M"
  shows "dft \<sigma> (2 * M) x q = dft \<sigma> M (\<lambda>p. x (2 * p)) q + cis (real q * (\<sigma> * pi / M)) * dft \<sigma> M (\<lambda>p. x (2 * p + 1)) q"
proof -
  have "cis (\<sigma> * 2 * pi * real (2 * p) * real q / real (2 * M)) = cis (\<sigma> * 2 * pi * real p * real q / real M)"
    "cis (\<sigma> * 2 * pi * real (2 * p + 1) * real q / real (2 * M)) =
      cis (real q * (\<sigma> * pi / M)) * cis (\<sigma> * 2 * pi * real p * real q / real M)" for p
  proof -
    have "\<sigma> * 2 * pi * real (2 * p) * real q / real (2 * M) = \<sigma> * 2 * pi * real p * real q / real M"
      "\<sigma> * 2 * pi * real (2 * p + 1) * real q / real (2 * M) =
        real q * (\<sigma> * pi / M) + \<sigma> * 2 * pi * real p * real q / real M"
      using assms by (simp_all add: divide_simps) (simp add: algebra_simps)
    then show "cis (\<sigma> * 2 * pi * real (2 * p) * real q / real (2 * M)) = cis (\<sigma> * 2 * pi * real p * real q / real M)"
      "cis (\<sigma> * 2 * pi * real (2 * p + 1) * real q / real (2 * M)) =
        cis (real q * (\<sigma> * pi / M)) * cis (\<sigma> * 2 * pi * real p * real q / real M)"
      by (simp_all only: cis_mult)
  qed
  then show ?thesis
    unfolding dft_def sum_even_odd by (simp add: sum_distrib_left mult_ac)
qed

lemma dft_period:
  assumes "0 < M" "\<sigma> = 1 \<or> \<sigma> = - 1"
  shows "dft \<sigma> M x (q + M) = dft \<sigma> M x q" "cis (real (q + M) * (\<sigma> * pi / M)) = - cis (real q * (\<sigma> * pi / M))"
proof -
  have "cis (\<sigma> * 2 * pi * real p * real (q + M) / real M) = cis (\<sigma> * 2 * pi * real p * real q / real M)" for p
  proof -
    have "\<sigma> * 2 * pi * real p * real (q + M) / real M = \<sigma> * 2 * pi * real p * real q / real M + 2 * pi * (\<sigma> * real p)"
      using assms(1) by (simp add: field_simps)
    moreover have "\<sigma> * real p \<in> \<int>" using assms(2) by auto
    ultimately show ?thesis by (simp flip: cis_mult)
  qed
  then show "dft \<sigma> M x (q + M) = dft \<sigma> M x q" by (simp only: dft_def)
  have "real (q + M) * (\<sigma> * pi / M) = real q * (\<sigma> * pi / M) + \<sigma> * pi"
    using assms(1) by (simp add: field_simps)
  moreover have "cis (\<sigma> * pi) = - 1" using assms(2) by (auto simp: complex_eq_iff)
  ultimately show "cis (real (q + M) * (\<sigma> * pi / M)) = - cis (real q * (\<sigma> * pi / M))"
    by (simp flip: cis_mult)
qed

lemma part_dft_join:
  assumes "s < k"
  shows "part_dft \<sigma> k (Suc s) x b q =
    part_dft \<sigma> k s x (2 * b) q + cis (real q * (\<sigma> * pi / 2 ^ s)) * part_dft \<sigma> k s x (2 * b + 1) q"
proof -
  obtain m where m: "k - s = Suc m" "k - Suc s = m" using assms by (metis Suc_diff_Suc)
  show ?thesis
    unfolding part_dft_def m power_Suc using dft_join [of "2 ^ s" \<sigma> _ q] by (simp add: algebra_simps mod_Suc)
qed

lemma stage_joins:
  assumes "s < k" "\<sigma> = 1 \<or> \<sigma> = - 1" "M = 2 ^ s" "t = of_int \<sigma> * pi / M"
    and x: "\<forall>a < 2 ^ k. cpx d a = part_dft (of_int \<sigma>) k s x (a div M) (a mod M)"
    and y: "\<forall>a < 2 ^ k. let c = a mod (2 * M) in cpx d' a =
       (if c < M then cpx d a + cis (real c * t) * cpx d (a + M)
        else cpx d (a - M) - cis (real (c - M) * t) * cpx d a)"
  shows "\<forall>a < 2 ^ k. cpx d' a = part_dft (of_int \<sigma>) k (Suc s) x (a div (2 * M)) (a mod (2 * M))"
proof (intro allI impI)
  have s: "0 < M" by (simp add: assms(3))
  have dvd: "2 * M dvd 2 ^ k" using assms(1) le_imp_power_dvd [of "Suc s" k "2 :: nat"] by (simp add: assms(3))
  have half: "part_dft (of_int \<sigma>) k s x b (c + M) = part_dft (of_int \<sigma>) k s x b c" "cis (real (c + M) * t) = - cis (real c * t)" for b c
    using dft_period [OF s, of "of_int \<sigma>"] assms(2) by (auto simp: part_dft_def assms(3,4))
  fix a :: nat assume a: "a < 2 ^ k"
  define b c where "b = a div (2 * M)" and "c = a mod (2 * M)"
  have abc: "a = b * (2 * M) + c" "c < 2 * M" using s by (simp_all add: b_def c_def div_mult_mod_eq)
  have j: "part_dft (of_int \<sigma>) k (Suc s) x b q =
    part_dft (of_int \<sigma>) k s x (2 * b) q + cis (real q * t) * part_dft (of_int \<sigma>) k s x (2 * b + 1) q" for q
    using part_dft_join [OF assms(1)] by (simp add: assms(3,4))
  have blk: "(b * (2 * M) + e) div M = 2 * b" "(b * (2 * M) + e) mod M = e"
    "(b * (2 * M) + e + M) div M = 2 * b + 1" "(b * (2 * M) + e + M) mod M = e" if "e < M" for e
  proof -
    have "b * (2 * M) + e = e + M * (2 * b)" "b * (2 * M) + e + M = e + M * (2 * b + 1)" by (simp_all add: algebra_simps)
    then show "(b * (2 * M) + e) div M = 2 * b" "(b * (2 * M) + e) mod M = e"
      "(b * (2 * M) + e + M) div M = 2 * b + 1" "(b * (2 * M) + e + M) mod M = e"
      using that by (simp_all only: div_mult_self2 mod_mult_self2) simp_all
  qed
  note x = x [rule_format]
  show "cpx d' a = part_dft (of_int \<sigma>) k (Suc s) x (a div (2 * M)) (a mod (2 * M))"
  proof (cases "c < M")
    case True
    have "a + M < 2 ^ k" using half_inside [OF dvd a] True by (simp add: c_def)
    then show ?thesis
      using y a True x [OF a] x [of "a + M"] blk [OF True] j [of c]
      by (simp add: Let_def abc(1) [symmetric] flip: c_def b_def)
  next
    case False
    have e: "c - M < M" "c = c - M + M" "a - M < 2 ^ k" using abc(2) False a by linarith+
    have am: "a - M = b * (2 * M) + (c - M)" "a = b * (2 * M) + (c - M) + M" "a - M + M = a" using abc(1) False by simp_all
    have dm: "a div M = 2 * b + 1" "a mod M = c - M" "(a - M) div M = 2 * b" "(a - M) mod M = c - M"
      using blk [OF e(1)] by (simp_all only: am(1) [symmetric] am(3))
    have "cpx d' a = cpx d (a - M) - cis (real (c - M) * t) * cpx d a"
      using y a False by (simp add: Let_def flip: c_def)
    also have "\<dots> = part_dft (of_int \<sigma>) k s x (2 * b) (c - M) - cis (real (c - M) * t) * part_dft (of_int \<sigma>) k s x (2 * b + 1) (c - M)"
      unfolding x [OF a] x [OF e(3)] dm ..
    also have "\<dots> = part_dft (of_int \<sigma>) k (Suc s) x b (c - M + M)"
      unfolding j half by simp
    finally show ?thesis using e(2) by (simp flip: c_def b_def)
  qed
qed

lemma stages_cpx:
  assumes "length d = 2 * 2 ^ k + 1" "s \<le> k" "\<sigma> = 1 \<or> \<sigma> = - 1"
    and "\<forall>a < 2 ^ k. cpx d a = part_dft (of_int \<sigma>) k s x (a div 2 ^ s) (a mod 2 ^ s)"
  shows "\<exists>d'. stages exact \<sigma> (2 * 2 ^ k) (2 * 2 ^ s) d = Some d' \<and> length d' = length d \<and>
    (\<forall>a < 2 ^ k. cpx d' a = dft (of_int \<sigma>) (2 ^ k) x a)"
  using assms(1,2,4)
proof (induction "k - s" arbitrary: s d)
  case 0
  then have "s = k" by simp
  then show ?case using 0 by (subst stages.simps) (simp add: part_dft_def)
next
  case (Suc n)
  define M :: nat where "M = 2 ^ s"
  define t where "t = of_int \<sigma> * pi / M"
  have s: "s < k" "0 < M" using Suc.hyps(2) by (simp_all add: M_def)
  have dvd: "2 * M dvd 2 ^ k" using s(1) le_imp_power_dvd [of "Suc s" k "2 :: nat"] by (simp add: M_def)
  have t: "2 * pi / of_int (\<sigma> * int (2 * M)) = t" using assms(3) s(2) by (auto simp: t_def field_simps)
  obtain d' where f: "factor_loop exact (2 * 2 ^ k) (2 * M) (2 * (2 * M)) (- 2 * sin (t / 2) * sin (t / 2)) (sin t) 1 0 1 d = Some d'"
    "length d' = length d"
    and y: "\<forall>a < 2 ^ k. let c = a mod (2 * M) in cpx d' a =
       (if c < M then cpx d a + cis (real c * t) * cpx d (a + M)
        else cpx d (a - M) - cis (real (c - M) * t) * cpx d a)"
    using factor_loop_cpx [OF Suc.prems(1) s(2) dvd _ refl refl refl, of 0 t] by (auto simp: Let_def not_less)
  have "\<forall>a < 2 ^ k. cpx d' a = part_dft (of_int \<sigma>) k (Suc s) x (a div 2 ^ Suc s) (a mod 2 ^ Suc s)"
    using stage_joins [OF s(1) assms(3) M_def t_def _ y] Suc.prems(3) by (simp add: M_def)
  moreover have "n = k - Suc s" "length d' = 2 * 2 ^ k + 1" "Suc s \<le> k"
    using Suc.hyps(2) Suc.prems(1) f(2) s(1) by simp_all
  ultimately obtain e where "stages exact \<sigma> (2 * 2 ^ k) (2 * 2 ^ Suc s) d' = Some e \<and> length e = length d' \<and>
    (\<forall>a < 2 ^ k. cpx e a = dft (of_int \<sigma>) (2 ^ k) x a)"
    using Suc.hyps(1) [of "Suc s" d'] by blast
  moreover have "(2 :: nat) * 2 ^ s < 2 * 2 ^ k" using s(1) by simp
  ultimately show ?case using f t s(2)
    by (subst stages.simps) (simp add: Let_def of_rat_divide flip: M_def)
qed

lemma FFT_dft:
  assumes "length data = 2 * 2 ^ k + 1" "isign = 1 \<or> isign = - 1"
  obtains out where "FFT exact data (2 ^ k) isign = Some out" "length out = length data"
    "\<forall>q < 2 ^ k. cpx out q = dft (of_int isign) (2 ^ k) (cpx data) q"
proof -
  obtain d where d: "reorder (2 * 2 ^ k) 1 1 data = Some d" "length d = length data" "\<forall>a < 2 ^ k. cpx d a = cpx data (bits_rev k a)"
    using reorder_cpx [OF assms(1), of 0 "cpx data" 1] by (auto simp: bits_rev_zero)
  then have "\<forall>a < 2 ^ k. cpx d a = part_dft (of_int isign) k 0 (cpx data) (a div 2 ^ 0) (a mod 2 ^ 0)"
    by (simp add: part_dft_def dft_def)
  from stages_cpx [OF _ _ assms(2) this] d assms(1) show thesis
    by (auto simp: FFT_def intro: that)
qed

text \<open>
  C14: in exact arithmetic the transform ends, stays inside an array of \<open>2 * nn + 1\<close> numbers whenever \<open>nn\<close> is a power of two,
  and computes the discrete Fourier transform, with the sign of the exponent that \<open>isign\<close> gives.  The first
  number of the array is not part of it.
\<close>

theorem FFT_is_dft:
  assumes "length data = 2 * 2 ^ k + 1" "isign = 1 \<or> isign = - 1"
  shows "\<exists>out. FFT exact data (2 ^ k) isign = Some out \<and> length out = length data \<and>
    (\<forall>q < 2 ^ k. cpx out q = (\<Sum>p<2 ^ k. cpx data p * cis (of_int isign * 2 * pi * real p * real q / 2 ^ k)))"
  using FFT_dft [OF assms] by (auto simp: dft_def)

theorem FFT_is_dft_witness:
  "\<exists>out. FFT exact [0, 1, 2, 3, 4] 2 1 = Some out \<and> length out = 5 \<and>
    cpx out 0 = Complex 4 6 \<and> cpx out 1 = Complex (- 2) (- 2)"
  using FFT_is_dft [of "[0, 1, 2, 3, 4]" 1 1]
  by (auto simp: numeral_2_eq_2 cpx_def less_Suc_eq complex_eq_iff)

end
