(* ===== verification/CwCaptureProps.thy ===== *)
theory CwCaptureProps
  imports CwCapture FftProps
begin

text \<open>
  The carrier measurement from the first marker to the result: the samples that are kept, their spectrum, the bins of the
  carrier and of the noise.
\<close>

section \<open>Loops\<close>

lemma for_each_invariant:
  assumes "m \<le> n" "P m s"
    and "\<And>i s. m \<le> i \<Longrightarrow> i < n \<Longrightarrow> P i s \<Longrightarrow> \<exists>s'. f i s = Some s' \<and> P (Suc i) s'"
  shows "\<exists>s'. for_each [m..<n] f s = Some s' \<and> P n s'"
  using assms
proof (induction "n - m" arbitrary: m s)
  case (Suc d)
  obtain s1 where s1: "f m s = Some s1" "P (Suc m) s1" using Suc.prems(3) [of m s] Suc.prems(2) Suc.hyps(2) by fastforce
  have "d = n - Suc m" "Suc m \<le> n" using Suc.hyps(2) by simp_all
  then obtain s2 where "for_each [Suc m..<n] f s1 = Some s2 \<and> P n s2"
    using Suc.hyps(1) [OF _ _ s1(2)] Suc.prems(3) by (meson Suc_leD)
  then show ?case using s1(1) Suc.hyps(2) by (simp add: upt_conv_Cons)
qed simp

lemma cal_mag_exact:
  assumes "length data = 2 * nDataCount + 1" "length mags = nDataCount"
  obtains mags' fMax nIndex where "CalMag exact data mags = Some (mags', fMax, nIndex)" "length mags' = nDataCount"
    "\<forall>i < nDataCount. mags' ! i = cmod (cpx data i) / nDataCount / 1024"
proof -
  have "\<exists>s. for_each [0..<nDataCount] (cal_mag_step exact data) (mags, d_const exact 0, 0) = Some s \<and>
    (length (fst s) = nDataCount \<and> (\<forall>i < nDataCount. fst s ! i = cmod (cpx data i) / nDataCount / 1024))"
    by (rule for_each_invariant [where P = "\<lambda>n s. length (fst s) = nDataCount \<and> (\<forall>i < n. fst s ! i = cmod (cpx data i) / nDataCount / 1024)"])
      (use assms in \<open>auto simp: cal_mag_step_def magnitude_def Let_def cpx_def cmod_def power2_eq_square nth_list_update less_Suc_eq\<close>)
  then show thesis using that by (auto simp: CalMag_def)
qed

lemma data_swap_exact:
  assumes "length data = 2 * n"
  obtains data' where "DataSwap data (2 * n) = Some data'" "length data' = 2 * n"
    "\<forall>i < 2 * n. data' ! i = data ! ((i + n) mod (2 * n))"
proof -
  define P where "P = (\<lambda>m s. length s = 2 * n \<and> (\<forall>i < n. s ! i = (if i < m then data ! (i + n) else data ! i)) \<and>
    (\<forall>i < n. s ! (i + n) = (if i < m then data ! i else data ! (i + n))))"
  have "\<exists>s. for_each [0..<n] (data_swap_step (2 * n)) data = Some s \<and> P n s"
    by (rule for_each_invariant [where P = P])
      (use assms in \<open>auto simp: P_def data_swap_step_def nth_list_update less_Suc_eq\<close>)
  then obtain s where s: "DataSwap data (2 * n) = Some s" "P n s" by (auto simp: DataSwap_def)
  have "s ! i = data ! ((i + n) mod (2 * n))" if "i < 2 * n" for i
  proof (cases "i < n")
    case False
    then have "i - n < n" "i - n + n = i" "(i + n) mod (2 * n) = i - n" using that by (simp_all add: mod_if)
    moreover have "s ! (i - n + n) = data ! (i - n)" using s(2) \<open>i - n < n\<close> by (simp only: P_def) simp
    ultimately show ?thesis by simp
  qed (use s(2) in \<open>simp add: P_def\<close>)
  then show thesis using that s by (simp add: P_def)
qed

lemma find_max_exact:
  assumes "length data = N" "0 < N"
  obtains v j where "FindMax exact data N = Some (v, j)" "j < N" "v = data ! j" "\<forall>i < N. data ! i \<le> v"
proof -
  have "\<exists>s. for_each [1..<N] (find_max_step exact data) (data ! 0, 0) = Some s \<and>
    (snd s < N \<and> fst s = data ! snd s \<and> (\<forall>i < N. data ! i \<le> fst s))"
    by (rule for_each_invariant [where P = "\<lambda>n s. snd s < n \<and> fst s = data ! snd s \<and> (\<forall>i < n. data ! i \<le> fst s)"])
      (use assms in \<open>auto simp: find_max_step_def less_Suc_eq not_less\<close>, meson less_imp_le order_trans)
  then show thesis using that assms by (auto simp: FindMax_def)
qed

section \<open>Carrier and noise\<close>

lemma exact_to_int: "d_to_int exact (of_int n) = n"
  by (simp add: exact_def)

lemma exact_bins: "carrier_bin exact = 8993" "noise_bin exact (d_sub exact) = 4188" "noise_bin exact (d_add exact) = 12194"
proof -
  have f: "nFrqBin exact = 4092000 / 16384" by (simp add: nFrqBin_def FS_def nDataCount_def)
  have "\<lfloor>8192 + 200000 / (4092000 / 16384) + 1 :: real\<rfloor> = 8993" "\<lfloor>1000000 / (4092000 / 16384) :: real\<rfloor> = 4003"
    by (simp_all add: floor_eq_iff)
  then show "carrier_bin exact = 8993" "noise_bin exact (d_sub exact) = 4188" "noise_bin exact (d_add exact) = 12194"
    using exact_to_int [of 8993] exact_to_int [of 4188] exact_to_int [of 12194]
    by (simp_all add: carrier_bin_def noise_bin_def f FIN_def nDataCount_def of_rat_divide)
qed

text \<open>The five bins around a bin, cyclically.\<close>

definition near :: "nat \<Rightarrow> nat set" where
  "near b = (\<lambda>i. (b + 16382 + i) mod 16384) ` {..<5}"

lemma near_mod:
  assumes "b < 16384" "i < (5 :: nat)"
  shows "(b + 16382 + i) mod 16384 = (if b + i < 2 then b + i + 16382 else if b + i < 16386 then b + i - 2 else b + i - 16386)"
proof -
  consider "b + i < 2" | "2 \<le> b + i" "b + i < 16386" | "16386 \<le> b + i" by linarith
  then show ?thesis
  proof cases
    case 2
    then have "b + 16382 + i = b + i - 2 + 16384" by linarith
    then have "(b + 16382 + i) mod 16384 = (b + i - 2) mod 16384" by (simp only: mod_add_self2)
    then show ?thesis using 2 by simp
  next
    case 3
    then have "b + 16382 + i = b + i - 16386 + 2 * 16384" by linarith
    then have "(b + 16382 + i) mod 16384 = (b + i - 16386) mod 16384" by (simp only: mod_mult_self1)
    then show ?thesis using 3 assms by simp
  qed simp
qed

lemma sig_bins_near:
  assumes "b < 16384"
  shows "set (sig_bins b) = near b" "distinct (sig_bins b)" "sig_bins b \<noteq> []" "\<forall>k \<in> set (sig_bins b). k < 16384"
proof -
  have "{..<5 :: nat} = {0, 1, 2, 3, 4}" by auto
  moreover have "near b = (\<lambda>i. if b + i < 2 then b + i + 16382 else if b + i < 16386 then b + i - 2 else b + i - 16386) ` {..<5}"
    unfolding near_def by (rule image_cong [OF refl]) (rule near_mod [OF assms], simp)
  ultimately have near: "near b = (\<lambda>i. if b + i < 2 then b + i + 16382 else if b + i < 16386 then b + i - 2 else b + i - 16386) ` {0, 1, 2, 3, 4}"
    by (simp only:)
  have n34: "c + 3 = Suc (Suc (Suc c))" "c + 4 = Suc (Suc (Suc (Suc c)))" for c :: nat by simp_all
  consider "b = 0" | "b = 1" | "b = 16382" | "b = 16383" | c where "b = c + 2" "c < 16380"
    using assms le_Suc_ex [of 2 b] by fastforce
  then have "set (sig_bins b) = near b \<and> distinct (sig_bins b) \<and> sig_bins b \<noteq> [] \<and> (\<forall>k \<in> set (sig_bins b). k < 16384)"
    using near by cases (simp_all add: sig_bins_def nDataCount_def insert_commute n34)
  then show "set (sig_bins b) = near b" "distinct (sig_bins b)" "sig_bins b \<noteq> []" "\<forall>k \<in> set (sig_bins b). k < 16384"
    by simp_all
qed

lemma foldl_sum: "foldl (\<lambda>s k. s + f k) (a :: real) ks = a + sum_list (map f ks)"
  by (induction ks arbitrary: a) simp_all

lemma foldl_zero:
  "length (foldl (\<lambda>m k. m[k := z]) mags ks) = length mags"
  "i < length mags \<Longrightarrow> foldl (\<lambda>m k. m[k := z]) mags ks ! i = (if i \<in> set ks then z else mags ! i)"
  by (induction ks arbitrary: mags) (auto simp: nth_list_update)

lemma sig_power_exact:
  assumes "length mags = 16384" "b < 16384"
  obtains mags' where "CalSigPower exact mags b = Some (sqrt (\<Sum>k \<in> near b. (mags ! k)\<^sup>2), mags')" "length mags' = 16384"
    "\<forall>k < 16384. mags' ! k = (if k \<in> near b then 0 else mags ! k)"
proof -
  note b = sig_bins_near [OF assms(2)]
  have sum: "sum_list (map (square_at exact mags) (sig_bins b)) = (\<Sum>k \<in> near b. (mags ! k)\<^sup>2)"
    using b by (simp add: sum_list_distinct_conv_sum_set square_at_def power2_eq_square)
  have "square_at exact mags (hd (sig_bins b)) + sum_list (map (square_at exact mags) (tl (sig_bins b))) =
      sum_list (map (square_at exact mags) (sig_bins b))"
    using b(3) by (cases "sig_bins b") simp_all
  then have "CalSigPower exact mags b =
      Some (sqrt (\<Sum>k \<in> near b. (mags ! k)\<^sup>2), foldl (\<lambda>m k. m[k := 0]) mags (sig_bins b))"
    using b(4) assms(1) sum by (simp add: CalSigPower_def Let_def list_all_iff foldl_sum)
  then show thesis using that assms(1) b(1) by (simp add: foldl_zero)
qed

text \<open>The bins of the noise: 1 MHz to both sides.\<close>

definition noise_bins :: "nat set" where
  "noise_bins = {4188..<12195}"

lemma noise_loop:
  assumes "m \<le> n" "n \<le> length mags"
  shows "for_each [m..<n] (noise_step exact mags) 0 = Some (\<Sum>k = m..<n. (mags ! k)\<^sup>2)"
proof -
  have "\<exists>s. for_each [m..<n] (noise_step exact mags) 0 = Some s \<and> s = (\<Sum>k = m..<n. (mags ! k)\<^sup>2)"
    by (rule for_each_invariant [where P = "\<lambda>n s. s = (\<Sum>k = m..<n. (mags ! k)\<^sup>2)"])
      (use assms in \<open>auto simp: noise_step_def square_at_def power2_eq_square\<close>)
  then show ?thesis by simp
qed

lemma noise_power_exact:
  assumes "length mags = 16384"
  shows "CalNoisePower exact mags = Some (sqrt (\<Sum>k \<in> noise_bins. (mags ! k)\<^sup>2))"
proof -
  have n: "nat 4188 = 4188" "nat (12194 + 1) = 12195" "\<not> ((4188 :: int) \<le> 12194 \<and> (4188 :: int) < 0)" by simp_all
  have l: "for_each [4188..<12195] (noise_step exact mags) 0 = Some (\<Sum>k = 4188..<12195. (mags ! k)\<^sup>2)"
    by (rule noise_loop) (use assms in simp_all)
  show ?thesis
    unfolding CalNoisePower_def Let_def exact_bins n(1,2) noise_bins_def
    by (subst if_not_P [OF n(3)]) (simp only: exact_simps of_rat_0 l option.map)
qed

section \<open>The measurement\<close>

text \<open>The magnitude in bin \<open>j\<close> of the spectrum of \<open>x\<close>, with frequency zero in the middle.\<close>

definition spectrum :: "(nat \<Rightarrow> complex) \<Rightarrow> nat \<Rightarrow> real" where
  "spectrum x j = cmod (dft (- 1) nDataCount x ((j + 8192) mod nDataCount)) / nDataCount / 1024"

definition noise_power :: "(nat \<Rightarrow> real) \<Rightarrow> nat \<Rightarrow> real" where
  "noise_power m b = sqrt (\<Sum>k \<in> noise_bins - near b. (m k)\<^sup>2)"

definition carrier_to_noise :: "(nat \<Rightarrow> real) \<Rightarrow> nat \<Rightarrow> int" where
  "carrier_to_noise m b =
     d_to_int exact (20 * log 10 (sqrt (\<Sum>k \<in> near b. (m k)\<^sup>2) / noise_power m b) + 10 * log 10 2000000)"

definition strongest :: "(nat \<Rightarrow> real) \<Rightarrow> nat \<Rightarrow> bool" where
  "strongest m b \<longleftrightarrow> b < nDataCount \<and> (\<forall>j < nDataCount. m j \<le> m b)"

lemma snr_exact:
  assumes "length mags = nDataCount" "\<forall>j < nDataCount. mags ! j = m j"
    and "j < nDataCount" "v = mags ! j" "\<forall>i < nDataCount. mags ! i \<le> v"
  obtains b snr mags' where "CalSNR exact mags v j = Some (snr, mags')" "strongest m b"
    "d_to_int exact (snr + 10 * log 10 2000000) = carrier_to_noise m b"
proof -
  define b where "b = (if mags ! 8993 < v then j else 8993)"
  have b: "b < 16384" "strongest m b"
    using assms by (auto simp: b_def strongest_def nDataCount_def not_less)
  have bin: "(if d_less exact (mags ! nat 8993) v then j else nat 8993) = b" by (simp add: b_def)
  obtain mags' where p: "CalSigPower exact mags b = Some (sqrt (\<Sum>k \<in> near b. (mags ! k)\<^sup>2), mags')" "length mags' = 16384"
    "\<forall>k < 16384. mags' ! k = (if k \<in> near b then 0 else mags ! k)"
    using sig_power_exact [OF _ b(1), of mags] assms(1) by (auto simp: nDataCount_def)
  have near: "k < 16384" if "k \<in> near b" for k using that sig_bins_near(1,4) [OF b(1)] by blast
  have "(\<Sum>k \<in> noise_bins. (mags' ! k)\<^sup>2) = (\<Sum>k \<in> noise_bins - near b. (m k)\<^sup>2)"
  proof (rule sum.mono_neutral_cong_right)
    show "finite noise_bins" by (simp only: noise_bins_def finite_atLeastLessThan)
    have n: "k < 16384" if "k \<in> noise_bins" for k
      using that by (auto simp: noise_bins_def)
    show "\<forall>k \<in> noise_bins - (noise_bins - near b). (mags' ! k)\<^sup>2 = 0" using p(3) near by auto
    show "(mags' ! k)\<^sup>2 = (m k)\<^sup>2" if "k \<in> noise_bins - near b" for k
      using that n [of k] p(3) assms(2) by (auto simp: nDataCount_def)
  qed simp
  moreover have "(\<Sum>k \<in> near b. (mags ! k)\<^sup>2) = (\<Sum>k \<in> near b. (m k)\<^sup>2)"
    using near assms(2) by (intro sum.cong) (simp_all add: nDataCount_def)
  moreover have "CalSNR exact mags v j = Some (20 * log 10 (sqrt (\<Sum>k \<in> near b. (mags ! k)\<^sup>2) / sqrt (\<Sum>k \<in> noise_bins. (mags' ! k)\<^sup>2)), mags')"
    unfolding CalSNR_def Let_def exact_bins bin using p noise_power_exact [OF p(2)] assms(1) by (simp add: nDataCount_def)
  ultimately show thesis using that b(2) by (simp add: carrier_to_noise_def noise_power_def)
qed

lemma measure_exact:
  assumes "dataCount st = nDataCount" "length (arrIQData st) = 2 * nDataCount + 1"
  obtains b st' where "measure_cn0 exact st = Some st'" "dataCount st' = 0" "data_capture_flag st' = data_capture_flag st"
    "strongest (spectrum (cpx (arrIQData st))) b" "cn0 st' = carrier_to_noise (spectrum (cpx (arrIQData st))) b"
proof -
  have N: "nDataCount = 2 ^ 14" "nDataCount = 2 * 8192" "0 < nDataCount" by (simp_all add: nDataCount_def)
  obtain out where f: "FFT exact (arrIQData st) nDataCount (- 1) = Some out" "length out = 2 * nDataCount + 1"
    "\<forall>q < nDataCount. cpx out q = dft (- 1) nDataCount (cpx (arrIQData st)) q"
    using FFT_dft [of "arrIQData st" 14 "- 1"] assms(2) N(1) by auto
  obtain mags fm ix where m: "CalMag exact out (replicate nDataCount 0) = Some (mags, fm, ix)" "length mags = nDataCount"
    "\<forall>i < nDataCount. mags ! i = cmod (cpx out i) / nDataCount / 1024"
    using cal_mag_exact [OF f(2), of "replicate nDataCount 0"] by auto
  obtain swapped where s: "DataSwap mags nDataCount = Some swapped" "length swapped = nDataCount"
    "\<forall>i < nDataCount. swapped ! i = mags ! ((i + 8192) mod nDataCount)"
    using data_swap_exact [of mags 8192] m(2) unfolding N(2) by metis
  obtain v j where x: "FindMax exact swapped nDataCount = Some (v, j)" "j < nDataCount" "v = swapped ! j" "\<forall>i < nDataCount. swapped ! i \<le> v"
    using find_max_exact [OF s(2) N(3)] by metis
  have "\<forall>i < nDataCount. swapped ! i = spectrum (cpx (arrIQData st)) i"
    using s(3) m(3) f(3) N(3) by (simp add: spectrum_def)
  then obtain b snr mags' where "CalSNR exact swapped v j = Some (snr, mags')" "strongest (spectrum (cpx (arrIQData st))) b"
    "d_to_int exact (snr + 10 * log 10 2000000) = carrier_to_noise (spectrum (cpx (arrIQData st))) b"
    using snr_exact [OF s(2) _ x(2,3,4)] by metis
  then show thesis using that [of "st\<lparr>dataCount := 0, arrIQData := out, fMaxMag := v, MaxIndex := j,
      cn0 := d_to_int exact (snr + 10 * log 10 2000000)\<rparr>" b] assms f(1) m(1) s(1) x(1)
    by (simp add: measure_cn0_def)
qed

section \<open>Collecting\<close>

type_synonym line = "string \<times> nat"

text \<open>The calls for a list of sentences.\<close>

primrec captures :: "'f arith \<Rightarrow> line list \<Rightarrow> 'f capture \<Rightarrow> 'f capture option" where
  "captures A [] st = Some st"
| "captures A (l # ls) st = Option.bind (cw_data_capture A (fst l) (snd l) st) (captures A ls)"

lemma captures_append: "captures A (xs @ ys) st = Option.bind (captures A xs st) (captures A ys)"
  by (induction xs arbitrary: st) (auto split: Option.bind_splits)

definition data_line :: "line \<Rightarrow> bool" where
  "data_line l \<longleftrightarrow> find_marker (fst l) (snd l) DATA_CAPTURE_END 0 = Some False \<and> read_sample (fst l) \<noteq> None"

text \<open>Four lines of five are samples; sample \<open>p\<close> is in line \<open>p + p div 4\<close>.\<close>

definition line_sample :: "line list \<Rightarrow> nat \<Rightarrow> complex" where
  "line_sample ls p =
     (case the (read_sample (fst (ls ! (p + p div 4)))) of (i, q) \<Rightarrow> of_real (window exact p) * Complex i (- q))"

definition kept :: "nat \<Rightarrow> nat" where
  "kept n = n - n div 5"

lemma kept_div: "kept n = 4 * (n div 5) + n mod 5"
  using div_mult_mod_eq [of n 5] unfolding kept_def by linarith

lemma kept_Suc: "kept (Suc n) = (if Suc n mod 5 \<noteq> 0 then Suc (kept n) else kept n)"
  by (auto simp: kept_div div_Suc mod_Suc)

lemma kept_line:
  shows "Suc n mod 5 \<noteq> 0 \<Longrightarrow> kept n + kept n div 4 = n" and "p < kept n \<Longrightarrow> p + p div 4 < n"
proof -
  have n: "n = 5 * (n div 5) + n mod 5" "n mod 5 < 5" by simp_all
  show "kept n + kept n div 4 = n" if "Suc n mod 5 \<noteq> 0"
  proof -
    have r: "n mod 5 < 4" using that n(2) by (auto simp: mod_Suc split: if_splits)
    then have "(4 * (n div 5) + n mod 5) div 4 = n div 5" by simp
    then show ?thesis using n by (simp add: kept_div)
  qed
  show "p + p div 4 < n" if "p < kept n"
  proof -
    have p: "p = 4 * (p div 4) + p mod 4" "p mod 4 < 4" by simp_all
    consider "p div 4 < n div 5" | "p div 4 = n div 5" | "n div 5 + 1 \<le> p div 4" by linarith
    then show ?thesis using p n that unfolding kept_div by cases linarith+
  qed
qed

definition collected :: "line list \<Rightarrow> real capture \<Rightarrow> bool" where
  "collected ls st \<longleftrightarrow> data_capture_flag st \<and> lineCount st = length ls \<and> dataCount st = kept (length ls) \<and>
     length (arrIQData st) = 2 * nDataCount + 1 \<and> length (arrWinAdd st) = nDataCount \<and>
     (\<forall>p < kept (length ls). cpx (arrIQData st) p = line_sample ls p)"

lemma store_sample_exact:
  assumes "length (arrIQData st) = 2 * nDataCount + 1" "length (arrWinAdd st) = nDataCount" "dataCount st < nDataCount"
  obtains st' where "store_sample exact i q st = Some st'" "data_capture_flag st' = data_capture_flag st"
    "lineCount st' = lineCount st" "dataCount st' = Suc (dataCount st)"
    "length (arrIQData st') = 2 * nDataCount + 1" "length (arrWinAdd st') = nDataCount"
    "\<forall>p. cpx (arrIQData st') p =
       (if p = dataCount st then of_real (window exact p) * Complex i (- q) else cpx (arrIQData st) p)"
proof -
  let ?d = "(arrIQData st)[2 * dataCount st + 1 := of_int i * window exact (dataCount st),
    2 * dataCount st + 2 := of_int q * - 1 * window exact (dataCount st)]"
  have "cpx ?d p = (if p = dataCount st then of_real (window exact p) * Complex i (- q) else cpx (arrIQData st) p)" for p
    using assms by (auto simp: cpx_def nth_list_update complex_eq_iff)
  then show thesis
    using that [of "st\<lparr>dataCount := dataCount st + 1, arrWinAdd := (arrWinAdd st)[dataCount st := window exact (dataCount st)], arrIQData := ?d\<rparr>"] assms
    by (simp add: store_sample_def Let_def)
qed

lemma capture_line_collects:
  assumes "collected ls st" "data_line l" "kept (length ls) < nDataCount" "length ls < 2 ^ 31 - 1"
  obtains st' where "capture_line exact (fst l) st = Some st'" "collected (ls @ [l]) st'"
proof -
  note c = assms(1) [unfolded collected_def]
  have old: "line_sample (ls @ [l]) p = line_sample ls p" if "p < kept (length ls)" for p
    using kept_line(2) [OF that] by (simp add: line_sample_def nth_append)
  show thesis
  proof (cases "Suc (length ls) mod 5 = 0")
    case True
    then show thesis using that [of "st\<lparr>lineCount := lineCount st + 1\<rparr>"] c assms(4) old
      by (simp add: capture_line_def Let_def collected_def kept_Suc)
  next
    case False
    obtain i q where r: "read_sample (fst l) = Some (i, q)" using assms(2) by (auto simp: data_line_def)
    define st0 where "st0 = st\<lparr>lineCount := lineCount st + 1\<rparr>"
    have st0: "length (arrIQData st0) = 2 * nDataCount + 1" "length (arrWinAdd st0) = nDataCount" "dataCount st0 < nDataCount"
      using c assms(3) by (simp_all add: st0_def)
    obtain st' where s: "store_sample exact i q st0 = Some st'" "data_capture_flag st' = data_capture_flag st0"
      "lineCount st' = lineCount st0" "dataCount st' = Suc (dataCount st0)"
      "length (arrIQData st') = 2 * nDataCount + 1" "length (arrWinAdd st') = nDataCount"
      "\<forall>p. cpx (arrIQData st') p =
         (if p = dataCount st0 then of_real (window exact p) * Complex i (- q) else cpx (arrIQData st0) p)"
      by (rule store_sample_exact [OF st0, of i q])
    have "line_sample (ls @ [l]) (kept (length ls)) = of_real (window exact (kept (length ls))) * Complex i (- q)"
      using kept_line(1) [OF False] r by (simp add: line_sample_def)
    then have "collected (ls @ [l]) st'"
      using s c old False by (auto simp: collected_def kept_Suc less_Suc_eq st0_def)
    moreover have "capture_line exact (fst l) st = Some st'"
      using s(1) r c False assms(4) by (simp add: capture_line_def Let_def st0_def)
    ultimately show thesis using that by blast
  qed
qed

lemma begin_collects:
  assumes "\<not> data_capture_flag st" "find_marker m0 l0 DATA_CAPTURE_BEGIN 0 = Some True"
  obtains st' where "cw_data_capture exact m0 l0 st = Some st'" "collected [] st'"
proof -
  define st' where "st' = st\<lparr>data_capture_flag := True, dataCount := 0, lineCount := 0, fMaxMag := 0, MaxIndex := 0,
    arrIQData := replicate (2 * nDataCount + 1) 0, arrWinAdd := replicate nDataCount 0\<rparr>"
  have "cw_data_capture exact m0 l0 st = Some st'"
    using assms by (simp add: cw_data_capture_def end_capture_def begin_capture_def st'_def)
  moreover have "collected [] st'" by (simp add: collected_def kept_def st'_def)
  ultimately show thesis using that by blast
qed

lemma data_line_call:
  assumes "data_capture_flag st" "data_line l" "capture_line exact (fst l) st = Some st1" "measure_cn0 exact st1 = Some st2"
    and "data_capture_flag st2"
  shows "cw_data_capture exact (fst l) (snd l) st = Some st2"
  using assms by (simp add: cw_data_capture_def end_capture_def begin_capture_def data_line_def)

lemma captures_collect:
  assumes "collected [] st" "list_all data_line ls" "kept (length ls) < nDataCount" "length ls < 2 ^ 31"
  obtains st' where "captures exact ls st = Some st'" "collected ls st'"
proof -
  have "\<exists>st'. captures exact ls st = Some st' \<and> collected ls st'"
    using assms(2-4)
  proof (induction ls rule: rev_induct)
    case (snoc l ls)
    have k: "kept (length ls) < nDataCount" "length ls < 2 ^ 31 - 1" using snoc.prems by (auto simp: kept_Suc split: if_splits)
    obtain st1 where s1: "captures exact ls st = Some st1" "collected ls st1" using snoc k by auto
    have l: "data_line l" using snoc.prems(1) by simp
    obtain st2 where s2: "capture_line exact (fst l) st1 = Some st2" "collected (ls @ [l]) st2"
      by (rule capture_line_collects [OF s1(2) l k])
    have "measure_cn0 exact st2 = Some st2" using s2(2) snoc.prems(2) by (simp add: measure_cn0_def collected_def)
    then have "cw_data_capture exact (fst l) (snd l) st1 = Some st2"
      using s1(2) s2 by (intro data_line_call [OF _ l s2(1)]) (simp_all add: collected_def)
    then show ?case using s1(1) s2(2) by (auto simp: captures_append)
  qed (use assms(1) in simp)
  then show thesis using that by blast
qed


text \<open>One sample of one, then silence: a flat spectrum.\<close>

definition toy_line :: "string \<Rightarrow> line" where
  "toy_line s = (s @ [CHR 0x0A, CHR 0x00] @ replicate 20 CHR '' '', 12)"

definition impulse :: "line list" where
  "impulse = toy_line ''01 00 00 00'' # replicate 20478 (toy_line ''00 00 00 00'')"

definition toy_capture :: "real capture" where
  "toy_capture = \<lparr>data_capture_flag = False, dataCount = 0, lineCount = 0, arrIQData = [], arrWinAdd = [], fMaxMag = 0,
     MaxIndex = 0, cn0 = 0\<rparr>"

lemma toy_lines:
  "find_marker (fst (toy_line ''01 00 00 00'')) (snd (toy_line ''01 00 00 00'')) DATA_CAPTURE_END 0 = Some False"
  "find_marker (fst (toy_line ''00 00 00 00'')) (snd (toy_line ''00 00 00 00'')) DATA_CAPTURE_END 0 = Some False"
  "read_sample (fst (toy_line ''01 00 00 00'')) = Some (1, 0)" "read_sample (fst (toy_line ''00 00 00 00'')) = Some (0, 0)"
  "find_marker DATA_CAPTURE_BEGIN 1 DATA_CAPTURE_BEGIN 0 = Some True"
  by code_simp+

lemma window_first: "window exact 0 \<noteq> 0"
  by (simp add: window_def Let_def A0_def A1_def A2_def A3_def A4_def of_rat_divide)

lemma impulse_sample:
  assumes "p < nDataCount"
  shows "line_sample impulse p = (if p = 0 then of_real (window exact 0) else 0)"
proof (cases p)
  case 0
  then show ?thesis by (simp add: line_sample_def impulse_def toy_lines complex_eq_iff)
next
  case (Suc n)
  then have "n + Suc n div 4 < 20478" using assms by (simp add: nDataCount_def)
  then have "impulse ! (p + p div 4) = toy_line ''00 00 00 00''" using Suc by (simp add: impulse_def)
  then show ?thesis using Suc by (simp add: line_sample_def toy_lines complex_eq_iff)
qed

lemma impulse_spectrum: "\<exists>c > 0. spectrum (line_sample impulse) = (\<lambda>_. c)"
proof -
  have "dft (- 1) nDataCount (line_sample impulse) q = of_real (window exact 0)" for q
  proof -
    have "dft (- 1) nDataCount (line_sample impulse) q = (\<Sum>p<nDataCount. if p = 0 then of_real (window exact 0) else 0)"
      unfolding dft_def by (rule sum.cong) (simp_all add: impulse_sample)
    then show ?thesis by (simp add: nDataCount_def)
  qed
  then show ?thesis using window_first
    by (intro exI [of _ "\<bar>window exact 0\<bar> / 16777216"]) (simp add: spectrum_def nDataCount_def fun_eq_iff)
qed

lemma near_card:
  assumes "b < 16384" shows "card (near b) = 5" "8002 \<le> card (noise_bins - near b)" "card (noise_bins - near b) \<le> 8007"
proof -
  have "length (sig_bins b) = 5" by (simp add: sig_bins_def)
  then show n: "card (near b) = 5" using sig_bins_near(1,2) [OF assms] by (metis distinct_card)
  have "card noise_bins = 8007" "finite noise_bins" by (simp_all add: noise_bins_def)
  then show "8002 \<le> card (noise_bins - near b)" "card (noise_bins - near b) \<le> 8007"
    using diff_card_le_card_Diff [of "near b" noise_bins] n card_mono [of noise_bins "noise_bins - near b"]
    by (auto simp: near_def)
qed

text \<open>Five bins against some 8000: a result of 30.\<close>

lemma flat_result:
  assumes "b < 16384" "0 < (c :: real)"
  shows "carrier_to_noise (\<lambda>_. c) b = 30" "0 < noise_power (\<lambda>_. c) b"
proof -
  define m where "m = real (card (noise_bins - near b))"
  have m: "8002 \<le> m" "m \<le> 8007" using near_card [OF assms(1)] by (simp_all add: m_def)
  have np: "noise_power (\<lambda>_. c) b = sqrt (m * c\<^sup>2)" by (simp add: noise_power_def m_def)
  then show "0 < noise_power (\<lambda>_. c) b" using m assms(2) by simp
  have "sqrt (5 * c\<^sup>2) / sqrt (m * c\<^sup>2) = sqrt (5 / m)"
    using assms(2) m by (simp add: real_sqrt_mult real_sqrt_divide)
  then have "20 * log 10 (sqrt (\<Sum>k \<in> near b. c\<^sup>2) / noise_power (\<lambda>_. c) b) = 10 * log 10 (5 / m)"
    using m near_card(1) [OF assms(1)] by (simp add: np log_def ln_sqrt)
  moreover have "log 10 (5 / m) + log 10 2000000 = log 10 (10000000 / m)" using m log_mult [of 10 "5 / m" 2000000] by simp
  moreover have "3 \<le> log 10 (10000000 / m)" using m by (simp add: le_log_iff field_simps)
  moreover have "log 10 (10000000 / m) < 31 / 10"
  proof -
    have "(10000000 / m) ^ 10 \<le> (10000000 / 8002) ^ 10" using m by (intro power_mono divide_left_mono) auto
    also have "\<dots> < (10 :: real) ^ 31" by (simp add: power_divide divide_less_eq)
    finally have "log 10 ((10000000 / m) ^ 10) < log 10 (10 ^ 31)" using m by (subst log_less_cancel_iff) simp_all
    moreover have "log 10 (10 ^ 31) = (31 :: real)" by (simp only: log_pow_cancel)
    ultimately have "log 10 ((10000000 / m) ^ 10) < 31" by simp
    then show ?thesis using m by (simp add: log_nat_power)
  qed
  ultimately show "carrier_to_noise (\<lambda>_. c) b = 30"
    by (simp add: carrier_to_noise_def exact_def floor_eq_iff flip: distrib_left)
qed


end
