(* ===== verification/SysTree.thy ===== *)
theory SysTree
  imports CText Complex_Main
begin

text \<open>
  The file system that \<^verbatim>\<open>system_optimizer/system_optimizer.cpp\<close> works on: a tree without links, names as the directory gives them, and
  the calls the tool makes on it.  Which directories open and which files can be removed is a parameter.
\<close>

datatype node = File (file_size: u32) (modified: int) (executable: bool) | Dir (entries: "(string \<times> node) list")

text \<open>\<open>true\<close> when the operation on that path is allowed.\<close>

record fs_env =
  opendir_ok :: "string \<Rightarrow> bool"
  unlink_ok :: "string \<Rightarrow> bool"
  rmdir_ok :: "string \<Rightarrow> bool"

section \<open>Paths\<close>

fun split_on :: "char \<Rightarrow> string \<Rightarrow> string list" where
  "split_on c [] = [[]]"
| "split_on c (x # xs) =
     (if x = c then [] # split_on c xs else case split_on c xs of [] \<Rightarrow> [[x]] | w # ws \<Rightarrow> (x # w) # ws)"

definition components :: "string \<Rightarrow> string list" where
  "components p = filter (\<lambda>w. w \<noteq> []) (split_on CHR ''/'' p)"

definition below :: "string \<Rightarrow> string \<Rightarrow> string" where
  "below dir name = dir @ ''/'' @ name"

text \<open>\<open>path.find(pat) != npos\<close>, and a name that the tool skips.\<close>

definition contains :: "string \<Rightarrow> string \<Rightarrow> bool" where
  "contains path pat \<longleftrightarrow> after_first pat path \<noteq> None"

definition hidden :: "string \<Rightarrow> bool" where
  "hidden name \<longleftrightarrow> take 1 name = ''.''"

fun lookup :: "node \<Rightarrow> string list \<Rightarrow> node option" where
  "lookup n [] = Some n"
| "lookup (File s t x) (c # cs) = None"
| "lookup (Dir es) (c # cs) = Option.bind (map_of es c) (\<lambda>n. lookup n cs)"

definition put_entry :: "string \<Rightarrow> node option \<Rightarrow> (string \<times> node) list \<Rightarrow> (string \<times> node) list" where
  "put_entry c r es =
     (case r of None \<Rightarrow> filter (\<lambda>e. fst e \<noteq> c) es | Some n \<Rightarrow> map (\<lambda>e. if fst e = c then (c, n) else e) es)"

text \<open>The tree with what is at a path replaced, or taken away; the root stays.\<close>

fun replace_at :: "string list \<Rightarrow> node option \<Rightarrow> node \<Rightarrow> node" where
  "replace_at [] r n = (case r of None \<Rightarrow> n | Some n' \<Rightarrow> n')"
| "replace_at (c # cs) r (File s t x) = File s t x"
| "replace_at (c # cs) r (Dir es) =
     (case map_of es c of
        None \<Rightarrow> Dir es
      | Some n \<Rightarrow> Dir (put_entry c (if cs = [] then r else Some (replace_at cs r n)) es))"

section \<open>Removing\<close>

datatype event = Unlink string | Rmdir string | Mkdir string | Command string

text \<open>What remains of a node at a path, the calls that succeeded, and the bytes freed.\<close>

fun remove_node :: "fs_env \<Rightarrow> string \<Rightarrow> node \<Rightarrow> node option \<times> event list \<times> u32"
and remove_entries :: "fs_env \<Rightarrow> string \<Rightarrow> (string \<times> node) list \<Rightarrow> (string \<times> node) list \<times> event list \<times> u32" where
  "remove_node E path (File s t x) = (if unlink_ok E path then (None, [Unlink path], s) else (Some (File s t x), [], 0))"
| "remove_node E path (Dir es) =
     (if \<not> opendir_ok E path then (Some (Dir es), [], 0)
      else let (es, ev, freed) = remove_entries E path es
           in if es = [] \<and> rmdir_ok E path then (None, ev @ [Rmdir path], freed) else (Some (Dir es), ev, freed))"
| "remove_entries E path [] = ([], [], 0)"
| "remove_entries E path ((name, n) # es) =
     (let (es', ev', freed') = remove_entries E path es
      in if hidden name then ((name, n) # es', ev', freed')
         else let (r, ev, freed) = remove_node E (below path name) n
              in (case r of None \<Rightarrow> es' | Some n' \<Rightarrow> (name, n') # es', ev @ ev', freed + freed'))"

section \<open>Scanning\<close>

record file_info =
  path :: string
  info_size :: u32
  info_type :: string
  isRemovable :: bool
  priority :: rat
  info_modified :: int

text \<open>All visible files below a directory, in the order of the directories.\<close>

fun scan_node :: "fs_env \<Rightarrow> (string \<Rightarrow> node \<Rightarrow> file_info) \<Rightarrow> string \<Rightarrow> node \<Rightarrow> file_info list"
and scan_entries :: "fs_env \<Rightarrow> (string \<Rightarrow> node \<Rightarrow> file_info) \<Rightarrow> string \<Rightarrow> (string \<times> node) list \<Rightarrow> file_info list" where
  "scan_node E info p (File s t x) = [info p (File s t x)]"
| "scan_node E info p (Dir es) = (if opendir_ok E p then scan_entries E info p es else [])"
| "scan_entries E info p [] = []"
| "scan_entries E info p ((name, n) # es) =
     (if hidden name then [] else scan_node E info (below p name) n) @ scan_entries E info p es"

end
