(* ===== verification/SysOpt.thy ===== *)
theory SysOpt
  imports SysTree "HOL-Library.List_Lexorder" "HOL-Library.Char_ord"
begin

text \<open>
  The space saver \<^verbatim>\<open>system_optimizer/system_optimizer.cpp\<close>, which runs on the device when it has started.  The object is a record: the
  file system, the calls made on it and the shell commands run, in order, and the members of the class.  A shell command succeeds or fails and
  may change the files, as the parameter \<open>shell\<close> says.  \<open>size_t\<close> has 32 bits on the device.  The log, with
  the counters that are only logged, is left out.
\<close>

section \<open>Paths\<close>

definition SYSTEM_PATH :: string where "SYSTEM_PATH = ''/system''"
definition APP_PATH :: string where "APP_PATH = ''/system/app''"
definition PRIV_APP_PATH :: string where "PRIV_APP_PATH = ''/system/priv-app''"
definition LIB_PATH :: string where "LIB_PATH = ''/system/lib''"
definition FRAMEWORK_PATH :: string where "FRAMEWORK_PATH = ''/system/framework''"
definition FONT_PATH :: string where "FONT_PATH = ''/system/fonts''"
definition MEDIA_PATH :: string where "MEDIA_PATH = ''/system/media''"
definition ETC_PATH :: string where "ETC_PATH = ''/system/etc''"
definition BIN_PATH :: string where "BIN_PATH = ''/system/bin''"
definition XBIN_PATH :: string where "XBIN_PATH = ''/system/xbin''"

definition TARGET_SIZE :: u32 where "TARGET_SIZE = 500 * 1024 * 1024"

section \<open>The object\<close>

record opt_env = fs_env +
  shell :: "string \<Rightarrow> node \<Rightarrow> bool \<times> node"
  is_root :: bool
  now :: int

record optimizer =
  fs :: node
  events :: "event list"
  systemFiles :: "file_info list"
  sizeBreakdown :: "(string \<times> u32) list"
  originalSize :: u32
  optimizedSize :: u32
  freedSpace :: u32
  totalFiles :: nat
  processedFiles :: nat
  totalSize :: u32
  currentOperation :: string
  verboseMode :: bool
  dryRun :: bool

definition criticalPaths :: "string list" where
  "criticalPaths =
    [''/system/bin/sh'', ''/system/bin/init'', ''/system/bin/linker'', ''/system/bin/app_process'', ''/system/bin/surfaceflinger'',
     ''/system/bin/netd'', ''/system/bin/vold'', ''/system/bin/mediaserver'', ''/system/bin/installd'', ''/system/bin/dalvikvm'',
     ''/system/lib/libc.so'', ''/system/lib/libm.so'', ''/system/lib/libdl.so'', ''/system/lib/liblog.so'',
     ''/system/lib/libcutils.so'', ''/system/lib/libutils.so'', ''/system/lib/libbinder.so'', ''/system/lib/libsurfaceflinger.so'',
     ''/system/lib/libandroid_runtime.so'', ''/system/lib/libnativehelper.so'', ''/system/lib/libicuuc.so'',
     ''/system/lib/libicui18n.so'', ''/system/framework/framework.jar'', ''/system/framework/core.jar'', ''/system/framework/ext.jar'',
     ''/system/framework/services.jar'', ''/system/framework/telephony-common.jar'', ''/system/framework/voip-common.jar'',
     ''/system/framework/ims-common.jar'', ''/system/framework/mms-common.jar'', ''/system/framework/android.policy.jar'']"

text \<open>A set of strings is run through in its order.\<close>

definition removableApps :: "string list" where
  "removableApps = sort (remdups
    [''Email'', ''Exchange2'', ''Galaxy4'', ''HoloSpiralWallpaper'', ''LiveWallpapers'', ''MagicSmokeWallpapers'', ''NoiseField'',
     ''PhaseBeam'', ''PhotoTable'', ''PicoTts'', ''QuickSearchBox'', ''SoundRecorder'', ''Stk'', ''VisualizationWallpapers'',
     ''BasicDreams'', ''PrintSpooler'', ''WAPPushManager'', ''CloudPrint'', ''DeskClock'', ''EasterEgg'',
     ''HTMLViewer'', ''InputDevices'', ''KeyChain'', ''LiveWallpapersPicker'', ''MusicFX'', ''NfcNci'',
     ''PacProcessor'', ''PhaseBeam'', ''SamsungDoze'', ''SamsungTTS'', ''SoundRecorder'', ''Spherical'',
     ''Calendar'', ''Calculator'', ''Browser'', ''Camera'', ''Gallery2'', ''Music'', ''VideoPlayer'', ''DownloadProviderUi'',
     ''DrmProvider'', ''SharedStorageBackup'', ''CertInstaller'', ''DefaultContainerService'', ''BackupRestoreConfirmation'',
     ''BluetoothMidiService'', ''CaptivePortalLogin'', ''CarrierConfig'', ''CellBroadcastReceiver'', ''CtsShim'',
     ''CtsShimPriv'', ''Development'', ''DeviceHandler'', ''DmService'', ''DocumentsUI'', ''ExternalStorageProvider'',
     ''FusedLocation'', ''InputDevices'', ''KeyChain'', ''ManagedProvisioning'', ''MmsService'', ''NetworkStack'',
     ''OpenWnn'', ''PacProcessor'', ''ProxyHandler'', ''Shell'', ''Stk'', ''Tag'', ''TelephonyProvider'',
     ''Traceur'', ''UserDictionaryProvider'', ''VpnDialogs'', ''WallpaperBackup'', ''WifiDisplay''])"

definition essentialFonts :: "string list" where
  "essentialFonts =
    [''Roboto-Regular.ttf'', ''Roboto-Bold.ttf'', ''Roboto-Italic.ttf'', ''Roboto-BoldItalic.ttf'', ''Roboto-Medium.ttf'',
     ''Roboto-MediumItalic.ttf'', ''DroidSans.ttf'', ''DroidSans-Bold.ttf'', ''NotoColorEmoji.ttf'', ''NotoSans-Regular.ttf'',
     ''NotoSans-Bold.ttf'']"

definition new_optimizer :: "node \<Rightarrow> optimizer" where
  "new_optimizer n = \<lparr>fs = n, events = [], systemFiles = [], sizeBreakdown = [], originalSize = 0, optimizedSize = 0, freedSpace = 0,
     totalFiles = 0, processedFiles = 0, totalSize = 0, currentOperation = [], verboseMode = False, dryRun = False\<rparr>"

section \<open>Classification\<close>

definition isSystemCritical :: "string \<Rightarrow> bool" where
  "isSystemCritical p \<longleftrightarrow> list_ex (contains p) criticalPaths \<or>
     contains p ''/system/framework/'' \<and>
       list_ex (contains p) [''android'', ''javax'', ''apache'', ''bouncycastle'', ''conscrypt'', ''core'', ''okhttp'']"

definition calculatePriority :: "string \<Rightarrow> rat" where
  "calculatePriority p =
     (if isSystemCritical p then 1
      else if contains p ''/system/app/''
      then (if contains p ''Settings'' \<or> contains p ''SystemUI'' \<or> contains p ''Launcher'' then 9 / 10 else 3 / 10)
      else if contains p ''/system/priv-app/'' then 7 / 10
      else if contains p ''/system/lib/'' then 8 / 10
      else if contains p ''/system/fonts/'' then 4 / 10
      else if contains p ''/system/media/'' then 2 / 10
      else if contains p ''/system/etc/'' then 3 / 10 else 5 / 10)"

definition file_type :: "string \<Rightarrow> bool \<Rightarrow> string" where
  "file_type p x =
     (if contains p ''.apk'' then ''application/vnd.android.package-archive''
      else if contains p ''.so'' then ''application/x-sharedlib''
      else if contains p ''.jar'' then ''application/java-archive''
      else if contains p ''.ttf'' \<or> contains p ''.otf'' then ''font/ttf''
      else if contains p ''.png'' \<or> contains p ''.jpg'' \<or> contains p ''.jpeg'' then ''image''
      else if x then ''application/x-executable'' else ''application/octet-stream'')"

definition file_info_of :: "string \<Rightarrow> node \<Rightarrow> file_info" where
  "file_info_of p n = \<lparr>path = p, info_size = file_size n, info_type = file_type p (executable n),
     isRemovable = (\<not> isSystemCritical p), priority = calculatePriority p, info_modified = modified n\<rparr>"

section \<open>Files\<close>

definition stat :: "string \<Rightarrow> optimizer \<Rightarrow> node option" where
  "stat p st = lookup (fs st) (components p)"

definition fileExists :: "string \<Rightarrow> optimizer \<Rightarrow> bool" where
  "fileExists p st \<longleftrightarrow> stat p st \<noteq> None"

definition directoryExists :: "string \<Rightarrow> optimizer \<Rightarrow> bool" where
  "directoryExists p st \<longleftrightarrow> (case stat p st of Some (Dir es) \<Rightarrow> True | _ \<Rightarrow> False)"

definition event :: "event \<Rightarrow> optimizer \<Rightarrow> optimizer" where
  "event e st = st\<lparr>events := events st @ [e]\<rparr>"

text \<open>The files are also counted.\<close>

definition scanDirectory :: "opt_env \<Rightarrow> string \<Rightarrow> optimizer \<Rightarrow> (file_info list option) \<times> optimizer" where
  "scanDirectory E dir st =
     (case stat dir st of
        Some (Dir es) \<Rightarrow>
          if opendir_ok E dir
          then let files = scan_entries (fs_env.truncate E) file_info_of dir es
               in (Some files, st\<lparr>totalFiles := totalFiles st + length files\<rparr>)
          else (None, st)
      | _ \<Rightarrow> (None, st))"

definition calculateTotalSize :: "opt_env \<Rightarrow> optimizer \<Rightarrow> u32 \<times> optimizer" where
  "calculateTotalSize E st =
     (let (r, st) = scanDirectory E SYSTEM_PATH st; files = (case r of None \<Rightarrow> [] | Some files \<Rightarrow> files)
      in (sum_list (map info_size files), st\<lparr>systemFiles := files\<rparr>))"

definition removeFile :: "opt_env \<Rightarrow> string \<Rightarrow> optimizer \<Rightarrow> bool \<times> optimizer" where
  "removeFile E p st =
     (if dryRun st then (True, st)
      else case stat p st of
             None \<Rightarrow> (False, st)
           | Some n \<Rightarrow>
               let (r, ev, freed) = remove_node (fs_env.truncate E) p n
               in (r = None, st\<lparr>fs := replace_at (components p) r (fs st), events := events st @ ev, freedSpace := freedSpace st + freed\<rparr>))"

definition system :: "opt_env \<Rightarrow> string \<Rightarrow> optimizer \<Rightarrow> bool \<times> optimizer" where
  "system E cmd st = (let (ok, n) = shell E cmd (fs st) in (ok, (event (Command cmd) st)\<lparr>fs := n\<rparr>))"

definition mkdir :: "string \<Rightarrow> optimizer \<Rightarrow> optimizer" where
  "mkdir p st =
     (let cs = components p
      in case lookup (fs st) (butlast cs) of
           Some (Dir es) \<Rightarrow>
             if cs = [] \<or> last cs \<in> set (map fst es) then st
             else (event (Mkdir p) st)\<lparr>fs := replace_at (butlast cs) (Some (Dir (es @ [(last cs, Dir [])]))) (fs st)\<rparr>
         | _ \<Rightarrow> st)"

definition mount :: "opt_env \<Rightarrow> string \<Rightarrow> string \<Rightarrow> optimizer \<Rightarrow> bool \<times> optimizer" where
  "mount E cmd alternative st = (let (ok, st) = system E cmd st in if ok then (True, st) else system E alternative st)"

definition mountSystemRW :: "opt_env \<Rightarrow> optimizer \<Rightarrow> bool \<times> optimizer" where
  "mountSystemRW E = mount E ''mount -o remount,rw /system 2>/dev/null'' ''mount -o rw,remount /system''"

definition mountSystemRO :: "opt_env \<Rightarrow> optimizer \<Rightarrow> bool \<times> optimizer" where
  "mountSystemRO E = mount E ''mount -o remount,ro /system 2>/dev/null'' ''mount -o ro,remount /system''"

definition executeCommand :: "opt_env \<Rightarrow> string \<Rightarrow> optimizer \<Rightarrow> bool \<times> optimizer" where
  "executeCommand E cmd st = (if dryRun st then (True, st) else system E cmd st)"

end
