(* ===== verification/SysPasses.thy ===== *)
theory SysPasses
  imports SysOpt
begin

text \<open>
  The passes of \<^verbatim>\<open>system_optimizer/system_optimizer.cpp\<close> in their order, the report, the whole run and the command line.
\<close>

section \<open>Loops\<close>

definition for_scanned :: "opt_env \<Rightarrow> (file_info \<Rightarrow> optimizer \<Rightarrow> optimizer) \<Rightarrow> string \<Rightarrow> optimizer \<Rightarrow> optimizer" where
  "for_scanned E f dir st =
     (case scanDirectory E dir st of (None, st) \<Rightarrow> st | (Some files, st) \<Rightarrow> fold f files st)"

definition for_directories :: "opt_env \<Rightarrow> (file_info \<Rightarrow> optimizer \<Rightarrow> optimizer) \<Rightarrow> string list \<Rightarrow> optimizer \<Rightarrow> optimizer" where
  "for_directories E f dirs st =
     fold (\<lambda>dir st. if directoryExists dir st then for_scanned E f dir st else st) dirs st"

definition remove_directory :: "opt_env \<Rightarrow> string \<Rightarrow> optimizer \<Rightarrow> optimizer" where
  "remove_directory E p st = (if directoryExists p st then snd (removeFile E p st) else st)"

section \<open>Applications\<close>

definition removeUnusedApps :: "opt_env \<Rightarrow> optimizer \<Rightarrow> bool \<times> optimizer" where
  "removeUnusedApps E st =
     (True, fold (\<lambda>app st. remove_directory E (below PRIV_APP_PATH app) (remove_directory E (below APP_PATH app) st)) removableApps st)"

definition compressFile :: "opt_env \<Rightarrow> string \<Rightarrow> optimizer \<Rightarrow> bool \<times> optimizer" where
  "compressFile E p st = (if dryRun st then (True, st) else system E (''gzip -9 '' @ p @ '' 2>/dev/null'') st)"

definition compressAPKs :: "opt_env \<Rightarrow> optimizer \<Rightarrow> bool \<times> optimizer" where
  "compressAPKs E st =
     (True, fold (for_scanned E (\<lambda>file st.
       if contains (path file) ''.apk''
       then let (ok, st) = compressFile E (path file) st in if ok then st\<lparr>processedFiles := processedFiles st + 1\<rparr> else st
       else st)) [APP_PATH, PRIV_APP_PATH] st)"

section \<open>Resources and images\<close>

definition optimizePNG :: "opt_env \<Rightarrow> string \<Rightarrow> optimizer \<Rightarrow> bool \<times> optimizer" where
  "optimizePNG E p st =
     (if dryRun st then (True, st)
      else let (ok, st) = system E ''which pngcrush > /dev/null 2>&1'' st
           in if ok
              then let (ok, st) = system E (''pngcrush -brute -reduce '' @ p @ '' '' @ p @ ''.tmp 2>/dev/null'') st
                   in if ok then (True, snd (system E (''mv '' @ p @ ''.tmp '' @ p) st)) else (False, st)
              else system E (''convert '' @ p @ '' -quality 80 '' @ p @ '' 2>/dev/null'') st)"

definition optimizePNGFiles :: "opt_env \<Rightarrow> optimizer \<Rightarrow> bool \<times> optimizer" where
  "optimizePNGFiles E st =
     (True, for_directories E (\<lambda>file st. if contains (path file) ''.png'' then snd (optimizePNG E (path file) st) else st)
       [''/system/framework'', ''/system/app'', ''/system/priv-app'', ''/system/media''] st)"

text \<open>What follows the first underscore of the path does not start with a language to be kept.\<close>

definition unused_resource :: "string \<Rightarrow> bool" where
  "unused_resource p \<longleftrightarrow>
     (case after_first ''_'' p of
        None \<Rightarrow> False
      | Some lang \<Rightarrow> list_all (\<lambda>l. take 2 lang \<noteq> l) [''en'', ''es'', ''fr'', ''de'', ''zh'', ''ja'', ''ko''] \<and> 5 < length lang)"

definition optimizeResources :: "opt_env \<Rightarrow> optimizer \<Rightarrow> bool \<times> optimizer" where
  "optimizeResources E st =
     (let st = for_directories E (\<lambda>file st. if unused_resource (path file) then snd (removeFile E (path file) st) else st)
                 [FRAMEWORK_PATH, ETC_PATH, ''/system/usr''] st
      in (True, snd (optimizePNGFiles E st)))"

section \<open>Binaries\<close>

definition stripBinary :: "opt_env \<Rightarrow> string \<Rightarrow> optimizer \<Rightarrow> bool \<times> optimizer" where
  "stripBinary E p st = (if dryRun st then (True, st) else system E (''strip --strip-debug '' @ p @ '' 2>/dev/null'') st)"

definition removeDebugSymbols :: "opt_env \<Rightarrow> optimizer \<Rightarrow> bool \<times> optimizer" where
  "removeDebugSymbols E st =
     (True, for_directories E (\<lambda>file st.
       if info_type file = ''application/x-executable'' \<or> info_type file = ''application/x-sharedlib'' \<or> contains (path file) ''.so''
       then snd (stripBinary E (path file) st) else st) [BIN_PATH, XBIN_PATH, LIB_PATH, ''/system/lib64''] st)"

definition archDirs :: "string list" where
  "archDirs = [''/system/lib/arm64'', ''/system/lib/x86'', ''/system/lib/x86_64'', ''/system/lib64'', ''/system/vendor/lib/arm64'',
     ''/system/vendor/lib/x86'']"

definition libsToRemove :: "string list" where
  "libsToRemove = [''libart.so.debug'', ''libjavacore.so.debug'', ''libopenjdkjvm.so.debug'', ''libwebviewchromium.so.debug'',
     ''libchromium_net.so'', ''libchrome.so'']"

definition stripNativeLibraries :: "opt_env \<Rightarrow> optimizer \<Rightarrow> bool \<times> optimizer" where
  "stripNativeLibraries E st =
     (let st = fold (remove_directory E) archDirs st
      in (True, fold (\<lambda>lib st. if fileExists (below LIB_PATH lib) st then snd (removeFile E (below LIB_PATH lib) st) else st)
            libsToRemove st))"

section \<open>Fonts and media\<close>

definition spare_font :: "string \<Rightarrow> bool" where
  "spare_font p \<longleftrightarrow> (contains p ''.ttf'' \<or> contains p ''.otf'') \<and>
     \<not> (list_ex (contains p) essentialFonts \<or> contains p ''Noto'')"

definition reduceFonts :: "opt_env \<Rightarrow> optimizer \<Rightarrow> bool \<times> optimizer" where
  "reduceFonts E st =
     (if \<not> directoryExists FONT_PATH st then (False, st)
      else case scanDirectory E FONT_PATH st of
             (None, st) \<Rightarrow> (False, st)
           | (Some files, st) \<Rightarrow>
               (True, fold (\<lambda>file st. if spare_font (path file) then snd (removeFile E (path file) st) else st) files st))"

definition compressImage :: "opt_env \<Rightarrow> string \<Rightarrow> optimizer \<Rightarrow> bool \<times> optimizer" where
  "compressImage E p st =
     (if dryRun st then (True, st) else system E (''convert '' @ p @ '' -quality 60 '' @ p @ '' 2>/dev/null'') st)"

definition spare_audio :: "file_info \<Rightarrow> bool" where
  "spare_audio file \<longleftrightarrow>
     \<not> list_ex (contains (path file)) [''default'', ''Default'', ''standard'', ''Standard''] \<and> info_size file > 100 * 1024"

definition cleanupMediaFiles :: "opt_env \<Rightarrow> optimizer \<Rightarrow> bool \<times> optimizer" where
  "cleanupMediaFiles E st =
     (let st = (if directoryExists (MEDIA_PATH @ ''/audio'') st
                then for_directories E (\<lambda>file st. if spare_audio file then snd (removeFile E (path file) st) else st)
                       (map (\<lambda>d. MEDIA_PATH @ ''/audio/'' @ d) [''ringtones'', ''notifications'', ''alarms'', ''ui'']) st
                else st)
      in (True, for_scanned E (\<lambda>file st.
            if (contains (path file) ''.jpg'' \<or> contains (path file) ''.jpeg'' \<or> contains (path file) ''.png'') \<and>
               info_size file > 1024 * 1024
            then snd (compressImage E (path file) st) else st) MEDIA_PATH st))"

section \<open>Framework\<close>

definition zip_command :: "string \<Rightarrow> string" where
  "zip_command p = ''zip -d '' @ p @ '' '*/META-INF/*.SF' '*/META-INF/*.RSA' '*/META-INF/*.DSA' 2>/dev/null''"

definition gzip_command :: "string \<Rightarrow> string" where
  "gzip_command p = ''gzip -9 '' @ p @ '' 2>/dev/null''"

definition optimizeJar :: "opt_env \<Rightarrow> string \<Rightarrow> optimizer \<Rightarrow> bool \<times> optimizer" where
  "optimizeJar E p st =
     (if dryRun st then (True, st) else system E (gzip_command p) (snd (system E (zip_command p) st)))"

definition optimizeFramework :: "opt_env \<Rightarrow> optimizer \<Rightarrow> bool \<times> optimizer" where
  "optimizeFramework E st =
     (if \<not> directoryExists FRAMEWORK_PATH st then (False, st)
      else (True, for_scanned E (\<lambda>file st. if contains (path file) ''.jar'' then snd (optimizeJar E (path file) st) else st)
             FRAMEWORK_PATH st))"

section \<open>The rest\<close>

definition cleanTemporaryFiles :: "opt_env \<Rightarrow> optimizer \<Rightarrow> bool \<times> optimizer" where
  "cleanTemporaryFiles E st =
     (True, for_directories E (\<lambda>file st. if now E - info_modified file > 7 * 24 * 60 * 60 then snd (removeFile E (path file) st) else st)
       [''/data/local/tmp'', ''/cache'', ''/tmp''] st)"

definition keepLocales :: "string list" where
  "keepLocales = [''en'', ''en_US'', ''en_GB'', ''es'', ''es_ES'', ''fr'', ''fr_FR'', ''de'', ''de_DE'', ''zh'', ''zh_CN'', ''ja'',
     ''ja_JP'', ''ko'', ''ko_KR'']"

definition unused_locale :: "string \<Rightarrow> bool" where
  "unused_locale p \<longleftrightarrow> \<not> list_ex (contains p) keepLocales \<and> \<not> isSystemCritical p"

definition removeUnusedLocales :: "opt_env \<Rightarrow> optimizer \<Rightarrow> bool \<times> optimizer" where
  "removeUnusedLocales E st =
     (True, for_directories E (\<lambda>file st. if unused_locale (path file) then snd (removeFile E (path file) st) else st)
       [''/system/usr/share/i18n/locales'', ''/system/etc/locales'', ''/system/usr/share/locale''] st)"

definition bootAnimPath :: string where
  "bootAnimPath = MEDIA_PATH @ ''/bootanimation.zip''"

definition optimizeBootAnimation :: "opt_env \<Rightarrow> optimizer \<Rightarrow> bool \<times> optimizer" where
  "optimizeBootAnimation E st =
     (if \<not> fileExists bootAnimPath st then (False, st)
      else if dryRun st then (True, st)
      else let (ok, st) = system E (''unzip -q '' @ bootAnimPath @ '' -d /tmp/bootanim 2>/dev/null'') (mkdir ''/tmp/bootanim'' st)
           in if \<not> ok then (False, st)
              else (True, fold (\<lambda>cmd st. snd (system E cmd st))
                [''find /tmp/bootanim -name '*.png' -exec convert {} -quality 60 {} '' @ [CHR 0x5C] @ ''; 2>/dev/null'',
                 ''cd /tmp/bootanim && zip -r -q '' @ bootAnimPath @ '' . 2>/dev/null'', ''rm -rf /tmp/bootanim''] st))"

section \<open>The report\<close>

definition category :: "string \<Rightarrow> string" where
  "category p =
     (if contains p ''/app/'' \<or> contains p ''/priv-app/'' then ''Applications''
      else if contains p ''/lib'' then ''Libraries''
      else if contains p ''/framework'' then ''Framework''
      else if contains p ''/fonts'' then ''Fonts''
      else if contains p ''/media'' then ''Media''
      else if contains p ''/etc'' then ''Configuration''
      else if contains p ''/bin'' \<or> contains p ''/xbin'' then ''Binaries'' else ''Other'')"

definition categories :: "string list" where
  "categories = [''Applications'', ''Libraries'', ''Framework'', ''Fonts'', ''Media'', ''Configuration'', ''Binaries'', ''Other'']"

definition generateSizeReport :: "optimizer \<Rightarrow> optimizer" where
  "generateSizeReport st =
     st\<lparr>sizeBreakdown := map (\<lambda>c. (c, sum_list (map info_size (filter (\<lambda>f. category (path f) = c) (systemFiles st))))) categories\<rparr>"

section \<open>The run\<close>

definition optimizations :: "opt_env \<Rightarrow> (string \<times> (optimizer \<Rightarrow> bool \<times> optimizer)) list" where
  "optimizations E =
    [(''Removing unused applications'', removeUnusedApps E), (''Compressing APK files'', compressAPKs E),
     (''Optimizing resources'', optimizeResources E), (''Removing debug symbols'', removeDebugSymbols E),
     (''Stripping native libraries'', stripNativeLibraries E), (''Reducing fonts'', reduceFonts E),
     (''Cleaning media files'', cleanupMediaFiles E), (''Optimizing framework'', optimizeFramework E),
     (''Cleaning temporary files'', cleanTemporaryFiles E), (''Removing unused locales'', removeUnusedLocales E),
     (''Optimizing boot animation'', optimizeBootAnimation E)]"

definition run_passes :: "opt_env \<Rightarrow> optimizer \<Rightarrow> optimizer" where
  "run_passes E st = fold (\<lambda>(name, pass) st. snd (pass (st\<lparr>currentOperation := name\<rparr>))) (optimizations E) st"

definition optimizeSystem :: "opt_env \<Rightarrow> string \<Rightarrow> optimizer \<Rightarrow> bool \<times> optimizer" where
  "optimizeSystem E systemPath st =
     (if \<not> is_root E then (False, st)
      else let (ok, st) = mountSystemRW E st
           in if \<not> ok then (False, st)
              else case scanDirectory E systemPath st of
                     (None, st) \<Rightarrow> (False, st)
                   | (Some files, st) \<Rightarrow>
                       let (original, st) = calculateTotalSize E (st\<lparr>systemFiles := systemFiles st @ files\<rparr>);
                           st = run_passes E (st\<lparr>originalSize := original, totalSize := original\<rparr>);
                           (optimized, st) = calculateTotalSize E st;
                           st = generateSizeReport (st\<lparr>optimizedSize := optimized, freedSpace := originalSize st - optimized\<rparr>);
                           st = snd (mountSystemRO E st)
                       in (optimized \<le> TARGET_SIZE, st))"

text \<open>The command line: the options set and the path, or \<open>None\<close> when the help was printed.\<close>

fun parse_args :: "string list \<Rightarrow> string \<Rightarrow> optimizer \<Rightarrow> (string \<times> optimizer) option" where
  "parse_args [] systemPath st = Some (systemPath, st)"
| "parse_args (arg # args) systemPath st =
     (if arg = ''-v'' \<or> arg = ''--verbose'' then parse_args args systemPath (st\<lparr>verboseMode := True\<rparr>)
      else if arg = ''-d'' \<or> arg = ''--dry-run'' then parse_args args systemPath (st\<lparr>dryRun := True\<rparr>)
      else if arg = ''-h'' \<or> arg = ''--help'' then None
      else if take 1 arg \<noteq> ''-'' then parse_args args arg st
      else parse_args args systemPath st)"

definition optimizer_main :: "opt_env \<Rightarrow> string list \<Rightarrow> node \<Rightarrow> int \<times> optimizer" where
  "optimizer_main E args n =
     (case parse_args args SYSTEM_PATH (new_optimizer n) of
        None \<Rightarrow> (0, new_optimizer n)
      | Some (systemPath, st) \<Rightarrow> let (success, st) = optimizeSystem E systemPath st in (if success then 0 else 1, st))"

end
