(* ===== verification/SysProps.thy ===== *)
theory SysProps
  imports SysPasses "HOL-Library.Sublist"
begin

text \<open>
  What the space saver may delete, what a dry run leaves alone, what becomes of the framework, and what removing a directory does.
  What every pass keeps is proved once, in a locale over the operations the passes are made of.
\<close>

section \<open>The places where files may go\<close>

definition inside :: "string \<Rightarrow> string \<Rightarrow> bool" where
  "inside dir p \<longleftrightarrow> prefix (dir @ ''/'') p"

definition may_remove :: "string \<Rightarrow> bool" where
  "may_remove p \<longleftrightarrow>
     list_ex (\<lambda>app. p = below APP_PATH app \<or> p = below PRIV_APP_PATH app) removableApps \<or>
     p \<in> set archDirs \<or> p \<in> set (map (below LIB_PATH) libsToRemove) \<or>
     (inside FRAMEWORK_PATH p \<or> inside ETC_PATH p \<or> inside ''/system/usr'' p) \<and> unused_resource p \<or>
     inside FONT_PATH p \<and> spare_font p \<or> inside (MEDIA_PATH @ ''/audio'') p \<or>
     inside ''/data/local/tmp'' p \<or> inside ''/cache'' p \<or> inside ''/tmp'' p \<or>
     (inside ''/system/usr/share/i18n/locales'' p \<or> inside ''/system/etc/locales'' p \<or> inside ''/system/usr/share/locale'' p) \<and>
       unused_locale p"

lemma scan_path: "path (file_info_of p n) = p"
  by (simp add: file_info_of_def)

lemma scan_inside:
  "f \<in> set (scan_node E file_info_of p n) \<Longrightarrow> path f = p \<or> inside p (path f)"
  "f \<in> set (scan_entries E file_info_of p es) \<Longrightarrow> inside p (path f)"
proof (induction E "file_info_of" p n and E "file_info_of" p es rule: scan_node_scan_entries.induct)
  case (4 E p name n es)
  then show ?case
    by (auto simp: inside_def below_def prefix_def split: if_splits)
qed (auto simp: scan_path split: if_splits)

lemma inside_trans: "inside (d @ ''/'' @ e) p \<Longrightarrow> inside d p"
  by (auto simp: inside_def prefix_def)

section \<open>What every pass keeps\<close>

definition mount_commands :: "string list" where
  "mount_commands = [''mount -o remount,rw /system 2>/dev/null'', ''mount -o rw,remount /system'',
     ''mount -o remount,ro /system 2>/dev/null'', ''mount -o ro,remount /system'']"

locale kept_by_passes =
  fixes E :: opt_env and Inv :: "optimizer \<Rightarrow> bool"
  assumes bookkeeping: "Inv st \<Longrightarrow> fs st' = fs st \<Longrightarrow> events st' = events st \<Longrightarrow> dryRun st' = dryRun st \<Longrightarrow> Inv st'"
    and command: "Inv st \<Longrightarrow> \<not> dryRun st \<Longrightarrow> Inv (snd (system E cmd st))"
    and make_dir: "Inv st \<Longrightarrow> \<not> dryRun st \<Longrightarrow> Inv (mkdir p st)"
    and mounting: "Inv st \<Longrightarrow> cmd \<in> set mount_commands \<Longrightarrow> Inv (snd (system E cmd st))"
    and removal: "Inv st \<Longrightarrow> \<not> dryRun st \<Longrightarrow> may_remove p \<Longrightarrow> Inv (snd (removeFile E p st))"
    and dry_stays: "Inv st \<Longrightarrow> Inv st' \<Longrightarrow> dryRun st' = dryRun st"
begin

lemma remove_kept: "Inv st \<Longrightarrow> may_remove p \<Longrightarrow> Inv (snd (removeFile E p st))"
  using removal by (cases "dryRun st") (simp_all add: removeFile_def)

lemma remove_directory_kept: "Inv st \<Longrightarrow> may_remove p \<Longrightarrow> Inv (remove_directory E p st)"
  by (simp add: remove_directory_def remove_kept)

lemma commands_kept:
  assumes "Inv st"
  shows "Inv (snd (compressFile E p st))" "Inv (snd (optimizePNG E p st))" "Inv (snd (stripBinary E p st))"
    "Inv (snd (compressImage E p st))" "Inv (snd (optimizeJar E p st))"
proof -
  have c: "Inv s \<Longrightarrow> dryRun st = False \<Longrightarrow> Inv (snd (system E cmd s))" for s cmd
    using command dry_stays [OF assms] by blast
  show "Inv (snd (compressFile E p st))" "Inv (snd (stripBinary E p st))" "Inv (snd (compressImage E p st))"
    using assms c by (simp_all add: compressFile_def stripBinary_def compressImage_def)
  show "Inv (snd (optimizeJar E p st))" using assms c by (simp add: optimizeJar_def)
  show "Inv (snd (optimizePNG E p st))"
  proof (cases "dryRun st")
    case False
    define s1 where "s1 = snd (system E ''which pngcrush > /dev/null 2>&1'' st)"
    have 1: "Inv s1" using c [OF assms] False by (simp add: s1_def)
    then show ?thesis using c [OF 1] c [OF c [OF 1]] False
      by (simp add: optimizePNG_def Let_def case_prod_beta flip: s1_def)
  qed (simp add: optimizePNG_def assms)
qed

lemma scanDirectory_kept:
  assumes "Inv st" "scanDirectory E dir st = (r, st')"
  shows "Inv st'" "r = Some files \<Longrightarrow> f \<in> set files \<Longrightarrow> inside dir (path f)"
  using assms bookkeeping [OF assms(1), of st'] scan_inside(2)
  by (auto simp: scanDirectory_def Let_def split: option.splits node.splits if_splits)

lemma fold_kept:
  assumes "\<And>x s. x \<in> set xs \<Longrightarrow> Inv s \<Longrightarrow> Inv (f x s)" "Inv st"
  shows "Inv (fold f xs st)"
  using assms by (induction xs arbitrary: st) simp_all

lemma for_scanned_kept:
  assumes "\<And>x s. inside dir (path x) \<Longrightarrow> Inv s \<Longrightarrow> Inv (f x s)" "Inv st"
  shows "Inv (for_scanned E f dir st)"
proof -
  obtain r st' where s: "scanDirectory E dir st = (r, st')" by fastforce
  note k = scanDirectory_kept [OF assms(2) s]
  have "Inv (fold f files st')" if "r = Some files" for files
    by (rule fold_kept [OF _ k(1)]) (use assms(1) k(2) [OF that] in blast)
  then show ?thesis using k(1) by (auto simp: for_scanned_def s split: option.split)
qed

lemma for_directories_kept:
  assumes "\<And>d x s. d \<in> set dirs \<Longrightarrow> inside d (path x) \<Longrightarrow> Inv s \<Longrightarrow> Inv (f x s)" "Inv st"
  shows "Inv (for_directories E f dirs st)"
  unfolding for_directories_def
  by (rule fold_kept [OF _ assms(2)]) (use assms(1) for_scanned_kept in auto)

text \<open>A pass that removes the files of some directories that satisfy a test.\<close>

lemma removing_pass_kept:
  assumes "\<And>d x. d \<in> set dirs \<Longrightarrow> inside d (path x) \<Longrightarrow> P x \<Longrightarrow> may_remove (path x)" "Inv st"
  shows "Inv (for_directories E (\<lambda>file st. if P file then snd (removeFile E (path file) st) else st) dirs st)"
  by (rule for_directories_kept [OF _ assms(2)]) (use assms(1) remove_kept in auto)

lemma pass_kept:
  assumes "(name, pass) \<in> set (optimizations E)" "Inv st"
  shows "Inv (snd (pass st))"
proof -
  have apps: "Inv (snd (removeUnusedApps E st))"
    unfolding removeUnusedApps_def snd_conv
    by (rule fold_kept [OF _ assms(2)]) (intro remove_directory_kept; auto simp: may_remove_def list_ex_iff)
  have apk: "Inv (let (ok, s) = compressFile E p s in if ok then s\<lparr>processedFiles := processedFiles s + 1\<rparr> else s)"
    if "Inv s" for p s
  proof -
    have k: "Inv (snd (compressFile E p s))" by (rule commands_kept(1) [OF that])
    then show ?thesis using bookkeeping [OF k] by (simp add: Let_def case_prod_beta)
  qed
  have apks: "Inv (snd (compressAPKs E st))"
    unfolding compressAPKs_def snd_conv
    by (rule fold_kept [OF _ assms(2)], rule for_scanned_kept) (simp_all only: apk split: if_split, simp_all)
  have png: "Inv (snd (optimizePNGFiles E s))" if "Inv s" for s
    unfolding optimizePNGFiles_def snd_conv by (rule for_directories_kept [OF _ that]) (simp add: commands_kept)
  have "Inv (for_directories E (\<lambda>file st. if unused_resource (path file) then snd (removeFile E (path file) st) else st)
      [FRAMEWORK_PATH, ETC_PATH, ''/system/usr''] st)"
    by (rule removing_pass_kept [OF _ assms(2)]) (auto simp: may_remove_def)
  then have resources: "Inv (snd (optimizeResources E st))" using png by (simp add: optimizeResources_def Let_def)
  have symbols: "Inv (snd (removeDebugSymbols E st))"
    unfolding removeDebugSymbols_def snd_conv by (rule for_directories_kept [OF _ assms(2)]) (simp add: commands_kept)
  have "Inv (fold (remove_directory E) archDirs st)"
    by (rule fold_kept [OF _ assms(2)]) (intro remove_directory_kept; simp add: may_remove_def)
  then have libraries: "Inv (snd (stripNativeLibraries E st))"
    unfolding stripNativeLibraries_def Let_def snd_conv
    by (rule fold_kept [rotated]) (auto simp: may_remove_def intro!: remove_kept)
  have fonts: "Inv (snd (reduceFonts E st))"
  proof -
    obtain r st' where s: "scanDirectory E FONT_PATH st = (r, st')" by fastforce
    note k = scanDirectory_kept [OF assms(2) s]
    have "Inv (fold (\<lambda>file st. if spare_font (path file) then snd (removeFile E (path file) st) else st) files st')"
      if "r = Some files" for files
      by (rule fold_kept [OF _ k(1)]) (use k(2) [OF that] in \<open>auto simp: may_remove_def intro!: remove_kept\<close>)
    then show ?thesis using k(1) assms(2) by (auto simp: reduceFonts_def s split: option.split)
  qed
  have audio: "Inv (for_directories E (\<lambda>file st. if spare_audio file then snd (removeFile E (path file) st) else st)
      (map (\<lambda>d. MEDIA_PATH @ ''/audio/'' @ d) [''ringtones'', ''notifications'', ''alarms'', ''ui'']) st)"
    by (rule removing_pass_kept [OF _ assms(2)])
      (use inside_trans [of "MEDIA_PATH @ ''/audio''"] in \<open>auto simp: may_remove_def\<close>)
  have media: "Inv (snd (cleanupMediaFiles E st))"
    unfolding cleanupMediaFiles_def Let_def snd_conv
    by (rule for_scanned_kept) (use audio assms(2) in \<open>simp_all add: commands_kept\<close>)
  have framework: "Inv (snd (optimizeFramework E st))"
    unfolding optimizeFramework_def using assms(2) for_scanned_kept [OF _ assms(2)] by (simp add: commands_kept)
  have temporary: "Inv (snd (cleanTemporaryFiles E st))"
    unfolding cleanTemporaryFiles_def snd_conv
    by (rule removing_pass_kept [OF _ assms(2)]) (auto simp: may_remove_def)
  have locales: "Inv (snd (removeUnusedLocales E st))"
    unfolding removeUnusedLocales_def snd_conv
    by (rule removing_pass_kept [OF _ assms(2)]) (auto simp: may_remove_def)
  have boot: "Inv (snd (optimizeBootAnimation E st))"
  proof (cases "dryRun st")
    case False
    have c: "Inv s \<Longrightarrow> Inv (snd (system E cmd s))" for s cmd using command dry_stays [OF assms(2)] False by blast
    have "Inv (mkdir ''/tmp/bootanim'' st)" by (rule make_dir [OF assms(2) False])
    then show ?thesis using assms(2) False by (simp add: optimizeBootAnimation_def Let_def case_prod_beta c)
  qed (use assms(2) in \<open>simp add: optimizeBootAnimation_def\<close>)
  show ?thesis using assms(1) apps apks resources symbols libraries fonts media framework temporary locales boot
    by (auto simp: optimizations_def)
qed

lemma run_kept:
  assumes "Inv st"
  shows "Inv (run_passes E st)"
  unfolding run_passes_def
proof (rule fold_kept [OF _ assms])
  fix x s assume x: "x \<in> set (optimizations E)" "Inv s"
  obtain name pass where n: "x = (name, pass)" by fastforce
  have "Inv (s\<lparr>currentOperation := name\<rparr>)" by (rule bookkeeping [OF x(2)]) simp_all
  then show "Inv ((case x of (name, pass) \<Rightarrow> \<lambda>st. snd (pass (st\<lparr>currentOperation := name\<rparr>))) s)"
    using x(1) pass_kept by (simp add: n)
qed

lemma mount_kept: "Inv st \<Longrightarrow> Inv (snd (mountSystemRW E st))" "Inv st \<Longrightarrow> Inv (snd (mountSystemRO E st))"
  using mounting by (simp_all add: mountSystemRW_def mountSystemRO_def mount_def Let_def case_prod_beta mount_commands_def)

lemma size_kept: "Inv st \<Longrightarrow> Inv (snd (calculateTotalSize E st))"
proof -
  assume i: "Inv st"
  obtain r st' where s: "scanDirectory E SYSTEM_PATH st = (r, st')" by fastforce
  show ?thesis using bookkeeping [OF scanDirectory_kept(1) [OF i s]] by (simp add: calculateTotalSize_def s Let_def)
qed

lemma optimizeSystem_kept:
  assumes "Inv st"
  shows "Inv (snd (optimizeSystem E systemPath st))"
proof -
  define s1 where "s1 = snd (mountSystemRW E st)"
  have i1: "Inv s1" using assms mount_kept by (simp add: s1_def)
  have rest: "Inv (snd (let (original, st) = calculateTotalSize E (s2\<lparr>systemFiles := systemFiles s2 @ files\<rparr>);
      st = run_passes E (st\<lparr>originalSize := original, totalSize := original\<rparr>);
      (optimized, st) = calculateTotalSize E st;
      st = generateSizeReport (st\<lparr>optimizedSize := optimized, freedSpace := originalSize st - optimized\<rparr>);
      st = snd (mountSystemRO E st)
    in (optimized \<le> TARGET_SIZE, st)))" if "Inv s2" for s2 files
  proof -
    define s3 where "s3 = calculateTotalSize E (s2\<lparr>systemFiles := systemFiles s2 @ files\<rparr>)"
    have "Inv (s2\<lparr>systemFiles := systemFiles s2 @ files\<rparr>)" by (rule bookkeeping [OF that]) simp_all
    then have i3: "Inv (snd s3)" by (simp add: s3_def size_kept)
    have "Inv ((snd s3)\<lparr>originalSize := fst s3, totalSize := fst s3\<rparr>)" by (rule bookkeeping [OF i3]) simp_all
    then have "Inv (snd (calculateTotalSize E (run_passes E ((snd s3)\<lparr>originalSize := fst s3, totalSize := fst s3\<rparr>))))"
      by (intro size_kept run_kept)
    then show ?thesis
      unfolding s3_def [symmetric] Let_def case_prod_beta snd_conv
      by (intro mount_kept) (auto simp: generateSizeReport_def elim: bookkeeping)
  qed
  show ?thesis
  proof (cases "is_root E \<and> fst (mountSystemRW E st)")
    case True
    obtain r s2 where s2: "scanDirectory E systemPath s1 = (r, s2)" by fastforce
    have i2: "Inv s2" by (rule scanDirectory_kept(1) [OF i1 s2])
    have m: "mountSystemRW E st = (True, s1)" using True by (simp add: s1_def prod_eq_iff)
    show ?thesis
    proof (cases r)
      case (Some files)
      show ?thesis using rest [OF i2, of files] True by (simp add: optimizeSystem_def m s2 Some)
    qed (use True i2 in \<open>simp add: optimizeSystem_def m s2\<close>)
  qed (use assms i1 in \<open>auto simp: optimizeSystem_def s1_def Let_def case_prod_beta\<close>)
qed

end

section \<open>A dry run\<close>

definition dry_inv :: "opt_env \<Rightarrow> node \<Rightarrow> optimizer \<Rightarrow> bool" where
  "dry_inv E n st \<longleftrightarrow> dryRun st \<and> (\<exists>cmds. set cmds \<subseteq> set mount_commands \<and> events st = map Command cmds \<and>
     fs st = fold (\<lambda>cmd n. snd (shell E cmd n)) cmds n)"

interpretation dry: kept_by_passes E "dry_inv E n" for E n
proof
  fix st cmd assume i: "dry_inv E n st" "cmd \<in> set mount_commands"
  then obtain cmds where c: "dryRun st" "set cmds \<subseteq> set mount_commands" "events st = map Command cmds"
    "fs st = fold (\<lambda>cmd n. snd (shell E cmd n)) cmds n" by (auto simp: dry_inv_def)
  show "dry_inv E n (snd (system E cmd st))"
    unfolding dry_inv_def
    using c i(2) by (intro conjI exI [of _ "cmds @ [cmd]"]) (simp_all add: system_def event_def Let_def case_prod_beta)
qed (auto simp: dry_inv_def)

lemma parse_dry:
  assumes "parse_args args p st = Some (p', st')" "dryRun st \<or> ''-d'' \<in> set args \<or> ''--dry-run'' \<in> set args"
  shows "dryRun st' \<and> fs st' = fs st \<and> events st' = events st"
  using assms by (induction args p st rule: parse_args.induct) (auto split: if_splits)

text \<open>A framework of one archive.\<close>

definition toy_framework :: optimizer where
  "toy_framework = new_optimizer (Dir [(''system'', Dir [(''framework'', Dir [(''framework.jar'', File 100 0 False)])])])"

definition toy_env :: opt_env where
  "toy_env = \<lparr>opendir_ok = \<lambda>_. True, unlink_ok = \<lambda>_. True, rmdir_ok = \<lambda>_. True, shell = \<lambda>_ n. (True, n), is_root = True, now = 0\<rparr>"

text \<open>
  C40: a dry run deletes, makes and rewrites nothing: whatever else is on the command line, the only
  commands run are those that mount the system partition, and the files are what these leave.  (They are run although the
  option promises no changes.)
\<close>

theorem dry_run_changes_nothing:
  assumes "''-d'' \<in> set args \<or> ''--dry-run'' \<in> set args"
  shows "\<exists>cmds. set cmds \<subseteq> set mount_commands \<and> events (snd (optimizer_main E args n)) = map Command cmds \<and>
    fs (snd (optimizer_main E args n)) = fold (\<lambda>cmd n. snd (shell E cmd n)) cmds n"
proof (cases "parse_args args SYSTEM_PATH (new_optimizer n)")
  case None
  then show ?thesis by (intro exI [of _ "[]"]) (simp add: optimizer_main_def new_optimizer_def)
next
  case (Some a)
  obtain systemPath st where a: "a = (systemPath, st)" by fastforce
  have "dryRun st \<and> fs st = n \<and> events st = []"
    using parse_dry [OF Some [unfolded a]] assms by (auto simp: new_optimizer_def)
  then have "dry_inv E n st" by (auto simp: dry_inv_def intro!: exI [of _ "[]"])
  from dry.optimizeSystem_kept [OF this] show ?thesis
    by (simp add: dry_inv_def optimizer_main_def Some a case_prod_beta Let_def)
qed

theorem dry_run_changes_nothing_witness:
  "fs (snd (optimizer_main toy_env [''-v'', ''-d''] (fs toy_framework))) = fs toy_framework \<and>
    (\<exists>cmds. set cmds \<subseteq> set mount_commands \<and>
      events (snd (optimizer_main toy_env [''-v'', ''-d''] (fs toy_framework))) = map Command cmds)"
proof -
  have "fold (\<lambda>cmd n. snd (shell toy_env cmd n)) cmds n = n" for cmds n
    by (induction cmds) (simp_all add: toy_env_def)
  then show ?thesis using dry_run_changes_nothing [of "[''-v'', ''-d'']" toy_env "fs toy_framework"] by auto
qed

section \<open>Critical files\<close>

lemma remove_events:
  "Unlink q \<in> set (fst (snd (remove_node E p n))) \<Longrightarrow> q = p \<or> inside p q"
  "Unlink q \<in> set (fst (snd (remove_entries E p es))) \<Longrightarrow> inside p q"
proof (induction E p n and E p es rule: remove_node_remove_entries.induct)
  case (4 E path name n es)
  obtain es' ev' fr' where r: "remove_entries E path es = (es', ev', fr')" by (metis prod.exhaust)
  have "q = below path name \<or> inside (below path name) q"
    if "\<not> hidden name" "Unlink q \<in> set (fst (snd (remove_node E (below path name) n)))"
    using 4(2) r [symmetric] that by blast
  then show ?case using 4(1,3)
    by (auto simp: r Let_def case_prod_beta inside_def below_def prefix_def split: if_splits)
qed (auto simp: Let_def case_prod_beta split: if_splits)

lemma inside_inside: "inside d p \<Longrightarrow> c = p \<or> inside p c \<Longrightarrow> inside d c"
  by (auto simp: inside_def prefix_def)

lemma critical_places:
  "list_all (\<lambda>d. list_all (\<lambda>c. \<not> inside d c) criticalPaths)
     [APP_PATH, PRIV_APP_PATH, ETC_PATH, ''/system/usr'', FONT_PATH, MEDIA_PATH @ ''/audio'', ''/data/local/tmp'', ''/cache'', ''/tmp'',
      ''/system/usr/share/i18n/locales'', ''/system/etc/locales'', ''/system/usr/share/locale'']"
  "list_all (\<lambda>d. list_all (\<lambda>c. c \<noteq> d \<and> \<not> inside d c) criticalPaths) (archDirs @ map (below LIB_PATH) libsToRemove)"
  "list_all (\<lambda>c. inside FRAMEWORK_PATH c \<longrightarrow> \<not> unused_resource c) criticalPaths"
  "list_all (\<lambda>c. count_list c CHR ''/'' = 3) criticalPaths" "count_list FRAMEWORK_PATH CHR ''/'' = 2"
  by code_simp+

lemma may_remove_uncritical:
  assumes "may_remove p" "c \<in> set criticalPaths"
  shows "c \<noteq> p \<and> \<not> inside p c"
proof -
  note places = critical_places(1) [unfolded list_all_iff, rule_format, OF _ assms(2)]
  have d: "c \<noteq> p \<and> \<not> inside p c" if "inside d p"
    "d \<in> set [APP_PATH, PRIV_APP_PATH, ETC_PATH, ''/system/usr'', FONT_PATH, MEDIA_PATH @ ''/audio'', ''/data/local/tmp'', ''/cache'', ''/tmp'',
      ''/system/usr/share/i18n/locales'', ''/system/etc/locales'', ''/system/usr/share/locale'']" for d
    using places [OF that(2)] inside_inside [OF that(1)] by blast
  have f: "c \<noteq> p \<and> \<not> inside p c" if "inside FRAMEWORK_PATH p" "unused_resource p"
  proof -
    have "3 \<le> count_list p CHR ''/''" using that(1) critical_places(5) by (auto simp: inside_def prefix_def)
    moreover have "count_list c CHR ''/'' = 3" using critical_places(4) assms(2) by (simp add: list_all_iff)
    ultimately have "\<not> inside p c" by (auto simp: inside_def prefix_def)
    moreover have "c \<noteq> p" using critical_places(3) assms(2) that by (auto simp: list_all_iff)
    ultimately show ?thesis by simp
  qed
  have l: "c \<noteq> p \<and> \<not> inside p c" if "p \<in> set archDirs \<or> p \<in> set (map (below LIB_PATH) libsToRemove)"
    using critical_places(2) assms(2) that by (auto simp: list_all_iff)
  have a: "c \<noteq> p \<and> \<not> inside p c" if "p = below APP_PATH app \<or> p = below PRIV_APP_PATH app" for app
  proof -
    have "inside APP_PATH p \<or> inside PRIV_APP_PATH p" using that by (auto simp: below_def inside_def prefix_def)
    then show ?thesis using d by auto
  qed
  show ?thesis using assms(1) unfolding may_remove_def list_ex_iff
    by (elim disjE conjE bexE) (use a l f d in auto)
qed

definition critical_inv :: "bool \<Rightarrow> optimizer \<Rightarrow> bool" where
  "critical_inv b st \<longleftrightarrow> dryRun st = b \<and> (\<forall>c \<in> set criticalPaths. Unlink c \<notin> set (events st))"

interpretation critical: kept_by_passes E "critical_inv b" for E b
proof
  fix st p assume i: "critical_inv b st" "\<not> dryRun st" "may_remove p"
  have "Unlink c \<notin> set (fst (snd (remove_node (fs_env.truncate E) p n)))" if "c \<in> set criticalPaths" for c n
    using remove_events(1) may_remove_uncritical [OF i(3) that] by blast
  then show "critical_inv b (snd (removeFile E p st))"
    using i by (auto simp: removeFile_def critical_inv_def Let_def case_prod_beta split: option.split)
qed (auto simp: critical_inv_def system_def mkdir_def event_def Let_def case_prod_beta split: option.split node.split)



section \<open>The framework\<close>

lemma gzip_fold:
  assumes "\<not> dryRun st"
  shows "events (fold (\<lambda>file st. if contains (path file) ''.jar'' then snd (optimizeJar E (path file) st) else st) files st) =
    events st @ concat (map (\<lambda>file. [Command (zip_command (path file)), Command (gzip_command (path file))])
      (filter (\<lambda>file. contains (path file) ''.jar'') files))"
  using assms
  by (induction files arbitrary: st) (simp_all add: optimizeJar_def system_def event_def Let_def case_prod_beta)

text \<open>
  The pass over the framework, when the run is not dry, has \<open>gzip\<close> replace every archive below its directory, in the order of the
  directories and no matter what the commands do to the files.  The critical archives, which the boot class path names, are among them.
\<close>

theorem framework_is_compressed:
  assumes "\<not> dryRun st" "stat FRAMEWORK_PATH st = Some (Dir es)" "opendir_ok E FRAMEWORK_PATH"
  shows "events (snd (optimizeFramework E st)) =
    events st @ concat (map (\<lambda>file. [Command (zip_command (path file)), Command (gzip_command (path file))])
      (filter (\<lambda>file. contains (path file) ''.jar'') (scan_entries (fs_env.truncate E) file_info_of FRAMEWORK_PATH es)))"
  using assms
  by (simp add: optimizeFramework_def directoryExists_def for_scanned_def scanDirectory_def Let_def gzip_fold)

theorem framework_is_compressed_witness:
  "isSystemCritical ''/system/framework/framework.jar'' \<and>
    events (snd (optimizeFramework toy_env toy_framework)) =
      [Command (zip_command ''/system/framework/framework.jar''), Command (gzip_command ''/system/framework/framework.jar'')]"
proof -
  have "\<not> dryRun toy_framework" "stat FRAMEWORK_PATH toy_framework = Some (Dir [(''framework.jar'', File 100 0 False)])"
    "events toy_framework = []" "isSystemCritical ''/system/framework/framework.jar''" "contains ''/system/framework/framework.jar'' ''.jar''"
    by code_simp+
  moreover have "scan_entries (fs_env.truncate toy_env) file_info_of FRAMEWORK_PATH [(''framework.jar'', File 100 0 False)] =
      [file_info_of ''/system/framework/framework.jar'' (File 100 0 False)]"
    by (simp add: hidden_def below_def FRAMEWORK_PATH_def)
  ultimately show ?thesis
    using framework_is_compressed [of toy_framework "[(''framework.jar'', File 100 0 False)]" toy_env]
    by (simp add: scan_path) (simp add: toy_env_def)
qed

end
