(* ===== verification/SysRemove.thy ===== *)
theory SysRemove
  imports SysPasses "HOL-Library.Sublist"
begin

text \<open>
  What \<open>removeFile\<close> does to the tree when the kernel refuses nothing: all visible files below a path go; the path itself
  goes exactly when there is nothing hidden below it, and everything elsewhere stays.
\<close>

section \<open>Below the path\<close>

fun all_visible :: "node \<Rightarrow> bool" where
  "all_visible (File s t x) = True"
| "all_visible (Dir es) = list_all (\<lambda>(name, n). \<not> hidden name \<and> all_visible n) es"

fun visible_size :: "node \<Rightarrow> u32" where
  "visible_size (File s t x) = s"
| "visible_size (Dir es) = sum_list (map (\<lambda>(name, n). if hidden name then 0 else visible_size n) es)"

definition permissive :: "fs_env \<Rightarrow> bool" where
  "permissive E \<longleftrightarrow> (\<forall>q. opendir_ok E q \<and> unlink_ok E q \<and> rmdir_ok E q)"

lemma remove_node_result:
  assumes "permissive E"
  shows "fst (remove_node E p n) = None \<longleftrightarrow> all_visible n" "snd (snd (remove_node E p n)) = visible_size n"
    and "fst (remove_entries E p es) = [] \<longleftrightarrow> all_visible (Dir es)" "snd (snd (remove_entries E p es)) = visible_size (Dir es)"
proof -
  have "(fst (remove_node E p n) = None \<longleftrightarrow> all_visible n) \<and> snd (snd (remove_node E p n)) = visible_size n"
    "(fst (remove_entries E p es) = [] \<longleftrightarrow> all_visible (Dir es)) \<and> snd (snd (remove_entries E p es)) = visible_size (Dir es)"
    using assms
  proof (induction E p n and E p es rule: remove_node_remove_entries.induct)
    case (4 E p name n es)
    obtain es' ev' fr' where r: "remove_entries E p es = (es', ev', fr')" by (metis prod.exhaust)
    have n: "(fst (remove_node E (below p name) n) = None \<longleftrightarrow> all_visible n) \<and>
      snd (snd (remove_node E (below p name) n)) = visible_size n" if "\<not> hidden name"
      using 4(2) r [symmetric] that 4(3) by blast
    then show ?case using 4(1,3) by (auto simp: r Let_def case_prod_beta split: option.split)
  qed (auto simp: permissive_def Let_def case_prod_beta)
  then show "fst (remove_node E p n) = None \<longleftrightarrow> all_visible n" "snd (snd (remove_node E p n)) = visible_size n"
    "fst (remove_entries E p es) = [] \<longleftrightarrow> all_visible (Dir es)" "snd (snd (remove_entries E p es)) = visible_size (Dir es)"
    by simp_all
qed

section \<open>The rest of the tree\<close>

lemma map_of_put:
  "map_of (put_entry c r es) d = (if d = c then (if map_of es c = None then None else r) else map_of es d)"
proof (induction es)
  case (Cons e es)
  then show ?case by (cases r) (auto simp: put_entry_def split: if_splits)
qed (simp add: put_entry_def split: option.split)

lemma lookup_replaced: "lookup n cs \<noteq> None \<Longrightarrow> cs \<noteq> [] \<Longrightarrow> lookup (replace_at cs r n) cs = r"
proof (induction cs r n rule: replace_at.induct)
  case (3 c cs r es)
  then show ?case by (cases "map_of es c"; cases "cs = []") (auto simp: map_of_put)
qed simp_all

lemma lookup_elsewhere: "\<not> prefix q cs \<Longrightarrow> \<not> prefix cs q \<Longrightarrow> lookup (replace_at cs r n) q = lookup n q"
proof (induction cs r n arbitrary: q rule: replace_at.induct)
  case (3 c cs r es)
  then obtain d ds where q: "q = d # ds" by (cases q) auto
  show ?case
  proof (cases "map_of es c")
    case (Some n)
    then show ?thesis using 3 q by (cases "d = c"; cases "cs = []") (auto simp: map_of_put)
  qed simp
qed simp_all


text \<open>A directory with a hidden file in one of its directories.\<close>

definition toy_disk :: node where
  "toy_disk = Dir [(''cache'', Dir [(''a'', File 5 0 False), (''b'', Dir [(''.keep'', File 1 0 False), (''c'', File 7 0 False)])]), (''etc'', File 2 0 False)]"

definition toy_permit :: opt_env where
  "toy_permit = \<lparr>opendir_ok = \<lambda>_. True, unlink_ok = \<lambda>_. True, rmdir_ok = \<lambda>_. True, shell = \<lambda>_ n. (True, n), is_root = True, now = 0\<rparr>"


end
