(* ===== verification/AtClient.thy ===== *)
theory AtClient
  imports CText
begin

text \<open>
  \<^verbatim>\<open>libs/libatchannel\<close>: a client sends an AT command to the telephony service over the binder.  A property's value is
  a parameter, \<open>None\<close> when it is not set; so are the service manager, asked again until it knows the service, and what the
  service answers.
\<close>

section \<open>Names\<close>

definition MAX_SERVICE_NAME :: nat where "MAX_SERVICE_NAME = 100"

definition property_get :: "(string \<Rightarrow> string option) \<Rightarrow> string \<Rightarrow> string \<Rightarrow> string" where
  "property_get props key default_value = (case props key of None \<Rightarrow> default_value | Some v \<Rightarrow> if v = [] then default_value else v)"

text \<open>\<open>None\<close> is the overflow of a signed number.\<close>

definition in_int :: "int \<Rightarrow> int option" where
  "in_int x = (if - (2 ^ 31) \<le> x \<and> x < 2 ^ 31 then Some x else None)"

definition getPhoneId :: "(string \<Rightarrow> string option) \<Rightarrow> int \<Rightarrow> int \<Rightarrow> int option" where
  "getPhoneId props modemId simId =
     (let tdEnable = atoi32 (property_get props ''persist.modem.t.enable'' ''0'');
          wEnable = atoi32 (property_get props ''persist.modem.w.enable'' ''0'');
          tlEnable = atoi32 (property_get props ''persist.modem.tl.enable'' ''0'');
          lfEnable = atoi32 (property_get props ''persist.modem.lf.enable'' ''0'');
          tdCount = atoi32 (property_get props ''ro.modem.t.count'' ''0'')
      in if tdEnable \<noteq> 0
         then if wEnable \<noteq> 0 then Option.bind (in_int (modemId * tdCount)) (\<lambda>x. in_int (x + simId)) else Some simId
         else if wEnable \<noteq> 0 then Some simId
         else if tlEnable \<noteq> 0 then Some simId
         else if lfEnable \<noteq> 0 then Some simId else Some 0)"

text \<open>\<open>snprintf\<close> keeps a place for the terminator.\<close>

definition getServiceName :: "(string \<Rightarrow> string option) \<Rightarrow> int \<Rightarrow> int \<Rightarrow> string" where
  "getServiceName props modemId simId =
     (if atoi32 (property_get props ''persist.msms.phone_count'' ''1'') > 1
      then take (MAX_SERVICE_NAME - 2) (''atchannel'' @ fmt_d simId) else ''atchannel'')"

section \<open>The call\<close>

text \<open>The command as it goes to the service, and what comes back: nothing, or an exception code and a text.\<close>

definition Bp_sendAt :: "('m \<Rightarrow> string \<Rightarrow> (int \<times> string) option) \<Rightarrow> 'm \<Rightarrow> string \<Rightarrow> string" where
  "Bp_sendAt transact remote atCmd =
     (case transact remote atCmd of
        None \<Rightarrow> ''ERROR''
      | Some (err, text) \<Rightarrow> if err < 0 then ''ERROR'' else text)"

text \<open>\<open>services i name\<close>: what the \<open>i\<close>-th attempt finds, \<open>None\<close> also when there is no service manager.\<close>

partial_function (option) find_channel :: "(nat \<Rightarrow> string \<Rightarrow> 'm option) \<Rightarrow> string \<Rightarrow> nat \<Rightarrow> 'm option" where
  "find_channel services name i = (case services i name of None \<Rightarrow> find_channel services name (i + 1) | Some m \<Rightarrow> Some m)"

definition sendAt ::
  "(string \<Rightarrow> string option) \<Rightarrow> (nat \<Rightarrow> string \<Rightarrow> 'm option) \<Rightarrow> ('m \<Rightarrow> string \<Rightarrow> (int \<times> string) option) \<Rightarrow>
   int \<Rightarrow> int \<Rightarrow> string \<Rightarrow> string option" where
  "sendAt props services transact modemId simId atCmd =
     map_option (\<lambda>m. Bp_sendAt transact m atCmd) (find_channel services (getServiceName props modemId simId) 0)"

section \<open>What a client gets\<close>

lemma find_channel_from: "i \<le> j \<Longrightarrow> services j name = Some m \<Longrightarrow> \<exists>k m'. find_channel services name i = Some m' \<and> k \<le> j \<and> services k name = Some m'"
proof (induction "j - i" arbitrary: i)
  case 0
  then show ?case by (subst find_channel.simps) auto
next
  case (Suc n)
  show ?case
  proof (cases "services i name")
    case None
    have "n = j - (i + 1)" "i + 1 \<le> j" using Suc.hyps(2) Suc.prems(1) by arith+
    from Suc.hyps(1) [OF this Suc.prems(2)] show ?thesis using None by (subst find_channel.simps) simp
  next
    case (Some m')
    then show ?thesis using Suc.prems(1) by (subst find_channel.simps) auto
  qed
qed

lemma find_channel_sound: "find_channel services name i = Some m \<Longrightarrow> \<exists>k. services k name = Some m"
  by (rule find_channel.raw_induct [of "\<lambda>services name i m. \<exists>k. services k name = Some m"])
    (auto split: option.splits)

text \<open>\<open>sendAt\<close> returns exactly when the service is there at some attempt; a service that never comes keeps the caller for ever.\<close>

lemma sendAt_returns:
  "sendAt props services transact modemId simId atCmd \<noteq> None \<longleftrightarrow> (\<exists>k. services k (getServiceName props modemId simId) \<noteq> None)"
proof
  assume "sendAt props services transact modemId simId atCmd \<noteq> None"
  then obtain m where "find_channel services (getServiceName props modemId simId) 0 = Some m" by (auto simp: sendAt_def)
  from find_channel_sound [OF this] show "\<exists>k. services k (getServiceName props modemId simId) \<noteq> None" by auto
next
  assume "\<exists>k. services k (getServiceName props modemId simId) \<noteq> None"
  then obtain k m where "services k (getServiceName props modemId simId) = Some m" by auto
  from find_channel_from [of 0 k services, OF _ this] show "sendAt props services transact modemId simId atCmd \<noteq> None"
    by (auto simp: sendAt_def)
qed

text \<open>The modem plays no part: \<open>getPhoneId\<close>, which would combine it with the card, has no caller.\<close>

lemma modem_ignored: "sendAt props services transact modemId simId = sendAt props services transact modemId' simId"
  by (simp add: sendAt_def getServiceName_def fun_eq_iff)

text \<open>With one phone every card has the same service.\<close>

lemma one_phone_one_service: "props ''persist.msms.phone_count'' = None \<Longrightarrow> getServiceName props modemId simId = ''atchannel''"
  by (simp add: getServiceName_def property_get_def atoi32_def atoi_def signed_text_def char_space_def char_digit_def)

end
