(* ===== verification/Spec2Isabelle.thy ===== *)
theory Spec2Isabelle
  imports Image Pk1 RabProps Sha256Stream EfuseProps SitmProps BtConfProps BtVendorProps BtChipsProps DtbtoolProps AgpsSystem AtSend
    GnssProps PowerHalProps CwCaptureProps SysProps SysRemove AtClient
begin

text \<open>
  The C programs of the Samsung gtexswifi device tree.  The tree is not one program: it holds the tools that
  make the device's images on the build host, and libraries, daemons and one program of the device.  The development models
  nine of them; they meet in the images the tools write, and otherwise only through the kernel.

  \<^bold>\<open>Conventions.\<close>  A C function is a HOL function of the same name on its arguments and the state it
  reads, returning what it returns and writes.  Undefined behaviour, a crash and a loop that does not end are \<open>None\<close>
  of an option type, so every theorem whose conclusion is \<open>Some\<close> also says that the code returns and stays inside
  its buffers.  Unsigned integers are words of their width (names in \<open>Prelude\<close>); signed ones are \<open>int\<close>, with the wrap-around
  or the undefined overflow written out where it can occur.  What is outside the tree (the kernel, OpenSSL, the GPS stack, the
  Bluetooth stack, \<open>dtc\<close>, files) is an argument of the functions that use it.  Uninitialised memory is an argument too.
  Log output, freeing at exit and the strings of messages are left out everywhere.

  \<^bold>\<open>Signing, on the host: \<^verbatim>\<open>signimage/\<close> and \<^verbatim>\<open>insertheader/\<close>.\<close>
  \<^verbatim>\<open>imgheaderinsert\<close> puts a header before an image, \<^verbatim>\<open>sprd_signimg\<close> appends certificates
  signed with RSA, and the same tree has the verifier that the boot loaders run.
  \<^item> \<open>Bigint\<close> to \<open>BigintDiv\<close>: the numbers of \<^verbatim>\<open>rsa.c\<close>, arrays of 66 words (\<open>SBigInt\<close>).  Each
    operation is the one on \<open>nat\<close> under \<open>big_val\<close>, with the inputs on which the C code leaves its array made explicit.
  \<^item> \<open>RsaTrans\<close>: exponentiation.  Square and multiply is proved once in the locale \<open>modular_product\<close> over any modular product, and
    the code's word-wise product is an interpretation of it; \<open>total_modular_product\<close> adds that it always returns.
  \<^item> \<open>Rsa\<close>: the entry points (\<open>RSA_PrvEnc\<close>, \<open>RSA_PubDec\<close> and the others), with \<open>Pk1\<close> for the block formats of \<^verbatim>\<open>pk1.c\<close>.
  \<^item> \<open>PrimeNumbers\<close>, \<open>RsaKeygen\<close>, \<open>RsaKeygenProps\<close>, \<open>RabProps\<close>: key generation.  Loops over random numbers are partial
    functions; that a prime is found is not claimed, since it depends on the generator.
  \<^item> \<open>Sha256\<close>, \<open>Sha256Spec\<close>, \<open>Sha256Stream\<close>: the unrolled hash of \<^verbatim>\<open>sprdsha256.c\<close>, FIPS 180-4, and the
    locale \<open>hash_stream\<close> for clients that feed a message in pieces.
  \<^item> \<open>SecHeader\<close>, \<open>Verify\<close>, \<open>Sign\<close>: the packed structures, the verifier \<^verbatim>\<open>sprd_verify.c\<close>, the tools \<^verbatim>\<open>start.c\<close> and
    \<^verbatim>\<open>imgheaderinsert.c\<close>.  \<open>SignVerify\<close> and \<open>Image\<close> put them together: what is signed verifies, and what an accepted
    image shows.

  \<^bold>\<open>The master device tree, on the host: \<^verbatim>\<open>dtbtool/\<close>.\<close>  \<open>Dtbtool\<close> is \<^verbatim>\<open>dtbtool.c\<close> with its doubly linked
  list of chips on a heap; \<open>ChipList\<close> shows that \<open>chip_add\<close> refines sorted insertion (the order is an instance of
  \<open>linorder\<close>), \<open>DtbtoolProps\<close> that the scan keeps the list sorted and that a run that reports success has written a complete file.

  \<^bold>\<open>Fuses: \<^verbatim>\<open>libs/libefuse/\<close>.\<close>  \<open>Efuse\<close> has both variants of the library over a driver that is a
  parameter; \<open>EfuseProps\<close> follows sequences of operations on fuses that may also fail.

  \<^bold>\<open>Bluetooth: \<^verbatim>\<open>libs/libbt/\<close>.\<close>  The stack calls \<^verbatim>\<open>bt_vendor_sprd.c\<close>.
  \<^item> \<open>Sitm\<close>, \<open>SitmProps\<close>: the two threads that copy H4 frames between the serial port and the stack.  The locale \<open>frame_channel\<close>
    says what a source of bytes and a sink of frames must do; both directions are interpretations.
  \<^item> \<open>BtPskey\<close>, \<open>BtConf\<close>, \<open>BtConfProps\<close>: the configuration block in its C layout, the file that fills it (\<^verbatim>\<open>conf.c\<close>), the command
    that sends it.
  \<^item> \<open>BtUpio\<close>, \<open>BtUpioProps\<close>: the wake signal and its timer, the power switch (\<^verbatim>\<open>upio.c\<close>), as a state machine whose steps are whole
    operations.
  \<^item> \<open>BtVendor\<close>, \<open>BtVendorProps\<close>: requests, commands to the chip and the events it answers with.
  \<^item> \<open>BtChips\<close>, \<open>BtChipsProps\<close>: the two chips that other boards have, \<^verbatim>\<open>marlin2\<close> and \<^verbatim>\<open>sr2351\<close>; the first can be
    configured any number of times, which marlin cannot.

  \<^bold>\<open>Assisted GPS: \<^verbatim>\<open>libs/aGPS/\<close>.\<close>  The modem talks AT lines; \<^verbatim>\<open>sprd_agps_agent.c\<close> turns them into
  calls of the GPS stack.
  \<^item> \<open>AtParser\<close>: tokens, cut in place out of the line's buffer as \<^verbatim>\<open>parser.c\<close> does, and the same on text.
  \<^item> \<open>WorkQueue\<close>: the linked queue of \<^verbatim>\<open>atc.c\<close>, an interpretation of the locale \<open>fifo\<close>.
  \<^item> \<open>AtChannel\<close>, \<open>AtChannelProps\<close>: the line reader, in whatever pieces the bytes come.  \<open>AtSend\<close>: synchronous commands and the
    reader thread as interleaved steps.
  \<^item> \<open>Agps\<close>, \<open>AgpsProps\<close>, \<open>AgpsSystem\<close>: the handlers, which lines crash them, and agent and channel together.
  \<^item> \<open>AtClient\<close>: \<^verbatim>\<open>libs/libatchannel\<close>, by which other programs send an AT command through the telephony service.

  \<^bold>\<open>Positioning test mode: \<^verbatim>\<open>libs/gnsspc/\<close>.\<close>  \<open>Gnss\<close> reads the receiver's sentences and keeps the state,
  \<open>GnssCmd\<close> has the test commands and their dispatch, \<open>GnssProps\<close> follows a value from the sentence to the answer.  Floating point
  numbers are an abstract type with the operations the code applies to them.
  \<^item> \<open>Fft\<close>, \<open>FftProps\<close>: the transform of \<^verbatim>\<open>fft.c\<close>, in place and in order of decimation in time.  The arithmetic is a
    parameter, so the definitions fix the order of the operations and no rounding; with the real numbers for it the result
    is the discrete Fourier transform.
  \<^item> \<open>CwCapture\<close>, \<open>CwCaptureProps\<close>: samples read from lines of text, the window, the power of carrier and noise, up to the number reported.

  \<^bold>\<open>Power: \<^verbatim>\<open>power/\<close>.\<close>  \<open>PowerHal\<close> is \<^verbatim>\<open>power_scx35.c\<close> over a map from paths to contents;
  \<open>PowerHalProps\<close> has any run of hints and screen changes.

  \<^bold>\<open>Space on the system partition: \<^verbatim>\<open>system_optimizer/\<close>.\<close>  A C++ program that a service starts when the device has
  booted.  \<open>SysTree\<close> is the file system, \<open>SysOpt\<close> the object of the class and its helpers, \<open>SysPasses\<close> the eleven passes and the command
  line.  What the kernel allows and what a shell command does to the files are parameters.  \<open>SysProps\<close> has the locale \<open>kept_by_passes\<close>: what the
  primitive changes keep is kept by a run; its interpretations are that a dry run changes nothing and that no critical file is
  deleted.  \<open>SysRemove\<close> has what a recursive removal leaves.

  \<^bold>\<open>Shared.\<close>  \<open>Prelude\<close> (integers, bytes, lists), \<open>LeBytes\<close> (little-endian memory), \<open>CString\<close> and \<open>CText\<close> (the string
  functions of the C library, on buffers with a terminator and on texts).

  \<^bold>\<open>Loops and bounds.\<close>  Loops whose end is not structural are functions with a measure or \<open>partial_function (option)\<close>; fuel is
  used nowhere in a statement.  Bounds come from the code: 66 words of a number, keys of any number of full words in the round trip and of 2048 bits in the tool,
  page sizes up to \<open>PAGE_SIZE_MAX\<close>, files below \<open>2 ^ 31\<close> bytes (the size is an \<open>int\<close>), the buffers of the line reader
  and of the commands.

  \<^bold>\<open>Concurrency.\<close>  \<open>AtSend\<close> interleaves at every step that another thread can see.  \<open>BtUpio\<close> interleaves the timer thread with whole
  operations: the code takes no lock there, so finer interleavings exist that the model does not have.  \<open>Sitm\<close>'s two
  threads share nothing.

  \<^bold>\<open>Not modelled.\<close>  The OpenSSL headers (third party; the library is a parameter); the symbol shims and stubs for vendor
  binaries (they forward calls, or replace parts of programs that are not in the tree); \<^verbatim>\<open>atd.c\<close> and \<^verbatim>\<open>main.c\<close> of aGPS
  (wrappers and a test program); the dumps of the Bluetooth chips' blocks to the log; the report that \<^verbatim>\<open>system_optimizer\<close> prints; configuration files and policies.
\<close>

end
